(* ===== verification/Prelude.thy ===== *)
theory Prelude
  imports Complex_Main "HOL-Library.Char_ord" "HOL-Library.List_Lexorder" "HOL-Library.Product_Lexorder"
begin

text \<open>
  Shared vocabulary of the development.

  \<^item> \<open>res\<close>: the outcome of a Rust call. \<open>Ok\<close> and \<open>Err\<close> are \<open>Result\<close> (or \<open>Some\<close> and
    \<open>None\<close>, with the error type \<open>unit\<close>), \<open>Panic\<close> is an operator that panics, such as an
    unchecked decimal operation that overflows. \<open>bind_res\<close> is the \<open>?\<close> operator.
  \<^item> \<open>BTreeMap\<close> is an association list kept strictly sorted by key; \<open>HashMap\<close> is an
    association list with distinct keys whose order stands for one iteration order.
    Both implement the interface \<open>finite_map\<close>, under which the client lemmas are proved.
  \<^item> \<open>transition_system\<close>: the interface of every component with state, a step function and
    an invariant that each step keeps; the run lemmas are proved once here.
  \<^item> \<open>cas_cell\<close>: the contract of a cell that is replaced by compare-and-swap.
  \<^item> fixed-width unsigned arithmetic on \<open>nat\<close>, with saturation and wrap-around written out.
\<close>

named_theorems res_simps \<open>rewrite rules for outcomes and the early-return operator\<close>
named_theorems eval_simps \<open>definitions unfolded to evaluate a closed term with the simplifier\<close>
named_theorems map_simps \<open>lookups after updates of the association-list maps\<close>

section \<open>Outcomes of a call\<close>

datatype ('e, 'a) res = Ok 'a | Err 'e | Panic

type_synonym 'a opt = "(unit, 'a) res"

fun bind_res :: "('e, 'a) res \<Rightarrow> ('a \<Rightarrow> ('e, 'b) res) \<Rightarrow> ('e, 'b) res" where
  "bind_res (Ok x) f = f x"
| "bind_res (Err e) f = Err e"
| "bind_res Panic f = Panic"

fun ok_or :: "'e \<Rightarrow> 'a option \<Rightarrow> ('e, 'a) res" where
  "ok_or e (Some x) = Ok x"
| "ok_or e None = Err e"

fun or_panic :: "'a option \<Rightarrow> ('e, 'a) res" where
  "or_panic (Some x) = Ok x"
| "or_panic None = Panic"

fun res_ok :: "('e, 'a) res \<Rightarrow> 'a option" where
  "res_ok (Ok x) = Some x"
| "res_ok (Err e) = None"
| "res_ok Panic = None"

section \<open>Maps as association lists\<close>

fun bt_insert :: "'k::linorder \<Rightarrow> 'v \<Rightarrow> ('k \<times> 'v) list \<Rightarrow> ('k \<times> 'v) list" where
  "bt_insert k v [] = [(k, v)]"
| "bt_insert k v ((k', v') # m) =
     (if k < k' then (k, v) # (k', v') # m
      else if k = k' then (k, v) # m
      else (k', v') # bt_insert k v m)"

fun hm_insert :: "'k \<Rightarrow> 'v \<Rightarrow> ('k \<times> 'v) list \<Rightarrow> ('k \<times> 'v) list" where
  "hm_insert k v [] = [(k, v)]"
| "hm_insert k v ((k', v') # m) =
     (if k = k' then (k, v) # m else (k', v') # hm_insert k v m)"

definition al_remove :: "'k \<Rightarrow> ('k \<times> 'v) list \<Rightarrow> ('k \<times> 'v) list" where
  "al_remove k m = filter (\<lambda>(k', _). k' \<noteq> k) m"

definition al_retain :: "('k \<Rightarrow> 'v \<Rightarrow> bool) \<Rightarrow> ('k \<times> 'v) list \<Rightarrow> ('k \<times> 'v) list" where
  "al_retain p m = filter (\<lambda>(k, v). p k v) m"

abbreviation al_get :: "('k \<times> 'v) list \<Rightarrow> 'k \<Rightarrow> 'v option" where
  "al_get \<equiv> map_of"

definition al_has :: "'k \<Rightarrow> ('k \<times> 'v) list \<Rightarrow> bool" where
  "al_has k m \<longleftrightarrow> k \<in> set (map fst m)"

definition bt_wf :: "('k::linorder \<times> 'v) list \<Rightarrow> bool" where
  "bt_wf m \<longleftrightarrow> sorted_wrt (<) (map fst m)"

definition hm_wf :: "('k \<times> 'v) list \<Rightarrow> bool" where
  "hm_wf m \<longleftrightarrow> distinct (map fst m)"

section \<open>Unsigned arithmetic\<close>

definition u32_max :: nat where "u32_max = 2 ^ 32 - 1"
definition u64_max :: nat where "u64_max = 2 ^ 64 - 1"

definition sat_add :: "nat \<Rightarrow> nat \<Rightarrow> nat \<Rightarrow> nat" where
  "sat_add hi a b = min (a + b) hi"

definition wrap64 :: "nat \<Rightarrow> nat" where
  "wrap64 n = n mod 2 ^ 64"

section \<open>Interfaces\<close>

text \<open>
  What the components rely on in a Rust map. \<open>wf\<close> is the representation invariant the
  operations keep; \<open>entries\<close> is the iteration order.
\<close>

locale finite_map =
  fixes ins :: "'k \<Rightarrow> 'v \<Rightarrow> ('k \<times> 'v) list \<Rightarrow> ('k \<times> 'v) list"
    and wf :: "('k \<times> 'v) list \<Rightarrow> bool"
  assumes wf_empty: "wf []"
    and wf_ins: "wf m \<Longrightarrow> wf (ins k v m)"
    and wf_filter: "wf m \<Longrightarrow> wf (filter p m)"
    and wf_distinct: "wf m \<Longrightarrow> distinct (map fst m)"
    and get_ins: "wf m \<Longrightarrow> map_of (ins k v m) k' = (if k' = k then Some v else map_of m k')"
    and set_ins: "wf m \<Longrightarrow> set (ins k v m) = insert (k, v) {e \<in> set m. fst e \<noteq> k}"
    and length_ins: "wf m \<Longrightarrow>
      length (ins k v m) = (if k \<in> set (map fst m) then length m else Suc (length m))"
begin

lemma wf_remove: "wf m \<Longrightarrow> wf (al_remove k m)"
  by (simp add: al_remove_def wf_filter)

lemma wf_retain: "wf m \<Longrightarrow> wf (al_retain p m)"
  by (simp add: al_retain_def wf_filter)

lemma get_ins_same: "wf m \<Longrightarrow> map_of (ins k v m) k = Some v"
  by (simp add: get_ins)

lemma length_ins_le: "wf m \<Longrightarrow> length (ins k v m) \<le> Suc (length m)"
  by (simp add: length_ins)

lemma keys_ins: "wf m \<Longrightarrow> fst ` set (ins k v m) = insert k (fst ` set m)"
  by (auto simp: set_ins image_iff)

end

text \<open>
  A component with state: \<open>step\<close> is one operation, \<open>inv\<close> what every operation keeps. A run
  is the fold of the steps over a list of events, in the order they take the lock.
\<close>

locale transition_system =
  fixes step :: "'s \<Rightarrow> 'e \<Rightarrow> 's"
    and inv :: "'s \<Rightarrow> bool"
  assumes step_inv: "inv s \<Longrightarrow> inv (step s e)"
begin

lemma run_inv: "inv s \<Longrightarrow> inv (foldl step s es)"
  by (induction es arbitrary: s) (auto intro: step_inv)

lemma run_prefix_inv: "inv s \<Longrightarrow> inv (foldl step s (take n es))"
  by (rule run_inv)

end

text \<open>
  A guarded quantity of a transition system: a measure that no step lowers, such as a
  sequence number or a last-event time. It never goes back along a run.
\<close>

locale monotone_system = transition_system +
  fixes measure_of :: "'s \<Rightarrow> 'm::preorder"
  assumes step_mono: "inv s \<Longrightarrow> measure_of s \<le> measure_of (step s e)"
begin

lemma run_mono: "inv s \<Longrightarrow> measure_of s \<le> measure_of (foldl step s es)"
proof (induction es arbitrary: s)
  case Nil
  show ?case by simp
next
  case (Cons e es)
  have "measure_of s \<le> measure_of (step s e)" by (rule step_mono [OF Cons.prems])
  also have "\<dots> \<le> measure_of (foldl step (step s e) es)"
    by (rule Cons.IH [OF step_inv [OF Cons.prems]])
  finally show ?case by simp
qed

end

text \<open>
  Compare-and-swap: \<open>swap current expected next\<close> gives the new content or refuses.
\<close>

locale cas_cell =
  fixes swap :: "'s \<Rightarrow> 's \<Rightarrow> 's \<Rightarrow> 'e + 's"
    and valid :: "'s \<Rightarrow> bool"
  assumes swap_result: "swap cur old new = Inr s \<Longrightarrow> s = new"
    and swap_expected: "swap cur old new = Inr s \<Longrightarrow> cur = old"
    and swap_valid: "swap cur old new = Inr s \<Longrightarrow> valid new"
begin

definition attempt_swap :: "'s \<Rightarrow> 's \<times> 's \<Rightarrow> 's" where
  "attempt_swap cur req = (case swap cur (fst req) (snd req) of Inl _ \<Rightarrow> cur | Inr s \<Rightarrow> s)"

lemma attempt_valid: "valid cur \<Longrightarrow> valid (attempt_swap cur req)"
  by (auto simp: attempt_swap_def split: sum.splits dest: swap_result swap_valid)

lemma attempts_valid: "valid cur \<Longrightarrow> valid (foldl attempt_swap cur reqs)"
  by (induction reqs arbitrary: cur) (auto intro: attempt_valid)

text \<open>Of two writers that read the same content, at most one lands unless it is a no-op.\<close>

lemma lost_update:
  assumes "swap cur old n1 = Inr s1" and "swap s1 old n2 = Inr s2"
  shows "n1 = old"
  using assms swap_result swap_expected by metis

end

section \<open>Lemmas on outcomes\<close>

lemma bind_res_Ok_iff [res_simps]:
  "bind_res r f = Ok y \<longleftrightarrow> (\<exists>x. r = Ok x \<and> f x = Ok y)"
  by (cases r) auto

lemma bind_res_Err_iff [res_simps]:
  "bind_res r f = Err e \<longleftrightarrow> r = Err e \<or> (\<exists>x. r = Ok x \<and> f x = Err e)"
  by (cases r) auto

lemma bind_res_Panic_iff [res_simps]:
  "bind_res r f = Panic \<longleftrightarrow> r = Panic \<or> (\<exists>x. r = Ok x \<and> f x = Panic)"
  by (cases r) auto

lemma ok_or_Ok_iff [res_simps]: "ok_or e m = Ok x \<longleftrightarrow> m = Some x"
  by (cases m) auto

lemma ok_or_Err_iff [res_simps]: "ok_or e m = Err e' \<longleftrightarrow> m = None \<and> e' = e"
  by (cases m) auto

lemma ok_or_not_Panic [simp, res_simps]: "ok_or e m \<noteq> Panic"
  by (cases m) auto

lemma or_panic_Ok_iff [res_simps]: "or_panic m = Ok x \<longleftrightarrow> m = Some x"
  by (cases m) auto

lemma or_panic_Panic_iff [res_simps]: "or_panic m = Panic \<longleftrightarrow> m = None"
  by (cases m) auto

lemma or_panic_not_Err [simp, res_simps]: "or_panic m \<noteq> Err e"
  by (cases m) auto

text \<open>Chains of guards that each return early.\<close>

lemma guard_None [res_simps]: "(if c then Some x else r) = None \<longleftrightarrow> \<not> c \<and> r = None"
  by simp

lemma first_None [res_simps]: "(case m of None \<Rightarrow> r | Some e \<Rightarrow> Some e) = None \<longleftrightarrow> m = None \<and> r = None"
  by (cases m) auto

lemma guard_Ok [res_simps]: "(if c then Err e else r) = Ok x \<longleftrightarrow> \<not> c \<and> r = Ok x"
  by simp

lemma guard_Inr [res_simps]: "(if c then Inl e else r) = Inr x \<longleftrightarrow> \<not> c \<and> r = Inr x"
  by simp

section \<open>Lemmas on maps\<close>

lemma al_remove_get [map_simps]:
  "map_of (al_remove k m) k' = (if k' = k then None else map_of m k')"
  by (induction m) (auto simp: al_remove_def)

lemma al_has_iff [map_simps]: "al_has k m \<longleftrightarrow> map_of m k \<noteq> None"
  by (simp add: al_has_def map_of_eq_None_iff)

lemma al_remove_absent: "map_of m k = None \<Longrightarrow> al_remove k m = m"
  by (induction m) (auto simp: al_remove_def split: if_splits)

lemma length_al_remove_le: "length (al_remove k m) \<le> length m"
  by (simp add: al_remove_def)

lemma length_al_retain_le: "length (al_retain p m) \<le> length m"
  by (simp add: al_retain_def)

lemma set_al_remove: "set (al_remove k m) = {e \<in> set m. fst e \<noteq> k}"
  by (auto simp: al_remove_def)

lemma set_al_retain: "set (al_retain p m) = {(k, v). (k, v) \<in> set m \<and> p k v}"
  by (auto simp: al_retain_def)

lemma map_of_al_retain:
  assumes "distinct (map fst m)"
  shows "map_of (al_retain p m) k = (case map_of m k of None \<Rightarrow> None
           | Some v \<Rightarrow> if p k v then Some v else None)"
  using assms
proof (induction m)
  case Nil
  then show ?case by (simp add: al_retain_def)
next
  case (Cons e m)
  obtain k' v' where e: "e = (k', v')" by (cases e)
  from Cons e show ?case
    by (auto simp: al_retain_def map_of_eq_None_iff image_iff split: option.splits)
qed

lemma bt_insert_keys: "fst ` set (bt_insert k v m) = insert k (fst ` set m)"
  by (induction k v m rule: bt_insert.induct) (simp_all add: insert_commute)

lemma bt_insert_get: "map_of (bt_insert k v m) k' = (if k' = k then Some v else map_of m k')"
  by (induction m) auto

lemma bt_wf_Cons: "bt_wf ((k, v) # m) \<longleftrightarrow> (\<forall>x \<in> fst ` set m. k < x) \<and> bt_wf m"
  by (simp add: bt_wf_def)

lemma bt_insert_wf: "bt_wf m \<Longrightarrow> bt_wf (bt_insert k v m)"
proof (induction m)
  case Nil
  show ?case by (simp add: bt_wf_def)
next
  case (Cons e m)
  obtain k' v' where e: "e = (k', v')" by (cases e)
  from Cons.prems e have lo: "\<forall>x \<in> fst ` set m. k' < x" and m: "bt_wf m"
    by (simp_all add: bt_wf_Cons)
  have "bt_wf (bt_insert k v m)" by (rule Cons.IH [OF m])
  with lo m e show ?case
    by (auto simp: bt_wf_Cons bt_insert_keys simp del: image_eqI)
qed

lemma bt_wf_distinct: "bt_wf m \<Longrightarrow> distinct (map fst m)"
  by (induction m) (auto simp: bt_wf_def)

lemma bt_insert_set: "bt_wf m \<Longrightarrow> set (bt_insert k v m) = insert (k, v) {e \<in> set m. fst e \<noteq> k}"
proof (induction m)
  case (Cons e m)
  obtain k' v' where e: "e = (k', v')" by (cases e)
  from Cons e show ?case by (auto simp: bt_wf_Cons)
qed simp

lemma bt_insert_length: "bt_wf m \<Longrightarrow>
    length (bt_insert k v m) = (if k \<in> set (map fst m) then length m else Suc (length m))"
proof (induction m)
  case (Cons e m)
  obtain k' v' where e: "e = (k', v')" by (cases e)
  from Cons e show ?case by (auto simp: bt_wf_Cons)
qed simp

lemma bt_filter_wf: "bt_wf m \<Longrightarrow> bt_wf (filter p m)"
proof (induction m)
  case (Cons e m)
  obtain k' v' where e: "e = (k', v')" by (cases e)
  from Cons e show ?case by (auto simp: bt_wf_Cons)
qed simp

interpretation bt: finite_map bt_insert bt_wf
proof unfold_locales
  show "bt_wf []" by (simp add: bt_wf_def)
qed (auto simp: bt_insert_wf bt_filter_wf bt_wf_distinct bt_insert_get bt_insert_set
       bt_insert_length)

lemma hm_insert_keys: "fst ` set (hm_insert k v m) = insert k (fst ` set m)"
  by (induction k v m rule: hm_insert.induct) (simp_all add: insert_commute)

lemma hm_insert_wf: "hm_wf m \<Longrightarrow> hm_wf (hm_insert k v m)"
proof (induction m)
  case (Cons e m)
  obtain k' v' where e: "e = (k', v')" by (cases e)
  have "fst ` set (hm_insert k v m) = insert k (fst ` set m)" by (rule hm_insert_keys)
  with Cons e show ?case by (auto simp: hm_wf_def)
qed (simp add: hm_wf_def)

lemma hm_insert_get: "map_of (hm_insert k v m) k' = (if k' = k then Some v else map_of m k')"
  by (induction m) auto

lemma hm_insert_set: "hm_wf m \<Longrightarrow> set (hm_insert k v m) = insert (k, v) {e \<in> set m. fst e \<noteq> k}"
proof (induction m)
  case (Cons e m)
  obtain k' v' where e: "e = (k', v')" by (cases e)
  from Cons e show ?case by (auto simp: hm_wf_def image_iff)
qed simp

lemma hm_insert_length:
  "length (hm_insert k v m) = (if k \<in> set (map fst m) then length m else Suc (length m))"
  by (induction k v m rule: hm_insert.induct) simp_all

lemma hm_filter_wf: "hm_wf m \<Longrightarrow> hm_wf (filter p m)"
  by (induction m) (auto simp: hm_wf_def)

interpretation hm: finite_map hm_insert hm_wf
proof unfold_locales
  show "hm_wf []" by (simp add: hm_wf_def)
next
  show "distinct (map fst m)" if "hm_wf m" for m :: "('k \<times> 'v) list"
    using that by (simp add: hm_wf_def)
qed (simp_all add: hm_insert_wf hm_filter_wf hm_insert_get hm_insert_set hm_insert_length)

lemmas [map_simps] = bt_insert_get hm_insert_get

lemma al_retain_wf: "hm_wf m \<Longrightarrow> hm_wf (al_retain p m)"
  by (rule hm.wf_retain)

lemmas [eval_simps] = al_remove_def al_retain_def al_has_def sat_add_def wrap64_def u32_max_def
  u64_max_def Let_def

section \<open>Lemmas on lists and arithmetic\<close>

lemma in_image_iff: "y \<in> f ` A \<longleftrightarrow> (\<exists>x \<in> A. f x = y)"
  by (metis image_iff)

lemma filter_length_mono: "(\<And>x. p x \<Longrightarrow> q x) \<Longrightarrow> length (filter p xs) \<le> length (filter q xs)"
  by (induction xs) auto

lemma sat_add_le: "sat_add hi a b \<le> hi"
  by (simp add: sat_add_def)

lemma sat_add_exact: "sat_add hi a b < hi \<Longrightarrow> sat_add hi a b = a + b"
  by (simp add: sat_add_def)

lemma wrap64_id: "n < 2 ^ 64 \<Longrightarrow> wrap64 n = n"
  by (simp add: wrap64_def)

lemma foldl_inv: "P s \<Longrightarrow> (\<And>s x. x \<in> set xs \<Longrightarrow> P s \<Longrightarrow> P (f s x)) \<Longrightarrow> P (foldl f s xs)"
  by (induction xs arbitrary: s) auto

end
