(* ===== verification/Policy.thy ===== *)
theory Policy
  imports Prelude
begin

text \<open>
  \<^verbatim>\<open>src/crates/policy/src/lib.rs\<close>: the capability classes, the ordered risk classes and the
  decision \<open>decide\<close> that every agent action goes through. The risk classes are ordered by
  declaration, as \<open>derive(PartialOrd)\<close> orders them.
\<close>

datatype capability =
  ReadSystem | ReadData | WriteData | ExecuteCode | ManageServices | ManageFiles
| TradingRead | TradingPropose | TradingExecute | Admin

datatype risk_class =
  ReadOnly | Reversible | Mutating | Destructive | Financial | Administrative

fun risk_rank :: "risk_class \<Rightarrow> nat" where
  "risk_rank ReadOnly = 0"
| "risk_rank Reversible = 1"
| "risk_rank Mutating = 2"
| "risk_rank Destructive = 3"
| "risk_rank Financial = 4"
| "risk_rank Administrative = 5"

lemma risk_rank_inj: "risk_rank a = risk_rank b \<Longrightarrow> a = b"
  by (cases a; cases b) auto

instantiation risk_class :: linorder
begin

definition less_eq_risk_class :: "risk_class \<Rightarrow> risk_class \<Rightarrow> bool" where
  "less_eq_risk_class a b \<longleftrightarrow> risk_rank a \<le> risk_rank b"

definition less_risk_class :: "risk_class \<Rightarrow> risk_class \<Rightarrow> bool" where
  "less_risk_class a b \<longleftrightarrow> risk_rank a < risk_rank b"

instance
  by standard (auto simp: less_eq_risk_class_def less_risk_class_def risk_rank_inj)

end

record policy_context =
  capability :: capability
  risk :: risk_class
  trusted_device :: bool
  approved :: bool
  reversible :: bool

datatype policy_decision = Allow | RequireApproval | Deny

definition decide :: "policy_context \<Rightarrow> policy_decision" where
  "decide c =
     (if \<not> trusted_device c then Deny
      else if risk c \<ge> Financial \<or> risk c \<ge> Administrative then
        (if approved c then Allow else RequireApproval)
      else (case capability c of
          TradingExecute \<Rightarrow> if approved c then Allow else RequireApproval
        | Admin \<Rightarrow> if approved c then Allow else RequireApproval
        | ExecuteCode \<Rightarrow> if approved c then Allow else RequireApproval
        | ManageServices \<Rightarrow> if approved c then Allow else RequireApproval
        | ManageFiles \<Rightarrow> if reversible c \<or> approved c then Allow else RequireApproval
        | WriteData \<Rightarrow> if reversible c \<or> approved c then Allow else RequireApproval
        | ReadSystem \<Rightarrow> Allow
        | ReadData \<Rightarrow> Allow
        | TradingRead \<Rightarrow> Allow
        | TradingPropose \<Rightarrow> Allow))"

text \<open>The operations that run on a trusted device without anybody's approval.\<close>

definition automatic :: "policy_context \<Rightarrow> bool" where
  "automatic c \<longleftrightarrow> risk c < Financial \<and>
     (capability c \<in> {ReadSystem, ReadData, TradingRead, TradingPropose}
      \<or> capability c \<in> {ManageFiles, WriteData} \<and> reversible c)"

lemmas risk_order_simps = less_eq_risk_class_def less_risk_class_def

lemma financial_or_administrative: "r \<ge> Administrative \<Longrightarrow> r \<ge> Financial"
  by (cases r) (auto simp: risk_order_simps)

lemma decide_untrusted: "\<not> trusted_device c \<Longrightarrow> decide c = Deny"
  by (simp add: decide_def)

lemma decide_approved: "trusted_device c \<Longrightarrow> approved c \<Longrightarrow> decide c = Allow"
  by (simp add: decide_def split: capability.split)

lemma decide_unapproved:
  assumes "trusted_device c" and "\<not> approved c"
  shows "decide c = (if automatic c then Allow else RequireApproval)"
proof (cases "risk c \<ge> Financial")
  case True
  with assms show ?thesis by (auto simp: decide_def automatic_def)
next
  case False
  then have "\<not> risk c \<ge> Administrative" using financial_or_administrative by blast
  with assms False show ?thesis
    by (cases "capability c") (auto simp: decide_def automatic_def)
qed

text \<open>
  C1. The policy decision in full, for every context: an untrusted device is always denied,
  an approved operation of a trusted device is always allowed, and an unapproved one is
  allowed exactly when it is automatic (below the financial risk class, and a read, a
  proposal or a reversible file or data change); everything else asks for approval.
\<close>

theorem decide_characterised:
  "decide c = (if \<not> trusted_device c then Deny
     else if approved c \<or> automatic c then Allow else RequireApproval)"
  by (cases "approved c") (simp_all add: decide_untrusted decide_approved decide_unapproved)

end
