(* ===== verification/Strings.thy ===== *)
theory Strings
  imports Prelude
begin

text \<open>
  The parts of Rust's \<open>str\<close> and \<open>Path\<close> that the components use. A Rust string is its
  UTF-8 bytes: one \<open>char\<close> of HOL is one byte, so \<open>length\<close> is \<open>str::len\<close>. Functions that Rust
  defines on code points (\<open>trim\<close>, \<open>chars\<close>, \<open>char::is_control\<close>) are written over the byte
  sequences that encode those code points.
\<close>

section \<open>Bytes and ASCII\<close>

definition byte :: "char \<Rightarrow> nat" where
  "byte c = of_char c"

definition is_ascii_lowercase :: "char \<Rightarrow> bool" where
  "is_ascii_lowercase c \<longleftrightarrow> 97 \<le> byte c \<and> byte c \<le> 122"

definition is_ascii_uppercase :: "char \<Rightarrow> bool" where
  "is_ascii_uppercase c \<longleftrightarrow> 65 \<le> byte c \<and> byte c \<le> 90"

definition is_ascii_digit :: "char \<Rightarrow> bool" where
  "is_ascii_digit c \<longleftrightarrow> 48 \<le> byte c \<and> byte c \<le> 57"

definition lower_char :: "char \<Rightarrow> char" where
  "lower_char c = (if is_ascii_uppercase c then char_of (byte c + 32) else c)"

definition to_ascii_lowercase :: "string \<Rightarrow> string" where
  "to_ascii_lowercase s = map lower_char s"

definition eq_ignore_ascii_case :: "string \<Rightarrow> string \<Rightarrow> bool" where
  "eq_ignore_ascii_case a b \<longleftrightarrow> to_ascii_lowercase a = to_ascii_lowercase b"

section \<open>Searching and splitting\<close>

definition starts_with :: "string \<Rightarrow> string \<Rightarrow> bool" where
  "starts_with s p \<longleftrightarrow> take (length p) s = p"

definition ends_with :: "string \<Rightarrow> string \<Rightarrow> bool" where
  "ends_with s p \<longleftrightarrow> length p \<le> length s \<and> drop (length s - length p) s = p"

fun contains_str :: "string \<Rightarrow> string \<Rightarrow> bool" where
  "contains_str [] p \<longleftrightarrow> p = []"
| "contains_str (c # s) p \<longleftrightarrow> starts_with (c # s) p \<or> contains_str s p"

text \<open>\<open>str::split\<close> on one character: always at least one piece.\<close>

fun split_on :: "char \<Rightarrow> string \<Rightarrow> string list" where
  "split_on d [] = [[]]"
| "split_on d (c # s) =
     (if c = d then [] # split_on d s
      else (case split_on d s of [] \<Rightarrow> [[c]] | p # ps \<Rightarrow> (c # p) # ps))"

fun split_once :: "char \<Rightarrow> string \<Rightarrow> (string \<times> string) option" where
  "split_once d [] = None"
| "split_once d (c # s) =
     (if c = d then Some ([], s)
      else (case split_once d s of None \<Rightarrow> None | Some (a, b) \<Rightarrow> Some (c # a, b)))"

text \<open>\<open>str::lines\<close>: no piece after a final newline, and a trailing carriage return is cut.\<close>

definition cut_cr :: "string \<Rightarrow> string" where
  "cut_cr l = (if l \<noteq> [] \<and> last l = CHR 0x0D then butlast l else l)"

definition str_lines :: "string \<Rightarrow> string list" where
  "str_lines s = (let ps = split_on CHR 0x0A s; n = length ps in
     map cut_cr (butlast ps) @ (if last ps = [] then [] else [last ps]))"

section \<open>Code points\<close>

text \<open>
  The number of leading bytes that encode one white-space code point, or 0. The white-space
  code points are U+0009 to U+000D, U+0020, U+0085, U+00A0, U+1680, U+2000 to U+200A, U+2028,
  U+2029, U+202F, U+205F and U+3000.
\<close>

definition ws_prefix :: "nat list \<Rightarrow> nat" where
  "ws_prefix bs = (case bs of
     [] \<Rightarrow> 0
   | a # r \<Rightarrow>
       if (9 \<le> a \<and> a \<le> 13) \<or> a = 32 then 1
       else (case r of
          [] \<Rightarrow> 0
        | b # r' \<Rightarrow>
            if a = 194 \<and> (b = 133 \<or> b = 160) then 2
            else (case r' of
               [] \<Rightarrow> 0
             | c # _ \<Rightarrow>
                 if (a = 225 \<and> b = 154 \<and> c = 128)
                    \<or> (a = 226 \<and> b = 128 \<and> ((128 \<le> c \<and> c \<le> 138) \<or> c = 168 \<or> c = 169 \<or> c = 175))
                    \<or> (a = 226 \<and> b = 129 \<and> c = 159)
                    \<or> (a = 227 \<and> b = 128 \<and> c = 128)
                 then 3 else 0)))"

function trim_start :: "string \<Rightarrow> string" where
  "trim_start s = (let n = ws_prefix (map byte s) in if n = 0 then s else trim_start (drop n s))"
  by pat_completeness auto
termination
proof (relation "measure length", simp)
  fix s :: string and n
  assume n: "n = ws_prefix (map byte s)" and nz: "n \<noteq> 0"
  then have "s \<noteq> []" by (auto simp: ws_prefix_def)
  with nz show "(drop n s, s) \<in> measure length" by simp
qed

declare trim_start.simps [simp del]

text \<open>The number of trailing bytes that encode one white-space code point, given the bytes reversed.\<close>

definition ws_suffix :: "nat list \<Rightarrow> nat" where
  "ws_suffix bs = (if ws_prefix (take 1 bs) = 1 then 1
     else if ws_prefix (rev (take 2 bs)) = 2 then 2
     else if ws_prefix (rev (take 3 bs)) = 3 then 3 else 0)"

function trim_end :: "string \<Rightarrow> string" where
  "trim_end s = (let n = ws_suffix (rev (map byte s)) in if n = 0 then s else trim_end (take (length s - n) s))"
  by pat_completeness auto
termination
proof (relation "measure length", simp)
  fix s :: string and n
  assume n: "n = ws_suffix (rev (map byte s))" and nz: "n \<noteq> 0"
  then have "s \<noteq> []" by (auto simp: ws_suffix_def ws_prefix_def)
  with nz show "(take (length s - n) s, s) \<in> measure length" by simp
qed

declare trim_end.simps [simp del]

definition trim :: "string \<Rightarrow> string" where
  "trim s = trim_end (trim_start s)"

text \<open>\<open>s.trim().is_empty()\<close>: nothing but white space.\<close>

definition trim_is_empty :: "string \<Rightarrow> bool" where
  "trim_is_empty s \<longleftrightarrow> trim_start s = []"

lemma not_blank: "s \<noteq> [] \<Longrightarrow> ws_prefix (map byte s) = 0 \<Longrightarrow> \<not> trim_is_empty s"
  by (simp add: trim_is_empty_def trim_start.simps)

text \<open>\<open>s.chars().count()\<close>: the bytes that are not UTF-8 continuation bytes.\<close>

definition chars_count :: "string \<Rightarrow> nat" where
  "chars_count s = length (filter (\<lambda>c. byte c div 64 \<noteq> 2) s)"

text \<open>\<open>s.chars().any(char::is_control)\<close>: U+0000 to U+001F and U+007F to U+009F.\<close>

fun any_control :: "string \<Rightarrow> bool" where
  "any_control [] = False"
| "any_control (c # s) =
     (byte c < 32 \<or> byte c = 127
      \<or> (byte c = 194 \<and> (case s of [] \<Rightarrow> False | d # _ \<Rightarrow> 128 \<le> byte d \<and> byte d \<le> 159))
      \<or> any_control s)"

text \<open>\<open>s.chars().take(n)\<close> collected.\<close>

fun take_chars :: "nat \<Rightarrow> string \<Rightarrow> string" where
  "take_chars n [] = []"
| "take_chars n (c # s) =
     (if byte c div 64 = 2 then c # take_chars n s
      else case n of 0 \<Rightarrow> [] | Suc m \<Rightarrow> c # take_chars m s)"

text \<open>\<open>format!("{}", n)\<close> of an unsigned number.\<close>

fun show_nat :: "nat \<Rightarrow> string" where
  "show_nat n = (if n < 10 then [char_of (48 + n)] else show_nat (n div 10) @ [char_of (48 + n mod 10)])"

declare show_nat.simps [simp del]

definition newline :: string where "newline = [CHR 0x0A]"
definition em_dash :: string where "em_dash = [CHR 0xE2, CHR 0x80, CHR 0x94]"

section \<open>Results of file system calls\<close>

datatype io_kind = NotFoundKind | AlreadyExistsKind | OtherKind

datatype 'a io = IoOk 'a | IoErr io_kind string

section \<open>Paths\<close>

text \<open>
  A path is its list of components, as \<open>Path::components\<close> gives them for an absolute path:
  empty and \<open>.\<close> components are dropped, \<open>..\<close> is kept.
\<close>

type_synonym path = "string list"

definition path_components :: "string \<Rightarrow> path" where
  "path_components s = filter (\<lambda>c. c \<noteq> [] \<and> c \<noteq> ''.'') (split_on CHR ''/'' s)"

definition path_is_absolute :: "string \<Rightarrow> bool" where
  "path_is_absolute s \<longleftrightarrow> starts_with s ''/''"

definition path_join :: "path \<Rightarrow> string \<Rightarrow> path" where
  "path_join base rel = (if path_is_absolute rel then path_components rel
     else base @ path_components rel)"

definition path_starts_with :: "path \<Rightarrow> path \<Rightarrow> bool" where
  "path_starts_with p base \<longleftrightarrow> take (length base) p = base"

definition path_file_name :: "path \<Rightarrow> string option" where
  "path_file_name p = (if p = [] \<or> last p = ''..'' then None else Some (last p))"

definition path_parent :: "path \<Rightarrow> path option" where
  "path_parent p = (if p = [] then None else Some (butlast p))"

section \<open>Lemmas\<close>

lemma split_on_nonempty [simp]: "split_on d s \<noteq> []"
  by (induction s) (auto split: list.splits)

lemma split_on_no_sep: "p \<in> set (split_on d s) \<Longrightarrow> d \<notin> set p"
proof (induction s arbitrary: p)
  case (Cons c s)
  then show ?case
    by (cases "split_on d s") (auto split: if_splits)
qed simp

lemma split_on_plain: "d \<notin> set s \<Longrightarrow> split_on d s = [s]"
  by (induction s) auto

lemma split_on_append: "d \<notin> set a \<Longrightarrow> split_on d (a @ d # s) = a # split_on d s"
  by (induction a) auto

lemma split_once_append: "d \<notin> set a \<Longrightarrow> split_once d (a @ d # s) = Some (a, s)"
  by (induction a) auto

lemma starts_with_append [simp]: "starts_with (p @ s) p"
  by (simp add: starts_with_def)

lemma path_starts_with_refl [simp]: "path_starts_with p p"
  by (simp add: path_starts_with_def)

lemma path_starts_with_append [simp]: "path_starts_with (p @ q) p"
  by (simp add: path_starts_with_def)

lemma path_starts_with_snoc: "path_starts_with p base \<Longrightarrow> path_starts_with (p @ [x]) base"
  unfolding path_starts_with_def
  by (metis append_take_drop_id append.assoc append_eq_conv_conj)

lemma ws_prefix_Nil [simp]: "ws_prefix [] = 0"
  by (simp add: ws_prefix_def)

lemma trim_is_empty_Nil [simp]: "trim_is_empty []"
  by (simp add: trim_is_empty_def trim_start.simps)

lemma lower_char_idem [simp]: "lower_char (lower_char c) = lower_char c"
proof (cases "is_ascii_uppercase c")
  case True
  then have "byte (char_of (byte c + 32)) = byte c + 32"
    by (simp add: byte_def is_ascii_uppercase_def of_char_of take_bit_eq_mod)
  with True show ?thesis
    by (simp add: lower_char_def is_ascii_uppercase_def)
qed (simp add: lower_char_def)

lemma eq_ignore_refl [simp]: "eq_ignore_ascii_case s s"
  by (simp add: eq_ignore_ascii_case_def)

lemma eq_ignore_sym: "eq_ignore_ascii_case a b \<Longrightarrow> eq_ignore_ascii_case b a"
  by (simp add: eq_ignore_ascii_case_def)

lemma eq_ignore_trans:
  "eq_ignore_ascii_case a b \<Longrightarrow> eq_ignore_ascii_case b c \<Longrightarrow> eq_ignore_ascii_case a c"
  by (simp add: eq_ignore_ascii_case_def)

lemmas [eval_simps] = byte_def is_ascii_lowercase_def is_ascii_uppercase_def is_ascii_digit_def
  lower_char_def to_ascii_lowercase_def eq_ignore_ascii_case_def starts_with_def ends_with_def
  cut_cr_def str_lines_def ws_prefix_def trim_is_empty_def chars_count_def newline_def em_dash_def
  path_components_def path_is_absolute_def path_join_def path_starts_with_def path_file_name_def
  path_parent_def

end
