(* ===== verification/Agent.thy ===== *)
theory Agent
  imports Policy Strings
begin

text \<open>
  \<^verbatim>\<open>src/crates/agent/src/lib.rs\<close>: the typed allowlist of agent actions, their classification
  through the policy, and the sandboxed executor. The operating system is a parameter: a
  record \<open>os\<close> of what each call returns (\<open>canonicalize\<close>, \<open>symlink_metadata\<close>, opening a file,
  reading, running a subprocess). A path is its component list. Beside its result every action
  yields what it asked of the operating system that can change the disk: the files it created,
  emptied or wrote, with the bytes, and the programs it started, with their arguments.
\<close>

section \<open>Actions and their risk\<close>

datatype git_read = GitStatus | GitDiff | GitLog

datatype action =
  ListDir string
| ReadFile string
| Grep string string
| Git git_read
| WriteFile string string
| GitCommit string
| ClaudeCode string

datatype agent_risk = Auto | NeedsApproval | Denied_risk

fun action_capability :: "action \<Rightarrow> capability \<times> risk_class" where
  "action_capability (WriteFile _ _) = (ManageFiles, Mutating)"
| "action_capability (GitCommit _) = (ManageFiles, Mutating)"
| "action_capability (ClaudeCode _) = (ExecuteCode, Mutating)"
| "action_capability (ListDir _) = (ReadData, ReadOnly)"
| "action_capability (ReadFile _) = (ReadData, ReadOnly)"
| "action_capability (Grep _ _) = (ReadData, ReadOnly)"
| "action_capability (Git _) = (ReadData, ReadOnly)"

definition classify :: "action \<Rightarrow> agent_risk" where
  "classify a = (let (cap, rk) = action_capability a in
     case decide \<lparr>capability = cap, risk = rk, trusted_device = True,
                  approved = False, reversible = False\<rparr> of
       Allow \<Rightarrow> Auto
     | RequireApproval \<Rightarrow> NeedsApproval
     | Deny \<Rightarrow> Denied_risk)"

definition is_mutating :: "action \<Rightarrow> bool" where
  "is_mutating a \<longleftrightarrow> classify a = NeedsApproval"

fun action_type :: "action \<Rightarrow> string" where
  "action_type (ListDir _) = ''list_dir''"
| "action_type (ReadFile _) = ''read_file''"
| "action_type (Grep _ _) = ''grep''"
| "action_type (Git GitStatus) = ''git_status''"
| "action_type (Git GitDiff) = ''git_diff''"
| "action_type (Git GitLog) = ''git_log''"
| "action_type (WriteFile _ _) = ''write_file''"
| "action_type (GitCommit _) = ''git_commit''"
| "action_type (ClaudeCode _) = ''claude_code''"

section \<open>The operating system\<close>

datatype agent_error =
  NoWorkspace | OutsideSandbox | Denied string | NotFound | Exec string | Timeout

record file_meta =
  is_file :: bool
  nlink :: nat
  dev :: nat
  ino :: nat
  len :: nat

datatype cmd_outcome = CmdTimeout | CmdFailed string | CmdOutput string string

record claude_code_cfg =
  cc_bin :: string
  cc_model :: string

record os =
  canonicalize :: "path \<Rightarrow> path option"
  symlink_metadata :: "path \<Rightarrow> file_meta io"
  metadata :: "path \<Rightarrow> file_meta io"
  create_new :: "path \<Rightarrow> unit io"
  open_write :: "path \<Rightarrow> file_meta io io"
  set_len_zero :: "path \<Rightarrow> unit io"
  write_all :: "path \<Rightarrow> string \<Rightarrow> unit io"
  read_dir :: "path \<Rightarrow> (string \<times> bool option) option list io"
  read_to_string :: "path \<Rightarrow> string io"
  env_var :: "string \<Rightarrow> string option"
  command_output :: "string \<Rightarrow> string list \<Rightarrow> (string \<times> string) list \<Rightarrow> path \<Rightarrow> cmd_outcome"

record sandbox =
  sb_root :: path
  sb_claude_code :: "claude_code_cfg option"

section \<open>Path guards\<close>

definition is_secret :: "path \<Rightarrow> bool" where
  "is_secret p =
     (let name = (case path_file_name p of None \<Rightarrow> [] | Some n \<Rightarrow> to_ascii_lowercase n) in
      starts_with name ''.env.''
      \<or> list_ex (ends_with name) [''.env'', ''.pem'', ''.key'', ''.p12'', ''.pfx'']
      \<or> list_ex (starts_with name) [''id_rsa'', ''id_ed25519'', ''id_ecdsa'']
      \<or> name = ''.netrc''
      \<or> name = ''.git-credentials''
      \<or> list_ex (\<lambda>c. eq_ignore_ascii_case c ''.ssh'' \<or> eq_ignore_ascii_case c ''.git'') p)"

definition is_protected :: "sandbox \<Rightarrow> path \<Rightarrow> bool" where
  "is_protected sb p \<longleftrightarrow>
     path_starts_with p (sb_root sb @ [''jarvis-core'']) \<or> list_ex (\<lambda>c. c = ''.git'') p"

definition sandbox_new :: "os \<Rightarrow> path \<Rightarrow> (agent_error, sandbox) res" where
  "sandbox_new w base = (case canonicalize w base of
     None \<Rightarrow> Err NoWorkspace
   | Some r \<Rightarrow> Ok \<lparr>sb_root = r, sb_claude_code = None\<rparr>)"

definition with_claude_code :: "sandbox \<Rightarrow> claude_code_cfg \<Rightarrow> sandbox" where
  "with_claude_code sb cfg = sb\<lparr>sb_claude_code := Some cfg\<rparr>"

definition protected_message :: string where
  "protected_message = ''protected path (Core / .git / secret) '' @ em_dash @ '' owner-only''"

definition resolve :: "os \<Rightarrow> sandbox \<Rightarrow> string \<Rightarrow> (agent_error, path) res" where
  "resolve w sb rel =
     (if path_is_absolute rel then Err OutsideSandbox
      else case canonicalize w (path_join (sb_root sb) rel) of
        None \<Rightarrow> Err NotFound
      | Some canon \<Rightarrow>
          if \<not> path_starts_with canon (sb_root sb) then Err OutsideSandbox
          else if is_secret canon then Err (Denied ''secret path'')
          else Ok canon)"

definition resolve_write ::
  "os \<Rightarrow> sandbox \<Rightarrow> string \<Rightarrow> (agent_error, path \<times> file_meta option) res" where
  "resolve_write w sb rel =
     (if path_is_absolute rel then Err OutsideSandbox
      else let joined = path_join (sb_root sb) rel in
      if is_protected sb joined \<or> is_secret joined then Err (Denied protected_message)
      else case path_parent joined of
        None \<Rightarrow> Err OutsideSandbox
      | Some parent \<Rightarrow>
          (case canonicalize w parent of
             None \<Rightarrow> Err NotFound
           | Some parent_canon \<Rightarrow>
               if \<not> path_starts_with parent_canon (sb_root sb) then Err OutsideSandbox
               else case path_file_name joined of
                 None \<Rightarrow> Err OutsideSandbox
               | Some name \<Rightarrow>
                   let target = parent_canon @ [name] in
                   if is_secret target \<or> is_protected sb target
                   then Err (Denied protected_message)
                   else case symlink_metadata w target of
                     IoOk m \<Rightarrow>
                       if \<not> is_file m \<or> nlink m > 1
                       then Err (Denied ''write target is not a plain regular file'')
                       else Ok (target, Some m)
                   | IoErr NotFoundKind _ \<Rightarrow> Ok (target, None)
                   | IoErr _ _ \<Rightarrow> Err NotFound))"

section \<open>The executor\<close>

definition max_output :: nat where "max_output = 64 * 1024"
definition max_file_bytes :: nat where "max_file_bytes = 512 * 1024"

fun exec_io :: "'a io \<Rightarrow> (agent_error, 'a) res" where
  "exec_io (IoOk x) = Ok x"
| "exec_io (IoErr _ e) = Err (Exec e)"

text \<open>
  What an action asked of the operating system, in order: a file created anew, a file emptied, the
  bytes handed to \<open>write_all\<close> (which may stop half-way when it fails), and a program started with its
  arguments, its environment and its working directory. What a program then does is not the model's.
\<close>

datatype os_effect =
  CreatedFile path
| EmptiedFile path
| WroteFile path string
| StartedProgram string "string list" "(string \<times> string) list" path

type_synonym 'a act = "(agent_error, 'a) res \<times> os_effect list"

definition quietly :: "(agent_error, 'a) res \<Rightarrow> 'a act" where
  "quietly r = (r, [])"

definition bind_act :: "'a act \<Rightarrow> ('a \<Rightarrow> 'b act) \<Rightarrow> 'b act" where
  "bind_act m f = (case m of
     (Ok x, es) \<Rightarrow> (fst (f x), es @ snd (f x))
   | (Err e, es) \<Rightarrow> (Err e, es)
   | (Panic, es) \<Rightarrow> (Panic, es))"

definition written_message :: "string \<Rightarrow> string \<Rightarrow> string" where
  "written_message pth content =
     ''written: '' @ pth @ '' ('' @ show_nat (length content) @ '' bytes)''"

text \<open>The last statement of \<open>write_file\<close>: the opened file receives the content.\<close>

definition finish_write :: "os \<Rightarrow> path \<Rightarrow> os_effect \<Rightarrow> string \<Rightarrow> string \<Rightarrow> string act" where
  "finish_write w target opened pth content =
     (bind_res (exec_io (write_all w target content)) (\<lambda>_. Ok (written_message pth content)),
      [opened, WroteFile target content])"

definition write_file :: "os \<Rightarrow> sandbox \<Rightarrow> string \<Rightarrow> string \<Rightarrow> string act" where
  "write_file w sb pth content =
     (case resolve_write w sb pth of
        Err e \<Rightarrow> (Err e, [])
      | Panic \<Rightarrow> (Panic, [])
      | Ok (target, None) \<Rightarrow>
          (case create_new w target of
             IoErr _ e \<Rightarrow> (Err (Exec e), [])
           | IoOk _ \<Rightarrow> finish_write w target (CreatedFile target) pth content)
      | Ok (target, Some checked) \<Rightarrow>
          (case open_write w target of
             IoErr _ e \<Rightarrow> (Err (Exec e), [])
           | IoOk opened \<Rightarrow>
               (case opened of IoErr _ e \<Rightarrow> (Err (Exec e), [])
                | IoOk meta \<Rightarrow>
                    if dev meta \<noteq> dev checked \<or> ino meta \<noteq> ino checked \<or> nlink meta \<noteq> 1
                    then (Err (Denied ''write target changed while writing''), [])
                    else (case set_len_zero w target of
                        IoErr _ e \<Rightarrow> (Err (Exec e), [])
                      | IoOk _ \<Rightarrow> finish_write w target (EmptiedFile target) pth content))))"

definition child_env :: "string list" where
  "child_env = [''PATH'', ''HOME'', ''LANG'', ''LC_ALL'']"

definition inherited_env :: "os \<Rightarrow> (string \<times> string) list" where
  "inherited_env w =
     List.map_filter (\<lambda>key. map_option (\<lambda>v. (key, v)) (env_var w key)) child_env"

definition run_cmd :: "os \<Rightarrow> path \<Rightarrow> string \<Rightarrow> string list \<Rightarrow> string act" where
  "run_cmd w cwd program args =
     (case command_output w program args (inherited_env w) cwd of
        CmdTimeout \<Rightarrow> Err Timeout
      | CmdFailed e \<Rightarrow> Err (Exec (program @ '': '' @ e))
      | CmdOutput stdout stderr \<Rightarrow>
          Ok (if trim_is_empty stdout \<and> \<not> trim_is_empty stderr \<and> program \<noteq> ''grep''
              then stderr else stdout),
      [StartedProgram program args (inherited_env w) cwd])"

fun git_args :: "git_read \<Rightarrow> string list" where
  "git_args GitStatus = [''status'', ''--short'']"
| "git_args GitDiff = [''diff'', ''--stat'']"
| "git_args GitLog = [''log'', ''--oneline'', ''-30'']"

definition git :: "os \<Rightarrow> sandbox \<Rightarrow> git_read \<Rightarrow> string act" where
  "git w sb sub = run_cmd w (sb_root sb) ''git'' (git_args sub)"

definition git_commit :: "os \<Rightarrow> sandbox \<Rightarrow> string \<Rightarrow> string act" where
  "git_commit w sb message =
     bind_act (run_cmd w (sb_root sb) ''git'' [''add'', ''-A'']) (\<lambda>_.
     run_cmd w (sb_root sb) ''git'' [''commit'', ''-m'', message])"

definition claude_code_disabled :: string where
  "claude_code_disabled =
     ''direct Claude Code execution is disabled '' @ em_dash @ '' use the OpenSandbox provider''"

definition claude_code :: "sandbox \<Rightarrow> string \<Rightarrow> (agent_error, string) res" where
  "claude_code sb prompt = Err (Denied claude_code_disabled)"

definition join_lines :: "string list \<Rightarrow> string" where
  "join_lines ls = (case ls of [] \<Rightarrow> [] | l # r \<Rightarrow> l @ concat (map (\<lambda>x. CHR 0x0A # x) r))"

definition list_dir :: "os \<Rightarrow> sandbox \<Rightarrow> string \<Rightarrow> (agent_error, string) res" where
  "list_dir w sb pth =
     bind_res (resolve w sb pth) (\<lambda>dir.
     bind_res (exec_io (read_dir w dir)) (\<lambda>entries.
     Ok (join_lines (sort (map (\<lambda>(name, is_dir). if is_dir = Some True then name @ ''/'' else name)
       (List.map_filter (\<lambda>e. e) entries))))))"

definition read_file :: "os \<Rightarrow> sandbox \<Rightarrow> string \<Rightarrow> (agent_error, string) res" where
  "read_file w sb pth =
     bind_res (resolve w sb pth) (\<lambda>file.
     case metadata w file of
       IoOk m \<Rightarrow>
         if \<not> is_file m then Err (Exec ''not a regular file'')
         else if len m > max_file_bytes then Err (Denied (''file too large ('' @ show_nat (len m) @ '' bytes)''))
         else exec_io (read_to_string w file)
     | _ \<Rightarrow> Err NotFound)"

definition grep_secret_excludes :: "string list" where
  "grep_secret_excludes =
     [''--exclude=.env'', ''--exclude=.env.*'', ''--exclude=.ENV.*'', ''--exclude=*.env'',
      ''--exclude=*.ENV'', ''--exclude=*.pem'', ''--exclude=*.PEM'', ''--exclude=*.key'',
      ''--exclude=*.KEY'', ''--exclude=*.p12'', ''--exclude=*.P12'', ''--exclude=*.pfx'',
      ''--exclude=*.PFX'', ''--exclude=id_rsa*'', ''--exclude=id_ed25519*'',
      ''--exclude=id_ecdsa*'', ''--exclude=.netrc'', ''--exclude=.git-credentials'',
      ''--exclude-dir=.ssh'', ''--exclude-dir=.git'']"

definition render_path :: "path \<Rightarrow> string" where
  "render_path p = (if p = [] then ''/'' else concat (map (\<lambda>c. ''/'' @ c) p))"

definition grep_args :: "string \<Rightarrow> path \<Rightarrow> string list" where
  "grep_args pattern target =
     [''-rnIHZ'', ''-D'', ''skip''] @ grep_secret_excludes @ [''-e'', pattern, ''--'', render_path target]"

text \<open>The output lines that survive: named, under the target, and not secret.\<close>

definition grep_kept :: "path \<Rightarrow> string \<Rightarrow> (string \<times> string) list" where
  "grep_kept target out =
     filter (\<lambda>(file, _). path_is_absolute file \<and> path_starts_with (path_components file) target
                          \<and> \<not> is_secret (path_components file))
       (List.map_filter (split_once CHR 0x00) (str_lines out))"

definition grep :: "os \<Rightarrow> sandbox \<Rightarrow> string \<Rightarrow> string \<Rightarrow> string act" where
  "grep w sb pattern pth =
     bind_act (quietly (resolve w sb pth)) (\<lambda>target.
     bind_act (run_cmd w (sb_root sb) ''grep'' (grep_args pattern target)) (\<lambda>out.
     quietly (Ok (concat (map (\<lambda>(file, rest). file @ '':'' @ rest @ [CHR 0x0A]) (grep_kept target out))))))"

definition is_char_boundary :: "string \<Rightarrow> nat \<Rightarrow> bool" where
  "is_char_boundary s i \<longleftrightarrow>
     i = 0 \<or> (if i \<ge> length s then i = length s else byte (s ! i) div 64 \<noteq> 2)"

fun cut_back :: "string \<Rightarrow> nat \<Rightarrow> nat" where
  "cut_back s 0 = 0"
| "cut_back s (Suc n) = (if is_char_boundary s (Suc n) then Suc n else cut_back s n)"

definition cap :: "string \<Rightarrow> string \<times> bool" where
  "cap s = (if length s \<le> max_output then (s, False)
            else (take (cut_back s max_output) s, True))"

record outcome =
  outcome_action :: string
  outcome_output :: string
  truncated :: bool

definition execute :: "os \<Rightarrow> sandbox \<Rightarrow> action \<Rightarrow> outcome act" where
  "execute w sb a =
     bind_act (case a of
         ListDir p \<Rightarrow> quietly (list_dir w sb p)
       | ReadFile p \<Rightarrow> quietly (read_file w sb p)
       | Grep pat p \<Rightarrow> grep w sb pat p
       | Git sub \<Rightarrow> git w sb sub
       | WriteFile p content \<Rightarrow> write_file w sb p content
       | GitCommit m \<Rightarrow> git_commit w sb m
       | ClaudeCode p \<Rightarrow> quietly (claude_code sb p))
     (\<lambda>r. let (out, over) = cap r in
       quietly (Ok \<lparr>outcome_action = action_type a, outcome_output = out, truncated = over\<rparr>))"

definition preview :: "os \<Rightarrow> sandbox \<Rightarrow> action \<Rightarrow> string act" where
  "preview w sb a = (case a of
     WriteFile p content \<Rightarrow>
       bind_act (quietly (resolve_write w sb p)) (\<lambda>(_, existing).
       quietly (Ok (''WriteFile '' @ p @ '' ('' @ (if existing \<noteq> None then ''OVERWRITES'' else ''new file'')
           @ '', '' @ show_nat (length content) @ '' bytes)'' @ newline
           @ ''--- content ---'' @ newline @ take_chars 2000 content)))
   | GitCommit m \<Rightarrow>
       bind_act (git w sb GitStatus) (\<lambda>status.
       quietly (Ok (''GitCommit '' @ [CHR 0x22] @ m @ [CHR 0x22] @ newline
           @ ''--- state (git status) ---'' @ newline
           @ (if trim_is_empty status then ''(niets te committen)'' else status))))
   | ClaudeCode _ \<Rightarrow> quietly (Err (Denied claude_code_disabled))
   | other \<Rightarrow> quietly (Ok (action_type other @ '' (read-only)'')))"

text \<open>A small world for the witnesses: one workspace, a search that hits a secret file.\<close>

definition demo_os :: os where
  "demo_os = \<lparr>canonicalize = Some,
     symlink_metadata = (\<lambda>_. IoErr NotFoundKind []),
     metadata = (\<lambda>_. IoOk \<lparr>is_file = True, nlink = 1, dev = 1, ino = 7, len = 5\<rparr>),
     create_new = (\<lambda>_. IoOk ()),
     open_write = (\<lambda>_. IoErr OtherKind []),
     set_len_zero = (\<lambda>_. IoOk ()),
     write_all = (\<lambda>_ _. IoOk ()),
     read_dir = (\<lambda>_. IoOk [Some (''b'', Some True), Some (''a'', None)]),
     read_to_string = (\<lambda>_. IoOk ''hello''),
     env_var = (\<lambda>_. None),
     command_output = (\<lambda>_ _ _ _. CmdOutput
       (''/ws/a.txt'' @ [CHR 0x00] @ ''1:hit'' @ [CHR 0x0A]
        @ ''/ws/.env'' @ [CHR 0x00] @ ''2:hit'' @ [CHR 0x0A]) [])\<rparr>"

definition demo_sandbox :: sandbox where
  "demo_sandbox = \<lparr>sb_root = [''ws''], sb_claude_code = None\<rparr>"

lemmas [eval_simps] = demo_os_def demo_sandbox_def classify_def is_secret_def is_protected_def
  resolve_def resolve_write_def finish_write_def write_file_def run_cmd_def quietly_def bind_act_def
  grep_args_def grep_kept_def grep_def cap_def execute_def List.map_filter_def

section \<open>The confinement interface\<close>

text \<open>
  What the readers rely on in a path resolver: a resolved path lies below the root and is
  not secret. A reader that starts by resolving then depends on such paths only.
\<close>

locale confined_resolver =
  fixes resolver :: "string \<Rightarrow> (agent_error, path) res"
    and top_dir :: path
    and secret :: "path \<Rightarrow> bool"
  assumes resolved_inside: "resolver rel = Ok p \<Longrightarrow> path_starts_with p top_dir"
    and resolved_public: "resolver rel = Ok p \<Longrightarrow> \<not> secret p"
begin

lemma reader_confined:
  assumes "\<And>p. path_starts_with p top_dir \<Longrightarrow> \<not> secret p \<Longrightarrow> f p = g p"
  shows "bind_res (resolver rel) f = bind_res (resolver rel) g"
  using assms resolved_inside resolved_public by (cases "resolver rel") auto

lemma reader_ok:
  assumes "bind_res (resolver rel) f = Ok y"
  shows "\<exists>p. resolver rel = Ok p \<and> path_starts_with p top_dir \<and> \<not> secret p \<and> f p = Ok y"
  using assms resolved_inside resolved_public by (auto simp: bind_res_Ok_iff)

end

interpretation rd: confined_resolver "resolve w sb" "sb_root sb" is_secret for w sb
  by unfold_locales (auto simp: resolve_def split: if_splits option.splits)

section \<open>Lemmas\<close>

lemma resolve_write_Ok:
  assumes "resolve_write w sb rel = Ok (t, m)"
  shows "path_starts_with t (sb_root sb)" and "\<not> is_secret t" and "\<not> is_protected sb t"
    and "\<exists>d name. t = d @ [name] \<and> canonicalize w (butlast (path_join (sb_root sb) rel)) = Some d
         \<and> path_starts_with d (sb_root sb)"
    and "case m of None \<Rightarrow> \<exists>e. symlink_metadata w t = IoErr NotFoundKind e
         | Some k \<Rightarrow> symlink_metadata w t = IoOk k \<and> is_file k \<and> nlink k \<le> 1"
  using assms
  by (auto simp: resolve_write_def Let_def path_parent_def path_starts_with_snoc
      split: if_splits option.splits io.splits io_kind.splits)

lemma quietly_simps [simp]: "fst (quietly r) = r" "snd (quietly r) = []"
  by (simp_all add: quietly_def)

lemma fst_bind_act: "fst (bind_act m f) = bind_res (fst m) (\<lambda>x. fst (f x))"
  by (cases m; cases "fst m") (auto simp: bind_act_def)

lemma bind_act_effects: "e \<in> set (snd (bind_act m f)) \<Longrightarrow> e \<in> set (snd m) \<or> (\<exists>x. fst m = Ok x \<and> e \<in> set (snd (f x)))"
  by (cases m; cases "fst m") (auto simp: bind_act_def)

text \<open>What a write may do to the disk.\<close>

lemma write_file_effects:
  assumes "snd (write_file w sb p c) \<noteq> []"
  obtains t m where "resolve_write w sb p = Ok (t, m)"
    and "case m of None \<Rightarrow> snd (write_file w sb p c) = [CreatedFile t, WroteFile t c] \<and> create_new w t = IoOk ()
         | Some k \<Rightarrow> snd (write_file w sb p c) = [EmptiedFile t, WroteFile t c] \<and> (\<exists>k'. open_write w t = IoOk (IoOk k')
              \<and> dev k' = dev k \<and> ino k' = ino k \<and> nlink k' = 1)"
  using assms by (auto simp: write_file_def finish_write_def split: res.splits option.splits io.splits if_splits)

lemma execute_effects: "snd (execute w sb a) = (case a of
     WriteFile p c \<Rightarrow> snd (write_file w sb p c) | GitCommit m \<Rightarrow> snd (git_commit w sb m)
   | Git sub \<Rightarrow> snd (git w sb sub) | Grep pat p \<Rightarrow> snd (grep w sb pat p) | _ \<Rightarrow> [])"
  by (cases a) (auto simp: execute_def bind_act_def quietly_def split: prod.split res.split)

lemma path_starts_with_trans:
  "path_starts_with p q \<Longrightarrow> path_starts_with q r \<Longrightarrow> path_starts_with p r"
  unfolding path_starts_with_def by (metis append_take_drop_id append.assoc append_eq_conv_conj)

lemma cut_back_le: "cut_back s n \<le> n"
  by (induction n) auto

lemma cut_back_boundary: "is_char_boundary s (cut_back s n)"
  by (induction n) (auto simp: is_char_boundary_def)

lemma inherited_env_keys: "fst ` set (inherited_env w) \<subseteq> set child_env"
  by (auto simp: inherited_env_def List.map_filter_def)

section \<open>Properties\<close>

text \<open>
  The classification of every action: reads of files, directories and git state run
  automatically, while writing a file, committing and running Claude Code always need a signed
  approval; no action of the allowlist is outright denied, so nothing else is expressible.
\<close>

theorem classify_complete:
  "classify a = (case a of WriteFile _ _ \<Rightarrow> NeedsApproval | GitCommit _ \<Rightarrow> NeedsApproval
     | ClaudeCode _ \<Rightarrow> NeedsApproval | _ \<Rightarrow> Auto)"
  by (cases a) (simp_all add: classify_def decide_def risk_order_simps)

text \<open>
  C3. Reads are confined: executing a directory listing or a file read gives the same result
  in two worlds that agree on path resolution and on the paths below the sandbox root that are
  not secret. Nothing outside the root and no secret file can influence the output.
\<close>

theorem reads_confined:
  assumes "canonicalize w = canonicalize w'"
    and "\<And>p. path_starts_with p (sb_root sb) \<Longrightarrow> \<not> is_secret p \<Longrightarrow>
           read_dir w p = read_dir w' p \<and> metadata w p = metadata w' p
           \<and> read_to_string w p = read_to_string w' p"
  shows "fst (execute w sb (ListDir p)) = fst (execute w' sb (ListDir p))
       \<and> fst (execute w sb (ReadFile q)) = fst (execute w' sb (ReadFile q))"
proof -
  have r: "resolve w sb = resolve w' sb"
    using assms(1) by (simp add: resolve_def fun_eq_iff)
  have "list_dir w sb p = list_dir w' sb p"
    unfolding list_dir_def r [symmetric] by (rule rd.reader_confined) (simp add: assms(2))
  moreover have "read_file w sb q = read_file w' sb q"
    unfolding read_file_def r [symmetric]
    by (rule rd.reader_confined) (auto simp: assms(2) split: io.split)
  ultimately show ?thesis by (simp add: execute_def fst_bind_act)
qed

theorem reads_confined_witness:
  "fst (execute demo_os demo_sandbox (ListDir ''src''))
     = fst (execute (demo_os\<lparr>read_to_string := (\<lambda>p. if is_secret p then IoOk ''key'' else IoOk ''hello'')\<rparr>)
              demo_sandbox (ListDir ''src''))
   \<and> fst (execute demo_os demo_sandbox (ReadFile ''.env''))
     = fst (execute (demo_os\<lparr>read_to_string := (\<lambda>p. if is_secret p then IoOk ''key'' else IoOk ''hello'')\<rparr>)
              demo_sandbox (ReadFile ''.env''))"
  by (rule reads_confined) (auto simp: demo_os_def)

text \<open>The shape of a write of \<open>c\<close> to \<open>t\<close>, by the effects \<open>es\<close>.\<close>

definition confined_write :: "os \<Rightarrow> sandbox \<Rightarrow> string \<Rightarrow> string \<Rightarrow> path \<Rightarrow> os_effect list \<Rightarrow> bool" where
  "confined_write w sb p c t es \<longleftrightarrow> path_starts_with t (sb_root sb) \<and> \<not> is_secret t \<and> \<not> is_protected sb t
     \<and> (\<exists>d name. t = d @ [name] \<and> canonicalize w (butlast (path_join (sb_root sb) p)) = Some d)
     \<and> (es = [CreatedFile t, WroteFile t c] \<and> create_new w t = IoOk ()
        \<or> es = [EmptiedFile t, WroteFile t c]
          \<and> (\<exists>k k'. symlink_metadata w t = IoOk k \<and> is_file k \<and> open_write w t = IoOk (IoOk k')
               \<and> dev k' = dev k \<and> ino k' = ino k \<and> nlink k' = 1))"

lemma write_file_confined:
  assumes "snd (write_file w sb p c) \<noteq> []"
  shows "\<exists>t. confined_write w sb p c t (snd (write_file w sb p c))"
proof -
  obtain t m where t: "resolve_write w sb p = Ok (t, m)"
    and m: "case m of None \<Rightarrow> snd (write_file w sb p c) = [CreatedFile t, WroteFile t c] \<and> create_new w t = IoOk ()
         | Some k \<Rightarrow> snd (write_file w sb p c) = [EmptiedFile t, WroteFile t c] \<and> (\<exists>k'. open_write w t = IoOk (IoOk k')
              \<and> dev k' = dev k \<and> ino k' = ino k \<and> nlink k' = 1)"
    using write_file_effects [OF assms] by blast
  note ok = resolve_write_Ok [OF t]
  from ok(4) obtain d name where d: "t = d @ [name]" "canonicalize w (butlast (path_join (sb_root sb) p)) = Some d" by blast
  show ?thesis
    unfolding confined_write_def using ok(1,2,3,5) d m by (intro exI [of _ t]) (cases m; auto)
qed

text \<open>
  C2. Effects are confined: whatever the operating system answers, the only action with which the core itself creates,
  empties or writes a file is \<open>WriteFile\<close>, with its own content, and the target lies below the sandbox root in
  a canonicalized directory, is not secret, is not in the Core or in git's internals, and is
  either a file created anew or the very inode that was checked, with a single link. Beyond that an
  action can only start the programs of its own kind, in the sandbox root, with none of the Core's
  environment but four named variables: three fixed queries of git, \<open>git add -A\<close> and \<open>git commit\<close> with the
  message of a \<open>GitCommit\<close>, and a grep that excludes secrets over a resolved path.
  What such a program then writes, as git does below \<open>.git\<close> for a commit, is up to it.
\<close>

theorem effects_confined:
  assumes "e \<in> set (snd (execute w sb a))"
  shows "(\<exists>p c t. a = WriteFile p c \<and> confined_write w sb p c t (snd (execute w sb a)))
    \<or> (\<exists>prog args env. e = StartedProgram prog args env (sb_root sb) \<and> fst ` set env \<subseteq> {''PATH'', ''HOME'', ''LANG'', ''LC_ALL''}
        \<and> ((\<exists>sub. a = Git sub \<and> prog = ''git''
               \<and> args \<in> {[''status'', ''--short''], [''diff'', ''--stat''], [''log'', ''--oneline'', ''-30'']})
          \<or> (\<exists>m. a = GitCommit m \<and> prog = ''git'' \<and> args \<in> {[''add'', ''-A''], [''commit'', ''-m'', m]})
          \<or> (\<exists>pat p t. a = Grep pat p \<and> prog = ''grep'' \<and> resolve w sb p = Ok t \<and> args = grep_args pat t)))"
proof (cases a)
  case (WriteFile p c)
  then have "snd (execute w sb a) = snd (write_file w sb p c)" by (simp add: execute_effects)
  with assms WriteFile write_file_confined [of w sb p c] show ?thesis by fastforce
next
  case (Git sub)
  with assms inherited_env_keys [of w] show ?thesis
    by (cases sub) (auto simp: execute_effects git_def run_cmd_def child_env_def)
next
  case (GitCommit m)
  with assms inherited_env_keys [of w] show ?thesis
    by (auto simp: execute_effects git_commit_def run_cmd_def child_env_def dest!: bind_act_effects)
next
  case (Grep pat p)
  with assms inherited_env_keys [of w] show ?thesis
    by (auto simp: execute_effects grep_def run_cmd_def child_env_def dest!: bind_act_effects)
qed (use assms in \<open>simp_all add: execute_effects\<close>)

theorem effects_confined_witness:
  "snd (execute demo_os demo_sandbox (WriteFile ''notes.txt'' ''hi'')) = [CreatedFile [''ws'', ''notes.txt''], WroteFile [''ws'', ''notes.txt''] ''hi'']
   \<and> (\<exists>p c t. WriteFile ''notes.txt'' ''hi'' = WriteFile p c
       \<and> confined_write demo_os demo_sandbox p c t (snd (execute demo_os demo_sandbox (WriteFile ''notes.txt'' ''hi''))))"
proof -
  have run: "snd (execute demo_os demo_sandbox (WriteFile ''notes.txt'' ''hi''))
      = [CreatedFile [''ws'', ''notes.txt''], WroteFile [''ws'', ''notes.txt''] ''hi'']"
    by (simp add: eval_simps)
  then have "WroteFile [''ws'', ''notes.txt''] ''hi'' \<in> set (snd (execute demo_os demo_sandbox (WriteFile ''notes.txt'' ''hi'')))" by simp
  from effects_confined [OF this] run show ?thesis by blast
qed

text \<open>
  What a search can reveal: every line of a successful \<open>grep\<close> names a file below the
  sandbox root that the secret filter passes, whatever the grep process printed.
\<close>

theorem grep_reveals_no_secret:
  assumes "fst (grep w sb pat p) = Ok out"
  shows "\<exists>kept. out = concat (map (\<lambda>(file, rest). file @ '':'' @ rest @ [CHR 0x0A]) kept)
     \<and> (\<forall>(file, rest) \<in> set kept. path_starts_with (path_components file) (sb_root sb)
          \<and> \<not> is_secret (path_components file))"
proof -
  from rd.reader_ok [OF assms [unfolded grep_def fst_bind_act quietly_simps]] obtain target raw
    where t: "path_starts_with target (sb_root sb)"
      and out: "out = concat (map (\<lambda>(file, rest). file @ '':'' @ rest @ [CHR 0x0A]) (grep_kept target raw))"
    by (auto simp: res_simps)
  have "\<forall>(file, rest) \<in> set (grep_kept target raw). path_starts_with (path_components file) (sb_root sb)
          \<and> \<not> is_secret (path_components file)"
    using t by (auto simp: grep_kept_def dest: path_starts_with_trans)
  with out show ?thesis by blast
qed

theorem grep_reveals_no_secret_witness:
  "\<exists>out. fst (grep demo_os demo_sandbox ''hit'' ''.'') = Ok out \<and> out = ''/ws/a.txt:1:hit'' @ [CHR 0x0A]
     \<and> (\<exists>kept. out = concat (map (\<lambda>(file, rest). file @ '':'' @ rest @ [CHR 0x0A]) kept)
        \<and> (\<forall>(file, rest) \<in> set kept. path_starts_with (path_components file) (sb_root demo_sandbox)
             \<and> \<not> is_secret (path_components file)))"
proof -
  have h: "fst (grep demo_os demo_sandbox ''hit'' ''.'') = Ok (''/ws/a.txt:1:hit'' @ [CHR 0x0A])"
    by (simp add: eval_simps trim_start.simps)
  show ?thesis using h grep_reveals_no_secret [OF h] by blast
qed

text \<open>
  Capped output: at most 64 KiB, a prefix of what the action produced, cut at a character
  boundary, and flagged as truncated exactly when something was cut.
\<close>

theorem cap_bounds:
  "length (fst (cap s)) \<le> max_output \<and> (\<exists>r. s = fst (cap s) @ r \<and> (r = [] \<longleftrightarrow> \<not> snd (cap s)))
     \<and> is_char_boundary s (length (fst (cap s)))"
proof (cases "length s \<le> max_output")
  case True
  then show ?thesis by (simp add: cap_def is_char_boundary_def)
next
  case False
  let ?n = "cut_back s max_output"
  have n: "?n \<le> max_output" by (rule cut_back_le)
  with False have "?n < length s" by linarith
  then have "\<exists>r. s = take ?n s @ r \<and> r \<noteq> []"
    by (intro exI [of _ "drop ?n s"]) simp
  with False n \<open>?n < length s\<close> cut_back_boundary [of s max_output] show ?thesis
    by (auto simp: cap_def min_def)
qed

end
