(* ===== verification/Decimal.thy ===== *)
theory Decimal
  imports Prelude
begin

text \<open>
  Money in the on-chain crate is \<open>rust_decimal::Decimal\<close>, a package outside the repository.
  A decimal is its exact value, a rational; the package's operations are a parameter, the
  record \<open>decimal\<close>, which every definition that computes with money takes as an argument.
  \<open>checked_*\<close> give \<open>None\<close> on overflow (and on division by zero); the operators \<open>+ - * /\<close>
  panic there instead.

  \<open>decimal_laws D R\<close> states the documented behaviour the proofs use, for the set \<open>R\<close> of
  representable values (an integer of at most 96 bits over a power of ten up to 28): an
  operation returns the exact result when it is representable and otherwise rounds to a
  neighbour, it succeeds whenever the exact result is in range, and the two rounding functions
  stay on their grid. \<open>dec96\<close> is a concrete instance with a 96-bit range, for the witnesses.
\<close>

record decimal =
  checked_add :: "rat \<Rightarrow> rat \<Rightarrow> rat option"
  checked_sub :: "rat \<Rightarrow> rat \<Rightarrow> rat option"
  checked_mul :: "rat \<Rightarrow> rat \<Rightarrow> rat option"
  checked_div :: "rat \<Rightarrow> rat \<Rightarrow> rat option"
  trunc_dp :: "nat \<Rightarrow> rat \<Rightarrow> rat"
  round_dp :: "nat \<Rightarrow> rat \<Rightarrow> rat"

section \<open>The panicking operators\<close>

definition op_add :: "decimal \<Rightarrow> rat \<Rightarrow> rat \<Rightarrow> ('e, rat) res" where
  "op_add D a b = or_panic (checked_add D a b)"

definition op_sub :: "decimal \<Rightarrow> rat \<Rightarrow> rat \<Rightarrow> ('e, rat) res" where
  "op_sub D a b = or_panic (checked_sub D a b)"

definition op_mul :: "decimal \<Rightarrow> rat \<Rightarrow> rat \<Rightarrow> ('e, rat) res" where
  "op_mul D a b = or_panic (checked_mul D a b)"

definition op_div :: "decimal \<Rightarrow> rat \<Rightarrow> rat \<Rightarrow> ('e, rat) res" where
  "op_div D a b = or_panic (checked_div D a b)"

section \<open>Documented behaviour\<close>

text \<open>\<open>c\<close> is a rounding of \<open>x\<close>: representable, with no representable value in between.\<close>

definition faithful :: "(rat \<Rightarrow> bool) \<Rightarrow> rat \<Rightarrow> rat \<Rightarrow> bool" where
  "faithful R x c \<longleftrightarrow> R c \<and> (\<forall>r. R r \<longrightarrow> (r \<le> x \<longrightarrow> r \<le> c) \<and> (x \<le> r \<longrightarrow> c \<le> r))"

definition op_law :: "(rat \<Rightarrow> bool) \<Rightarrow> (rat \<Rightarrow> rat \<Rightarrow> rat option) \<Rightarrow> rat \<Rightarrow> rat \<Rightarrow> rat \<Rightarrow> bool" where
  "op_law R f a b x \<longleftrightarrow>
     (\<forall>c. f a b = Some c \<longrightarrow> faithful R x c) \<and> ((\<exists>r. R r \<and> \<bar>x\<bar> \<le> r) \<longrightarrow> f a b \<noteq> None)"

definition decimal_laws :: "decimal \<Rightarrow> (rat \<Rightarrow> bool) \<Rightarrow> bool" where
  "decimal_laws D R \<longleftrightarrow>
     (\<forall>k n. n \<le> 28 \<and> \<bar>k\<bar> < 2 ^ 96 \<longrightarrow> R (of_int k / 10 ^ n))
   \<and> (\<forall>x. R x \<longrightarrow> R (- x))
   \<and> (\<forall>x r j. R x \<and> R r \<and> \<bar>x * 10 ^ j\<bar> \<le> r \<longrightarrow> R (x * 10 ^ j))
   \<and> (\<forall>a b. R a \<and> R b \<longrightarrow>
        op_law R (checked_add D) a b (a + b) \<and> op_law R (checked_sub D) a b (a - b)
        \<and> op_law R (checked_mul D) a b (a * b)
        \<and> (b \<noteq> 0 \<longrightarrow> op_law R (checked_div D) a b (a / b)))
   \<and> (\<forall>a. checked_div D a 0 = None)
   \<and> (\<forall>n x. R x \<longrightarrow> R (trunc_dp D n x) \<and> \<bar>trunc_dp D n x\<bar> \<le> \<bar>x\<bar> \<and> 0 \<le> x * trunc_dp D n x)
   \<and> (\<forall>n x. R x \<longrightarrow> R (round_dp D n x) \<and> (\<exists>k. round_dp D n x = of_int k / 10 ^ n)
        \<and> \<bar>round_dp D n x - x\<bar> \<le> 1 / (2 * 10 ^ n))"

section \<open>A concrete instance\<close>

definition dec_max :: rat where "dec_max = 2 ^ 96 - 1"

definition dec96_repr :: "rat \<Rightarrow> bool" where
  "dec96_repr x \<longleftrightarrow> \<bar>x\<bar> \<le> dec_max"

definition dec96_lim :: "rat \<Rightarrow> rat option" where
  "dec96_lim x = (if dec96_repr x then Some x else None)"

definition dec96_trunc :: "nat \<Rightarrow> rat \<Rightarrow> rat" where
  "dec96_trunc n x = sgn x * (of_int \<lfloor>\<bar>x\<bar> * 10 ^ n\<rfloor> / 10 ^ n)"

definition dec96_round :: "nat \<Rightarrow> rat \<Rightarrow> rat" where
  "dec96_round n x =
     (let y = x * 10 ^ n; f = \<lfloor>y\<rfloor>; d = y - of_int f;
          k = (if d < 1/2 then f else if d > 1/2 then f + 1 else if even f then f else f + 1)
      in of_int k / 10 ^ n)"

definition dec96 :: decimal where
  "dec96 = \<lparr>checked_add = (\<lambda>a b. dec96_lim (a + b)), checked_sub = (\<lambda>a b. dec96_lim (a - b)),
     checked_mul = (\<lambda>a b. dec96_lim (a * b)),
     checked_div = (\<lambda>a b. if b = 0 then None else dec96_lim (a / b)),
     trunc_dp = dec96_trunc, round_dp = dec96_round\<rparr>"

section \<open>Lemmas\<close>

lemma faithful_exact: "R x \<Longrightarrow> faithful R x c \<Longrightarrow> c = x"
  unfolding faithful_def by (meson order.antisym order.refl)

lemma faithful_le: "faithful R x c \<Longrightarrow> R r \<Longrightarrow> x \<le> r \<Longrightarrow> c \<le> r"
  by (simp add: faithful_def)

lemma faithful_ge: "faithful R x c \<Longrightarrow> R r \<Longrightarrow> r \<le> x \<Longrightarrow> r \<le> c"
  by (simp add: faithful_def)

lemma laws_grid: "decimal_laws D R \<Longrightarrow> n \<le> 28 \<Longrightarrow> \<bar>k\<bar> < 2 ^ 96 \<Longrightarrow> R (of_int k / 10 ^ n)"
  by (simp add: decimal_laws_def)

lemma laws_int: "decimal_laws D R \<Longrightarrow> \<bar>k\<bar> < 2 ^ 96 \<Longrightarrow> R (of_int k)"
  using laws_grid [of D R 0 k] by simp

lemma laws_nat: "decimal_laws D R \<Longrightarrow> n < 2 ^ 96 \<Longrightarrow> R (of_nat n)"
  using laws_int [of D R "int n"] by simp

lemma laws_zero: "decimal_laws D R \<Longrightarrow> R 0"
  using laws_int [of D R 0] by simp

lemma laws_one: "decimal_laws D R \<Longrightarrow> R 1"
  using laws_int [of D R 1] by simp

lemma laws_neg: "decimal_laws D R \<Longrightarrow> R x \<Longrightarrow> R (- x)"
  by (simp add: decimal_laws_def)

lemma laws_shift: "decimal_laws D R \<Longrightarrow> R x \<Longrightarrow> R r \<Longrightarrow> \<bar>x * 10 ^ j\<bar> \<le> r \<Longrightarrow> R (x * 10 ^ j)"
  unfolding decimal_laws_def by blast

lemma laws_add: "decimal_laws D R \<Longrightarrow> R a \<Longrightarrow> R b \<Longrightarrow> op_law R (checked_add D) a b (a + b)"
  and laws_sub: "decimal_laws D R \<Longrightarrow> R a \<Longrightarrow> R b \<Longrightarrow> op_law R (checked_sub D) a b (a - b)"
  and laws_mul: "decimal_laws D R \<Longrightarrow> R a \<Longrightarrow> R b \<Longrightarrow> op_law R (checked_mul D) a b (a * b)"
  and laws_div: "decimal_laws D R \<Longrightarrow> R a \<Longrightarrow> R b \<Longrightarrow> b \<noteq> 0 \<Longrightarrow> op_law R (checked_div D) a b (a / b)"
  unfolding decimal_laws_def by blast+

lemma op_law_faithful: "op_law R f a b x \<Longrightarrow> f a b = Some c \<Longrightarrow> faithful R x c"
  by (simp add: op_law_def)

lemma op_law_repr: "op_law R f a b x \<Longrightarrow> f a b = Some c \<Longrightarrow> R c"
  by (simp add: op_law_def faithful_def)

lemma op_law_total: "op_law R f a b x \<Longrightarrow> R r \<Longrightarrow> \<bar>x\<bar> \<le> r \<Longrightarrow> \<exists>c. f a b = Some c"
  unfolding op_law_def by blast

lemma op_law_exact:
  assumes "op_law R f a b x" and "R x" and "R (- x)"
  shows "f a b = Some x"
proof -
  have "\<bar>x\<bar> \<le> x \<or> \<bar>x\<bar> \<le> - x" by linarith
  with assms obtain c where c: "f a b = Some c" using op_law_total by blast
  moreover have "c = x" using faithful_exact [of R x c] assms c op_law_faithful by blast
  ultimately show ?thesis by simp
qed

lemma laws_trunc:
  assumes "decimal_laws D R" and "R x"
  shows "R (trunc_dp D n x)" and "\<bar>trunc_dp D n x\<bar> \<le> \<bar>x\<bar>" and "0 \<le> x * trunc_dp D n x"
  using assms unfolding decimal_laws_def by blast+

lemma laws_trunc_nonneg:
  assumes "decimal_laws D R" and "R x" and "0 \<le> x"
  shows "0 \<le> trunc_dp D n x" and "trunc_dp D n x \<le> x"
proof -
  from laws_trunc [OF assms(1,2), of n] assms(3)
  show "trunc_dp D n x \<le> x" by linarith
  from laws_trunc [OF assms(1,2), of n] assms(3) show "0 \<le> trunc_dp D n x"
    by (cases "x = 0") (auto simp: zero_le_mult_iff)
qed

lemma laws_round:
  assumes "decimal_laws D R" and "R x"
  shows "R (round_dp D n x)" and "\<exists>k. round_dp D n x = of_int k / 10 ^ n"
    and "\<bar>round_dp D n x - x\<bar> \<le> 1 / (2 * 10 ^ n)"
  using assms unfolding decimal_laws_def by blast+

lemma laws_round_nonneg:
  assumes "decimal_laws D R" and "R x" and "0 \<le> x"
  shows "0 \<le> round_dp D n x"
proof (rule ccontr)
  assume neg: "\<not> 0 \<le> round_dp D n x"
  obtain k where k: "round_dp D n x = of_int k / 10 ^ n" using laws_round(2) [OF assms(1,2)] by blast
  with neg have "k < 0" by (simp add: zero_le_divide_iff not_le)
  then have "of_int k \<le> (- 1 :: rat)" by linarith
  then have "round_dp D n x \<le> (- 1) / 10 ^ n"
    unfolding k by (intro divide_right_mono) simp_all
  with assms(3) have "1 / 10 ^ n \<le> \<bar>round_dp D n x - x\<bar>" by simp
  also have "\<dots> \<le> 1 / (2 * 10 ^ n)" by (rule laws_round(3) [OF assms(1,2)])
  finally have "(2 * 10 ^ n :: rat) \<le> 10 ^ n" by (simp add: field_simps)
  moreover have "(0 :: rat) < 10 ^ n" by simp
  ultimately show False by linarith
qed

text \<open>Operations that cannot overflow: the exact result is bounded by an operand.\<close>

lemma sub_within:
  assumes "decimal_laws D R" and "R a" and "R b" and "0 \<le> b" and "b \<le> a"
  obtains c where "checked_sub D a b = Some c" and "R c" and "0 \<le> c" and "c \<le> a"
proof -
  note law = laws_sub [OF assms(1,2,3)]
  from assms have "\<bar>a - b\<bar> \<le> a" by linarith
  then obtain c where c: "checked_sub D a b = Some c" using op_law_total [OF law assms(2)] by blast
  note f = op_law_faithful [OF law c]
  have "0 \<le> c" using faithful_ge [OF f laws_zero [OF assms(1)]] assms by simp
  moreover have "c \<le> a" using faithful_le [OF f assms(2)] assms by simp
  ultimately show thesis using that c op_law_repr [OF law c] by blast
qed

lemma sub_total:
  assumes "decimal_laws D R" and "R a" and "R b" and "0 \<le> a" and "0 \<le> b"
  shows "\<exists>c. checked_sub D a b = Some c \<and> R c"
proof -
  note law = laws_sub [OF assms(1,2,3)]
  have "\<bar>a - b\<bar> \<le> a \<or> \<bar>a - b\<bar> \<le> b" using assms(4,5) by linarith
  then obtain c where "checked_sub D a b = Some c" using op_law_total [OF law] assms(2,3) by blast
  then show ?thesis using op_law_repr [OF law] by blast
qed

lemma div_within:
  assumes "decimal_laws D R" and "R a" and "R b" and "0 \<le> a" and "1 \<le> b"
  obtains c where "checked_div D a b = Some c" and "R c" and "0 \<le> c" and "c \<le> a"
proof -
  have nz: "b \<noteq> 0" using assms(5) by simp
  note law = laws_div [OF assms(1,2,3) nz]
  have le: "0 \<le> a / b" "a / b \<le> a" using assms(4,5) by (simp_all add: divide_le_eq mult_le_cancel_left1)
  then have "\<bar>a / b\<bar> \<le> a" by simp
  then obtain c where c: "checked_div D a b = Some c" using op_law_total [OF law assms(2)] by blast
  note f = op_law_faithful [OF law c]
  show thesis
    using that [OF c op_law_repr [OF law c]] faithful_ge [OF f laws_zero [OF assms(1)]]
      faithful_le [OF f assms(2)] le by simp
qed

lemma ratio_within:
  assumes "decimal_laws D R" and "R a" and "R b" and "0 \<le> a" and "a \<le> b" and "0 < b"
  obtains c where "checked_div D a b = Some c" and "R c" and "0 \<le> c" and "c \<le> 1"
proof -
  have nz: "b \<noteq> 0" using assms(6) by simp
  note law = laws_div [OF assms(1,2,3) nz]
  have le: "0 \<le> a / b" "a / b \<le> 1" using assms(4-6) by (simp_all add: divide_le_eq)
  then have "\<bar>a / b\<bar> \<le> 1" by simp
  then obtain c where c: "checked_div D a b = Some c"
    using op_law_total [OF law laws_one [OF assms(1)]] by blast
  note f = op_law_faithful [OF law c]
  show thesis
    using that [OF c op_law_repr [OF law c]] faithful_ge [OF f laws_zero [OF assms(1)]]
      faithful_le [OF f laws_one [OF assms(1)]] le by simp
qed

lemma add_repr: "decimal_laws D R \<Longrightarrow> R a \<Longrightarrow> R b \<Longrightarrow> checked_add D a b = Some c \<Longrightarrow> R c"
  using laws_add op_law_repr by blast

lemma sub_repr: "decimal_laws D R \<Longrightarrow> R a \<Longrightarrow> R b \<Longrightarrow> checked_sub D a b = Some c \<Longrightarrow> R c"
  using laws_sub op_law_repr by blast

lemma mul_repr: "decimal_laws D R \<Longrightarrow> R a \<Longrightarrow> R b \<Longrightarrow> checked_mul D a b = Some c \<Longrightarrow> R c"
  using laws_mul op_law_repr by blast

lemma div_repr: "decimal_laws D R \<Longrightarrow> R a \<Longrightarrow> R b \<Longrightarrow> checked_div D a b = Some c \<Longrightarrow> R c"
  using laws_div [of D R a b] op_law_repr unfolding decimal_laws_def by (metis option.distinct(1))

lemma add_nonneg:
  "decimal_laws D R \<Longrightarrow> R a \<Longrightarrow> R b \<Longrightarrow> 0 \<le> a \<Longrightarrow> 0 \<le> b \<Longrightarrow> checked_add D a b = Some c \<Longrightarrow> a \<le> c"
  using faithful_ge [OF op_law_faithful [OF laws_add]] by fastforce

lemma op_law_nonneg:
  assumes "op_law R f a b x" and "R 0" and "0 \<le> x" and "f a b = Some c"
  shows "0 \<le> c"
  by (rule faithful_ge [OF op_law_faithful [OF assms(1,4)] assms(2,3)])

lemma mul_nonneg:
  "decimal_laws D R \<Longrightarrow> R a \<Longrightarrow> R b \<Longrightarrow> 0 \<le> a \<Longrightarrow> 0 \<le> b \<Longrightarrow> checked_mul D a b = Some c \<Longrightarrow> 0 \<le> c"
  by (rule op_law_nonneg [OF laws_mul laws_zero]) simp_all

lemma div_nonneg:
  "decimal_laws D R \<Longrightarrow> R a \<Longrightarrow> R b \<Longrightarrow> 0 \<le> a \<Longrightarrow> 0 < b \<Longrightarrow> checked_div D a b = Some c \<Longrightarrow> 0 \<le> c"
  by (rule op_law_nonneg [OF laws_div laws_zero]) simp_all

lemma min_repr: "R a \<Longrightarrow> R b \<Longrightarrow> R (min a b)"
  by (simp add: min_def)

section \<open>The instance satisfies the laws\<close>

lemma dec96_op_law: "op_law dec96_repr (\<lambda>a b. dec96_lim (h a b)) a b (h a b)"
  by (auto simp: op_law_def dec96_lim_def faithful_def dec96_repr_def)

lemma dec96_grid:
  assumes "\<bar>k\<bar> < 2 ^ 96"
  shows "dec96_repr (of_int k / 10 ^ n)"
proof -
  have "\<bar>of_int k / 10 ^ n :: rat\<bar> = of_int \<bar>k\<bar> / 10 ^ n" by (simp add: abs_divide)
  also have "\<dots> \<le> of_int \<bar>k\<bar> / 1" by (intro divide_left_mono) (simp_all add: one_le_power)
  also have "\<dots> \<le> of_int (2 ^ 96 - 1)" using assms by (simp only: of_int_le_iff div_by_1)
  finally show ?thesis by (simp add: dec96_repr_def dec_max_def)
qed

lemma dec96_trunc_law:
  "\<bar>dec96_trunc n x\<bar> \<le> \<bar>x\<bar> \<and> 0 \<le> x * dec96_trunc n x"
proof -
  let ?f = "of_int \<lfloor>\<bar>x\<bar> * 10 ^ n\<rfloor> :: rat"
  have "?f \<le> \<bar>x\<bar> * 10 ^ n" by (rule of_int_floor_le)
  then have le: "?f / 10 ^ n \<le> \<bar>x\<bar>" by (simp add: divide_le_eq)
  have ge: "0 \<le> ?f / 10 ^ n" by simp
  have "\<bar>dec96_trunc n x\<bar> \<le> ?f / 10 ^ n" using ge by (auto simp: dec96_trunc_def abs_mult sgn_if)
  with le have "\<bar>dec96_trunc n x\<bar> \<le> \<bar>x\<bar>" by linarith
  moreover have "x * dec96_trunc n x = \<bar>x\<bar> * (?f / 10 ^ n)"
    by (simp add: dec96_trunc_def sgn_if abs_if)
  ultimately show ?thesis using ge by simp
qed

lemma dec96_round_near: "\<bar>dec96_round n x - x\<bar> \<le> 1 / (2 * 10 ^ n)"
proof -
  let ?y = "x * 10 ^ n"
  obtain k where k: "dec96_round n x = of_int k / 10 ^ n" and near: "\<bar>of_int k - ?y\<bar> \<le> 1 / 2"
  proof -
    let ?f = "\<lfloor>?y\<rfloor>"
    let ?k = "if ?y - of_int ?f < 1/2 then ?f else if ?y - of_int ?f > 1/2 then ?f + 1
                else if even ?f then ?f else ?f + 1"
    have fl: "of_int ?f \<le> ?y" "?y < of_int ?f + 1" by linarith+
    then have "\<bar>of_int ?k - ?y\<bar> \<le> 1 / 2" by (simp add: abs_le_iff)
    moreover have "dec96_round n x = of_int ?k / 10 ^ n" by (simp only: dec96_round_def Let_def)
    ultimately show thesis by (intro that [of ?k])
  qed
  have "of_int k / 10 ^ n - x = (of_int k - ?y) / 10 ^ n" by (simp add: diff_divide_distrib)
  then have "\<bar>of_int k / 10 ^ n - x\<bar> = \<bar>of_int k - ?y\<bar> / 10 ^ n" by (simp add: abs_divide)
  also have "\<dots> \<le> (1 / 2) / 10 ^ n" using near by (intro divide_right_mono) simp_all
  finally show ?thesis by (simp add: k)
qed

lemma dec96_round_grid: "\<exists>k. dec96_round n x = of_int k / 10 ^ n"
  by (auto simp: dec96_round_def Let_def)

lemma dec96_round_repr:
  assumes "dec96_repr x"
  shows "dec96_repr (dec96_round n x)"
proof -
  obtain k where k: "dec96_round n x = of_int k / 10 ^ n" using dec96_round_grid by blast
  let ?m = "(2 ^ 96 - 1) * 10 ^ n :: int"
  have "\<bar>of_int k / 10 ^ n - x\<bar> \<le> 1 / 2 / 10 ^ n" using dec96_round_near [of n x] k by (simp add: field_simps)
  then have near: "\<bar>of_int k - x * 10 ^ n\<bar> \<le> 1 / 2"
    by (simp add: abs_diff_le_iff field_simps)
  have "\<bar>x * 10 ^ n\<bar> \<le> dec_max * 10 ^ n"
    using assms by (simp add: dec96_repr_def abs_mult)
  also have "\<dots> = of_int ?m" by (simp add: dec_max_def)
  finally have "\<bar>of_int k :: rat\<bar> \<le> of_int ?m + 1 / 2" using near by linarith
  then have "of_int \<bar>k\<bar> < (of_int (?m + 1) :: rat)" by simp
  then have "\<bar>k\<bar> < ?m + 1" by (simp only: of_int_less_iff)
  then have "\<bar>k\<bar> \<le> ?m" by linarith
  then have "of_int \<bar>k\<bar> \<le> (of_int ?m :: rat)" by (simp only: of_int_le_iff)
  then show ?thesis by (simp add: k dec96_repr_def dec_max_def abs_divide divide_le_eq)
qed

lemma dec96_laws: "decimal_laws dec96 dec96_repr"
proof -
  have "dec96_repr (dec96_trunc n x)" if "dec96_repr x" for n x
    using that dec96_trunc_law [of n x] by (simp add: dec96_repr_def)
  moreover have "op_law dec96_repr (\<lambda>a b. if b = 0 then None else dec96_lim (a / b)) a b (a / b)"
    if "b \<noteq> 0" for a b
    using that dec96_op_law [of "(/)" a b] by (simp add: op_law_def)
  ultimately show ?thesis
    unfolding decimal_laws_def
    by (auto simp: dec96_def dec96_grid dec96_op_law dec96_trunc_law dec96_round_near dec96_round_grid
        dec96_round_repr) (auto simp: dec96_repr_def)
qed

lemmas [eval_simps] = dec96_def dec96_lim_def dec96_repr_def dec_max_def dec96_trunc_def
  dec96_round_def op_add_def op_sub_def op_mul_def op_div_def

end
