(* ===== verification/Token_Filter.thy ===== *)
theory Token_Filter
  imports Decimal
begin

text \<open>
  \<^verbatim>\<open>src/crates/onchain/src/types.rs\<close> and \<^verbatim>\<open>filter.rs\<close>: a market snapshot, an open
  position, the hard safety rules and the rule that learned thresholds may only be stricter.
  Times are integers (nanoseconds since the epoch) and durations their differences; \<open>u16\<close>,
  \<open>u32\<close> are \<open>nat\<close> and \<open>i32\<close> is \<open>int\<close>: this component only compares them.
\<close>

section \<open>Shared types\<close>

datatype lp_status = Burned | Locked int | Unlocked | LpUnknown

datatype extension_kind =
  MetadataPointer | TokenMetadata | TransferFeeConfig | TransferHook | PermanentDelegate
| DefaultAccountState | Pausable | MintCloseAuthority | NonTransferable
| ConfidentialTransfer | InterestBearing | Unknown nat

record extension =
  kind :: extension_kind
  authority_revoked :: bool

record token_snapshot =
  mint :: string
  observed_at :: int
  pool_created_at :: int
  price_usd :: rat
  liquidity_usd :: rat
  mint_authority_revoked :: bool
  freeze_authority_revoked :: bool
  extensions :: "extension list"
  lp :: lp_status
  top_holders_share :: rat
  sell_impact_bps :: "nat option"
  buys_5m :: nat
  sells_5m :: nat
  price_change_5m_bps :: int
  boosts :: nat
  trending_rank :: "nat option"

record position =
  pos_mint :: string
  tokens :: rat
  cost_usd :: rat
  opened_at :: int
  entry_liquidity_usd :: rat

section \<open>The filter\<close>

record filter_rules =
  min_liquidity_usd :: rat
  min_pool_age :: int
  max_top_holders_share :: rat
  max_sell_impact_bps :: nat
  allowed_extensions :: "extension_kind list"
  max_snapshot_age :: int
  min_lp_lock_remaining :: int

datatype reject_reason =
  StaleSnapshot | InvalidSnapshot | DeniedMint | MintAuthorityActive | FreezeAuthorityActive
| UnknownExtension nat | ExtensionNotAllowed extension_kind
| ExtensionAuthorityActive extension_kind | LpNotSecured | LpUnlocksTooSoon | LiquidityTooLow
| PoolTooYoung | HolderConcentrationTooHigh | NoSellRoute | SellImpactTooHigh

datatype verdict = Accept | Reject reject_reason

fun extension_failure :: "filter_rules \<Rightarrow> extension list \<Rightarrow> reject_reason option" where
  "extension_failure r [] = None"
| "extension_failure r (e # es) =
     (case kind e of
        Unknown code \<Rightarrow> Some (UnknownExtension code)
      | k \<Rightarrow>
          if k \<notin> set (allowed_extensions r) then Some (ExtensionNotAllowed k)
          else if \<not> authority_revoked e then Some (ExtensionAuthorityActive k)
          else extension_failure r es)"

fun lp_failure :: "filter_rules \<Rightarrow> int \<Rightarrow> lp_status \<Rightarrow> reject_reason option" where
  "lp_failure r now Burned = None"
| "lp_failure r now (Locked until) =
     (if until - now \<ge> min_lp_lock_remaining r then None else Some LpUnlocksTooSoon)"
| "lp_failure r now Unlocked = Some LpNotSecured"
| "lp_failure r now LpUnknown = Some LpNotSecured"

definition first_failure ::
  "token_snapshot \<Rightarrow> filter_rules \<Rightarrow> string list \<Rightarrow> int \<Rightarrow> reject_reason option" where
  "first_failure s r deny_list now =
     (if observed_at s > now \<or> now - observed_at s > max_snapshot_age r then Some StaleSnapshot
      else if price_usd s \<le> 0 \<or> liquidity_usd s \<le> 0 \<or> top_holders_share s < 0
              \<or> top_holders_share s > 1 \<or> pool_created_at s > observed_at s
      then Some InvalidSnapshot
      else if mint s \<in> set deny_list then Some DeniedMint
      else if \<not> mint_authority_revoked s then Some MintAuthorityActive
      else if \<not> freeze_authority_revoked s then Some FreezeAuthorityActive
      else case extension_failure r (extensions s) of
        Some e \<Rightarrow> Some e
      | None \<Rightarrow>
          (case lp_failure r now (lp s) of
             Some e \<Rightarrow> Some e
           | None \<Rightarrow>
               if liquidity_usd s < min_liquidity_usd r then Some LiquidityTooLow
               else if observed_at s - pool_created_at s < min_pool_age r then Some PoolTooYoung
               else if top_holders_share s > max_top_holders_share r
               then Some HolderConcentrationTooHigh
               else (case sell_impact_bps s of
                   None \<Rightarrow> Some NoSellRoute
                 | Some bps \<Rightarrow>
                     if bps > max_sell_impact_bps r then Some SellImpactTooHigh else None)))"

definition check :: "token_snapshot \<Rightarrow> filter_rules \<Rightarrow> string list \<Rightarrow> int \<Rightarrow> verdict" where
  "check s r deny_list now = (case first_failure s r deny_list now of
     Some reason \<Rightarrow> Reject reason
   | None \<Rightarrow> Accept)"

definition looser_fields :: "filter_rules \<Rightarrow> filter_rules \<Rightarrow> (string \<times> bool) list" where
  "looser_fields base learned =
     [(''min_liquidity_usd'', min_liquidity_usd learned < min_liquidity_usd base),
      (''min_pool_age'', min_pool_age learned < min_pool_age base),
      (''max_top_holders_share'', max_top_holders_share learned > max_top_holders_share base),
      (''max_sell_impact_bps'', max_sell_impact_bps learned > max_sell_impact_bps base),
      (''allowed_extensions'',
        list_ex (\<lambda>k. k \<notin> set (allowed_extensions base)) (allowed_extensions learned)),
      (''max_snapshot_age'', max_snapshot_age learned > max_snapshot_age base),
      (''min_lp_lock_remaining'', min_lp_lock_remaining learned < min_lp_lock_remaining base)]"

text \<open>\<open>Inl\<close> names the first looser field (the code's \<open>Loosening\<close>).\<close>

definition tighten :: "filter_rules \<Rightarrow> filter_rules \<Rightarrow> string + filter_rules" where
  "tighten base learned = (case find snd (looser_fields base learned) of
     Some (field, _) \<Rightarrow> Inl field
   | None \<Rightarrow> Inr learned)"

text \<open>Every rule at once, in the order of the threshold it reads.\<close>

definition rules_hold :: "token_snapshot \<Rightarrow> filter_rules \<Rightarrow> string list \<Rightarrow> int \<Rightarrow> bool" where
  "rules_hold s r deny_list now \<longleftrightarrow>
     0 \<le> now - observed_at s \<and> now - observed_at s \<le> max_snapshot_age r
   \<and> 0 < price_usd s \<and> 0 < liquidity_usd s \<and> 0 \<le> top_holders_share s \<and> top_holders_share s \<le> 1
   \<and> pool_created_at s \<le> observed_at s
   \<and> mint s \<notin> set deny_list \<and> mint_authority_revoked s \<and> freeze_authority_revoked s
   \<and> (\<forall>e \<in> set (extensions s). (\<forall>c. kind e \<noteq> Unknown c) \<and> kind e \<in> set (allowed_extensions r)
        \<and> authority_revoked e)
   \<and> (lp s = Burned \<or> (\<exists>u. lp s = Locked u \<and> min_lp_lock_remaining r \<le> u - now))
   \<and> min_liquidity_usd r \<le> liquidity_usd s
   \<and> min_pool_age r \<le> observed_at s - pool_created_at s
   \<and> top_holders_share s \<le> max_top_holders_share r
   \<and> (\<exists>b. sell_impact_bps s = Some b \<and> b \<le> max_sell_impact_bps r)"

definition at_least_as_strict :: "filter_rules \<Rightarrow> filter_rules \<Rightarrow> bool" where
  "at_least_as_strict l b \<longleftrightarrow>
     min_liquidity_usd b \<le> min_liquidity_usd l \<and> min_pool_age b \<le> min_pool_age l
   \<and> max_top_holders_share l \<le> max_top_holders_share b
   \<and> max_sell_impact_bps l \<le> max_sell_impact_bps b
   \<and> set (allowed_extensions l) \<subseteq> set (allowed_extensions b)
   \<and> max_snapshot_age l \<le> max_snapshot_age b
   \<and> min_lp_lock_remaining b \<le> min_lp_lock_remaining l"

definition demo_snapshot :: token_snapshot where
  "demo_snapshot = \<lparr>mint = ''MintGood111'', observed_at = 1000, pool_created_at = 0,
     price_usd = 1 / 1000, liquidity_usd = 200000, mint_authority_revoked = True,
     freeze_authority_revoked = True, extensions = [], lp = Burned, top_holders_share = 15 / 100,
     sell_impact_bps = Some 80, buys_5m = 70, sells_5m = 30, price_change_5m_bps = 1200,
     boosts = 0, trending_rank = None\<rparr>"

definition demo_rules :: filter_rules where
  "demo_rules = \<lparr>min_liquidity_usd = 50000, min_pool_age = 100, max_top_holders_share = 30 / 100,
     max_sell_impact_bps = 200, allowed_extensions = [MetadataPointer, TokenMetadata],
     max_snapshot_age = 30, min_lp_lock_remaining = 500\<rparr>"

lemmas [eval_simps] = demo_snapshot_def demo_rules_def first_failure_def check_def
  looser_fields_def tighten_def

section \<open>The contract of a rule set that may only tighten\<close>

text \<open>
  \<open>accepts r i\<close>: rule set \<open>r\<close> lets input \<open>i\<close> through. \<open>adopt\<close> replaces a rule set by a
  proposal or refuses it. Whatever is proposed, in whatever order, the rules in force never
  accept an input that the configured rules reject.
\<close>

locale tightening_rules =
  fixes accepts :: "'r \<Rightarrow> 'i \<Rightarrow> bool"
    and adopt :: "'r \<Rightarrow> 'r \<Rightarrow> 'e + 'r"
  assumes adopt_sound: "adopt base learned = Inr r \<Longrightarrow> accepts r i \<Longrightarrow> accepts base i"
begin

definition propose :: "'r \<Rightarrow> 'r \<Rightarrow> 'r" where
  "propose cur learned = (case adopt cur learned of Inl _ \<Rightarrow> cur | Inr r \<Rightarrow> r)"

lemma propose_sound: "accepts (propose cur learned) i \<Longrightarrow> accepts cur i"
  by (auto simp: propose_def split: sum.splits intro: adopt_sound)

lemma proposals_sound: "accepts (foldl propose base ls) i \<Longrightarrow> accepts base i"
proof (induction ls arbitrary: base)
  case (Cons l ls)
  then have "accepts (propose base l) i" by simp
  then show ?case by (rule propose_sound)
qed simp

end

section \<open>Lemmas\<close>

lemma extension_failure_None: "extension_failure r es = None \<longleftrightarrow>
    (\<forall>e \<in> set es. (\<forall>c. kind e \<noteq> Unknown c) \<and> kind e \<in> set (allowed_extensions r)
       \<and> authority_revoked e)"
proof (induction es)
  case (Cons e es)
  then show ?case by (cases "kind e") simp_all
qed simp

lemma lp_failure_None: "lp_failure r now l = None \<longleftrightarrow>
    l = Burned \<or> (\<exists>u. l = Locked u \<and> min_lp_lock_remaining r \<le> u - now)"
  by (cases l) auto

lemma sell_failure_None:
  fixes n :: nat
  shows "(case m of None \<Rightarrow> Some NoSellRoute | Some b \<Rightarrow> if b > n then Some SellImpactTooHigh else None) = None
     \<longleftrightarrow> (\<exists>b. m = Some b \<and> b \<le> n)"
  by (cases m) auto

lemma first_failure_None: "first_failure s r deny now = None \<longleftrightarrow> rules_hold s r deny now"
  unfolding first_failure_def rules_hold_def guard_None first_None sell_failure_None
    extension_failure_None lp_failure_None
  by (simp only: not_le not_less de_Morgan_disj diff_ge_0_iff_ge conj_assoc not_not)

lemma check_Accept_iff: "check s r deny now = Accept \<longleftrightarrow> rules_hold s r deny now"
  by (auto simp: check_def first_failure_None [symmetric] split: option.splits)

lemma find_None_iff_all: "find snd xs = None \<longleftrightarrow> (\<forall>x \<in> set xs. \<not> snd x)"
  unfolding find_None_iff by blast

lemma no_looser_field: "find snd (looser_fields b l) = None \<longleftrightarrow> at_least_as_strict l b"
  by (simp add: find_None_iff_all looser_fields_def at_least_as_strict_def list_ex_iff not_less
      subset_iff Bex_def)

lemma tighten_Inr_iff: "tighten b l = Inr r \<longleftrightarrow> r = l \<and> at_least_as_strict l b"
  by (auto simp: tighten_def no_looser_field [symmetric] split: option.splits)

lemma rules_hold_mono:
  assumes "at_least_as_strict l b" and "rules_hold s l deny now"
  shows "rules_hold s b deny now"
proof -
  have lim: "min_liquidity_usd b \<le> liquidity_usd s" "min_pool_age b \<le> observed_at s - pool_created_at s"
    "top_holders_share s \<le> max_top_holders_share b" "now - observed_at s \<le> max_snapshot_age b"
    using assms unfolding at_least_as_strict_def rules_hold_def by linarith+
  have "\<exists>v. sell_impact_bps s = Some v \<and> v \<le> max_sell_impact_bps b"
    using assms unfolding at_least_as_strict_def rules_hold_def by (meson order.trans)
  moreover have "lp s = Burned \<or> (\<exists>u. lp s = Locked u \<and> min_lp_lock_remaining b \<le> u - now)"
    using assms unfolding at_least_as_strict_def rules_hold_def by (meson order.trans)
  moreover have "kind e \<in> set (allowed_extensions b)" if "e \<in> set (extensions s)" for e
    using assms that unfolding at_least_as_strict_def rules_hold_def by blast
  ultimately show ?thesis
    using assms(2) lim unfolding rules_hold_def by (simp only: simp_thms) blast
qed

interpretation fr: tightening_rules "\<lambda>r (s, deny, now). check s r deny now = Accept" tighten
proof unfold_locales
  fix base learned r and i :: "token_snapshot \<times> string list \<times> int"
  assume t: "tighten base learned = Inr r"
    and a: "case i of (s, deny, now) \<Rightarrow> check s r deny now = Accept"
  obtain s deny now where i: "i = (s, deny, now)" by (cases i)
  with t a show "case i of (s, deny, now) \<Rightarrow> check s base deny now = Accept"
    by (auto simp: check_Accept_iff tighten_Inr_iff intro: rules_hold_mono)
qed

section \<open>Properties\<close>

text \<open>
  C10. The filter accepts a snapshot exactly when every hard rule holds: fresh and well-formed
  data, not denied, mint and freeze authority revoked, every extension known, allowed and with
  its authority revoked, liquidity burned or locked long enough, enough liquidity and age, no
  holder concentration, and a sell route within the allowed impact. Promotion fields play no part.
\<close>

theorem check_accept_iff_rules:
  "(check s r deny now = Accept \<longleftrightarrow> rules_hold s r deny now)
   \<and> check (s\<lparr>boosts := b, trending_rank := t\<rparr>) r deny now = check s r deny now"
proof
  show "check s r deny now = Accept \<longleftrightarrow> rules_hold s r deny now" by (rule check_Accept_iff)
  show "check (s\<lparr>boosts := b, trending_rank := t\<rparr>) r deny now = check s r deny now"
    by (cases s) (simp only: check_def first_failure_def token_snapshot.select_convs token_snapshot.update_convs)
qed

text \<open>
  Learning can only tighten: after any sequence of proposed rule sets, each adopted only
  through \<open>tighten\<close> and otherwise refused, a snapshot accepted by the rules in force is also
  accepted by the rules the owner configured.
\<close>

theorem learned_rules_never_loosen:
  assumes "check s (foldl (\<lambda>cur l. case tighten cur l of Inl _ \<Rightarrow> cur | Inr r \<Rightarrow> r) base proposals) deny now
             = Accept"
  shows "check s base deny now = Accept"
proof -
  have "fr.propose = (\<lambda>cur l. case tighten cur l of Inl _ \<Rightarrow> cur | Inr r \<Rightarrow> r)"
    by (simp add: fun_eq_iff fr.propose_def)
  with assms fr.proposals_sound [of base proposals "(s, deny, now)"] show ?thesis by simp
qed

theorem learned_rules_never_loosen_witness:
  "check demo_snapshot (foldl (\<lambda>cur l. case tighten cur l of Inl _ \<Rightarrow> cur | Inr r \<Rightarrow> r) demo_rules
     [demo_rules\<lparr>min_liquidity_usd := 80000\<rparr>, demo_rules\<lparr>max_sell_impact_bps := 300\<rparr>]) [] 1010 = Accept
   \<and> check demo_snapshot demo_rules [] 1010 = Accept"
proof -
  have h: "check demo_snapshot (foldl (\<lambda>cur l. case tighten cur l of Inl _ \<Rightarrow> cur | Inr r \<Rightarrow> r) demo_rules
     [demo_rules\<lparr>min_liquidity_usd := 80000\<rparr>, demo_rules\<lparr>max_sell_impact_bps := 300\<rparr>]) [] 1010 = Accept"
    by (simp add: eval_simps)
  show ?thesis using h learned_rules_never_loosen [OF h] by simp
qed

end
