(* ===== verification/Paper.thy ===== *)
theory Paper
  imports Token_Filter
begin

text \<open>
  \<^verbatim>\<open>src/crates/onchain/src/paper.rs\<close>: simulated fills along a constant-product pool, and the
  lot ledger with net profit and loss. \<open>Err\<close> is the code's \<open>None\<close> (type \<open>unit\<close>) or its
  \<open>LedgerError\<close>; \<open>Panic\<close> is an operator on decimals that overflows. A \<open>BTreeMap\<close> is a sorted
  association list. On an error the ledger is unchanged, since the code returns before its
  first assignment; so the operations return the new ledger on success only.
\<close>

section \<open>Simulated fills\<close>

definition bps :: rat where "bps = 10000"

record cost_model =
  dex_fee_bps :: nat
  network_fee_usd :: rat
  priority_fee_usd :: rat
  failure_rate :: rat

definition is_valid :: "cost_model \<Rightarrow> bool" where
  "is_valid c \<longleftrightarrow> dex_fee_bps c < 10000 \<and> network_fee_usd c \<ge> 0 \<and> priority_fee_usd c \<ge> 0
     \<and> 0 \<le> failure_rate c \<and> failure_rate c \<le> 1"

datatype fill = Filled rat rat | FailedFill rat

definition reserves :: "decimal \<Rightarrow> rat \<Rightarrow> rat \<Rightarrow> (rat \<times> rat) opt" where
  "reserves D price liquidity =
     (if price \<le> 0 \<or> liquidity \<le> 0 then Err ()
      else bind_res (op_div D liquidity 2) (\<lambda>quote_reserve.
           bind_res (ok_or () (checked_div D quote_reserve price)) (\<lambda>token_reserve.
           Ok (quote_reserve, token_reserve))))"

definition curve_out :: "decimal \<Rightarrow> rat \<Rightarrow> rat \<Rightarrow> rat \<Rightarrow> rat opt" where
  "curve_out D amount_in reserve_in reserve_out =
     (if amount_in \<le> 0 then Err ()
      else bind_res (ok_or () (checked_mul D reserve_out amount_in)) (\<lambda>num.
           bind_res (ok_or () (checked_add D reserve_in amount_in)) (\<lambda>den.
           bind_res (ok_or () (checked_div D num den)) (\<lambda>q.
           Ok (trunc_dp D 12 q)))))"

definition swap_out :: "decimal \<Rightarrow> rat \<Rightarrow> rat \<Rightarrow> rat \<Rightarrow> cost_model \<Rightarrow> rat opt" where
  "swap_out D amount_in reserve_in reserve_out costs =
     bind_res (op_sub D bps (of_nat (dex_fee_bps costs))) (\<lambda>keep.
     bind_res (ok_or () (checked_mul D amount_in keep)) (\<lambda>m.
     bind_res (op_div D m bps) (\<lambda>after_fee.
     curve_out D after_fee reserve_in reserve_out)))"

text \<open>The closure \<open>fill\<close> is only run after the checks; \<open>bind_res\<close> keeps that order.\<close>

definition attempt :: "decimal \<Rightarrow> cost_model \<Rightarrow> rat \<Rightarrow> rat opt \<Rightarrow> fill opt" where
  "attempt D costs roll fill =
     (if \<not> is_valid costs \<or> \<not> (0 \<le> roll \<and> roll < 1) then Err ()
      else bind_res (ok_or () (checked_add D (network_fee_usd costs) (priority_fee_usd costs))) (\<lambda>fees.
           bind_res fill (\<lambda>amount_out.
           if \<not> amount_out > 0 then Err ()
           else if roll < failure_rate costs then Ok (FailedFill fees)
           else Ok (Filled amount_out fees))))"

definition buy :: "decimal \<Rightarrow> rat \<Rightarrow> rat \<Rightarrow> rat \<Rightarrow> cost_model \<Rightarrow> rat \<Rightarrow> fill opt" where
  "buy D usd_in price liquidity costs roll =
     bind_res (reserves D price liquidity) (\<lambda>(quote_reserve, token_reserve).
     attempt D costs roll (swap_out D usd_in quote_reserve token_reserve costs))"

definition sell :: "decimal \<Rightarrow> rat \<Rightarrow> rat \<Rightarrow> rat \<Rightarrow> cost_model \<Rightarrow> rat \<Rightarrow> fill opt" where
  "sell D toks price liquidity costs roll =
     bind_res (reserves D price liquidity) (\<lambda>(quote_reserve, token_reserve).
     attempt D costs roll (swap_out D toks token_reserve quote_reserve costs))"

definition sell_value :: "decimal \<Rightarrow> rat \<Rightarrow> rat \<Rightarrow> rat \<Rightarrow> cost_model \<Rightarrow> rat opt" where
  "sell_value D toks price liquidity costs =
     (if \<not> is_valid costs then Err ()
      else bind_res (reserves D price liquidity) (\<lambda>(quote_reserve, token_reserve).
           swap_out D toks token_reserve quote_reserve costs))"

section \<open>The ledger\<close>

record mark =
  mark_price_usd :: rat
  mark_liquidity_usd :: rat

record closed_trade =
  ct_mint :: string
  ct_opened_at :: int
  ct_closed_at :: int
  net_pnl_usd :: rat

datatype ledger_error = InvalidAmount | InsufficientTokens | OutOfOrder | Overflow

record pnl_report =
  realised_usd :: rat
  unrealised_usd :: rat
  rep_failed_tx_fees_usd :: rat
  rep_ai_cost_usd :: rat
  net_usd :: rat

record ledger =
  lots :: "position list"
  closed :: "closed_trade list"
  open_trips :: "(string \<times> rat \<times> int) list"
  failed_tx_fees_usd :: rat
  ai_cost_usd :: rat
  last_event_at :: "int option"

definition ledger_default :: ledger where
  "ledger_default = \<lparr>lots = [], closed = [], open_trips = [], failed_tx_fees_usd = 0,
     ai_cost_usd = 0, last_event_at = None\<rparr>"

fun checked_sum_from :: "decimal \<Rightarrow> rat \<Rightarrow> rat list \<Rightarrow> (ledger_error, rat) res" where
  "checked_sum_from D acc [] = Ok acc"
| "checked_sum_from D acc (v # vs) =
     bind_res (ok_or Overflow (checked_add D acc v)) (\<lambda>a. checked_sum_from D a vs)"

definition checked_sum :: "decimal \<Rightarrow> rat list \<Rightarrow> (ledger_error, rat) res" where
  "checked_sum D vs = checked_sum_from D 0 vs"

definition add_cost :: "decimal \<Rightarrow> rat \<Rightarrow> rat \<Rightarrow> (ledger_error, rat) res" where
  "add_cost D tot usd =
     (if usd < 0 then Err InvalidAmount else ok_or Overflow (checked_add D tot usd))"

definition check_order :: "ledger \<Rightarrow> int \<Rightarrow> (ledger_error, unit) res" where
  "check_order l tm = (case last_event_at l of
     Some prev \<Rightarrow> if tm < prev then Err OutOfOrder else Ok ()
   | None \<Rightarrow> Ok ())"

definition ledger_open :: "ledger \<Rightarrow> position \<Rightarrow> (ledger_error, ledger) res" where
  "ledger_open l lot =
     (if tokens lot \<le> 0 \<or> cost_usd lot < 0 then Err InvalidAmount
      else bind_res (check_order l (opened_at lot)) (\<lambda>_.
           Ok (l\<lparr>last_event_at := Some (opened_at lot), lots := lots l @ [lot]\<rparr>)))"

text \<open>The share of a lot's cost that a sale of \<open>take\<close> of its tokens carries.\<close>

definition lot_share :: "decimal \<Rightarrow> position \<Rightarrow> rat \<Rightarrow> (ledger_error, rat) res" where
  "lot_share D lot tk =
     (if tk = tokens lot then Ok (cost_usd lot)
      else bind_res (op_div D tk (tokens lot)) (\<lambda>ratio.
           bind_res (ok_or Overflow (checked_mul D (cost_usd lot) ratio)) (\<lambda>x.
           Ok (min (round_dp D 12 x) (cost_usd lot)))))"

text \<open>The loop over the lots of \<open>m\<close>: what is left to sell, its cost so far, the oldest lot.\<close>

fun consume_lots :: "decimal \<Rightarrow> string \<Rightarrow> position list \<Rightarrow> rat \<Rightarrow> rat \<Rightarrow> int option
    \<Rightarrow> (ledger_error, position list \<times> rat \<times> rat \<times> int option) res" where
  "consume_lots D m [] left cost oldest = Ok ([], left, cost, oldest)"
| "consume_lots D m (lot # ls) left cost oldest =
     (if pos_mint lot \<noteq> m then
        bind_res (consume_lots D m ls left cost oldest) (\<lambda>(ls', r). Ok (lot # ls', r))
      else if left = 0 then Ok (lot # ls, left, cost, oldest)
      else
        let oldest' = (case oldest of None \<Rightarrow> Some (opened_at lot) | Some t \<Rightarrow> Some t);
            tk = min left (tokens lot)
        in bind_res (lot_share D lot tk) (\<lambda>share.
           bind_res (op_sub D (tokens lot) tk) (\<lambda>tokens'.
           bind_res (op_sub D (cost_usd lot) share) (\<lambda>lot_cost'.
           bind_res (ok_or Overflow (checked_add D cost share)) (\<lambda>cost'.
           bind_res (op_sub D left tk) (\<lambda>left'.
           bind_res (consume_lots D m ls left' cost' oldest') (\<lambda>(ls', r).
           Ok (lot\<lparr>tokens := tokens', cost_usd := lot_cost'\<rparr> # ls', r))))))))"

text \<open>The end of \<open>close\<close>: drop empty lots, then keep the round trip open or complete it.\<close>

definition settle_trip ::
  "ledger \<Rightarrow> string \<Rightarrow> int \<Rightarrow> position list \<Rightarrow> rat \<Rightarrow> int \<Rightarrow> ledger" where
  "settle_trip l m tm ls trip_pnl trip_opened =
     (let kept = filter (\<lambda>x. tokens x \<noteq> 0) ls;
          l' = l\<lparr>lots := kept, last_event_at := Some tm\<rparr>
      in if list_ex (\<lambda>x. pos_mint x = m) kept
         then l'\<lparr>open_trips := bt_insert m (trip_pnl, trip_opened) (open_trips l)\<rparr>
         else l'\<lparr>open_trips := al_remove m (open_trips l),
                 closed := closed l @ [\<lparr>ct_mint = m, ct_opened_at = trip_opened,
                                         ct_closed_at = tm, net_pnl_usd = trip_pnl\<rparr>]\<rparr>)"

definition mint_lots :: "string \<Rightarrow> position list \<Rightarrow> position list" where
  "mint_lots m ls = filter (\<lambda>x. pos_mint x = m) ls"

text \<open>The round trip a sale belongs to: its realised profit so far and when it was opened.\<close>

definition trip_so_far :: "ledger \<Rightarrow> string \<Rightarrow> int option \<Rightarrow> int \<Rightarrow> rat \<times> int" where
  "trip_so_far l m oldest tm = (case al_get (open_trips l) m of
     Some (p, t) \<Rightarrow> (p, t)
   | None \<Rightarrow> (0, case oldest of Some t \<Rightarrow> t | None \<Rightarrow> tm))"

definition ledger_close ::
  "decimal \<Rightarrow> ledger \<Rightarrow> string \<Rightarrow> rat \<Rightarrow> rat \<Rightarrow> rat \<Rightarrow> int \<Rightarrow> (ledger_error, rat \<times> ledger) res" where
  "ledger_close D l m toks usd_out fees tm =
     (if toks \<le> 0 \<or> usd_out < 0 \<or> fees < 0 then Err InvalidAmount
      else bind_res (check_order l tm) (\<lambda>_.
      bind_res (checked_sum D (map tokens (mint_lots m (lots l)))) (\<lambda>held.
      if toks > held then Err InsufficientTokens
      else bind_res (consume_lots D m (lots l) toks 0 None) (\<lambda>(ls, left, cost, oldest).
           bind_res (ok_or Overflow (Option.bind (checked_sub D usd_out fees) (\<lambda>v. checked_sub D v cost)))
             (\<lambda>net.
           let trip = trip_so_far l m oldest tm
           in bind_res (ok_or Overflow (checked_add D (fst trip) net)) (\<lambda>trip_pnl.
              Ok (net, settle_trip l m tm ls trip_pnl (snd trip))))))))"

definition record_failed_tx :: "decimal \<Rightarrow> ledger \<Rightarrow> rat \<Rightarrow> (ledger_error, ledger) res" where
  "record_failed_tx D l fees =
     bind_res (add_cost D (failed_tx_fees_usd l) fees) (\<lambda>t. Ok (l\<lparr>failed_tx_fees_usd := t\<rparr>))"

definition record_ai_cost :: "decimal \<Rightarrow> ledger \<Rightarrow> rat \<Rightarrow> (ledger_error, ledger) res" where
  "record_ai_cost D l usd =
     bind_res (add_cost D (ai_cost_usd l) usd) (\<lambda>t. Ok (l\<lparr>ai_cost_usd := t\<rparr>))"

section \<open>Valuation\<close>

text \<open>Tokens and cost per held mint, in mint order.\<close>

fun group_lots :: "decimal \<Rightarrow> (string \<times> rat \<times> rat) list \<Rightarrow> position list
    \<Rightarrow> (ledger_error, (string \<times> rat \<times> rat) list) res" where
  "group_lots D acc [] = Ok acc"
| "group_lots D acc (lot # ls) =
     (let (t, c) = (case al_get acc (pos_mint lot) of Some p \<Rightarrow> p | None \<Rightarrow> (0, 0)) in
      bind_res (ok_or Overflow (checked_add D t (tokens lot))) (\<lambda>t'.
      bind_res (ok_or Overflow (checked_add D c (cost_usd lot))) (\<lambda>c'.
      group_lots D (bt_insert (pos_mint lot) (t', c') acc) ls)))"

definition mark_value ::
  "decimal \<Rightarrow> (string \<times> mark) list \<Rightarrow> cost_model \<Rightarrow> string \<Rightarrow> rat \<Rightarrow> (ledger_error, rat) res" where
  "mark_value D marks costs m toks = (case al_get marks m of
     None \<Rightarrow> Ok 0
   | Some mk \<Rightarrow> (case sell_value D toks (mark_price_usd mk) (mark_liquidity_usd mk) costs of
        Ok v \<Rightarrow> Ok v
      | Err _ \<Rightarrow> Ok 0
      | Panic \<Rightarrow> Panic))"

fun value_groups :: "decimal \<Rightarrow> (string \<times> mark) list \<Rightarrow> cost_model \<Rightarrow> (string \<times> rat \<times> rat) list
    \<Rightarrow> (ledger_error, (string \<times> rat) list) res" where
  "value_groups D marks costs [] = Ok []"
| "value_groups D marks costs ((m, t, c) # gs) =
     bind_res (mark_value D marks costs m t) (\<lambda>v.
     bind_res (op_sub D v c) (\<lambda>u.
     bind_res (value_groups D marks costs gs) (\<lambda>r. Ok ((m, u) # r))))"

definition open_by_mint :: "decimal \<Rightarrow> ledger \<Rightarrow> (string \<times> mark) list \<Rightarrow> cost_model
    \<Rightarrow> (ledger_error, (string \<times> rat) list) res" where
  "open_by_mint D l marks costs =
     bind_res (group_lots D [] (lots l)) (\<lambda>gs. value_groups D marks costs gs)"

fun sum_losses :: "decimal \<Rightarrow> (string \<times> rat \<times> int) list \<Rightarrow> rat \<Rightarrow> (string \<times> rat) list
    \<Rightarrow> (ledger_error, rat) res" where
  "sum_losses D trips acc [] = Ok acc"
| "sum_losses D trips acc ((m, u) # r) =
     (let partial = (case al_get trips m of Some (p, _) \<Rightarrow> p | None \<Rightarrow> 0) in
      bind_res (ok_or Overflow (checked_add D partial u)) (\<lambda>trip.
      bind_res (ok_or Overflow (checked_add D acc (min trip 0))) (\<lambda>acc'.
      sum_losses D trips acc' r)))"

definition open_losses :: "decimal \<Rightarrow> ledger \<Rightarrow> (string \<times> mark) list \<Rightarrow> cost_model
    \<Rightarrow> (ledger_error, rat) res" where
  "open_losses D l marks costs =
     bind_res (open_by_mint D l marks costs) (\<lambda>os. sum_losses D (open_trips l) 0 os)"

definition ledger_pnl :: "decimal \<Rightarrow> ledger \<Rightarrow> (string \<times> mark) list \<Rightarrow> cost_model
    \<Rightarrow> (ledger_error, pnl_report) res" where
  "ledger_pnl D l marks costs =
     bind_res (checked_sum D (map net_pnl_usd (closed l))) (\<lambda>closed_sum.
     bind_res (checked_sum D (map (\<lambda>(_, p, _). p) (open_trips l))) (\<lambda>partial.
     bind_res (ok_or Overflow (checked_add D closed_sum partial)) (\<lambda>realised.
     bind_res (open_by_mint D l marks costs) (\<lambda>os.
     bind_res (checked_sum D (map snd os)) (\<lambda>unrealised.
     bind_res (checked_sum D [realised, unrealised, - failed_tx_fees_usd l, - ai_cost_usd l]) (\<lambda>net.
     Ok \<lparr>realised_usd = realised, unrealised_usd = unrealised,
         rep_failed_tx_fees_usd = failed_tx_fees_usd l, rep_ai_cost_usd = ai_cost_usd l,
         net_usd = net\<rparr>))))))"

section \<open>Events\<close>

datatype ledger_event =
  OpenLot position
| CloseLot string rat rat rat int
| FailedTx rat
| AiCost rat

text \<open>One call on the ledger; an error (or a panic of the caller's thread) changes nothing.\<close>

fun ledger_step :: "decimal \<Rightarrow> ledger \<Rightarrow> ledger_event \<Rightarrow> ledger" where
  "ledger_step D l (OpenLot lot) = (case ledger_open l lot of Ok l' \<Rightarrow> l' | _ \<Rightarrow> l)"
| "ledger_step D l (CloseLot m t u f tm) =
     (case ledger_close D l m t u f tm of Ok (_, l') \<Rightarrow> l' | _ \<Rightarrow> l)"
| "ledger_step D l (FailedTx f) = (case record_failed_tx D l f of Ok l' \<Rightarrow> l' | _ \<Rightarrow> l)"
| "ledger_step D l (AiCost c) = (case record_ai_cost D l c of Ok l' \<Rightarrow> l' | _ \<Rightarrow> l)"

section \<open>Lemmas on fills\<close>

lemma bps_repr: "decimal_laws D R \<Longrightarrow> R bps"
  using laws_nat [of D R 10000] by (simp add: bps_def)

lemma reserves_ok:
  assumes laws: "decimal_laws D R" and "R p" and "R liq"
  shows "reserves D p liq \<noteq> Panic"
    and "reserves D p liq = Ok (q, t) \<Longrightarrow> R q \<and> R t \<and> 0 \<le> q \<and> 0 \<le> t \<and> 0 < p \<and> 0 < liq"
proof -
  have two: "R 2" using laws_nat [OF laws, of 2] by simp
  have halve: "\<exists>c. checked_div D liq 2 = Some c \<and> R c \<and> 0 \<le> c" if "0 < liq"
    by (rule div_within [OF laws assms(3) two]) (use that in auto)
  show "reserves D p liq \<noteq> Panic"
    using halve by (auto simp: reserves_def op_div_def res_simps not_le)
  show "R q \<and> R t \<and> 0 \<le> q \<and> 0 \<le> t \<and> 0 < p \<and> 0 < liq" if ok: "reserves D p liq = Ok (q, t)"
  proof -
    from ok have pos: "0 < p" "0 < liq" and q: "checked_div D liq 2 = Some q"
      and t: "checked_div D q p = Some t"
      by (auto simp: reserves_def op_div_def res_simps split: if_splits)
    from halve [OF pos(2)] q have "R q" "0 \<le> q" by auto
    with pos t show ?thesis using div_repr [OF laws _ assms(2)] div_nonneg [OF laws _ assms(2)] by auto
  qed
qed

lemma curve_out_ok:
  assumes laws: "decimal_laws D R" and "R a" and "R ri" and "R ro" and "0 \<le> ri" and "0 \<le> ro"
  shows "curve_out D a ri ro \<noteq> Panic"
    and "curve_out D a ri ro = Ok x \<Longrightarrow> R x \<and> 0 \<le> x \<and> 0 < a"
proof -
  show "curve_out D a ri ro \<noteq> Panic" by (auto simp: curve_out_def res_simps)
  show "R x \<and> 0 \<le> x \<and> 0 < a" if ok: "curve_out D a ri ro = Ok x"
  proof -
    from ok obtain n d q where a: "0 < a" and n: "checked_mul D ro a = Some n"
      and d: "checked_add D ri a = Some d" and q: "checked_div D n d = Some q" and x: "x = trunc_dp D 12 q"
      by (auto simp: curve_out_def res_simps split: if_splits)
    have n': "R n" "0 \<le> n"
      using mul_repr [OF laws assms(4,2) n] mul_nonneg [OF laws assms(4,2,6) _ n] a by simp_all
    have d': "R d" by (rule add_repr [OF laws assms(3,2) d])
    have "a \<le> d" using faithful_ge [OF op_law_faithful [OF laws_add [OF laws assms(3,2)] d] assms(2)] assms(5) by simp
    with a have "0 < d" by simp
    then have "R q" "0 \<le> q" using q n' d' laws div_repr div_nonneg by blast+
    then show ?thesis using laws_trunc_nonneg [OF laws] laws_trunc(1) [OF laws] x a by simp
  qed
qed

lemma swap_out_ok:
  assumes laws: "decimal_laws D R" and "R a" and "R ri" and "R ro" and "0 \<le> ri" and "0 \<le> ro"
    and "dex_fee_bps c < 10000"
  shows "swap_out D a ri ro c \<noteq> Panic"
    and "swap_out D a ri ro c = Ok x \<Longrightarrow> R x \<and> 0 \<le> x"
proof -
  have fee: "R (of_nat (dex_fee_bps c))" using laws_nat [OF laws] assms(7) by simp
  have "of_nat (dex_fee_bps c) \<le> (bps :: rat)" using assms(7) by (simp add: bps_def)
  then obtain k where k: "checked_sub D bps (of_nat (dex_fee_bps c)) = Some k" "R k"
    using sub_within [OF laws bps_repr [OF laws] fee] by auto
  have dv: "\<exists>y. checked_div D m bps = Some y \<and> R y" if "R m" for m
  proof -
    have "\<bar>m / bps\<bar> \<le> m \<or> \<bar>m / bps\<bar> \<le> - m" by (auto simp: bps_def abs_if)
    then have "\<exists>y. checked_div D m bps = Some y"
      using op_law_total [OF laws_div [OF laws that bps_repr [OF laws]]] that laws_neg [OF laws that]
      by (auto simp: bps_def)
    then show ?thesis using div_repr [OF laws that bps_repr [OF laws]] by blast
  qed
  have step: "swap_out D a ri ro c = (case checked_mul D a k of None \<Rightarrow> Err ()
      | Some m \<Rightarrow> curve_out D (the (checked_div D m bps)) ri ro)"
    proof (cases "checked_mul D a k")
    case (Some m)
    then obtain y where "checked_div D m bps = Some y"
      using dv [OF mul_repr [OF laws assms(2) k(2)]] by blast
    with Some k show ?thesis by (simp add: swap_out_def op_sub_def op_div_def)
  qed (simp add: swap_out_def op_sub_def k)
  have rep: "R (the (checked_div D m bps))" if "checked_mul D a k = Some m" for m
    using dv [OF mul_repr [OF laws assms(2) k(2) that]] by auto
  show "swap_out D a ri ro c \<noteq> Panic"
    using curve_out_ok(1) [OF laws rep assms(3-6)] by (auto simp: step split: option.splits)
  show "swap_out D a ri ro c = Ok x \<Longrightarrow> R x \<and> 0 \<le> x"
    using curve_out_ok(2) [OF laws rep assms(3-6)] by (auto simp: step split: option.splits)
qed

lemma sell_value_ok:
  assumes laws: "decimal_laws D R" and "R t" and "R p" and "R liq"
  shows "sell_value D t p liq c \<noteq> Panic"
    and "sell_value D t p liq c = Ok x \<Longrightarrow> R x \<and> 0 \<le> x"
proof -
  note rs = reserves_ok [OF laws assms(3,4)]
  show "sell_value D t p liq c \<noteq> Panic"
    using rs swap_out_ok(1) [OF laws assms(2)]
    by (auto simp: sell_value_def is_valid_def res_simps split: prod.splits)
  show "R x \<and> 0 \<le> x" if ok: "sell_value D t p liq c = Ok x"
  proof -
    from ok obtain q r where qr: "reserves D p liq = Ok (q, r)" and v: "is_valid c"
      and x: "swap_out D t r q c = Ok x"
      by (auto simp: sell_value_def res_simps split: if_splits)
    with rs(2) [OF qr] show ?thesis
      using swap_out_ok(2) [OF laws assms(2) _ _ _ _ _ x] by (simp add: is_valid_def)
  qed
qed


section \<open>The ledger invariant\<close>

definition before :: "int \<Rightarrow> int option \<Rightarrow> bool" where
  "before t m \<longleftrightarrow> (case m of None \<Rightarrow> False | Some l \<Rightarrow> t \<le> l)"

definition lot_ok :: "(rat \<Rightarrow> bool) \<Rightarrow> position \<Rightarrow> bool" where
  "lot_ok R x \<longleftrightarrow> 0 \<le> tokens x \<and> 0 \<le> cost_usd x \<and> R (tokens x) \<and> R (cost_usd x)"

text \<open>
  Lots are positive and not from the future of the ledger; a round trip is open only for a
  mint that is still held; completed trips are in time order and closed no earlier than they
  were opened; the cost counters are non-negative. \<open>R\<close> holds of every stored decimal.
\<close>

definition ledger_inv :: "(rat \<Rightarrow> bool) \<Rightarrow> ledger \<Rightarrow> bool" where
  "ledger_inv R l \<longleftrightarrow>
     (\<forall>x \<in> set (lots l). lot_ok R x \<and> 0 < tokens x \<and> before (opened_at x) (last_event_at l))
   \<and> bt_wf (open_trips l)
   \<and> (\<forall>(m, p, t) \<in> set (open_trips l). R p \<and> before t (last_event_at l) \<and> m \<in> pos_mint ` set (lots l))
   \<and> (\<forall>c \<in> set (closed l). R (net_pnl_usd c) \<and> ct_opened_at c \<le> ct_closed_at c
        \<and> before (ct_closed_at c) (last_event_at l))
   \<and> sorted (map ct_closed_at (closed l))
   \<and> 0 \<le> failed_tx_fees_usd l \<and> R (failed_tx_fees_usd l)
   \<and> 0 \<le> ai_cost_usd l \<and> R (ai_cost_usd l)"

fun event_repr :: "(rat \<Rightarrow> bool) \<Rightarrow> ledger_event \<Rightarrow> bool" where
  "event_repr R (OpenLot x) \<longleftrightarrow> R (tokens x) \<and> R (cost_usd x)"
| "event_repr R (CloseLot m t u f tm) \<longleftrightarrow> R t \<and> R u \<and> R f"
| "event_repr R (FailedTx f) \<longleftrightarrow> R f"
| "event_repr R (AiCost c) \<longleftrightarrow> R c"

lemma lot_share_ok:
  assumes laws: "decimal_laws D R" and lot: "lot_ok R lot" and tk: "R tk" "0 \<le> tk" "tk \<le> tokens lot" "0 < tokens lot"
  shows "lot_share D lot tk \<noteq> Panic"
    and "lot_share D lot tk = Ok s \<Longrightarrow> R s \<and> 0 \<le> s \<and> s \<le> cost_usd lot"
proof -
  from lot have R: "R (tokens lot)" "R (cost_usd lot)" "0 \<le> cost_usd lot" by (simp_all add: lot_ok_def)
  obtain r where r: "checked_div D tk (tokens lot) = Some r" "R r" "0 \<le> r" "r \<le> 1"
    using ratio_within [OF laws tk(1) R(1) tk(2,3,4)] by blast
  show "lot_share D lot tk \<noteq> Panic" by (auto simp: lot_share_def op_div_def r res_simps)
  show "R s \<and> 0 \<le> s \<and> s \<le> cost_usd lot" if ok: "lot_share D lot tk = Ok s"
  proof (cases "tk = tokens lot")
    case True
    with ok R show ?thesis by (simp add: lot_share_def)
  next
    case False
    with ok r obtain x where x: "checked_mul D (cost_usd lot) r = Some x" and s: "s = min (round_dp D 12 x) (cost_usd lot)"
      by (auto simp: lot_share_def op_div_def res_simps)
    have "R x" "0 \<le> x" using mul_repr [OF laws R(2) r(2) x] mul_nonneg [OF laws R(2) r(2) R(3) r(3) x] .
    then have "R (round_dp D 12 x)" "0 \<le> round_dp D 12 x" using laws_round(1) [OF laws] laws_round_nonneg [OF laws] by auto
    with R s show ?thesis by (simp add: min_def)
  qed
qed

text \<open>What the loop keeps: mints and dates in place, other mints untouched, amounts valid.\<close>

definition consumed :: "(rat \<Rightarrow> bool) \<Rightarrow> string \<Rightarrow> position list \<Rightarrow> int option \<Rightarrow>
    position list \<times> rat \<times> rat \<times> int option \<Rightarrow> bool" where
  "consumed R m ls oldest res \<longleftrightarrow> (case res of (ls', left, cost, oldest') \<Rightarrow>
     map pos_mint ls' = map pos_mint ls \<and> map opened_at ls' = map opened_at ls
   \<and> filter (\<lambda>x. pos_mint x \<noteq> m) ls' = filter (\<lambda>x. pos_mint x \<noteq> m) ls
   \<and> (\<forall>x \<in> set ls'. lot_ok R x)
   \<and> R left \<and> 0 \<le> left \<and> R cost \<and> 0 \<le> cost
   \<and> (oldest' = oldest \<or> (\<exists>x \<in> set ls. oldest' = Some (opened_at x))))"

lemma consume_lots_ok:
  assumes laws: "decimal_laws D R"
    and "\<forall>x \<in> set ls. lot_ok R x \<and> 0 < tokens x" and "R left" and "0 \<le> left" and "R cost" and "0 \<le> cost"
  shows "consume_lots D m ls left cost oldest \<noteq> Panic
       \<and> (\<forall>res. consume_lots D m ls left cost oldest = Ok res \<longrightarrow> consumed R m ls oldest res)"
  using assms(2-)
proof (induction ls arbitrary: left cost oldest)
  case Nil
  then show ?case by (auto simp: consumed_def)
next
  case (Cons lot ls)
  then have lot: "lot_ok R lot" "0 < tokens lot" and ls: "\<forall>x \<in> set ls. lot_ok R x \<and> 0 < tokens x" by auto
  show ?case
  proof (cases "pos_mint lot = m \<and> left \<noteq> 0")
    case False
    with Cons.IH [OF ls Cons.prems(2-5), of oldest] Cons.prems lot show ?thesis
      by (cases "consume_lots D m ls left cost oldest") (auto simp: consumed_def)
  next
    case True
    define tk where "tk = min left (tokens lot)"
    define old' where "old' = (case oldest of None \<Rightarrow> Some (opened_at lot) | Some t \<Rightarrow> Some t)"
    have lotR: "R (tokens lot)" "R (cost_usd lot)" "0 \<le> cost_usd lot" using lot by (simp_all add: lot_ok_def)
    have tk: "R tk" "0 \<le> tk" "tk \<le> tokens lot" "tk \<le> left"
      using Cons.prems lotR lot(2) by (auto simp: tk_def min_def)
    obtain t' where t': "checked_sub D (tokens lot) tk = Some t'" "R t'" "0 \<le> t'"
      using sub_within [OF laws lotR(1) tk(1,2,3)] by blast
    obtain left' where left': "checked_sub D left tk = Some left'" "R left'" "0 \<le> left'"
      using sub_within [OF laws Cons.prems(2) tk(1,2,4)] by blast
    note sh = lot_share_ok [OF laws lot(1) tk(1,2,3) lot(2)]
    have step: "consume_lots D m (lot # ls) left cost oldest =
        bind_res (lot_share D lot tk) (\<lambda>s. bind_res (op_sub D (cost_usd lot) s) (\<lambda>c'.
        bind_res (ok_or Overflow (checked_add D cost s)) (\<lambda>cost'.
        bind_res (consume_lots D m ls left' cost' old') (\<lambda>(ls', r).
          Ok (lot\<lparr>tokens := t', cost_usd := c'\<rparr> # ls', r)))))"
      using True t'(1) left'(1) by (simp add: tk_def old'_def op_sub_def Let_def)
    show ?thesis
    proof (cases "lot_share D lot tk")
      case (Ok s)
      with sh(2) have s: "R s" "0 \<le> s" "s \<le> cost_usd lot" by auto
      obtain c' where c': "checked_sub D (cost_usd lot) s = Some c'" "R c'" "0 \<le> c'"
        using sub_within [OF laws lotR(2) s] by blast
      show ?thesis
      proof (cases "checked_add D cost s")
        case None
        with Ok c' step show ?thesis by (simp add: op_sub_def)
      next
        case (Some cost')
        have cost': "R cost'" "0 \<le> cost'"
          using add_repr [OF laws Cons.prems(4) s(1) Some] add_nonneg [OF laws Cons.prems(4) s(1) Cons.prems(5) s(2) Some]
            Cons.prems(5) by simp_all
        have old: "old' = oldest \<or> old' = Some (opened_at lot)" by (auto simp: old'_def split: option.splits)
        note IH = Cons.IH [OF ls left'(2,3) cost', of old']
        have "lot_ok R (lot\<lparr>tokens := t', cost_usd := c'\<rparr>)" using t' c' by (simp add: lot_ok_def)
        moreover have "consume_lots D m (lot # ls) left cost oldest =
            bind_res (consume_lots D m ls left' cost' old') (\<lambda>(ls', r).
              Ok (lot\<lparr>tokens := t', cost_usd := c'\<rparr> # ls', r))"
          by (simp only: step Ok Some op_sub_def c'(1) bind_res.simps or_panic.simps ok_or.simps)
        ultimately show ?thesis
          using IH old True
          by (cases "consume_lots D m ls left' cost' old'") (auto simp: consumed_def simp del: consume_lots.simps)
      qed
    qed (use sh(1) step in auto)
  qed
qed


lemma checked_sum_from_ok:
  assumes laws: "decimal_laws D R" and "R acc" and "\<forall>v \<in> set vs. R v"
  shows "checked_sum_from D acc vs \<noteq> Panic
       \<and> (\<forall>x. checked_sum_from D acc vs = Ok x \<longrightarrow> R x)"
  using assms(2,3)
proof (induction vs arbitrary: acc)
  case (Cons v vs)
  then show ?case
    by (cases "checked_add D acc v") (auto dest: add_repr [OF laws])
qed simp

lemma checked_sum_ok:
  assumes "decimal_laws D R" and "\<forall>v \<in> set vs. R v"
  shows "checked_sum D vs \<noteq> Panic" and "checked_sum D vs = Ok x \<Longrightarrow> R x"
  using checked_sum_from_ok [OF assms(1) laws_zero [OF assms(1)] assms(2)]
  by (auto simp: checked_sum_def)

lemma ledger_invD:
  assumes "ledger_inv R l"
  shows "x \<in> set (lots l) \<Longrightarrow> lot_ok R x \<and> 0 < tokens x \<and> before (opened_at x) (last_event_at l)"
    and "bt_wf (open_trips l)"
    and "(m, p, t) \<in> set (open_trips l) \<Longrightarrow> R p \<and> before t (last_event_at l) \<and> m \<in> pos_mint ` set (lots l)"
    and "c \<in> set (closed l) \<Longrightarrow> R (net_pnl_usd c) \<and> ct_opened_at c \<le> ct_closed_at c
           \<and> before (ct_closed_at c) (last_event_at l)"
    and "sorted (map ct_closed_at (closed l))"
    and "0 \<le> failed_tx_fees_usd l" and "R (failed_tx_fees_usd l)"
    and "0 \<le> ai_cost_usd l" and "R (ai_cost_usd l)"
  using assms unfolding ledger_inv_def by blast+

text \<open>The parts of a successful sale.\<close>

lemma ledger_close_Ok:
  assumes "ledger_close D l m toks usd_out fees tm = Ok (net, l')"
  obtains ls left cost oldest trip held where
    "0 < toks" "0 \<le> usd_out" "0 \<le> fees" "check_order l tm = Ok ()"
    "checked_sum D (map tokens (mint_lots m (lots l))) = Ok held" "toks \<le> held"
    "consume_lots D m (lots l) toks 0 None = Ok (ls, left, cost, oldest)"
    "Option.bind (checked_sub D usd_out fees) (\<lambda>v. checked_sub D v cost) = Some net"
    "checked_add D (fst (trip_so_far l m oldest tm)) net = Some trip"
    "l' = settle_trip l m tm ls trip (snd (trip_so_far l m oldest tm))"
  using assms
  by (auto simp: ledger_close_def res_simps not_le not_less Let_def split: if_splits)

lemma check_order_before: "before t (last_event_at l) \<Longrightarrow> check_order l tm = Ok () \<Longrightarrow> t \<le> tm"
  by (auto simp: before_def check_order_def split: option.splits if_splits)

lemma settle_trip_inv:
  assumes inv: "ledger_inv R l" and ord: "check_order l tm = Ok ()"
    and ls: "map pos_mint ls = map pos_mint (lots l)" "map opened_at ls = map opened_at (lots l)"
      "filter (\<lambda>x. pos_mint x \<noteq> m) ls = filter (\<lambda>x. pos_mint x \<noteq> m) (lots l)"
      "\<forall>x \<in> set ls. lot_ok R x"
    and trip: "R trip" "opened \<le> tm"
  shows "ledger_inv R (settle_trip l m tm ls trip opened)"
proof -
  define kept where "kept = filter (\<lambda>x. tokens x \<noteq> 0) ls"
  have past: "t \<le> tm" if "before t (last_event_at l)" for t
    by (rule check_order_before [OF that ord])
  have bf: "before t (Some tm) \<longleftrightarrow> t \<le> tm" for t by (simp add: before_def)
  have lots: "lot_ok R x \<and> 0 < tokens x \<and> opened_at x \<le> tm" if "x \<in> set kept" for x
  proof -
    from that have x: "x \<in> set ls" "tokens x \<noteq> 0" by (simp_all add: kept_def)
    then have "lot_ok R x" using ls(4) by blast
    moreover from x have "opened_at x \<in> opened_at ` set (lots l)"
      using ls(2) by (metis list.set_map image_eqI)
    ultimately show ?thesis
      using x past ledger_invD(1) [OF inv] by (fastforce simp: lot_ok_def)
  qed
  have other: "k \<in> pos_mint ` set kept" if "k \<noteq> m" "k \<in> pos_mint ` set (lots l)" for k
  proof -
    from that obtain x where x: "x \<in> set (lots l)" "pos_mint x = k" by auto
    then have "x \<in> set (filter (\<lambda>x. pos_mint x \<noteq> m) ls)" using that ls(3) by simp
    moreover have "0 < tokens x" using ledger_invD(1) [OF inv x(1)] by simp
    ultimately show ?thesis using x(2) by (force simp: kept_def)
  qed
  have trips: "R p \<and> t \<le> tm \<and> k \<in> pos_mint ` set (lots l)" if "(k, p, t) \<in> set (open_trips l)" for k p t
    using ledger_invD(3) [OF inv that] past by blast
  have fin: "R (net_pnl_usd c) \<and> ct_opened_at c \<le> ct_closed_at c \<and> ct_closed_at c \<le> tm"
    if "c \<in> set (closed l)" for c using ledger_invD(4) [OF inv that] past by blast
  show ?thesis
  proof (cases "list_ex (\<lambda>x. pos_mint x = m) kept")
    case True
    then have held: "m \<in> pos_mint ` set kept" by (auto simp: list_ex_iff)
    have "R p \<and> t \<le> tm \<and> k \<in> pos_mint ` set kept"
      if "(k, p, t) \<in> set (bt_insert m (trip, opened) (open_trips l))" for k p t
      using that trips other held trip by (auto simp: bt_insert_set [OF ledger_invD(2) [OF inv]])
    then show ?thesis
      using True lots fin ledger_invD(5-9) [OF inv] bt_insert_wf [OF ledger_invD(2) [OF inv]]
      by (auto simp: settle_trip_def kept_def [symmetric] ledger_inv_def bf Let_def)
  next
    case False
    have "R p \<and> t \<le> tm \<and> k \<in> pos_mint ` set kept" if "(k, p, t) \<in> set (al_remove m (open_trips l))" for k p t
      using that trips other by (auto simp: set_al_remove)
    moreover have "sorted (map ct_closed_at (closed l) @ [tm])"
      using ledger_invD(5) [OF inv] fin by (auto simp: sorted_append)
    ultimately show ?thesis
      using False lots fin ledger_invD(6-9) [OF inv] bt.wf_remove [OF ledger_invD(2) [OF inv]] trip
      by (auto simp: settle_trip_def kept_def [symmetric] ledger_inv_def bf Let_def)
  qed
qed

lemma trip_so_far_ok:
  assumes laws: "decimal_laws D R" and inv: "ledger_inv R l" and ord: "check_order l tm = Ok ()"
    and old: "oldest = None \<or> (\<exists>x \<in> set (lots l). oldest = Some (opened_at x))"
  shows "R (fst (trip_so_far l m oldest tm)) \<and> snd (trip_so_far l m oldest tm) \<le> tm"
proof (cases "al_get (open_trips l) m")
  case None
  from old have "(case oldest of None \<Rightarrow> tm | Some t \<Rightarrow> t) \<le> tm"
    using ledger_invD(1) [OF inv] check_order_before [OF _ ord] by auto
  with None show ?thesis using laws_zero [OF laws] by (simp add: trip_so_far_def)
next
  case (Some pt)
  obtain p t where pt: "pt = (p, t)" by (cases pt)
  with Some have "(m, p, t) \<in> set (open_trips l)" by (auto dest: map_of_SomeD)
  then show ?thesis
    using Some pt ledger_invD(3) [OF inv] check_order_before [OF _ ord] by (simp add: trip_so_far_def)
qed

lemma ledger_close_inv:
  assumes laws: "decimal_laws D R" and inv: "ledger_inv R l" and rep: "R toks" "R usd_out" "R fees"
    and ok: "ledger_close D l m toks usd_out fees tm = Ok (net, l')"
  shows "ledger_inv R l'" and "R net"
proof -
  obtain ls left cost oldest trip held where
    c: "0 < toks" "0 \<le> usd_out" "0 \<le> fees" "check_order l tm = Ok ()"
    "checked_sum D (map tokens (mint_lots m (lots l))) = Ok held" "toks \<le> held"
    "consume_lots D m (lots l) toks 0 None = Ok (ls, left, cost, oldest)"
    "Option.bind (checked_sub D usd_out fees) (\<lambda>v. checked_sub D v cost) = Some net"
    "checked_add D (fst (trip_so_far l m oldest tm)) net = Some trip"
    "l' = settle_trip l m tm ls trip (snd (trip_so_far l m oldest tm))"
    by (rule ledger_close_Ok [OF ok])
  have "consumed R m (lots l) None (ls, left, cost, oldest)"
    using consume_lots_ok [OF laws _ rep(1) _ laws_zero [OF laws]] ledger_invD(1) [OF inv] c(1,7) by auto
  then have k: "map pos_mint ls = map pos_mint (lots l)" "map opened_at ls = map opened_at (lots l)"
      "filter (\<lambda>x. pos_mint x \<noteq> m) ls = filter (\<lambda>x. pos_mint x \<noteq> m) (lots l)"
      "\<forall>x \<in> set ls. lot_ok R x" and cost: "R cost"
    and old: "oldest = None \<or> (\<exists>x \<in> set (lots l). oldest = Some (opened_at x))"
    by (auto simp: consumed_def)
  show net: "R net" 
  proof -
    from c(8) obtain v where v: "checked_sub D usd_out fees = Some v" "checked_sub D v cost = Some net"
      by (auto simp: bind_eq_Some_conv)
    show ?thesis by (rule sub_repr [OF laws sub_repr [OF laws rep(2,3) v(1)] cost v(2)])
  qed
  have t: "R (fst (trip_so_far l m oldest tm))" "snd (trip_so_far l m oldest tm) \<le> tm"
    using trip_so_far_ok [OF laws inv c(4) old] by simp_all
  show "ledger_inv R l'"
    unfolding c(10) by (rule settle_trip_inv [OF inv c(4) k add_repr [OF laws t(1) net c(9)] t(2)])
qed

lemma ledger_close_no_panic:
  assumes laws: "decimal_laws D R" and inv: "ledger_inv R l" and "R toks"
  shows "ledger_close D l m toks usd_out fees tm \<noteq> Panic"
proof -
  have lt: "\<forall>x \<in> set (lots l). lot_ok R x \<and> 0 < tokens x" using ledger_invD(1) [OF inv] by blast
  then have "\<forall>v \<in> set (map tokens (mint_lots m (lots l))). R v" by (auto simp: mint_lots_def lot_ok_def)
  then have "checked_sum D (map tokens (mint_lots m (lots l))) \<noteq> Panic" by (rule checked_sum_ok(1) [OF laws])
  moreover have "consume_lots D m (lots l) toks 0 None \<noteq> Panic" if "0 < toks"
    using consume_lots_ok [OF laws lt assms(3) _ laws_zero [OF laws]] that by simp
  ultimately show ?thesis
    by (auto simp: ledger_close_def res_simps check_order_def Let_def not_le split: option.splits prod.splits)
qed

lemma ledger_open_inv:
  assumes "ledger_inv R l" and "R (tokens x)" and "R (cost_usd x)" and ok: "ledger_open l x = Ok l'"
  shows "ledger_inv R l'"
proof -
  from ok have x: "0 < tokens x" "0 \<le> cost_usd x" and ord: "check_order l (opened_at x) = Ok ()"
    and l': "l' = l\<lparr>last_event_at := Some (opened_at x), lots := lots l @ [x]\<rparr>"
    by (auto simp: ledger_open_def res_simps split: if_splits)
  note past = check_order_before [OF _ ord]
  show ?thesis
    using x assms(2,3) past ledger_invD [OF assms(1)]
    by (auto 0 3 simp: l' ledger_inv_def lot_ok_def before_def [of _ "Some _"])
qed

lemma ledger_cost_inv:
  assumes laws: "decimal_laws D R" and inv: "ledger_inv R l" and "R c"
  shows "record_failed_tx D l c = Ok l' \<Longrightarrow> ledger_inv R l'"
    and "record_ai_cost D l c = Ok l' \<Longrightarrow> ledger_inv R l'"
proof -
  have add: "R t \<and> a \<le> t" if "add_cost D a c = Ok t" "R a" "0 \<le> a" for a t
    using that add_repr [OF laws that(2) assms(3)] add_nonneg [OF laws that(2) assms(3)]
    by (auto simp: add_cost_def res_simps split: if_splits)
  show "record_failed_tx D l c = Ok l' \<Longrightarrow> ledger_inv R l'"
    using add ledger_invD(6,7) [OF inv] inv by (fastforce simp: record_failed_tx_def res_simps ledger_inv_def)
  show "record_ai_cost D l c = Ok l' \<Longrightarrow> ledger_inv R l'"
    using add ledger_invD(8,9) [OF inv] inv by (fastforce simp: record_ai_cost_def res_simps ledger_inv_def)
qed

lemma ledger_step_inv:
  assumes laws: "decimal_laws D R" and inv: "ledger_inv R l" and "event_repr R e"
  shows "ledger_inv R (ledger_step D l e)"
proof (cases e)
  case (OpenLot x)
  then show ?thesis using assms(3) inv by (auto split: res.split intro: ledger_open_inv)
next
  case (CloseLot m t u f tm)
  then show ?thesis using assms(3) inv ledger_close_inv(1) [OF laws inv] by (auto split: res.split)
next
  case (FailedTx f)
  then show ?thesis using assms(3) inv ledger_cost_inv(1) [OF laws inv] by (simp split: res.split)
next
  case (AiCost c)
  then show ?thesis using assms(3) inv ledger_cost_inv(2) [OF laws inv] by (simp split: res.split)
qed

section \<open>Exact accounting\<close>

text \<open>
  Amounts with at most twelve decimals below \<open>2 ^ n\<close> units of the last place. On them the
  package computes exactly.
\<close>

definition grid :: "nat \<Rightarrow> rat \<Rightarrow> bool" where
  "grid n x \<longleftrightarrow> (\<exists>k :: int. x = of_int k / 10 ^ 12 \<and> \<bar>k\<bar> < 2 ^ n)"

definition held_tokens :: "string \<Rightarrow> position list \<Rightarrow> rat" where
  "held_tokens m ls = sum_list (map tokens (mint_lots m ls))"

definition held_cost :: "string \<Rightarrow> position list \<Rightarrow> rat" where
  "held_cost m ls = sum_list (map cost_usd (mint_lots m ls))"

lemma grid_le:
  assumes "grid n x" and "grid 96 y" and "0 \<le> y" and "y \<le> x"
  shows "grid n y"
proof -
  from assms(1,2) obtain k j :: int where "x = of_int k / 10 ^ 12" "\<bar>k\<bar> < 2 ^ n" "y = of_int j / 10 ^ 12"
    by (auto simp: grid_def)
  moreover from this assms(3,4) have "0 \<le> j" "j \<le> k" by (simp_all add: divide_le_cancel zero_le_divide_iff)
  ultimately show ?thesis by (auto simp: grid_def)
qed

lemma grid_mono:
  assumes "grid n x" and "n \<le> n'"
  shows "grid n' x"
proof -
  have "(2 :: int) ^ n \<le> 2 ^ n'" by (rule power_increasing [OF assms(2)]) simp
  moreover obtain k :: int where "x = of_int k / 10 ^ 12" "\<bar>k\<bar> < 2 ^ n" using assms(1) by (auto simp: grid_def)
  ultimately show ?thesis unfolding grid_def by (blast intro: order.strict_trans2)
qed

lemma grid_diff: 
  assumes "grid n a" and "grid n b"
  shows "grid (Suc n) (a - b)" and "grid (Suc n) (a + b)"
proof -
  from assms obtain k j :: int where k: "a = of_int k / 10 ^ 12" "\<bar>k\<bar> < 2 ^ n" 
    and j: "b = of_int j / 10 ^ 12" "\<bar>j\<bar> < 2 ^ n" by (auto simp: grid_def)
  have "a - b = of_int (k - j) / 10 ^ 12" "a + b = of_int (k + j) / 10 ^ 12" 
    using k j by (simp_all add: diff_divide_distrib add_divide_distrib)
  moreover have "\<bar>k - j\<bar> < 2 ^ Suc n" "\<bar>k + j\<bar> < 2 ^ Suc n" using k(2) j(2) by simp_all
  ultimately show "grid (Suc n) (a - b)" "grid (Suc n) (a + b)" unfolding grid_def by blast+
qed

lemma grid_sub:
  assumes "grid n a" and "grid n b" and "0 \<le> b" and "b \<le> a" and "n < 96"
  shows "grid n (a - b)"
proof (rule grid_le [OF assms(1)])
  show "grid 96 (a - b)" by (rule grid_mono [OF grid_diff(1) [OF assms(1,2)]]) (use assms(5) in simp)
qed (use assms in auto)

lemma grid_repr:
  assumes "decimal_laws D R" and "grid n x" and "n \<le> 96"
  shows "R x" and "R (- x)"
proof -
  from assms(2) obtain k :: int where k: "x = of_int k / 10 ^ 12" "\<bar>k\<bar> < 2 ^ n" by (auto simp: grid_def)
  have "\<bar>k\<bar> < 2 ^ 96" using k(2) assms(3) by (meson order.strict_trans2 one_le_numeral power_increasing)
  then show "R x" using laws_grid [OF assms(1), of 12 k] by (simp only: k(1))
  then show "R (- x)" by (rule laws_neg [OF assms(1)])
qed

lemma sub_exact:
  assumes "decimal_laws D R" and "grid n a" and "grid n b" and "n < 96"
  shows "checked_sub D a b = Some (a - b)" and "checked_add D a b = Some (a + b)"
proof -
  have R: "R a" "R b" using grid_repr(1) [OF assms(1)] assms(2-4) by auto
  have "grid 96 (a - b)" "grid 96 (a + b)"
    using grid_mono [OF grid_diff(1) [OF assms(2,3)]] grid_mono [OF grid_diff(2) [OF assms(2,3)]] assms(4) by simp_all
  then show "checked_sub D a b = Some (a - b)" "checked_add D a b = Some (a + b)"
    using op_law_exact [OF laws_sub [OF assms(1) R]] op_law_exact [OF laws_add [OF assms(1) R]]
      grid_repr [OF assms(1)] by blast+
qed

lemma lot_share_grid:
  assumes laws: "decimal_laws D R" and lot: "lot_ok R lot" and "R tk" "0 \<le> tk" "tk \<le> tokens lot" "0 < tokens lot"
    and "grid n (cost_usd lot)" and "n \<le> 96" and ok: "lot_share D lot tk = Ok s"
  shows "grid n s"
proof (cases "tk = tokens lot")
  case True
  with ok assms(7) show ?thesis by (simp add: lot_share_def)
next
  case False
  with ok obtain r x where r: "checked_div D tk (tokens lot) = Some r" and x: "checked_mul D (cost_usd lot) r = Some x"
    and s: "s = min (round_dp D 12 x) (cost_usd lot)"
    by (auto simp: lot_share_def op_div_def res_simps)
  have R: "R (tokens lot)" "R (cost_usd lot)" using lot by (simp_all add: lot_ok_def)
  have "R x" by (rule mul_repr [OF laws R(2) div_repr [OF laws assms(3) R(1) r] x])
  then obtain j where j: "round_dp D 12 x = of_int j / 10 ^ 12" using laws_round(2) [OF laws] by blast
  from assms(7) obtain k where k: "cost_usd lot = of_int k / 10 ^ 12" "\<bar>k\<bar> < 2 ^ n" by (auto simp: grid_def)
  have s0: "0 \<le> s" "s \<le> cost_usd lot" using lot_share_ok(2) [OF laws lot assms(3-6) ok] by simp_all
  have "s = of_int (min j k) / 10 ^ 12" by (simp add: s j k min_def divide_le_cancel)
  moreover from this s0 k have "\<bar>min j k\<bar> \<le> \<bar>k\<bar>" by (simp add: zero_le_divide_iff)
  ultimately show ?thesis using k(2) unfolding grid_def by (intro exI [of _ "min j k"]) simp
qed


lemma held_Cons:
  "held_tokens m (x # ls) = (if pos_mint x = m then tokens x else 0) + held_tokens m ls"
  "held_cost m (x # ls) = (if pos_mint x = m then cost_usd x else 0) + held_cost m ls"
  by (simp_all add: held_tokens_def held_cost_def mint_lots_def)

lemma held_nonneg:
  assumes "\<forall>x \<in> set ls. lot_ok R x"
  shows "0 \<le> held_tokens m ls" and "0 \<le> held_cost m ls"
  using assms by (induction ls) (auto simp: held_Cons lot_ok_def, simp_all add: held_tokens_def held_cost_def mint_lots_def)

text \<open>The amounts of the lots of \<open>m\<close> are on the grid, and so is what they add up to.\<close>

definition lots_grid :: "nat \<Rightarrow> string \<Rightarrow> position list \<Rightarrow> bool" where
  "lots_grid n m ls \<longleftrightarrow> (\<forall>x \<in> set (mint_lots m ls). grid n (tokens x) \<and> grid n (cost_usd x))"

lemma consume_lots_exact:
  assumes laws: "decimal_laws D R" and n: "n < 96"
    and "\<forall>x \<in> set ls. lot_ok R x \<and> 0 < tokens x" and "lots_grid n m ls"
    and "grid n left" and "0 \<le> left" and "grid n cost" and "0 \<le> cost" and "grid n (cost + held_cost m ls)"
    and "consume_lots D m ls left cost oldest = Ok (ls', left', cost', oldest')"
  shows "held_tokens m ls - held_tokens m ls' = left - left' \<and> held_cost m ls - held_cost m ls' = cost' - cost
    \<and> left' = max 0 (left - held_tokens m ls) \<and> grid n cost' \<and> (\<forall>x \<in> set ls'. tokens x = 0 \<longrightarrow> cost_usd x = 0)"
  using assms(3-)
proof (induction ls arbitrary: left cost oldest ls')
  case Nil
  then show ?case by (simp add: held_tokens_def mint_lots_def)
next
  case (Cons lot ls)
  then have lot: "lot_ok R lot" "0 < tokens lot" and ls: "\<forall>x \<in> set ls. lot_ok R x \<and> 0 < tokens x" 
    and lg: "lots_grid n m ls" by (auto simp: lots_grid_def mint_lots_def)
  have nn: "0 \<le> held_tokens m ls" "0 \<le> held_cost m ls" using held_nonneg ls by blast+
  show ?case
  proof (cases "pos_mint lot = m")
    case False
    with Cons.prems(8) obtain l2 where "consume_lots D m ls left cost oldest = Ok (l2, left', cost', oldest')" "ls' = lot # l2"
      by (auto simp: res_simps)
    moreover have "grid n (cost + held_cost m ls)" using Cons.prems(7) False by (simp add: held_Cons)
    ultimately show ?thesis using lot(2) Cons.IH [OF ls lg Cons.prems(3-6)] False by (auto simp: held_Cons)
  next
    case m: True
    show ?thesis
    proof (cases "left = 0")
      case True
      with m Cons.prems(5,8) nn lot(2) ls show ?thesis by (force simp: held_Cons)
    next
      case False
      define tk where "tk = min left (tokens lot)"
      have lotg: "grid n (tokens lot)" "grid n (cost_usd lot)" using Cons.prems(2) m by (simp_all add: lots_grid_def mint_lots_def)
      have tk: "grid n tk" "0 \<le> tk" "tk \<le> tokens lot" "tk \<le> left"
        using Cons.prems(3,4) lotg lot(2) by (auto simp: tk_def min_def)
      have tkR: "R tk" using grid_repr(1) [OF laws tk(1)] n by simp
      from Cons.prems(8) m False obtain s l2 c1 old1 where
        s: "lot_share D lot tk = Ok s" and c1: "checked_add D cost s = Some c1"
        and rest: "consume_lots D m ls (left - tk) c1 old1 = Ok (l2, left', cost', oldest')"
        and ls': "\<exists>c2. checked_sub D (cost_usd lot) s = Some c2 \<and> ls' = lot\<lparr>tokens := tokens lot - tk, cost_usd := c2\<rparr> # l2"
        by (auto simp: res_simps Let_def op_sub_def tk_def [symmetric]
             sub_exact(1) [OF laws lotg(1) tk(1) n] sub_exact(1) [OF laws Cons.prems(3) tk(1) n])
      have sg: "grid n s" "0 \<le> s" "s \<le> cost_usd lot"
        using lot_share_grid [OF laws lot(1) tkR tk(2,3) lot(2) lotg(2) _ s] n
          lot_share_ok(2) [OF laws lot(1) tkR tk(2,3) lot(2) s] by simp_all
      have c1': "c1 = cost + s" using sub_exact(2) [OF laws Cons.prems(5) sg(1) n] c1 by simp
      have ls2: "ls' = lot\<lparr>tokens := tokens lot - tk, cost_usd := cost_usd lot - s\<rparr> # l2"
        using ls' sub_exact(1) [OF laws lotg(2) sg(1) n] by simp
      have tot: "cost + held_cost m (lot # ls) = cost + (cost_usd lot + held_cost m ls)" using m by (simp add: held_Cons)
      have g1: "grid n c1"
      proof (rule grid_le [OF Cons.prems(7)])
        show "grid 96 c1" unfolding c1' by (rule grid_mono [OF grid_diff(2) [OF Cons.prems(5) sg(1)]]) (use n in simp)
      qed (use c1' sg nn Cons.prems(6) tot in auto)
      have g2: "grid n (c1 + held_cost m ls)"
      proof -
        have "c1 + held_cost m ls = (cost + held_cost m (lot # ls)) - (cost_usd lot - s)" by (simp add: c1' tot)
        moreover have "grid n (cost_usd lot - s)" by (rule grid_sub [OF lotg(2) sg n])
        ultimately show ?thesis
          using grid_sub [OF Cons.prems(7), of "cost_usd lot - s"] sg nn Cons.prems(6) n tot by (simp add: add_ac)
      qed
      have "held_tokens m ls - held_tokens m l2 = (left - tk) - left' \<and> held_cost m ls - held_cost m l2 = cost' - c1
        \<and> left' = max 0 ((left - tk) - held_tokens m ls) \<and> grid n cost'
        \<and> (\<forall>x \<in> set l2. tokens x = 0 \<longrightarrow> cost_usd x = 0)"
      proof (rule Cons.IH [OF ls lg _ _ g1 _ g2 rest])
        show "grid n (left - tk)" by (rule grid_sub [OF Cons.prems(3) tk(1,2,4) n])
      qed (use tk c1' sg Cons.prems(6) in auto)
      moreover have "s = cost_usd lot" if "tokens lot - tk = 0" using s that by (simp add: lot_share_def)
      ultimately show ?thesis using m nn lot(2) by (auto simp: ls2 held_Cons c1' tk_def min_def max_def)
    qed
  qed
qed

lemma checked_sum_from_exact:
  assumes laws: "decimal_laws D R" and n: "n < 96"
    and "\<forall>v \<in> set vs. grid n v \<and> 0 \<le> v" and "grid n acc" and "0 \<le> acc" and "grid n (acc + sum_list vs)"
  shows "checked_sum_from D acc vs = Ok (acc + sum_list vs)"
  using assms(3-)
proof (induction vs arbitrary: acc)
  case (Cons v vs)
  then have v: "grid n v" "0 \<le> v" and s: "0 \<le> sum_list vs" by (auto intro: sum_list_nonneg)
  have "grid n (acc + v)"
  proof (rule grid_le [OF Cons.prems(4)])
    show "grid 96 (acc + v)" by (rule grid_mono [OF grid_diff(2) [OF Cons.prems(2) v(1)]]) (use n in simp)
  qed (use v s Cons.prems(3) in auto)
  then show ?case
    using Cons sub_exact(2) [OF laws Cons.prems(2) v(1) n] by (simp add: add.assoc)
qed simp

definition realised_total :: "ledger \<Rightarrow> rat" where
  "realised_total l = sum_list (map net_pnl_usd (closed l)) + sum_list (map (\<lambda>(_, p, _). p) (open_trips l))"

lemma sum_trips_remove:
  fixes trips :: "(string \<times> rat \<times> int) list"
  assumes "distinct (map fst trips)"
  shows "sum_list (map (\<lambda>(_, p, _). p) (al_remove m trips))
       = sum_list (map (\<lambda>(_, p, _). p) trips) - (case map_of trips m of Some (p, _) \<Rightarrow> p | None \<Rightarrow> 0)"
  using assms
proof (induction trips)
  case (Cons e trips)
  then show ?case
    by (cases e) (auto simp: al_remove_def split: option.splits dest: map_of_SomeD intro: rev_image_eqI)
qed (simp add: al_remove_def)

lemma sum_trips_insert:
  fixes trips :: "(string \<times> rat \<times> int) list"
  assumes "bt_wf trips"
  shows "sum_list (map (\<lambda>(_, p, _). p) (bt_insert m (v, t) trips))
       = sum_list (map (\<lambda>(_, p, _). p) trips) - (case map_of trips m of Some (p, _) \<Rightarrow> p | None \<Rightarrow> 0) + v"
  using assms
proof (induction trips)
  case (Cons e trips)
  obtain k w where e: "e = (k, w)" by (cases e)
  have "map_of trips m = None" if "m < k"
    using Cons.prems that e by (force simp: bt_wf_Cons map_of_eq_None_iff)
  with Cons e show ?case by (auto simp: bt_wf_Cons split: option.splits prod.splits)
qed simp

lemma settle_trip_total:
  assumes "bt_wf (open_trips l)" and "al_get (open_trips l) m = None \<Longrightarrow> q = 0"
    and "\<And>p t. al_get (open_trips l) m = Some (p, t) \<Longrightarrow> q = p"
  shows "realised_total (settle_trip l m tm ls trip opened) = realised_total l - q + trip"
proof -
  have q: "(case al_get (open_trips l) m of Some (p, _) \<Rightarrow> p | None \<Rightarrow> 0) = q"
    using assms(2,3) by (auto split: option.splits)
  show ?thesis
    using sum_trips_insert [OF assms(1), of m trip opened] sum_trips_remove [OF bt_wf_distinct [OF assms(1)], of m]
    by (simp add: q settle_trip_def Let_def realised_total_def)
qed

lemma held_kept:
  assumes "\<forall>x \<in> set ls. tokens x = 0 \<longrightarrow> cost_usd x = 0"
  shows "held_tokens m (filter (\<lambda>x. tokens x \<noteq> 0) ls) = held_tokens m ls"
    and "held_cost m (filter (\<lambda>x. tokens x \<noteq> 0) ls) = held_cost m ls"
  using assms by (induction ls) (simp_all add: held_tokens_def held_cost_def mint_lots_def)

lemma settle_trip_lots: "lots (settle_trip l m tm ls trip opened) = filter (\<lambda>x. tokens x \<noteq> 0) ls"
  by (simp add: settle_trip_def Let_def)

lemma trip_so_far_grid:
  assumes "\<forall>(k, p, t) \<in> set (open_trips l). grid n p"
  shows "grid n (fst (trip_so_far l m oldest tm))"
proof (cases "al_get (open_trips l) m")
  case None
  have "grid n 0" unfolding grid_def by (rule exI [of _ 0]) simp
  with None show ?thesis by (simp add: trip_so_far_def)
next
  case (Some pt)
  then have "(m, pt) \<in> set (open_trips l)" by (rule map_of_SomeD)
  with Some assms show ?thesis by (cases pt) (auto simp: trip_so_far_def)
qed

text \<open>Every amount a sale of \<open>m\<close> touches has at most twelve decimals and is below \<open>2 ^ 92\<close> units.\<close>

definition sale_grid :: "ledger \<Rightarrow> string \<Rightarrow> rat \<Rightarrow> rat \<Rightarrow> rat \<Rightarrow> bool" where
  "sale_grid l m toks usd_out fees \<longleftrightarrow> lots_grid 92 m (lots l)
     \<and> grid 92 (held_tokens m (lots l)) \<and> grid 92 (held_cost m (lots l))
     \<and> grid 92 toks \<and> grid 92 usd_out \<and> grid 92 fees \<and> (\<forall>(k, p, t) \<in> set (open_trips l). grid 92 p)"

lemma net_exact:
  assumes laws: "decimal_laws D R" and g: "grid 92 u" "grid 92 f" "grid 92 c" "grid 92 p"
    and "Option.bind (checked_sub D u f) (\<lambda>v. checked_sub D v c) = Some net" and "checked_add D p net = Some trip"
  shows "net = u - f - c" and "trip = p + net"
proof -
  have uf: "grid 93 (u - f)" using grid_diff(1) [OF g(1,2)] by simp
  have c: "grid 93 c" by (rule grid_mono [OF g(3)]) simp
  have p: "grid 94 p" by (rule grid_mono [OF g(4)]) simp
  show net: "net = u - f - c"
    using assms(6) sub_exact(1) [OF laws g(1,2)] sub_exact(1) [OF laws uf c] by simp
  have "grid 94 net" unfolding net using grid_diff(1) [OF uf c] by simp
  then show "trip = p + net" using assms(7) sub_exact(2) [OF laws p] by simp
qed

lemma ledger_close_exact:
  assumes laws: "decimal_laws D R" and inv: "ledger_inv R l" and g: "sale_grid l m toks usd_out fees"
    and ok: "ledger_close D l m toks usd_out fees tm = Ok (net, l')"
  shows "held_tokens m (lots l') = held_tokens m (lots l) - toks"
    and "net = usd_out - fees - (held_cost m (lots l) - held_cost m (lots l'))"
    and "realised_total l' = realised_total l + net"
proof -
  obtain ls left cost oldest trip held where
    c: "0 < toks" "0 \<le> usd_out" "0 \<le> fees" "check_order l tm = Ok ()"
    "checked_sum D (map tokens (mint_lots m (lots l))) = Ok held" "toks \<le> held"
    "consume_lots D m (lots l) toks 0 None = Ok (ls, left, cost, oldest)"
    "Option.bind (checked_sub D usd_out fees) (\<lambda>v. checked_sub D v cost) = Some net"
    "checked_add D (fst (trip_so_far l m oldest tm)) net = Some trip"
    "l' = settle_trip l m tm ls trip (snd (trip_so_far l m oldest tm))"
    by (rule ledger_close_Ok [OF ok])
  have lt: "\<forall>x \<in> set (lots l). lot_ok R x \<and> 0 < tokens x" using ledger_invD(1) [OF inv] by blast
  have g0: "grid 92 0" unfolding grid_def by (rule exI [of _ 0]) simp
  have "held = held_tokens m (lots l)"
    using checked_sum_from_exact [OF laws, of 92 "map tokens (mint_lots m (lots l))" 0] c(5) g g0 lt
    by (force simp: sale_grid_def lots_grid_def checked_sum_def held_tokens_def mint_lots_def)
  moreover have e: "held_tokens m (lots l) - held_tokens m ls = toks - left"
    "held_cost m (lots l) - held_cost m ls = cost" "left = max 0 (toks - held_tokens m (lots l))" "grid 92 cost"
    "\<forall>x \<in> set ls. tokens x = 0 \<longrightarrow> cost_usd x = 0"
    using consume_lots_exact [OF laws _ lt _ _ _ g0 _ _ c(7)] g c(1) by (simp_all add: sale_grid_def)
  ultimately have "left = 0" using c(6) by simp
  moreover have kept: "held_tokens m (lots l') = held_tokens m ls" "held_cost m (lots l') = held_cost m ls"
    using held_kept [OF e(5)] by (simp_all add: c(10) settle_trip_lots)
  ultimately show "held_tokens m (lots l') = held_tokens m (lots l) - toks" using e(1) by simp
  have tg: "grid 92 (fst (trip_so_far l m oldest tm))" by (rule trip_so_far_grid) (use g in \<open>simp add: sale_grid_def\<close>)
  have n: "net = usd_out - fees - cost" "trip = fst (trip_so_far l m oldest tm) + net"
    using net_exact [OF laws _ _ e(4) tg c(8,9)] g by (simp_all add: sale_grid_def)
  with e(2) kept show "net = usd_out - fees - (held_cost m (lots l) - held_cost m (lots l'))" by simp
  show "realised_total l' = realised_total l + net"
    unfolding c(10) n(2)
    by (subst settle_trip_total [OF ledger_invD(2) [OF inv], where q = "fst (trip_so_far l m oldest tm)"])
       (auto simp: trip_so_far_def)
qed

section \<open>Valuation never panics\<close>

lemma group_lots_ok:
  assumes laws: "decimal_laws D R" and "\<forall>x \<in> set ls. lot_ok R x"
    and "bt_wf acc" and "\<forall>(m, t, c) \<in> set acc. R t \<and> 0 \<le> t \<and> R c \<and> 0 \<le> c"
  shows "group_lots D acc ls \<noteq> Panic
    \<and> (\<forall>gs. group_lots D acc ls = Ok gs \<longrightarrow> (\<forall>(m, t, c) \<in> set gs. R t \<and> 0 \<le> t \<and> R c \<and> 0 \<le> c))"
  using assms(2-)
proof (induction ls arbitrary: acc)
  case (Cons x ls)
  obtain t c where tc: "(case al_get acc (pos_mint x) of Some p \<Rightarrow> p | None \<Rightarrow> (0, 0)) = (t, c)" by fastforce
  have R: "R t" "0 \<le> t" "R c" "0 \<le> c"
    using tc Cons.prems(3) laws_zero [OF laws] by (auto split: option.splits dest!: map_of_SomeD)
  have x: "R (tokens x)" "0 \<le> tokens x" "R (cost_usd x)" "0 \<le> cost_usd x" using Cons.prems(1) by (simp_all add: lot_ok_def)
  show ?case
  proof (cases "checked_add D t (tokens x) = None \<or> checked_add D c (cost_usd x) = None")
    case True
    with tc show ?thesis by (cases "checked_add D t (tokens x)") auto
  next
    case False
    then obtain t' c' where a: "checked_add D t (tokens x) = Some t'" "checked_add D c (cost_usd x) = Some c'" by auto
    then have a': "R t'" "R c'" "t \<le> t'" "c \<le> c'"
      using add_repr [OF laws] add_nonneg [OF laws] R x by blast+
    have "group_lots D acc (x # ls) = group_lots D (bt_insert (pos_mint x) (t', c') acc) ls"
      by (simp add: tc a)
    moreover have "\<forall>(m, t, c) \<in> set (bt_insert (pos_mint x) (t', c') acc). R t \<and> 0 \<le> t \<and> R c \<and> 0 \<le> c"
      using Cons.prems(3) a' R by (auto simp: bt_insert_set [OF Cons.prems(2)])
    ultimately show ?thesis using Cons.IH [OF _ bt_insert_wf [OF Cons.prems(2)]] Cons.prems(1) by auto
  qed
qed simp

definition marks_repr :: "(rat \<Rightarrow> bool) \<Rightarrow> (string \<times> mark) list \<Rightarrow> bool" where
  "marks_repr R marks \<longleftrightarrow> (\<forall>(m, k) \<in> set marks. R (mark_price_usd k) \<and> R (mark_liquidity_usd k))"

lemma mark_value_ok:
  assumes laws: "decimal_laws D R" and "marks_repr R marks" and "R t"
  shows "\<exists>v. mark_value D marks costs m t = Ok v \<and> R v \<and> 0 \<le> v"
proof (cases "al_get marks m")
  case None
  then show ?thesis using laws_zero [OF laws] by (simp add: mark_value_def)
next
  case (Some k)
  then have "R (mark_price_usd k)" "R (mark_liquidity_usd k)"
    using assms(2) by (auto simp: marks_repr_def dest!: map_of_SomeD)
  from sell_value_ok [OF laws assms(3) this, of costs] Some show ?thesis
    using laws_zero [OF laws] by (auto simp: mark_value_def split: res.split)
qed

lemma value_groups_ok:
  assumes laws: "decimal_laws D R" and mk: "marks_repr R marks"
    and "\<forall>(m, t, c) \<in> set gs. R t \<and> 0 \<le> t \<and> R c \<and> 0 \<le> c"
  shows "\<exists>os. value_groups D marks costs gs = Ok os \<and> map fst os = map fst gs \<and> (\<forall>(m, u) \<in> set os. R u)"
  using assms(3)
proof (induction gs)
  case (Cons g gs)
  obtain m t c where g: "g = (m, t, c)" by (cases g)
  with Cons.prems have R: "R t" "R c" "0 \<le> c" by auto
  obtain v where v: "mark_value D marks costs m t = Ok v" "R v" "0 \<le> v" using mark_value_ok [OF laws mk R(1)] by blast
  obtain u where "checked_sub D v c = Some u" "R u" using sub_total [OF laws v(2) R(2) v(3) R(3)] by blast
  with g v Cons show ?case by (fastforce simp: op_sub_def)
qed simp

lemma open_by_mint_ok:
  assumes laws: "decimal_laws D R" and inv: "ledger_inv R l" and mk: "marks_repr R marks"
  shows "open_by_mint D l marks costs \<noteq> Panic"
    and "open_by_mint D l marks costs = Ok os \<Longrightarrow> \<forall>(m, u) \<in> set os. R u"
proof -
  have "group_lots D [] (lots l) \<noteq> Panic
    \<and> (\<forall>gs. group_lots D [] (lots l) = Ok gs \<longrightarrow> (\<forall>(m, t, c) \<in> set gs. R t \<and> 0 \<le> t \<and> R c \<and> 0 \<le> c))"
    using group_lots_ok [OF laws, of "lots l" "[]"] ledger_invD(1) [OF inv] by (auto simp: bt_wf_def)
  note g = conjunct1 [OF this] conjunct2 [OF this]
  have eq: "open_by_mint D l marks costs = value_groups D marks costs gs" if "group_lots D [] (lots l) = Ok gs" for gs
    using that by (simp add: open_by_mint_def)
  show "open_by_mint D l marks costs \<noteq> Panic"
  proof (cases "group_lots D [] (lots l)")
    case (Ok gs)
    with g(2) have "\<exists>os. value_groups D marks costs gs = Ok os \<and> map fst os = map fst gs \<and> (\<forall>(m, u) \<in> set os. R u)"
      by (intro value_groups_ok [OF laws mk]) simp
    then show ?thesis using eq [OF Ok] by auto
  qed (use g(1) in \<open>simp_all add: open_by_mint_def\<close>)
  show "\<forall>(m, u) \<in> set os. R u" if ok: "open_by_mint D l marks costs = Ok os"
  proof -
    from ok obtain gs where gs: "group_lots D [] (lots l) = Ok gs" by (auto simp: open_by_mint_def res_simps)
    with g(2) have "\<exists>os. value_groups D marks costs gs = Ok os \<and> map fst os = map fst gs \<and> (\<forall>(m, u) \<in> set os. R u)"
      by (intro value_groups_ok [OF laws mk]) simp
    then show ?thesis using eq [OF gs] ok by auto
  qed
qed

lemma sum_losses_ok:
  assumes laws: "decimal_laws D R" and "\<forall>(m, p, t) \<in> set trips. R p" and "\<forall>(m, u) \<in> set os. R u" and "R acc" and "acc \<le> 0"
  shows "sum_losses D trips acc os \<noteq> Panic \<and> (\<forall>x. sum_losses D trips acc os = Ok x \<longrightarrow> x \<le> acc)"
  using assms(3-)
proof (induction os arbitrary: acc)
  case (Cons o1 os)
  obtain m u where o1: "o1 = (m, u)" by (cases o1)
  define p where "p = (case al_get trips m of Some (p, _) \<Rightarrow> p | None \<Rightarrow> 0)"
  have R: "R p" "R u" using assms(2) Cons.prems(1) o1 laws_zero [OF laws]
    by (auto simp: p_def split: option.splits dest!: map_of_SomeD)
  show ?case
  proof (cases "checked_add D p u")
    case None
    with o1 show ?thesis by (simp add: p_def)
  next
    case (Some trip)
    have mr: "R (min trip 0)" using add_repr [OF laws R Some] laws_zero [OF laws] by (rule min_repr)
    show ?thesis
    proof (cases "checked_add D acc (min trip 0)")
      case None
      with o1 Some show ?thesis by (simp add: p_def)
    next
      case acc: (Some acc')
      have "acc' \<le> acc" using faithful_le [OF op_law_faithful [OF laws_add [OF laws Cons.prems(2) mr] acc] Cons.prems(2)] by simp
      moreover have "R acc'" by (rule add_repr [OF laws Cons.prems(2) mr acc])
      ultimately show ?thesis using Cons.IH [of acc'] Cons.prems o1 Some acc by (fastforce simp: p_def)
    qed
  qed
qed simp

lemma buy_sell_no_panic:
  assumes laws: "decimal_laws D R" and "R a" and "R p" and "R liq"
  shows "buy D a p liq costs roll \<noteq> Panic" and "sell D a p liq costs roll \<noteq> Panic"
proof -
  have at_ok: "attempt D costs roll f \<noteq> Panic" if "is_valid costs \<Longrightarrow> f \<noteq> Panic" for f
    using that by (auto simp: attempt_def res_simps split: if_splits)
  note rs = reserves_ok [OF laws assms(3,4)]
  have sw: "swap_out D a ri ro costs \<noteq> Panic"
    if "R ri" "R ro" "0 \<le> ri" "0 \<le> ro" "is_valid costs" for ri ro
    using swap_out_ok(1) [OF laws assms(2) that(1-4)] that(5) by (simp add: is_valid_def)
  show "buy D a p liq costs roll \<noteq> Panic" and "sell D a p liq costs roll \<noteq> Panic"
    using rs sw at_ok by (fastforce simp: buy_def sell_def res_simps)+
qed

lemma ledger_value_no_panic:
  assumes laws: "decimal_laws D R" and inv: "ledger_inv R l" and mk: "marks_repr R marks"
  shows "ledger_pnl D l marks costs \<noteq> Panic" and "open_losses D l marks costs \<noteq> Panic"
    and "open_losses D l marks costs = Ok x \<Longrightarrow> x \<le> 0"
proof -
  note os = open_by_mint_ok [OF laws inv mk, of costs]
  have c1: "checked_sum D (map net_pnl_usd (closed l)) \<noteq> Panic"
    by (rule checked_sum_ok(1) [OF laws]) (use ledger_invD(4) [OF inv] in auto)
  have c2: "checked_sum D (map (\<lambda>(_, p, _). p) (open_trips l)) \<noteq> Panic"
    by (rule checked_sum_ok(1) [OF laws]) (use ledger_invD(3) [OF inv] in auto)
  have nopanic: "checked_sum_from D acc vs \<noteq> Panic" for acc vs
    by (induction vs arbitrary: acc) (auto simp: res_simps)
  show "ledger_pnl D l marks costs \<noteq> Panic"
    using c1 c2 os(1) nopanic by (simp add: ledger_pnl_def res_simps checked_sum_def)
  have trips: "\<forall>(m, p, t) \<in> set (open_trips l). R p" using ledger_invD(3) [OF inv] by blast
  have sl: "sum_losses D (open_trips l) 0 os1 \<noteq> Panic \<and> (\<forall>x. sum_losses D (open_trips l) 0 os1 = Ok x \<longrightarrow> x \<le> 0)"
    if "open_by_mint D l marks costs = Ok os1" for os1
    by (rule sum_losses_ok [OF laws trips os(2) [OF that] laws_zero [OF laws]]) simp
  show "open_losses D l marks costs \<noteq> Panic"
    using os(1) sl by (auto simp: open_losses_def res_simps)
  show "open_losses D l marks costs = Ok x \<Longrightarrow> x \<le> 0"
    using sl by (auto simp: open_losses_def res_simps)
qed

section \<open>The ledger as a transition system\<close>

definition ledger_request :: "decimal \<Rightarrow> (rat \<Rightarrow> bool) \<Rightarrow> ledger \<Rightarrow> ledger_event \<Rightarrow> ledger" where
  "ledger_request D R l e = (if event_repr R e then ledger_step D l e else l)"

lemma ledger_default_inv: "decimal_laws D R \<Longrightarrow> ledger_inv R ledger_default"
  by (simp add: ledger_inv_def ledger_default_def bt_wf_def laws_zero)

lemma ledger_step_time:
  "last_event_at l = Some t \<Longrightarrow> \<exists>t'. last_event_at (ledger_step D l e) = Some t' \<and> t \<le> t'"
  by (cases e) (auto split: res.split
      simp: ledger_open_def ledger_close_def record_failed_tx_def record_ai_cost_def settle_trip_def
        check_order_def res_simps Let_def split: if_splits option.splits)

interpretation led: monotone_system "ledger_request D R" "\<lambda>l. decimal_laws D R \<longrightarrow> ledger_inv R l"
  "\<lambda>l. case last_event_at l of None \<Rightarrow> {} | Some t \<Rightarrow> {..t}" for D R
proof unfold_locales
  show "decimal_laws D R \<longrightarrow> ledger_inv R (ledger_request D R s e)"
    if "decimal_laws D R \<longrightarrow> ledger_inv R s" for s e
    using that by (auto simp: ledger_request_def intro: ledger_step_inv)
  show "(case last_event_at s of None \<Rightarrow> {} | Some t \<Rightarrow> {..t})
      \<le> (case last_event_at (ledger_request D R s e) of None \<Rightarrow> {} | Some t \<Rightarrow> {..t})" for s e
    using ledger_step_time [of s _ D e] by (fastforce simp: ledger_request_def split: option.splits)
qed

lemma ledger_run_requests:
  "\<forall>e \<in> set es. event_repr R e \<Longrightarrow> foldl (ledger_step D) l es = foldl (ledger_request D R) l es"
  by (induction es arbitrary: l) (simp_all add: ledger_request_def)

section \<open>Properties\<close>

definition demo_lot :: "rat \<Rightarrow> rat \<Rightarrow> int \<Rightarrow> position" where
  "demo_lot t c tm = \<lparr>pos_mint = ''MINT'', tokens = t, cost_usd = c, opened_at = tm,
     entry_liquidity_usd = 1000\<rparr>"

definition demo_ledger :: ledger where
  "demo_ledger = ledger_default\<lparr>lots := [demo_lot 100 50 1, demo_lot 100 70 2], last_event_at := Some 2\<rparr>"

definition demo_costs :: cost_model where
  "demo_costs = \<lparr>dex_fee_bps = 100, network_fee_usd = 1/100, priority_fee_usd = 1/100, failure_rate = 1/10\<rparr>"

lemmas demo_ledger_eval = demo_lot_def demo_ledger_def demo_costs_def ledger_default_def ledger_open_def
  ledger_close_def check_order_def checked_sum_def mint_lots_def lot_share_def trip_so_far_def settle_trip_def
  record_failed_tx_def record_ai_cost_def add_cost_def

lemma ledger_close_other:
  assumes laws: "decimal_laws D R" and inv: "ledger_inv R l" and "R toks"
    and ok: "ledger_close D l m toks usd_out fees tm = Ok (net, l')"
  shows "filter (\<lambda>x. pos_mint x \<noteq> m) (lots l') = filter (\<lambda>x. pos_mint x \<noteq> m) (lots l)"
proof -
  obtain ls left cost oldest trip where c: "0 < toks"
    "consume_lots D m (lots l) toks 0 None = Ok (ls, left, cost, oldest)"
    "l' = settle_trip l m tm ls trip (snd (trip_so_far l m oldest tm))"
    by (rule ledger_close_Ok [OF ok])
  have lt: "\<forall>x \<in> set (lots l). lot_ok R x \<and> 0 < tokens x" using ledger_invD(1) [OF inv] by blast
  have "consumed R m (lots l) None (ls, left, cost, oldest)"
    using consume_lots_ok [OF laws lt assms(3) _ laws_zero [OF laws]] c(1,2) by simp
  then have "filter (\<lambda>x. pos_mint x \<noteq> m) ls = filter (\<lambda>x. pos_mint x \<noteq> m) (lots l)" by (simp add: consumed_def)
  moreover have "filter (\<lambda>x. tokens x \<noteq> 0) (filter (\<lambda>x. pos_mint x \<noteq> m) (lots l)) = filter (\<lambda>x. pos_mint x \<noteq> m) (lots l)"
    using lt by (subst filter_id_conv) force
  ultimately show ?thesis
    by (simp add: c(3) settle_trip_lots conj_commute flip: filter_filter) (metis (no_types, lifting) filter_filter filter_cong)
qed

text \<open>
  C13. Whatever sequence of opens, closes, failed transactions and AI costs a ledger has seen,
  its lots hold a positive amount at a non-negative cost, partial round trips exist only for
  mints still held, completed trades are in time order, and the clock never goes back.
\<close>

theorem ledger_run_keeps_invariant:
  assumes "decimal_laws D R" and "\<forall>e \<in> set es. event_repr R e"
  shows "ledger_inv R (foldl (ledger_step D) ledger_default es)
    \<and> (\<forall>n t. last_event_at (foldl (ledger_step D) ledger_default (take n es)) = Some t \<longrightarrow>
         before t (last_event_at (foldl (ledger_step D) ledger_default es)))"
proof (intro conjI allI impI)
  let ?run = "foldl (ledger_request D R)"
  have eq: "foldl (ledger_step D) ledger_default (take n es) = ?run ledger_default (take n es)"
    "foldl (ledger_step D) ledger_default es = ?run ledger_default es" for n
    using assms(2) by (auto intro!: ledger_run_requests dest: in_set_takeD)
  have start: "decimal_laws D R \<longrightarrow> ledger_inv R ledger_default" using ledger_default_inv by blast
  show "ledger_inv R (foldl (ledger_step D) ledger_default es)"
    unfolding eq using led.run_inv [OF start] assms(1) by blast
  fix n t
  assume t: "last_event_at (foldl (ledger_step D) ledger_default (take n es)) = Some t"
  have split: "?run ledger_default es = ?run (?run ledger_default (take n es)) (drop n es)"
    by (simp flip: foldl_append)
  show "before t (last_event_at (foldl (ledger_step D) ledger_default es))"
    using led.run_mono [OF led.run_inv [OF start, of "take n es"], of "drop n es"] t
    unfolding eq split by (auto simp: before_def split: option.splits)
qed

theorem ledger_run_keeps_invariant_witness:
  "ledger_inv dec96_repr (foldl (ledger_step dec96) ledger_default
     [OpenLot (demo_lot 100 50 1), CloseLot ''MINT'' 40 30 1 3, FailedTx (1/100)])"
proof -
  have "\<forall>e \<in> set [OpenLot (demo_lot 100 50 1), CloseLot ''MINT'' 40 30 1 3, FailedTx (1/100)]. event_repr dec96_repr e"
    by (simp add: demo_lot_def dec96_repr_def dec_max_def)
  from ledger_run_keeps_invariant [OF dec96_laws this] show ?thesis by blast
qed

text \<open>
  A sale accounts exactly: of the sold mint it removes just the tokens sold, its net
  profit is the proceeds less fees less the cost basis it removed, that profit is booked once
  (in the open round trip or the completed trade), and lots of other mints are untouched.
  Amounts have at most twelve decimals, the precision the ledger rounds shares to.
\<close>

theorem close_accounts_exactly:
  assumes "decimal_laws D R" and "ledger_inv R l" and "sale_grid l m toks usd_out fees"
    and "ledger_close D l m toks usd_out fees tm = Ok (net, l')"
  shows "held_tokens m (lots l') = held_tokens m (lots l) - toks
    \<and> net = usd_out - fees - (held_cost m (lots l) - held_cost m (lots l'))
    \<and> realised_total l' = realised_total l + net
    \<and> filter (\<lambda>x. pos_mint x \<noteq> m) (lots l') = filter (\<lambda>x. pos_mint x \<noteq> m) (lots l)"
proof (intro conjI)
  show "filter (\<lambda>x. pos_mint x \<noteq> m) (lots l') = filter (\<lambda>x. pos_mint x \<noteq> m) (lots l)"
    by (rule ledger_close_other [OF assms(1,2) _ assms(4)]) (use assms(3) grid_repr(1) [OF assms(1)] in \<open>auto simp: sale_grid_def\<close>)
qed (rule ledger_close_exact [OF assms])+

lemma grid_int: "\<bar>k\<bar> * 10 ^ 12 < 2 ^ n \<Longrightarrow> grid n (of_int k)"
  unfolding grid_def by (rule exI [of _ "k * 10 ^ 12"]) (simp add: abs_mult)

lemma demo_close: "ledger_close dec96 demo_ledger ''MINT'' 150 120 1 3 =
  Ok (34, demo_ledger\<lparr>lots := [demo_lot 50 35 2], open_trips := [(''MINT'', 34, 1)], last_event_at := Some 3\<rparr>)"
  by (simp add: demo_ledger_eval eval_simps)


lemma demo_ledger_inv: "ledger_inv dec96_repr demo_ledger"
  by (simp add: demo_ledger_eval ledger_inv_def lot_ok_def before_def bt_wf_def dec96_repr_def dec_max_def)

lemma demo_sale_grid: "sale_grid demo_ledger ''MINT'' 150 120 1"
  using grid_int [of 100 92] grid_int [of 50 92] grid_int [of 70 92] grid_int [of 200 92] grid_int [of 120 92]
    grid_int [of 150 92] grid_int [of 1 92]
  by (simp add: sale_grid_def lots_grid_def held_tokens_def held_cost_def demo_ledger_eval)

theorem close_accounts_exactly_witness:
  "ledger_close dec96 demo_ledger ''MINT'' 150 120 1 3 =
     Ok (34, demo_ledger\<lparr>lots := [demo_lot 50 35 2], open_trips := [(''MINT'', 34, 1)], last_event_at := Some 3\<rparr>)
   \<and> held_tokens ''MINT'' (lots demo_ledger) - 150 = 50"
  using close_accounts_exactly [OF dec96_laws demo_ledger_inv demo_sale_grid demo_close] demo_close
  by (simp add: held_tokens_def mint_lots_def demo_lot_def)

text \<open>
  Money arithmetic never panics: on any ledger the operations can reach, and for any
  representable amounts and marks, buying, selling, closing, valuing and reporting return a
  result or an error. Open losses are never counted as a gain.
\<close>

theorem ledger_never_panics:
  assumes "decimal_laws D R" and "ledger_inv R l" and "marks_repr R marks" and "R a" and "R p" and "R liq"
  shows "buy D a p liq costs roll \<noteq> Panic \<and> sell D a p liq costs roll \<noteq> Panic
    \<and> ledger_close D l m a usd_out fees tm \<noteq> Panic
    \<and> ledger_pnl D l marks costs \<noteq> Panic
    \<and> open_losses D l marks costs \<notin> insert Panic (Ok ` {x. 0 < x})"
  using buy_sell_no_panic [OF assms(1,4-6)] ledger_close_no_panic [OF assms(1,2,4)]
    ledger_value_no_panic [OF assms(1-3), of costs]
  by (auto dest: leD)

theorem ledger_never_panics_witness:
  "buy dec96 100 2 10000 demo_costs (1/2) \<noteq> Panic
   \<and> open_losses dec96 demo_ledger [(''MINT'', \<lparr>mark_price_usd = 1/4, mark_liquidity_usd = 1000\<rparr>)] demo_costs \<noteq> Panic"
proof -
  have m: "marks_repr dec96_repr [(''MINT'', \<lparr>mark_price_usd = 1/4, mark_liquidity_usd = 1000\<rparr>)]"
    by (simp add: marks_repr_def dec96_repr_def dec_max_def)
  have r: "dec96_repr 100" "dec96_repr 2" "dec96_repr 10000" by (simp_all add: dec96_repr_def dec_max_def)
  from ledger_never_panics [OF dec96_laws demo_ledger_inv m r] show ?thesis by blast
qed

end
