(* ===== verification/Strategy.thy ===== *)
theory Strategy
  imports Paper
begin

text \<open>
  \<^verbatim>\<open>src/crates/onchain/src/strategy.rs\<close>, \<^verbatim>\<open>research.rs\<close> and \<^verbatim>\<open>goals.rs\<close>: bounded strategy
  parameters, entry and exit intents, the one-directional research adjustment and the progress
  toward the owner's goal. \<open>u32\<close> fields are \<open>nat\<close> and \<open>i32\<close> fields \<open>int\<close>; the products the code
  forms in \<open>u64\<close> stay below \<open>2 ^ 47\<close>. Times and durations are integers in nanoseconds; the end
  of the rng of the date type (year 9999) is not modelled.
\<close>

section \<open>Parameters and their bounds\<close>

record strategy_params =
  version :: nat
  min_buy_ratio_bps :: nat
  min_momentum_bps :: int
  max_momentum_bps :: int
  position_share_bps :: nat
  max_liquidity_share_bps :: nat
  take_profit_bps :: nat
  stop_loss_bps :: nat
  liquidity_drop_exit_bps :: nat
  max_hold :: int
  entry_slippage_bps :: nat
  exit_slippage_bps :: nat
  intent_ttl :: int

definition nanos :: int where "nanos = 1000000000"

definition BUY_RATIO_BPS :: "nat \<times> nat" where "BUY_RATIO_BPS = (5000, 10000)"
definition MOMENTUM_BPS :: "int \<times> int" where "MOMENTUM_BPS = (- 5000, 50000)"
definition POSITION_SHARE_BPS :: "nat \<times> nat" where "POSITION_SHARE_BPS = (1, 10000)"
definition LIQUIDITY_SHARE_BPS :: "nat \<times> nat" where "LIQUIDITY_SHARE_BPS = (1, 200)"
definition TAKE_PROFIT_BPS :: "nat \<times> nat" where "TAKE_PROFIT_BPS = (100, 100000)"
definition STOP_LOSS_BPS :: "nat \<times> nat" where "STOP_LOSS_BPS = (100, 9000)"
definition LIQUIDITY_DROP_BPS :: "nat \<times> nat" where "LIQUIDITY_DROP_BPS = (100, 9000)"
definition MAX_HOLD :: "int \<times> int" where "MAX_HOLD = (60 * nanos, 7 * 86400 * nanos)"
definition ENTRY_SLIPPAGE_BPS :: "nat \<times> nat" where "ENTRY_SLIPPAGE_BPS = (1, 1000)"
definition EXIT_SLIPPAGE_BPS :: "nat \<times> nat" where "EXIT_SLIPPAGE_BPS = (1, 5000)"
definition INTENT_TTL :: "int \<times> int" where "INTENT_TTL = (nanos, 120 * nanos)"

lemmas bounds_defs = BUY_RATIO_BPS_def MOMENTUM_BPS_def POSITION_SHARE_BPS_def LIQUIDITY_SHARE_BPS_def
  TAKE_PROFIT_BPS_def STOP_LOSS_BPS_def LIQUIDITY_DROP_BPS_def MAX_HOLD_def ENTRY_SLIPPAGE_BPS_def
  EXIT_SLIPPAGE_BPS_def INTENT_TTL_def nanos_def

datatype out_of_bounds = OutOfBounds string

definition within_bounds :: "string \<Rightarrow> 'a::ord \<Rightarrow> 'a \<times> 'a \<Rightarrow> (out_of_bounds, unit) res" where
  "within_bounds field value rng =
     (if fst rng \<le> value \<and> value \<le> snd rng then Ok () else Err (OutOfBounds field))"

definition validate :: "strategy_params \<Rightarrow> (out_of_bounds, unit) res" where
  "validate p =
     bind_res (within_bounds ''version'' (version p) (1, u32_max)) (\<lambda>_.
     bind_res (within_bounds ''min_buy_ratio_bps'' (min_buy_ratio_bps p) BUY_RATIO_BPS) (\<lambda>_.
     bind_res (within_bounds ''min_momentum_bps'' (min_momentum_bps p) MOMENTUM_BPS) (\<lambda>_.
     bind_res (within_bounds ''max_momentum_bps'' (max_momentum_bps p) (min_momentum_bps p, snd MOMENTUM_BPS)) (\<lambda>_.
     bind_res (within_bounds ''position_share_bps'' (position_share_bps p) POSITION_SHARE_BPS) (\<lambda>_.
     bind_res (within_bounds ''max_liquidity_share_bps'' (max_liquidity_share_bps p) LIQUIDITY_SHARE_BPS) (\<lambda>_.
     bind_res (within_bounds ''take_profit_bps'' (take_profit_bps p) TAKE_PROFIT_BPS) (\<lambda>_.
     bind_res (within_bounds ''stop_loss_bps'' (stop_loss_bps p) STOP_LOSS_BPS) (\<lambda>_.
     bind_res (within_bounds ''liquidity_drop_exit_bps'' (liquidity_drop_exit_bps p) LIQUIDITY_DROP_BPS) (\<lambda>_.
     bind_res (within_bounds ''max_hold'' (max_hold p) MAX_HOLD) (\<lambda>_.
     bind_res (within_bounds ''entry_slippage_bps'' (entry_slippage_bps p) ENTRY_SLIPPAGE_BPS) (\<lambda>_.
     bind_res (within_bounds ''exit_slippage_bps'' (exit_slippage_bps p) EXIT_SLIPPAGE_BPS) (\<lambda>_.
     within_bounds ''intent_ttl'' (intent_ttl p) INTENT_TTL))))))))))))"

section \<open>Intents\<close>

datatype exit_reason = LiquidityDrop | StopLoss | TakeProfit | TimeStop

datatype intent_kind = Entry | Exit exit_reason

record trade_intent =
  strategy_version :: nat
  ti_mint :: string
  ti_kind :: intent_kind
  amount_in :: rat
  max_slippage_bps :: nat
  created_at :: int
  expires_at :: int

definition entry_signal :: "token_snapshot \<Rightarrow> strategy_params \<Rightarrow> bool" where
  "entry_signal s params \<longleftrightarrow>
     (let trades = buys_5m s + sells_5m s in
      (0 < trades \<and> min_buy_ratio_bps params * trades \<le> buys_5m s * 10000)
      \<and> (min_momentum_bps params \<le> price_change_5m_bps s \<and> price_change_5m_bps s \<le> max_momentum_bps params))"

definition entry_size :: "decimal \<Rightarrow> token_snapshot \<Rightarrow> strategy_params \<Rightarrow> rat \<Rightarrow> rat opt" where
  "entry_size D s params max_position_usd =
     bind_res (ok_or () (checked_mul D max_position_usd (of_nat (position_share_bps params)))) (\<lambda>a.
     bind_res (op_div D a bps) (\<lambda>by_mandate.
     bind_res (ok_or () (checked_mul D (liquidity_usd s) (of_nat (max_liquidity_share_bps params)))) (\<lambda>b.
     bind_res (op_div D b bps) (\<lambda>by_liquidity.
     Ok (trunc_dp D 2 (min by_mandate by_liquidity))))))"

definition evaluate_entry :: "decimal \<Rightarrow> token_snapshot \<Rightarrow> strategy_params \<Rightarrow> filter_rules \<Rightarrow>
    string list \<Rightarrow> rat \<Rightarrow> int \<Rightarrow> trade_intent opt" where
  "evaluate_entry D s params rules deny_list max_position_usd now =
     bind_res (ok_or () (res_ok (validate params))) (\<lambda>_.
     if check s rules deny_list now \<noteq> Accept then Err ()
     else if \<not> entry_signal s params then Err ()
     else bind_res (entry_size D s params max_position_usd) (\<lambda>sz.
       if sz \<le> 0 then Err ()
       else Ok \<lparr>strategy_version = version params, ti_mint = mint s, ti_kind = Entry,
                amount_in = sz, max_slippage_bps = entry_slippage_bps params,
                created_at = now, expires_at = now + intent_ttl params\<rparr>))"

definition keep_share :: "decimal \<Rightarrow> nat \<Rightarrow> rat opt" where
  "keep_share D b = op_sub D bps (of_nat (min b 10000))"

definition market_exit ::
  "decimal \<Rightarrow> position \<Rightarrow> token_snapshot \<Rightarrow> strategy_params \<Rightarrow> cost_model \<Rightarrow> exit_reason opt" where
  "market_exit D pos s params costs =
     bind_res (keep_share D (liquidity_drop_exit_bps params)) (\<lambda>k.
     bind_res (ok_or () (checked_mul D (entry_liquidity_usd pos) k)) (\<lambda>flr.
     bind_res (ok_or () (checked_mul D (liquidity_usd s) bps)) (\<lambda>liq.
     if liq \<le> flr then Ok LiquidityDrop
     else if price_usd s \<le> 0 \<or> \<not> is_valid costs then Ok StopLoss
     else bind_res (sell_value D (tokens pos) (price_usd s) (liquidity_usd s) costs) (\<lambda>v.
          bind_res (ok_or () (checked_mul D v bps)) (\<lambda>value.
          bind_res (keep_share D (stop_loss_bps params)) (\<lambda>k'.
          bind_res (ok_or () (checked_mul D (cost_usd pos) k')) (\<lambda>stop.
          if value \<le> stop then Ok StopLoss
          else bind_res (op_add D bps (of_nat (take_profit_bps params))) (\<lambda>g.
               bind_res (ok_or () (checked_mul D (cost_usd pos) g)) (\<lambda>target.
               if value \<ge> target then Ok TakeProfit else Err ()))))))))) "

definition exit_cause :: "decimal \<Rightarrow> position \<Rightarrow> token_snapshot \<Rightarrow> strategy_params \<Rightarrow>
    cost_model \<Rightarrow> int \<Rightarrow> int \<Rightarrow> exit_reason opt" where
  "exit_cause D pos s params costs max_age now =
     (let usable = (mint s = pos_mint pos \<and> observed_at s \<le> now \<and> now - observed_at s \<le> max_age) in
      case (if usable then market_exit D pos s params costs else Err ()) of
        Ok r \<Rightarrow> Ok r
      | Err _ \<Rightarrow> (if now - opened_at pos \<ge> max_hold params then Ok TimeStop else Err ())
      | Panic \<Rightarrow> Panic)"

definition clamp :: "'a::ord \<Rightarrow> 'a \<times> 'a \<Rightarrow> 'a" where
  "clamp x rng = (if x < fst rng then fst rng else if x > snd rng then snd rng else x)"

definition evaluate_exit :: "decimal \<Rightarrow> position \<Rightarrow> token_snapshot \<Rightarrow> strategy_params \<Rightarrow>
    cost_model \<Rightarrow> int \<Rightarrow> int \<Rightarrow> trade_intent opt" where
  "evaluate_exit D pos s params costs max_age now =
     bind_res (exit_cause D pos s params costs max_age now) (\<lambda>reason.
     Ok \<lparr>strategy_version = version params, ti_mint = pos_mint pos, ti_kind = Exit reason,
         amount_in = tokens pos, max_slippage_bps = clamp (exit_slippage_bps params) EXIT_SLIPPAGE_BPS,
         created_at = now, expires_at = now + clamp (intent_ttl params) INTENT_TTL\<rparr>)"

section \<open>The research adjustment\<close>

datatype research_adjustment = Keep | Reduce nat | Veto

definition apply_research :: "decimal \<Rightarrow> rat \<Rightarrow> research_adjustment \<Rightarrow> rat opt" where
  "apply_research D sz adjustment =
     (if sz \<le> 0 then Ok 0
      else bind_res (case adjustment of
          Keep \<Rightarrow> Ok sz
        | Veto \<Rightarrow> Ok 0
        | Reduce keep_bps \<Rightarrow> op_mul D sz (of_nat (min keep_bps 10000) / 10 ^ 4))
        (\<lambda>reduced. Ok (min reduced sz)))"

section \<open>Progress toward the goal\<close>

record progress =
  multiple :: rat
  fraction_to_goal :: rat
  remaining_usd :: rat
  reached :: bool

definition goal_progress :: "decimal \<Rightarrow> rat \<Rightarrow> rat \<Rightarrow> rat \<Rightarrow> rat \<Rightarrow> progress opt" where
  "goal_progress D stake wallet swept goal =
     (if stake \<le> 0 \<or> wallet < 0 \<or> swept < 0 \<or> goal \<le> 1 then Err ()
      else bind_res (ok_or () (checked_add D wallet swept)) (\<lambda>tot.
           bind_res (ok_or () (checked_div D tot stake)) (\<lambda>mult.
           bind_res (ok_or () (checked_mul D stake goal)) (\<lambda>target.
           bind_res (op_sub D mult 1) (\<lambda>m1.
           bind_res (op_sub D goal 1) (\<lambda>g1.
           bind_res (ok_or () (checked_div D m1 g1)) (\<lambda>frac.
           bind_res (op_sub D target tot) (\<lambda>missing.
           Ok \<lparr>multiple = mult, fraction_to_goal = clamp frac (0, 1),
               remaining_usd = max missing 0, reached = (tot \<ge> target)\<rparr>))))))))"

datatype goal_action = KeepRunning | Stop

definition goal_action_for :: "decimal \<Rightarrow> rat \<Rightarrow> rat \<Rightarrow> rat \<Rightarrow> rat \<Rightarrow> goal_action \<Rightarrow> goal_action opt" where
  "goal_action_for D stake wallet swept goal at_goal =
     bind_res (goal_progress D stake wallet swept goal) (\<lambda>p.
     Ok (if reached p then at_goal else KeepRunning))"

section \<open>Lemmas\<close>

lemma within_bounds_Ok [res_simps]: "within_bounds f x r = Ok u \<longleftrightarrow> fst r \<le> x \<and> x \<le> snd r"
  by (simp add: within_bounds_def)

lemma validate_iff:
  "validate p = Ok () \<longleftrightarrow>
     1 \<le> version p \<and> version p \<le> u32_max
   \<and> min_buy_ratio_bps p \<in> {5000..10000}
   \<and> - 5000 \<le> min_momentum_bps p \<and> min_momentum_bps p \<le> max_momentum_bps p \<and> max_momentum_bps p \<le> 50000
   \<and> position_share_bps p \<in> {1..10000} \<and> max_liquidity_share_bps p \<in> {1..200}
   \<and> take_profit_bps p \<in> {100..100000} \<and> stop_loss_bps p \<in> {100..9000}
   \<and> liquidity_drop_exit_bps p \<in> {100..9000} \<and> max_hold p \<in> {60 * nanos..7 * 86400 * nanos}
   \<and> entry_slippage_bps p \<in> {1..1000} \<and> exit_slippage_bps p \<in> {1..5000}
   \<and> intent_ttl p \<in> {nanos..120 * nanos}"
  unfolding validate_def
  by (simp only: bind_res_Ok_iff within_bounds_Ok bounds_defs fst_conv snd_conv atLeastAtMost_iff ex_simps) auto

lemma div_bps_ok:
  assumes laws: "decimal_laws D R" and "R m"
  shows "\<exists>y. checked_div D m bps = Some y \<and> R y"
proof -
  have "\<bar>m / bps\<bar> \<le> m \<or> \<bar>m / bps\<bar> \<le> - m" by (auto simp: bps_def abs_if)
  then have "\<exists>y. checked_div D m bps = Some y"
    using op_law_total [OF laws_div [OF laws assms(2) bps_repr [OF laws]]] assms(2) laws_neg [OF laws assms(2)]
    by (auto simp: bps_def)
  then show ?thesis using div_repr [OF laws assms(2) bps_repr [OF laws]] by blast
qed

text \<open>A share of at most 10000 basis points, computed with both roundings, stays within its base.\<close>

lemma share_within:
  assumes laws: "decimal_laws D R" and "R x" and "k \<le> 10000"
    and a: "checked_mul D x (of_nat k) = Some a" and q: "checked_div D a bps = Some q" and "0 < q"
  shows "q \<le> x" and "0 < x"
proof -
  have k: "R (of_nat k)" using laws_nat [OF laws] assms(3) by simp
  have Ra: "R a" by (rule mul_repr [OF laws assms(2) k a])
  note fa = op_law_faithful [OF laws_mul [OF laws assms(2) k] a]
  have bz: "bps \<noteq> 0" by (simp add: bps_def)
  note fq = op_law_faithful [OF laws_div [OF laws Ra bps_repr [OF laws] bz] q]
  show x0: "0 < x"
  proof (rule ccontr)
    assume "\<not> 0 < x"
    then have "x * of_nat k \<le> 0" by (simp add: mult_nonpos_nonneg)
    then have "a \<le> 0" by (rule faithful_le [OF fa laws_zero [OF laws]])
    then have "a / bps \<le> 0" by (simp add: bps_def)
    then have "q \<le> 0" by (rule faithful_le [OF fq laws_zero [OF laws]])
    with assms(6) show False by simp
  qed
  have le: "x * of_nat k \<le> x * 10 ^ 4" using x0 assms(3) by (intro mult_left_mono) simp_all
  have "a \<le> x * 10 ^ 4"
  proof (cases "a \<le> x * 10 ^ 4")
    case False
    then have "R (x * 10 ^ 4)" using laws_shift [OF laws assms(2) Ra, of 4] x0 by simp
    then show ?thesis by (rule faithful_le [OF fa _ le])
  qed
  then have "a / bps \<le> x" by (simp add: bps_def)
  then show "q \<le> x" by (rule faithful_le [OF fq assms(2)])
qed

text \<open>On amounts with at most twelve decimals the share is exact.\<close>

lemma share_exact:
  assumes laws: "decimal_laws D R" and "grid 80 x" and "k \<le> 10000"
    and a: "checked_mul D x (of_nat k) = Some a" and q: "checked_div D a bps = Some q"
  shows "q = x * of_nat k / bps"
proof -
  from assms(2) obtain j :: int where j: "x = of_int j / 10 ^ 12" "\<bar>j\<bar> < 2 ^ 80" by (auto simp: grid_def)
  have k: "R (of_nat k)" using laws_nat [OF laws] assms(3) by simp
  have x: "R x" using grid_repr(1) [OF laws assms(2)] by simp
  have "\<bar>j * int k\<bar> \<le> \<bar>j\<bar> * 10000" using assms(3) by (simp add: abs_mult mult_left_mono)
  then have b: "\<bar>j * int k\<bar> < 2 ^ 96" using j(2) by simp
  have xk: "x * of_nat k = of_int (j * int k) / 10 ^ 12" by (simp add: j)
  have "R (x * of_nat k)" unfolding xk by (rule laws_grid [OF laws _ b]) simp
  then have a': "a = x * of_nat k"
    using op_law_exact [OF laws_mul [OF laws x k]] laws_neg [OF laws] a by simp
  have bz: "bps \<noteq> 0" by (simp add: bps_def)
  have "a / bps = of_int (j * int k) / 10 ^ 16" unfolding a' xk by (simp add: bps_def)
  moreover have "R (of_int (j * int k) / 10 ^ 16)" by (rule laws_grid [OF laws _ b]) simp
  ultimately have "R (a / bps)" by (simp only:)
  then have "q = a / bps"
    using op_law_exact [OF laws_div [OF laws mul_repr [OF laws x k a] bps_repr [OF laws] bz]] laws_neg [OF laws] q by simp
  then show ?thesis by (simp add: a')
qed

lemma entry_size_Ok:
  assumes laws: "decimal_laws D R" and "R mx" and "R (liquidity_usd s)" and v: "validate p = Ok ()"
    and ok: "entry_size D s p mx = Ok sz" and pos: "0 < sz"
  shows "sz \<le> mx" and "sz \<le> liquidity_usd s" and "0 < liquidity_usd s" and "R sz"
    and "grid 80 mx \<Longrightarrow> sz \<le> mx * of_nat (position_share_bps p) / bps"
    and "grid 80 (liquidity_usd s) \<Longrightarrow> sz \<le> liquidity_usd s * of_nat (max_liquidity_share_bps p) / bps"
proof -
  from v have k: "position_share_bps p \<le> 10000" "max_liquidity_share_bps p \<le> 10000" by (auto simp: validate_iff)
  from ok obtain a q b r where
    a: "checked_mul D mx (of_nat (position_share_bps p)) = Some a" and q: "checked_div D a bps = Some q"
    and b: "checked_mul D (liquidity_usd s) (of_nat (max_liquidity_share_bps p)) = Some b"
    and r: "checked_div D b bps = Some r" and sz: "sz = trunc_dp D 2 (min q r)"
    by (auto simp: entry_size_def op_div_def res_simps)
  have kR: "R (of_nat (position_share_bps p))" "R (of_nat (max_liquidity_share_bps p))"
    using laws_nat [OF laws] k by simp_all
  have R: "R q" "R r"
    using div_repr [OF laws mul_repr [OF laws assms(2) kR(1) a] bps_repr [OF laws] q]
      div_repr [OF laws mul_repr [OF laws assms(3) kR(2) b] bps_repr [OF laws] r] .
  then have m: "R (min q r)" by (rule min_repr)
  have "0 < min q r"
  proof (rule ccontr)
    assume "\<not> 0 < min q r"
    with laws_trunc(3) [OF laws m, of 2] pos sz have "min q r = 0" by (auto simp: zero_le_mult_iff)
    with laws_trunc(2) [OF laws m, of 2] pos sz show False by simp
  qed
  with laws_trunc_nonneg(2) [OF laws m, of 2] sz have lt: "sz \<le> q" "sz \<le> r" "0 < q" "0 < r" by auto
  note w1 = share_within [OF laws assms(2) k(1) a q lt(3)]
  note w2 = share_within [OF laws assms(3) k(2) b r lt(4)]
  show "sz \<le> mx" "sz \<le> liquidity_usd s" "0 < liquidity_usd s" using w1 w2 lt by simp_all
  show "R sz" unfolding sz by (rule laws_trunc(1) [OF laws m])
  show "grid 80 mx \<Longrightarrow> sz \<le> mx * of_nat (position_share_bps p) / bps"
    using share_exact [OF laws _ k(1) a q] lt by simp
  show "grid 80 (liquidity_usd s) \<Longrightarrow> sz \<le> liquidity_usd s * of_nat (max_liquidity_share_bps p) / bps"
    using share_exact [OF laws _ k(2) b r] lt by simp
qed

lemma entry_size_no_panic:
  assumes laws: "decimal_laws D R" and "R mx" and "R (liquidity_usd s)" and v: "validate p = Ok ()"
  shows "entry_size D s p mx \<noteq> Panic"
proof -
  from v have k: "position_share_bps p \<le> 10000" "max_liquidity_share_bps p \<le> 10000" by (auto simp: validate_iff)
  then have kR: "R (of_nat (position_share_bps p))" "R (of_nat (max_liquidity_share_bps p))"
    using laws_nat [OF laws] by simp_all
  have "checked_div D a bps \<noteq> None" if "checked_mul D x (of_nat k) = Some a" "R x" "R (of_nat k)" for x a k
    using div_bps_ok [OF laws mul_repr [OF laws that(2,3,1)]] by auto
  with kR assms(2,3) show ?thesis
    by (auto simp: entry_size_def op_div_def res_simps)
qed

lemma keep_share_ok:
  assumes laws: "decimal_laws D R"
  shows "\<exists>k. keep_share D b = Ok k \<and> R k"
proof -
  have m: "R (of_nat (min b 10000))" "of_nat (min b 10000) \<le> bps"
    using laws_nat [OF laws] by (simp_all add: bps_def)
  then obtain k where "checked_sub D bps (of_nat (min b 10000)) = Some k" "R k"
    using sub_within [OF laws bps_repr [OF laws] m(1) _ m(2)] by auto
  then show ?thesis by (simp add: keep_share_def op_sub_def)
qed

text \<open>The decimals the exit rules read are representable.\<close>

definition exit_repr :: "(rat \<Rightarrow> bool) \<Rightarrow> position \<Rightarrow> token_snapshot \<Rightarrow> bool" where
  "exit_repr R pos s \<longleftrightarrow> R (tokens pos) \<and> R (cost_usd pos) \<and> R (price_usd s) \<and> R (liquidity_usd s)"

lemma market_exit_no_panic:
  assumes laws: "decimal_laws D R" and "exit_repr R pos s" and tp: "take_profit_bps p \<le> u32_max"
  shows "market_exit D pos s p costs \<noteq> Panic"
proof -
  have r: "R (tokens pos)" "R (price_usd s)" "R (liquidity_usd s)" using assms(2) by (simp_all add: exit_repr_def)
  obtain k where k: "keep_share D (liquidity_drop_exit_bps p) = Ok k" using keep_share_ok [OF laws] by blast
  obtain k' where k': "keep_share D (stop_loss_bps p) = Ok k'" using keep_share_ok [OF laws] by blast
  have "R (of_int (10000 + int (take_profit_bps p)))" 
    by (rule laws_int [OF laws]) (use tp in \<open>simp add: u32_max_def\<close>)
  then have g: "R (bps + of_nat (take_profit_bps p))" by (simp add: bps_def)
  have "R (of_nat (take_profit_bps p))" by (rule laws_nat [OF laws]) (use tp in \<open>simp add: u32_max_def\<close>)
  then have "checked_add D bps (of_nat (take_profit_bps p)) = Some (bps + of_nat (take_profit_bps p))"
    using op_law_exact [OF laws_add [OF laws bps_repr [OF laws]]] g laws_neg [OF laws g] by blast
  with k k' sell_value_ok(1) [OF laws r] show ?thesis
    by (simp add: market_exit_def op_add_def res_simps)
qed

lemma exit_cause_overdue:
  assumes "exit_cause D pos s p costs age now \<noteq> Panic" and "max_hold p \<le> now - opened_at pos"
  shows "\<exists>r. exit_cause D pos s p costs age now = Ok r"
  using assms by (auto simp: exit_cause_def Let_def split: res.splits if_splits)

lemma exit_cause_no_panic:
  assumes "decimal_laws D R" and "exit_repr R pos s" and "take_profit_bps p \<le> u32_max"
  shows "exit_cause D pos s p costs age now \<noteq> Panic"
  using market_exit_no_panic [OF assms, of costs] by (auto simp: exit_cause_def Let_def split: res.splits if_splits)

lemma clamp_bounds: "lo \<le> hi \<Longrightarrow> lo \<le> clamp x (lo, hi) \<and> clamp x (lo, hi) \<le> (hi :: 'a::linorder)"
  by (auto simp: clamp_def)

lemma apply_research_ok:
  assumes laws: "decimal_laws D R" and "R sz"
  shows "\<exists>x. apply_research D sz adj = Ok x \<and> R x \<and> 0 \<le> x \<and> x \<le> max sz 0"
proof (cases "0 < sz")
  case False
  then show ?thesis using laws_zero [OF laws] by (simp add: apply_research_def)
next
  case pos: True
  show ?thesis
  proof (cases adj)
    case (Reduce b)
    let ?k = "of_nat (min b 10000) / 10 ^ 4 :: rat"
    have "R (of_int (int (min b 10000)) / 10 ^ 4)" by (rule laws_grid [OF laws]) auto
    then have k: "R ?k" by (simp only: of_int_of_nat_eq)
    have "of_nat (min b 10000) \<le> (10000 :: rat)" by simp
    then have k1: "0 \<le> ?k" "?k \<le> 1" by simp_all
    note law = laws_mul [OF laws assms(2) k]
    have b: "0 \<le> sz * ?k" "sz * ?k \<le> sz" using pos k1 mult_left_mono [OF k1(2), of sz] by auto
    then obtain c where c: "checked_mul D sz ?k = Some c" using op_law_total [OF law assms(2)] by auto
    have "R c" "0 \<le> c" using op_law_repr [OF law c] op_law_nonneg [OF law laws_zero [OF laws] b(1) c] .
    with Reduce pos c assms(2) show ?thesis by (simp add: apply_research_def op_mul_def min_def)
  qed (use pos assms(2) laws_zero [OF laws] in \<open>simp_all add: apply_research_def\<close>)
qed


lemma goal_progress_ok:
  assumes laws: "decimal_laws D R" and R: "R stake" "R wallet" "R swept" "R goal"
  shows "goal_progress D stake wallet swept goal \<noteq> Panic"
    and "goal_progress D stake wallet swept goal = Ok p \<Longrightarrow>
      0 \<le> fraction_to_goal p \<and> fraction_to_goal p \<le> 1 \<and> 0 \<le> remaining_usd p \<and> (reached p \<longrightarrow> remaining_usd p = 0)"
proof -
  have sub: "\<exists>c. checked_sub D a b = Some c" if "R a" "R b" "0 \<le> a" "0 \<le> b" for a b
    using sub_total [OF laws that] by blast
  show "goal_progress D stake wallet swept goal \<noteq> Panic"
  proof (cases "stake \<le> 0 \<or> wallet < 0 \<or> swept < 0 \<or> goal \<le> 1")
    case False
    then have s: "0 < stake" "0 \<le> wallet" "0 \<le> swept" "1 < goal" by auto
    have t: "R t \<and> 0 \<le> t" if "checked_add D wallet swept = Some t" for t
      using add_repr [OF laws R(2,3) that] add_nonneg [OF laws R(2,3) s(2,3) that] s by simp
    have m: "R m \<and> 0 \<le> m" if "checked_div D t stake = Some m" "R t" "0 \<le> t" for t m
      using div_repr [OF laws that(2) R(1) that(1)] div_nonneg [OF laws that(2) R(1) that(3) s(1) that(1)] by simp
    have g: "R x \<and> 0 \<le> x" if "checked_mul D stake goal = Some x" for x
      using mul_repr [OF laws R(1,4) that] mul_nonneg [OF laws R(1,4) _ _ that] s by simp
    have s1: "checked_sub D m 1 \<noteq> None" if "R m" "0 \<le> m" for m using sub [OF that(1) laws_one [OF laws] that(2)] by auto
    have s2: "checked_sub D goal 1 \<noteq> None" using s1 [OF R(4)] s by simp
    show ?thesis
      unfolding goal_progress_def op_sub_def
      using False t m g s1 s2 sub by (simp add: res_simps)
  qed (auto simp: goal_progress_def)
  show "0 \<le> fraction_to_goal p \<and> fraction_to_goal p \<le> 1 \<and> 0 \<le> remaining_usd p \<and> (reached p \<longrightarrow> remaining_usd p = 0)"
    if ok: "goal_progress D stake wallet swept goal = Ok p"
  proof -
    from ok obtain t x y f where s: "0 < stake" "0 \<le> wallet" "0 \<le> swept" "1 < goal"
      and t: "checked_add D wallet swept = Some t" and x: "checked_mul D stake goal = Some x"
      and y: "checked_sub D x t = Some y" and p: "fraction_to_goal p = clamp f (0, 1)" "remaining_usd p = max y 0"
        "reached p \<longleftrightarrow> x \<le> t"
      by (auto simp: goal_progress_def op_sub_def res_simps not_le not_less split: if_splits)
    have "y \<le> 0" if "x \<le> t"
      using faithful_le [OF op_law_faithful [OF laws_sub [OF laws mul_repr [OF laws R(1,4) x] add_repr [OF laws R(2,3) t]] y]
          laws_zero [OF laws]] that by simp
    with p clamp_bounds [of 0 1 f] show ?thesis by auto
  qed
qed

section \<open>Properties\<close>

definition demo_params :: strategy_params where
  "demo_params = \<lparr>version = 1, min_buy_ratio_bps = 5500, min_momentum_bps = 0, max_momentum_bps = 2000,
     position_share_bps = 5000, max_liquidity_share_bps = 100, take_profit_bps = 3000, stop_loss_bps = 1500,
     liquidity_drop_exit_bps = 4000, max_hold = 3600 * nanos, entry_slippage_bps = 200,
     exit_slippage_bps = 900, intent_ttl = 30 * nanos\<rparr>"

lemma dec96_small: "\<bar>x\<bar> \<le> 10 ^ 9 \<Longrightarrow> dec96_repr x"
  by (simp add: dec96_repr_def dec_max_def)

lemma evaluate_entry_Ok:
  assumes "evaluate_entry D s p rules deny mx now = Ok i"
  obtains sz where "validate p = Ok ()" "check s rules deny now = Accept" "entry_signal s p"
    "entry_size D s p mx = Ok sz" "0 < sz"
    "i = \<lparr>strategy_version = version p, ti_mint = mint s, ti_kind = Entry,
          amount_in = sz, max_slippage_bps = entry_slippage_bps p,
          created_at = now, expires_at = now + intent_ttl p\<rparr>"
  using assms by (cases "validate p") (auto simp: evaluate_entry_def res_simps not_le split: if_splits)

lemma entry_share_2pct:
  assumes "decimal_laws D R" and "R mx" and "R (liquidity_usd s)" and v: "validate p = Ok ()"
    and "entry_size D s p mx = Ok sz" and "0 < sz" and g: "grid 80 (liquidity_usd s)"
  shows "sz \<le> liquidity_usd s / 50"
proof -
  note e = entry_size_Ok [OF assms(1-6)]
  have "of_nat (max_liquidity_share_bps p) \<le> (200 :: rat)" using v by (simp add: validate_iff)
  then have "liquidity_usd s * of_nat (max_liquidity_share_bps p) \<le> liquidity_usd s * 200"
    using e(3) by simp
  with e(6) [OF g] show ?thesis by (simp add: bps_def)
qed

text \<open>
  C14. An entry intent is only ever emitted for parameters inside the code-fixed bounds and a
  snapshot the safety filter accepts; its size is positive and at most the mandate's position
  limit. Of a position limit and a pool liquidity with at most twelve decimals it takes at most the
  configured shares, and the liquidity share is never more than 2\<open>%\<close>. Slippage and lifetime are the
  configured ones, within the code-fixed bounds. Computing it never panics.
\<close>

theorem entry_within_limits:
  assumes "decimal_laws D R" and "R mx" and "R (liquidity_usd s)"
  shows "evaluate_entry D s p rules deny mx now \<noteq> Panic
    \<and> (\<forall>i. evaluate_entry D s p rules deny mx now = Ok i \<longrightarrow>
         check s rules deny now = Accept \<and> validate p = Ok () \<and> ti_kind i = Entry \<and> ti_mint i = mint s
       \<and> 0 < amount_in i \<and> amount_in i \<le> mx
       \<and> (grid 80 mx \<longrightarrow> amount_in i \<le> mx * of_nat (position_share_bps p) / 10000)
       \<and> (grid 80 (liquidity_usd s) \<longrightarrow> amount_in i \<le> liquidity_usd s * of_nat (max_liquidity_share_bps p) / 10000
            \<and> amount_in i \<le> liquidity_usd s / 50)
       \<and> max_slippage_bps i = entry_slippage_bps p \<and> max_slippage_bps i \<le> 1000
       \<and> expires_at i = now + intent_ttl p \<and> now < expires_at i \<and> expires_at i \<le> now + 120 * nanos)"
proof -
  have np: "evaluate_entry D s p rules deny mx now \<noteq> Panic"
  proof (cases "validate p")
    case (Ok u)
    with entry_size_no_panic [OF assms, of p] show ?thesis by (simp add: evaluate_entry_def res_simps)
  qed (simp_all add: evaluate_entry_def)
  have ok: "check s rules deny now = Accept \<and> validate p = Ok () \<and> ti_kind i = Entry \<and> ti_mint i = mint s
       \<and> 0 < amount_in i \<and> amount_in i \<le> mx
       \<and> (grid 80 mx \<longrightarrow> amount_in i \<le> mx * of_nat (position_share_bps p) / 10000)
       \<and> (grid 80 (liquidity_usd s) \<longrightarrow> amount_in i \<le> liquidity_usd s * of_nat (max_liquidity_share_bps p) / 10000
            \<and> amount_in i \<le> liquidity_usd s / 50)
       \<and> max_slippage_bps i = entry_slippage_bps p \<and> max_slippage_bps i \<le> 1000
       \<and> expires_at i = now + intent_ttl p \<and> now < expires_at i \<and> expires_at i \<le> now + 120 * nanos"
    if i: "evaluate_entry D s p rules deny mx now = Ok i" for i
  proof (rule evaluate_entry_Ok [OF i])
    fix sz
    assume v: "validate p = Ok ()" and c: "check s rules deny now = Accept" and sz: "entry_size D s p mx = Ok sz" "0 < sz"
      and i: "i = \<lparr>strategy_version = version p, ti_mint = mint s, ti_kind = Entry, amount_in = sz,
        max_slippage_bps = entry_slippage_bps p, created_at = now, expires_at = now + intent_ttl p\<rparr>"
    show ?thesis
      using v c sz entry_size_Ok(1,5,6) [OF assms v sz] entry_share_2pct [OF assms v sz]
      by (simp add: i validate_iff nanos_def bps_def)
  qed
  show ?thesis using np ok by blast
qed

theorem entry_within_limits_witness:
  "evaluate_entry dec96 demo_snapshot demo_params demo_rules [] 100 1010 \<noteq> Panic
   \<and> evaluate_entry dec96 demo_snapshot demo_params demo_rules [] 100 1010 =
       Ok \<lparr>strategy_version = 1, ti_mint = mint demo_snapshot, ti_kind = Entry, amount_in = 50,
          max_slippage_bps = 200, created_at = 1010, expires_at = 1010 + 30 * nanos\<rparr>
   \<and> (50 :: rat) \<le> 100 * of_nat (position_share_bps demo_params) / 10000
   \<and> (50 :: rat) \<le> liquidity_usd demo_snapshot * of_nat (max_liquidity_share_bps demo_params) / 10000"
proof -
  have r: "dec96_repr 100" "dec96_repr (liquidity_usd demo_snapshot)"
    by (simp_all add: dec96_small demo_snapshot_def)
  have e: "evaluate_entry dec96 demo_snapshot demo_params demo_rules [] 100 1010 =
       Ok \<lparr>strategy_version = 1, ti_mint = mint demo_snapshot, ti_kind = Entry, amount_in = 50,
          max_slippage_bps = 200, created_at = 1010, expires_at = 1010 + 30 * nanos\<rparr>"
    by (simp add: evaluate_entry_def validate_def within_bounds_def bounds_defs demo_params_def
        entry_signal_def entry_size_def bps_def eval_simps)
  have g: "grid 80 100" "grid 80 (liquidity_usd demo_snapshot)"
    using grid_int [of 100 80] grid_int [of 200000 80] by (simp_all add: demo_snapshot_def)
  show ?thesis using entry_within_limits [OF dec96_laws r, of demo_params demo_rules "[]" 1010] e g by auto
qed

text \<open>
  C15. Getting out is never blocked: a position held for its maximum time always yields an exit
  intent, whatever the parameters, the snapshot and the cost model are; every exit sells the
  whole position with slippage and lifetime clamped into the code-fixed bounds.
\<close>

theorem exit_never_blocked:
  assumes "decimal_laws D R" and "exit_repr R pos s" and "take_profit_bps p \<le> u32_max"
  shows "evaluate_exit D pos s p costs age now \<noteq> Panic
    \<and> (max_hold p \<le> now - opened_at pos \<longrightarrow> (\<exists>i. evaluate_exit D pos s p costs age now = Ok i))
    \<and> (\<forall>i. evaluate_exit D pos s p costs age now = Ok i \<longrightarrow>
         amount_in i = tokens pos \<and> ti_mint i = pos_mint pos
       \<and> max_slippage_bps i \<in> {1..5000} \<and> expires_at i - now \<in> {nanos..120 * nanos})"
proof (intro conjI impI allI)
  note np = exit_cause_no_panic [OF assms, of costs age now]
  show "evaluate_exit D pos s p costs age now \<noteq> Panic"
    using np by (simp add: evaluate_exit_def res_simps)
  show "\<exists>i. evaluate_exit D pos s p costs age now = Ok i" if "max_hold p \<le> now - opened_at pos"
    using exit_cause_overdue [OF np that] by (auto simp: evaluate_exit_def)
  fix i
  assume "evaluate_exit D pos s p costs age now = Ok i"
  then show "amount_in i = tokens pos" "ti_mint i = pos_mint pos" "max_slippage_bps i \<in> {1..5000}"
    "expires_at i - now \<in> {nanos..120 * nanos}"
    using clamp_bounds [of 1 5000 "exit_slippage_bps p"] clamp_bounds [of nanos "120 * nanos" "intent_ttl p"]
    by (auto simp: evaluate_exit_def res_simps EXIT_SLIPPAGE_BPS_def INTENT_TTL_def nanos_def)
qed

theorem exit_never_blocked_witness:
  "\<exists>i. evaluate_exit dec96 (demo_lot 100 50 0) demo_snapshot demo_params demo_costs 30 (3600 * nanos) = Ok i
     \<and> amount_in i = 100 \<and> max_slippage_bps i \<le> 5000"
proof -
  have r: "exit_repr dec96_repr (demo_lot 100 50 0) demo_snapshot"
    by (simp add: exit_repr_def dec96_small demo_lot_def demo_snapshot_def)
  have tp: "take_profit_bps demo_params \<le> u32_max" by (simp add: demo_params_def u32_max_def)
  have h: "max_hold demo_params \<le> 3600 * nanos - opened_at (demo_lot 100 50 0)"
    by (simp add: demo_params_def demo_lot_def)
  from exit_never_blocked [OF dec96_laws r tp, of demo_costs 30 "3600 * nanos"] h
  show ?thesis by (auto simp: demo_lot_def)
qed

text \<open>
  Research output can only shrink an entry: whatever the agent answers, the adjusted size
  exists and lies between zero and the size the strategy asked for.
\<close>

theorem research_only_shrinks:
  assumes "decimal_laws D R" and "R sz"
  shows "\<exists>x. apply_research D sz adj = Ok x \<and> 0 \<le> x \<and> x \<le> max sz 0
    \<and> apply_research D sz Veto = Ok 0"
  using apply_research_ok [OF assms, of adj] by (auto simp: apply_research_def)

theorem research_only_shrinks_witness:
  "\<exists>x. apply_research dec96 80 (Reduce 2500) = Ok x \<and> x \<le> 80"
  using research_only_shrinks [OF dec96_laws dec96_small, of 80 "Reduce 2500"] by auto

text \<open>
  The goal calculation never panics, its fraction stays between zero and one, nothing
  remains once the goal is reached, and trading only stops at a reached goal the owner asked to
  stop at.
\<close>

theorem goal_stops_only_when_reached:
  assumes "decimal_laws D R" and "R stake" and "R wallet" and "R swept" and "R goal"
  shows "goal_progress D stake wallet swept goal \<noteq> Panic
    \<and> (\<forall>p. goal_progress D stake wallet swept goal = Ok p \<longrightarrow>
         fraction_to_goal p \<in> {0..1} \<and> 0 \<le> remaining_usd p \<and> (reached p \<longrightarrow> remaining_usd p = 0))
    \<and> (goal_action_for D stake wallet swept goal at_goal = Ok Stop \<longrightarrow>
         at_goal = Stop \<and> (\<exists>p. goal_progress D stake wallet swept goal = Ok p \<and> reached p))"
  using goal_progress_ok [OF assms]
  by (auto simp: goal_action_for_def res_simps split: if_splits)

theorem goal_stops_only_when_reached_witness:
  "goal_action_for dec96 100 150 60 2 Stop = Ok Stop
   \<and> (\<exists>p. goal_progress dec96 100 150 60 2 = Ok p \<and> reached p)"
proof -
  have r: "dec96_repr 100" "dec96_repr 150" "dec96_repr 60" "dec96_repr 2" by (simp_all add: dec96_small)
  have "goal_action_for dec96 100 150 60 2 Stop = Ok Stop"
    by (simp add: goal_action_for_def goal_progress_def clamp_def eval_simps)
  with goal_stops_only_when_reached [OF dec96_laws r, of Stop] show ?thesis by blast
qed

end
