(* ===== verification/Gate.thy ===== *)
theory Gate
  imports Paper
begin

text \<open>
  \<^verbatim>\<open>src/crates/onchain/src/gate.rs\<close>: the promotion gate from paper trading to live. Its
  thresholds have floors fixed in code; a trading day is the UTC date of a closing time, here
  the number of whole days since the epoch.
\<close>

definition day_nanos :: int where "day_nanos = 86400 * 1000000000"

definition MIN_CLOSED_TRADES :: nat where "MIN_CLOSED_TRADES = 100"
definition MIN_DURATION :: int where "MIN_DURATION = 28 * day_nanos"
definition MIN_TRADING_DAYS :: nat where "MIN_TRADING_DAYS = 7"

record gate_rules =
  min_closed_trades :: nat
  min_duration :: int
  min_trading_days :: nat

datatype below_floor = BelowFloor string

definition gate_validate :: "gate_rules \<Rightarrow> (below_floor, unit) res" where
  "gate_validate r =
     (if min_closed_trades r < MIN_CLOSED_TRADES then Err (BelowFloor ''min_closed_trades'')
      else if min_duration r < MIN_DURATION then Err (BelowFloor ''min_duration'')
      else if min_trading_days r < MIN_TRADING_DAYS then Err (BelowFloor ''min_trading_days'')
      else Ok ())"

record gate_report =
  closed_trades :: nat
  duration :: int
  net_result_usd :: rat
  net_expectancy_usd :: rat
  enough_trades :: bool
  enough_time :: bool
  trading_days :: nat
  enough_days :: bool
  positive_expectancy :: bool
  passed :: bool

fun iter_min :: "int list \<Rightarrow> int option" where
  "iter_min [] = None"
| "iter_min (x # xs) = Some (foldl min x xs)"

fun iter_max :: "int list \<Rightarrow> int option" where
  "iter_max [] = None"
| "iter_max (x # xs) = Some (foldl max x xs)"

definition utc_date :: "int \<Rightarrow> int" where
  "utc_date t = t div day_nanos"

definition trade_span :: "closed_trade list \<Rightarrow> int" where
  "trade_span trades =
     (case (iter_min (map ct_opened_at trades), iter_max (map ct_closed_at trades)) of
        (Some f, Some l) \<Rightarrow> max (l - f) 0
      | _ \<Rightarrow> 0)"

definition gate_net :: "decimal \<Rightarrow> ledger \<Rightarrow> (string \<times> mark) list \<Rightarrow> cost_model \<Rightarrow> (ledger_error, rat) res" where
  "gate_net D l marks costs =
     bind_res (checked_sum D (map net_pnl_usd (closed l))) (\<lambda>realised.
     bind_res (open_losses D l marks costs) (\<lambda>losses.
     checked_sum D [realised, losses, - failed_tx_fees_usd l, - ai_cost_usd l]))"

definition gate_evaluate :: "decimal \<Rightarrow> ledger \<Rightarrow> (string \<times> mark) list \<Rightarrow> cost_model \<Rightarrow> gate_rules \<Rightarrow>
    (ledger_error, gate_report) res" where
  "gate_evaluate D l marks costs rules =
     (let trades = closed l;
          n = length trades;
          dur = trade_span trades;
          days = length (remdups (map (\<lambda>t. utc_date (ct_closed_at t)) trades))
      in bind_res (gate_net D l marks costs) (\<lambda>net.
         bind_res (if n = 0 then Ok 0 else op_div D net (of_nat n)) (\<lambda>expectancy.
         let et = (n \<ge> max (min_closed_trades rules) MIN_CLOSED_TRADES);
             em = (dur \<ge> max (min_duration rules) MIN_DURATION);
             ed = (days \<ge> max (min_trading_days rules) MIN_TRADING_DAYS);
             pe = (expectancy > 0)
         in Ok \<lparr>closed_trades = n, duration = dur, net_result_usd = net, net_expectancy_usd = expectancy,
                enough_trades = et, enough_time = em, trading_days = days, enough_days = ed,
                positive_expectancy = pe, passed = (et \<and> em \<and> ed \<and> pe)\<rparr>)))"

section \<open>Lemmas\<close>

lemma gate_validate_iff: "gate_validate r = Ok () \<longleftrightarrow>
    100 \<le> min_closed_trades r \<and> 28 * day_nanos \<le> min_duration r \<and> 7 \<le> min_trading_days r"
  by (simp add: gate_validate_def MIN_CLOSED_TRADES_def MIN_DURATION_def MIN_TRADING_DAYS_def not_less)

lemma foldl_min_in: "foldl min (x :: int) xs \<in> insert x (set xs)"
  by (induction xs arbitrary: x) (auto simp: min_def split: if_splits)

lemma foldl_max_in: "foldl max (x :: int) xs \<in> insert x (set xs)"
  by (induction xs arbitrary: x) (auto simp: max_def split: if_splits)

lemma iter_in: "iter_min xs = Some a \<Longrightarrow> a \<in> set xs" "iter_max xs = Some b \<Longrightarrow> b \<in> set xs"
  using foldl_min_in foldl_max_in by (cases xs; force)+

lemma trade_span_pos:
  assumes "0 < d" and "d \<le> trade_span trades"
  shows "\<exists>a \<in> set trades. \<exists>b \<in> set trades. d \<le> ct_closed_at b - ct_opened_at a"
proof -
  from assms obtain f l where "iter_min (map ct_opened_at trades) = Some f" "iter_max (map ct_closed_at trades) = Some l"
    "d \<le> l - f" by (auto simp: trade_span_def split: option.splits)
  then show ?thesis using iter_in by fastforce
qed

lemma foldl_min_le: "foldl min (x :: int) xs \<le> x \<and> (\<forall>y \<in> set xs. foldl min x xs \<le> y)"
proof (induction xs arbitrary: x)
  case (Cons z xs)
  from Cons.IH [of "min x z"] show ?case by auto
qed simp

lemma foldl_max_ge: "x \<le> foldl max (x :: int) xs \<and> (\<forall>y \<in> set xs. y \<le> foldl max x xs)"
proof (induction xs arbitrary: x)
  case (Cons z xs)
  from Cons.IH [of "max x z"] show ?case by auto
qed simp

lemma trade_span_ge:
  assumes "a \<in> set trades" and "b \<in> set trades"
  shows "ct_closed_at b - ct_opened_at a \<le> trade_span trades"
proof (cases trades)
  case (Cons t ts)
  have "foldl min (ct_opened_at t) (map ct_opened_at ts) \<le> ct_opened_at a"
    using foldl_min_le [of "ct_opened_at t" "map ct_opened_at ts"] assms(1) Cons by auto
  moreover have "ct_closed_at b \<le> foldl max (ct_closed_at t) (map ct_closed_at ts)"
    using foldl_max_ge [of "ct_closed_at t" "map ct_closed_at ts"] assms(2) Cons by auto
  ultimately show ?thesis by (simp add: trade_span_def Cons)
qed (use assms in simp)

lemma sum4_le_first:
  assumes laws: "decimal_laws D R" and "R a" "R b" "R c" "R d" and neg: "b \<le> 0" "c \<le> 0" "d \<le> 0"
    and ok: "checked_sum D [a, b, c, d] = Ok x"
  shows "R x \<and> x \<le> a"
proof -
  have down: "R z \<and> z \<le> y" if "checked_add D y v = Some z" "R y" "R v" "v \<le> 0" for y v z
    using add_repr [OF laws that(2,3,1)] faithful_le [OF op_law_faithful [OF laws_add [OF laws that(2,3)] that(1)] that(2)]
      that(4) by simp
  have "checked_add D 0 a = Some a"
    using op_law_exact [OF laws_add [OF laws laws_zero [OF laws] assms(2)]] assms(2) laws_neg [OF laws assms(2)] by simp
  with ok obtain y z where y: "checked_add D a b = Some y" and z: "checked_add D y c = Some z"
    and x: "checked_add D z d = Some x" by (auto simp: checked_sum_def res_simps)
  have y': "R y" "y \<le> a" using down [OF y assms(2,3) neg(1)] by simp_all
  have z': "R z" "z \<le> y" using down [OF z y'(1) assms(4) neg(2)] by simp_all
  show ?thesis using down [OF x z'(1) assms(5) neg(3)] y' z' by simp
qed

lemma sum_losses_repr:
  assumes laws: "decimal_laws D R" and "\<forall>(m, p, t) \<in> set trips. R p" and "\<forall>(m, u) \<in> set os. R u" and "R acc"
    and "sum_losses D trips acc os = Ok x"
  shows "R x"
  using assms(3-)
proof (induction os arbitrary: acc)
  case (Cons o1 os)
  obtain m u where o1: "o1 = (m, u)" by (cases o1)
  define p where "p = (case al_get trips m of Some (p, _) \<Rightarrow> p | None \<Rightarrow> 0)"
  have R: "R p" "R u" using assms(2) Cons.prems(1) o1 laws_zero [OF laws]
    by (auto simp: p_def split: option.splits dest!: map_of_SomeD)
  from Cons.prems(3) o1 obtain trip acc' where t: "checked_add D p u = Some trip"
    and a: "checked_add D acc (min trip 0) = Some acc'" and r: "sum_losses D trips acc' os = Ok x"
    by (auto simp: p_def [symmetric] res_simps)
  have "R acc'"
    by (rule add_repr [OF laws Cons.prems(2) min_repr [of R, OF add_repr [OF laws R t] laws_zero [OF laws]] a])
  then show ?case using Cons.IH r Cons.prems(1) by simp
qed simp

lemma gate_net_ok:
  assumes laws: "decimal_laws D R" and inv: "ledger_inv R l" and mk: "marks_repr R marks"
  shows "gate_net D l marks costs \<noteq> Panic"
    and "gate_net D l marks costs = Ok x \<Longrightarrow> R x \<and> (\<exists>a. checked_sum D (map net_pnl_usd (closed l)) = Ok a \<and> x \<le> a)"
proof -
  have cr: "\<forall>v \<in> set (map net_pnl_usd (closed l)). R v" using ledger_invD(4) [OF inv] by auto
  have nopanic: "checked_sum_from D acc vs \<noteq> Panic" for acc vs
    by (induction vs arbitrary: acc) (auto simp: res_simps)
  note ol = ledger_value_no_panic(2,3) [OF laws inv mk, of costs]
  show "gate_net D l marks costs \<noteq> Panic"
    using ol(1) nopanic by (simp add: gate_net_def res_simps checked_sum_def)
  show "R x \<and> (\<exists>a. checked_sum D (map net_pnl_usd (closed l)) = Ok a \<and> x \<le> a)"
    if ok: "gate_net D l marks costs = Ok x"
  proof -
    from ok obtain a b where a: "checked_sum D (map net_pnl_usd (closed l)) = Ok a"
      and b: "open_losses D l marks costs = Ok b"
      and s: "checked_sum D [a, b, - failed_tx_fees_usd l, - ai_cost_usd l] = Ok x"
      by (auto simp: gate_net_def res_simps)
    have Ra: "R a" by (rule checked_sum_ok(2) [OF laws cr a])
    have trips: "\<forall>(m, p, t) \<in> set (open_trips l). R p" using ledger_invD(3) [OF inv] by blast
    obtain os where os: "open_by_mint D l marks costs = Ok os" "sum_losses D (open_trips l) 0 os = Ok b"
      using b by (auto simp: open_losses_def res_simps)
    have Rb: "R b"
      by (rule sum_losses_repr [OF laws trips open_by_mint_ok(2) [OF laws inv mk os(1)] laws_zero [OF laws] os(2)])
    show ?thesis
      using sum4_le_first [OF laws Ra Rb laws_neg [OF laws ledger_invD(7) [OF inv]] laws_neg [OF laws ledger_invD(9) [OF inv]]
          ol(2) [OF b] _ _ s] ledger_invD(6,8) [OF inv] a by simp
  qed
qed

lemma expectancy_ok:
  assumes laws: "decimal_laws D R" and "R net" and "0 < n" and "n < 2 ^ 64"
  shows "\<exists>q. checked_div D net (of_nat n) = Some q \<and> (0 < q \<longrightarrow> 0 < net)"
proof -
  have Rn: "R (of_nat n)" by (rule laws_nat [OF laws]) (use assms(4) in simp)
  have nz: "of_nat n \<noteq> (0 :: rat)" using assms(3) by simp
  note law = laws_div [OF laws assms(2) Rn nz]
  have "1 \<le> (of_nat n :: rat)" using assms(3) by simp
  then have "\<bar>net / of_nat n\<bar> \<le> \<bar>net\<bar>" using divide_left_mono [of 1 "of_nat n" "\<bar>net\<bar>"] by (simp add: abs_divide)
  then obtain q where q: "checked_div D net (of_nat n) = Some q"
    using op_law_total [OF law assms(2)] op_law_total [OF law laws_neg [OF laws assms(2)]] by (auto simp: abs_if split: if_splits)
  have "q \<le> 0" if "net \<le> 0"
    using faithful_le [OF op_law_faithful [OF law q] laws_zero [OF laws]] that by (simp add: divide_nonpos_nonneg)
  with q show ?thesis by force
qed

section \<open>Properties\<close>

text \<open>
  C16. The gate cannot pass by luck or configuration: whatever rules are configured, a passing
  report means at least 100 completed round trips, at least 28 days from an opening to a
  closing, closings on at least 7 distinct dates, and a positive net result, which never
  exceeds what the completed trades alone realised. Evaluating it never panics.
\<close>

theorem gate_passed_meets_floors:
  assumes laws: "decimal_laws D R" and inv: "ledger_inv R l" and mk: "marks_repr R marks"
    and "length (closed l) < 2 ^ 64"
  shows "gate_evaluate D l marks costs rules \<noteq> Panic
    \<and> (\<forall>rep. gate_evaluate D l marks costs rules = Ok rep \<and> passed rep \<longrightarrow>
         max (min_closed_trades rules) 100 \<le> length (closed l)
       \<and> (\<exists>a \<in> set (closed l). \<exists>b \<in> set (closed l). 28 * day_nanos \<le> ct_closed_at b - ct_opened_at a)
       \<and> 7 \<le> card ((\<lambda>t. utc_date (ct_closed_at t)) ` set (closed l))
       \<and> 0 < net_result_usd rep
       \<and> (\<exists>a. checked_sum D (map net_pnl_usd (closed l)) = Ok a \<and> net_result_usd rep \<le> a))"
proof -
  note net = gate_net_ok [OF laws inv mk, of costs]
  have ex: "\<exists>q. checked_div D x (of_nat (length (closed l))) = Some q \<and> (0 < q \<longrightarrow> 0 < x)"
    if "gate_net D l marks costs = Ok x" "closed l \<noteq> []" for x
    using expectancy_ok [OF laws] net(2) [OF that(1)] that(2) assms(4) by simp
  have np: "gate_evaluate D l marks costs rules \<noteq> Panic"
  proof (cases "gate_net D l marks costs")
    case (Ok x)
    with ex [OF Ok] show ?thesis by (cases "closed l = []") (auto simp: gate_evaluate_def op_div_def Let_def)
  qed (use net(1) in \<open>simp_all add: gate_evaluate_def Let_def\<close>)
  have pass: "max (min_closed_trades rules) 100 \<le> length (closed l)
       \<and> (\<exists>a \<in> set (closed l). \<exists>b \<in> set (closed l). 28 * day_nanos \<le> ct_closed_at b - ct_opened_at a)
       \<and> 7 \<le> card ((\<lambda>t. utc_date (ct_closed_at t)) ` set (closed l))
       \<and> 0 < net_result_usd rep
       \<and> (\<exists>a. checked_sum D (map net_pnl_usd (closed l)) = Ok a \<and> net_result_usd rep \<le> a)"
    if ok: "gate_evaluate D l marks costs rules = Ok rep" and p: "passed rep" for rep
  proof -
    from ok obtain x where x: "gate_net D l marks costs = Ok x" "net_result_usd rep = x"
      by (auto simp: gate_evaluate_def res_simps Let_def)
    have n: "max (min_closed_trades rules) 100 \<le> length (closed l)" and t: "28 * day_nanos \<le> trade_span (closed l)"
      and d: "7 \<le> length (remdups (map (\<lambda>t. utc_date (ct_closed_at t)) (closed l)))"
      using ok p by (auto simp: gate_evaluate_def res_simps Let_def MIN_CLOSED_TRADES_def MIN_DURATION_def MIN_TRADING_DAYS_def)
    then have ne: "closed l \<noteq> []" by auto
    obtain q where q: "checked_div D x (of_nat (length (closed l))) = Some q" "0 < q \<longrightarrow> 0 < x" using ex [OF x(1) ne] by blast
    have "passed rep \<longrightarrow> 0 < q" using ok x(1) ne q(1) by (auto simp: gate_evaluate_def op_div_def Let_def)
    then have "0 < x" using p q(2) by blast
    moreover have "\<exists>a \<in> set (closed l). \<exists>b \<in> set (closed l). 28 * day_nanos \<le> ct_closed_at b - ct_opened_at a"
      by (rule trade_span_pos [OF _ t]) (simp add: day_nanos_def)
    moreover have "7 \<le> card ((\<lambda>t. utc_date (ct_closed_at t)) ` set (closed l))"
      using d by (simp add: length_remdups_card_conv)
    ultimately show ?thesis using n net(2) [OF x(1)] x(2) by blast
  qed
  show ?thesis using np pass by blast
qed

text \<open>A paper record of 100 trades, one a day, each gaining 2.\<close>

definition demo_trade :: "nat \<Rightarrow> closed_trade" where
  "demo_trade n = \<lparr>ct_mint = ''MINT'', ct_opened_at = int n * day_nanos,
     ct_closed_at = int n * day_nanos + 1, net_pnl_usd = 2\<rparr>"

definition demo_record :: ledger where
  "demo_record = ledger_default\<lparr>closed := map demo_trade [0..<100],
     last_event_at := Some (100 * day_nanos)\<rparr>"

lemma demo_record_inv: "ledger_inv dec96_repr demo_record"
proof -
  have "sorted (map (\<lambda>n. ct_closed_at (demo_trade n)) [0..<100])"
    by (simp add: sorted_iff_nth_mono demo_trade_def day_nanos_def)
  moreover have "ct_closed_at (demo_trade n) \<le> 100 * day_nanos" if "n < 100" for n
    using that by (simp add: demo_trade_def day_nanos_def)
  ultimately show ?thesis
    by (simp add: demo_record_def ledger_default_def ledger_inv_def bt_wf_def before_def comp_def
        dec96_repr_def dec_max_def) (simp add: demo_trade_def)
qed

lemma demo_record_net: "gate_net dec96 demo_record [] demo_costs = Ok 200"
proof -
  have eq: "map net_pnl_usd (closed demo_record) = replicate 100 2"
    by (simp add: demo_record_def demo_trade_def comp_def map_replicate_trivial list_eq_iff_nth_eq)
  have "checked_sum_from dec96 0 (replicate 100 2) = Ok (0 + sum_list (replicate 100 2))"
    by (rule checked_sum_from_exact [OF dec96_laws, of 92])
      (use grid_int [of 2 92] grid_int [of 0 92] grid_int [of 200 92] in \<open>simp_all add: sum_list_replicate\<close>)
  then show ?thesis
    by (simp add: gate_net_def checked_sum_def eq sum_list_replicate)
      (simp add: demo_record_def ledger_default_def open_losses_def open_by_mint_def eval_simps)
qed

lemma demo_record_days: "length (remdups (map (\<lambda>t. utc_date (ct_closed_at t)) (closed demo_record))) = 100"
proof -
  have "utc_date (ct_closed_at (demo_trade n)) = int n" for n
    by (simp add: utc_date_def demo_trade_def day_nanos_def)
  then have eq: "map (\<lambda>t. utc_date (ct_closed_at t)) (closed demo_record) = map int [0..<100]"
    by (simp add: demo_record_def)
  show ?thesis unfolding eq by (simp add: distinct_map distinct_remdups_id)
qed

lemma demo_record_span: "28 * day_nanos \<le> trade_span (closed demo_record)"
proof -
  have m: "demo_trade 0 \<in> set (closed demo_record)" "demo_trade 99 \<in> set (closed demo_record)"
    by (simp_all add: demo_record_def)
  have "ct_closed_at (demo_trade 99) - ct_opened_at (demo_trade 0) \<le> trade_span (closed demo_record)"
    by (rule trade_span_ge [OF m])
  then show ?thesis by (simp add: demo_trade_def day_nanos_def)
qed

theorem gate_passed_meets_floors_witness:
  "\<exists>rep. gate_evaluate dec96 demo_record [] demo_costs \<lparr>min_closed_trades = 1, min_duration = 0, min_trading_days = 1\<rparr>
     = Ok rep \<and> passed rep \<and> 0 < net_result_usd rep"
proof -
  have m: "marks_repr dec96_repr []" by (simp add: marks_repr_def)
  have n: "length (closed demo_record) = 100" by (simp add: demo_record_def)
  then have ne: "closed demo_record \<noteq> []" by auto
  have dv: "op_div dec96 200 100 = Ok (2 :: rat)" by (simp add: eval_simps)
  have sp: "28 * day_nanos \<le> trade_span (closed demo_record)" "0 \<le> trade_span (closed demo_record)"
    using demo_record_span by (simp_all add: day_nanos_def)
  obtain rep where r: "gate_evaluate dec96 demo_record [] demo_costs
      \<lparr>min_closed_trades = 1, min_duration = 0, min_trading_days = 1\<rparr> = Ok rep" "passed rep"
    by (simp add: gate_evaluate_def demo_record_net demo_record_days n ne dv sp Let_def
        MIN_CLOSED_TRADES_def MIN_DURATION_def MIN_TRADING_DAYS_def)
  have "length (closed demo_record) < 2 ^ 64" by (simp add: n)
  from gate_passed_meets_floors [OF dec96_laws demo_record_inv m this,
      of demo_costs "\<lparr>min_closed_trades = 1, min_duration = 0, min_trading_days = 1\<rparr>"] r
  show ?thesis by blast
qed

end
