(* ===== verification/Budget.thy ===== *)
theory Budget
  imports Prelude
begin

text \<open>
  \<^verbatim>\<open>src/crates/usage/src/lib.rs\<close> (\<open>BudgetBook\<close>) and \<^verbatim>\<open>src/jarvis-api/src/budget_gate.rs\<close>
  (\<open>BudgetGate\<close>): the monthly budget with reservations. Cents are \<open>nat\<close> below \<open>2 ^ 64\<close>; sums the
  code forms with \<open>saturating_add\<close> use \<open>sat_add\<close>, and the plain \<open>sum\<close> over the holds wraps, as
  \<open>u64\<close> addition does in a release build. Every operation runs under one mutex, so concurrent
  callers are a sequence of steps. The database of the gate is a parameter: each call gives
  its outcome, which may also be a timeout.
\<close>

section \<open>The book\<close>

record budget_limits =
  monthly_soft_cents :: nat
  monthly_hard_cents :: nat
  per_request_hard_cents :: nat

datatype budget_error = RequestCap | MonthlyHardCap | DuplicateReservation


record hold =
  cents :: nat
  hold_expires_at :: int

record budget_state =
  actual_cents :: nat
  reservations :: "(string \<times> hold) list"

record budget_book =
  limits :: budget_limits
  state :: budget_state

definition sum_cents :: "(string \<times> hold) list \<Rightarrow> nat" where
  "sum_cents rs = sum_list (map (\<lambda>(_, h). cents h) rs)"

definition reserved_cents :: "budget_state \<Rightarrow> nat" where
  "reserved_cents s = wrap64 (sum_cents (reservations s))"

abbreviation sat64 :: "nat \<Rightarrow> nat \<Rightarrow> nat" where
  "sat64 \<equiv> sat_add u64_max"

definition book_new :: "budget_limits \<Rightarrow> nat \<Rightarrow> budget_book" where
  "book_new l actual = \<lparr>limits = l, state = \<lparr>actual_cents = actual, reservations = []\<rparr>\<rparr>"

definition set_reservations :: "budget_book \<Rightarrow> (string \<times> hold) list \<Rightarrow> budget_book" where
  "set_reservations b rs = b\<lparr>state := (state b)\<lparr>reservations := rs\<rparr>\<rparr>"

definition book_reserve :: "budget_book \<Rightarrow> string \<Rightarrow> nat \<Rightarrow> int \<Rightarrow> budget_error option \<times> budget_book" where
  "book_reserve b rid projected expiry =
     (if projected > per_request_hard_cents (limits b) then (Some RequestCap, b)
      else let s = state b in
        if al_has rid (reservations s) then (Some DuplicateReservation, b)
        else if sat64 (sat64 (actual_cents s) (reserved_cents s)) projected > monthly_hard_cents (limits b)
        then (Some MonthlyHardCap, b)
        else (None, set_reservations b
               (bt_insert rid \<lparr>cents = projected, hold_expires_at = expiry\<rparr> (reservations s))))"

definition book_restore :: "budget_book \<Rightarrow> string \<Rightarrow> nat \<Rightarrow> int \<Rightarrow> budget_book" where
  "book_restore b rid projected expiry =
     (let s = state b;
          h = (case al_get (reservations s) rid of
                 Some h \<Rightarrow> h | None \<Rightarrow> \<lparr>cents = 0, hold_expires_at = expiry\<rparr>)
      in set_reservations b
           (bt_insert rid \<lparr>cents = max (cents h) projected, hold_expires_at = max (hold_expires_at h) expiry\<rparr>
              (reservations s)))"

definition book_settle :: "budget_book \<Rightarrow> string \<Rightarrow> nat \<Rightarrow> budget_error option \<times> budget_book" where
  "book_settle b rid actual =
     (let s = state b in
      case al_get (reservations s) rid of
        None \<Rightarrow> (Some DuplicateReservation, b)
      | Some h \<Rightarrow>
          let s' = s\<lparr>reservations := al_remove rid (reservations s)\<rparr> in
          if sat64 (sat64 (actual_cents s') (reserved_cents s')) actual > monthly_hard_cents (limits b)
          then (Some MonthlyHardCap,
                b\<lparr>state := s'\<lparr>reservations :=
                   bt_insert rid \<lparr>cents = max (cents h) actual, hold_expires_at = hold_expires_at h\<rparr>
                     (reservations s')\<rparr>\<rparr>)
          else (None, b\<lparr>state := s'\<lparr>actual_cents := sat64 (actual_cents s') actual\<rparr>\<rparr>))"

definition book_cancel :: "budget_book \<Rightarrow> string \<Rightarrow> bool \<times> budget_book" where
  "book_cancel b rid =
     (al_has rid (reservations (state b)),
      set_reservations b (al_remove rid (reservations (state b))))"

definition book_expire :: "budget_book \<Rightarrow> int \<Rightarrow> nat \<times> budget_book" where
  "book_expire b now =
     (let rs = reservations (state b);
          kept = al_retain (\<lambda>_ h. hold_expires_at h > now) rs
      in (length rs - length kept, set_reservations b kept))"

definition reconcile_actual :: "budget_book \<Rightarrow> nat \<Rightarrow> budget_book" where
  "reconcile_actual b actual = b\<lparr>state := (state b)\<lparr>actual_cents := actual\<rparr>\<rparr>"


section \<open>The gate\<close>

datatype 'a db = DbOk 'a | DbError | DbTimeout

record durable_hold =
  dh_id :: string
  dh_cents :: nat
  dh_remaining :: int

definition MAX_ACTIVE_ON_START :: nat where "MAX_ACTIVE_ON_START = 10000"

datatype gate_error = GateBudget budget_error | GateStore

text \<open>The rows the store returns: negative amounts count as zero, a second is added to the time left.\<close>

definition active_row :: "string \<times> int \<times> int \<Rightarrow> durable_hold" where
  "active_row row = (case row of (tid, projected, remaining_secs) \<Rightarrow>
     \<lparr>dh_id = tid, dh_cents = nat (max projected 0), dh_remaining = (max remaining_secs 0 + 1) * 1000000000\<rparr>)"

text \<open>Seconds of a time to live, rounded up.\<close>

definition ttl_secs :: "int \<Rightarrow> int" where
  "ttl_secs ttl = ttl div 1000000000 + (if ttl mod 1000000000 > 0 then 1 else 0)"

definition gate_reserve ::
  "budget_book \<Rightarrow> string \<Rightarrow> nat \<Rightarrow> int \<Rightarrow> int \<Rightarrow> unit db \<Rightarrow> gate_error option \<times> budget_book" where
  "gate_reserve b rid c ttl now create =
     (case book_reserve b rid c (now + ttl) of
        (Some e, b') \<Rightarrow> (Some (GateBudget e), b')
      | (None, b') \<Rightarrow> (case create of
            DbOk _ \<Rightarrow> (None, b')
          | _ \<Rightarrow> (Some GateStore, snd (book_cancel b' rid))))"

definition gate_settle :: "budget_book \<Rightarrow> string \<Rightarrow> nat \<Rightarrow> gate_error option \<times> budget_book" where
  "gate_settle b rid actual = (case book_settle b rid actual of
     (Some e, b') \<Rightarrow> (Some (GateBudget e), b')
   | (None, b') \<Rightarrow> (None, b'))"

text \<open>\<open>release\<close> is the outcome of the durable release, which is only logged.\<close>

definition gate_cancel :: "budget_book \<Rightarrow> string \<Rightarrow> unit db \<Rightarrow> bool \<times> budget_book" where
  "gate_cancel b rid release = book_cancel b rid"

text \<open>Startup. \<open>None\<close> aborts it; \<open>rows\<close> is the answer to the query with limit \<open>MAX + 1\<close>.\<close>

definition gate_reconcile ::
  "budget_book \<Rightarrow> int \<Rightarrow> unit db \<Rightarrow> durable_hold list db \<Rightarrow> budget_book option" where
  "gate_reconcile b now expired rows = (case expired of
     DbOk _ \<Rightarrow> (case rows of
        DbOk holds \<Rightarrow>
          if length holds > MAX_ACTIVE_ON_START then None
          else Some (foldl (\<lambda>bk h. book_restore bk (dh_id h) (dh_cents h) (now + dh_remaining h)) b holds)
      | _ \<Rightarrow> None)
   | _ \<Rightarrow> None)"

definition gate_sweep :: "budget_book \<Rightarrow> int \<Rightarrow> unit db \<Rightarrow> budget_book" where
  "gate_sweep b now expired = snd (book_expire b now)"

section \<open>Events\<close>

text \<open>
  Everything that changes the book. \<open>ReconcileE\<close> is the month's total, read back from the usage table after every
  recorded model call (\<^verbatim>\<open>src/jarvis-api/src/metering.rs\<close>); it may be any amount, above the cap or below the present spend.
\<close>

datatype budget_event =
  ReserveE string nat int
| RestoreE string nat int
| SettleE string nat
| CancelE string
| ExpireE int
| ReconcileE nat

fun budget_step :: "budget_book \<Rightarrow> budget_event \<Rightarrow> budget_book" where
  "budget_step b (ReserveE i c t) = snd (book_reserve b i c t)"
| "budget_step b (RestoreE i c t) = book_restore b i c t"
| "budget_step b (SettleE i c) = snd (book_settle b i c)"
| "budget_step b (CancelE i) = snd (book_cancel b i)"
| "budget_step b (ExpireE now) = snd (book_expire b now)"
| "budget_step b (ReconcileE spend) = reconcile_actual b spend"

section \<open>Lemmas\<close>

text \<open>What the month can cost in the worst case: spent plus every hold, without wrap-around.\<close>

definition committed :: "budget_book \<Rightarrow> nat" where
  "committed b = actual_cents (state b) + sum_cents (reservations (state b))"

definition book_wf :: "budget_book \<Rightarrow> bool" where
  "book_wf b \<longleftrightarrow> bt_wf (reservations (state b)) \<and> monthly_hard_cents (limits b) < u64_max"

lemma set_reservations_simps [simp]:
  "limits (set_reservations b rs) = limits b"
  "actual_cents (state (set_reservations b rs)) = actual_cents (state b)"
  "reservations (state (set_reservations b rs)) = rs"
  by (simp_all add: set_reservations_def)

lemma sum_cents_insert:
  assumes "bt_wf rs"
  shows "sum_cents (bt_insert i h rs) = sum_cents (al_remove i rs) + cents h"
  using assms
proof (induction rs)
  case (Cons e rs)
  obtain k w where e: "e = (k, w)" by (cases e)
  have rest: "bt_wf rs" and lo: "\<forall>x \<in> fst ` set rs. k < x" using Cons.prems e by (simp_all add: bt_wf_Cons)
  have gone: "al_remove i rs = rs" if "i \<le> k"
    using lo that by (intro al_remove_absent) (force simp: map_of_eq_None_iff)
  consider "i < k" | "i = k" | "k < i" by fastforce
  then show ?case
  proof cases
    case 1
    with gone e show ?thesis by (auto simp: sum_cents_def al_remove_def)
  next
    case 2
    with gone e show ?thesis by (simp add: sum_cents_def al_remove_def)
  next
    case 3
    with Cons.IH [OF rest] e show ?thesis by (auto simp: sum_cents_def al_remove_def)
  qed
qed (simp add: sum_cents_def al_remove_def)

lemma sum_cents_remove:
  assumes "distinct (map fst rs)"
  shows "sum_cents rs = sum_cents (al_remove i rs) + (case al_get rs i of Some h \<Rightarrow> cents h | None \<Rightarrow> 0)"
  using assms
proof (induction rs)
  case (Cons e rs)
  obtain k w where e: "e = (k, w)" by (cases e)
  have "al_remove k rs = rs" using Cons.prems e by (intro al_remove_absent) (simp add: map_of_eq_None_iff)
  moreover have "map_of rs k = None" using Cons.prems e by (simp add: map_of_eq_None_iff)
  ultimately show ?case using Cons e by (cases "k = i") (auto simp: sum_cents_def al_remove_def split: option.splits)
qed (simp add: sum_cents_def al_remove_def)



lemma sat64_le: "hi < u64_max \<Longrightarrow> sat64 (sat64 a r) c \<le> hi \<longleftrightarrow> a + r + c \<le> hi"
  by (auto simp: sat_add_def)

lemma reserved_exact: "sum_cents (reservations s) \<le> u64_max \<Longrightarrow> reserved_cents s = sum_cents (reservations s)"
  by (simp add: reserved_cents_def wrap64_def u64_max_def)

lemma step_limits: "limits (budget_step b e) = limits b"
  by (cases e) (simp_all add: book_reserve_def book_restore_def book_settle_def book_cancel_def book_expire_def
      reconcile_actual_def Let_def split: option.split)

lemma step_wf: "book_wf b \<Longrightarrow> book_wf (budget_step b e)"
  by (cases e) (auto simp: book_wf_def book_reserve_def book_restore_def book_settle_def book_cancel_def
      book_expire_def reconcile_actual_def Let_def bt_insert_wf bt.wf_remove bt.wf_retain split: option.split)

text \<open>
  What a run reports and records: \<open>reported_step\<close> keeps the spend the book was last told, at its start or by a report of
  the usage table; \<open>recorded_step\<close> adds to it every settlement that is accepted.
\<close>

fun reported_step :: "nat \<Rightarrow> budget_event \<Rightarrow> nat" where
  "reported_step r (ReconcileE spend) = spend"
| "reported_step r _ = r"

fun recorded_step :: "budget_book \<Rightarrow> nat \<Rightarrow> budget_event \<Rightarrow> nat" where
  "recorded_step b a (ReconcileE spend) = spend"
| "recorded_step b a (SettleE i c) = (if fst (book_settle b i c) = None then a + c else a)"
| "recorded_step b a _ = a"



definition spend_ok :: "budget_book \<times> nat \<times> nat \<Rightarrow> bool" where
  "spend_ok w \<longleftrightarrow> (case w of (b, r, a) \<Rightarrow> monthly_hard_cents (limits b) < u64_max \<and> actual_cents (state b) = a \<and> r \<le> a
     \<and> (a \<le> monthly_hard_cents (limits b) \<or> a = r))"

definition spend_step :: "budget_book \<times> nat \<times> nat \<Rightarrow> budget_event \<Rightarrow> budget_book \<times> nat \<times> nat" where
  "spend_step w e = (case w of (b, r, a) \<Rightarrow> (budget_step b e, reported_step r e, recorded_step b a e))"


lemma settle_actual:
  assumes "monthly_hard_cents (limits b) < u64_max"
  shows "fst (book_settle b i c) = None \<Longrightarrow> actual_cents (state (snd (book_settle b i c))) = actual_cents (state b) + c
      \<and> actual_cents (state b) + c \<le> monthly_hard_cents (limits b)"
    and "fst (book_settle b i c) \<noteq> None \<Longrightarrow> actual_cents (state (snd (book_settle b i c))) = actual_cents (state b)"
proof -
  show "actual_cents (state (snd (book_settle b i c))) = actual_cents (state b) + c
      \<and> actual_cents (state b) + c \<le> monthly_hard_cents (limits b)" if ok: "fst (book_settle b i c) = None"
  proof (cases "al_get (reservations (state b)) i")
    case (Some h)
    let ?r = "reserved_cents ((state b)\<lparr>reservations := al_remove i (reservations (state b))\<rparr>)"
    from ok Some have cap: "\<not> monthly_hard_cents (limits b) < sat64 (sat64 (actual_cents (state b)) ?r) c"
      by (simp add: book_settle_def Let_def split: if_splits)
    then have le: "actual_cents (state b) + c \<le> monthly_hard_cents (limits b)"
      using sat64_le [OF assms, of "actual_cents (state b)" ?r c] by linarith
    then have "sat64 (actual_cents (state b)) c = actual_cents (state b) + c" using assms by (simp add: sat_add_def)
    with cap le Some show ?thesis by (simp add: book_settle_def Let_def)
  qed (use ok in \<open>simp add: book_settle_def Let_def\<close>)
  show "actual_cents (state (snd (book_settle b i c))) = actual_cents (state b)" if "fst (book_settle b i c) \<noteq> None"
    using that by (auto simp: book_settle_def Let_def split: option.splits if_splits)
qed

lemma spend_step_ok:
  assumes "spend_ok w"
  shows "spend_ok (spend_step w e)"
proof -
  obtain b r a where w: "w = (b, r, a)" by (cases w)
  with assms have hard: "monthly_hard_cents (limits b) < u64_max" by (simp add: spend_ok_def)
  show ?thesis
  proof (cases e)
    case (SettleE i c)
    with assms w settle_actual [OF hard, of i c] step_limits [of b e] show ?thesis
      by (cases "fst (book_settle b i c)") (auto simp: spend_ok_def spend_step_def)
  qed (use assms w in \<open>auto simp: spend_ok_def spend_step_def book_reserve_def book_restore_def book_cancel_def
      book_expire_def reconcile_actual_def Let_def\<close>)
qed

lemma reserve_exact:
  assumes "book_wf b" and "sum_cents (reservations (state b)) \<le> u64_max"
  shows "fst (book_reserve b i c t) =
     (if per_request_hard_cents (limits b) < c then Some RequestCap
      else if i \<in> fst ` set (reservations (state b)) then Some DuplicateReservation
      else if monthly_hard_cents (limits b) < committed b + c then Some MonthlyHardCap
      else None)"
    and "fst (book_reserve b i c t) = None \<Longrightarrow> committed (snd (book_reserve b i c t)) = committed b + c
       \<and> al_get (reservations (state (snd (book_reserve b i c t)))) i = Some \<lparr>cents = c, hold_expires_at = t\<rparr>"
    and "fst (book_reserve b i c t) \<noteq> None \<Longrightarrow> snd (book_reserve b i c t) = b"
proof -
  have hard: "monthly_hard_cents (limits b) < u64_max" and wf: "bt_wf (reservations (state b))"
    using assms(1) by (simp_all add: book_wf_def)
  note [simp] = reserved_exact [OF assms(2)]
  have cap: "monthly_hard_cents (limits b) < sat64 (sat64 (actual_cents (state b)) (sum_cents (reservations (state b)))) c
      \<longleftrightarrow> monthly_hard_cents (limits b) < committed b + c"
    using sat64_le [OF hard, of "actual_cents (state b)" "sum_cents (reservations (state b))" c]
    by (simp add: committed_def not_le [symmetric])
  show "fst (book_reserve b i c t) =
     (if per_request_hard_cents (limits b) < c then Some RequestCap
      else if i \<in> fst ` set (reservations (state b)) then Some DuplicateReservation
      else if monthly_hard_cents (limits b) < committed b + c then Some MonthlyHardCap
      else None)"
    by (simp add: book_reserve_def Let_def cap al_has_def)
  show "committed (snd (book_reserve b i c t)) = committed b + c
       \<and> al_get (reservations (state (snd (book_reserve b i c t)))) i = Some \<lparr>cents = c, hold_expires_at = t\<rparr>"
    if ok: "fst (book_reserve b i c t) = None"
  proof -
    from ok have abs: "map_of (reservations (state b)) i = None"
      and r: "snd (book_reserve b i c t) = set_reservations b
        (bt_insert i \<lparr>cents = c, hold_expires_at = t\<rparr> (reservations (state b)))"
      by (auto simp: book_reserve_def Let_def al_has_iff split: if_splits)
    show ?thesis
      by (simp add: r committed_def sum_cents_insert [OF wf] al_remove_absent [OF abs] bt_insert_get)
  qed
  show "snd (book_reserve b i c t) = b" if "fst (book_reserve b i c t) \<noteq> None"
    using that by (auto simp: book_reserve_def Let_def split: if_splits)
qed

lemma settle_cases:
  assumes "book_wf b" and "sum_cents (reservations (state b)) \<le> u64_max"
    and h: "al_get (reservations (state b)) i = Some h"
  shows "fst (book_settle b i c) = None \<Longrightarrow> committed (snd (book_settle b i c)) + cents h = committed b + c"
    and "fst (book_settle b i c) \<noteq> None \<longleftrightarrow> monthly_hard_cents (limits b) < committed b - cents h + c"
    and "fst (book_settle b i c) \<noteq> None \<Longrightarrow> committed (snd (book_settle b i c)) = committed b - cents h + max (cents h) c"
proof -
  let ?rs = "reservations (state b)"
  have hard: "monthly_hard_cents (limits b) < u64_max" and wf: "bt_wf ?rs"
    using assms(1) by (simp_all add: book_wf_def)
  have sum: "sum_cents ?rs = sum_cents (al_remove i ?rs) + cents h"
    using sum_cents_remove [OF bt_wf_distinct [OF wf], of i] h by simp
  then have le: "sum_cents (al_remove i ?rs) \<le> u64_max" using assms(2) by simp
  have res: "reserved_cents ((state b)\<lparr>reservations := al_remove i ?rs\<rparr>) = sum_cents (al_remove i ?rs)"
    using reserved_exact [of "(state b)\<lparr>reservations := al_remove i ?rs\<rparr>"] le by simp
  have cap: "monthly_hard_cents (limits b) < sat64 (sat64 (actual_cents (state b)) (sum_cents (al_remove i ?rs))) c
      \<longleftrightarrow> monthly_hard_cents (limits b) < committed b - cents h + c"
    using sat64_le [OF hard, of "actual_cents (state b)" "sum_cents (al_remove i ?rs)" c] sum
    by (simp add: committed_def not_le [symmetric])
  show "fst (book_settle b i c) \<noteq> None \<longleftrightarrow> monthly_hard_cents (limits b) < committed b - cents h + c"
    by (simp add: book_settle_def Let_def h res cap)
  have gone: "al_remove i (al_remove i ?rs) = al_remove i ?rs" by (simp add: al_remove_def)
  show "committed (snd (book_settle b i c)) = committed b - cents h + max (cents h) c" if "fst (book_settle b i c) \<noteq> None"
    using that sum by (auto simp: book_settle_def Let_def h res cap committed_def
        sum_cents_insert [OF bt.wf_remove [OF wf]] gone split: if_splits)
  show "committed (snd (book_settle b i c)) + cents h = committed b + c" if "fst (book_settle b i c) = None"
  proof -
    from that have "actual_cents (state b) + c \<le> u64_max" using cap hard sum
      by (auto simp: book_settle_def Let_def h res committed_def split: if_splits)
    with that sum show ?thesis by (auto simp: book_settle_def Let_def h res committed_def sat_add_def split: if_splits)
  qed
qed





interpretation spend: transition_system spend_step spend_ok
  by unfold_locales (rule spend_step_ok)








lemma restore_get:
  assumes "bt_wf (reservations (state b))"
  shows "\<exists>h. al_get (reservations (state (book_restore b i c t))) i = Some h \<and> c \<le> cents h \<and> t \<le> hold_expires_at h"
    and "al_get (reservations (state b)) j = Some h \<Longrightarrow>
      \<exists>h'. al_get (reservations (state (book_restore b i c t))) j = Some h' \<and> cents h \<le> cents h'
         \<and> hold_expires_at h \<le> hold_expires_at h'"
    and "bt_wf (reservations (state (book_restore b i c t)))"
  using assms by (auto simp: book_restore_def Let_def bt_insert_get bt_insert_wf)

abbreviation restore_all :: "int \<Rightarrow> budget_book \<Rightarrow> durable_hold list \<Rightarrow> budget_book" where
  "restore_all now \<equiv> foldl (\<lambda>bk h. book_restore bk (dh_id h) (dh_cents h) (now + dh_remaining h))"

lemma restores_keep:
  assumes "bt_wf (reservations (state b))" and "al_get (reservations (state b)) j = Some h0"
  shows "\<exists>h. al_get (reservations (state (restore_all now b ds))) j = Some h
      \<and> cents h0 \<le> cents h \<and> hold_expires_at h0 \<le> hold_expires_at h"
  using assms
proof (induction ds arbitrary: b h0)
  case (Cons d ds)
  let ?b = "book_restore b (dh_id d) (dh_cents d) (now + dh_remaining d)"
  obtain h where h: "al_get (reservations (state ?b)) j = Some h" "cents h0 \<le> cents h"
    "hold_expires_at h0 \<le> hold_expires_at h" using restore_get(2) [OF Cons.prems] by blast
  from Cons.IH [OF restore_get(3) [OF Cons.prems(1)] h(1)] h(2,3) show ?case by (auto intro: order.trans)
qed simp

lemma restores_count:
  assumes "bt_wf (reservations (state b))" and "d \<in> set ds"
  shows "\<exists>h. al_get (reservations (state (restore_all now b ds))) (dh_id d) = Some h
      \<and> dh_cents d \<le> cents h \<and> now + dh_remaining d \<le> hold_expires_at h"
  using assms
proof (induction ds arbitrary: b)
  case (Cons x ds)
  let ?b = "book_restore b (dh_id x) (dh_cents x) (now + dh_remaining x)"
  have wf: "bt_wf (reservations (state ?b))" by (rule restore_get(3) [OF Cons.prems(1)])
  show ?case
  proof (cases "d = x")
    case True
    obtain h where h: "al_get (reservations (state ?b)) (dh_id x) = Some h" "dh_cents x \<le> cents h"
      "now + dh_remaining x \<le> hold_expires_at h" using restore_get(1) [OF Cons.prems(1)] by blast
    from restores_keep [OF wf h(1), of now ds] h(2,3) True show ?thesis by (auto intro: order.trans)
  next
    case False
    with Cons.IH [OF wf] Cons.prems(2) show ?thesis by simp
  qed
qed simp

lemma cancel_undoes_reserve:
  assumes wf: "bt_wf (reservations (state b))" and ok: "fst (book_reserve b i c t) = None"
  shows "snd (book_cancel (snd (book_reserve b i c t)) i) = b"
proof -
  from ok have abs: "map_of (reservations (state b)) i = None"
    and r: "snd (book_reserve b i c t) = set_reservations b
      (bt_insert i \<lparr>cents = c, hold_expires_at = t\<rparr> (reservations (state b)))"
    by (auto simp: book_reserve_def Let_def al_has_iff split: if_splits)
  have "al_remove i (bt_insert i v m) = m" if "map_of m i = None" for v and m :: "(string \<times> hold) list"
    using that
  proof (induction m)
    case (Cons e m)
    then show ?case by (cases e) (auto simp: al_remove_def al_remove_absent [unfolded al_remove_def] split: if_splits)
  qed (simp add: al_remove_def)
  from this [OF abs] show ?thesis by (simp add: r book_cancel_def set_reservations_def)
qed

section \<open>Properties\<close>


definition demo_limits :: budget_limits where
  "demo_limits = \<lparr>monthly_soft_cents = 80, monthly_hard_cents = 100, per_request_hard_cents = 40\<rparr>"

lemmas budget_eval = demo_limits_def book_new_def book_reserve_def book_settle_def book_cancel_def book_expire_def
  reserved_cents_def sum_cents_def set_reservations_def




text \<open>
  A settlement that would break the cap is not recorded but kept as a hold of the larger
  amount, and from then on every reservation is refused, as long as the holds add up to less
  than \<open>2 ^ 64\<close> cents.
\<close>

theorem overrun_blocks_reservations:
  assumes "book_wf b" and "sum_cents (reservations (state b)) \<le> u64_max"
    and over: "fst (book_settle b i c) = Some MonthlyHardCap"
    and "sum_cents (reservations (state (snd (book_settle b i c)))) \<le> u64_max"
  shows "actual_cents (state (snd (book_settle b i c))) = actual_cents (state b)
    \<and> fst (book_reserve (snd (book_settle b i c)) j p t) \<noteq> None"
proof -
  let ?b = "snd (book_settle b i c)"
  from over obtain h where h: "al_get (reservations (state b)) i = Some h"
    by (cases "al_get (reservations (state b)) i") (simp_all add: book_settle_def Let_def)
  have wf: "book_wf ?b" using step_wf [OF assms(1), of "SettleE i c"] by simp
  have "limits ?b = limits b" using step_limits [of b "SettleE i c"] by simp
  moreover have "monthly_hard_cents (limits b) < committed b - cents h + c"
    using settle_cases(2) [OF assms(1,2) h, of c] over by simp
  moreover have "committed ?b = committed b - cents h + max (cents h) c"
    using settle_cases(3) [OF assms(1,2) h, of c] over by simp
  ultimately have "monthly_hard_cents (limits ?b) < committed ?b" by simp
  then have "fst (book_reserve ?b j p t) \<noteq> None" using reserve_exact(1) [OF wf assms(4), of j p t] by simp
  moreover have "actual_cents (state ?b) = actual_cents (state b)"
    using over h by (auto simp: book_settle_def Let_def split: if_splits)
  ultimately show ?thesis by simp
qed

theorem overrun_blocks_reservations_witness:
  "fst (book_settle (snd (book_reserve (book_new demo_limits 30) ''a'' 40 10)) ''a'' 90) = Some MonthlyHardCap
   \<and> fst (book_reserve (snd (book_settle (snd (book_reserve (book_new demo_limits 30) ''a'' 40 10)) ''a'' 90)) ''b'' 1 9)
       \<noteq> None"
proof -
  let ?b = "snd (book_reserve (book_new demo_limits 30) ''a'' 40 10)"
  have w: "book_wf ?b" by (simp add: book_wf_def bt_wf_def budget_eval eval_simps)
  have s: "sum_cents (reservations (state ?b)) \<le> u64_max" by (simp add: budget_eval eval_simps)
  have o: "fst (book_settle ?b ''a'' 90) = Some MonthlyHardCap" by (simp add: budget_eval eval_simps)
  have s': "sum_cents (reservations (state (snd (book_settle ?b ''a'' 90)))) \<le> u64_max" by (simp add: budget_eval eval_simps)
  show ?thesis using overrun_blocks_reservations [OF w s o s', of "''b''" 1 9] o by simp
qed

text \<open>
  The sum of the holds wraps at \<open>2 ^ 64\<close>: with a second hold outstanding, an over-cap settlement
  of the largest amount leaves a book that admits reservations again.
\<close>

lemma reserved_sum_wraps:
  "let b = foldl budget_step (book_new demo_limits 0) [ReserveE ''a'' 5 10, ReserveE ''b'' 5 10, SettleE ''a'' u64_max]
   in reserved_cents (state b) = 4 \<and> fst (book_reserve b ''c'' 40 10) = None"
  by (simp add: budget_eval eval_simps)

text \<open>
  No durable row, no reservation: the gate reports success exactly when the book admitted
  the request and the row was written; a refused, failed or timed-out write leaves the book as
  it was.
\<close>

theorem gate_reserve_all_or_nothing:
  assumes "bt_wf (reservations (state b))"
  shows "(fst (gate_reserve b i c ttl now create) = None \<longleftrightarrow>
            fst (book_reserve b i c (now + ttl)) = None \<and> (\<exists>u. create = DbOk u))
    \<and> (fst (gate_reserve b i c ttl now create) \<noteq> None \<longrightarrow> snd (gate_reserve b i c ttl now create) = b)
    \<and> (fst (gate_reserve b i c ttl now create) = None \<longrightarrow>
         al_get (reservations (state (snd (gate_reserve b i c ttl now create)))) i
           = Some \<lparr>cents = c, hold_expires_at = now + ttl\<rparr>)"
proof -
  obtain r b' where rb: "book_reserve b i c (now + ttl) = (r, b')" by fastforce
  show ?thesis
  proof (cases r)
    case None
    then have "al_get (reservations (state b')) i = Some \<lparr>cents = c, hold_expires_at = now + ttl\<rparr>"
      using rb by (auto simp: book_reserve_def Let_def bt_insert_get split: if_splits)
    with None rb cancel_undoes_reserve [OF assms, of i c "now + ttl"] show ?thesis
      by (cases create) (simp_all add: gate_reserve_def)
  next
    case (Some e)
    then have "b' = b" using rb by (auto simp: book_reserve_def Let_def split: if_splits)
    with Some rb show ?thesis by (simp add: gate_reserve_def)
  qed
qed

theorem gate_reserve_all_or_nothing_witness:
  "fst (gate_reserve (book_new demo_limits 30) ''a'' 40 10 0 DbTimeout) = Some GateStore
   \<and> snd (gate_reserve (book_new demo_limits 30) ''a'' 40 10 0 DbTimeout) = book_new demo_limits 30"
proof -
  have "bt_wf (reservations (state (book_new demo_limits 30)))" by (simp add: book_new_def bt_wf_def)
  from gate_reserve_all_or_nothing [OF this, of "''a''" 40 10 0 DbTimeout] show ?thesis
    by (simp add: gate_reserve_def budget_eval eval_simps)
qed

text \<open>
  A restart never undercounts: when startup succeeds, every durable hold the store
  returned is in the book with at least its amount and lifetime, and no hold already in the
  book shrinks; a failed, timed-out or truncated answer aborts startup.
\<close>

theorem reconcile_adopts_every_hold:
  assumes "bt_wf (reservations (state b))" and "gate_reconcile b now expired rows = Some b'"
  shows "\<exists>holds. rows = DbOk holds \<and> length holds \<le> 10000
    \<and> (\<forall>d \<in> set holds. \<exists>h. al_get (reservations (state b')) (dh_id d) = Some h
          \<and> dh_cents d \<le> cents h \<and> now + dh_remaining d \<le> hold_expires_at h)
    \<and> (\<forall>j h0. al_get (reservations (state b)) j = Some h0 \<longrightarrow>
          (\<exists>h. al_get (reservations (state b')) j = Some h \<and> cents h0 \<le> cents h))"
proof -
  from assms(2) obtain u holds where r: "expired = DbOk u" "rows = DbOk holds" "length holds \<le> 10000"
    and b': "b' = foldl (\<lambda>bk h. book_restore bk (dh_id h) (dh_cents h) (now + dh_remaining h)) b holds"
    by (auto simp: gate_reconcile_def MAX_ACTIVE_ON_START_def split: db.splits if_splits)
  have k: "\<exists>h. al_get (reservations (state b')) j = Some h \<and> cents h0 \<le> cents h"
    if "al_get (reservations (state b)) j = Some h0" for j h0
    using restores_keep [OF assms(1) that, of now holds] unfolding b' by blast
  have c: "\<exists>h. al_get (reservations (state b')) (dh_id d) = Some h \<and> dh_cents d \<le> cents h
      \<and> now + dh_remaining d \<le> hold_expires_at h" if "d \<in> set holds" for d
    unfolding b' by (rule restores_count [OF assms(1) that])
  show ?thesis
    by (intro exI [of _ holds] conjI ballI allI impI) (use r in simp, use r in simp, rule c, assumption, rule k)
qed

theorem reconcile_adopts_every_hold_witness:
  "\<exists>b' h. gate_reconcile (book_new demo_limits 30) 0 (DbOk ()) (DbOk [active_row (''a'', 35, 9)]) = Some b'
     \<and> al_get (reservations (state b')) ''a'' = Some h \<and> 35 \<le> cents h"
proof -
  have w: "bt_wf (reservations (state (book_new demo_limits 30)))" by (simp add: book_new_def bt_wf_def)
  obtain b' where b': "gate_reconcile (book_new demo_limits 30) 0 (DbOk ()) (DbOk [active_row (''a'', 35, 9)]) = Some b'"
    by (simp add: gate_reconcile_def MAX_ACTIVE_ON_START_def)
  from reconcile_adopts_every_hold [OF w b'] b' show ?thesis by (auto simp: active_row_def)
qed

end
