(* ===== verification/Pricing.thy ===== *)
theory Pricing
  imports Strings
begin

text \<open>
  \<^verbatim>\<open>src/crates/usage/src/lib.rs\<close>: billing classes, the pricing registry and its merge with the
  release baseline, the cost of a call and the estimate of a task.

  An \<open>f64\<close> is a finite value (its exact rational), an infinity or not-a-number; comparisons with
  the latter are false. Arithmetic computes exactly and rounds with \<open>rnd\<close>, the IEEE rounding to
  nearest; the facts used about it are the hypothesis \<open>ieee rnd\<close>. The release baseline and the
  two historical default catalogs are data files and are parameters.
\<close>

section \<open>Floating point\<close>

datatype f64 = Fin rat | Inf bool | NaN

fun is_finite :: "f64 \<Rightarrow> bool" where
  "is_finite (Fin x) = True"
| "is_finite (Inf _) = False"
| "is_finite NaN = False"

text \<open>\<open>a < b\<close>; \<open>Inf True\<close> is negative.\<close>

fun f64_less :: "f64 \<Rightarrow> f64 \<Rightarrow> bool" where
  "f64_less (Fin x) (Fin y) \<longleftrightarrow> x < y"
| "f64_less (Inf s) (Fin y) \<longleftrightarrow> s"
| "f64_less (Fin x) (Inf s) \<longleftrightarrow> \<not> s"
| "f64_less (Inf s) (Inf t) \<longleftrightarrow> s \<and> \<not> t"
| "f64_less _ _ \<longleftrightarrow> False"

fun f64_mul :: "(rat \<Rightarrow> f64) \<Rightarrow> f64 \<Rightarrow> f64 \<Rightarrow> f64" where
  "f64_mul rnd (Fin x) (Fin y) = rnd (x * y)"
| "f64_mul rnd (Inf s) (Fin y) = (if y = 0 then NaN else Inf (s \<noteq> (y < 0)))"
| "f64_mul rnd (Fin x) (Inf s) = (if x = 0 then NaN else Inf (s \<noteq> (x < 0)))"
| "f64_mul rnd (Inf s) (Inf t) = Inf (s \<noteq> t)"
| "f64_mul rnd _ _ = NaN"

fun f64_add :: "(rat \<Rightarrow> f64) \<Rightarrow> f64 \<Rightarrow> f64 \<Rightarrow> f64" where
  "f64_add rnd (Fin x) (Fin y) = rnd (x + y)"
| "f64_add rnd (Inf s) (Fin y) = Inf s"
| "f64_add rnd (Fin x) (Inf s) = Inf s"
| "f64_add rnd (Inf s) (Inf t) = (if s = t then Inf s else NaN)"
| "f64_add rnd _ _ = NaN"

text \<open>What is used of the rounding: monotone, exact on integers of \<open>u32\<close> size and on its own results.\<close>

definition ieee :: "(rat \<Rightarrow> f64) \<Rightarrow> bool" where
  "ieee rnd \<longleftrightarrow>
     (\<forall>x. rnd x \<noteq> NaN) \<and> (\<forall>x y. x \<le> y \<longrightarrow> \<not> f64_less (rnd y) (rnd x))
   \<and> (\<forall>n. n < 2 ^ 32 \<longrightarrow> rnd (of_nat n) = Fin (of_nat n)) \<and> (\<forall>x y. rnd x = Fin y \<longrightarrow> rnd y = Fin y)"

section \<open>Billing classes\<close>

definition METERED_BACKENDS :: "string list" where
  "METERED_BACKENDS = [''anthropic-api'', ''openai-api'', ''deepseek-api'', ''xai-api'', ''zai-api'',
     ''ollama-cloud'', ''huggingface'', ''jev'']"

datatype compute_class = Local | Subscription | MeteredApi | UnknownClass

definition compute_class_of :: "string \<Rightarrow> compute_class" where
  "compute_class_of backend =
     (if backend \<in> set METERED_BACKENDS then MeteredApi
      else if backend = ''ollama'' \<or> backend = ''laya'' then Local
      else if backend = ''claude-cli'' \<or> backend = ''codex'' \<or> backend = ''codex-cli'' then Subscription
      else UnknownClass)"

definition is_metered :: "string \<Rightarrow> bool" where
  "is_metered backend \<longleftrightarrow> compute_class_of backend = MeteredApi"

section \<open>The registry\<close>

record price =
  input_price :: f64
  output_price :: f64
  cache_read_price :: f64

definition price_new :: "rat \<Rightarrow> rat \<Rightarrow> price" where
  "price_new i out = \<lparr>input_price = Fin i, output_price = Fin out, cache_read_price = Fin i\<rparr>"

datatype price_status = Known | Estimated | Conservative | UnknownPrice | LocalPrice | SubscriptionPrice

record long_context_price =
  from_input_tokens :: nat
  lc_input :: f64
  lc_output :: f64
  lc_cache_read :: f64

record pricing_entry =
  provider :: string
  model :: string
  input_per_million_usd :: f64
  output_per_million_usd :: f64
  cache_read_per_million_usd :: "f64 option"
  entry_status :: price_status
  pricing_source :: "string option"
  pricing_updated_at :: "string option"
  pricing_notes :: "string option"
  long_context :: "long_context_price option"
  owner_override :: bool

record pricing_registry =
  reg_version :: nat
  source :: string
  updated_at :: string
  models :: "pricing_entry list"

definition bad_price :: "f64 \<Rightarrow> bool" where
  "bad_price p \<longleftrightarrow> \<not> is_finite p \<or> f64_less p (Fin 0)"

definition bad_tier :: "pricing_entry \<Rightarrow> long_context_price \<Rightarrow> bool" where
  "bad_tier e t \<longleftrightarrow> from_input_tokens t = 0
     \<or> list_ex bad_price [lc_input t, lc_output t, lc_cache_read t]
     \<or> f64_less (lc_input t) (input_per_million_usd e)
     \<or> f64_less (lc_output t) (output_per_million_usd e)"

definition bad_entry :: "pricing_entry \<Rightarrow> bool" where
  "bad_entry e \<longleftrightarrow> trim_is_empty (provider e) \<or> trim_is_empty (model e)
     \<or> \<not> is_finite (input_per_million_usd e) \<or> \<not> is_finite (output_per_million_usd e)
     \<or> f64_less (input_per_million_usd e) (Fin 0) \<or> f64_less (output_per_million_usd e) (Fin 0)
     \<or> (case cache_read_per_million_usd e of None \<Rightarrow> False | Some p \<Rightarrow> bad_price p)
     \<or> (case long_context e of None \<Rightarrow> False | Some t \<Rightarrow> bad_tier e t)"

definition pair_of :: "pricing_entry \<Rightarrow> string \<times> string" where
  "pair_of e = (provider e, model e)"

fun entries_ok :: "(string \<times> string) list \<Rightarrow> pricing_entry list \<Rightarrow> bool" where
  "entries_ok seen [] = True"
| "entries_ok seen (e # es) =
     (if bad_entry e \<or> pair_of e \<in> set seen then False else entries_ok (pair_of e # seen) es)"

definition registry_validate :: "pricing_registry \<Rightarrow> (string, unit) res" where
  "registry_validate r =
     (if reg_version r \<noteq> 1 \<or> trim_is_empty (source r) \<or> trim_is_empty (updated_at r)
      then Err ''unsupported or incomplete pricing registry''
      else if \<not> entries_ok [] (models r) then Err ''pricing registry contains an invalid or duplicate entry''
      else Ok ())"

definition bind_provenance :: "pricing_registry \<Rightarrow> pricing_registry" where
  "bind_provenance r = r\<lparr>models := map (\<lambda>e. e\<lparr>
     pricing_source := (case pricing_source e of None \<Rightarrow> Some (source r) | Some x \<Rightarrow> Some x),
     pricing_updated_at := (case pricing_updated_at e of None \<Rightarrow> Some (updated_at r) | Some x \<Rightarrow> Some x)\<rparr>)
     (models r)\<rparr>"

definition drop_legacy :: "pricing_registry \<Rightarrow> pricing_registry \<Rightarrow> pricing_registry" where
  "drop_legacy r legacy =
     (if source r = source legacy \<and> updated_at r = updated_at legacy
      then r\<lparr>models := filter (\<lambda>e. owner_override e \<or> e \<notin> set (models legacy)) (models r)\<rparr>
      else r)"

text \<open>The loop that adds the release entries whose pair is missing.\<close>

definition add_missing :: "pricing_entry list \<Rightarrow> pricing_entry list \<Rightarrow> pricing_entry list" where
  "add_missing ms new = foldl (\<lambda>acc e.
     if list_ex (\<lambda>c. provider c = provider e \<and> model c = model e) acc then acc else acc @ [e]) ms new"

definition merge_release :: "pricing_registry \<Rightarrow> pricing_registry \<Rightarrow> pricing_registry" where
  "merge_release r builtin =
     (let ms = add_missing (models r) (models builtin) in
      if length ms = length (models r) then r\<lparr>models := ms\<rparr>
      else r\<lparr>models := ms, source := source r @ '' + '' @ source builtin,
             updated_at := (if updated_at builtin > updated_at r then updated_at builtin else updated_at r)\<rparr>)"

definition with_release ::
  "pricing_registry list \<Rightarrow> pricing_registry \<Rightarrow> pricing_registry \<Rightarrow> (string, pricing_registry) res" where
  "with_release legacies r builtin =
     bind_res (registry_validate r) (\<lambda>_.
     bind_res (registry_validate builtin) (\<lambda>_.
     let r' = merge_release (bind_provenance (foldl drop_legacy r legacies)) builtin
     in bind_res (registry_validate r') (\<lambda>_. Ok r')))"

definition find_entry :: "pricing_registry \<Rightarrow> string \<Rightarrow> string \<Rightarrow> pricing_entry option" where
  "find_entry r backend mdl = find (\<lambda>e. provider e = backend \<and> model e = mdl) (models r)"

definition registry_price_for :: "pricing_registry \<Rightarrow> string \<Rightarrow> string \<Rightarrow> price \<times> price_status" where
  "registry_price_for r backend mdl =
     (case compute_class_of backend of
        Local \<Rightarrow> (price_new 0 0, LocalPrice)
      | Subscription \<Rightarrow> (price_new 0 0, SubscriptionPrice)
      | UnknownClass \<Rightarrow> (price_new 3 15, UnknownPrice)
      | MeteredApi \<Rightarrow>
          (case find_entry r backend mdl of
             Some e \<Rightarrow> (\<lparr>input_price = input_per_million_usd e, output_price = output_per_million_usd e,
                 cache_read_price = (case cache_read_per_million_usd e of
                    Some p \<Rightarrow> p | None \<Rightarrow> input_per_million_usd e)\<rparr>, entry_status e)
           | None \<Rightarrow>
               if backend = ''huggingface''
               then (\<lparr>input_price = Fin 1000000, output_price = Fin 1000000, cache_read_price = Fin 1000000\<rparr>,
                     UnknownPrice)
               else (price_new 3 15, UnknownPrice)))"

section \<open>Costs\<close>

definition per_mtok :: "(rat \<Rightarrow> f64) \<Rightarrow> nat \<Rightarrow> f64 \<Rightarrow> f64" where
  "per_mtok rnd toks usd = f64_mul rnd (rnd (of_nat toks / 1000000)) usd"

definition call_price :: "pricing_registry \<Rightarrow> string \<Rightarrow> string \<Rightarrow> nat \<Rightarrow> nat \<Rightarrow> price" where
  "call_price r backend mdl input_tokens cache_read_tokens =
     (case Option.bind (find_entry r backend mdl) long_context of
        Some t \<Rightarrow>
          if sat_add u32_max input_tokens cache_read_tokens \<ge> from_input_tokens t
          then \<lparr>input_price = lc_input t, output_price = lc_output t, cache_read_price = lc_cache_read t\<rparr>
          else fst (registry_price_for r backend mdl)
      | None \<Rightarrow> fst (registry_price_for r backend mdl))"

definition cost_eur_with_registry ::
  "(rat \<Rightarrow> f64) \<Rightarrow> pricing_registry \<Rightarrow> string \<Rightarrow> string \<Rightarrow> nat \<Rightarrow> nat \<Rightarrow> nat \<Rightarrow> f64 \<Rightarrow> f64" where
  "cost_eur_with_registry rnd r backend mdl input_tokens output_tokens cache_read_tokens eur_per_usd =
     (if compute_class_of backend \<in> {Local, Subscription} then Fin 0
      else let p = call_price r backend mdl input_tokens cache_read_tokens;
               usd = f64_add rnd (f64_add rnd (per_mtok rnd input_tokens (input_price p))
                                              (per_mtok rnd output_tokens (output_price p)))
                                 (per_mtok rnd cache_read_tokens (cache_read_price p))
           in f64_mul rnd usd eur_per_usd)"

record cost_estimate =
  low_eur :: f64
  likely_eur :: f64
  high_eur :: f64
  est_price_status :: price_status

definition low_factor :: "(rat \<Rightarrow> f64) \<Rightarrow> price_status \<Rightarrow> f64" where
  "low_factor rnd st = (if st \<in> {UnknownPrice, Conservative} then Fin 1 else rnd (6 / 10))"

definition high_factor :: "(rat \<Rightarrow> f64) \<Rightarrow> price_status \<Rightarrow> f64" where
  "high_factor rnd st =
     (if st = UnknownPrice then rnd (25 / 10)
      else if st \<in> {Estimated, Known} then rnd (16 / 10) else Fin 1)"

definition estimate_task_cost_with_registry ::
  "(rat \<Rightarrow> f64) \<Rightarrow> pricing_registry \<Rightarrow> string \<Rightarrow> string \<Rightarrow> nat \<Rightarrow> nat \<Rightarrow> nat \<Rightarrow> f64 \<Rightarrow> cost_estimate" where
  "estimate_task_cost_with_registry rnd r backend mdl input_per_call output_per_call calls eur_per_usd =
     (let likely = f64_mul rnd
            (cost_eur_with_registry rnd r backend mdl input_per_call output_per_call 0 eur_per_usd) (Fin (of_nat calls));
          st = snd (registry_price_for r backend mdl)
      in \<lparr>low_eur = f64_mul rnd likely (low_factor rnd st), likely_eur = likely,
          high_eur = f64_mul rnd likely (high_factor rnd st), est_price_status = st\<rparr>)"

section \<open>Lemmas on registries\<close>

lemma entries_ok_iff: "entries_ok seen es \<longleftrightarrow>
    (\<forall>e \<in> set es. \<not> bad_entry e \<and> pair_of e \<notin> set seen) \<and> distinct (map pair_of es)"
proof (induction es arbitrary: seen)
  case (Cons e es)
  have "(\<forall>x \<in> set es. pair_of x \<notin> set (pair_of e # seen)) \<longleftrightarrow>
      pair_of e \<notin> pair_of ` set es \<and> (\<forall>x \<in> set es. pair_of x \<notin> set seen)" by (auto simp: in_image_iff)
  then show ?case using Cons.IH [of "pair_of e # seen"] by auto
qed simp

lemma registry_validate_iff: "registry_validate r = Ok () \<longleftrightarrow>
    reg_version r = 1 \<and> \<not> trim_is_empty (source r) \<and> \<not> trim_is_empty (updated_at r)
    \<and> (\<forall>e \<in> set (models r). \<not> bad_entry e) \<and> distinct (map pair_of (models r))"
  by (simp add: registry_validate_def entries_ok_iff)

lemma drop_legacy_facts:
  "source (drop_legacy r l) = source r" "updated_at (drop_legacy r l) = updated_at r"
  "reg_version (drop_legacy r l) = reg_version r"
  "\<exists>p. models (drop_legacy r l) = filter p (models r)
     \<and> (\<forall>e. p e \<or> (\<not> owner_override e \<and> e \<in> set (models l)))"
  by (auto simp: drop_legacy_def intro: exI [of _ "\<lambda>_. True"])

lemma drop_legacies_facts:
  "source (foldl drop_legacy r ls) = source r" "updated_at (foldl drop_legacy r ls) = updated_at r"
  "reg_version (foldl drop_legacy r ls) = reg_version r"
  "\<exists>p. models (foldl drop_legacy r ls) = filter p (models r)
     \<and> (\<forall>e. p e \<or> (\<not> owner_override e \<and> (\<exists>l \<in> set ls. e \<in> set (models l))))"
proof (induction ls arbitrary: r)
  case (Cons l ls)
  { case 1 show ?case using Cons(1) [of "drop_legacy r l"] by (simp add: drop_legacy_facts) }
  { case 2 show ?case using Cons(2) [of "drop_legacy r l"] by (simp add: drop_legacy_facts) }
  { case 3 show ?case using Cons(3) [of "drop_legacy r l"] by (simp add: drop_legacy_facts) }
  {
    case 4
    obtain p where p: "models (drop_legacy r l) = filter p (models r)"
      "\<forall>e. p e \<or> (\<not> owner_override e \<and> e \<in> set (models l))" using drop_legacy_facts(4) by blast
    obtain q where q: "models (foldl drop_legacy (drop_legacy r l) ls) = filter q (models (drop_legacy r l))"
      "\<forall>e. q e \<or> (\<not> owner_override e \<and> (\<exists>l \<in> set ls. e \<in> set (models l)))" using Cons(4) by blast
    show ?case
      by (rule exI [of _ "\<lambda>e. p e \<and> q e"]) (use p q in auto)
  }
qed (auto intro: exI [of _ "\<lambda>_. True"])

text \<open>Binding provenance changes only the two provenance fields.\<close>

definition bound :: "pricing_registry \<Rightarrow> pricing_entry \<Rightarrow> pricing_entry" where
  "bound r e = e\<lparr>
     pricing_source := (case pricing_source e of None \<Rightarrow> Some (source r) | Some x \<Rightarrow> Some x),
     pricing_updated_at := (case pricing_updated_at e of None \<Rightarrow> Some (updated_at r) | Some x \<Rightarrow> Some x)\<rparr>"

lemma bound_facts [simp]:
  "pair_of (bound r e) = pair_of e" "bad_entry (bound r e) = bad_entry e"
  "provider (bound r e) = provider e" "model (bound r e) = model e"
proof -
  have "bad_tier (bound r e) t = bad_tier e t" for t by (simp add: bound_def bad_tier_def)
  then show "bad_entry (bound r e) = bad_entry e"
    by (simp add: bad_entry_def cong: option.case_cong) (simp add: bound_def)
qed (simp_all add: bound_def pair_of_def)

lemma bind_provenance_models: "models (bind_provenance r) = map (bound r) (models r)"
  by (simp add: bind_provenance_def bound_def)

lemma add_missing_facts:
  assumes "distinct (map pair_of ms)"
  shows "distinct (map pair_of (add_missing ms new))
    \<and> set (add_missing ms new) \<subseteq> set ms \<union> set new
    \<and> pair_of ` set (add_missing ms new) = pair_of ` set ms \<union> pair_of ` set new
    \<and> (\<exists>rest. add_missing ms new = ms @ rest)"
  using assms
proof (induction new arbitrary: ms)
  case (Cons e new)
  let ?a = "if list_ex (\<lambda>c. provider c = provider e \<and> model c = model e) ms then ms else ms @ [e]"
  have step: "add_missing ms (e # new) = add_missing ?a new" by (simp add: add_missing_def)
  have ex: "list_ex (\<lambda>c. provider c = provider e \<and> model c = model e) ms \<longleftrightarrow> pair_of e \<in> pair_of ` set ms"
    by (auto simp: list_ex_iff pair_of_def in_image_iff)
  have "distinct (map pair_of ?a)" using Cons.prems by (auto simp: ex)
  from Cons.IH [OF this] ex show ?case unfolding step by (auto split: if_splits)
qed (simp add: add_missing_def)

lemma merge_release_facts:
  "models (merge_release r b) = add_missing (models r) (models b)"
  "reg_version (merge_release r b) = reg_version r"
  "updated_at (merge_release r b) \<in> {updated_at r, updated_at b}"
  "source (merge_release r b) \<in> {source r, source r @ '' + '' @ source b}"
  by (simp_all add: merge_release_def Let_def)

section \<open>Lemmas on costs\<close>

text \<open>A non-negative amount: finite and at least zero, or positive infinity.\<close>

fun nonneg :: "f64 \<Rightarrow> bool" where
  "nonneg (Fin x) \<longleftrightarrow> 0 \<le> x"
| "nonneg (Inf s) \<longleftrightarrow> \<not> s"
| "nonneg NaN \<longleftrightarrow> False"

text \<open>A usable price or rate: finite and not negative.\<close>

definition usable :: "f64 \<Rightarrow> bool" where
  "usable p \<longleftrightarrow> (\<exists>x. p = Fin x \<and> 0 \<le> x)"

lemma usable_iff: "usable p \<longleftrightarrow> \<not> bad_price p"
  by (cases p) (auto simp: usable_def bad_price_def)

lemma rnd_nonneg:
  assumes "ieee rnd" and "0 \<le> x"
  shows "nonneg (rnd x)"
proof -
  have z: "rnd 0 = Fin 0" using assms(1) unfolding ieee_def by (metis of_nat_0 zero_less_numeral zero_less_power)
  have "\<not> f64_less (rnd x) (rnd 0)" "rnd x \<noteq> NaN" using assms unfolding ieee_def by blast+
  then show ?thesis by (cases "rnd x") (auto simp: z)
qed

lemma add_nonneg_f64: "ieee rnd \<Longrightarrow> nonneg a \<Longrightarrow> nonneg b \<Longrightarrow> nonneg (f64_add rnd a b)"
  by (cases a; cases b) (auto simp: rnd_nonneg)

text \<open>The product of an amount and a usable rate: an infinite amount times zero is not a number.\<close>

lemma mul_nonneg_f64: "ieee rnd \<Longrightarrow> nonneg a \<Longrightarrow> usable b \<Longrightarrow> nonneg (f64_mul rnd a b) \<or> (\<not> is_finite a \<and> b = Fin 0)"
  by (cases a) (auto simp: usable_def rnd_nonneg split: if_splits)

lemma per_mtok_nonneg:
  assumes "ieee rnd" and "usable p" and "toks < 2 ^ 32"
  shows "nonneg (per_mtok rnd toks p)"
proof -
  have n: "rnd (of_nat n) = Fin (of_nat n)" if "n < 2 ^ 32" for n using assms(1) that unfolding ieee_def by blast
  have "of_nat toks / 1000000 \<le> (of_nat toks :: rat)" by simp
  then have "\<not> f64_less (rnd (of_nat toks)) (rnd (of_nat toks / 1000000))" using assms(1) unfolding ieee_def by blast
  then have "is_finite (rnd (of_nat toks / 1000000))"
    using n [OF assms(3)] rnd_nonneg [OF assms(1), of "of_nat toks / 1000000"]
    by (cases "rnd (of_nat toks / 1000000)") auto
  then show ?thesis
    unfolding per_mtok_def
    using mul_nonneg_f64 [OF assms(1) rnd_nonneg [OF assms(1), of "of_nat toks / 1000000"] assms(2)] by auto
qed

lemma find_entry_Some: "find_entry r b m = Some e \<Longrightarrow> e \<in> set (models r) \<and> provider e = b \<and> model e = m"
  by (auto simp: find_entry_def find_Some_iff)

definition price_usable :: "price \<Rightarrow> bool" where
  "price_usable p \<longleftrightarrow> usable (input_price p) \<and> usable (output_price p) \<and> usable (cache_read_price p)"

lemma entry_usable:
  assumes "\<not> bad_entry e"
  shows "usable (input_per_million_usd e)" "usable (output_per_million_usd e)"
    "cache_read_per_million_usd e = Some c \<Longrightarrow> usable c"
    "long_context e = Some t \<Longrightarrow> usable (lc_input t) \<and> usable (lc_output t) \<and> usable (lc_cache_read t)"
  using assms by (auto simp: bad_entry_def usable_iff bad_price_def bad_tier_def)

lemma registry_price_usable:
  assumes "registry_validate r = Ok ()"
  shows "price_usable (fst (registry_price_for r b m))" and "price_usable (call_price r b m i c)"
proof -
  have ok: "\<not> bad_entry e" if "find_entry r b m = Some e" for e
    using assms find_entry_Some [OF that] by (simp add: registry_validate_iff)
  show base: "price_usable (fst (registry_price_for r b m))"
    using entry_usable(1,2,3) [OF ok]
    by (auto simp: registry_price_for_def price_usable_def price_new_def usable_def split: compute_class.split option.split)
  show "price_usable (call_price r b m i c)"
    using entry_usable(4) [OF ok] base
    by (auto simp: call_price_def price_usable_def bind_eq_Some_conv split: option.split)
qed

lemma cost_nonneg:
  assumes rnd: "ieee rnd" and v: "registry_validate r = Ok ()" and "usable rate" and "rate \<noteq> Fin 0"
    and "i < 2 ^ 32" and "out < 2 ^ 32" and "c < 2 ^ 32"
  shows "nonneg (cost_eur_with_registry rnd r b m i out c rate)"
proof (cases "compute_class_of b \<in> {Local, Subscription}")
  case True
  then show ?thesis by (simp add: cost_eur_with_registry_def)
next
  case False
  have p: "price_usable (call_price r b m i c)" by (rule registry_price_usable(2) [OF v])
  then have parts: "nonneg (per_mtok rnd i (input_price (call_price r b m i c)))"
    "nonneg (per_mtok rnd out (output_price (call_price r b m i c)))"
    "nonneg (per_mtok rnd c (cache_read_price (call_price r b m i c)))"
    using per_mtok_nonneg [OF rnd] assms(5-7) by (simp_all add: price_usable_def)
  then show ?thesis
    using False mul_nonneg_f64 [OF rnd add_nonneg_f64 [OF rnd add_nonneg_f64 [OF rnd]] assms(3)] assms(4)
    by (simp add: cost_eur_with_registry_def Let_def)
qed

lemma rnd_range:
  assumes rnd: "ieee rnd" and "of_nat a \<le> x" and "x \<le> of_nat b" and "b < 2 ^ 32"
  shows "\<exists>y. rnd x = Fin y \<and> of_nat a \<le> y \<and> y \<le> of_nat b"
proof -
  have "(of_nat a :: rat) \<le> of_nat b" using assms(2,3) by linarith
  then have "a \<le> b" by simp
  then have e: "rnd (of_nat a) = Fin (of_nat a)" "rnd (of_nat b) = Fin (of_nat b)"
    using rnd assms(4) unfolding ieee_def by auto
  have "\<not> f64_less (rnd x) (rnd (of_nat a))" "\<not> f64_less (rnd (of_nat b)) (rnd x)" "rnd x \<noteq> NaN"
    using rnd assms(2,3) unfolding ieee_def by blast+
  then show ?thesis by (cases "rnd x") (auto simp: e)
qed

lemma scale_order:
  assumes rnd: "ieee rnd" and y: "rnd y = Fin y" "0 \<le> y"
  shows "l \<le> 1 \<Longrightarrow> \<not> f64_less (Fin y) (f64_mul rnd (Fin y) (Fin l))"
    and "1 \<le> l \<Longrightarrow> \<not> f64_less (f64_mul rnd (Fin y) (Fin l)) (Fin y)"
proof -
  have mono: "\<not> f64_less (rnd v) (rnd u)" if "u \<le> v" for u v using rnd that unfolding ieee_def by blast
  show "l \<le> 1 \<Longrightarrow> \<not> f64_less (Fin y) (f64_mul rnd (Fin y) (Fin l))"
    using mono [of "y * l" y] y mult_left_le [of l y] by simp
  show "1 \<le> l \<Longrightarrow> \<not> f64_less (f64_mul rnd (Fin y) (Fin l)) (Fin y)"
    using mono [of y "y * l"] y mult_left_mono [of 1 l y] by simp
qed

lemma factors:
  assumes "ieee rnd"
  shows "\<exists>l. low_factor rnd st = Fin l \<and> 0 \<le> l \<and> l \<le> 1" and "\<exists>h. high_factor rnd st = Fin h \<and> 1 \<le> h"
proof -
  show "\<exists>l. low_factor rnd st = Fin l \<and> 0 \<le> l \<and> l \<le> 1"
    using rnd_range [OF assms, of 0 "6 / 10" 1] by (auto simp: low_factor_def)
  show "\<exists>h. high_factor rnd st = Fin h \<and> 1 \<le> h"
    using rnd_range [OF assms, of 1 "16 / 10" 2] rnd_range [OF assms, of 1 "25 / 10" 3] by (auto simp: high_factor_def)
qed

lemma estimate_order:
  assumes rnd: "ieee rnd" and "nonneg (likely_eur (estimate_task_cost_with_registry rnd r b m i out n rate))"
    and "is_finite (likely_eur (estimate_task_cost_with_registry rnd r b m i out n rate))"
  defines "est \<equiv> estimate_task_cost_with_registry rnd r b m i out n rate"
  shows "\<not> f64_less (likely_eur est) (low_eur est) \<and> \<not> f64_less (high_eur est) (likely_eur est)"
proof -
  obtain y where y: "likely_eur est = Fin y" "0 \<le> y"
    using assms(2,3) by (cases "likely_eur est") (auto simp: est_def)
  then have "f64_mul rnd (cost_eur_with_registry rnd r b m i out 0 rate) (Fin (of_nat n)) = Fin y"
    by (simp add: est_def estimate_task_cost_with_registry_def Let_def)
  then have fixp: "rnd y = Fin y"
    using rnd by (cases "cost_eur_with_registry rnd r b m i out 0 rate") (auto simp: ieee_def split: if_splits)
  obtain l h where lh: "low_factor rnd (est_price_status est) = Fin l" "l \<le> 1"
    "high_factor rnd (est_price_status est) = Fin h" "1 \<le> h"
    using factors [OF rnd, of "est_price_status est"] by blast
  have "low_eur est = f64_mul rnd (Fin y) (Fin l)" "high_eur est = f64_mul rnd (Fin y) (Fin h)"
    using y(1) lh by (simp_all add: est_def estimate_task_cost_with_registry_def Let_def)
  then show ?thesis using scale_order [OF rnd fixp y(2)] lh y(1) by simp
qed

lemma find_entry_distinct:
  assumes "distinct (map pair_of (models r))" and "e \<in> set (models r)"
  shows "find_entry r (provider e) (model e) = Some e"
proof -
  have "find (\<lambda>x. provider x = provider e \<and> model x = model e) ms = Some e"
    if "distinct (map pair_of ms)" "e \<in> set ms" for ms
    using that by (induction ms) (auto simp: pair_of_def in_image_iff)
  with assms show ?thesis by (simp add: find_entry_def)
qed

lemma with_release_models:
  fixes legacies :: "pricing_registry list"
  assumes r: "registry_validate r = Ok ()" and b: "registry_validate builtin = Ok ()"
  defines "r0 \<equiv> bind_provenance (foldl drop_legacy r legacies)"
  shows "distinct (map pair_of (models (merge_release r0 builtin)))"
    and "\<forall>e \<in> set (models (merge_release r0 builtin)). \<not> bad_entry e
           \<and> (e \<in> bound r ` set (models r) \<or> e \<in> set (models builtin))"
    and "pair_of ` set (models builtin) \<subseteq> pair_of ` set (models (merge_release r0 builtin))"
    and "e \<in> set (models r) \<Longrightarrow> owner_override e \<or> (\<forall>l \<in> set legacies. e \<notin> set (models l)) \<Longrightarrow>
           bound r e \<in> set (models (merge_release r0 builtin))"
proof -
  obtain p where p: "models (foldl drop_legacy r legacies) = filter p (models r)"
    "\<forall>e. p e \<or> (\<not> owner_override e \<and> (\<exists>l \<in> set legacies. e \<in> set (models l)))"
    using drop_legacies_facts(4) by blast
  have "bound (foldl drop_legacy r legacies) = bound r"
    unfolding fun_eq_iff bound_def drop_legacies_facts by simp
  then have m0: "models r0 = map (bound r) (filter p (models r))"
    by (simp add: r0_def bind_provenance_models p(1))
  have "map pair_of (models r0) = map pair_of (filter p (models r))" by (simp add: m0 comp_def)
  then have d0: "distinct (map pair_of (models r0))"
    using r by (simp add: registry_validate_iff distinct_map_filter)
  note add = add_missing_facts [OF d0, of "models builtin"]
  show "distinct (map pair_of (models (merge_release r0 builtin)))" using add by (simp add: merge_release_facts)
  show "\<forall>e \<in> set (models (merge_release r0 builtin)). \<not> bad_entry e
           \<and> (e \<in> bound r ` set (models r) \<or> e \<in> set (models builtin))"
  proof
    fix e
    assume "e \<in> set (models (merge_release r0 builtin))"
    with add have "e \<in> set (models r0) \<or> e \<in> set (models builtin)" by (auto simp: merge_release_facts)
    moreover have "\<not> bad_entry x" if "x \<in> set (models r) \<or> x \<in> set (models builtin)" for x
      using that r b unfolding registry_validate_iff by blast
    ultimately show "\<not> bad_entry e \<and> (e \<in> bound r ` set (models r) \<or> e \<in> set (models builtin))"
      by (auto simp: m0)
  qed
  show "pair_of ` set (models builtin) \<subseteq> pair_of ` set (models (merge_release r0 builtin))"
    using add by (simp add: merge_release_facts)
  show "bound r e \<in> set (models (merge_release r0 builtin))"
    if "e \<in> set (models r)" "owner_override e \<or> (\<forall>l \<in> set legacies. e \<notin> set (models l))"
  proof -
    have "p e" using that(2) p(2) by blast
    then have "bound r e \<in> set (models r0)" using that(1) by (simp add: m0)
    then show ?thesis using add by (auto simp: merge_release_facts)
  qed
qed

section \<open>Properties\<close>

text \<open>
  Merging the owner's registry with the release baseline succeeds for valid inputs and gives
  a valid registry. Every owner entry that is an explicit override, or is not one of the
  historical shipped defaults, still prices its model; every model of the release is priced;
  and each entry of the result comes from one of the two inputs.
\<close>

theorem with_release_owner_wins:
  assumes r: "registry_validate r = Ok ()" and b: "registry_validate builtin = Ok ()"
    and label: "\<not> trim_is_empty (source r @ '' + '' @ source builtin)"
  shows "\<exists>r'. with_release legacies r builtin = Ok r' \<and> registry_validate r' = Ok ()
    \<and> (\<forall>e \<in> set (models r). owner_override e \<or> (\<forall>l \<in> set legacies. e \<notin> set (models l)) \<longrightarrow>
         find_entry r' (provider e) (model e) = Some (bound r e))
    \<and> (\<forall>e \<in> set (models builtin). find_entry r' (provider e) (model e) \<noteq> None)
    \<and> (\<forall>e \<in> set (models r'). e \<in> bound r ` set (models r) \<or> e \<in> set (models builtin))"
proof -
  define r' where "r' = merge_release (bind_provenance (foldl drop_legacy r legacies)) builtin"
  note m = with_release_models [OF r b, where legacies = legacies, folded r'_def]
  have src: "\<not> trim_is_empty (source r')"
    using r label by (simp add: r'_def merge_release_def Let_def bind_provenance_def drop_legacies_facts registry_validate_iff)
  have upd: "\<not> trim_is_empty (updated_at r')"
    using r b by (simp add: r'_def merge_release_def Let_def bind_provenance_def drop_legacies_facts registry_validate_iff)
  have ver: "reg_version r' = 1"
    using r by (simp add: r'_def merge_release_def Let_def bind_provenance_def drop_legacies_facts registry_validate_iff)
  have v: "registry_validate r' = Ok ()" using m(1,2) src upd ver by (simp add: registry_validate_iff)
  have "with_release legacies r builtin = Ok r'" by (simp add: with_release_def r b v flip: r'_def)
  moreover have "find_entry r' (provider e) (model e) = Some (bound r e)"
    if "e \<in> set (models r)" "owner_override e \<or> (\<forall>l \<in> set legacies. e \<notin> set (models l))" for e
    using find_entry_distinct [OF m(1) m(4) [OF that]] by simp
  moreover have "find_entry r' (provider e) (model e) \<noteq> None" if e: "e \<in> set (models builtin)" for e
  proof -
    obtain x where x: "x \<in> set (models r')" "pair_of x = pair_of e" using m(3) e by (fastforce simp: in_image_iff)
    then show ?thesis using find_entry_distinct [OF m(1) x(1)] by (simp add: pair_of_def)
  qed
  ultimately show ?thesis using v m(2) by blast
qed

text \<open>
  Costs and estimates: local and subscription backends cost nothing; a metered or unknown
  backend without a registry entry is charged at least 3 and 15 USD per million tokens; with a
  validated registry no cost is negative or undefined; and an estimate's low, likely and high
  values are in order.
\<close>

theorem costs_are_sound:
  fixes b m :: string and n :: nat
  assumes rnd: "ieee rnd" and v: "registry_validate r = Ok ()" and rate: "usable rate" "rate \<noteq> Fin 0"
    and t: "i < 2 ^ 32" "out < 2 ^ 32" "c < 2 ^ 32"
  defines "est \<equiv> estimate_task_cost_with_registry rnd r b m i out n rate"
  shows "nonneg (cost_eur_with_registry rnd r b m i out c rate)
    \<and> (compute_class_of b \<in> {Local, Subscription} \<longrightarrow> cost_eur_with_registry rnd r b m i out c rate = Fin 0)
    \<and> (compute_class_of b \<notin> {Local, Subscription} \<and> find_entry r b m = None \<longrightarrow>
         \<not> f64_less (input_price (fst (registry_price_for r b m))) (Fin 3)
       \<and> \<not> f64_less (output_price (fst (registry_price_for r b m))) (Fin 15)
       \<and> snd (registry_price_for r b m) = UnknownPrice)
    \<and> (nonneg (likely_eur est) \<and> is_finite (likely_eur est) \<longrightarrow>
         \<not> f64_less (likely_eur est) (low_eur est) \<and> \<not> f64_less (high_eur est) (likely_eur est))"
proof (intro conjI impI)
  show "nonneg (cost_eur_with_registry rnd r b m i out c rate)" by (rule cost_nonneg [OF rnd v rate t])
  show "compute_class_of b \<in> {Local, Subscription} \<Longrightarrow> cost_eur_with_registry rnd r b m i out c rate = Fin 0"
    by (simp add: cost_eur_with_registry_def)
next
  assume e: "nonneg (likely_eur est) \<and> is_finite (likely_eur est)"
  show "\<not> f64_less (likely_eur est) (low_eur est)" "\<not> f64_less (high_eur est) (likely_eur est)"
    using estimate_order [OF rnd] e by (simp_all add: est_def)
qed (auto simp: registry_price_for_def price_new_def split: compute_class.splits)

definition demo_entry :: "string \<Rightarrow> rat \<Rightarrow> pricing_entry" where
  "demo_entry m p = \<lparr>provider = ''openai-api'', model = m, input_per_million_usd = Fin p,
     output_per_million_usd = Fin (4 * p), cache_read_per_million_usd = None, entry_status = Known,
     pricing_source = None, pricing_updated_at = None, pricing_notes = None, long_context = None,
     owner_override = False\<rparr>"

definition demo_registry :: "string \<Rightarrow> pricing_entry list \<Rightarrow> pricing_registry" where
  "demo_registry src es = \<lparr>reg_version = 1, source = src, updated_at = ''2026-09-01'', models = es\<rparr>"

lemmas pricing_eval = demo_entry_def demo_registry_def registry_validate_def bad_entry_def pair_of_def
  not_blank ws_prefix_def byte_def

theorem with_release_owner_wins_witness:
  "\<exists>r'. with_release [] (demo_registry ''owner'' [demo_entry ''gpt'' 2])
         (demo_registry ''release'' [demo_entry ''gpt'' 9, demo_entry ''mini'' 1]) = Ok r'
     \<and> (\<exists>e. find_entry r' ''openai-api'' ''gpt'' = Some e \<and> input_per_million_usd e = Fin 2)
     \<and> find_entry r' ''openai-api'' ''mini'' \<noteq> None"
proof -
  let ?r = "demo_registry ''owner'' [demo_entry ''gpt'' 2]"
  let ?b = "demo_registry ''release'' [demo_entry ''gpt'' 9, demo_entry ''mini'' 1]"
  have r: "registry_validate ?r = Ok ()" "registry_validate ?b = Ok ()"
    by (simp_all add: pricing_eval)
  have "\<not> trim_is_empty (source ?r @ '' + '' @ source ?b)" by (simp add: pricing_eval)
  from with_release_owner_wins [OF r this, of "[]"] obtain r' where w: "with_release [] ?r ?b = Ok r'"
    and o: "\<forall>e \<in> set (models ?r). find_entry r' (provider e) (model e) = Some (bound ?r e)"
    and n: "\<forall>e \<in> set (models ?b). find_entry r' (provider e) (model e) \<noteq> None" by auto
  have "find_entry r' ''openai-api'' ''gpt'' = Some (bound ?r (demo_entry ''gpt'' 2))"
    using o by (simp add: demo_registry_def) (simp add: demo_entry_def)
  moreover have "input_per_million_usd (bound ?r (demo_entry ''gpt'' 2)) = Fin 2" by (simp add: bound_def demo_entry_def)
  moreover have "find_entry r' ''openai-api'' ''mini'' \<noteq> None"
    using n by (simp add: demo_registry_def) (simp add: demo_entry_def)
  ultimately show ?thesis using w by blast
qed

lemma ieee_exact: "ieee Fin"
  by (simp add: ieee_def)

theorem costs_are_sound_witness:
  "nonneg (cost_eur_with_registry Fin (demo_registry ''owner'' [demo_entry ''gpt'' 2]) ''openai-api'' ''gpt'' 1000 500 0 (Fin (9/10)))"
proof -
  have v: "registry_validate (demo_registry ''owner'' [demo_entry ''gpt'' 2]) = Ok ()"
    by (simp add: pricing_eval)
  have u: "usable (Fin (9/10))" unfolding usable_def by (intro exI conjI) (rule refl, simp)
  from costs_are_sound [OF ieee_exact v u, of 1000 500 0 "''openai-api''" "''gpt''"] show ?thesis by simp
qed

end
