(* ===== verification/Rate_Limit.thy ===== *)
theory Rate_Limit
  imports Strings
begin

text \<open>
  \<^verbatim>\<open>src/jarvis-api/src/rate_limit.rs\<close>: fixed-window counters, failure lockout and password
  backoff of the authentication endpoints, and the middleware that applies them. Each map is
  behind its own mutex, so a call is one step on it. \<open>Instant\<close> is an integer in nanoseconds and
  is passed in; \<open>duration_since\<close> saturates at zero. A device id is its printed form.
\<close>

section \<open>Counters\<close>

type_synonym windows = "(string \<times> int \<times> nat) list"



record rate_limiter =
  hits :: windows
  reserved :: windows
  failures :: windows
  password_failures :: "(string \<times> nat \<times> int) list"
  dropped_audit :: nat

definition rate_limiter_new :: rate_limiter where
  "rate_limiter_new = \<lparr>hits = [], reserved = [], failures = [], password_failures = [], dropped_audit = 0\<rparr>"

definition secs :: "nat \<Rightarrow> int" where "secs n = int n * 1000000000"

definition duration_since :: "int \<Rightarrow> int \<Rightarrow> int" where
  "duration_since now start = max 0 (now - start)"

definition MAX_TRACKED_KEYS :: nat where "MAX_TRACKED_KEYS = 4096"

text \<open>The key with the earliest window start; the first one in iteration order on a tie.\<close>

fun oldest_key :: "windows \<Rightarrow> string option" where
  "oldest_key [] = None"
| "oldest_key ((k, s, n) # m) = (case oldest_key m of
     None \<Rightarrow> Some k
   | Some k' \<Rightarrow> (case al_get m k' of
        Some (s', _) \<Rightarrow> if s' < s then Some k' else Some k
      | None \<Rightarrow> Some k))"

definition make_room :: "windows \<Rightarrow> string \<Rightarrow> int \<Rightarrow> int \<Rightarrow> windows" where
  "make_room m key window now =
     (if length m \<ge> MAX_TRACKED_KEYS \<and> \<not> al_has key m then
        let m1 = al_retain (\<lambda>_ (start, _). duration_since now start < window) m in
        if length m1 \<ge> MAX_TRACKED_KEYS
        then (case oldest_key m1 of Some k \<Rightarrow> al_remove k m1 | None \<Rightarrow> m1)
        else m1
      else m)"

definition count_event :: "windows \<Rightarrow> string \<Rightarrow> int \<Rightarrow> int \<Rightarrow> nat \<times> windows" where
  "count_event m key window now =
     (let m1 = make_room m key window now;
          e = (case al_get m1 key of Some e \<Rightarrow> e | None \<Rightarrow> (now, 0));
          e' = (if duration_since now (fst e) \<ge> window then (now, 0) else e);
          n = sat_add u32_max (snd e') 1
      in (n, hm_insert key (fst e', n) m1))"

definition rl_check :: "rate_limiter \<Rightarrow> string \<Rightarrow> nat \<Rightarrow> int \<Rightarrow> int \<Rightarrow> bool \<times> rate_limiter" where
  "rl_check r key limit window now =
     (let (n, m) = count_event (hits r) key window now in (n \<le> limit, r\<lparr>hits := m\<rparr>))"

definition check_reserved :: "rate_limiter \<Rightarrow> string \<Rightarrow> nat \<Rightarrow> int \<Rightarrow> int \<Rightarrow> bool \<times> rate_limiter" where
  "check_reserved r key limit window now =
     (let (n, m) = count_event (reserved r) key window now in (n \<le> limit, r\<lparr>reserved := m\<rparr>))"




section \<open>Password backoff\<close>

record password_backoff_policy =
  free_failures :: nat
  max_wait :: int

definition PASSWORD_BACKOFF_BASE :: int where "PASSWORD_BACKOFF_BASE = secs 2"
definition PASSWORD_FAILURE_MEMORY :: int where "PASSWORD_FAILURE_MEMORY = secs (24 * 60 * 60)"

definition password_delay :: "nat \<Rightarrow> password_backoff_policy \<Rightarrow> int" where
  "password_delay n policy =
     (if n \<le> free_failures policy then 0
      else min (PASSWORD_BACKOFF_BASE * 2 ^ min (n - free_failures policy - 1) 16) (max_wait policy))"

definition password_backoff ::
  "rate_limiter \<Rightarrow> string \<Rightarrow> password_backoff_policy \<Rightarrow> int \<Rightarrow> int option \<times> rate_limiter" where
  "password_backoff r key policy now = (case al_get (password_failures r) key of
     None \<Rightarrow> (None, r)
   | Some (n, prev) \<Rightarrow>
       let since = duration_since now prev in
       if since \<ge> PASSWORD_FAILURE_MEMORY
       then (None, r\<lparr>password_failures := al_remove key (password_failures r)\<rparr>)
       else let d = max 0 (password_delay n policy - since) in (if d = 0 then None else Some d, r))"

definition note_password_failure :: "rate_limiter \<Rightarrow> string \<Rightarrow> int \<Rightarrow> nat \<times> rate_limiter" where
  "note_password_failure r key now =
     (let (n, prev) = (case al_get (password_failures r) key of Some e \<Rightarrow> e | None \<Rightarrow> (0, now));
          n0 = (if duration_since now prev \<ge> PASSWORD_FAILURE_MEMORY then 0 else n);
          n1 = sat_add u32_max n0 1
      in (n1, r\<lparr>password_failures := hm_insert key (n1, now) (password_failures r)\<rparr>))"

definition clear_password_failures :: "rate_limiter \<Rightarrow> string \<Rightarrow> rate_limiter" where
  "clear_password_failures r key = r\<lparr>password_failures := al_remove key (password_failures r)\<rparr>"

definition note_dropped_audit :: "rate_limiter \<Rightarrow> nat \<times> rate_limiter" where
  "note_dropped_audit r = (dropped_audit r, r\<lparr>dropped_audit := wrap64 (dropped_audit r + 1)\<rparr>)"

definition take_dropped_audit :: "rate_limiter \<Rightarrow> nat \<times> rate_limiter" where
  "take_dropped_audit r = (dropped_audit r, r\<lparr>dropped_audit := 0\<rparr>)"

definition DEVICE_PASSWORD_BACKOFF :: password_backoff_policy where
  "DEVICE_PASSWORD_BACKOFF = \<lparr>free_failures = 3, max_wait = secs (15 * 60)\<rparr>"

definition ACCOUNT_PASSWORD_BACKOFF :: password_backoff_policy where
  "ACCOUNT_PASSWORD_BACKOFF = \<lparr>free_failures = 10, max_wait = secs 60\<rparr>"

definition ACCOUNT_PASSWORD_KEY :: string where "ACCOUNT_PASSWORD_KEY = ''password:account''"

definition device_password_key :: "string \<Rightarrow> string" where
  "device_password_key device_id = ''password:device:'' @ device_id"

definition state_note_password_failure :: "rate_limiter \<Rightarrow> string option \<Rightarrow> int \<Rightarrow> rate_limiter" where
  "state_note_password_failure r device now =
     (let r1 = (case device of
          Some d \<Rightarrow> snd (note_password_failure r (device_password_key d) now) | None \<Rightarrow> r)
      in snd (note_password_failure r1 ACCOUNT_PASSWORD_KEY now))"

definition note_password_verified :: "rate_limiter \<Rightarrow> string option \<Rightarrow> rate_limiter" where
  "note_password_verified r device =
     (let r1 = (case device of
          Some d \<Rightarrow> clear_password_failures r (device_password_key d) | None \<Rightarrow> r)
      in clear_password_failures r1 ACCOUNT_PASSWORD_KEY)"

definition allow_authenticated_device ::
  "rate_limiter \<Rightarrow> string \<Rightarrow> string \<Rightarrow> nat \<Rightarrow> int \<Rightarrow> bool \<times> rate_limiter" where
  "allow_authenticated_device r device_id profile per_min now =
     check_reserved r (profile @ '':device:'' @ device_id) per_min (secs 60) now"

section \<open>The key of a client address\<close>

text \<open>An IPv4 address is four octets, an IPv6 address eight segments.\<close>

datatype ip_addr = V4 "nat list" | V6 "nat list"

fun join_with :: "string \<Rightarrow> string list \<Rightarrow> string" where
  "join_with sep [] = []"
| "join_with sep [x] = x"
| "join_with sep (x # y # xs) = x @ sep @ join_with sep (y # xs)"

definition show_v4 :: "nat list \<Rightarrow> string" where
  "show_v4 octets = join_with ''.'' (map show_nat octets)"

definition hex_char :: "nat \<Rightarrow> char" where
  "hex_char n = char_of (if n < 10 then 48 + n else 87 + n)"

fun show_hex :: "nat \<Rightarrow> string" where
  "show_hex n = (if n < 16 then [hex_char n] else show_hex (n div 16) @ [hex_char (n mod 16)])"

declare show_hex.simps [simp del]

definition zero_run :: "nat list \<Rightarrow> nat \<Rightarrow> nat" where
  "zero_run s i = length (takeWhile (\<lambda>x. x = 0) (drop i s))"

text \<open>Start and length of the longest run of zero segments, the first one on a tie.\<close>

definition longest_zeros :: "nat list \<Rightarrow> nat \<times> nat" where
  "longest_zeros s = foldl (\<lambda>(b, n) i. if zero_run s i > n then (i, zero_run s i) else (b, n)) (0, 0) [0..<length s]"

definition show_segments :: "nat list \<Rightarrow> string" where
  "show_segments s = join_with '':'' (map show_hex s)"

definition to_ipv4_mapped :: "nat list \<Rightarrow> nat list option" where
  "to_ipv4_mapped s =
     (if take 6 s = [0, 0, 0, 0, 0, 65535]
      then Some [s ! 6 div 256, s ! 6 mod 256, s ! 7 div 256, s ! 7 mod 256] else None)"

text \<open>The printed form of an address that is not IPv4-mapped: one run of zeros is elided.\<close>

definition show_v6 :: "nat list \<Rightarrow> string" where
  "show_v6 s = (let (b, n) = longest_zeros s in
     if n > 1 then show_segments (take b s) @ ''::'' @ show_segments (drop (b + n) s)
     else show_segments s)"

definition limit_key :: "ip_addr option \<Rightarrow> string" where
  "limit_key ip = (case ip of
     Some (V6 s) \<Rightarrow> (case to_ipv4_mapped s of
        Some v4 \<Rightarrow> show_v4 v4
      | None \<Rightarrow> show_v6 (take 4 s @ [0, 0, 0, 0]) @ ''/64'')
   | Some (V4 o4) \<Rightarrow> show_v4 o4
   | None \<Rightarrow> ''local'')"

section \<open>The middleware\<close>


text \<open>
  A request passes three points: it arrives and counts against its flat limit, a login then asks for the lockout, and the
  handler's answer, an HTTP status, updates the failure count of a login. The handler is awaited and each map has its own
  mutex, so the points of different requests interleave in any order; a request that is dropped never reaches the next one.
\<close>

datatype mw_result = TooMany | Passed nat

datatype mw_phase = Counted | Handling | Answered mw_result

record mw_request =
  rq_path :: string
  rq_ip :: string
  rq_phase :: mw_phase




abbreviation login_path :: string where "login_path \<equiv> ''/v1/auth/login''"






section \<open>Lemmas\<close>

lemma oldest_key_in: "m \<noteq> [] \<Longrightarrow> \<exists>k. oldest_key m = Some k \<and> k \<in> fst ` set m"
proof (induction m)
  case (Cons e m)
  obtain k s n where e: "e = (k, s, n)" by (cases e)
  show ?case
  proof (cases m)
    case (Cons e' m')
    then obtain k' where "oldest_key m = Some k'" "k' \<in> fst ` set m" using Cons.IH by auto
    then show ?thesis by (auto simp: e split: option.splits)
  qed (simp add: e)
qed simp

lemma length_al_remove_less: "k \<in> fst ` set m \<Longrightarrow> length (al_remove k m) < length m"
proof -
  assume "k \<in> fst ` set m"
  then obtain v where "(k, v) \<in> set m" by auto
  then show ?thesis unfolding al_remove_def by (rule length_filter_less) simp
qed

lemma make_room_wf: "hm_wf m \<Longrightarrow> hm_wf (make_room m key w now)"
  by (auto simp: make_room_def Let_def hm.wf_retain hm.wf_remove split: option.splits)

lemma make_room_tracked: "al_has key m \<Longrightarrow> make_room m key w now = m"
  by (simp add: make_room_def)

lemma make_room_space: "length m < MAX_TRACKED_KEYS \<Longrightarrow> make_room m key w now = m"
  by (simp add: make_room_def)

lemma make_room_length:
  assumes "length m \<le> MAX_TRACKED_KEYS" and "\<not> al_has key m"
  shows "length (make_room m key w now) < MAX_TRACKED_KEYS"
proof (cases "length m < MAX_TRACKED_KEYS")
  case True
  then show ?thesis by (simp add: make_room_space)
next
  case False
  let ?m1 = "al_retain (\<lambda>_ (start, _). duration_since now start < w) m"
  have le: "length ?m1 \<le> MAX_TRACKED_KEYS" using length_al_retain_le assms(1) order.trans by blast
  show ?thesis
  proof (cases "length ?m1 \<ge> MAX_TRACKED_KEYS")
    case True
    then have "?m1 \<noteq> []" by (auto simp: MAX_TRACKED_KEYS_def)
    then obtain k where k: "oldest_key ?m1 = Some k" "k \<in> fst ` set ?m1" using oldest_key_in by blast
    show ?thesis
      using length_al_remove_less [OF k(2)] le True False assms(2) k(1) by (simp add: make_room_def Let_def)
  qed (use False assms(2) in \<open>simp add: make_room_def Let_def\<close>)
qed

lemma make_room_absent: "\<not> al_has key m \<Longrightarrow> al_get (make_room m key w now) key = None"
  by (auto simp: make_room_def Let_def al_has_def map_of_eq_None_iff al_retain_def al_remove_def image_iff
      split: option.splits)

definition next_count :: "windows \<Rightarrow> string \<Rightarrow> int \<Rightarrow> int \<Rightarrow> int \<times> nat" where
  "next_count m key w now = (case al_get m key of
     Some (s, n) \<Rightarrow> if duration_since now s < w then (s, sat_add u32_max n 1) else (now, 1)
   | None \<Rightarrow> (now, 1))"

lemma sat_one: "sat_add u32_max 0 (Suc 0) = Suc 0"
  by (simp add: sat_add_def u32_max_def)

lemma count_event_eq:
  "count_event m key w now = (snd (next_count m key w now), hm_insert key (next_count m key w now) (make_room m key w now))"
proof (cases "al_get m key")
  case None
  then have "al_get (make_room m key w now) key = None" by (intro make_room_absent) (simp add: al_has_iff)
  with None show ?thesis by (simp add: count_event_def next_count_def Let_def sat_one)
next
  case (Some e)
  then have "make_room m key w now = m" by (intro make_room_tracked) (simp add: al_has_iff)
  with Some show ?thesis by (cases e) (simp add: count_event_def next_count_def Let_def sat_one not_less)
qed

lemma count_event_facts:
  assumes "hm_wf m" and "length m \<le> MAX_TRACKED_KEYS"
  shows "hm_wf (snd (count_event m key w now))"
    and "length (snd (count_event m key w now)) \<le> MAX_TRACKED_KEYS"
    and "al_get (snd (count_event m key w now)) key = Some (next_count m key w now)"
    and "fst (count_event m key w now) = snd (next_count m key w now)"
    and "length m < MAX_TRACKED_KEYS \<or> al_has key m \<Longrightarrow> k \<noteq> key \<Longrightarrow>
           al_get (snd (count_event m key w now)) k = al_get m k"
proof -
  have wf: "hm_wf (make_room m key w now)" by (rule make_room_wf [OF assms(1)])
  show "hm_wf (snd (count_event m key w now))" by (simp add: count_event_eq hm_insert_wf wf)
  show "al_get (snd (count_event m key w now)) key = Some (next_count m key w now)"
    by (simp add: count_event_eq hm_insert_get)
  show "fst (count_event m key w now) = snd (next_count m key w now)" by (simp add: count_event_eq)
  show "al_get (snd (count_event m key w now)) k = al_get m k"
    if "length m < MAX_TRACKED_KEYS \<or> al_has key m" "k \<noteq> key"
    using that make_room_tracked [of key m w now] make_room_space [of m key w now]
    by (auto simp: count_event_eq hm_insert_get)
  show "length (snd (count_event m key w now)) \<le> MAX_TRACKED_KEYS"
  proof (cases "al_has key m")
    case True
    then show ?thesis using assms(2) by (simp add: count_event_eq hm_insert_length make_room_tracked al_has_def)
  next
    case False
    from make_room_length [OF assms(2) False, of w now] show ?thesis
      by (simp add: count_event_eq hm_insert_length)
  qed
qed

lemma count_event_length_Suc: "length (snd (count_event m key w now)) \<le> Suc (length m)"
proof -
  have "length (make_room m key w now) \<le> length m"
    using length_al_retain_le [of "\<lambda>_ (start, _). duration_since now start < w" m]
      length_al_remove_le order.trans
    by (fastforce simp: make_room_def Let_def split: option.split)
  then show ?thesis by (auto simp: count_event_eq hm_insert_length)
qed

lemma rl_check_fst: "fst (rl_check r key limit w now) \<longleftrightarrow> fst (count_event (hits r) key w now) \<le> limit"
  by (simp add: rl_check_def split_beta)

text \<open>A key whose window is still open keeps its start and never loses counts.\<close>

definition holds_count :: "string \<Rightarrow> int \<Rightarrow> nat \<Rightarrow> windows \<Rightarrow> bool" where
  "holds_count key s n m \<longleftrightarrow> (\<exists>n' \<ge> n. al_get m key = Some (s, n'))"

lemma count_keeps:
  assumes "hm_wf m" and "length m < MAX_TRACKED_KEYS" and "holds_count key s n m" and "now < s + w" and "n \<le> u32_max" and "0 < w"
  shows "holds_count key s n (snd (count_event m k w now))"
proof (cases "k = key")
  case True
  from assms(3) obtain n' where n': "n \<le> n'" "al_get m key = Some (s, n')" by (auto simp: holds_count_def)
  have "duration_since now s < w" using assms(4,6) by (simp add: duration_since_def)
  with n' True count_event_facts(3) [OF assms(1), of key w now] assms(2,5) show ?thesis
    by (auto simp: holds_count_def next_count_def sat_add_def)
next
  case False
  with assms count_event_facts(5) [OF assms(1), of k key w now] show ?thesis by (auto simp: holds_count_def)
qed

lemma run_keeps:
  assumes "hm_wf m" and "length m + length es \<le> MAX_TRACKED_KEYS" and "holds_count key s n m"
    and "\<forall>(k, t) \<in> set es. t < s + w" and "n \<le> u32_max" and "0 < w"
  shows "holds_count key s n (foldl (\<lambda>m (k, t). snd (count_event m k w t)) m es)
    \<and> hm_wf (foldl (\<lambda>m (k, t). snd (count_event m k w t)) m es)
    \<and> length (foldl (\<lambda>m (k, t). snd (count_event m k w t)) m es) \<le> MAX_TRACKED_KEYS"
  using assms
proof (induction es arbitrary: m)
  case (Cons e es)
  obtain k t where e: "e = (k, t)" by (cases e)
  let ?m = "snd (count_event m k w t)"
  have "hm_wf ?m" using count_event_facts(1) [OF Cons.prems(1)] Cons.prems(2) by simp
  moreover have "length ?m + length es \<le> MAX_TRACKED_KEYS"
    using count_event_length_Suc [of m k w t] Cons.prems(2) by simp
  moreover have "holds_count key s n ?m"
    by (rule count_keeps) (use Cons.prems e in auto)
  ultimately show ?case using Cons.IH [of ?m] Cons.prems e by simp
qed simp

section \<open>Properties\<close>

text \<open>
  One counted event: the table stays well formed and within 4096 keys; a key whose window is
  open goes up by one, any other starts a new window at one; and unless the table was full no
  other key's count changes.
\<close>

theorem count_event_counts:
  assumes "hm_wf m" and "length m \<le> 4096"
  shows "hm_wf (snd (count_event m key w now)) \<and> length (snd (count_event m key w now)) \<le> 4096
    \<and> fst (count_event m key w now) = (case al_get m key of
         Some (s, n) \<Rightarrow> if max 0 (now - s) < w then min (n + 1) (2 ^ 32 - 1) else 1
       | None \<Rightarrow> 1)
    \<and> ((length m < 4096 \<or> key \<in> fst ` set m) \<longrightarrow>
         (\<forall>k. k \<noteq> key \<longrightarrow> al_get (snd (count_event m key w now)) k = al_get m k))"
proof -
  have l: "length m \<le> MAX_TRACKED_KEYS" using assms(2) by (simp add: MAX_TRACKED_KEYS_def)
  have n: "snd (next_count m key w now) = (case al_get m key of
         Some (s, n) \<Rightarrow> if max 0 (now - s) < w then min (n + 1) (2 ^ 32 - 1) else 1 | None \<Rightarrow> 1)"
    by (cases "al_get m key") (auto simp: next_count_def duration_since_def sat_add_def u32_max_def)
  show ?thesis
    using count_event_facts(1,2,4,5) [OF assms(1) l, where key = key and w = w and now = now] n
    by (simp add: MAX_TRACKED_KEYS_def al_has_def)
qed

theorem count_event_counts_witness:
  "fst (count_event [(''login:1.2.3.4'', 100, 7)] ''login:1.2.3.4'' 60 120) = 8"
proof -
  have "hm_wf [(''login:1.2.3.4'', 100 :: int, 7 :: nat)]" by (simp add: hm_wf_def)
  from count_event_counts [OF this, of "''login:1.2.3.4''" 60 120] show ?thesis by simp
qed

text \<open>
  A caller that used up its budget is refused for the rest of its window, whatever the other
  callers do in the meantime, as long as the table has room for them.
\<close>

theorem exhausted_key_stays_blocked:
  assumes "hm_wf (hits r)" and "length (hits r) + length es \<le> 4096"
    and "al_get (hits r) key = Some (s, n)" and "limit \<le> n" and "n < u32_max"
    and "\<forall>(k, t) \<in> set es. t < s + w" and "now < s + w" and "0 < w"
  shows "fst (rl_check (r\<lparr>hits := foldl (\<lambda>m (k, t). snd (count_event m k w t)) (hits r) es\<rparr>) key limit w now) = False"
proof -
  let ?m = "foldl (\<lambda>m (k, t). snd (count_event m k w t)) (hits r) es"
  have "holds_count key s n (hits r)" using assms(3) by (auto simp: holds_count_def)
  then have run: "holds_count key s n ?m" "hm_wf ?m" "length ?m \<le> MAX_TRACKED_KEYS"
    using run_keeps [of "hits r" es key s n w] assms by (simp_all add: MAX_TRACKED_KEYS_def)
  then obtain n' where n': "n \<le> n'" "al_get ?m key = Some (s, n')" by (auto simp: holds_count_def)
  have "duration_since now s < w" using assms(7,8) by (simp add: duration_since_def)
  then have "snd (next_count ?m key w now) = sat_add u32_max n' 1" by (simp add: next_count_def n')
  moreover have "limit < sat_add u32_max n' 1" using n' assms(4,5) by (simp add: sat_add_def)
  ultimately show ?thesis
    using count_event_facts(4) [OF run(2,3), of key w now] by (simp add: rl_check_fst)
qed

theorem exhausted_key_stays_blocked_witness:
  "fst (rl_check (rate_limiter_new\<lparr>hits := foldl (\<lambda>m (k, t). snd (count_event m k 60 t)) [(''a'', 100, 5)]
      [(''b'', 110)]\<rparr>) ''a'' 5 60 120) = False"
proof -
  have h: "hits (rate_limiter_new\<lparr>hits := [(''a'', 100, 5)]\<rparr>) = [(''a'', 100, 5)]" by simp
  show ?thesis
    using exhausted_key_stays_blocked [of "rate_limiter_new\<lparr>hits := [(''a'', 100, 5)]\<rparr>" "[(''b'', 110)]" "''a''" 100 5 5 60 120]
    by (simp add: h hm_wf_def u32_max_def)
qed

section \<open>Lockout and backoff\<close>


definition login_of :: "string \<Rightarrow> mw_request \<Rightarrow> bool" where
  "login_of ip q \<longleftrightarrow> rq_path q = login_path \<and> rq_ip q = ip"









lemma login_of_phase [simp]: "login_of ip (q\<lparr>rq_phase := x\<rparr>) = login_of ip q"
  by (simp add: login_of_def)



























lemma account_key_not_device: "device_password_key d \<noteq> ACCOUNT_PASSWORD_KEY"
  by (simp add: device_password_key_def ACCOUNT_PASSWORD_KEY_def)

lemma password_backoff_other:
  assumes "k \<noteq> key"
  shows "al_get (password_failures (snd (note_password_failure r key now))) k = al_get (password_failures r) k"
  using assms by (simp add: note_password_failure_def Let_def split_beta hm_insert_get)

lemma backoff_depends: "al_get (password_failures r) k = al_get (password_failures r') k \<Longrightarrow>
    fst (password_backoff r k p t) = fst (password_backoff r' k p t)"
  by (simp add: password_backoff_def Let_def split: option.split)

text \<open>
  Password backoff: the wait is zero for the free failures, never shrinks with further
  failures and never exceeds the policy's cap; a verified password clears the device's and the
  account's wait; and a failure without a verified device never changes a device's wait.
\<close>

theorem password_backoff_bounded:
  assumes "0 \<le> max_wait p"
  shows "(\<forall>n. 0 \<le> password_delay n p \<and> password_delay n p \<le> max_wait p
           \<and> (n \<le> free_failures p \<longrightarrow> password_delay n p = 0) \<and> password_delay n p \<le> password_delay (Suc n) p)
    \<and> (\<forall>k t d. fst (password_backoff r k p t) = Some d \<longrightarrow> 0 < d \<and> d \<le> max_wait p)
    \<and> fst (password_backoff (note_password_verified r (Some dev)) (device_password_key dev) p now) = None
    \<and> fst (password_backoff (note_password_verified r (Some dev)) ACCOUNT_PASSWORD_KEY p now) = None
    \<and> fst (password_backoff (state_note_password_failure r None t') (device_password_key dev) p now)
      = fst (password_backoff r (device_password_key dev) p now)"
proof (intro conjI allI impI)
  fix n
  show pos: "0 \<le> password_delay n p" for n using assms by (simp add: password_delay_def PASSWORD_BACKOFF_BASE_def secs_def)
  show le: "password_delay n p \<le> max_wait p" for n using assms by (simp add: password_delay_def)
  show "n \<le> free_failures p \<Longrightarrow> password_delay n p = 0" by (simp add: password_delay_def)
  show "password_delay n p \<le> password_delay (Suc n) p"
  proof (cases "n \<le> free_failures p")
    case True
    then have "password_delay n p = 0" by (simp add: password_delay_def)
    then show ?thesis using pos by simp
  next
    case False
    have "(2 :: int) ^ min (n - free_failures p - 1) 16 \<le> 2 ^ min (Suc n - free_failures p - 1) 16"
      by (rule power_increasing) auto
    then have "PASSWORD_BACKOFF_BASE * 2 ^ min (n - free_failures p - 1) 16
        \<le> PASSWORD_BACKOFF_BASE * 2 ^ min (Suc n - free_failures p - 1) 16"
      by (intro mult_left_mono) (simp_all add: PASSWORD_BACKOFF_BASE_def secs_def)
    with False show ?thesis by (auto simp: password_delay_def intro: min.mono)
  qed
next
  fix k t d
  assume "fst (password_backoff r k p t) = Some d"
  then show "0 < d" "d \<le> max_wait p"
    using assms by (auto simp: password_backoff_def Let_def password_delay_def duration_since_def
        split: option.splits if_splits)
next
  show "fst (password_backoff (note_password_verified r (Some dev)) (device_password_key dev) p now) = None"
    "fst (password_backoff (note_password_verified r (Some dev)) ACCOUNT_PASSWORD_KEY p now) = None"
    by (simp_all add: password_backoff_def note_password_verified_def clear_password_failures_def Let_def al_remove_get)
  show "fst (password_backoff (state_note_password_failure r None t') (device_password_key dev) p now)
      = fst (password_backoff r (device_password_key dev) p now)"
    by (rule backoff_depends)
      (simp add: state_note_password_failure_def password_backoff_other [OF account_key_not_device])
qed

theorem password_backoff_bounded_witness:
  "password_delay 100 DEVICE_PASSWORD_BACKOFF \<le> max_wait DEVICE_PASSWORD_BACKOFF
   \<and> password_delay 5 DEVICE_PASSWORD_BACKOFF = secs 4"
proof -
  have "0 \<le> max_wait DEVICE_PASSWORD_BACKOFF" by (simp add: DEVICE_PASSWORD_BACKOFF_def secs_def)
  from password_backoff_bounded [OF this] show ?thesis
    by (simp add: password_delay_def DEVICE_PASSWORD_BACKOFF_def PASSWORD_BACKOFF_BASE_def secs_def)
qed

lemma limit_key_prefix:
  assumes "to_ipv4_mapped s = None" and "to_ipv4_mapped s' = None" and "take 4 s = take 4 s'"
  shows "limit_key (Some (V6 s)) = limit_key (Some (V6 s'))"
  using assms by (simp add: limit_key_def)

end
