(* ===== verification/Hub.thy ===== *)
theory Hub
  imports Prelude
begin

text \<open>
  \<^verbatim>\<open>src/jarvis-api/src/realtime/hub.rs\<close> and the contract of
  \<^verbatim>\<open>src/crates/client-core/src/realtime.rs\<close>: the fan-out of presentation events to the
  owner's devices, run reservations and the voice lease, and the client's event cursor.

  Every operation takes the hub's one lock, so it is one step on the record \<open>hub\<close>. An id is a
  number; new ids (UUIDs) are arguments and are assumed unique. A channel remembers everything
  ever sent on it and how much the receiver took: its queue is what lies between, and a send
  fails when 64 messages wait or the receiver is gone. The event id and time of an envelope and
  the length of its JSON form are a parameter.
\<close>

section \<open>Events\<close>

type_synonym uuid = nat

record run_identity =
  run_id :: uuid
  request_id :: uuid
  conversation_id :: uuid

datatype message_role = User | Assistant

record canonical_message =
  msg_id :: uuid
  msg_conversation :: uuid
  msg_role :: message_role
  msg_content :: string
  msg_model :: "string option"
  msg_created_at :: int

record conversation_metadata =
  conv_id :: uuid
  conv_title :: string
  conv_updated_at :: int

datatype run_failure = ProviderUnavailable | PersistenceUnavailable | Interrupted

datatype event =
  ConnectionReady uuid bool
| ConversationCreated conversation_metadata
| ConversationUpdated conversation_metadata
| ConversationDeleted uuid
| MessageCreated uuid canonical_message
| AssistantStarted run_identity
| AssistantDelta run_identity string
| AssistantCompleted run_identity canonical_message
| AssistantFailed run_identity run_failure
| VoiceOwnerChanged "uuid option" "uuid option"
| VoiceStarted uuid uuid
| VoiceStopped uuid uuid
| VoiceFailed uuid uuid

record event_envelope =
  protocol :: nat
  env_epoch :: uuid
  event_id :: uuid
  env_sequence :: nat
  env_at :: int
  env_event :: event

definition REALTIME_PROTOCOL :: nat where "REALTIME_PROTOCOL = 1"
definition MAX_EVENT_BYTES :: nat where "MAX_EVENT_BYTES = 256 * 1024"

section \<open>The client's cursor\<close>

record event_cursor =
  cur_epoch :: "uuid option"
  cur_sequence :: nat

definition cursor_default :: event_cursor where
  "cursor_default = \<lparr>cur_epoch = None, cur_sequence = 0\<rparr>"

fun is_ready :: "event \<Rightarrow> bool" where
  "is_ready (ConnectionReady _ _) = True"
| "is_ready _ = False"

definition accept :: "event_cursor \<Rightarrow> event_envelope \<Rightarrow> bool \<times> event_cursor" where
  "accept c e =
     (if protocol e \<noteq> REALTIME_PROTOCOL then (False, c)
      else if cur_epoch c \<noteq> Some (env_epoch e) then
        if \<not> is_ready (env_event e) then (False, c)
        else (True, c\<lparr>cur_epoch := Some (env_epoch e), cur_sequence := env_sequence e\<rparr>)
      else if env_sequence e \<le> cur_sequence c then (False, c)
      else (True, c\<lparr>cur_sequence := env_sequence e\<rparr>))"

section \<open>The hub\<close>

definition QUEUE_CAPACITY :: nat where "QUEUE_CAPACITY = 64"
definition MAX_SUBSCRIBERS :: nat where "MAX_SUBSCRIBERS = 256"
definition MAX_PER_USER :: nat where "MAX_PER_USER = 16"
definition MAX_PER_DEVICE :: nat where "MAX_PER_DEVICE = 2"

record sink =
  sink_user :: uuid
  sink_device :: uuid

record channel =
  sent :: "event_envelope list"
  taken :: nat
  receiver_alive :: bool

datatype playback_state = Started | Stopped | Failed

record voice_lease =
  lease_device :: uuid
  lease_run :: "uuid option"
  lease_expires :: int
  playback :: "playback_state option"

record hub =
  epoch :: uuid
  sequence :: nat
  sinks :: "(uuid \<times> sink) list"
  runs :: "((uuid \<times> uuid) \<times> uuid option) list"
  voices :: "(uuid \<times> voice_lease) list"
  channels :: "(uuid \<times> channel) list"

text \<open>What the outside provides: the id and time of the n-th envelope and its encoded length.\<close>

record world =
  stamp :: "nat \<Rightarrow> uuid \<times> int"
  json_len :: "event_envelope \<Rightarrow> nat option"

definition hub_default :: "uuid \<Rightarrow> hub" where
  "hub_default ep = \<lparr>epoch = ep, sequence = 0, sinks = [], runs = [], voices = [], channels = []\<rparr>"

definition envelope :: "world \<Rightarrow> hub \<Rightarrow> event \<Rightarrow> event_envelope option \<times> hub" where
  "envelope W h ev =
     (if sequence h = u64_max then (None, h)
      else let n = sequence h + 1 in
        (Some \<lparr>protocol = REALTIME_PROTOCOL, env_epoch = epoch h, event_id = fst (stamp W n),
               env_sequence = n, env_at = snd (stamp W n), env_event = ev\<rparr>,
         h\<lparr>sequence := n\<rparr>))"

definition try_send :: "channel \<Rightarrow> event_envelope \<Rightarrow> channel option" where
  "try_send c e =
     (if receiver_alive c \<and> length (sent c) - taken c < QUEUE_CAPACITY
      then Some (c\<lparr>sent := sent c @ [e]\<rparr>) else None)"

text \<open>The loop of \<open>retain\<close>: a sink of the user stays only when its queue takes the envelope.\<close>

fun deliver :: "uuid \<Rightarrow> event_envelope \<Rightarrow> (uuid \<times> sink) list \<Rightarrow> (uuid \<times> channel) list
    \<Rightarrow> (uuid \<times> sink) list \<times> (uuid \<times> channel) list" where
  "deliver user e [] cs = ([], cs)"
| "deliver user e ((i, s) # ss) cs =
     (if sink_user s \<noteq> user then
        let (ss', cs') = deliver user e ss cs in ((i, s) # ss', cs')
      else case Option.bind (al_get cs i) (\<lambda>c. try_send c e) of
          None \<Rightarrow> deliver user e ss cs
        | Some c \<Rightarrow> let (ss', cs') = deliver user e ss (hm_insert i c cs) in ((i, s) # ss', cs'))"

definition publish :: "world \<Rightarrow> hub \<Rightarrow> uuid \<Rightarrow> event \<Rightarrow> hub" where
  "publish W h user ev = (case envelope W h ev of
     (None, h') \<Rightarrow> h'
   | (Some e, h') \<Rightarrow>
       (case json_len W e of
          None \<Rightarrow> h'\<lparr>sinks := al_retain (\<lambda>_ s. sink_user s \<noteq> user) (sinks h')\<rparr>
        | Some n \<Rightarrow>
            if n > MAX_EVENT_BYTES
            then h'\<lparr>sinks := al_retain (\<lambda>_ s. sink_user s \<noteq> user) (sinks h')\<rparr>
            else let (ss, cs) = deliver user e (sinks h') (channels h')
                 in h'\<lparr>sinks := ss, channels := cs\<rparr>))"

definition voice_cleared :: event where
  "voice_cleared = VoiceOwnerChanged None None"

definition drop_voice :: "world \<Rightarrow> hub \<Rightarrow> uuid \<Rightarrow> hub" where
  "drop_voice W h user = publish W (h\<lparr>voices := al_remove user (voices h)\<rparr>) user voice_cleared"

definition disconnect_owner :: "world \<Rightarrow> hub \<Rightarrow> uuid \<Rightarrow> uuid option \<Rightarrow> hub" where
  "disconnect_owner W h user device =
     (let h1 = h\<lparr>sinks := al_retain (\<lambda>_ s. sink_user s \<noteq> user
            \<or> (case device of Some d \<Rightarrow> sink_device s \<noteq> d | None \<Rightarrow> False)) (sinks h)\<rparr>
      in case al_get (voices h1) user of
           Some v \<Rightarrow> if (case device of None \<Rightarrow> True | Some d \<Rightarrow> lease_device v = d)
                     then drop_voice W h1 user else h1
         | None \<Rightarrow> h1)"

definition LEASE :: int where "LEASE = 90 * 1000000000"

definition claim_voice :: "world \<Rightarrow> hub \<Rightarrow> int \<Rightarrow> uuid \<Rightarrow> uuid \<Rightarrow> uuid option \<Rightarrow> bool \<times> hub" where
  "claim_voice W h now user device run =
     (let expired = map fst (filter (\<lambda>(_, v). lease_expires v \<le> now) (voices h));
          h1 = foldl (drop_voice W) h expired
      in if length (voices h1) \<ge> MAX_SUBSCRIBERS \<and> \<not> al_has user (voices h1) then (False, h1)
         else (True, publish W
                (h1\<lparr>voices := hm_insert user \<lparr>lease_device = device, lease_run = run,
                    lease_expires = now + LEASE, playback = None\<rparr> (voices h1)\<rparr>)
                user (VoiceOwnerChanged (Some device) run)))"

definition voice_owner :: "world \<Rightarrow> hub \<Rightarrow> int \<Rightarrow> uuid \<Rightarrow> (uuid \<times> uuid option) option \<times> hub" where
  "voice_owner W h now user = (case al_get (voices h) user of
     None \<Rightarrow> (None, h)
   | Some v \<Rightarrow> if lease_expires v > now then (Some (lease_device v, lease_run v), h)
               else (None, drop_voice W h user))"

definition renew_voice :: "hub \<Rightarrow> int \<Rightarrow> uuid \<Rightarrow> uuid \<Rightarrow> hub" where
  "renew_voice h now user device = (case al_get (voices h) user of
     Some v \<Rightarrow> if lease_device v = device \<and> lease_expires v > now
               then h\<lparr>voices := hm_insert user (v\<lparr>lease_expires := now + LEASE\<rparr>) (voices h)\<rparr> else h
   | None \<Rightarrow> h)"

definition release_voice_matching :: "world \<Rightarrow> hub \<Rightarrow> uuid \<Rightarrow> uuid \<Rightarrow> uuid option \<Rightarrow> bool \<times> hub" where
  "release_voice_matching W h user device run = (case al_get (voices h) user of
     Some v \<Rightarrow> if lease_device v = device \<and> (case run of None \<Rightarrow> True | Some r \<Rightarrow> lease_run v = Some r)
               then (True, drop_voice W h user) else (False, h)
   | None \<Rightarrow> (False, h))"

fun playback_event :: "playback_state \<Rightarrow> uuid \<Rightarrow> uuid \<Rightarrow> event" where
  "playback_event Started run device = VoiceStarted run device"
| "playback_event Stopped run device = VoiceStopped run device"
| "playback_event Failed run device = VoiceFailed run device"

definition report_playback :: "world \<Rightarrow> hub \<Rightarrow> int \<Rightarrow> uuid \<Rightarrow> uuid \<Rightarrow> uuid \<Rightarrow> playback_state \<Rightarrow> bool \<times> hub" where
  "report_playback W h now user device run status = (case al_get (voices h) user of
     None \<Rightarrow> (False, h)
   | Some v \<Rightarrow>
       if lease_device v \<noteq> device \<or> lease_run v \<noteq> Some run \<or> lease_expires v \<le> now then (False, h)
       else if playback v = Some status then (True, h)
       else if playback v = Some Stopped \<or> playback v = Some Failed then (False, h)
       else (True, publish W (h\<lparr>voices := hm_insert user (v\<lparr>playback := Some status\<rparr>) (voices h)\<rparr>)
                     user (playback_event status run device)))"

definition run_active :: "hub \<Rightarrow> uuid \<Rightarrow> uuid \<Rightarrow> bool" where
  "run_active h user conversation \<longleftrightarrow> al_has (user, conversation) (runs h)"

definition identified_run_active :: "hub \<Rightarrow> uuid \<Rightarrow> uuid \<Rightarrow> uuid \<Rightarrow> bool" where
  "identified_run_active h user conversation run \<longleftrightarrow> al_get (runs h) (user, conversation) = Some (Some run)"

definition reserve :: "hub \<Rightarrow> uuid \<Rightarrow> uuid \<Rightarrow> uuid option \<Rightarrow> bool \<times> hub" where
  "reserve h user conversation run =
     (if length (runs h) \<ge> 16
         \<or> length (filter (\<lambda>((u, _), _). u = user) (runs h)) \<ge> 4
         \<or> al_has (user, conversation) (runs h)
      then (False, h)
      else (True, h\<lparr>runs := hm_insert (user, conversation) run (runs h)\<rparr>))"

definition reserve_run :: "hub \<Rightarrow> uuid \<Rightarrow> uuid \<Rightarrow> bool \<times> hub" where
  "reserve_run h user conversation = reserve h user conversation None"

definition reserve_identified_run :: "hub \<Rightarrow> uuid \<Rightarrow> uuid \<Rightarrow> uuid \<Rightarrow> bool \<times> hub" where
  "reserve_identified_run h user conversation run = reserve h user conversation (Some run)"

definition drop_run :: "hub \<Rightarrow> uuid \<times> uuid \<Rightarrow> hub" where
  "drop_run h key = h\<lparr>runs := al_remove key (runs h)\<rparr>"

text \<open>\<open>sid\<close> is the new subscription's id. A full sequence space refuses it before any change.\<close>

definition subscribe :: "world \<Rightarrow> hub \<Rightarrow> uuid \<Rightarrow> uuid \<Rightarrow> uuid \<Rightarrow> bool \<times> hub" where
  "subscribe W h user device sid =
     (if length (sinks h) \<ge> MAX_SUBSCRIBERS
         \<or> length (filter (\<lambda>(_, s). sink_user s = user) (sinks h)) \<ge> MAX_PER_USER
         \<or> length (filter (\<lambda>(_, s). sink_device s = device) (sinks h)) \<ge> MAX_PER_DEVICE
      then (False, h)
      else (case envelope W h (ConnectionReady device True) of
          (None, h') \<Rightarrow> (False, h')
        | (Some e, h') \<Rightarrow>
            (case try_send \<lparr>sent = [], taken = 0, receiver_alive = True\<rparr> e of
               None \<Rightarrow> (False, h')
             | Some c \<Rightarrow> (True, h'\<lparr>sinks := hm_insert sid \<lparr>sink_user = user, sink_device = device\<rparr> (sinks h'),
                                     channels := hm_insert sid c (channels h')\<rparr>))))"

definition drop_subscription :: "hub \<Rightarrow> uuid \<Rightarrow> hub" where
  "drop_subscription h sid =
     h\<lparr>sinks := al_remove sid (sinks h),
       channels := (case al_get (channels h) sid of
          Some c \<Rightarrow> hm_insert sid (c\<lparr>receiver_alive := False\<rparr>) (channels h) | None \<Rightarrow> channels h)\<rparr>"

text \<open>The socket task takes the next queued envelope.\<close>

definition receive :: "hub \<Rightarrow> uuid \<Rightarrow> hub" where
  "receive h sid = (case al_get (channels h) sid of
     Some c \<Rightarrow> if taken c < length (sent c)
               then h\<lparr>channels := hm_insert sid (c\<lparr>taken := Suc (taken c)\<rparr>) (channels h)\<rparr> else h
   | None \<Rightarrow> h)"

datatype hub_event =
  Publish uuid event
| Subscribe uuid uuid uuid
| DropSubscription uuid
| Receive uuid
| DisconnectOwner uuid "uuid option"
| ClaimVoice int uuid uuid "uuid option"
| VoiceOwner int uuid
| RenewVoice int uuid uuid
| ReleaseVoice uuid uuid "uuid option"
| ReportPlayback int uuid uuid uuid playback_state
| ReserveRun uuid uuid "uuid option"
| DropRun "uuid \<times> uuid"

text \<open>One operation; a subscription id is never used twice.\<close>

fun hub_step :: "world \<Rightarrow> hub \<Rightarrow> hub_event \<Rightarrow> hub" where
  "hub_step W h (Publish u e) = publish W h u e"
| "hub_step W h (Subscribe u d i) = (if al_has i (channels h) then h else snd (subscribe W h u d i))"
| "hub_step W h (DropSubscription i) = drop_subscription h i"
| "hub_step W h (Receive i) = receive h i"
| "hub_step W h (DisconnectOwner u d) = disconnect_owner W h u d"
| "hub_step W h (ClaimVoice now u d r) = snd (claim_voice W h now u d r)"
| "hub_step W h (VoiceOwner now u) = snd (voice_owner W h now u)"
| "hub_step W h (RenewVoice now u d) = renew_voice h now u d"
| "hub_step W h (ReleaseVoice u d r) = snd (release_voice_matching W h u d r)"
| "hub_step W h (ReportPlayback now u d r s) = snd (report_playback W h now u d r s)"
| "hub_step W h (ReserveRun u c r) = snd (reserve h u c r)"
| "hub_step W h (DropRun k) = drop_run h k"

section \<open>Invariants\<close>

text \<open>
  A channel of epoch \<open>ep\<close> when \<open>n\<close> is the last sequence number used: it starts with the ready
  event, its sequence numbers strictly increase up to \<open>n\<close>, and at most 64 messages wait.
\<close>

definition chan_ok :: "uuid \<Rightarrow> nat \<Rightarrow> channel \<Rightarrow> bool" where
  "chan_ok ep n c \<longleftrightarrow> sent c \<noteq> [] \<and> is_ready (env_event (hd (sent c)))
     \<and> sorted_wrt (<) (map env_sequence (sent c))
     \<and> (\<forall>e \<in> set (sent c). protocol e = REALTIME_PROTOCOL \<and> env_epoch e = ep \<and> env_sequence e \<le> n)
     \<and> taken c \<le> length (sent c) \<and> length (sent c) - taken c \<le> QUEUE_CAPACITY"

definition chans_inv :: "hub \<Rightarrow> bool" where
  "chans_inv h \<longleftrightarrow> hm_wf (channels h) \<and> (\<forall>(i, c) \<in> set (channels h). chan_ok (epoch h) (sequence h) c)
     \<and> sequence h \<le> u64_max"

definition sinks_ok :: "(uuid \<times> sink) list \<Rightarrow> bool" where
  "sinks_ok ss \<longleftrightarrow> hm_wf ss \<and> length ss \<le> MAX_SUBSCRIBERS
     \<and> (\<forall>u. length (filter (\<lambda>(_, s). sink_user s = u) ss) \<le> MAX_PER_USER)
     \<and> (\<forall>d. length (filter (\<lambda>(_, s). sink_device s = d) ss) \<le> MAX_PER_DEVICE)"

definition runs_ok :: "((uuid \<times> uuid) \<times> uuid option) list \<Rightarrow> bool" where
  "runs_ok rs \<longleftrightarrow> hm_wf rs \<and> length rs \<le> 16
     \<and> (\<forall>u. length (filter (\<lambda>((u', _), _). u' = u) rs) \<le> 4)"

definition voices_ok :: "(uuid \<times> voice_lease) list \<Rightarrow> bool" where
  "voices_ok vs \<longleftrightarrow> hm_wf vs \<and> length vs \<le> MAX_SUBSCRIBERS"

definition hub_inv :: "hub \<Rightarrow> bool" where
  "hub_inv h \<longleftrightarrow> chans_inv h \<and> sinks_ok (sinks h) \<and> runs_ok (runs h) \<and> voices_ok (voices h)"

text \<open>A sublist obtained by dropping elements.\<close>

definition thinned :: "'a list \<Rightarrow> 'a list \<Rightarrow> bool" where
  "thinned xs ys \<longleftrightarrow> (\<forall>p. length (filter p xs) \<le> length (filter p ys)) \<and> set xs \<subseteq> set ys"

lemma thinned_refl: "thinned xs xs"
  by (simp add: thinned_def)

lemma thinned_filter: "thinned (filter q xs) xs"
  by (auto simp: thinned_def intro: filter_length_mono)

lemma thinned_retain: "thinned (al_retain q xs) xs"
  by (simp add: al_retain_def thinned_filter)

lemma thinned_remove: "thinned (al_remove k xs) xs"
  by (simp add: al_remove_def thinned_filter)

lemma thinned_length: "thinned xs ys \<Longrightarrow> length xs \<le> length ys"
  by (auto simp: thinned_def dest: spec [of _ "\<lambda>_. True"])

lemma sinks_ok_thinned: "sinks_ok ss \<Longrightarrow> thinned ss' ss \<Longrightarrow> hm_wf ss' \<Longrightarrow> sinks_ok ss'"
  using thinned_length [of ss' ss] unfolding sinks_ok_def thinned_def by (meson order.trans)

lemma deliver_sinks:
  assumes "hm_wf ss"
  shows "thinned (fst (deliver u e ss cs)) ss \<and> hm_wf (fst (deliver u e ss cs))"
  using assms
proof (induction ss arbitrary: cs)
  case (Cons x ss)
  obtain i s where x: "x = (i, s)" by (cases x)
  have wf: "hm_wf ss" and new: "i \<notin> fst ` set ss" using Cons.prems x by (auto simp: hm_wf_def)
  have cons: "thinned (x # zs) (x # ss) \<and> hm_wf (x # zs)" if "thinned zs ss \<and> hm_wf zs" for zs
    using that new x by (auto simp: thinned_def hm_wf_def)
  have skip: "thinned zs (x # ss)" if "thinned zs ss" for zs
    using that by (auto simp: thinned_def intro: le_SucI)
  show ?case
    using Cons.IH [OF wf] cons skip by (auto simp: x split_beta Let_def split: option.split)
qed (simp add: thinned_def)

lemma try_send_ok:
  assumes "chan_ok ep n c" and "try_send c e = Some c'" and "env_sequence e = Suc n"
    and "protocol e = REALTIME_PROTOCOL" and "env_epoch e = ep"
  shows "chan_ok ep (Suc n) c'"
  using assms by (auto simp: chan_ok_def try_send_def sorted_wrt_append hd_append Suc_le_eq less_Suc_eq_le intro: le_SucI split: if_splits)

lemma chan_ok_mono: "chan_ok ep n c \<Longrightarrow> n \<le> n' \<Longrightarrow> chan_ok ep n' c"
  by (auto simp: chan_ok_def)

lemma deliver_channels:
  assumes "hm_wf ss" and "hm_wf cs" and "\<forall>(i, c) \<in> set cs. chan_ok ep (Suc n) c"
    and "\<forall>i \<in> fst ` set ss. \<forall>c. al_get cs i = Some c \<longrightarrow> chan_ok ep n c"
    and e: "env_sequence e = Suc n" "protocol e = REALTIME_PROTOCOL" "env_epoch e = ep"
  shows "hm_wf (snd (deliver u e ss cs)) \<and> (\<forall>(i, c) \<in> set (snd (deliver u e ss cs)). chan_ok ep (Suc n) c)"
  using assms(1-4)
proof (induction ss arbitrary: cs)
  case (Cons x ss)
  obtain i s where x: "x = (i, s)" by (cases x)
  have wf: "hm_wf ss" and new: "i \<notin> fst ` set ss" using Cons.prems(1) x by (auto simp: hm_wf_def)
  have rest: "\<forall>j \<in> fst ` set ss. \<forall>c. al_get cs j = Some c \<longrightarrow> chan_ok ep n c" using Cons.prems(4) by simp
  note IH = Cons.IH [OF wf Cons.prems(2,3) rest]
  show ?case
  proof (cases "sink_user s = u \<and> Option.bind (al_get cs i) (\<lambda>c. try_send c e) \<noteq> None")
    case False
    with IH x show ?thesis by (auto simp: split_beta Let_def split: option.splits)
  next
    case True
    then obtain c c' where c: "al_get cs i = Some c" "try_send c e = Some c'" by (auto simp: bind_eq_None_conv)
    have "chan_ok ep n c" using Cons.prems(4) c(1) x by simp
    then have c': "chan_ok ep (Suc n) c'" using try_send_ok c(2) e by blast
    have "hm_wf (hm_insert i c' cs) \<and> (\<forall>(j, d) \<in> set (hm_insert i c' cs). chan_ok ep (Suc n) d)"
      using Cons.prems(2,3) c' by (auto simp: hm_insert_wf hm_insert_set)
    moreover have "\<forall>j \<in> fst ` set ss. \<forall>d. al_get (hm_insert i c' cs) j = Some d \<longrightarrow> chan_ok ep n d"
      using rest new by (auto simp: hm_insert_get)
    ultimately have "hm_wf (snd (deliver u e ss (hm_insert i c' cs)))
        \<and> (\<forall>(j, d) \<in> set (snd (deliver u e ss (hm_insert i c' cs))). chan_ok ep (Suc n) d)"
      using Cons.IH [OF wf, of "hm_insert i c' cs"] by blast
    with True c x show ?thesis by (simp add: split_beta Let_def)
  qed
qed simp

lemma deliver_isolated:
  assumes "\<forall>s. (i, s) \<in> set ss \<longrightarrow> sink_user s \<noteq> u"
  shows "al_get (snd (deliver u e ss cs)) i = al_get cs i \<and> (\<forall>s. (i, s) \<in> set ss \<longrightarrow> (i, s) \<in> set (fst (deliver u e ss cs)))"
  using assms
proof (induction ss arbitrary: cs)
  case (Cons x ss)
  obtain j s where x: "x = (j, s)" by (cases x)
  have "al_get (snd (deliver u e ss cs')) i = al_get cs' i
      \<and> (\<forall>s. (i, s) \<in> set ss \<longrightarrow> (i, s) \<in> set (fst (deliver u e ss cs')))" for cs'
    using Cons by simp
  with Cons.prems x show ?case by (auto simp: split_beta Let_def hm_insert_get split: option.split)
qed simp

lemma envelope_facts:
  assumes "envelope W h ev = (Some e, h')"
  shows "h' = h\<lparr>sequence := Suc (sequence h)\<rparr>" and "env_sequence e = Suc (sequence h)" and "env_epoch e = epoch h"
    and "protocol e = REALTIME_PROTOCOL" and "env_event e = ev" and "sequence h \<noteq> u64_max"
  using assms by (auto simp: envelope_def Let_def split: if_splits)

lemma publish_inv:
  assumes "hub_inv h"
  shows "hub_inv (publish W h u ev) \<and> sequence h \<le> sequence (publish W h u ev)
    \<and> voices (publish W h u ev) = voices h \<and> runs (publish W h u ev) = runs h \<and> epoch (publish W h u ev) = epoch h
    \<and> thinned (sinks (publish W h u ev)) (sinks h)"
proof -
  have ci: "hm_wf (channels h)" "\<forall>(i, c) \<in> set (channels h). chan_ok (epoch h) (sequence h) c" "sequence h \<le> u64_max"
    and so: "sinks_ok (sinks h)" using assms by (simp_all add: hub_inv_def chans_inv_def)
  obtain m h' where e: "envelope W h ev = (m, h')" by fastforce
  show ?thesis
  proof (cases m)
    case None
    then have "h' = h" using e by (auto simp: envelope_def Let_def split: if_splits)
    with None e assms show ?thesis by (simp add: publish_def thinned_refl)
  next
    case (Some env)
    note f = envelope_facts [OF e [unfolded Some]]
    have ci': "\<forall>(i, c) \<in> set (channels h). chan_ok (epoch h) (Suc (sequence h)) c"
      using ci(2) chan_ok_mono by fastforce
    have seq: "Suc (sequence h) \<le> u64_max" using f(6) ci(3) by simp
    have wf: "hm_wf (sinks h)" using so by (simp add: sinks_ok_def)
    show ?thesis
    proof (cases "json_len W env = None \<or> the (json_len W env) > MAX_EVENT_BYTES")
      case True
      then have "publish W h u ev = h'\<lparr>sinks := al_retain (\<lambda>_ s. sink_user s \<noteq> u) (sinks h')\<rparr>"
        by (auto simp: publish_def e Some split: option.split)
      with f(1) ci ci' seq so wf assms show ?thesis
        by (auto simp: hub_inv_def chans_inv_def thinned_retain hm.wf_retain
            intro: sinks_ok_thinned [OF so thinned_retain])
    next
      case False
      then have p: "publish W h u ev = h'\<lparr>sinks := fst (deliver u env (sinks h') (channels h')),
          channels := snd (deliver u env (sinks h') (channels h'))\<rparr>"
        by (auto simp: publish_def e Some split_beta Let_def)
      have "hm_wf (snd (deliver u env (sinks h) (channels h)))
        \<and> (\<forall>(i, c) \<in> set (snd (deliver u env (sinks h) (channels h))). chan_ok (epoch h) (Suc (sequence h)) c)"
        by (rule deliver_channels [OF wf ci(1) ci' _ f(2,4,3)]) (use ci(2) in \<open>auto dest!: map_of_SomeD\<close>)
      then show ?thesis
        using p f(1) seq assms deliver_sinks [OF wf, of u env "channels h"]
          sinks_ok_thinned [OF so, of "fst (deliver u env (sinks h) (channels h))"]
        by (simp add: hub_inv_def chans_inv_def)
    qed
  qed
qed


lemma voices_update_inv: "hub_inv h \<Longrightarrow> voices_ok vs \<Longrightarrow> hub_inv (h\<lparr>voices := vs\<rparr>)"
  by (simp add: hub_inv_def chans_inv_def)

lemma voices_ok_remove: "voices_ok vs \<Longrightarrow> voices_ok (al_remove k vs)"
  using length_al_remove_le [of k vs] by (simp add: voices_ok_def hm.wf_remove)

lemma voices_ok_set: "voices_ok vs \<Longrightarrow> length vs < MAX_SUBSCRIBERS \<or> k \<in> fst ` set vs \<Longrightarrow> voices_ok (hm_insert k v vs)"
  by (auto simp: voices_ok_def hm_insert_wf hm_insert_length)

lemma hub_inv_voices: "hub_inv h \<Longrightarrow> voices_ok (voices h)"
  by (simp add: hub_inv_def)

text \<open>What every operation keeps: the invariant, the epoch, and a sequence that never goes back.\<close>

definition advances :: "hub \<Rightarrow> hub \<Rightarrow> bool" where
  "advances h h' \<longleftrightarrow> hub_inv h' \<and> epoch h' = epoch h \<and> sequence h \<le> sequence h'"

lemma advances_refl: "hub_inv h \<Longrightarrow> advances h h"
  by (simp add: advances_def)

lemma advances_trans: "advances h h1 \<Longrightarrow> advances h1 h2 \<Longrightarrow> advances h h2"
  by (simp add: advances_def)

lemma advances_inv: "advances h h' \<Longrightarrow> hub_inv h'"
  by (simp add: advances_def)

lemma publish_advances: "hub_inv h \<Longrightarrow> advances h (publish W h u ev)"
  using publish_inv [of h W u ev] by (simp add: advances_def)

lemma voices_advances: "hub_inv h \<Longrightarrow> voices_ok vs \<Longrightarrow> advances h (h\<lparr>voices := vs\<rparr>)"
  by (simp add: advances_def voices_update_inv)

lemma voices_publish_advances: "hub_inv h \<Longrightarrow> voices_ok vs \<Longrightarrow> advances h (publish W (h\<lparr>voices := vs\<rparr>) u ev)"
  using advances_trans [OF voices_advances publish_advances] advances_inv voices_advances by blast

lemma drop_voice_advances: "hub_inv h \<Longrightarrow> advances h (drop_voice W h u)"
  by (simp add: drop_voice_def voices_publish_advances voices_ok_remove hub_inv_voices)

lemma drop_voices_advances: "hub_inv h \<Longrightarrow> advances h (foldl (drop_voice W) h us)"
proof (induction us arbitrary: h)
  case (Cons u us)
  note d = drop_voice_advances [OF Cons.prems, of W u]
  show ?case using advances_trans [OF d Cons.IH [OF advances_inv [OF d]]] by simp
qed (simp add: advances_refl)

lemma sinks_advances: "hub_inv h \<Longrightarrow> thinned ss (sinks h) \<Longrightarrow> hm_wf ss \<Longrightarrow> advances h (h\<lparr>sinks := ss\<rparr>)"
  by (auto simp: advances_def hub_inv_def chans_inv_def intro: sinks_ok_thinned)

lemma hub_inv_sinks_wf: "hub_inv h \<Longrightarrow> hm_wf (sinks h)"
  by (simp add: hub_inv_def sinks_ok_def)

lemma disconnect_owner_advances:
  assumes "hub_inv h"
  shows "advances h (disconnect_owner W h u d)"
proof -
  let ?h = "h\<lparr>sinks := al_retain (\<lambda>_ s. sink_user s \<noteq> u
            \<or> (case d of Some d \<Rightarrow> sink_device s \<noteq> d | None \<Rightarrow> False)) (sinks h)\<rparr>"
  have a: "advances h ?h"
    by (rule sinks_advances [OF assms thinned_retain hm.wf_retain [OF hub_inv_sinks_wf [OF assms]]])
  have "disconnect_owner W h u d \<in> {?h, drop_voice W ?h u}"
    by (simp add: disconnect_owner_def Let_def split: option.split)
  then show ?thesis
    using a advances_trans [OF a drop_voice_advances [OF advances_inv [OF a], of W u]] by auto
qed

lemma claim_voice_advances:
  assumes "hub_inv h"
  shows "advances h (snd (claim_voice W h now u d r))"
proof -
  let ?h = "foldl (drop_voice W) h (map fst (filter (\<lambda>(_, v). lease_expires v \<le> now) (voices h)))"
  have a: "advances h ?h" by (rule drop_voices_advances [OF assms])
  show ?thesis
  proof (cases "length (voices ?h) \<ge> MAX_SUBSCRIBERS \<and> \<not> al_has u (voices ?h)")
    case True
    with a show ?thesis by (simp add: claim_voice_def Let_def)
  next
    case False
    then have "voices_ok (hm_insert u v (voices ?h))" for v
      by (intro voices_ok_set [OF hub_inv_voices [OF advances_inv [OF a]]]) (auto simp: al_has_def)
    from advances_trans [OF a voices_publish_advances [OF advances_inv [OF a] this]] False
    show ?thesis by (auto simp: claim_voice_def Let_def)
  qed
qed

lemma voices_keep_advances:
  assumes "hub_inv h" and "al_get (voices h) u = Some v"
  shows "voices_ok (hm_insert u w (voices h))"
  by (rule voices_ok_set [OF hub_inv_voices [OF assms(1)]]) (use assms(2) in \<open>force dest: map_of_SomeD\<close>)

lemma voice_ops_advance:
  assumes "hub_inv h"
  shows "advances h (snd (voice_owner W h now u))" and "advances h (renew_voice h now u d)"
    and "advances h (snd (release_voice_matching W h u d r))"
    and "advances h (snd (report_playback W h now u d run st))"
  using assms
  by (auto simp: voice_owner_def renew_voice_def release_voice_matching_def report_playback_def
      split: option.split intro: advances_refl drop_voice_advances voices_advances voices_publish_advances
        voices_keep_advances)

lemma runs_ok_thinned: "runs_ok rs \<Longrightarrow> thinned rs' rs \<Longrightarrow> hm_wf rs' \<Longrightarrow> runs_ok rs'"
  using thinned_length [of rs' rs] unfolding runs_ok_def thinned_def by (meson order.trans)

lemma filter_hm_insert_length:
  "length (filter p (hm_insert k v m)) \<le> (if p (k, v) then Suc (length (filter p m)) else length (filter p m))"
  by (induction k v m rule: hm_insert.induct) auto

lemma reserve_advances:
  assumes "hub_inv h"
  shows "advances h (snd (reserve h u c r))" and "advances h (drop_run h k)"
proof -
  have rs: "runs_ok (runs h)" using assms by (simp add: hub_inv_def)
  have "runs_ok (hm_insert (u, c) r (runs h))"
    if "length (runs h) < 16" "length (filter (\<lambda>((u', _), _). u' = u) (runs h)) < 4" "\<not> al_has (u, c) (runs h)"
  proof -
    have "length (filter (\<lambda>((u', _), _). u' = v) (hm_insert (u, c) r (runs h))) \<le> 4" for v
      using filter_hm_insert_length [of "\<lambda>((u', _), _). u' = v" "(u, c)" r "runs h"] that(2) rs
      by (cases "u = v") (auto simp: runs_ok_def intro: order.trans)
    then show ?thesis using rs that by (simp add: runs_ok_def hm_insert_wf hm_insert_length)
  qed
  then show "advances h (snd (reserve h u c r))"
    using assms by (auto simp: reserve_def advances_def hub_inv_def chans_inv_def not_le)
  show "advances h (drop_run h k)"
    using assms runs_ok_thinned [OF rs thinned_remove hm.wf_remove, of k] rs
    by (simp add: drop_run_def advances_def hub_inv_def chans_inv_def runs_ok_def)
qed

lemma subscribe_advances:
  assumes inv: "hub_inv h" and new: "\<not> al_has i (channels h)"
  shows "advances h (snd (subscribe W h u d i))"
proof -
  have so: "sinks_ok (sinks h)" and ci: "hm_wf (channels h)" "sequence h \<le> u64_max"
      "\<forall>(i, c) \<in> set (channels h). chan_ok (epoch h) (sequence h) c"
    using inv by (simp_all add: hub_inv_def chans_inv_def)
  obtain m h' where e: "envelope W h (ConnectionReady d True) = (m, h')" by fastforce
  show ?thesis
  proof (cases "snd (subscribe W h u d i) = h")
    case True
    then show ?thesis using inv by (simp add: advances_refl)
  next
    case False
    then have room: "length (sinks h) < MAX_SUBSCRIBERS" "length (filter (\<lambda>(_, s). sink_user s = u) (sinks h)) < MAX_PER_USER"
      "length (filter (\<lambda>(_, s). sink_device s = d) (sinks h)) < MAX_PER_DEVICE"
      by (auto simp: subscribe_def split: if_splits)
    from False e obtain env where m: "m = Some env"
      by (cases m) (auto simp: subscribe_def envelope_def Let_def split: if_splits)
    note f = envelope_facts [OF e [unfolded m]]
    let ?c = "\<lparr>sent = [env], taken = 0, receiver_alive = True\<rparr>"
    have s: "snd (subscribe W h u d i) = h'\<lparr>sinks := hm_insert i \<lparr>sink_user = u, sink_device = d\<rparr> (sinks h'),
        channels := hm_insert i ?c (channels h')\<rparr>"
      using room e m by (simp add: subscribe_def try_send_def QUEUE_CAPACITY_def)
    have "chan_ok (epoch h) (Suc (sequence h)) ?c" using f by (simp add: chan_ok_def QUEUE_CAPACITY_def)
    then have "\<forall>(j, c) \<in> set (hm_insert i ?c (channels h)). chan_ok (epoch h) (Suc (sequence h)) c"
      using ci(3) chan_ok_mono [of "epoch h" "sequence h"] by (fastforce simp: hm_insert_set [OF ci(1)])
    moreover have "sinks_ok (hm_insert i \<lparr>sink_user = u, sink_device = d\<rparr> (sinks h))"
    proof -
      let ?s = "\<lparr>sink_user = u, sink_device = d\<rparr>"
      have "length (filter (\<lambda>(_, s). sink_user s = v) (hm_insert i ?s (sinks h))) \<le> MAX_PER_USER" for v
        using filter_hm_insert_length [of "\<lambda>(_, s). sink_user s = v" i ?s "sinks h"] room(2) so
        by (cases "u = v") (auto simp: sinks_ok_def intro: order.trans)
      moreover have "length (filter (\<lambda>(_, s). sink_device s = v) (hm_insert i ?s (sinks h))) \<le> MAX_PER_DEVICE" for v
        using filter_hm_insert_length [of "\<lambda>(_, s). sink_device s = v" i ?s "sinks h"] room(3) so
        by (cases "d = v") (auto simp: sinks_ok_def intro: order.trans)
      ultimately show ?thesis using so room(1) by (simp add: sinks_ok_def hm_insert_wf hm_insert_length)
    qed
    ultimately show ?thesis
      using s f(1,6) ci(1,2) inv by (simp add: advances_def hub_inv_def chans_inv_def hm_insert_wf)
  qed
qed

lemma channel_update_advances:
  assumes inv: "hub_inv h" and c: "al_get (channels h) i = Some c"
    and "sent c' = sent c" and "taken c \<le> taken c'" and "taken c' \<le> length (sent c)"
  shows "advances h (h\<lparr>channels := hm_insert i c' (channels h)\<rparr>)"
proof -
  have ci: "hm_wf (channels h)" "\<forall>(i, c) \<in> set (channels h). chan_ok (epoch h) (sequence h) c"
    using inv by (simp_all add: hub_inv_def chans_inv_def)
  have "(i, c) \<in> set (channels h)" using c by (rule map_of_SomeD)
  then have "chan_ok (epoch h) (sequence h) c" using ci(2) by blast
  then have "chan_ok (epoch h) (sequence h) c'" using assms(3-5) by (auto simp: chan_ok_def)
  then show ?thesis
    using inv ci by (auto simp: advances_def hub_inv_def chans_inv_def hm_insert_wf hm_insert_set)
qed

lemma channel_ops_advance:
  assumes inv: "hub_inv h"
  shows "advances h (receive h i)" and "advances h (drop_subscription h i)"
proof -
  show "advances h (receive h i)"
    using channel_update_advances [OF inv] by (auto simp: receive_def advances_refl [OF inv] split: option.split)
  have s: "advances h (h\<lparr>sinks := al_remove i (sinks h)\<rparr>)" (is "advances h ?h")
    by (rule sinks_advances [OF inv thinned_remove hm.wf_remove [OF hub_inv_sinks_wf [OF inv]]])
  show "advances h (drop_subscription h i)"
  proof (cases "al_get (channels h) i")
    case None
    with s show ?thesis by (simp add: drop_subscription_def)
  next
    case (Some c)
    have "taken c \<le> length (sent c)"
      using inv map_of_SomeD [OF Some] by (auto simp: hub_inv_def chans_inv_def chan_ok_def)
    then have "advances ?h (?h\<lparr>channels := hm_insert i (c\<lparr>receiver_alive := False\<rparr>) (channels ?h)\<rparr>)"
      using channel_update_advances [OF advances_inv [OF s], of i c] Some by simp
    from advances_trans [OF s this] Some show ?thesis by (simp add: drop_subscription_def)
  qed
qed

lemma hub_step_advances: "hub_inv h \<Longrightarrow> advances h (hub_step W h e)"
  by (cases e) (simp_all add: publish_advances subscribe_advances advances_refl channel_ops_advance
      disconnect_owner_advances claim_voice_advances voice_ops_advance reserve_advances)

interpretation hubs: monotone_system "hub_step W" hub_inv sequence for W
  by unfold_locales (use hub_step_advances in \<open>auto simp: advances_def\<close>)

lemma hub_default_inv: "hub_inv (hub_default ep)"
  by (simp add: hub_default_def hub_inv_def chans_inv_def sinks_ok_def runs_ok_def voices_ok_def hm_wf_def)

lemma run_epoch: "hub_inv h \<Longrightarrow> epoch (foldl (hub_step W) h es) = epoch h"
proof (induction es arbitrary: h)
  case (Cons e es)
  from hub_step_advances [OF Cons.prems, of W e] Cons.IH [of "hub_step W h e"] show ?case by (simp add: advances_def)
qed simp

section \<open>The cursor on a channel\<close>

fun accepts_all :: "event_cursor \<Rightarrow> event_envelope list \<Rightarrow> bool" where
  "accepts_all c [] \<longleftrightarrow> True"
| "accepts_all c (e # es) \<longleftrightarrow> fst (accept c e) \<and> accepts_all (snd (accept c e)) es"

lemma accepts_sorted:
  assumes "cur_epoch c = Some ep" and "\<forall>e \<in> set es. protocol e = REALTIME_PROTOCOL \<and> env_epoch e = ep"
    and "sorted_wrt (<) (cur_sequence c # map env_sequence es)"
  shows "accepts_all c es"
  using assms
proof (induction es arbitrary: c)
  case (Cons e es)
  have "accept c e = (True, c\<lparr>cur_sequence := env_sequence e\<rparr>)"
    using Cons.prems by (simp add: accept_def)
  moreover have "accepts_all (c\<lparr>cur_sequence := env_sequence e\<rparr>) es"
    by (rule Cons.IH) (use Cons.prems in simp_all)
  ultimately show ?case by simp
qed simp

lemma chan_ok_accepted:
  assumes "chan_ok ep n c"
  shows "accepts_all cursor_default (sent c)"
proof -
  from assms obtain e es where s: "sent c = e # es" and r: "is_ready (env_event e)"
    by (cases "sent c") (auto simp: chan_ok_def)
  have a: "accept cursor_default e = (True, \<lparr>cur_epoch = Some ep, cur_sequence = env_sequence e\<rparr>)"
    using assms s r by (simp add: chan_ok_def accept_def cursor_default_def)
  have "accepts_all \<lparr>cur_epoch = Some ep, cur_sequence = env_sequence e\<rparr> es"
    by (rule accepts_sorted) (use assms s in \<open>auto simp: chan_ok_def\<close>)
  then show ?thesis by (simp add: s a)
qed

section \<open>Properties\<close>

text \<open>
  C23. Resource bounds: after any sequence of operations by any number of users and devices, at
  most 256 subscriptions exist, 16 per user and 2 per device; at most 16 runs, 4 per user; at
  most 256 voice leases; no queue holds more than 64 events; and the sequence number neither
  wraps nor goes back.
\<close>

theorem hub_stays_bounded:
  fixes W :: world and ep :: uuid and n :: nat and es :: "hub_event list"
  defines "h \<equiv> foldl (hub_step W) (hub_default ep) (take n es)"
  shows "length (sinks h) \<le> 256
    \<and> length (filter (\<lambda>(_, s). sink_user s = u) (sinks h)) \<le> 16
    \<and> length (filter (\<lambda>(_, s). sink_device s = d) (sinks h)) \<le> 2
    \<and> length (runs h) \<le> 16 \<and> length (filter (\<lambda>((u', _), _). u' = u) (runs h)) \<le> 4
    \<and> length (voices h) \<le> 256
    \<and> ((i, c) \<in> set (channels h) \<longrightarrow> length (sent c) - taken c \<le> 64)
    \<and> sequence h \<le> u64_max
    \<and> sequence h \<le> sequence (foldl (hub_step W) (hub_default ep) es)"
proof -
  have inv: "hub_inv h" unfolding h_def by (rule hubs.run_inv [OF hub_default_inv])
  have "foldl (hub_step W) (hub_default ep) es = foldl (hub_step W) h (drop n es)"
    by (simp add: h_def flip: foldl_append)
  then have "sequence h \<le> sequence (foldl (hub_step W) (hub_default ep) es)"
    using hubs.run_mono [OF inv, of W "drop n es"] by simp
  then show ?thesis
    using inv by (auto simp: hub_inv_def sinks_ok_def runs_ok_def voices_ok_def chans_inv_def chan_ok_def
        MAX_SUBSCRIBERS_def MAX_PER_USER_def MAX_PER_DEVICE_def QUEUE_CAPACITY_def)
qed

definition demo_world :: world where
  "demo_world = \<lparr>stamp = (\<lambda>n. (1000 + n, int n)), json_len = (\<lambda>_. Some 100)\<rparr>"

lemmas hub_eval = demo_world_def hub_default_def subscribe_def envelope_def try_send_def publish_def
  REALTIME_PROTOCOL_def MAX_EVENT_BYTES_def QUEUE_CAPACITY_def MAX_SUBSCRIBERS_def MAX_PER_USER_def
  MAX_PER_DEVICE_def u64_max_def al_has_def Let_def

theorem hub_stays_bounded_witness:
  "length (sinks (foldl (hub_step demo_world) (hub_default 1)
     [Subscribe 7 70 500, Subscribe 7 70 501, Subscribe 7 70 502])) = 2"
proof -
  let ?es = "[Subscribe 7 70 500, Subscribe 7 70 501, Subscribe 7 70 502]"
  have "length (filter (\<lambda>(_, s). sink_device s = 70) (sinks (foldl (hub_step demo_world) (hub_default 1) (take 3 ?es)))) \<le> 2"
    using hub_stays_bounded [of demo_world 1 3 ?es] by blast
  then show ?thesis by (simp add: hub_eval)
qed

text \<open>
  C24. The hub and the client agree: on every channel of every reachable hub, the client's cursor
  starts with the ready event and accepts every event in the order it was queued, so no event
  is dropped as a duplicate and none is accepted out of order.
\<close>

theorem client_accepts_every_event:
  assumes "(i, c) \<in> set (channels (foldl (hub_step W) (hub_default ep) es))"
  shows "accepts_all cursor_default (sent c)
    \<and> is_ready (env_event (hd (sent c))) \<and> sorted_wrt (<) (map env_sequence (sent c))"
proof -
  have "hub_inv (foldl (hub_step W) (hub_default ep) es)" by (rule hubs.run_inv [OF hub_default_inv])
  then obtain n where "chan_ok (epoch (foldl (hub_step W) (hub_default ep) es)) n c"
    using assms by (auto simp: hub_inv_def chans_inv_def)
  then show ?thesis using chan_ok_accepted by (auto simp: chan_ok_def)
qed

theorem client_accepts_every_event_witness:
  "\<exists>c. al_get (channels (foldl (hub_step demo_world) (hub_default 1)
       [Subscribe 7 70 500, Publish 7 (ConversationDeleted 3), Publish 8 (ConversationDeleted 4)])) 500 = Some c
     \<and> length (sent c) = 2 \<and> accepts_all cursor_default (sent c)"
proof -
  let ?es = "[Subscribe 7 70 500, Publish 7 (ConversationDeleted 3), Publish 8 (ConversationDeleted 4)]"
  obtain c where c: "al_get (channels (foldl (hub_step demo_world) (hub_default 1) ?es)) 500 = Some c" "length (sent c) = 2"
    by (simp add: hub_eval)
  show ?thesis using c client_accepts_every_event [OF map_of_SomeD [OF c(1)]] by blast
qed

lemma publish_channels:
  "al_get (channels (publish W h u ev)) i \<noteq> al_get (channels h) i \<Longrightarrow>
     \<exists>s. (i, s) \<in> set (sinks h) \<and> sink_user s = u"
proof (rule ccontr)
  assume d: "al_get (channels (publish W h u ev)) i \<noteq> al_get (channels h) i"
    and no: "\<nexists>s. (i, s) \<in> set (sinks h) \<and> sink_user s = u"
  have "al_get (snd (deliver u e (sinks h) (channels h))) i = al_get (channels h) i" for e
    using deliver_isolated [of i "sinks h" u e "channels h"] no by blast
  with d show False
    by (auto simp: publish_def envelope_def Let_def split_beta split: option.splits if_splits)
qed

text \<open>
  Events stay with their owner: publishing for a user leaves the channel and the
  subscription of every other user's device untouched.
\<close>

theorem publish_isolated:
  assumes "(i, s) \<in> set (sinks h)" and "sink_user s \<noteq> u" and "hm_wf (sinks h)"
  shows "al_get (channels (publish W h u ev)) i = al_get (channels h) i \<and> (i, s) \<in> set (sinks (publish W h u ev))"
proof -
  have uniq: "\<forall>s'. (i, s') \<in> set (sinks h) \<longrightarrow> sink_user s' \<noteq> u"
    using assms by (auto simp: hm_wf_def dest: eq_key_imp_eq_value)
  then have "al_get (channels (publish W h u ev)) i = al_get (channels h) i"
    using publish_channels [of W h u ev i] by blast
  moreover have "(i, s) \<in> set (sinks (publish W h u ev))"
    using deliver_isolated [OF uniq] assms(1,2)
    by (auto simp: publish_def envelope_def Let_def split_beta al_retain_def split: option.split)
  ultimately show ?thesis by blast
qed

theorem publish_isolated_witness:
  "let h = foldl (hub_step demo_world) (hub_default 1) [Subscribe 7 70 500, Subscribe 8 80 501]
   in al_get (channels (publish demo_world h 8 (ConversationDeleted 4))) 500 = al_get (channels h) 500"
proof -
  let ?h = "foldl (hub_step demo_world) (hub_default 1) [Subscribe 7 70 500, Subscribe 8 80 501]"
  have m: "(500, \<lparr>sink_user = 7, sink_device = 70\<rparr>) \<in> set (sinks ?h)" "hm_wf (sinks ?h)"
    by (simp_all add: hub_eval hm_wf_def)
  show ?thesis using publish_isolated [OF m(1) _ m(2), of 8 demo_world "ConversationDeleted 4"] by (simp add: Let_def)
qed

lemma publish_voices: "voices (publish W h u ev) = voices h"
  by (auto simp: publish_def envelope_def Let_def split_beta split: option.split)

lemma publish_sinks_sub: "set (sinks (publish W h u ev)) \<subseteq> set (sinks h)" if "hm_wf (sinks h)"
proof -
  have "set (fst (deliver u e (sinks h) (channels h))) \<subseteq> set (sinks h)" for e
    using deliver_sinks [OF that, of u e "channels h"] by (simp add: thinned_def)
  then show ?thesis
    by (auto simp: publish_def envelope_def Let_def split_beta al_retain_def split: option.splits if_splits)
qed

text \<open>
  The voice lease: playback is reported only by the device and run that hold an unexpired
  lease, and once playback stopped or failed no other status follows; a granted claim makes the
  device the owner until the lease ends; and disconnecting a user ends the user's lease and
  every subscription.
\<close>

theorem voice_lease_exclusive:
  "(fst (report_playback W h now u d r st) \<longrightarrow>
      (\<exists>v. al_get (voices h) u = Some v \<and> lease_device v = d \<and> lease_run v = Some r \<and> now < lease_expires v
         \<and> (playback v \<in> {Some Stopped, Some Failed} \<longrightarrow> playback v = Some st)))
   \<and> (fst (claim_voice W h now u d ro) \<and> now \<le> t \<and> t < now + LEASE \<longrightarrow>
        fst (voice_owner W (snd (claim_voice W h now u d ro)) t u) = Some (d, ro))
   \<and> (hm_wf (sinks h) \<longrightarrow> al_get (voices (disconnect_owner W h u None)) u = None
        \<and> (\<forall>(i, s) \<in> set (sinks (disconnect_owner W h u None)). sink_user s \<noteq> u))"
proof (intro conjI impI)
  show "\<exists>v. al_get (voices h) u = Some v \<and> lease_device v = d \<and> lease_run v = Some r \<and> now < lease_expires v
         \<and> (playback v \<in> {Some Stopped, Some Failed} \<longrightarrow> playback v = Some st)"
    if "fst (report_playback W h now u d r st)"
    using that by (auto simp: report_playback_def split: option.splits if_splits)
  show "fst (voice_owner W (snd (claim_voice W h now u d ro)) t u) = Some (d, ro)"
    if "fst (claim_voice W h now u d ro) \<and> now \<le> t \<and> t < now + LEASE"
    using that by (auto simp: claim_voice_def Let_def voice_owner_def publish_voices hm_insert_get split: if_splits)
  show "al_get (voices (disconnect_owner W h u None)) u = None"
    by (auto simp: disconnect_owner_def Let_def drop_voice_def publish_voices al_remove_get split: option.split)
  assume wf: "hm_wf (sinks h)"
  let ?h = "h\<lparr>sinks := al_retain (\<lambda>_ s. sink_user s \<noteq> u) (sinks h)\<rparr>"
  have "set (sinks (drop_voice W ?h u)) \<subseteq> set (sinks ?h)"
    using publish_sinks_sub [of "?h\<lparr>voices := al_remove u (voices ?h)\<rparr>" W u voice_cleared] wf
    by (simp add: drop_voice_def hm.wf_retain)
  then show "\<forall>(i, s) \<in> set (sinks (disconnect_owner W h u None)). sink_user s \<noteq> u"
    by (auto simp: disconnect_owner_def Let_def al_retain_def split: option.split)
qed

theorem voice_lease_exclusive_witness:
  "fst (claim_voice demo_world (hub_default 1) 0 7 70 (Some 9))
   \<and> fst (voice_owner demo_world (snd (claim_voice demo_world (hub_default 1) 0 7 70 (Some 9))) 5 7) = Some (70, Some 9)"
  using voice_lease_exclusive [of demo_world "hub_default 1" 0 7 70 0 Started "Some 9" 5]
  by (simp add: claim_voice_def hub_default_def MAX_SUBSCRIBERS_def LEASE_def)

end
