(* ===== verification/Model_Access.thy ===== *)
theory Model_Access
  imports Strings
begin

text \<open>
  \<^verbatim>\<open>src/crates/llm/src/model_policy.rs\<close>, \<^verbatim>\<open>live_policy.rs\<close> and \<^verbatim>\<open>routing.rs\<close>: the
  owner's allowlist of models, its shared runtime copy, and the routing document that orders
  models per tier. An \<open>RwLock\<close> makes each operation one step; a poisoned lock, which the code
  reads as deny, is not modelled. \<open>Inl\<close> is the error text. Whether Ollama is remote is a flag set
  at startup and is passed in as \<open>remote\<close>.
\<close>

section \<open>The access policy\<close>

record access_entry =
  acc_provider :: string
  acc_model :: string
  enabled :: bool
  acc_source :: string
  acc_route :: "string option"

record access_policy =
  pol_version :: nat
  pol_models :: "access_entry list"

definition deny_by_default :: access_policy where
  "deny_by_default = \<lparr>pol_version = 1, pol_models = []\<rparr>"

definition valid_component :: "string \<Rightarrow> bool" where
  "valid_component v \<longleftrightarrow> v \<noteq> [] \<and> length v \<le> 64
     \<and> list_all (\<lambda>b. is_ascii_lowercase b \<or> is_ascii_digit b \<or> b = CHR ''-'') v"

definition validate_hf_route :: "string \<Rightarrow> string + unit" where
  "validate_hf_route v =
     (if v \<in> {''auto'', ''fastest'', ''cheapest'', ''preferred''} then Inr ()
      else if v = [] \<or> length v > 64
         \<or> \<not> list_all (\<lambda>b. is_ascii_lowercase b \<or> is_ascii_digit b \<or> b = CHR ''-'' \<or> b = CHR ''_'') v
      then Inl ''invalid Hugging Face inference provider route''
      else Inr ())"

definition access_key :: "access_entry \<Rightarrow> string \<times> string" where
  "access_key e = (to_ascii_lowercase (acc_provider e), acc_model e)"

fun validate_entries :: "(string \<times> string) list \<Rightarrow> access_entry list \<Rightarrow> string + unit" where
  "validate_entries seen [] = Inr ()"
| "validate_entries seen (e # es) =
     (if \<not> valid_component (acc_provider e) \<or> trim_is_empty (acc_model e)
      then Inl ''model access policy contains an invalid provider or model''
      else if acc_route e \<noteq> None \<and> \<not> eq_ignore_ascii_case (acc_provider e) ''huggingface''
      then Inl ''model routes are supported only for huggingface''
      else case (case acc_route e of None \<Rightarrow> Inr () | Some r \<Rightarrow> validate_hf_route r) of
        Inl err \<Rightarrow> Inl err
      | Inr _ \<Rightarrow>
          if access_key e \<in> set seen
          then Inl ''model access policy contains duplicate provider/model entries''
          else validate_entries (access_key e # seen) es)"

definition policy_validate :: "access_policy \<Rightarrow> string + unit" where
  "policy_validate p =
     (if pol_version p \<noteq> 1 then Inl ''unsupported model access policy version''
      else validate_entries [] (pol_models p))"

definition policy_find :: "access_policy \<Rightarrow> string \<Rightarrow> string \<Rightarrow> access_entry option" where
  "policy_find p prov mdl =
     find (\<lambda>e. eq_ignore_ascii_case (acc_provider e) prov \<and> acc_model e = mdl) (pol_models p)"

definition policy_state :: "access_policy \<Rightarrow> string \<Rightarrow> string \<Rightarrow> bool option" where
  "policy_state p prov mdl = map_option enabled (policy_find p prov mdl)"

definition policy_allows :: "access_policy \<Rightarrow> string \<Rightarrow> string \<Rightarrow> bool" where
  "policy_allows p prov mdl = (case policy_state p prov mdl of
     Some b \<Rightarrow> b | None \<Rightarrow> eq_ignore_ascii_case prov ''ollama'')"

definition policy_route :: "access_policy \<Rightarrow> string \<Rightarrow> string \<Rightarrow> string option" where
  "policy_route p prov mdl = Option.bind (policy_find p prov mdl) acc_route"

section \<open>The shared runtime policy\<close>

definition live_allows :: "access_policy \<Rightarrow> string \<Rightarrow> string \<Rightarrow> bool" where
  "live_allows cur prov mdl \<longleftrightarrow> pol_version cur = 1 \<and> policy_allows cur prov mdl"

definition suspend :: access_policy where
  "suspend = \<lparr>pol_version = 0, pol_models = []\<rparr>"

definition exact_key :: "access_entry \<Rightarrow> string \<times> string" where
  "exact_key e = (acc_provider e, acc_model e)"

text \<open>The map the code builds from the entries: the last entry of a key wins.\<close>

definition by_key :: "access_entry list \<Rightarrow> ((string \<times> string) \<times> access_entry) list" where
  "by_key es = foldl (\<lambda>m e. bt_insert (exact_key e) e m) [] es"

fun check_kept :: "((string \<times> string) \<times> access_entry) list \<Rightarrow> ((string \<times> string) \<times> access_entry) list \<Rightarrow> string + unit" where
  "check_kept incoming [] = Inr ()"
| "check_kept incoming ((k, old) # rest) = (case al_get incoming k of
     None \<Rightarrow> Inl ''discovery removed a model''
   | Some new \<Rightarrow>
       if enabled old \<noteq> enabled new \<or> acc_route old \<noteq> acc_route new
       then Inl ''discovery changed authorization or routing''
       else check_kept incoming rest)"

definition refresh_discovery :: "access_policy \<Rightarrow> access_policy \<Rightarrow> string + access_policy" where
  "refresh_discovery cur verified =
     (if length (pol_models verified) > 10000 then Inl ''discovered policy too large''
      else if policy_validate verified \<noteq> Inr () then Inl ''invalid discovered policy''
      else if pol_version cur \<noteq> 1 then Inl ''model policy suspended''
      else let previous = by_key (pol_models cur); incoming = by_key (pol_models verified) in
        case check_kept incoming previous of
          Inl err \<Rightarrow> Inl err
        | Inr _ \<Rightarrow>
            if list_ex (\<lambda>(k, new). \<not> al_has k previous \<and> (enabled new \<or> acc_route new \<noteq> None)) incoming
            then Inl ''new model is enabled or has a route override''
            else Inr verified)"

text \<open>The first matching entry with its enabled bit replaced; \<open>None\<close> if there is none.\<close>

fun set_enabled :: "string \<Rightarrow> string \<Rightarrow> bool \<Rightarrow> access_entry list \<Rightarrow> access_entry list option" where
  "set_enabled prov mdl b [] = None"
| "set_enabled prov mdl b (e # es) =
     (if acc_provider e = prov \<and> acc_model e = mdl then Some (e\<lparr>enabled := b\<rparr> # es)
      else map_option ((#) e) (set_enabled prov mdl b es))"

definition activate_verified_toggle ::
  "string \<Rightarrow> string \<Rightarrow> bool \<Rightarrow> access_policy \<Rightarrow> access_policy \<Rightarrow> access_policy \<Rightarrow> string + access_policy" where
  "activate_verified_toggle prov mdl b cur expected verified =
     (if policy_validate verified \<noteq> Inr () then Inl ''invalid verified model policy''
      else case set_enabled prov mdl b (pol_models expected) of
        None \<Rightarrow> Inl ''model is not discovered''
      | Some ms \<Rightarrow>
          if expected\<lparr>pol_models := ms\<rparr> \<noteq> verified then Inl ''verified policy differs from approved model change''
          else if cur \<noteq> expected then Inl ''active model policy changed''
          else Inr verified)"

section \<open>Routing\<close>

definition is_metered_provider_id :: "string \<Rightarrow> bool" where
  "is_metered_provider_id b \<longleftrightarrow> b \<notin> {''ollama'', ''claude-cli'', ''codex-cli''}"

definition is_metered_backend :: "bool \<Rightarrow> string \<Rightarrow> bool" where
  "is_metered_backend remote b \<longleftrightarrow> is_metered_provider_id b \<or> (b = ''ollama'' \<and> remote)"

definition is_subscription_backend :: "string \<Rightarrow> bool" where
  "is_subscription_backend p \<longleftrightarrow> p = ''claude-cli'' \<or> p = ''codex-cli''"

definition ROUTING_PROVIDERS :: "string list" where
  "ROUTING_PROVIDERS = [''anthropic-api'', ''openai-api'', ''deepseek-api'', ''xai-api'', ''zai-api'',
     ''ollama'', ''ollama-cloud'', ''huggingface'', ''claude-cli'', ''codex-cli'']"

definition ROUTING_MAX_BYTES :: nat where "ROUTING_MAX_BYTES = 64 * 1024"
definition MAX_CHAIN :: nat where "MAX_CHAIN = 9"
definition MAX_MODEL_CHARS :: nat where "MAX_MODEL_CHARS = 256"

datatype tier = DefaultTier | HardTier | CheapTier

datatype paid_api = Allowed | PaidOff

datatype research_web_search = SearchOff | SearchOn

record route_entry =
  re_provider :: string
  re_model :: string

record tier_route =
  chain :: "route_entry list"
  metered_after_subscription :: bool

record tier_routes =
  cheap_route :: "tier_route option"
  default_route :: "tier_route option"
  hard_route :: "tier_route option"

record model_routing =
  mr_version :: nat
  mr_paid_api :: paid_api
  mr_tiers :: tier_routes
  mr_research :: research_web_search

text \<open>The filter of \<open>runtime_chain\<close> with its captured flag.\<close>

fun runtime_from :: "bool \<Rightarrow> bool \<Rightarrow> bool \<Rightarrow> route_entry list \<Rightarrow> route_entry list" where
  "runtime_from remote allowed after [] = []"
| "runtime_from remote allowed after (e # es) =
     (let rest = runtime_from remote allowed (after \<or> is_subscription_backend (re_provider e)) es
      in if after \<and> \<not> allowed \<and> is_metered_backend remote (re_provider e) then rest else e # rest)"

definition runtime_chain :: "bool \<Rightarrow> tier_route \<Rightarrow> route_entry list" where
  "runtime_chain remote t = runtime_from remote (metered_after_subscription t) False (chain t)"

fun validate_chain :: "bool \<Rightarrow> (string \<times> string) list \<Rightarrow> bool \<Rightarrow> route_entry list \<Rightarrow> string + unit" where
  "validate_chain allowed seen after [] = Inr ()"
| "validate_chain allowed seen after (e # es) =
     (if re_provider e \<notin> set ROUTING_PROVIDERS then Inl ''model routing names an unknown provider''
      else if re_model e = [] \<or> chars_count (re_model e) > MAX_MODEL_CHARS \<or> any_control (re_model e)
      then Inl ''model routing names an invalid model''
      else if (re_provider e, re_model e) \<in> set seen then Inl ''model routing chain has a duplicate entry''
      else if after \<and> is_metered_provider_id (re_provider e) \<and> \<not> allowed
      then Inl ''metered entry after a subscription needs explicit approval''
      else validate_chain allowed ((re_provider e, re_model e) # seen)
             (after \<or> is_subscription_backend (re_provider e)) es)"

definition validate_route :: "tier_route \<Rightarrow> string + unit" where
  "validate_route t =
     (if chain t = [] \<or> length (chain t) > MAX_CHAIN then Inl ''model routing chain must have 1 to 9 entries''
      else validate_chain (metered_after_subscription t) [] False (chain t))"

definition routes_of :: "model_routing \<Rightarrow> tier_route list" where
  "routes_of r = List.map_filter id [cheap_route (mr_tiers r), default_route (mr_tiers r), hard_route (mr_tiers r)]"

fun validate_routes :: "tier_route list \<Rightarrow> string + unit" where
  "validate_routes [] = Inr ()"
| "validate_routes (t # ts) = (case validate_route t of Inl e \<Rightarrow> Inl e | Inr _ \<Rightarrow> validate_routes ts)"

definition routing_validate :: "model_routing \<Rightarrow> string + unit" where
  "routing_validate r =
     (if mr_version r \<noteq> 1 then Inl ''unsupported model routing version'' else validate_routes (routes_of r))"

text \<open>Parsing: the JSON decoder is a parameter.\<close>

definition routing_parse :: "(string \<Rightarrow> model_routing option) \<Rightarrow> string \<Rightarrow> string + model_routing" where
  "routing_parse from_slice raw =
     (if length raw > ROUTING_MAX_BYTES then Inl ''model routing too large''
      else case from_slice raw of
        None \<Rightarrow> Inl ''invalid model routing''
      | Some r \<Rightarrow> (case routing_validate r of Inl e \<Rightarrow> Inl e | Inr _ \<Rightarrow> Inr r))"

definition all_discovered :: "model_routing \<Rightarrow> access_policy \<Rightarrow> bool" where
  "all_discovered r p = list_all (\<lambda>e. list_ex (\<lambda>k. acc_provider k = re_provider e \<and> acc_model k = re_model e)
     (pol_models p)) (concat (map chain (routes_of r)))"

fun routing_tier :: "model_routing \<Rightarrow> tier \<Rightarrow> tier_route option" where
  "routing_tier r CheapTier = cheap_route (mr_tiers r)"
| "routing_tier r DefaultTier = default_route (mr_tiers r)"
| "routing_tier r HardTier = hard_route (mr_tiers r)"

record routing_snapshot =
  routing :: "model_routing option"
  unavailable_reason :: "string option"

definition unavailable :: "string \<Rightarrow> routing_snapshot" where
  "unavailable reason = \<lparr>routing = None, unavailable_reason = Some reason\<rparr>"

definition snapshot_default :: routing_snapshot where
  "snapshot_default = \<lparr>routing = None, unavailable_reason = None\<rparr>"

definition paid_api_off :: "routing_snapshot \<Rightarrow> bool" where
  "paid_api_off s \<longleftrightarrow> unavailable_reason s \<noteq> None
     \<or> (case routing s of Some r \<Rightarrow> mr_paid_api r = PaidOff | None \<Rightarrow> False)"

definition research_web_search_on :: "routing_snapshot \<Rightarrow> bool" where
  "research_web_search_on s \<longleftrightarrow> unavailable_reason s = None
     \<and> (case routing s of Some r \<Rightarrow> mr_research r = SearchOn | None \<Rightarrow> False)"

definition refuses_provider :: "bool \<Rightarrow> routing_snapshot \<Rightarrow> string \<Rightarrow> bool" where
  "refuses_provider remote s prov \<longleftrightarrow> paid_api_off s \<and> is_metered_backend remote prov"

definition snapshot_tier :: "routing_snapshot \<Rightarrow> tier \<Rightarrow> tier_route option" where
  "snapshot_tier s t = Option.bind (routing s) (\<lambda>r. routing_tier r t)"

definition routing_swap :: "routing_snapshot \<Rightarrow> routing_snapshot \<Rightarrow> routing_snapshot \<Rightarrow> string + routing_snapshot" where
  "routing_swap cur expected next =
     (case (case routing next of Some r \<Rightarrow> routing_validate r | None \<Rightarrow> Inr ()) of
        Inl e \<Rightarrow> Inl e
      | Inr _ \<Rightarrow> if cur \<noteq> expected then Inl ''active model routing changed'' else Inr next)"

datatype routing_event = Swap routing_snapshot routing_snapshot | FailClosed string

fun routing_step :: "routing_snapshot \<Rightarrow> routing_event \<Rightarrow> routing_snapshot" where
  "routing_step cur (Swap expected next) = (case routing_swap cur expected next of Inl _ \<Rightarrow> cur | Inr s \<Rightarrow> s)"
| "routing_step cur (FailClosed reason) = unavailable reason"

section \<open>Lemmas on the access policy\<close>

lemma lower_of_component: "valid_component v \<Longrightarrow> to_ascii_lowercase v = v"
proof -
  have "\<not> is_ascii_uppercase c"
    if "is_ascii_lowercase c \<or> is_ascii_digit c \<or> c = CHR ''-''" for c
    using that by (auto simp: is_ascii_uppercase_def is_ascii_lowercase_def is_ascii_digit_def byte_def)
  then show "valid_component v \<Longrightarrow> to_ascii_lowercase v = v"
    unfolding valid_component_def to_ascii_lowercase_def list_all_iff
    by (intro map_idI) (simp add: lower_char_def)
qed

lemma validate_entries_ok:
  "validate_entries seen es = Inr () \<Longrightarrow>
     (\<forall>e \<in> set es. valid_component (acc_provider e)) \<and> distinct (map access_key es)
     \<and> set (map access_key es) \<inter> set seen = {}"
proof (induction es arbitrary: seen)
  case (Cons e es)
  from Cons.prems have v: "valid_component (acc_provider e)" and n: "access_key e \<notin> set seen"
    and r: "validate_entries (access_key e # seen) es = Inr ()"
    by (auto split: if_splits sum.splits option.splits)
  from Cons.IH [OF r] v n show ?case by auto
qed simp

lemma policy_validate_ok:
  assumes "policy_validate p = Inr ()"
  shows policy_version_ok: "pol_version p = 1"
    and policy_keys_exact: "e \<in> set (pol_models p) \<Longrightarrow> access_key e = exact_key e"
    and policy_keys_distinct: "distinct (map exact_key (pol_models p))"
proof -
  from assms have v: "pol_version p = 1" and es: "validate_entries [] (pol_models p) = Inr ()"
    by (auto simp: policy_validate_def split: if_splits)
  show "pol_version p = 1" by (rule v)
  from validate_entries_ok [OF es] have c: "\<forall>e \<in> set (pol_models p). valid_component (acc_provider e)"
    and d: "distinct (map access_key (pol_models p))" by simp_all
  have k: "access_key e = exact_key e" if "e \<in> set (pol_models p)" for e
    using c that by (simp add: access_key_def exact_key_def lower_of_component)
  then show "e \<in> set (pol_models p) \<Longrightarrow> access_key e = exact_key e" .
  have "map access_key (pol_models p) = map exact_key (pol_models p)"
    using k by simp
  with d show "distinct (map exact_key (pol_models p))" by simp
qed

lemma find_key_iff:
  "distinct (map f es) \<Longrightarrow> find (\<lambda>e. f e = k) es = Some e \<longleftrightarrow> e \<in> set es \<and> f e = k"
  by (induction es) (auto simp: in_image_iff)

lemma foldl_bt_get:
  "distinct (map exact_key es) \<Longrightarrow>
     al_get (foldl (\<lambda>m e. bt_insert (exact_key e) e m) m es) k
       = (case find (\<lambda>e. exact_key e = k) es of Some e \<Rightarrow> Some e | None \<Rightarrow> al_get m k)"
proof (induction es arbitrary: m)
  case (Cons e es)
  then have d: "distinct (map exact_key es)" and n: "exact_key e \<notin> exact_key ` set es" by simp_all
  show ?case
  proof (cases "exact_key e = k")
    case True
    with n have "find (\<lambda>e. exact_key e = k) es = None" by (auto simp: find_None_iff in_image_iff)
    with True show ?thesis by (simp add: Cons.IH [OF d] bt_insert_get)
  next
    case False
    then show ?thesis by (simp add: Cons.IH [OF d] bt_insert_get split: option.split)
  qed
qed simp

lemma find_by_key:
  assumes "policy_validate p = Inr ()"
  shows "policy_find p prov mdl = al_get (by_key (pol_models p)) (to_ascii_lowercase prov, mdl)"
proof -
  let ?k = "(to_ascii_lowercase prov, mdl)"
  have "policy_find p prov mdl = find (\<lambda>e. exact_key e = ?k) (pol_models p)"
    unfolding policy_find_def
  proof (rule find_cong [OF refl])
    fix e assume "e \<in> set (pol_models p)"
    from policy_keys_exact [OF assms this] show
      "(eq_ignore_ascii_case (acc_provider e) prov \<and> acc_model e = mdl) = (exact_key e = ?k)"
      by (auto simp: eq_ignore_ascii_case_def access_key_def)
  qed
  then show ?thesis
    by (simp add: by_key_def foldl_bt_get [OF policy_keys_distinct [OF assms]] split: option.splits)
qed

lemma by_key_wf: "bt_wf (by_key es)"
  unfolding by_key_def by (rule foldl_inv) (auto simp: bt_wf_def [of "[]"] intro: bt_insert_wf)

lemma by_key_in: "(k, e) \<in> set (by_key es) \<longleftrightarrow> al_get (by_key es) k = Some e"
  using bt_wf_distinct [OF by_key_wf] by simp

lemma check_kept_iff:
  "check_kept incoming prev = Inr () \<longleftrightarrow> (\<forall>(k, old) \<in> set prev. \<exists>new. al_get incoming k = Some new
     \<and> enabled old = enabled new \<and> acc_route old = acc_route new)"
  by (induction incoming prev rule: check_kept.induct) (auto split: option.splits)

lemma refresh_discovery_ok:
  assumes "refresh_discovery cur verified = Inr new"
  shows refresh_result: "new = verified"
    and refresh_valid: "policy_validate new = Inr ()"
    and refresh_live: "pol_version cur = 1"
    and refresh_keeps: "al_get (by_key (pol_models cur)) k = Some old \<Longrightarrow>
      \<exists>e. al_get (by_key (pol_models new)) k = Some e \<and> enabled e = enabled old \<and> acc_route e = acc_route old"
    and refresh_adds: "al_get (by_key (pol_models new)) k = Some e \<Longrightarrow> al_get (by_key (pol_models cur)) k = None \<Longrightarrow>
      \<not> enabled e \<and> acc_route e = None"
proof -
  let ?p = "by_key (pol_models cur)" and ?i = "by_key (pol_models verified)"
  from assms show new: "new = verified" and "pol_version cur = 1" and "policy_validate new = Inr ()"
    by (auto simp: refresh_discovery_def Let_def split: if_splits sum.splits)
  from assms have kept: "check_kept ?i ?p = Inr ()"
    and added: "\<not> list_ex (\<lambda>(k, new). \<not> al_has k ?p \<and> (enabled new \<or> acc_route new \<noteq> None)) ?i"
    by (auto simp: refresh_discovery_def Let_def split: if_splits sum.splits)
  show "\<exists>e. al_get (by_key (pol_models new)) k = Some e \<and> enabled e = enabled old \<and> acc_route e = acc_route old"
    if "al_get ?p k = Some old"
    using that kept unfolding check_kept_iff new by_key_in [symmetric] by fastforce
  show "\<not> enabled e \<and> acc_route e = None"
    if "al_get (by_key (pol_models new)) k = Some e" "al_get ?p k = None"
    using that added unfolding new by_key_in [symmetric] list_ex_iff al_has_iff by fastforce
qed

text \<open>
  Discovery never grants access and never changes a route. When a discovered catalog is
  accepted over a valid running policy, the new policy is valid, every model it lets through was let
  through before, every known model keeps its enabled bit, and no route differs. A suspended policy
  is never revived by discovery.\<close>

theorem discovery_never_grants:
  assumes "policy_validate cur = Inr ()" and "refresh_discovery cur verified = Inr new"
  shows "new = verified \<and> policy_validate new = Inr ()
    \<and> (live_allows new prov mdl \<longrightarrow> live_allows cur prov mdl)
    \<and> (policy_state cur prov mdl \<noteq> None \<longrightarrow> policy_state new prov mdl = policy_state cur prov mdl)
    \<and> policy_route new prov mdl = policy_route cur prov mdl
    \<and> refresh_discovery suspend verified = Inl (if length (pol_models verified) > 10000
         then ''discovered policy too large'' else ''model policy suspended'')"
proof -
  note ok = refresh_discovery_ok [OF assms(2)]
  note find = find_by_key [OF assms(1)] find_by_key [OF ok(2)]
  have "live_allows new prov mdl \<longrightarrow> live_allows cur prov mdl"
    using ok(3) ok(4,5) [of "(to_ascii_lowercase prov, mdl)"]
    by (cases "policy_find cur prov mdl"; cases "policy_find new prov mdl")
      (fastforce simp: live_allows_def policy_allows_def policy_state_def find)+
  moreover have "policy_state cur prov mdl \<noteq> None \<longrightarrow> policy_state new prov mdl = policy_state cur prov mdl"
    using ok(4) [of "(to_ascii_lowercase prov, mdl)"] by (fastforce simp: policy_state_def find)
  moreover have "policy_route new prov mdl = policy_route cur prov mdl"
    using ok(4,5) [of "(to_ascii_lowercase prov, mdl)"]
    by (cases "policy_find cur prov mdl"; cases "policy_find new prov mdl")
      (fastforce simp: policy_route_def find)+
  moreover have "refresh_discovery suspend verified = Inl (if length (pol_models verified) > 10000
         then ''discovered policy too large'' else ''model policy suspended'')"
    using ok(1,2) by (simp add: refresh_discovery_def suspend_def)
  ultimately show ?thesis using ok(1,2) by simp
qed

definition sample_policy :: "bool \<Rightarrow> access_policy" where
  "sample_policy b = \<lparr>pol_version = 1, pol_models = [
     \<lparr>acc_provider = ''zai-api'', acc_model = ''glm'', enabled = True, acc_source = ''configured'', acc_route = None\<rparr>,
     \<lparr>acc_provider = ''xai-api'', acc_model = ''grok'', enabled = b, acc_source = ''discovered'', acc_route = None\<rparr>]\<rparr>"

definition sample_before :: access_policy where
  "sample_before = \<lparr>pol_version = 1, pol_models = [
     \<lparr>acc_provider = ''zai-api'', acc_model = ''glm'', enabled = True, acc_source = ''configured'', acc_route = None\<rparr>]\<rparr>"

lemmas access_eval = policy_validate_def valid_component_def access_key_def not_blank eval_simps
  sample_policy_def sample_before_def

lemma sample_valid: "policy_validate (sample_policy b) = Inr ()" "policy_validate sample_before = Inr ()"
  by (simp_all add: access_eval del: trim_is_empty_def)

lemma sample_refresh: "refresh_discovery sample_before (sample_policy False) = Inr (sample_policy False)"
proof -
  have "by_key (pol_models sample_before) = [((''zai-api'', ''glm''), hd (pol_models sample_before))]"
    by (simp add: by_key_def sample_before_def exact_key_def)
  then show ?thesis
    by (simp add: refresh_discovery_def sample_valid) (simp add: sample_policy_def sample_before_def by_key_def exact_key_def al_has_def)
qed

theorem discovery_never_grants_witness:
  "refresh_discovery sample_before (sample_policy False) = Inr (sample_policy False)
   \<and> \<not> live_allows (sample_policy False) ''xai-api'' ''grok''
   \<and> live_allows (sample_policy False) ''zai-api'' ''glm''"
proof -
  have "policy_state sample_before ''zai-api'' ''glm'' = Some True"
    by (simp add: policy_state_def policy_find_def sample_before_def)
  with discovery_never_grants [OF sample_valid(2) sample_refresh, of "''zai-api''" "''glm''"]
  have "live_allows (sample_policy False) ''zai-api'' ''glm''"
    by (simp add: live_allows_def policy_allows_def sample_policy_def)
  moreover have "\<not> live_allows sample_before ''xai-api'' ''grok''"
    by (simp add: live_allows_def policy_allows_def policy_state_def policy_find_def sample_before_def eval_simps)
  with discovery_never_grants [OF sample_valid(2) sample_refresh, of "''xai-api''" "''grok''"]
  have "\<not> live_allows (sample_policy False) ''xai-api'' ''grok''" by blast
  ultimately show ?thesis by (simp add: sample_refresh)
qed

section \<open>Approved changes\<close>

lemma find_set_enabled:
  "set_enabled prov mdl b es = Some ms \<Longrightarrow>
     find (\<lambda>e. eq_ignore_ascii_case (acc_provider e) p \<and> acc_model e = m) ms
       = map_option (\<lambda>e. if acc_provider e = prov \<and> acc_model e = mdl then e\<lparr>enabled := b\<rparr> else e)
           (find (\<lambda>e. eq_ignore_ascii_case (acc_provider e) p \<and> acc_model e = m) es)"
proof (induction es arbitrary: ms)
  case (Cons e es)
  show ?case
  proof (cases "acc_provider e = prov \<and> acc_model e = mdl")
    case True
    with Cons.prems have ms: "ms = e\<lparr>enabled := b\<rparr> # es" by simp
    show ?thesis
    proof (cases "eq_ignore_ascii_case (acc_provider e) p \<and> acc_model e = m")
      case False
      have "\<not> (acc_provider x = prov \<and> acc_model x = mdl)"
        if "find (\<lambda>e. eq_ignore_ascii_case (acc_provider e) p \<and> acc_model e = m) es = Some x" for x
        using that True False by (auto simp: find_Some_iff)
      with True False ms show ?thesis
        by (cases "find (\<lambda>e. eq_ignore_ascii_case (acc_provider e) p \<and> acc_model e = m) es") auto
    qed (use True ms in simp)
  next
    case False
    with Cons.prems obtain ms' where r: "set_enabled prov mdl b es = Some ms'" and ms: "ms = e # ms'"
      by auto
    from Cons.IH [OF r] False ms show ?thesis by auto
  qed
qed simp

lemma set_enabled_found:
  "set_enabled prov mdl b es = Some ms \<Longrightarrow>
     \<exists>e \<in> set ms. acc_provider e = prov \<and> acc_model e = mdl \<and> enabled e = b"
  by (induction es arbitrary: ms) (auto split: if_splits)

lemma toggle_ok:
  assumes "activate_verified_toggle prov mdl b cur expected verified = Inr new"
  shows toggle_result: "new = verified" and toggle_expected: "cur = expected"
    and toggle_valid: "policy_validate verified = Inr ()"
    and toggle_enabled: "\<exists>ms. set_enabled prov mdl b (pol_models cur) = Some ms
      \<and> verified = cur\<lparr>pol_models := ms\<rparr>"
  using assms by (auto simp: activate_verified_toggle_def split: if_splits option.splits)

interpretation toggle: cas_cell "activate_verified_toggle prov mdl b" "\<lambda>p. policy_validate p = Inr ()"
  for prov mdl b
  by unfold_locales (auto dest: toggle_result toggle_expected toggle_valid)

lemma policy_find_member:
  assumes "policy_validate p = Inr ()" and "e \<in> set (pol_models p)"
  shows "policy_find p (acc_provider e) (acc_model e) = Some e"
proof -
  have "find (\<lambda>x. exact_key x = exact_key e) (pol_models p) = Some e"
    using find_key_iff [OF policy_keys_distinct [OF assms(1)]] assms(2) by simp
  then have "al_get (by_key (pol_models p)) (exact_key e) = Some e"
    by (simp add: by_key_def foldl_bt_get [OF policy_keys_distinct [OF assms(1)]])
  then show ?thesis
    using policy_keys_exact [OF assms] by (simp add: find_by_key [OF assms(1)] access_key_def)
qed

text \<open>
  An approved toggle changes exactly one bit. When it lands, the running policy was the one the
  approval was made against, the new policy is valid, the named model now has the approved state, and
  every other model keeps its state while every route and the version stay. A second approval made
  against the same old policy is refused unless the first one was a no-op.\<close>

theorem toggle_changes_one_bit:
  assumes "activate_verified_toggle prov mdl b cur expected verified = Inr new"
  shows "cur = expected \<and> new = verified \<and> policy_validate new = Inr ()
    \<and> live_allows new prov mdl = b
    \<and> (\<not> eq_ignore_ascii_case p prov \<or> m \<noteq> mdl \<longrightarrow> live_allows new p m = live_allows cur p m)
    \<and> policy_route new p m = policy_route cur p m
    \<and> (activate_verified_toggle prov' mdl' b' new expected verified' = Inr new' \<longrightarrow> new = cur)"
proof -
  obtain ms where ms: "set_enabled prov mdl b (pol_models cur) = Some ms" and v: "new = cur\<lparr>pol_models := ms\<rparr>"
    using toggle_enabled [OF assms] toggle_result [OF assms] by auto
  have valid: "policy_validate new = Inr ()" using toggle_valid [OF assms] toggle_result [OF assms] by simp
  from set_enabled_found [OF ms] obtain e where e: "e \<in> set (pol_models new)" "acc_provider e = prov"
      "acc_model e = mdl" "enabled e = b"
    using v by auto
  have target: "live_allows new prov mdl = b"
    using policy_find_member [OF valid e(1)] e policy_version_ok [OF valid]
    by (simp add: live_allows_def policy_allows_def policy_state_def)
  have find: "policy_find new p m = map_option
      (\<lambda>e. if acc_provider e = prov \<and> acc_model e = mdl then e\<lparr>enabled := b\<rparr> else e) (policy_find cur p m)"
    using find_set_enabled [OF ms] by (simp add: policy_find_def v)
  have hit: "eq_ignore_ascii_case (acc_provider f) p \<and> acc_model f = m" if "policy_find cur p m = Some f" for f
    using that by (auto simp: policy_find_def find_Some_iff)
  have other: "live_allows new p m = live_allows cur p m" if "\<not> eq_ignore_ascii_case p prov \<or> m \<noteq> mdl"
  proof -
    have "policy_find new p m = policy_find cur p m"
      using that hit eq_ignore_sym by (cases "policy_find cur p m") (auto simp: find)
    then show ?thesis using v by (simp add: live_allows_def policy_allows_def policy_state_def)
  qed
  have route: "policy_route new p m = policy_route cur p m"
    by (cases "policy_find cur p m") (simp_all add: policy_route_def find)
  have second: "new = cur" if "activate_verified_toggle prov' mdl' b' new expected verified' = Inr new'"
    using toggle_expected [OF that] toggle_expected [OF assms] by simp
  from target other route second valid toggle_result [OF assms] toggle_expected [OF assms]
  show ?thesis by blast
qed

lemma sample_toggle:
  "activate_verified_toggle ''xai-api'' ''grok'' True (sample_policy False) (sample_policy False) (sample_policy True)
     = Inr (sample_policy True)"
  by (simp add: activate_verified_toggle_def sample_valid) (simp add: sample_policy_def)

theorem toggle_changes_one_bit_witness:
  "activate_verified_toggle ''xai-api'' ''grok'' True (sample_policy False) (sample_policy False) (sample_policy True)
     = Inr (sample_policy True)
   \<and> live_allows (sample_policy True) ''xai-api'' ''grok''
   \<and> live_allows (sample_policy True) ''zai-api'' ''glm'' = live_allows (sample_policy False) ''zai-api'' ''glm''"
  using toggle_changes_one_bit [OF sample_toggle, of "''zai-api''" "''glm''"] sample_toggle by simp

section \<open>Lemmas on routing\<close>

definition snapshot_valid :: "routing_snapshot \<Rightarrow> bool" where
  "snapshot_valid s \<longleftrightarrow> (case routing s of Some r \<Rightarrow> routing_validate r = Inr () | None \<Rightarrow> True)"

interpretation routes: cas_cell routing_swap snapshot_valid
  by unfold_locales (auto simp: routing_swap_def snapshot_valid_def split: option.splits sum.splits if_splits)

interpretation live_routing: transition_system routing_step snapshot_valid
proof unfold_locales
  show "snapshot_valid (routing_step s e)" if "snapshot_valid s" for s e
  proof (cases e)
    case (Swap old new)
    with routes.attempt_valid [OF that, of "(old, new)"] show ?thesis
      by (simp add: routes.attempt_swap_def)
  qed (simp add: unavailable_def snapshot_valid_def)
qed

text \<open>No metered entry follows a subscription entry.\<close>

definition metered_tail :: "(string \<Rightarrow> bool) \<Rightarrow> route_entry list \<Rightarrow> bool" where
  "metered_tail metered es \<longleftrightarrow> (\<exists>i j. i < j \<and> j < length es
     \<and> is_subscription_backend (re_provider (es ! i)) \<and> metered (re_provider (es ! j)))"

lemma metered_tail_Cons:
  "metered_tail metered (e # es) \<longleftrightarrow> metered_tail metered es
     \<or> (is_subscription_backend (re_provider e) \<and> (\<exists>x \<in> set es. metered (re_provider x)))"
  (is "?l = ?r")
proof
  assume ?l
  then obtain i j where ij: "i < j" "j < length (e # es)"
    and h: "is_subscription_backend (re_provider ((e # es) ! i))" "metered (re_provider ((e # es) ! j))"
    unfolding metered_tail_def by blast
  from ij obtain j' where j: "j = Suc j'" by (cases j) auto
  show ?r
  proof (cases i)
    case 0
    with ij h j show ?thesis by (auto intro: bexI [of _ "es ! j'"])
  next
    case (Suc i')
    with ij h j show ?thesis unfolding metered_tail_def by auto
  qed
next
  assume ?r
  then show ?l
  proof
    assume "metered_tail metered es"
    then obtain i j where "i < j" "j < length es" "is_subscription_backend (re_provider (es ! i))"
      "metered (re_provider (es ! j))" unfolding metered_tail_def by blast
    then show ?l unfolding metered_tail_def by (intro exI [of _ "Suc i"] exI [of _ "Suc j"]) simp
  next
    assume h: "is_subscription_backend (re_provider e) \<and> (\<exists>x \<in> set es. metered (re_provider x))"
    then obtain j where "j < length es" "metered (re_provider (es ! j))" by (auto simp: in_set_conv_nth)
    with h show ?l unfolding metered_tail_def by (intro exI [of _ 0] exI [of _ "Suc j"]) simp
  qed
qed

lemma metered_tail_Nil [simp]: "\<not> metered_tail metered []"
  by (simp add: metered_tail_def)

lemma runtime_from_set: "set (runtime_from remote allowed after es) \<subseteq> set es"
proof (induction es arbitrary: after)
  case (Cons e es)
  from Cons.IH [of "after \<or> is_subscription_backend (re_provider e)"] show ?case
    by (auto simp: Let_def)
qed simp

lemma runtime_from_unmetered:
  "x \<in> set (runtime_from remote False True es) \<Longrightarrow> \<not> is_metered_backend remote (re_provider x)"
  by (induction es) (auto simp: Let_def split: if_splits)

lemma runtime_from_tail:
  "\<not> metered_tail (is_metered_backend remote) (runtime_from remote False after es)"
proof (induction es arbitrary: after)
  case (Cons e es)
  let ?s = "is_subscription_backend (re_provider e)"
  have "\<not> is_metered_backend remote (re_provider x)"
    if "?s" "x \<in> set (runtime_from remote False (after \<or> ?s) es)" for x
    using that runtime_from_unmetered by simp
  then have "\<not> metered_tail (is_metered_backend remote) (e # runtime_from remote False (after \<or> ?s) es)"
    using Cons.IH [of "after \<or> ?s"] unfolding metered_tail_Cons by blast
  with Cons.IH [of "after \<or> ?s"] show ?case unfolding runtime_from.simps Let_def by presburger
qed simp

lemma runtime_from_all: "runtime_from remote True after es = es"
  by (induction es arbitrary: after) simp_all

lemma validate_chain_ok:
  "validate_chain allowed seen after es = Inr () \<Longrightarrow>
     (\<forall>e \<in> set es. re_provider e \<in> set ROUTING_PROVIDERS \<and> re_model e \<noteq> []
        \<and> chars_count (re_model e) \<le> MAX_MODEL_CHARS \<and> \<not> any_control (re_model e))
     \<and> distinct (map (\<lambda>e. (re_provider e, re_model e)) es)
     \<and> set (map (\<lambda>e. (re_provider e, re_model e)) es) \<inter> set seen = {}
     \<and> (allowed \<or> \<not> metered_tail is_metered_provider_id es)
     \<and> (allowed \<or> \<not> after \<or> (\<forall>e \<in> set es. \<not> is_metered_provider_id (re_provider e)))"
proof (induction es arbitrary: seen after)
  case (Cons e es)
  from Cons.prems have
    e: "re_provider e \<in> set ROUTING_PROVIDERS" "re_model e \<noteq> []" "chars_count (re_model e) \<le> MAX_MODEL_CHARS"
       "\<not> any_control (re_model e)" "(re_provider e, re_model e) \<notin> set seen"
       "\<not> (after \<and> is_metered_provider_id (re_provider e) \<and> \<not> allowed)"
    and r: "validate_chain allowed ((re_provider e, re_model e) # seen)
             (after \<or> is_subscription_backend (re_provider e)) es = Inr ()"
    by (auto simp: not_less split: if_splits)
  from Cons.IH [OF r] e show ?case by (auto simp: metered_tail_Cons)
qed simp

lemma validate_routes_ok: "validate_routes ts = Inr () \<Longrightarrow> t \<in> set ts \<Longrightarrow> validate_route t = Inr ()"
  by (induction ts) (auto split: sum.splits)

lemma routing_tier_in: "routing_tier r t = Some route \<Longrightarrow> route \<in> set (routes_of r)"
  by (cases t) (auto simp: routes_of_def List.map_filter_def)

lemma snapshot_tier_ok:
  assumes "snapshot_valid s" and "snapshot_tier s t = Some route"
  shows "validate_route route = Inr ()"
proof -
  obtain r where r: "routing s = Some r" "routing_tier r t = Some route"
    using assms(2) by (cases "routing s") (auto simp: snapshot_tier_def)
  with assms(1) have "validate_routes (routes_of r) = Inr ()"
    by (auto simp: snapshot_valid_def routing_validate_def split: if_splits)
  then show ?thesis using routing_tier_in [OF r(2)] by (rule validate_routes_ok)
qed

text \<open>
  C38. Owner routing stays sound whatever is swapped in. After any sequence of swaps and failures
  from the start state, each routed tier has one to nine entries, without duplicates, that name known
  providers and well-formed models. The chain that is run is drawn from it, is complete when the owner
  allowed metered entries after a subscription, and otherwise has no entry that bills per call after a
  subscription entry, also when Ollama turns out to be remote.\<close>

theorem routed_chain_never_spends_silently:
  assumes "snapshot_tier (foldl routing_step snapshot_default events) t = Some route"
  shows "chain route \<noteq> [] \<and> length (chain route) \<le> 9
    \<and> distinct (map (\<lambda>e. (re_provider e, re_model e)) (chain route))
    \<and> (\<forall>e \<in> set (chain route). re_provider e \<in> set ROUTING_PROVIDERS \<and> re_model e \<noteq> []
         \<and> chars_count (re_model e) \<le> 256 \<and> \<not> any_control (re_model e))
    \<and> set (runtime_chain remote route) \<subseteq> set (chain route)
    \<and> (if metered_after_subscription route then runtime_chain remote route = chain route
       else \<not> metered_tail (is_metered_backend remote) (runtime_chain remote route)
          \<and> (\<not> remote \<longrightarrow> \<not> metered_tail (is_metered_backend remote) (chain route)))"
proof -
  have "snapshot_valid snapshot_default" by (simp add: snapshot_valid_def snapshot_default_def)
  from snapshot_tier_ok [OF live_routing.run_inv [OF this] assms]
  have n: "chain route \<noteq> []" "length (chain route) \<le> 9"
    and v: "validate_chain (metered_after_subscription route) [] False (chain route) = Inr ()"
    by (auto simp: validate_route_def MAX_CHAIN_def split: if_splits)
  have local: "is_metered_backend False = is_metered_provider_id"
    by (simp add: fun_eq_iff is_metered_backend_def)
  from validate_chain_ok [OF v] n runtime_from_set runtime_from_tail show ?thesis
    by (auto simp: runtime_chain_def runtime_from_all MAX_MODEL_CHARS_def local)
qed

definition sample_routing :: model_routing where
  "sample_routing = \<lparr>mr_version = 1, mr_paid_api = Allowed, mr_tiers = \<lparr>cheap_route = None,
     default_route = Some \<lparr>chain = [\<lparr>re_provider = ''claude-cli'', re_model = ''a''\<rparr>,
       \<lparr>re_provider = ''ollama'', re_model = ''b''\<rparr>], metered_after_subscription = False\<rparr>,
     hard_route = None\<rparr>, mr_research = SearchOff\<rparr>"

definition sample_snapshot :: routing_snapshot where
  "sample_snapshot = \<lparr>routing = Some sample_routing, unavailable_reason = None\<rparr>"

lemma sample_swap: "routing_step snapshot_default (Swap snapshot_default sample_snapshot) = sample_snapshot"
  by (simp add: routing_swap_def sample_snapshot_def snapshot_default_def)
    (simp add: sample_routing_def routing_validate_def routes_of_def List.map_filter_def validate_route_def
      MAX_CHAIN_def ROUTING_PROVIDERS_def MAX_MODEL_CHARS_def is_subscription_backend_def
      is_metered_provider_id_def eval_simps)

theorem routed_chain_never_spends_silently_witness:
  "map re_provider (runtime_chain True (the (snapshot_tier sample_snapshot DefaultTier))) = [''claude-cli'']
   \<and> \<not> metered_tail (is_metered_backend True) (runtime_chain True (the (snapshot_tier sample_snapshot DefaultTier)))"
proof -
  let ?r = "the (snapshot_tier sample_snapshot DefaultTier)"
  have "snapshot_tier (foldl routing_step snapshot_default [Swap snapshot_default sample_snapshot]) DefaultTier = Some ?r"
    unfolding foldl.simps sample_swap by (simp add: snapshot_tier_def sample_snapshot_def sample_routing_def)
  from routed_chain_never_spends_silently [OF this, of True]
  have "\<not> metered_tail (is_metered_backend True) (runtime_chain True ?r)"
    by (simp add: snapshot_tier_def sample_snapshot_def sample_routing_def)
  then show ?thesis
    by (simp add: snapshot_tier_def sample_snapshot_def sample_routing_def runtime_chain_def
        is_subscription_backend_def is_metered_backend_def is_metered_provider_id_def)
qed

text \<open>
  Failing closed sticks. Once routing is marked unavailable, no writer that read an earlier
  snapshot can bring it back: through any number of such late swaps and further failures the paid
  route stays off, research search stays off, no owner chain applies, and a provider is refused exactly
  when it bills per call.\<close>

theorem fail_closed_sticks:
  assumes "\<forall>e \<in> set events. case e of Swap old _ \<Rightarrow> unavailable_reason old = None | FailClosed _ \<Rightarrow> True"
  shows "let s = foldl routing_step cur (FailClosed reason # events) in
    paid_api_off s \<and> \<not> research_web_search_on s \<and> snapshot_tier s t = None
    \<and> (refuses_provider remote s prov \<longleftrightarrow> is_metered_backend remote prov)"
proof -
  let ?down = "\<lambda>s. routing s = None \<and> unavailable_reason s \<noteq> None"
  have "?down (foldl routing_step (unavailable reason) events)"
  proof (rule foldl_inv [where P = ?down])
    show "?down (unavailable reason)" by (simp add: unavailable_def)
    show "?down (routing_step s e)" if e: "e \<in> set events" and s: "?down s" for s e
    proof (cases e)
      case (Swap old new)
      with assms e s have "s \<noteq> old" by auto
      then have "routing_step s e = s" using Swap by (auto simp: routing_swap_def split: sum.splits)
      with s show ?thesis by simp
    qed (simp add: unavailable_def)
  qed
  then show ?thesis
    by (simp add: paid_api_off_def research_web_search_on_def snapshot_tier_def refuses_provider_def Let_def)
qed

theorem fail_closed_sticks_witness:
  "refuses_provider False (foldl routing_step sample_snapshot
     [FailClosed ''stale'', Swap sample_snapshot sample_snapshot]) ''zai-api''"
proof -
  have h: "\<forall>e \<in> set [Swap sample_snapshot sample_snapshot].
      case e of Swap old _ \<Rightarrow> unavailable_reason old = None | FailClosed _ \<Rightarrow> True"
    by (simp add: sample_snapshot_def)
  show ?thesis
    using fail_closed_sticks [OF h, of sample_snapshot "''stale''" DefaultTier False "''zai-api''"]
    by (simp add: Let_def is_metered_backend_def is_metered_provider_id_def)
qed

end
