(* ===== verification/Router.thy ===== *)
theory Router
  imports Model_Access
begin

text \<open>
  \<^verbatim>\<open>src/crates/llm/src/router.rs\<close>, \<^verbatim>\<open>types.rs\<close> and \<^verbatim>\<open>fallback.rs\<close>: how a request reaches a model.
  A plan of backends is made from the owner's routing or a built-in order; the backends are tried in
  turn, and a failing one is left alone for a while.

  The allowlist and the routing are live: the owner may change them while a request is in flight. So
  each attempt \<open>i\<close> of a request has its own \<open>observation\<close>: the policy, the routing and the time at that
  moment, and what the provider answers. Besides the result, each entry point gives the list of
  calls it made to providers. A backend is its id; the registry's availability is a parameter. The
  log lines are left out.
\<close>

section \<open>Requests, replies and errors\<close>

datatype routing_mode = Auto | Fast | Deep | Research

definition parse_mode :: "string \<Rightarrow> routing_mode" where
  "parse_mode v = (let s = to_ascii_lowercase (trim v) in
     if s \<in> {''fast'', ''cheap'', ''quick''} then Fast
     else if s \<in> {''deep'', ''hard''} then Deep
     else if s = ''research'' then Research else Auto)"

fun mode_tier :: "routing_mode \<Rightarrow> tier" where
  "mode_tier Fast = CheapTier"
| "mode_tier Deep = HardTier"
| "mode_tier Research = HardTier"
| "mode_tier Auto = DefaultTier"

definition parse_tier :: "string \<Rightarrow> tier" where
  "parse_tier v = (let s = to_ascii_lowercase (trim v) in
     if s \<in> {''hard'', ''opus'', ''deep''} then HardTier
     else if s \<in> {''cheap'', ''fast'', ''haiku'', ''quick''} then CheapTier else DefaultTier)"

record task_requirements =
  tr_tier :: tier
  needs_research :: bool
  likely_tool_use :: bool
  safety_sensitive :: bool
  routing_reason :: string

definition any_needle :: "string \<Rightarrow> string list \<Rightarrow> bool" where
  "any_needle s needles = list_ex (contains_str s) needles"

definition classify_task :: "routing_mode \<Rightarrow> string \<Rightarrow> task_requirements" where
  "classify_task mode request =
     (let normalized = to_ascii_lowercase request;
          research = (mode = Research \<or> any_needle normalized
            [''onderzoek'', ''research'', ''bronnen'', ''sources'', ''actueel'', ''latest'', ''nieuws'']);
          tool = any_needle normalized
            [''code'', ''debug'', ''repository'', ''repo'', ''bestand'', ''file'', ''analyseer data''];
          safety = any_needle normalized
            [''trade'', ''handelen'', ''order'', ''portfolio'', ''beveilig'', ''security'', ''secret'',
             ''credential'', ''wachtwoord'', ''approval'', ''goedkeur''];
          inherently_deep = (research \<or> tool \<or> safety \<or> chars_count request > 4000
            \<or> any_needle normalized [''vergelijk'', ''plan'', ''strategie'', ''architectuur'', ''redeneer''])
      in case mode of
        Deep \<Rightarrow> \<lparr>tr_tier = HardTier, needs_research = research, likely_tool_use = tool, safety_sensitive = safety,
          routing_reason = ''Deep reasoning requested; strong-quality routing floor applied.''\<rparr>
      | Research \<Rightarrow> \<lparr>tr_tier = HardTier, needs_research = True, likely_tool_use = True, safety_sensitive = safety,
          routing_reason = ''Research requested; strong-quality routing floor and approved research tooling may be used.''\<rparr>
      | Fast \<Rightarrow>
          if \<not> inherently_deep
          then \<lparr>tr_tier = CheapTier, needs_research = research, likely_tool_use = tool, safety_sensitive = safety,
            routing_reason = ''Fast mode requested; utility-quality routing floor applied.''\<rparr>
          else \<lparr>tr_tier = DefaultTier, needs_research = research, likely_tool_use = tool, safety_sensitive = safety,
            routing_reason = ''Fast mode retained a standard-quality floor for this task's safety or complexity.''\<rparr>
      | Auto \<Rightarrow>
          if inherently_deep
          then \<lparr>tr_tier = HardTier, needs_research = research, likely_tool_use = tool, safety_sensitive = safety,
            routing_reason = ''Task complexity or safety relevance selected a strong-quality routing floor.''\<rparr>
          else \<lparr>tr_tier = DefaultTier, needs_research = research, likely_tool_use = tool, safety_sensitive = safety,
            routing_reason = ''Automatic quality/capability routing selected a standard-quality floor.''\<rparr>)"

datatype chat_role = User | Assistant

record chat_message =
  cm_role :: chat_role
  cm_content :: string

record chat_request =
  rq_system :: "string option"
  rq_messages :: "chat_message list"
  rq_tier :: tier
  rq_mode :: routing_mode
  rq_max_tokens :: nat
  rq_model :: "string option"
  rq_provider :: "string option"

definition MAX_RESEARCH_QUESTION_CHARS :: nat where "MAX_RESEARCH_QUESTION_CHARS = 2000"

record research_request =
  rs_question :: string
  rs_model :: "string option"

definition research_request_new :: "string \<Rightarrow> research_request option" where
  "research_request_new question = (let q = trim question in
     if q \<noteq> [] \<and> chars_count q \<le> MAX_RESEARCH_QUESTION_CHARS
     then Some \<lparr>rs_question = q, rs_model = None\<rparr> else None)"

record usage =
  input_tokens :: nat
  output_tokens :: nat
  cache_read_tokens :: nat
  cache_write_tokens :: nat

record chat_reply =
  cr_text :: string
  cr_model :: string
  cr_backend :: "string option"
  requested_route :: "string option"
  actual_provider :: "string option"
  stop_reason :: "string option"
  cr_usage :: "usage option"
  fallback_count :: nat

text \<open>\<open>Http\<close> carries whether the transport error was a timeout.\<close>

datatype llm_error = Http bool | Api nat string | Refused | EmptyReply | NotConfigured string

datatype provider_failure = Transport | RateLimited | Authentication | Unavailable
  | ContextOverflow | MalformedResponse | RefusedFailure | NotConfiguredFailure

fun failure_category :: "llm_error \<Rightarrow> provider_failure" where
  "failure_category (Http _) = Transport"
| "failure_category (Api status body) =
     (if status \<in> {401, 403} then Authentication
      else if status \<in> {408, 504} then Transport
      else if status \<in> {413, 422} \<and> contains_str (to_ascii_lowercase body) ''context'' then ContextOverflow
      else if status = 429 then RateLimited
      else if 500 \<le> status \<and> status \<le> 599 then Unavailable
      else MalformedResponse)"
| "failure_category EmptyReply = MalformedResponse"
| "failure_category Refused = RefusedFailure"
| "failure_category (NotConfigured _) = NotConfiguredFailure"

definition usage_rest :: "llm_error \<Rightarrow> string" where
  "usage_rest e = (case failure_category e of
     RateLimited \<Rightarrow> ''rate_limited'' | Authentication \<Rightarrow> ''auth''
   | Transport \<Rightarrow> ''unavailable'' | Unavailable \<Rightarrow> ''unavailable'' | _ \<Rightarrow> ''other'')"

fun usage_failure_category :: "llm_error \<Rightarrow> string" where
  "usage_failure_category (Http timeout) = (if timeout then ''timeout'' else usage_rest (Http timeout))"
| "usage_failure_category (Api status body) =
     (if status \<in> {408, 504} then ''timeout''
      else if status = 429 \<and> ends_with body ''plan limit reached'' then ''plan_limit''
      else if ends_with body ''attempted tool use and was refused'' then ''tool_use_refused''
      else usage_rest (Api status body))"
| "usage_failure_category Refused = ''refused''"
| "usage_failure_category (NotConfigured _) = ''model_unavailable''"
| "usage_failure_category EmptyReply = usage_rest EmptyReply"

definition USAGE_FAILURE_CATEGORIES :: "string list" where
  "USAGE_FAILURE_CATEGORIES = [''timeout'', ''rate_limited'', ''plan_limit'', ''auth'', ''unavailable'',
     ''refused'', ''tool_use_refused'', ''model_unavailable'', ''other'']"

section \<open>The router\<close>

datatype model_class = Light | Mid | Heavy | Reasoning

record catalog_model =
  cat_backend :: string
  cat_id :: string
  cat_class :: model_class

record router =
  candidates :: "string list"
  catalog :: "catalog_model list"
  ollama_remote :: bool

type_synonym health = "(string \<times> int) list"

record observation =
  ob_policy :: access_policy
  ob_routing :: routing_snapshot
  ob_now :: int
  ob_answer :: "string \<Rightarrow> string \<Rightarrow> llm_error + chat_reply"

type_synonym call = "nat \<times> string \<times> string"

definition rsecs :: "int \<Rightarrow> int" where "rsecs n = n * 1000000000"

fun target_classes :: "tier \<Rightarrow> model_class list" where
  "target_classes CheapTier = [Light]"
| "target_classes DefaultTier = [Light, Mid]"
| "target_classes HardTier = [Heavy, Reasoning, Mid]"

definition dynamic_cloud_backend :: "string \<Rightarrow> bool" where
  "dynamic_cloud_backend b \<longleftrightarrow> b \<in> {''codex-cli'', ''openai-api'', ''anthropic-api'', ''deepseek-api'',
     ''xai-api'', ''zai-api'', ''ollama-cloud'', ''huggingface''}"

definition discovered_model :: "router \<Rightarrow> access_policy \<Rightarrow> string \<Rightarrow> access_entry option" where
  "discovered_model rt p b = find (\<lambda>e. acc_provider e = b \<and> enabled e
     \<and> \<not> list_ex (\<lambda>m. cat_backend m = b \<and> cat_id m = acc_model e) (catalog rt)) (pol_models p)"

fun model_of_classes :: "router \<Rightarrow> access_policy \<Rightarrow> string \<Rightarrow> model_class list \<Rightarrow> string option" where
  "model_of_classes rt p b [] = None"
| "model_of_classes rt p b (want # rest) =
     (case find (\<lambda>m. cat_backend m = b \<and> cat_class m = want \<and> live_allows p (cat_backend m) (cat_id m)) (catalog rt) of
        Some m \<Rightarrow> Some (cat_id m)
      | None \<Rightarrow>
          if want = Mid \<and> dynamic_cloud_backend b
          then (case discovered_model rt p b of
              Some e \<Rightarrow> Some (acc_model e) | None \<Rightarrow> model_of_classes rt p b rest)
          else model_of_classes rt p b rest)"

definition model_for :: "router \<Rightarrow> access_policy \<Rightarrow> string \<Rightarrow> tier \<Rightarrow> string option" where
  "model_for rt p b t = model_of_classes rt p b (target_classes t)"

fun builtin_order :: "tier \<Rightarrow> string list" where
  "builtin_order CheapTier = [''ollama'', ''claude-cli'', ''deepseek-api'', ''zai-api'', ''openai-api'', ''xai-api'',
     ''anthropic-api'', ''ollama-cloud'', ''huggingface'']"
| "builtin_order DefaultTier = [''claude-cli'', ''anthropic-api'', ''openai-api'', ''deepseek-api'', ''xai-api'',
     ''zai-api'', ''ollama-cloud'', ''huggingface'', ''ollama'']"
| "builtin_order HardTier = [''claude-cli'', ''anthropic-api'', ''openai-api'', ''xai-api'', ''zai-api'',
     ''ollama-cloud'', ''huggingface'']"

fun cooldown_for :: "provider_failure \<Rightarrow> int" where
  "cooldown_for Authentication = rsecs (15 * 60)"
| "cooldown_for RateLimited = rsecs 60"
| "cooldown_for Unavailable = rsecs 30"
| "cooldown_for Transport = rsecs 30"
| "cooldown_for ContextOverflow = rsecs 15"
| "cooldown_for MalformedResponse = rsecs 15"
| "cooldown_for NotConfiguredFailure = rsecs (5 * 60)"
| "cooldown_for RefusedFailure = 0"

definition is_healthy :: "int \<Rightarrow> health \<Rightarrow> string \<Rightarrow> bool \<times> health" where
  "is_healthy now h b = (case al_get h b of
     Some until \<Rightarrow> if until > now then (False, h) else (True, al_remove b h)
   | None \<Rightarrow> (True, h))"

definition record_failure :: "int \<Rightarrow> health \<Rightarrow> string \<Rightarrow> provider_failure \<Rightarrow> health" where
  "record_failure now h b f = (if cooldown_for f = 0 then h else bt_insert b (now + cooldown_for f) h)"

definition record_success :: "health \<Rightarrow> string \<Rightarrow> health" where
  "record_success h b = al_remove b h"

fun keep_healthy :: "(nat \<Rightarrow> int) \<Rightarrow> nat \<Rightarrow> health \<Rightarrow> (string \<times> string option) list
    \<Rightarrow> (string \<times> string option) list \<times> health" where
  "keep_healthy clock i h [] = ([], h)"
| "keep_healthy clock i h (c # cs) =
     (let (ok, h1) = is_healthy (clock i) h (fst c);
          (rest, h2) = keep_healthy clock (Suc i) h1 cs
      in (if ok then c # rest else rest, h2))"

definition plan_order :: "router \<Rightarrow> routing_snapshot \<Rightarrow> tier \<Rightarrow> bool \<Rightarrow> string option \<Rightarrow> (string \<times> string option) list" where
  "plan_order rt s t routed only =
     (case only of
        Some p \<Rightarrow> if p \<in> set (candidates rt) then [(p, None)] else []
      | None \<Rightarrow> (case (if routed then snapshot_tier s t else None) of
          Some route \<Rightarrow> map (\<lambda>e. (re_provider e, Some (re_model e)))
            (filter (\<lambda>e. re_provider e \<in> set (candidates rt)) (runtime_chain (ollama_remote rt) route))
        | None \<Rightarrow> map (\<lambda>b. (b, None)) (filter (\<lambda>b. b \<in> set (candidates rt)) (builtin_order t))))"

definition plan_base :: "router \<Rightarrow> (string \<Rightarrow> bool) \<Rightarrow> routing_snapshot \<Rightarrow> tier \<Rightarrow> bool \<Rightarrow> string option
    \<Rightarrow> (string \<times> string option) list" where
  "plan_base rt available s t routed only =
     (let ordered = filter (\<lambda>c. \<not> refuses_provider (ollama_remote rt) s (fst c)) (plan_order rt s t routed only);
          up = filter (\<lambda>c. available (fst c)) ordered
      in if up = [] then filter (\<lambda>c. \<not> is_metered_backend (ollama_remote rt) (fst c)) ordered else up)"

definition plan :: "router \<Rightarrow> (string \<Rightarrow> bool) \<Rightarrow> (nat \<Rightarrow> int) \<Rightarrow> health \<Rightarrow> routing_snapshot \<Rightarrow> tier \<Rightarrow> bool
    \<Rightarrow> string option \<Rightarrow> (string \<times> string option) list \<times> health" where
  "plan rt available clock h s t routed only = keep_healthy clock 0 h (plan_base rt available s t routed only)"

definition requested_model_is_allowed :: "router \<Rightarrow> access_policy \<Rightarrow> string \<Rightarrow> string \<Rightarrow> bool" where
  "requested_model_is_allowed rt p b m \<longleftrightarrow>
     (dynamic_cloud_backend b \<or> list_ex (\<lambda>c. cat_backend c = b \<and> cat_id c = m) (catalog rt)) \<and> live_allows p b m"

definition choose_model :: "router \<Rightarrow> access_policy \<Rightarrow> string \<Rightarrow> string option \<Rightarrow> string option \<Rightarrow> tier \<Rightarrow> string option" where
  "choose_model rt p b pinned requested t =
     (case requested of
        Some m \<Rightarrow> if requested_model_is_allowed rt p b m then Some m else None
      | None \<Rightarrow> (case pinned of
          Some m \<Rightarrow> if live_allows p b m then Some m else None
        | None \<Rightarrow> model_for rt p b t))"

definition research_failure_affects_chat :: "provider_failure \<Rightarrow> bool" where
  "research_failure_affects_chat f \<longleftrightarrow> f = Authentication \<or> f = RateLimited"

definition can_serve_tier :: "router \<Rightarrow> (string \<Rightarrow> bool) \<Rightarrow> (nat \<Rightarrow> int) \<Rightarrow> access_policy \<Rightarrow> routing_snapshot
    \<Rightarrow> health \<Rightarrow> tier \<Rightarrow> bool" where
  "can_serve_tier rt available clock p s h t =
     list_ex (\<lambda>(b, pinned). choose_model rt p b pinned None t \<noteq> None) (fst (plan rt available clock h s t True None))"

section \<open>The entry points\<close>

fun stream_attempt :: "router \<Rightarrow> (nat \<Rightarrow> observation) \<Rightarrow> chat_request \<Rightarrow> nat \<Rightarrow> health
    \<Rightarrow> (string \<times> string option) list \<Rightarrow> (llm_error + chat_reply) \<times> health \<times> call list" where
  "stream_attempt rt obs req i h [] = (Inl (NotConfigured ''no owner-enabled capable brain''), h, [])"
| "stream_attempt rt obs req i h ((b, pinned) # rest) =
     (if refuses_provider (ollama_remote rt) (ob_routing (obs i)) b then stream_attempt rt obs req (Suc i) h rest
      else case choose_model rt (ob_policy (obs i)) b pinned (rq_model req) (rq_tier req) of
        None \<Rightarrow> stream_attempt rt obs req (Suc i) h rest
      | Some m \<Rightarrow> (case ob_answer (obs i) b m of
          Inr reply \<Rightarrow> (Inr reply, record_success h b, [(i, b, m)])
        | Inl e \<Rightarrow> (Inl e, record_failure (ob_now (obs i)) h b (failure_category e), [(i, b, m)])))"

fun chat_attempts :: "router \<Rightarrow> (nat \<Rightarrow> observation) \<Rightarrow> chat_request \<Rightarrow> nat \<Rightarrow> llm_error option \<Rightarrow> nat \<Rightarrow> health
    \<Rightarrow> (string \<times> string option) list \<Rightarrow> (llm_error + chat_reply) \<times> health \<times> call list" where
  "chat_attempts rt obs req i latest n h [] =
     (Inl (case latest of Some e \<Rightarrow> e | None \<Rightarrow> NotConfigured ''no brain answered''), h, [])"
| "chat_attempts rt obs req i latest n h ((b, pinned) # rest) =
     (case choose_model rt (ob_policy (obs i)) b pinned (rq_model req) (rq_tier req) of
        None \<Rightarrow> chat_attempts rt obs req (Suc i) latest n h rest
      | Some m \<Rightarrow>
          if refuses_provider (ollama_remote rt) (ob_routing (obs i)) b
          then chat_attempts rt obs req (Suc i) latest n h rest
          else (case ob_answer (obs i) b m of
              Inr reply \<Rightarrow> (Inr (reply\<lparr>fallback_count := n\<rparr>), record_success h b, [(i, b, m)])
            | Inl e \<Rightarrow>
                if e = Refused then (Inl Refused, h, [(i, b, m)])
                else let (r, h', calls) = chat_attempts rt obs req (Suc i) (Some e) (Suc n)
                       (record_failure (ob_now (obs i)) h b (failure_category e)) rest
                     in (r, h', (i, b, m) # calls)))"

fun research_attempts :: "router \<Rightarrow> (nat \<Rightarrow> observation) \<Rightarrow> nat \<Rightarrow> llm_error option \<Rightarrow> nat \<Rightarrow> health
    \<Rightarrow> (string \<times> string option) list \<Rightarrow> (llm_error + chat_reply) \<times> health \<times> call list" where
  "research_attempts rt obs i latest n h [] =
     (Inl (case latest of Some e \<Rightarrow> e | None \<Rightarrow> NotConfigured ''no owner-enabled subscription can research''), h, [])"
| "research_attempts rt obs i latest n h ((b, pinned) # rest) =
     (if \<not> is_subscription_backend b then research_attempts rt obs (Suc i) latest n h rest
      else if \<not> research_web_search_on (ob_routing (obs i))
      then (Inl (NotConfigured ''research web search is off''), h, [])
      else case choose_model rt (ob_policy (obs i)) b pinned None HardTier of
        None \<Rightarrow> research_attempts rt obs (Suc i) latest n h rest
      | Some m \<Rightarrow> (case ob_answer (obs i) b m of
          Inr reply \<Rightarrow> (Inr (reply\<lparr>fallback_count := n\<rparr>), record_success h b, [(i, b, m)])
        | Inl e \<Rightarrow>
            if e = Refused then (Inl Refused, h, [(i, b, m)])
            else let f = failure_category e;
                     h1 = (if research_failure_affects_chat f then record_failure (ob_now (obs i)) h b f else h);
                     (r, h', calls) = research_attempts rt obs (Suc i) (Some e) (Suc n) h1 rest
                 in (r, h', (i, b, m) # calls)))"

definition chat_stream :: "router \<Rightarrow> (string \<Rightarrow> bool) \<Rightarrow> (nat \<Rightarrow> int) \<Rightarrow> routing_snapshot \<Rightarrow> (nat \<Rightarrow> observation)
    \<Rightarrow> health \<Rightarrow> chat_request \<Rightarrow> (llm_error + chat_reply) \<times> health \<times> call list" where
  "chat_stream rt available clock s obs h req =
     (let (cs, h1) = plan rt available clock h s (rq_tier req) (rq_model req = None) (rq_provider req)
      in stream_attempt rt obs req 0 h1 cs)"

definition chat :: "router \<Rightarrow> (string \<Rightarrow> bool) \<Rightarrow> (nat \<Rightarrow> int) \<Rightarrow> routing_snapshot \<Rightarrow> (nat \<Rightarrow> observation)
    \<Rightarrow> health \<Rightarrow> chat_request \<Rightarrow> (llm_error + chat_reply) \<times> health \<times> call list" where
  "chat rt available clock s obs h req =
     (let (cs, h1) = plan rt available clock h s (rq_tier req) (rq_model req = None) (rq_provider req)
      in if cs = [] then (Inl (NotConfigured ''no capable brain for this tier''), h1, [])
         else chat_attempts rt obs req 0 None 0 h1 cs)"

definition research :: "router \<Rightarrow> (string \<Rightarrow> bool) \<Rightarrow> (nat \<Rightarrow> int) \<Rightarrow> routing_snapshot \<Rightarrow> (nat \<Rightarrow> observation)
    \<Rightarrow> health \<Rightarrow> routing_snapshot \<Rightarrow> (llm_error + chat_reply) \<times> health \<times> call list" where
  "research rt available clock first obs h s =
     (if \<not> research_web_search_on first then (Inl (NotConfigured ''research web search is off''), h, [])
      else let (cs, h1) = plan rt available clock h s HardTier True None
           in research_attempts rt obs 0 None 0 h1 cs)"

text \<open>The local fallback around one primary provider.\<close>

definition fallback_chat :: "(chat_request \<Rightarrow> llm_error + chat_reply) \<Rightarrow> (chat_request \<Rightarrow> llm_error + chat_reply)
    \<Rightarrow> chat_request \<Rightarrow> llm_error + chat_reply" where
  "fallback_chat primary fallback req = (case primary req of
     Inr reply \<Rightarrow> Inr reply
   | Inl e \<Rightarrow> if e = Refused then Inl Refused
       else (case fallback req of
           Inl e' \<Rightarrow> Inl e'
         | Inr reply \<Rightarrow> Inr (reply\<lparr>fallback_count := sat_add u32_max (fallback_count reply) 1\<rparr>)))"

section \<open>Lemmas on plans\<close>

lemma plan_order_candidate: "c \<in> set (plan_order rt s t routed only) \<Longrightarrow> fst c \<in> set (candidates rt)"
  by (auto simp: plan_order_def split: option.splits if_splits)

lemma plan_order_only: "c \<in> set (plan_order rt s t routed (Some p)) \<Longrightarrow> fst c = p"
  by (auto simp: plan_order_def split: if_splits)

lemma plan_base_ok:
  assumes "c \<in> set (plan_base rt available s t routed only)"
  shows "c \<in> set (plan_order rt s t routed only)" and "\<not> refuses_provider (ollama_remote rt) s (fst c)"
    and "is_metered_backend (ollama_remote rt) (fst c) \<Longrightarrow> available (fst c)"
  using assms by (auto simp: plan_base_def Let_def split: if_splits)

lemma keep_healthy_subset: "set (fst (keep_healthy clock i h cs)) \<subseteq> set cs"
  by (induction cs arbitrary: i h) (auto simp: Let_def split_beta)

lemma is_healthy_get:
  assumes "is_healthy now h b = (ok, h1)" and "al_get h b' = Some u"
  shows "al_get h1 b' = Some u \<or> (b' = b \<and> u \<le> now)"
  using assms by (auto simp: is_healthy_def al_remove_get split: option.splits if_splits)

lemma keep_healthy_expired:
  "c \<in> set (fst (keep_healthy clock i h cs)) \<Longrightarrow> al_get h (fst c) = Some u \<Longrightarrow> \<exists>j. u \<le> clock j"
proof (induction cs arbitrary: i h)
  case (Cons d cs)
  obtain ok h1 where ok: "is_healthy (clock i) h (fst d) = (ok, h1)" by fastforce
  show ?case
  proof (cases "c = d \<and> ok")
    case True
    with ok Cons.prems(2) have "u \<le> clock i" by (auto simp: is_healthy_def split: if_splits)
    then show ?thesis by blast
  next
    case False
    with Cons.prems(1) ok have r: "c \<in> set (fst (keep_healthy clock (Suc i) h1 cs))"
      by (auto simp: Let_def split_beta split: if_splits)
    from is_healthy_get [OF ok Cons.prems(2)] Cons.IH [OF r] show ?thesis by blast
  qed
qed simp

lemma keep_healthy_up:
  "(\<And>u. al_get h (fst c) = Some u \<Longrightarrow> \<forall>j. u \<le> clock j) \<Longrightarrow> c \<in> set cs
     \<Longrightarrow> c \<in> set (fst (keep_healthy clock i h cs))"
proof (induction cs arbitrary: i h)
  case (Cons d cs)
  obtain ok h1 where ok: "is_healthy (clock i) h (fst d) = (ok, h1)" by fastforce
  have keep: "al_get h1 (fst c) = Some u \<Longrightarrow> al_get h (fst c) = Some u" for u
    using ok by (auto simp: is_healthy_def al_remove_get split: option.splits if_splits)
  show ?case
  proof (cases "c = d")
    case True
    have "al_get h (fst c) = Some u \<Longrightarrow> \<not> u > clock i" for u using Cons.prems(1) by (simp add: not_less)
    with True ok have ok by (auto simp: is_healthy_def split: option.splits if_splits)
    with True ok show ?thesis by (simp add: Let_def split_beta)
  next
    case False
    with Cons.prems(2) have "c \<in> set cs" by simp
    from Cons.IH [OF _ this, of h1 "Suc i"] keep Cons.prems(1)
    have "c \<in> set (fst (keep_healthy clock (Suc i) h1 cs))" by blast
    with ok show ?thesis by (simp add: Let_def split_beta)
  qed
qed simp

section \<open>Lemmas on the choice of a model\<close>

definition policy_live :: "access_policy \<Rightarrow> bool" where
  "policy_live p \<longleftrightarrow> policy_validate p = Inr () \<or> p = suspend"

lemma discovered_allowed:
  assumes "policy_live p" and "discovered_model rt p b = Some e"
  shows "live_allows p b (acc_model e)"
proof -
  from assms(2) have e: "e \<in> set (pol_models p)" "acc_provider e = b" "enabled e"
    by (auto simp: discovered_model_def find_Some_iff)
  then have "p \<noteq> suspend" by (auto simp: suspend_def)
  with assms(1) have v: "policy_validate p = Inr ()" by (simp add: policy_live_def)
  show ?thesis
    using policy_find_member [OF v e(1)] e(2,3) policy_version_ok [OF v]
    by (simp add: live_allows_def policy_allows_def policy_state_def)
qed

lemma model_of_classes_allowed:
  "policy_live p \<Longrightarrow> model_of_classes rt p b ws = Some m \<Longrightarrow> live_allows p b m"
proof (induction ws)
  case (Cons w ws)
  then show ?case
    by (auto simp: find_Some_iff split: option.splits if_splits dest: discovered_allowed)
qed simp

lemma choose_model_allowed:
  assumes "policy_live p" and "choose_model rt p b pinned requested t = Some m"
  shows "live_allows p b m" and "requested = Some x \<Longrightarrow> m = x"
  using assms by (auto simp: choose_model_def requested_model_is_allowed_def model_for_def
      split: option.splits if_splits dest: model_of_classes_allowed)

section \<open>Lemmas on the attempts\<close>

text \<open>What holds of every call: it was planned, chosen and not refused at that moment.\<close>

definition call_ok :: "router \<Rightarrow> (nat \<Rightarrow> observation) \<Rightarrow> chat_request \<Rightarrow> (string \<times> string option) list \<Rightarrow> call \<Rightarrow> bool" where
  "call_ok rt obs req cs c \<longleftrightarrow> (case c of (i, b, m) \<Rightarrow>
     \<not> refuses_provider (ollama_remote rt) (ob_routing (obs i)) b
     \<and> (\<exists>pinned. (b, pinned) \<in> set cs
          \<and> choose_model rt (ob_policy (obs i)) b pinned (rq_model req) (rq_tier req) = Some m))"

lemma call_ok_mono: "call_ok rt obs req cs c \<Longrightarrow> call_ok rt obs req (d # cs) c"
  by (auto simp: call_ok_def)

lemma stream_attempt_ok:
  "stream_attempt rt obs req i h cs = (r, h', calls) \<Longrightarrow> list_all (call_ok rt obs req cs) calls \<and> length calls \<le> 1
     \<and> (case calls of [] \<Rightarrow> r = Inl (NotConfigured ''no owner-enabled capable brain'')
          | (j, b, m) # _ \<Rightarrow> r = ob_answer (obs j) b m)"
proof (induction cs arbitrary: i)
  case (Cons c cs)
  obtain b pinned where c: "c = (b, pinned)" by (cases c)
  show ?case
  proof (cases "refuses_provider (ollama_remote rt) (ob_routing (obs i)) b
      \<or> choose_model rt (ob_policy (obs i)) b pinned (rq_model req) (rq_tier req) = None")
    case True
    with Cons.prems c have "stream_attempt rt obs req (Suc i) h cs = (r, h', calls)" by (auto split: if_splits)
    from Cons.IH [OF this] show ?thesis by (auto simp: list_all_iff intro: call_ok_mono)
  next
    case False
    then obtain m where m: "choose_model rt (ob_policy (obs i)) b pinned (rq_model req) (rq_tier req) = Some m"
      by auto
    with False Cons.prems c have "calls = [(i, b, m)]" "r = ob_answer (obs i) b m"
      by (auto split: sum.splits)
    with False m c show ?thesis by (auto simp: call_ok_def)
  qed
qed simp

lemma chat_attempts_ok:
  "chat_attempts rt obs req i latest n h cs = (r, h', calls) \<Longrightarrow> list_all (call_ok rt obs req cs) calls"
proof (induction cs arbitrary: i latest n h r h' calls)
  case (Cons c cs)
  obtain b pinned where c: "c = (b, pinned)" by (cases c)
  let ?m = "choose_model rt (ob_policy (obs i)) b pinned (rq_model req) (rq_tier req)"
  show ?case
  proof (cases "refuses_provider (ollama_remote rt) (ob_routing (obs i)) b \<or> ?m = None")
    case True
    with Cons.prems c have "chat_attempts rt obs req (Suc i) latest n h cs = (r, h', calls)"
      by (auto split: option.splits)
    from Cons.IH [OF this] show ?thesis by (auto simp: list_all_iff intro: call_ok_mono)
  next
    case False
    then obtain m where m: "?m = Some m" by auto
    have here: "call_ok rt obs req (c # cs) (i, b, m)" using False m c by (auto simp: call_ok_def)
    show ?thesis
    proof (cases "\<exists>e. ob_answer (obs i) b m = Inl e \<and> e \<noteq> Refused")
      case True
      then obtain e where e: "ob_answer (obs i) b m = Inl e" "e \<noteq> Refused" by blast
      obtain r1 h1 c1 where rest: "chat_attempts rt obs req (Suc i) (Some e) (Suc n)
          (record_failure (ob_now (obs i)) h b (failure_category e)) cs = (r1, h1, c1)" by (metis prod_cases3)
      with Cons.prems False m e c have "calls = (i, b, m) # c1" by auto
      with here Cons.IH [OF rest] show ?thesis by (auto simp: list_all_iff intro: call_ok_mono)
    next
      case stop: False
      with Cons.prems False m c have "calls = [(i, b, m)]" by (auto split: sum.splits if_splits)
      with here show ?thesis by simp
    qed
  qed
qed simp

text \<open>
  C25. The router never calls a model it may not call. Whatever the owner changes while a request is in
  flight, each call goes to a configured backend, with a model the allowlist lets through at that
  moment, and never to a backend the routing refuses, neither when the plan was made nor at the moment
  of the call. A backend that bills per call is only called when the registry has it available, which
  is how the monthly cap is enforced. A pinned provider is never left, a requested model is never
  replaced, and a backend in its cooldown is left alone.\<close>

theorem router_calls_authorised:
  assumes "\<forall>i. policy_live (ob_policy (obs i))"
    and "chat rt available clock s obs h req = (r, h', calls) \<or> chat_stream rt available clock s obs h req = (r, h', calls)"
    and "(i, b, m) \<in> set calls"
  shows "b \<in> set (candidates rt) \<and> live_allows (ob_policy (obs i)) b m
    \<and> \<not> refuses_provider (ollama_remote rt) (ob_routing (obs i)) b
    \<and> \<not> refuses_provider (ollama_remote rt) s b
    \<and> (is_metered_backend (ollama_remote rt) b \<longrightarrow> available b)
    \<and> (\<forall>p. rq_provider req = Some p \<longrightarrow> b = p) \<and> (\<forall>x. rq_model req = Some x \<longrightarrow> m = x)
    \<and> (\<forall>u. al_get h b = Some u \<longrightarrow> (\<exists>j. u \<le> clock j))"
proof -
  obtain cs h1 where p: "plan rt available clock h s (rq_tier req) (rq_model req = None) (rq_provider req) = (cs, h1)"
    by fastforce
  have "list_all (call_ok rt obs req cs) calls"
    using assms(2) p by (auto simp: chat_def chat_stream_def Let_def split: if_splits dest: chat_attempts_ok stream_attempt_ok)
  with assms(3) obtain pinned where ok: "\<not> refuses_provider (ollama_remote rt) (ob_routing (obs i)) b"
    and c: "(b, pinned) \<in> set cs"
    and m: "choose_model rt (ob_policy (obs i)) b pinned (rq_model req) (rq_tier req) = Some m"
    by (auto simp: list_all_iff call_ok_def)
  have cs: "cs = fst (keep_healthy clock 0 h (plan_base rt available s (rq_tier req) (rq_model req = None) (rq_provider req)))"
    using p by (simp add: plan_def)
  then have base: "(b, pinned) \<in> set (plan_base rt available s (rq_tier req) (rq_model req = None) (rq_provider req))"
    using c keep_healthy_subset by blast
  note order = plan_base_ok(1) [OF base]
  have "\<forall>q. rq_provider req = Some q \<longrightarrow> b = q" using order plan_order_only by fastforce
  moreover have "\<forall>u. al_get h b = Some u \<longrightarrow> (\<exists>j. u \<le> clock j)" using keep_healthy_expired c cs by fastforce
  moreover have "\<forall>x. rq_model req = Some x \<longrightarrow> m = x" using choose_model_allowed(2) assms(1) m by blast
  ultimately show ?thesis
    using ok plan_base_ok(2,3) [OF base] plan_order_candidate [OF order] choose_model_allowed(1) [OF _ m] assms(1)
    by simp
qed

section \<open>A sample request\<close>

definition sample_router :: router where
  "sample_router = \<lparr>candidates = [''zai-api'', ''xai-api''],
     catalog = [\<lparr>cat_backend = ''zai-api'', cat_id = ''glm'', cat_class = Light\<rparr>,
                \<lparr>cat_backend = ''xai-api'', cat_id = ''grok'', cat_class = Light\<rparr>], ollama_remote = False\<rparr>"

definition sample_reply :: chat_reply where
  "sample_reply = \<lparr>cr_text = ''hi'', cr_model = ''glm'', cr_backend = Some ''zai-api'', requested_route = None,
     actual_provider = None, stop_reason = None, cr_usage = None, fallback_count = 0\<rparr>"

definition sample_obs :: "nat \<Rightarrow> observation" where
  "sample_obs i = \<lparr>ob_policy = sample_policy True, ob_routing = snapshot_default, ob_now = int i,
     ob_answer = (\<lambda>b m. if b = ''zai-api'' then Inr sample_reply else Inl (Api 429 ''slow down''))\<rparr>"

definition sample_chat_request :: chat_request where
  "sample_chat_request = \<lparr>rq_system = None, rq_messages = [], rq_tier = DefaultTier, rq_mode = Auto,
     rq_max_tokens = 100, rq_model = None, rq_provider = None\<rparr>"

lemma sample_policy_allows:
  "live_allows (sample_policy True) ''zai-api'' ''glm''" "live_allows (sample_policy True) ''xai-api'' ''grok''"
  by (simp_all add: live_allows_def policy_allows_def policy_state_def policy_find_def sample_policy_def eval_simps)

lemma sample_chooses:
  "choose_model sample_router (sample_policy True) ''zai-api'' None None DefaultTier = Some ''glm''"
  "choose_model sample_router (sample_policy True) ''xai-api'' None None DefaultTier = Some ''grok''"
  using sample_policy_allows by (simp_all add: choose_model_def model_for_def sample_router_def)

lemma sample_plan: "plan sample_router (\<lambda>_. True) clock [] snapshot_default DefaultTier True None
    = ([(''xai-api'', None), (''zai-api'', None)], [])"
  by (simp add: plan_def plan_base_def plan_order_def snapshot_tier_def snapshot_default_def sample_router_def
      refuses_provider_def paid_api_off_def is_healthy_def)

lemma sample_open: "\<not> refuses_provider remote snapshot_default b"
  by (simp add: refuses_provider_def paid_api_off_def snapshot_default_def)

lemma sample_chat:
  "chat sample_router (\<lambda>_. True) (\<lambda>_. 0) snapshot_default sample_obs [] sample_chat_request
     = (Inr (sample_reply\<lparr>fallback_count := 1\<rparr>), [(''xai-api'', rsecs 60)],
        [(0, ''xai-api'', ''grok''), (1, ''zai-api'', ''glm'')])"
  by (simp add: chat_def sample_chat_request_def sample_plan sample_obs_def sample_chooses sample_open
      record_failure_def record_success_def al_remove_def rsecs_def)

lemma sample_policies_live: "\<forall>i. policy_live (ob_policy (sample_obs i))"
  by (simp add: sample_obs_def policy_live_def sample_valid)

theorem router_calls_authorised_witness:
  "live_allows (ob_policy (sample_obs 1)) ''zai-api'' ''glm'' \<and> ''zai-api'' \<in> set (candidates sample_router)"
proof -
  have "chat sample_router (\<lambda>_. True) (\<lambda>_. 0) snapshot_default sample_obs [] sample_chat_request
     = (Inr (sample_reply\<lparr>fallback_count := 1\<rparr>), [(''xai-api'', rsecs 60)],
        [(0, ''xai-api'', ''grok''), (1, ''zai-api'', ''glm'')])
    \<or> chat_stream sample_router (\<lambda>_. True) (\<lambda>_. 0) snapshot_default sample_obs [] sample_chat_request
     = (Inr (sample_reply\<lparr>fallback_count := 1\<rparr>), [(''xai-api'', rsecs 60)],
        [(0, ''xai-api'', ''grok''), (1, ''zai-api'', ''glm'')])"
    using sample_chat by (rule disjI1)
  from router_calls_authorised [OF sample_policies_live this, of 1 "''zai-api''" "''glm''"] show ?thesis by simp
qed

section \<open>Order and number of attempts\<close>

definition call_failed :: "(nat \<Rightarrow> observation) \<Rightarrow> call \<Rightarrow> bool" where
  "call_failed obs c \<longleftrightarrow> (case c of (i, b, m) \<Rightarrow> \<exists>e. ob_answer (obs i) b m = Inl e \<and> e \<noteq> Refused)"

definition call_answer :: "(nat \<Rightarrow> observation) \<Rightarrow> call \<Rightarrow> llm_error + chat_reply" where
  "call_answer obs c = (case c of (i, b, m) \<Rightarrow> ob_answer (obs i) b m)"

text \<open>The shape of a run of attempts that starts at plan position \<open>i\<close> after \<open>n\<close> failures.\<close>

definition run_shape :: "(nat \<Rightarrow> observation) \<Rightarrow> nat \<Rightarrow> nat \<Rightarrow> (string \<times> string option) list
    \<Rightarrow> llm_error \<Rightarrow> llm_error + chat_reply \<Rightarrow> call list \<Rightarrow> bool" where
  "run_shape obs i n cs otherwise r calls \<longleftrightarrow>
     sorted_wrt (<) (map fst calls)
     \<and> (\<forall>(j, b, m) \<in> set calls. i \<le> j \<and> j < i + length cs \<and> b = fst (cs ! (j - i)))
     \<and> (\<forall>c \<in> set (butlast calls). call_failed obs c)
     \<and> (if calls = [] then r = Inl otherwise
        else case call_answer obs (last calls) of
          Inr reply \<Rightarrow> r = Inr (reply\<lparr>fallback_count := n + length calls - 1\<rparr>)
        | Inl e \<Rightarrow> r = Inl e)"

lemma run_shape_skip: "run_shape obs (Suc i) n cs e r calls \<Longrightarrow> run_shape obs i n (c # cs) e r calls"
  unfolding run_shape_def by (fastforce simp: nth_Cons')

lemma run_shape_stop:
  assumes "fst c = b" and "case ob_answer (obs i) b m of Inr reply \<Rightarrow> r = Inr (reply\<lparr>fallback_count := n\<rparr>) | Inl e \<Rightarrow> r = Inl e"
  shows "run_shape obs i n (c # cs) e r [(i, b, m)]"
  using assms by (cases "ob_answer (obs i) b m") (simp_all add: run_shape_def call_answer_def)

lemma run_shape_next:
  assumes "run_shape obs (Suc i) (Suc n) cs e r calls" and "fst c = b"
    and "ob_answer (obs i) b m = Inl e" and "e \<noteq> Refused"
  shows "run_shape obs i n (c # cs) d r ((i, b, m) # calls)"
proof -
  have f: "call_failed obs (i, b, m)" using assms(3,4) by (simp add: call_failed_def)
  have later: "\<forall>(j, b, m) \<in> set calls. Suc i \<le> j \<and> j < Suc i + length cs \<and> b = fst (cs ! (j - Suc i))"
    using assms(1) by (simp add: run_shape_def)
  have "sorted_wrt (<) (map fst ((i, b, m) # calls))"
    using assms(1) later unfolding run_shape_def by fastforce
  moreover have "\<forall>(j, b, m) \<in> set ((i, b, m) # calls). i \<le> j \<and> j < i + length (c # cs) \<and> b = fst ((c # cs) ! (j - i))"
    using later assms(2) by (fastforce simp: nth_Cons')
  moreover have "\<forall>x \<in> set (butlast ((i, b, m) # calls)). call_failed obs x"
    using assms(1) f by (auto simp: run_shape_def)
  ultimately show ?thesis
    using assms(1,3) by (auto simp: run_shape_def call_answer_def split: if_splits sum.splits)
qed

lemma chat_attempts_shape:
  "chat_attempts rt obs req i latest n h cs = (r, h', calls) \<Longrightarrow>
     run_shape obs i n cs (case latest of Some e \<Rightarrow> e | None \<Rightarrow> NotConfigured ''no brain answered'') r calls"
proof (induction cs arbitrary: i latest n h r h' calls)
  case Nil
  then show ?case by (simp add: run_shape_def)
next
  case (Cons c cs)
  obtain b pinned where c: "c = (b, pinned)" by (cases c)
  let ?m = "choose_model rt (ob_policy (obs i)) b pinned (rq_model req) (rq_tier req)"
  show ?case
  proof (cases "refuses_provider (ollama_remote rt) (ob_routing (obs i)) b \<or> ?m = None")
    case True
    with Cons.prems c have "chat_attempts rt obs req (Suc i) latest n h cs = (r, h', calls)"
      by (auto split: option.splits)
    from run_shape_skip [OF Cons.IH [OF this]] show ?thesis .
  next
    case False
    then obtain m where m: "?m = Some m" by auto
    show ?thesis
    proof (cases "\<exists>e. ob_answer (obs i) b m = Inl e \<and> e \<noteq> Refused")
      case True
      then obtain e where e: "ob_answer (obs i) b m = Inl e" "e \<noteq> Refused" by blast
      obtain r1 h1 c1 where rest: "chat_attempts rt obs req (Suc i) (Some e) (Suc n)
          (record_failure (ob_now (obs i)) h b (failure_category e)) cs = (r1, h1, c1)" by (metis prod_cases3)
      with Cons.prems False m e c have eq: "calls = (i, b, m) # c1" "r = r1" by auto
      from Cons.IH [OF rest] have "run_shape obs (Suc i) (Suc n) cs e r1 c1" by simp
      from run_shape_next [OF this _ e, of c] c eq show ?thesis by simp
    next
      case stop: False
      with Cons.prems False m c have "calls = [(i, b, m)]"
        and "case ob_answer (obs i) b m of Inr reply \<Rightarrow> r = Inr (reply\<lparr>fallback_count := n\<rparr>) | Inl e \<Rightarrow> r = Inl e"
        by (auto split: sum.splits if_splits)
      with run_shape_stop [where c = c and b = b and obs = obs and i = i and m = m and r = r and n = n] c show ?thesis by simp
    qed
  qed
qed

lemma run_shape_length: "run_shape obs 0 n cs e r calls \<Longrightarrow> length calls \<le> length cs"
proof -
  assume s: "run_shape obs 0 n cs e r calls"
  then have "distinct (map fst calls)" "set (map fst calls) \<subseteq> {..<length cs}"
    by (auto simp: run_shape_def strict_sorted_iff)
  then show ?thesis using card_mono [of "{..<length cs}" "set (map fst calls)"] distinct_card [of "map fst calls"] by simp
qed

text \<open>
  C26. A request ends after at most one call per planned backend. The calls follow the plan in order, each
  but the last failed without a refusal, a refusal ends the request at once, and the result is what the
  last call gave, with the number of earlier failures as its fallback count. If nothing could be called the
  result is a configuration error. A streamed request makes at most one call and never retries.\<close>

theorem chat_follows_plan:
  assumes "plan rt available clock h s (rq_tier req) (rq_model req = None) (rq_provider req) = (cs, h1)"
    and "chat rt available clock s obs h req = (r, h', calls)"
    and "chat_stream rt available clock s obs h req = (r2, h2, calls2)"
  shows "length calls \<le> length cs \<and> sorted_wrt (<) (map fst calls)
    \<and> (\<forall>(j, b, m) \<in> set calls. j < length cs \<and> b = fst (cs ! j))
    \<and> (\<forall>c \<in> set (butlast calls). call_failed obs c)
    \<and> (if calls = [] then \<exists>text. r = Inl (NotConfigured text)
       else case call_answer obs (last calls) of
         Inr reply \<Rightarrow> r = Inr (reply\<lparr>fallback_count := length calls - 1\<rparr>)
       | Inl e \<Rightarrow> r = Inl e)
    \<and> length calls2 \<le> 1
    \<and> (if calls2 = [] then \<exists>text. r2 = Inl (NotConfigured text) else r2 = call_answer obs (hd calls2))"
proof -
  have stream: "length calls2 \<le> 1 \<and> (if calls2 = [] then \<exists>text. r2 = Inl (NotConfigured text) else r2 = call_answer obs (hd calls2))"
    using assms(1,3) stream_attempt_ok [of rt obs req 0 h1 cs r2 h2 calls2]
    by (auto simp: chat_stream_def call_answer_def split: list.splits)
  obtain msg where s: "run_shape obs 0 0 cs (NotConfigured msg) r calls"
  proof (cases "cs = []")
    case True
    with assms(1,2) that [of "''no capable brain for this tier''"] show ?thesis by (auto simp: chat_def run_shape_def)
  next
    case False
    with assms(1,2) have "chat_attempts rt obs req 0 None 0 h1 cs = (r, h', calls)" by (simp add: chat_def)
    from chat_attempts_shape [OF this] that show ?thesis by simp
  qed
  show ?thesis
    using stream s run_shape_length [OF s]
    by (cases "calls = []"; cases "call_answer obs (last calls)") (simp_all add: run_shape_def)
qed

theorem chat_follows_plan_witness:
  "length (snd (snd (chat sample_router (\<lambda>_. True) (\<lambda>_. 0) snapshot_default sample_obs [] sample_chat_request))) \<le> 2
   \<and> call_failed sample_obs (0, ''xai-api'', ''grok'')"
proof -
  have p: "plan sample_router (\<lambda>_. True) (\<lambda>_. 0) [] snapshot_default (rq_tier sample_chat_request)
      (rq_model sample_chat_request = None) (rq_provider sample_chat_request) = ([(''xai-api'', None), (''zai-api'', None)], [])"
    by (simp add: sample_chat_request_def sample_plan)
  obtain r2 h2 c2 where s: "chat_stream sample_router (\<lambda>_. True) (\<lambda>_. 0) snapshot_default sample_obs [] sample_chat_request
      = (r2, h2, c2)" by (metis prod_cases3)
  from chat_follows_plan [OF p sample_chat s] show ?thesis by (simp add: sample_chat)
qed

section \<open>Cooldown\<close>

lemma cooldown_bounds: "0 \<le> cooldown_for f" "cooldown_for f \<le> rsecs 900" "cooldown_for f = 0 \<longleftrightarrow> f = RefusedFailure"
  by (cases f; simp add: rsecs_def)+

text \<open>
  A failing backend is left alone, and comes back. After a failure that is not a refusal no plan made
  within its cooldown contains the backend, whatever the registry says; the cooldown is at most fifteen
  minutes and other backends are not affected. After the cooldown, or after a success, the backend is
  planned again exactly when routing and availability plan it.\<close>

theorem failing_backend_cools_down:
  assumes "f \<noteq> RefusedFailure"
  shows "((\<forall>i. clock i < now + cooldown_for f) \<longrightarrow>
      b \<notin> fst ` set (fst (plan rt available clock (record_failure now h b f) s t routed only)))
    \<and> ((\<forall>i. now + cooldown_for f \<le> clock i) \<longrightarrow> (c \<in> set (fst (plan rt available clock (record_failure now h b f) s t routed only))
        \<and> fst c = b \<longleftrightarrow> c \<in> set (plan_base rt available s t routed only) \<and> fst c = b))
    \<and> (c \<in> set (fst (plan rt available clock (record_success h b) s t routed only)) \<and> fst c = b
        \<longleftrightarrow> c \<in> set (plan_base rt available s t routed only) \<and> fst c = b)
    \<and> 0 < cooldown_for f \<and> cooldown_for f \<le> rsecs (15 * 60)
    \<and> (b' \<noteq> b \<longrightarrow> al_get (record_failure now h b f) b' = al_get h b')"
proof -
  let ?h = "record_failure now h b f"
  have pos: "0 < cooldown_for f" using cooldown_bounds [of f] assms by linarith
  then have get: "al_get ?h b = Some (now + cooldown_for f)" by (simp add: record_failure_def bt_insert_get)
  have "b \<notin> fst ` set (fst (plan rt available clock ?h s t routed only))" if late: "\<forall>i. clock i < now + cooldown_for f"
  proof
    assume "b \<in> fst ` set (fst (plan rt available clock ?h s t routed only))"
    then obtain c where "c \<in> set (fst (keep_healthy clock 0 ?h (plan_base rt available s t routed only)))" "fst c = b"
      by (auto simp: plan_def)
    from keep_healthy_expired [OF this(1)] this(2) get late show False by (metis not_less)
  qed
  moreover have "c \<in> set (fst (plan rt available clock ?h s t routed only)) \<and> fst c = b
      \<longleftrightarrow> c \<in> set (plan_base rt available s t routed only) \<and> fst c = b" if "\<forall>i. now + cooldown_for f \<le> clock i"
    using that get keep_healthy_up [of ?h c clock] keep_healthy_subset by (fastforce simp: plan_def)
  moreover have "c \<in> set (fst (plan rt available clock (record_success h b) s t routed only)) \<and> fst c = b
        \<longleftrightarrow> c \<in> set (plan_base rt available s t routed only) \<and> fst c = b"
    using keep_healthy_up [of "record_success h b" c clock] keep_healthy_subset
    by (fastforce simp: plan_def record_success_def al_remove_get)
  moreover have "b' \<noteq> b \<longrightarrow> al_get ?h b' = al_get h b'" by (simp add: record_failure_def bt_insert_get)
  ultimately show ?thesis using pos cooldown_bounds(2) [of f] by simp
qed

theorem failing_backend_cools_down_witness:
  "''xai-api'' \<notin> fst ` set (fst (plan sample_router (\<lambda>_. True) (\<lambda>_. rsecs 59)
     (record_failure 0 [] ''xai-api'' RateLimited) snapshot_default DefaultTier True None))"
  using failing_backend_cools_down [of RateLimited "\<lambda>_. rsecs 59" 0 "''xai-api''" sample_router "\<lambda>_. True" "[]"
      snapshot_default DefaultTier True None]
  by (simp add: rsecs_def)

section \<open>Research\<close>

lemma research_attempts_ok:
  "research_attempts rt obs i latest n h cs = (r, h', calls) \<Longrightarrow> c \<in> set calls \<Longrightarrow>
     (case c of (j, b, m) \<Rightarrow> is_subscription_backend b \<and> research_web_search_on (ob_routing (obs j))
        \<and> (\<exists>pinned. (b, pinned) \<in> set cs \<and> choose_model rt (ob_policy (obs j)) b pinned None HardTier = Some m))"
proof (induction cs arbitrary: i latest n h r h' calls)
  case (Cons d cs)
  obtain b pinned where d: "d = (b, pinned)" by (cases d)
  let ?m = "choose_model rt (ob_policy (obs i)) b pinned None HardTier"
  have skip: ?case if "research_attempts rt obs (Suc i) l k g cs = (r1, h1, c1)" and "c \<in> set c1" for l k g r1 h1 c1
    using Cons.IH [OF that] by (auto split: prod.splits)
  consider (no) "\<not> is_subscription_backend b" | (off) "is_subscription_backend b" "\<not> research_web_search_on (ob_routing (obs i))"
    | (none) "is_subscription_backend b" "research_web_search_on (ob_routing (obs i))" "?m = None"
    | (call) m where "is_subscription_backend b" "research_web_search_on (ob_routing (obs i))" "?m = Some m"
    by (cases "?m") auto
  then show ?case
  proof cases
    case no
    with Cons.prems d skip show ?thesis by simp
  next
    case off
    with Cons.prems d show ?thesis by simp
  next
    case none
    with Cons.prems d skip show ?thesis by simp
  next
    case (call m)
    show ?thesis
    proof (cases "c = (i, b, m)")
      case True
      with call d show ?thesis by auto
    next
      case False
      then obtain e where e: "ob_answer (obs i) b m = Inl e" "e \<noteq> Refused"
        using Cons.prems d call by (cases "ob_answer (obs i) b m") (auto split: if_splits)
      let ?f = "failure_category e"
      let ?h = "if research_failure_affects_chat ?f then record_failure (ob_now (obs i)) h b ?f else h"
      obtain r1 h1 c1 where rest: "research_attempts rt obs (Suc i) (Some e) (Suc n) ?h cs = (r1, h1, c1)"
        by (metis prod_cases3)
      with Cons.prems d call e have "calls = (i, b, m) # c1" by (auto simp: Let_def)
      with False Cons.prems(2) skip [OF rest] show ?thesis by simp
    qed
  qed
qed simp

text \<open>
  Research never reaches a paid API. It makes no call unless the owner turned web search on, checked
  again before every call. Each call goes to a subscription backend, which never bills per call, with a
  model the allowlist lets through at that moment.\<close>

theorem research_stays_on_subscriptions:
  assumes "\<forall>i. policy_live (ob_policy (obs i))"
    and "research rt available clock first obs h s = (r, h', calls)" and "(i, b, m) \<in> set calls"
  shows "research_web_search_on first \<and> research_web_search_on (ob_routing (obs i))
    \<and> is_subscription_backend b \<and> \<not> is_metered_backend (ollama_remote rt) b
    \<and> b \<in> set (candidates rt) \<and> live_allows (ob_policy (obs i)) b m"
proof -
  obtain cs h1 where p: "plan rt available clock h s HardTier True None = (cs, h1)" by fastforce
  from assms(2,3) p have on: "research_web_search_on first" and a: "research_attempts rt obs 0 None 0 h1 cs = (r, h', calls)"
    by (auto simp: research_def split: if_splits)
  from research_attempts_ok [OF a assms(3)] obtain pinned where c: "is_subscription_backend b"
      "research_web_search_on (ob_routing (obs i))" "(b, pinned) \<in> set cs"
      "choose_model rt (ob_policy (obs i)) b pinned None HardTier = Some m" by auto
  have "(b, pinned) \<in> set (plan_base rt available s HardTier True None)"
    using p c(3) keep_healthy_subset [of clock 0 h "plan_base rt available s HardTier True None"]
    by (auto simp: plan_def)
  from plan_order_candidate [OF plan_base_ok(1) [OF this]] have "b \<in> set (candidates rt)" by simp
  moreover have "\<not> is_metered_backend (ollama_remote rt) b"
    using c(1) by (auto simp: is_subscription_backend_def is_metered_backend_def is_metered_provider_id_def)
  ultimately show ?thesis using on c choose_model_allowed(1) assms(1) by blast
qed

definition research_obs :: "nat \<Rightarrow> observation" where
  "research_obs i = \<lparr>ob_policy = \<lparr>pol_version = 1, pol_models = [\<lparr>acc_provider = ''claude-cli'', acc_model = ''opus'',
       enabled = True, acc_source = ''configured'', acc_route = None\<rparr>]\<rparr>,
     ob_routing = \<lparr>routing = Some (sample_routing\<lparr>mr_research := SearchOn\<rparr>), unavailable_reason = None\<rparr>,
     ob_now = 0, ob_answer = (\<lambda>b m. Inr sample_reply)\<rparr>"

definition research_router :: router where
  "research_router = \<lparr>candidates = [''claude-cli'', ''openai-api''],
     catalog = [\<lparr>cat_backend = ''claude-cli'', cat_id = ''opus'', cat_class = Heavy\<rparr>], ollama_remote = False\<rparr>"

lemma research_sample:
  "research research_router (\<lambda>_. True) (\<lambda>_. 0) (ob_routing (research_obs 0)) research_obs [] (ob_routing (research_obs 0))
     = (Inr (sample_reply\<lparr>fallback_count := 0\<rparr>), [], [(0, ''claude-cli'', ''opus'')])"
  by (simp add: research_def plan_def plan_base_def plan_order_def snapshot_tier_def research_obs_def sample_routing_def
      research_router_def refuses_provider_def paid_api_off_def is_healthy_def research_web_search_on_def
      is_subscription_backend_def choose_model_def model_for_def live_allows_def policy_allows_def policy_state_def
      policy_find_def record_success_def al_remove_def)

theorem research_stays_on_subscriptions_witness:
  "\<not> is_metered_backend False ''claude-cli'' \<and> live_allows (ob_policy (research_obs 0)) ''claude-cli'' ''opus''"
proof -
  have "\<forall>i. policy_live (ob_policy (research_obs i))"
    by (simp add: policy_live_def research_obs_def policy_validate_def valid_component_def eval_simps not_blank del: trim_is_empty_def)
  from research_stays_on_subscriptions [OF this research_sample, of 0 "''claude-cli''" "''opus''"]
  show ?thesis by (simp add: research_router_def)
qed

end
