(* ===== verification/Approval.thy ===== *)
theory Approval
  imports Model_Access
begin

text \<open>
  The signed approval of a privileged change: the operations and the request of
  \<^verbatim>\<open>src/crates/privileged/src/lib.rs\<close>, and the bytes that are signed, from
  \<^verbatim>\<open>src/crates/client-core/src/model_control.rs\<close> and \<^verbatim>\<open>src/crates/identity/src/lib.rs\<close>.

  A UUID is its 16 bytes, a time is in nanoseconds since the epoch, \<open>Inl\<close> is an error. The crates
  \<open>hex\<close>, \<open>sha2\<close>, \<open>serde_json\<close>, \<open>uuid\<close> and \<open>ed25519_dalek\<close> are the fields of a record \<open>crypto\<close>; what is
  relied on is stated by \<open>crypto_laws\<close>: a digest has 32 bytes.
\<close>

section \<open>Bytes\<close>

fun be_bytes :: "nat \<Rightarrow> nat \<Rightarrow> string" where
  "be_bytes 0 v = []"
| "be_bytes (Suc n) v = be_bytes n (v div 256) @ [char_of (v mod 256)]"

text \<open>\<open>(n as u16).to_be_bytes()\<close> and \<open>i64::to_be_bytes\<close>.\<close>

definition u16_be :: "nat \<Rightarrow> string" where
  "u16_be n = be_bytes 2 (n mod 2 ^ 16)"

definition i64_be :: "int \<Rightarrow> string" where
  "i64_be v = be_bytes 8 (nat (v mod 2 ^ 64))"

definition second :: int where "second = 1000000000"

definition unix_timestamp :: "int \<Rightarrow> int" where
  "unix_timestamp t = t div second"

section \<open>Signed bytes\<close>

definition config_domain :: string where
  "config_domain = ''jarvis-privileged-config-v1'' @ [CHR 0x00]"

definition coding_domain :: string where
  "coding_domain = ''jarvis-codex-coding-v1'' @ [CHR 0x00]"

definition signed_fields ::
  "string \<Rightarrow> string \<Rightarrow> string \<Rightarrow> string \<Rightarrow> string \<Rightarrow> string \<Rightarrow> string \<Rightarrow> int \<Rightarrow> int \<Rightarrow> string \<Rightarrow> string" where
  "signed_fields domain action payload_hash request_id nonce user_id device_id issued_at expires_at target_state =
     domain @ u16_be (length action) @ action @ payload_hash @ request_id @ nonce @ user_id @ device_id
     @ i64_be (unix_timestamp issued_at) @ i64_be (unix_timestamp expires_at) @ target_state"

definition approval_message ::
  "string \<Rightarrow> string \<Rightarrow> string \<Rightarrow> string \<Rightarrow> string \<Rightarrow> string \<Rightarrow> int \<Rightarrow> int \<Rightarrow> string \<Rightarrow> string + string" where
  "approval_message action payload_hash request_id nonce user_id device_id issued_at expires_at target_state =
     (if action = [] \<or> length action > 64 \<or> any_control action \<or> length nonce \<noteq> 32
         \<or> expires_at \<le> issued_at \<or> expires_at - issued_at > 5 * 60 * second
      then Inl ''invalid privileged approval''
      else Inr (signed_fields config_domain action payload_hash request_id nonce user_id device_id
             issued_at expires_at target_state))"

datatype identity_error =
    DatabaseSurreal | UnknownPlatform string | AuthFailed | PasswordRejected | AuthBusy | LastApprover

definition privileged_config_approval_message ::
  "string \<Rightarrow> string \<Rightarrow> string \<Rightarrow> string \<Rightarrow> string \<Rightarrow> string \<Rightarrow> int \<Rightarrow> int \<Rightarrow> string \<Rightarrow> identity_error + string" where
  "privileged_config_approval_message action payload_hash request_id nonce user_id device_id issued_at expires_at target_state =
     (case approval_message action payload_hash request_id nonce user_id device_id issued_at expires_at target_state of
        Inl _ \<Rightarrow> Inl AuthFailed | Inr m \<Rightarrow> Inr m)"

definition codex_coding_approval_message ::
  "string \<Rightarrow> string \<Rightarrow> string \<Rightarrow> string \<Rightarrow> string \<Rightarrow> string \<Rightarrow> int \<Rightarrow> int \<Rightarrow> string \<Rightarrow> identity_error + string" where
  "codex_coding_approval_message action payload_hash request_id nonce user_id device_id issued_at expires_at target_state =
     (if action = [] \<or> length action > 64 \<or> length nonce \<noteq> 32 \<or> expires_at < issued_at
      then Inl AuthFailed
      else Inr (signed_fields coding_domain action payload_hash request_id nonce user_id device_id
             issued_at expires_at target_state))"

section \<open>Operations and requests\<close>

datatype operation =
    ModelSetEnabled string string bool string
  | ModelRoutingSet model_routing string

datatype protocol_error = InvalidOperation | InvalidApproval | Expired

record crypto =
  hex_decode :: "string \<Rightarrow> string option"
  hex_encode :: "string \<Rightarrow> string"
  sha256 :: "string \<Rightarrow> string"
  op_to_vec :: "operation \<Rightarrow> string option"
  key_from_bytes :: "string \<Rightarrow> bool"
  verify_strict :: "string \<Rightarrow> string \<Rightarrow> string \<Rightarrow> bool"
  uuid_parse_str :: "string \<Rightarrow> string option"
  uuid_hyphenated :: "string \<Rightarrow> string"

definition crypto_laws :: "crypto \<Rightarrow> bool" where
  "crypto_laws c \<longleftrightarrow> (\<forall>x. length (sha256 c x) = 32)"

definition verify_signature :: "crypto \<Rightarrow> string \<Rightarrow> string \<Rightarrow> string \<Rightarrow> identity_error + unit" where
  "verify_signature c public_key message signature =
     (if length public_key \<noteq> 32 then Inl AuthFailed
      else if \<not> key_from_bytes c public_key then Inl AuthFailed
      else if length signature \<noteq> 64 then Inl AuthFailed
      else if verify_strict c public_key message signature then Inr () else Inl AuthFailed)"

definition valid_sha256_hex :: "crypto \<Rightarrow> string \<Rightarrow> bool" where
  "valid_sha256_hex c v \<longleftrightarrow> length v = 64 \<and> hex_decode c v \<noteq> None"

fun op_action :: "operation \<Rightarrow> string" where
  "op_action (ModelSetEnabled _ _ _ _) = ''model.set_enabled''"
| "op_action (ModelRoutingSet _ _) = ''model.routing_set''"

fun expected_state_sha256 :: "operation \<Rightarrow> string" where
  "expected_state_sha256 (ModelSetEnabled _ _ _ h) = h"
| "expected_state_sha256 (ModelRoutingSet _ h) = h"

fun op_validate :: "crypto \<Rightarrow> operation \<Rightarrow> protocol_error + unit" where
  "op_validate c (ModelSetEnabled prov mdl _ h) =
     (if prov \<notin> {''anthropic-api'', ''openai-api'', ''deepseek-api'', ''xai-api'', ''zai-api'', ''ollama'',
          ''ollama-cloud'', ''huggingface'', ''claude-cli'', ''codex-cli''}
         \<or> mdl = [] \<or> length mdl > 256 \<or> any_control mdl \<or> \<not> valid_sha256_hex c h
      then Inl InvalidOperation else Inr ())"
| "op_validate c (ModelRoutingSet r h) =
     (if routing_validate r \<noteq> Inr () \<or> \<not> valid_sha256_hex c h then Inl InvalidOperation else Inr ())"

definition canonical_payload :: "crypto \<Rightarrow> operation \<Rightarrow> protocol_error + string" where
  "canonical_payload c op = (case op_validate c op of
     Inl e \<Rightarrow> Inl e
   | Inr _ \<Rightarrow> (case op_to_vec c op of None \<Rightarrow> Inl InvalidOperation | Some v \<Rightarrow> Inr v))"

record signed_request =
  request_id :: string
  nonce_hex :: string
  user_id :: string
  device_id :: string
  issued_at :: int
  expires_at :: int
  operation :: operation
  signature_hex :: string

text \<open>Decode to a fixed number of bytes, or fail with the given error.\<close>

definition decode_fixed :: "crypto \<Rightarrow> protocol_error \<Rightarrow> nat \<Rightarrow> string \<Rightarrow> protocol_error + string" where
  "decode_fixed c err n s = (case hex_decode c s of
     None \<Rightarrow> Inl err | Some b \<Rightarrow> if length b = n then Inr b else Inl err)"

definition request_message :: "crypto \<Rightarrow> signed_request \<Rightarrow> protocol_error + string" where
  "request_message c r =
     (case decode_fixed c InvalidApproval 32 (nonce_hex r) of
        Inl e \<Rightarrow> Inl e
      | Inr nonce \<Rightarrow>
     (case hex_decode c (signature_hex r) of
        None \<Rightarrow> Inl InvalidApproval
      | Some signature \<Rightarrow>
          if length signature \<noteq> 64 \<or> expires_at r \<le> issued_at r
             \<or> expires_at r - issued_at r > 5 * 60 * second
          then Inl InvalidApproval
          else
     (case canonical_payload c (operation r) of
        Inl e \<Rightarrow> Inl e
      | Inr payload \<Rightarrow>
     (case decode_fixed c InvalidOperation 32 (expected_state_sha256 (operation r)) of
        Inl e \<Rightarrow> Inl e
      | Inr state \<Rightarrow>
     (case privileged_config_approval_message (op_action (operation r)) (sha256 c payload) (request_id r)
             nonce (user_id r) (device_id r) (issued_at r) (expires_at r) state of
        Inl _ \<Rightarrow> Inl InvalidApproval
      | Inr m \<Rightarrow> Inr m)))))"

definition reject_if_expired :: "signed_request \<Rightarrow> int \<Rightarrow> protocol_error + unit" where
  "reject_if_expired r now =
     (if now \<ge> expires_at r \<or> now < issued_at r - 30 * second then Inl Expired else Inr ())"

section \<open>Lemmas\<close>

lemma length_be_bytes [simp]: "length (be_bytes n v) = n"
  by (induction n arbitrary: v) simp_all

lemma be_bytes_inj: "v < 256 ^ n \<Longrightarrow> w < 256 ^ n \<Longrightarrow> be_bytes n v = be_bytes n w \<Longrightarrow> v = w"
proof (induction n arbitrary: v w)
  case (Suc n)
  from Suc.prems(3) have q: "be_bytes n (v div 256) = be_bytes n (w div 256)"
    and r: "(char_of (v mod 256) :: char) = char_of (w mod 256)"
    by simp_all
  have "v div 256 < 256 ^ n" "w div 256 < 256 ^ n"
    using Suc.prems(1,2) by (simp_all add: less_mult_imp_div_less mult.commute)
  then have "v div 256 = w div 256" using Suc.IH q by blast
  moreover from r have "of_char (char_of (v mod 256) :: char) = (of_char (char_of (w mod 256) :: char) :: nat)"
    by simp
  then have "v mod 256 = w mod 256" by (simp add: of_char_of)
  ultimately show ?case by (metis mod_div_mult_eq)
qed simp

lemma length_u16_be [simp]: "length (u16_be n) = 2"
  by (simp add: u16_be_def)

lemma length_i64_be [simp]: "length (i64_be n) = 8"
  by (simp add: i64_be_def)

lemma u16_be_inj: "n < 2 ^ 16 \<Longrightarrow> m < 2 ^ 16 \<Longrightarrow> u16_be n = u16_be m \<Longrightarrow> n = m"
  unfolding u16_be_def by (drule be_bytes_inj [rotated 2]) simp_all

text \<open>The range of \<open>i64\<close>; every time the type can hold is within it.\<close>

definition time_ok :: "int \<Rightarrow> bool" where
  "time_ok t \<longleftrightarrow> - (2 ^ 63) \<le> unix_timestamp t \<and> unix_timestamp t < 2 ^ 63"

lemma i64_be_inj:
  assumes "- (2 ^ 63) \<le> v" "v < 2 ^ 63" "- (2 ^ 63) \<le> w" "w < 2 ^ 63" and "i64_be v = i64_be w"
  shows "v = (w :: int)"
proof -
  have b: "nat (x mod 2 ^ 64) < 256 ^ 8" for x :: int
    by (simp add: nat_less_iff)
  from be_bytes_inj [OF b b assms(5) [unfolded i64_be_def]]
  have e: "v mod 2 ^ 64 = w mod 2 ^ 64" by (simp add: eq_nat_nat_iff)
  then have "(v + 2 ^ 63) mod 2 ^ 64 = (w + 2 ^ 63) mod 2 ^ 64" by (metis mod_add_left_eq)
  then show ?thesis using assms(1-4) by simp
qed

lemma domains_differ: "config_domain @ a \<noteq> coding_domain @ b"
  by (simp add: config_domain_def coding_domain_def)

lemma signed_fields_inj:
  assumes "signed_fields d a p r n u v i x s = signed_fields d a' p' r' n' u' v' i' x' s'"
    and "length a \<le> 64" "length a' \<le> 64" "length p = length p'" "length r = length r'"
    and "length n = length n'" "length u = length u'" "length v = length v'"
    and "time_ok i" "time_ok i'" "time_ok x" "time_ok x'"
  shows "a = a' \<and> p = p' \<and> r = r' \<and> n = n' \<and> u = u' \<and> v = v'
    \<and> unix_timestamp i = unix_timestamp i' \<and> unix_timestamp x = unix_timestamp x' \<and> s = s'"
proof -
  from assms(1) have "u16_be (length a) = u16_be (length a')"
    by (simp add: signed_fields_def append_eq_append_conv)
  then have la: "length a = length a'" using u16_be_inj assms(2,3) by simp
  from assms(1) have eq: "a = a' \<and> p = p' \<and> r = r' \<and> n = n' \<and> u = u' \<and> v = v'
      \<and> i64_be (unix_timestamp i) = i64_be (unix_timestamp i')
      \<and> i64_be (unix_timestamp x) = i64_be (unix_timestamp x') \<and> s = s'"
    unfolding signed_fields_def la by (simp add: append_eq_append_conv la assms(4-8))
  from eq assms(9-12) show ?thesis unfolding time_ok_def by (blast intro: i64_be_inj)
qed

text \<open>What the types of a request guarantee.\<close>

definition request_typed :: "signed_request \<Rightarrow> bool" where
  "request_typed r \<longleftrightarrow> length (request_id r) = 16 \<and> length (user_id r) = 16 \<and> length (device_id r) = 16
     \<and> time_ok (issued_at r) \<and> time_ok (expires_at r)"

lemma op_action_ok: "op_action op \<noteq> []" "length (op_action op) \<le> 64"
  by (cases op; simp)+

lemma request_message_ok:
  assumes "request_message c r = Inr m"
  shows "\<exists>nonce payload state. decode_fixed c InvalidApproval 32 (nonce_hex r) = Inr nonce
    \<and> canonical_payload c (operation r) = Inr payload
    \<and> decode_fixed c InvalidOperation 32 (expected_state_sha256 (operation r)) = Inr state
    \<and> op_validate c (operation r) = Inr ()
    \<and> issued_at r < expires_at r \<and> expires_at r - issued_at r \<le> 5 * 60 * second
    \<and> m = signed_fields config_domain (op_action (operation r)) (sha256 c payload) (request_id r) nonce
            (user_id r) (device_id r) (issued_at r) (expires_at r) state"
  using assms unfolding request_message_def privileged_config_approval_message_def approval_message_def
  by (auto simp: canonical_payload_def split: sum.splits option.splits if_splits)

lemma decode_fixed_length: "decode_fixed c e n s = Inr b \<Longrightarrow> length b = n"
  by (auto simp: decode_fixed_def split: option.splits if_splits)

section \<open>A sample request\<close>

definition sample_crypto :: crypto where
  "sample_crypto = \<lparr>hex_decode = (\<lambda>s. if even (length s) then Some (take (length s div 2) s) else None),
     hex_encode = (\<lambda>s. s @ s), sha256 = (\<lambda>s. replicate 32 CHR ''h''), op_to_vec = (\<lambda>op. Some ''{}''),
     key_from_bytes = (\<lambda>k. True), verify_strict = (\<lambda>k m s. True),
     uuid_parse_str = (\<lambda>s. if length s = 16 then Some s else None), uuid_hyphenated = (\<lambda>u. u)\<rparr>"

definition sample_request :: signed_request where
  "sample_request = \<lparr>request_id = replicate 16 CHR ''r'', nonce_hex = replicate 64 CHR ''0'',
     user_id = replicate 16 CHR ''u'', device_id = replicate 16 CHR ''d'', issued_at = 0, expires_at = 60 * second,
     operation = ModelSetEnabled ''ollama'' ''llama'' True (replicate 64 CHR ''0''),
     signature_hex = replicate 128 CHR ''0''\<rparr>"

lemma sample_request_message:
  "request_message sample_crypto sample_request = Inr (signed_fields config_domain ''model.set_enabled''
     (replicate 32 CHR ''h'') (replicate 16 CHR ''r'') (replicate 32 CHR ''0'') (replicate 16 CHR ''u'')
     (replicate 16 CHR ''d'') 0 (60 * second) (replicate 32 CHR ''0''))"
  by (simp add: request_message_def sample_request_def sample_crypto_def decode_fixed_def canonical_payload_def
      valid_sha256_hex_def privileged_config_approval_message_def approval_message_def second_def eval_simps)

lemma sample_request_typed: "request_typed sample_request"
  by (simp add: request_typed_def sample_request_def time_ok_def unix_timestamp_def second_def)

lemma sample_crypto_laws: "crypto_laws sample_crypto"
  by (simp add: crypto_laws_def sample_crypto_def)

end
