(* ===== verification/Trusted_Keys.thy ===== *)
theory Trusted_Keys
  imports Approval
begin

unbundle bit_operations_syntax

text \<open>
  \<^verbatim>\<open>src/crates/privileged/src/trusted_keys.rs\<close>: the root-owned list of pinned device keys, its
  text format, how it is read and replaced, and the check of an owner approval. The answers of the
  file system to the calls made are a record; the files it holds are a map from paths. What the
  crates \<open>uuid\<close> and \<open>hex\<close> promise is stated by \<open>codec_laws\<close>.
\<close>

section \<open>UTF-8\<close>

text \<open>\<open>std::str::from_utf8\<close> succeeds.\<close>

definition cont :: "nat \<Rightarrow> bool" where
  "cont b \<longleftrightarrow> 128 \<le> b \<and> b \<le> 191"

definition second_ok :: "nat \<Rightarrow> nat \<Rightarrow> bool" where
  "second_ok a b \<longleftrightarrow> (if a = 224 then 160 \<le> b \<and> b \<le> 191 else if a = 237 then 128 \<le> b \<and> b \<le> 159
     else if a = 240 then 144 \<le> b \<and> b \<le> 191 else if a = 244 then 128 \<le> b \<and> b \<le> 143 else cont b)"

fun utf8_valid :: "nat list \<Rightarrow> bool" where
  "utf8_valid [] = True"
| "utf8_valid (a # r) =
     (if a < 128 then utf8_valid r
      else if 194 \<le> a \<and> a \<le> 223
      then (case r of b # r' \<Rightarrow> cont b \<and> utf8_valid r' | _ \<Rightarrow> False)
      else if 224 \<le> a \<and> a \<le> 239
      then (case r of b # c # r' \<Rightarrow> second_ok a b \<and> cont c \<and> utf8_valid r' | _ \<Rightarrow> False)
      else if 240 \<le> a \<and> a \<le> 244
      then (case r of b # c # d # r' \<Rightarrow> second_ok a b \<and> cont c \<and> cont d \<and> utf8_valid r' | _ \<Rightarrow> False)
      else False)"

section \<open>The key list\<close>

definition MAX_BYTES :: nat where "MAX_BYTES = 64 * 1024"
definition MODE :: nat where "MODE = 416"
definition KEY_BYTES :: nat where "KEY_BYTES = 32"

datatype trust_error = Signature | NotTrusted | KeyChanged | Invalid string

text \<open>From device id to key, in the order of the ids.\<close>

type_synonym trusted_device_keys = "(string \<times> string) list"

definition is_lower_hex :: "char \<Rightarrow> bool" where
  "is_lower_hex b \<longleftrightarrow> is_ascii_digit b \<or> (97 \<le> byte b \<and> byte b \<le> 102)"

definition parse_line :: "crypto \<Rightarrow> string \<Rightarrow> (string \<times> string) option" where
  "parse_line c line = (case split_once CHR '' '' line of
     None \<Rightarrow> None
   | Some (id_text, key) \<Rightarrow>
       (case uuid_parse_str c id_text of
          None \<Rightarrow> None
        | Some device \<Rightarrow>
            if uuid_hyphenated c device \<noteq> id_text \<or> length key \<noteq> KEY_BYTES * 2 \<or> \<not> list_all is_lower_hex key
            then None
            else (case hex_decode c key of
                None \<Rightarrow> None
              | Some b \<Rightarrow> if length b = KEY_BYTES then Some (device, b) else None)))"

fun parse_lines :: "crypto \<Rightarrow> nat \<Rightarrow> trusted_device_keys \<Rightarrow> string list \<Rightarrow> trust_error + trusted_device_keys" where
  "parse_lines c index keys [] = Inr keys"
| "parse_lines c index keys (line # rest) =
     (if line = [] \<or> starts_with line ''#'' then parse_lines c (index + 1) keys rest
      else case parse_line c line of
        None \<Rightarrow> Inl (Invalid (''line '' @ show_nat (index + 1) @ '': expected `<device-id> <public-key>`''))
      | Some (device, key) \<Rightarrow>
          if al_has device keys
          then Inl (Invalid (''line '' @ show_nat (index + 1) @ '': duplicate device''))
          else parse_lines c (index + 1) (bt_insert device key keys) rest)"

definition keys_parse :: "crypto \<Rightarrow> string \<Rightarrow> trust_error + trusted_device_keys" where
  "keys_parse c raw =
     (if length raw > MAX_BYTES then Inl (Invalid ''exceeds size limit'')
      else if \<not> utf8_valid (map byte raw) then Inl (Invalid ''not UTF-8'')
      else parse_lines c 0 [] (split_on CHR 0x0A raw))"

definition header1 :: string where
  "header1 = ''# Owner device keys trusted for privileged changes: <device-id> <public-key>.''"

definition header2 :: string where
  "header2 = ''# Managed by `sudo jarvis devices trust`; manual comments are not kept.''"

definition key_line :: "crypto \<Rightarrow> string \<times> string \<Rightarrow> string" where
  "key_line c e = uuid_hyphenated c (fst e) @ '' '' @ hex_encode c (snd e)"

definition keys_render :: "crypto \<Rightarrow> trusted_device_keys \<Rightarrow> string" where
  "keys_render c keys = header1 @ newline @ header2 @ newline @ concat (map (\<lambda>e. key_line c e @ newline) keys)"

definition keys_insert :: "string \<Rightarrow> string \<Rightarrow> trusted_device_keys \<Rightarrow> trust_error + trusted_device_keys" where
  "keys_insert device public_key keys =
     (if length public_key \<noteq> KEY_BYTES then Inl (Invalid ''public key must be 32 bytes'')
      else Inr (bt_insert device public_key keys))"

definition keys_remove :: "string \<Rightarrow> trusted_device_keys \<Rightarrow> bool \<times> trusted_device_keys" where
  "keys_remove device keys = (al_has device keys, al_remove device keys)"

definition keys_check :: "trusted_device_keys \<Rightarrow> string \<Rightarrow> string \<Rightarrow> trust_error + unit" where
  "keys_check keys device public_key = (case al_get keys device of
     Some key \<Rightarrow> if key = public_key then Inr () else Inl KeyChanged
   | None \<Rightarrow> Inl NotTrusted)"

definition fingerprint :: "crypto \<Rightarrow> string \<Rightarrow> string" where
  "fingerprint c public_key = hex_encode c (sha256 c public_key)"

section \<open>Reading the file\<close>

record fs_meta =
  m_is_file :: bool
  m_is_dir :: bool
  m_is_socket :: bool
  m_dev :: nat
  m_ino :: nat
  m_uid :: nat
  m_gid :: nat
  m_mode :: nat
  m_len :: nat

text \<open>What the file system answers: \<open>lstat\<close>, \<open>open\<close>, and on the opened file \<open>fstat\<close> and a bounded read.\<close>

record fs_view =
  fs_lstat :: "path \<Rightarrow> fs_meta io"
  fs_open :: "path \<Rightarrow> nat io"
  fs_fstat :: "nat \<Rightarrow> fs_meta io"
  fs_read :: "nat \<Rightarrow> nat \<Rightarrow> string io"

definition group_other_write :: "fs_meta \<Rightarrow> bool" where
  "group_other_write m \<longleftrightarrow> m_mode m AND 18 \<noteq> 0"

definition check_directory :: "fs_view \<Rightarrow> path \<Rightarrow> nat \<Rightarrow> trust_error + unit" where
  "check_directory fs p owner = (case path_parent p of
     None \<Rightarrow> Inl (Invalid ''no parent directory'')
   | Some parent \<Rightarrow> (case fs_lstat fs parent of
       IoErr _ _ \<Rightarrow> Inl (Invalid ''directory unreadable'')
     | IoOk m \<Rightarrow> if \<not> m_is_dir m \<or> m_uid m \<noteq> owner \<or> group_other_write m
         then Inl (Invalid ''unsafe directory'') else Inr ()))"

definition read_opened :: "crypto \<Rightarrow> fs_view \<Rightarrow> nat \<Rightarrow> fs_meta \<Rightarrow> nat \<Rightarrow> trust_error + trusted_device_keys option" where
  "read_opened c fs owner link file = (case fs_fstat fs file of
     IoErr _ _ \<Rightarrow> Inl (Invalid ''unreadable'')
   | IoOk m \<Rightarrow>
       if (m_dev m, m_ino m) \<noteq> (m_dev link, m_ino link) \<or> m_uid m \<noteq> owner \<or> group_other_write m
       then Inl (Invalid ''must be a root-owned file without group/other write'')
       else if m_len m > MAX_BYTES then Inl (Invalid ''exceeds size limit'')
       else (case fs_read fs file (MAX_BYTES + 1) of
           IoErr _ _ \<Rightarrow> Inl (Invalid ''unreadable'')
         | IoOk raw \<Rightarrow> map_sum id Some (keys_parse c raw)))"

definition keys_read :: "crypto \<Rightarrow> fs_view \<Rightarrow> path \<Rightarrow> nat \<Rightarrow> trust_error + trusted_device_keys option" where
  "keys_read c fs p owner = (case check_directory fs p owner of
     Inl e \<Rightarrow> Inl e
   | Inr _ \<Rightarrow> (case fs_lstat fs p of
       IoErr NotFoundKind _ \<Rightarrow> Inr None
     | IoErr _ _ \<Rightarrow> Inl (Invalid ''unreadable'')
     | IoOk link \<Rightarrow>
         if \<not> m_is_file link then Inl (Invalid ''not a regular file'')
         else (case fs_open fs p of
             IoErr _ _ \<Rightarrow> Inl (Invalid ''unreadable'')
           | IoOk file \<Rightarrow> read_opened c fs owner link file)))"

record pinned_keys =
  pk_path :: path
  owner_uid :: nat

definition pinned_production :: pinned_keys where
  "pinned_production = \<lparr>pk_path = path_components ''/etc/jarvis/trusted-device-keys'', owner_uid = 0\<rparr>"

definition keys_load :: "crypto \<Rightarrow> fs_view \<Rightarrow> path \<Rightarrow> trust_error + trusted_device_keys option" where
  "keys_load c fs p = keys_read c fs p 0"

definition verify_approval ::
  "crypto \<Rightarrow> fs_view \<Rightarrow> pinned_keys option \<Rightarrow> string \<Rightarrow> string \<Rightarrow> string \<Rightarrow> string \<Rightarrow> trust_error + unit" where
  "verify_approval c fs pinned device public_key message signature =
     (case verify_signature c public_key message signature of
        Inl _ \<Rightarrow> Inl Signature
      | Inr _ \<Rightarrow> (case pinned of
          None \<Rightarrow> Inr ()
        | Some pin \<Rightarrow> (case keys_read c fs (pk_path pin) (owner_uid pin) of
            Inl e \<Rightarrow> Inl e
          | Inr None \<Rightarrow> Inl NotTrusted
          | Inr (Some keys) \<Rightarrow> keys_check keys device public_key)))"

section \<open>Replacing the file\<close>

record stored =
  st_content :: string
  st_uid :: nat
  st_gid :: nat
  st_mode :: nat

type_synonym store = "path \<Rightarrow> stored option"

text \<open>The answers to the calls of one replacement; a failed write may leave a prefix.\<close>

record write_os =
  w_create :: "stored io"
  w_chown :: "unit io"
  w_chmod :: "unit io"
  w_write :: "unit io"
  w_prefix :: nat
  w_sync :: "unit io"
  w_rename :: "unit io"
  w_dirsync :: "unit io"
  w_remove :: "unit io"

definition temp_path :: "path \<Rightarrow> string \<Rightarrow> path" where
  "temp_path dir fresh = dir @ [''.trusted-device-keys.'' @ fresh @ ''.tmp'']"

definition write_steps ::
  "write_os \<Rightarrow> path \<Rightarrow> path \<Rightarrow> stored \<Rightarrow> string \<Rightarrow> nat \<Rightarrow> nat \<Rightarrow> store \<Rightarrow> unit io \<times> store" where
  "write_steps os p temp f content uid gid files =
     (case w_chown os of IoErr k m \<Rightarrow> (IoErr k m, files) | IoOk _ \<Rightarrow>
      let f1 = f\<lparr>st_uid := uid, st_gid := gid\<rparr>; files1 = files(temp \<mapsto> f1) in
      case w_chmod os of IoErr k m \<Rightarrow> (IoErr k m, files1) | IoOk _ \<Rightarrow>
      let f2 = f1\<lparr>st_mode := MODE\<rparr>; files2 = files(temp \<mapsto> f2) in
      case w_write os of
        IoErr k m \<Rightarrow> (IoErr k m, files(temp \<mapsto> f2\<lparr>st_content := take (w_prefix os) content\<rparr>))
      | IoOk _ \<Rightarrow>
      let f3 = f2\<lparr>st_content := content\<rparr>; files3 = files(temp \<mapsto> f3) in
      case w_sync os of IoErr k m \<Rightarrow> (IoErr k m, files3) | IoOk _ \<Rightarrow>
      case w_rename os of IoErr k m \<Rightarrow> (IoErr k m, files3) | IoOk _ \<Rightarrow>
      let files4 = files3(temp := None, p \<mapsto> f3) in
      case w_dirsync os of IoErr k m \<Rightarrow> (IoErr k m, files4) | IoOk _ \<Rightarrow> (IoOk (), files4))"

text \<open>
  Write a new staging file and rename it over the target; on failure the staging file is removed,
  if that succeeds.
\<close>

definition replace_file ::
  "write_os \<Rightarrow> path \<Rightarrow> path \<Rightarrow> string \<Rightarrow> nat \<Rightarrow> nat \<Rightarrow> store \<Rightarrow> unit io \<times> store" where
  "replace_file os p temp content uid gid files =
     (if files temp \<noteq> None then (IoErr AlreadyExistsKind ''file exists'', files)
      else case w_create os of
        IoErr k m \<Rightarrow> (IoErr k m, files)
      | IoOk f \<Rightarrow>
          let f0 = f\<lparr>st_content := []\<rparr>;
              (result, files') = write_steps os p temp f0 content uid gid (files(temp \<mapsto> f0)) in
          case result of
            IoOk _ \<Rightarrow> (result, files')
          | IoErr _ _ \<Rightarrow> (result, case w_remove os of IoOk _ \<Rightarrow> files'(temp := None) | IoErr _ _ \<Rightarrow> files'))"

definition write_atomic ::
  "write_os \<Rightarrow> string \<Rightarrow> path \<Rightarrow> string \<Rightarrow> nat \<Rightarrow> nat \<Rightarrow> store \<Rightarrow> unit io \<times> store" where
  "write_atomic os fresh p content uid gid files = (case path_parent p of
     None \<Rightarrow> (IoErr OtherKind ''invalid input parameter'', files)
   | Some dir \<Rightarrow> replace_file os p (temp_path dir fresh) content uid gid files)"

definition keys_update ::
  "crypto \<Rightarrow> fs_view \<Rightarrow> write_os \<Rightarrow> string \<Rightarrow> path \<Rightarrow> nat \<Rightarrow> nat
     \<Rightarrow> (trusted_device_keys \<Rightarrow> trust_error + trusted_device_keys) \<Rightarrow> store
     \<Rightarrow> (trust_error + trusted_device_keys) \<times> store" where
  "keys_update c fs os fresh p uid gid change files =
     (case keys_read c fs p uid of
        Inl e \<Rightarrow> (Inl e, files)
      | Inr found \<Rightarrow>
     (case change (case found of None \<Rightarrow> [] | Some keys \<Rightarrow> keys) of
        Inl e \<Rightarrow> (Inl e, files)
      | Inr keys \<Rightarrow>
          if length (keys_render c keys) > MAX_BYTES then (Inl (Invalid ''exceeds size limit''), files)
          else (case write_atomic os fresh p (keys_render c keys) uid gid files of
              (IoErr _ m, files') \<Rightarrow> (Inl (Invalid (''write failed: '' @ m)), files')
            | (IoOk _, files') \<Rightarrow> (Inr keys, files'))))"

section \<open>The text format round trip\<close>

text \<open>
  What the crates document: the hyphenated form of a UUID is 36 lower-case hexadecimal digits and
  hyphens and parses back; a parsed UUID has 16 bytes; hexadecimal encoding is lower case, two digits
  per byte, and decodes back.
\<close>

definition codec_laws :: "crypto \<Rightarrow> bool" where
  "codec_laws c \<longleftrightarrow>
     (\<forall>u. length u = 16 \<longrightarrow> uuid_parse_str c (uuid_hyphenated c u) = Some u
        \<and> length (uuid_hyphenated c u) = 36
        \<and> list_all (\<lambda>b. is_lower_hex b \<or> b = CHR ''-'') (uuid_hyphenated c u))
     \<and> (\<forall>s u. uuid_parse_str c s = Some u \<longrightarrow> length u = 16)
     \<and> (\<forall>b. hex_decode c (hex_encode c b) = Some b \<and> length (hex_encode c b) = 2 * length b
          \<and> list_all is_lower_hex (hex_encode c b))"

definition keys_wf :: "trusted_device_keys \<Rightarrow> bool" where
  "keys_wf keys \<longleftrightarrow> bt_wf keys \<and> (\<forall>(u, k) \<in> set keys. length u = 16 \<and> length k = 32)"

lemma keys_wf_insert: "keys_wf keys \<Longrightarrow> length u = 16 \<Longrightarrow> length k = 32 \<Longrightarrow> keys_wf (bt_insert u k keys)"
  by (auto simp: keys_wf_def bt_insert_wf bt_insert_set)

lemma keys_wf_remove: "keys_wf keys \<Longrightarrow> keys_wf (al_remove u keys)"
  by (auto simp: keys_wf_def bt.wf_remove set_al_remove)

lemma keys_wf_Nil [simp]: "keys_wf []"
  by (simp add: keys_wf_def bt_wf_def)

lemma parse_line_ok:
  "codec_laws c \<Longrightarrow> parse_line c l = Some (u, k) \<Longrightarrow> length u = 16 \<and> length k = 32"
  by (auto simp: parse_line_def codec_laws_def KEY_BYTES_def split: option.splits if_splits)

lemma parse_lines_wf:
  "codec_laws c \<Longrightarrow> keys_wf keys \<Longrightarrow> parse_lines c i keys ls = Inr ks \<Longrightarrow> keys_wf ks"
proof (induction ls arbitrary: i keys)
  case (Cons l ls)
  have step: "keys_wf ks" if "parse_line c l = Some (a, b)" "parse_lines c (Suc i) (bt_insert a b keys) ls = Inr ks" for a b
    using Cons.IH [OF Cons.prems(1) _ that(2)] parse_line_ok [OF Cons.prems(1) that(1)] Cons.prems(2)
    by (simp add: keys_wf_insert)
  from Cons.prems Cons.IH [OF Cons.prems(1,2)] show ?case
    by (auto split: if_splits option.splits intro: step)
qed simp

lemma keys_parse_wf: "codec_laws c \<Longrightarrow> keys_parse c raw = Inr ks \<Longrightarrow> keys_wf ks"
  by (auto simp: keys_parse_def split: if_splits intro: parse_lines_wf [where keys = "[]"])

lemma utf8_ascii: "list_all (\<lambda>b. b < 128) bs \<Longrightarrow> utf8_valid bs"
  by (induction bs) auto

lemma hex_plain:
  assumes "is_lower_hex b \<or> b = CHR ''-''"
  shows "byte b < 128" "b \<noteq> CHR '' ''" "b \<noteq> CHR 0x0A" "b \<noteq> CHR ''#''"
  using assms by (auto simp: is_lower_hex_def is_ascii_digit_def byte_def)

lemma key_line_chars:
  assumes "codec_laws c" "length u = 16" "b \<in> set (key_line c (u, k))"
  shows "is_lower_hex b \<or> b = CHR ''-'' \<or> b = CHR '' ''"
  using assms by (auto simp: codec_laws_def key_line_def list_all_iff)

lemma key_line_plain:
  assumes "codec_laws c" "length u = 16"
  shows "CHR 0x0A \<notin> set (key_line c (u, k))" and "list_all (\<lambda>b. b < 128) (map byte (key_line c (u, k)))"
    and "key_line c (u, k) \<noteq> []" and "\<not> starts_with (key_line c (u, k)) ''#''"
proof -
  note ch = key_line_chars [OF assms, of _ k]
  have plain: "byte b < 128 \<and> b \<noteq> CHR 0x0A" if "b \<in> set (key_line c (u, k))" for b
    using ch [OF that] hex_plain [of b] by (auto simp: byte_def)
  then show "CHR 0x0A \<notin> set (key_line c (u, k))" "list_all (\<lambda>b. b < 128) (map byte (key_line c (u, k)))"
    by (auto simp: list_all_iff)
  show "key_line c (u, k) \<noteq> []" by (simp add: key_line_def)
  obtain x xs where x: "uuid_hyphenated c u = x # xs"
    using assms by (cases "uuid_hyphenated c u") (auto simp: codec_laws_def)
  have "is_lower_hex x \<or> x = CHR ''-''" using assms x by (auto simp: codec_laws_def list_all_iff)
  from hex_plain(4) [OF this] show "\<not> starts_with (key_line c (u, k)) ''#''"
    by (simp add: key_line_def x starts_with_def)
qed

lemma parse_key_line:
  assumes "codec_laws c" "length u = 16" "length k = 32"
  shows "parse_line c (key_line c (u, k)) = Some (u, k)"
proof -
  have "CHR '' '' \<notin> set (uuid_hyphenated c u)"
    using assms(1,2) hex_plain(2) by (force simp: codec_laws_def list_all_iff)
  from split_once_append [OF this] have "split_once CHR '' '' (key_line c (u, k)) = Some (uuid_hyphenated c u, hex_encode c k)"
    by (simp add: key_line_def)
  with assms show ?thesis
    by (simp add: parse_line_def codec_laws_def KEY_BYTES_def)
qed

lemma bt_insert_snoc: "\<forall>x \<in> fst ` set m. x < k \<Longrightarrow> bt_insert k v m = m @ [(k, v)]"
  by (induction m) (auto simp: order.asym)

lemma parse_rendered:
  "codec_laws c \<Longrightarrow> keys_wf (pre @ ks) \<Longrightarrow> parse_lines c i pre (map (key_line c) ks @ [[]]) = Inr (pre @ ks)"
proof (induction ks arbitrary: pre i)
  case (Cons e ks)
  obtain u k where e: "e = (u, k)" by (cases e)
  from Cons.prems(2) e have len: "length u = 16" "length k = 32"
    and below: "\<forall>x \<in> fst ` set pre. x < u"
    by (auto simp: keys_wf_def bt_wf_def sorted_wrt_append)
  then have "\<not> al_has u pre" by (auto simp: al_has_def)
  with Cons.IH [of "pre @ [(u, k)]" "i + 1"] Cons.prems below show ?case
    using key_line_plain(3,4) [OF Cons.prems(1) len(1)] parse_key_line [OF Cons.prems(1) len]
    by (simp add: e bt_insert_snoc)
qed simp

lemma split_rendered:
  "codec_laws c \<Longrightarrow> keys_wf ks \<Longrightarrow>
     split_on CHR 0x0A (concat (map (\<lambda>e. key_line c e @ newline) ks)) = map (key_line c) ks @ [[]]"
proof (induction ks)
  case (Cons e ks)
  obtain u k where e: "e = (u, k)" by (cases e)
  from Cons.prems(2) e have "length u = 16" "keys_wf ks" by (auto simp: keys_wf_def bt_wf_def)
  with Cons e show ?case
    by (simp add: newline_def split_on_append key_line_plain(1) [OF Cons.prems(1)])
qed simp

lemma header_plain:
  "CHR 0x0A \<notin> set header1" "CHR 0x0A \<notin> set header2" "starts_with header1 ''#''" "starts_with header2 ''#''"
  "list_all (\<lambda>b. b < 128) (map byte header1)" "list_all (\<lambda>b. b < 128) (map byte header2)"
  by (simp_all add: header1_def header2_def starts_with_def byte_def)

lemma parse_render:
  assumes "codec_laws c" "keys_wf ks" "length (keys_render c ks) \<le> MAX_BYTES"
  shows "keys_parse c (keys_render c ks) = Inr ks"
proof -
  have "list_all (\<lambda>b. b < 128) (map byte (concat (map (\<lambda>e. key_line c e @ newline) ks)))"
    using assms(1,2) key_line_plain(2) [OF assms(1)]
    by (fastforce simp: list_all_iff keys_wf_def newline_def byte_def)
  then have "utf8_valid (map byte (keys_render c ks))"
    by (intro utf8_ascii) (simp add: keys_render_def header_plain newline_def byte_def [of "CHR 0x0A"])
  moreover have "split_on CHR 0x0A (keys_render c ks) = header1 # header2 # map (key_line c) ks @ [[]]"
    using split_rendered [OF assms(1,2)]
    by (simp add: keys_render_def newline_def split_on_append header_plain)
  ultimately show ?thesis
    using assms(3) parse_rendered [OF assms(1), of "[]" ks] assms(2)
    by (simp add: keys_parse_def header_plain)
qed

text \<open>
  The pinned-key file round trips. A key list that was rendered and fits the size limit is read
  back exactly, so no rewrite loses, adds or changes a pinned key. Whatever text is accepted yields a
  well-formed list with one 32-byte key per device, and an accepted device passes the check with its
  own key only.\<close>

theorem trusted_keys_round_trip:
  assumes "codec_laws c" and "keys_wf keys" and "length (keys_render c keys) \<le> MAX_BYTES"
  shows "keys_parse c (keys_render c keys) = Inr keys
    \<and> (keys_parse c raw = Inr parsed \<longrightarrow> keys_wf parsed \<and> distinct (map fst parsed))
    \<and> (keys_check keys device key = Inr () \<longleftrightarrow> (device, key) \<in> set keys)"
proof -
  have "distinct (map fst keys)" using assms(2) by (simp add: keys_wf_def bt_wf_distinct)
  then have "(device, key) \<in> set keys \<longleftrightarrow> al_get keys device = Some key" by simp
  then have "keys_check keys device key = Inr () \<longleftrightarrow> (device, key) \<in> set keys"
    by (simp add: keys_check_def split: option.splits)
  then show ?thesis
    using parse_render [OF assms] keys_parse_wf [OF assms(1)] by (auto simp: keys_wf_def bt_wf_distinct)
qed

section \<open>A codec that keeps the laws\<close>

definition hex_digit :: "nat \<Rightarrow> char" where
  "hex_digit n = char_of (if n < 10 then 48 + n else 87 + n)"

definition unhex :: "char \<Rightarrow> nat" where
  "unhex b = (if byte b < 58 then byte b - 48 else byte b - 87)"

definition enc_hex :: "string \<Rightarrow> string" where
  "enc_hex bs = concat (map (\<lambda>b. [hex_digit (byte b div 16), hex_digit (byte b mod 16)]) bs)"

fun dec_hex :: "string \<Rightarrow> string option" where
  "dec_hex [] = Some []"
| "dec_hex [x] = None"
| "dec_hex (x # y # r) = (if is_lower_hex x \<and> is_lower_hex y
     then map_option ((#) (char_of (16 * unhex x + unhex y))) (dec_hex r) else None)"

definition show_uuid :: "string \<Rightarrow> string" where
  "show_uuid u = enc_hex (take 4 u) @ ''-'' @ enc_hex (take 2 (drop 4 u)) @ ''-'' @ enc_hex (take 2 (drop 6 u))
     @ ''-'' @ enc_hex (take 2 (drop 8 u)) @ ''-'' @ enc_hex (drop 10 u)"

definition parse_uuid :: "string \<Rightarrow> string option" where
  "parse_uuid s = (case dec_hex (filter (\<lambda>b. b \<noteq> CHR ''-'') s) of
     Some u \<Rightarrow> if length u = 16 then Some u else None | None \<Rightarrow> None)"

definition plain_crypto :: crypto where
  "plain_crypto = sample_crypto\<lparr>hex_decode := dec_hex, hex_encode := enc_hex,
     uuid_parse_str := parse_uuid, uuid_hyphenated := show_uuid\<rparr>"

lemma hex_digit_ok: "n < 16 \<Longrightarrow> is_lower_hex (hex_digit n) \<and> unhex (hex_digit n) = n \<and> hex_digit n \<noteq> CHR ''-''"
proof -
  assume "n < 16"
  then have b: "byte (hex_digit n) = (if n < 10 then 48 + n else 87 + n)"
    by (simp add: byte_def hex_digit_def of_char_of)
  moreover have "hex_digit n \<noteq> CHR ''-''"
  proof
    assume "hex_digit n = CHR ''-''"
    then have "byte (hex_digit n) = 45" by (simp add: byte_def)
    with b show False by (simp split: if_splits)
  qed
  ultimately show ?thesis using \<open>n < 16\<close>
    by (simp add: is_lower_hex_def is_ascii_digit_def unhex_def)
qed

lemma byte_lt: "byte b < 256"
  by (simp add: byte_def)

lemma enc_hex_ok: "dec_hex (enc_hex bs) = Some bs \<and> length (enc_hex bs) = 2 * length bs
    \<and> list_all is_lower_hex (enc_hex bs) \<and> filter (\<lambda>b. b \<noteq> CHR ''-'') (enc_hex bs) = enc_hex bs"
proof (induction bs)
  case (Cons b bs)
  have d: "byte b div 16 < 16" "byte b mod 16 < 16" using byte_lt [of b] by simp_all
  have "16 * (byte b div 16) + byte b mod 16 = byte b" by simp
  then have "char_of (16 * (byte b div 16) + byte b mod 16) = b" by (simp only: byte_def char_of_char)
  with Cons hex_digit_ok [OF d(1)] hex_digit_ok [OF d(2)] show ?case by (simp add: enc_hex_def)
qed (simp add: enc_hex_def)

lemma enc_hex_append: "enc_hex a @ enc_hex b = enc_hex (a @ b)"
  by (simp add: enc_hex_def)

lemma show_uuid_ok:
  assumes "length u = 16"
  shows "parse_uuid (show_uuid u) = Some u" "length (show_uuid u) = 36"
    "list_all (\<lambda>b. is_lower_hex b \<or> b = CHR ''-'') (show_uuid u)"
proof -
  have parts: "take 4 u @ take 2 (drop 4 u) @ take 2 (drop 6 u) @ take 2 (drop 8 u) @ drop 10 u = u"
  proof -
    have j: "take 2 (drop n u) @ drop (n + 2) u = drop n u" for n
      by (metis append_take_drop_id drop_drop add.commute)
    have "take 2 (drop 4 u) @ take 2 (drop 6 u) @ take 2 (drop 8 u) @ drop 10 u = drop 4 u"
      using j [of 4] j [of 6] j [of 8] by simp
    then show ?thesis by simp
  qed
  have "filter (\<lambda>b. b \<noteq> CHR ''-'') (show_uuid u) = enc_hex u"
    using enc_hex_ok by (simp add: show_uuid_def enc_hex_append parts)
  then show "parse_uuid (show_uuid u) = Some u" using assms enc_hex_ok by (simp add: parse_uuid_def)
  show "length (show_uuid u) = 36" using assms enc_hex_ok by (simp add: show_uuid_def)
  have "list_all (\<lambda>b. is_lower_hex b \<or> b = CHR ''-'') (enc_hex x)" for x
    using enc_hex_ok [of x] by (auto simp: list_all_iff)
  then show "list_all (\<lambda>b. is_lower_hex b \<or> b = CHR ''-'') (show_uuid u)" by (simp add: show_uuid_def)
qed

lemma plain_codec_laws: "codec_laws plain_crypto"
proof -
  have "length u = 16" if "parse_uuid s = Some u" for s u
    using that by (auto simp: parse_uuid_def split: option.splits if_splits)
  then show ?thesis using enc_hex_ok show_uuid_ok by (simp add: codec_laws_def plain_crypto_def)
qed

definition sample_keys :: trusted_device_keys where
  "sample_keys = [(replicate 16 CHR ''d'', replicate 32 CHR ''k'')]"

lemma sample_keys_wf: "keys_wf sample_keys"
  by (simp add: keys_wf_def sample_keys_def bt_wf_def)

lemma sample_keys_fit: "length (keys_render plain_crypto sample_keys) \<le> MAX_BYTES"
  using plain_codec_laws
  by (simp add: keys_render_def sample_keys_def key_line_def codec_laws_def header1_def header2_def newline_def MAX_BYTES_def)

theorem trusted_keys_round_trip_witness:
  "keys_parse plain_crypto (keys_render plain_crypto sample_keys) = Inr sample_keys
   \<and> keys_check sample_keys (replicate 16 CHR ''d'') (replicate 32 CHR ''k'') = Inr ()"
  using trusted_keys_round_trip [OF plain_codec_laws sample_keys_wf sample_keys_fit,
      where device = "replicate 16 CHR ''d''" and key = "replicate 32 CHR ''k''"]
  by (simp add: sample_keys_def)

section \<open>Atomic replacement\<close>

lemma write_steps_cases:
  assumes "write_steps os p temp f content uid gid files = (r, files')" and "p \<noteq> temp"
  shows "(\<forall>q. q \<noteq> p \<longrightarrow> q \<noteq> temp \<longrightarrow> files' q = files q)
    \<and> (files' p = files p \<or> files' p = Some \<lparr>st_content = content, st_uid = uid, st_gid = gid, st_mode = MODE\<rparr>)
    \<and> (r = IoOk () \<longrightarrow> files' p = Some \<lparr>st_content = content, st_uid = uid, st_gid = gid, st_mode = MODE\<rparr>)"
  using assms by (cases f) (auto simp: write_steps_def Let_def split: io.splits)

lemma replace_file_cases:
  assumes "replace_file os p temp content uid gid files = (r, files')" and "p \<noteq> temp"
  shows "(\<forall>q. q \<noteq> p \<longrightarrow> q \<noteq> temp \<longrightarrow> files' q = files q)
    \<and> (files' p = files p \<or> files' p = Some \<lparr>st_content = content, st_uid = uid, st_gid = gid, st_mode = MODE\<rparr>)
    \<and> (r = IoOk () \<longrightarrow> files' p = Some \<lparr>st_content = content, st_uid = uid, st_gid = gid, st_mode = MODE\<rparr>)"
proof (cases "files temp \<noteq> None \<or> (\<exists>k m. w_create os = IoErr k m)")
  case True
  with assms(1) show ?thesis by (auto simp: replace_file_def Let_def split: io.splits if_splits)
next
  case False
  then obtain f where f: "w_create os = IoOk f" and t: "files temp = None" by (cases "w_create os") auto
  let ?f0 = "f\<lparr>st_content := []\<rparr>"
  obtain r1 g where w: "write_steps os p temp ?f0 content uid gid (files(temp \<mapsto> ?f0)) = (r1, g)" by fastforce
  from write_steps_cases [OF w assms(2)] assms f t w show ?thesis
    by (auto simp: replace_file_def Let_def split: io.splits)
qed

text \<open>
  Replacing the pinned-key file is atomic. Whatever call fails, no file other than the target and
  the fresh staging file is touched, and the target is either as before or is a complete new file with
  the protected owner, group and mode that parses back to the changed list. Success means the new file
  is in place and holds what the change made of the file that was read. An unsafe or malformed
  existing file is never overwritten.\<close>

theorem trusted_keys_update_atomic:
  assumes "codec_laws c" and "path_parent p = Some dir" and "p \<noteq> temp_path dir fresh"
    and "\<forall>old new. keys_wf old \<longrightarrow> change old = Inr new \<longrightarrow> keys_wf new"
    and "keys_update c fs os fresh p uid gid change files = (res, files')"
  shows "(\<forall>q. q \<noteq> p \<longrightarrow> q \<noteq> temp_path dir fresh \<longrightarrow> files' q = files q)
    \<and> (files' p \<noteq> files p \<longrightarrow> (\<exists>found keys. keys_read c fs p uid = Inr found
          \<and> change (case found of None \<Rightarrow> [] | Some old \<Rightarrow> old) = Inr keys
          \<and> files' p = Some \<lparr>st_content = keys_render c keys, st_uid = uid, st_gid = gid, st_mode = MODE\<rparr>
          \<and> keys_parse c (keys_render c keys) = Inr keys))
    \<and> (\<forall>keys. res = Inr keys \<longrightarrow> files' p = Some \<lparr>st_content = keys_render c keys, st_uid = uid,
          st_gid = gid, st_mode = MODE\<rparr> \<and> keys_parse c (keys_render c keys) = Inr keys)
    \<and> (\<forall>e. keys_read c fs p uid = Inl e \<longrightarrow> res = Inl e \<and> files' = files)"
proof (cases "\<exists>found keys. keys_read c fs p uid = Inr found
     \<and> change (case found of None \<Rightarrow> [] | Some old \<Rightarrow> old) = Inr keys \<and> length (keys_render c keys) \<le> MAX_BYTES")
  case False
  then have "files' = files \<and> (\<exists>e. res = Inl e) \<and> (\<forall>e. keys_read c fs p uid = Inl e \<longrightarrow> res = Inl e)"
    using assms(5) unfolding keys_update_def by (auto split: sum.splits if_splits) metis
  then show ?thesis by auto
next
  case True
  then obtain found keys where r: "keys_read c fs p uid = Inr found"
    and ch: "change (case found of None \<Rightarrow> [] | Some old \<Rightarrow> old) = Inr keys"
    and fit: "length (keys_render c keys) \<le> MAX_BYTES" by blast
  have "keys_wf (case found of None \<Rightarrow> [] | Some old \<Rightarrow> old)"
    using r keys_parse_wf [OF assms(1)]
    by (auto simp: keys_read_def read_opened_def map_sum_def split: sum.splits io.splits io_kind.splits if_splits option.splits)
  then have "keys_wf keys" using assms(4) ch by blast
  then have parse: "keys_parse c (keys_render c keys) = Inr keys" by (rule parse_render [OF assms(1) _ fit])
  obtain w g where w: "write_atomic os fresh p (keys_render c keys) uid gid files = (w, g)" by fastforce
  then have w': "replace_file os p (temp_path dir fresh) (keys_render c keys) uid gid files = (w, g)"
    using assms(2) by (simp add: write_atomic_def)
  from assms(5) r ch fit w have "files' = g" and "res = Inr k \<Longrightarrow> w = IoOk () \<and> k = keys" for k
    by (auto simp: keys_update_def split: io.splits)
  with replace_file_cases [OF w' assms(3)] r ch parse show ?thesis by auto
qed

definition sample_path :: path where
  "sample_path = [''etc'', ''jarvis'', ''keys'']"

definition sample_fs :: fs_view where
  "sample_fs = \<lparr>fs_lstat = (\<lambda>q. if q = [''etc'', ''jarvis'']
       then IoOk \<lparr>m_is_file = False, m_is_dir = True, m_is_socket = False, m_dev = 1, m_ino = 2, m_uid = 0,
         m_gid = 0, m_mode = 493, m_len = 0\<rparr>
       else IoErr NotFoundKind ''missing''),
     fs_open = (\<lambda>q. IoErr OtherKind ''closed''), fs_fstat = (\<lambda>h. IoErr OtherKind ''closed''), fs_read = (\<lambda>h n. IoOk [])\<rparr>"

definition sample_write_os :: write_os where
  "sample_write_os = \<lparr>w_create = IoOk \<lparr>st_content = [], st_uid = 0, st_gid = 0, st_mode = 384\<rparr>,
     w_chown = IoOk (), w_chmod = IoOk (), w_write = IoOk (), w_prefix = 0, w_sync = IoOk (),
     w_rename = IoOk (), w_dirsync = IoErr OtherKind ''disk'', w_remove = IoOk ()\<rparr>"

definition sample_change :: "trusted_device_keys \<Rightarrow> trust_error + trusted_device_keys" where
  "sample_change = keys_insert (replicate 16 CHR ''d'') (replicate 32 CHR ''k'')"

lemma sample_change_wf: "\<forall>old new. keys_wf old \<longrightarrow> sample_change old = Inr new \<longrightarrow> keys_wf new"
  by (auto simp: sample_change_def keys_insert_def KEY_BYTES_def intro: keys_wf_insert split: if_splits)

lemma sample_read: "keys_read c sample_fs sample_path 0 = Inr None"
  by (simp add: keys_read_def check_directory_def sample_fs_def sample_path_def path_parent_def group_other_write_def)

lemma sample_changed: "sample_change [] = Inr sample_keys"
  by (simp add: sample_change_def keys_insert_def KEY_BYTES_def sample_keys_def)

text \<open>Here the last call, syncing the directory, fails after the new file is in place.\<close>

theorem trusted_keys_update_atomic_witness:
  "case keys_update plain_crypto sample_fs sample_write_os ''0'' sample_path 0 7 sample_change (\<lambda>_. None) of
     (res, files') \<Rightarrow> res = Inl (Invalid ''write failed: disk'')
       \<and> keys_parse plain_crypto (st_content (the (files' sample_path))) = Inr sample_keys
       \<and> files' [''etc'', ''passwd''] = None"
proof -
  obtain res files' where u: "keys_update plain_crypto sample_fs sample_write_os ''0'' sample_path 0 7
      sample_change (\<lambda>_. None) = (res, files')" by fastforce
  have p: "path_parent sample_path = Some [''etc'', ''jarvis'']" "sample_path \<noteq> temp_path [''etc'', ''jarvis''] ''0''"
    "[''etc'', ''passwd''] \<noteq> temp_path [''etc'', ''jarvis''] ''0''" "[''etc'', ''passwd''] \<noteq> sample_path"
    by (simp_all add: sample_path_def path_parent_def temp_path_def)
  from u sample_keys_fit p have r: "res = Inl (Invalid ''write failed: disk'')" and "files' sample_path \<noteq> None"
    by (auto simp: keys_update_def sample_read sample_changed write_atomic_def replace_file_def write_steps_def sample_write_os_def)
  with trusted_keys_update_atomic [OF plain_codec_laws p(1,2) sample_change_wf u] sample_changed p(3,4)
  have "keys_parse plain_crypto (st_content (the (files' sample_path))) = Inr sample_keys"
    and "files' [''etc'', ''passwd''] = None"
    by (auto simp: sample_read)
  with u r show ?thesis by simp
qed

end
