(* ===== verification/Broker.thy ===== *)
theory Broker
  imports Trusted_Keys
begin

text \<open>
  The admission of a signed request by the root configuration broker: the single-use markers of
  \<^verbatim>\<open>src/jarvis-api/src/broker_replay.rs\<close>, and \<open>authorize\<close>, \<open>outcome\<close> and the checks of \<open>handle\<close> that
  come before the change in \<^verbatim>\<open>src/jarvis-api/src/bin/jarvis-config-broker.rs\<close>. Markers are only ever
  added, so the state is the list of marker names. The answers of the operating system to the calls
  of one attempt are a record; a name that exists makes the exclusive create fail. The change itself
  (\<open>apply\<close>) and the audit row are not modelled here.
\<close>

section \<open>Replay markers\<close>

datatype replay_error = Replay | UnsafeStore | ReplayIo io_kind string

record replay_store =
  rs_dir :: bool
  rs_markers :: "string list"

record replay_os =
  r_state_meta :: "fs_meta io"
  r_mkdir :: "unit io"
  r_dir_meta :: "fs_meta io"
  r_open :: "unit io"
  r_sync :: "unit io"
  r_diropen :: "unit io"
  r_dirsync :: "unit io"

definition check_dir :: "fs_meta io \<Rightarrow> nat \<Rightarrow> replay_error + unit" where
  "check_dir answer owner = (case answer of
     IoErr k m \<Rightarrow> Inl (ReplayIo k m)
   | IoOk meta \<Rightarrow> if \<not> m_is_dir meta \<or> m_uid meta \<noteq> owner \<or> group_other_write meta
       then Inl UnsafeStore else Inr ())"

definition prepare :: "replay_os \<Rightarrow> nat \<Rightarrow> replay_store \<Rightarrow> (replay_error + unit) \<times> replay_store" where
  "prepare os owner st = (case check_dir (r_state_meta os) owner of
     Inl e \<Rightarrow> (Inl e, st)
   | Inr _ \<Rightarrow>
      (case (if rs_dir st then IoErr AlreadyExistsKind ''file exists'' else r_mkdir os) of
         IoErr OtherKind m \<Rightarrow> (Inl (ReplayIo OtherKind m), st)
       | IoErr NotFoundKind m \<Rightarrow> (Inl (ReplayIo NotFoundKind m), st)
       | _ \<Rightarrow> (check_dir (r_dir_meta os) owner, st\<lparr>rs_dir := True\<rparr>)))"

definition create_marker :: "replay_os \<Rightarrow> string \<Rightarrow> replay_store \<Rightarrow> (replay_error + unit) \<times> replay_store" where
  "create_marker os name st = (case r_open os of
     IoErr AlreadyExistsKind _ \<Rightarrow> (Inl Replay, st)
   | IoErr k m \<Rightarrow> (Inl (ReplayIo k m), st)
   | IoOk _ \<Rightarrow>
       if name \<in> set (rs_markers st) then (Inl Replay, st)
       else (Inr (), st\<lparr>rs_markers := name # rs_markers st\<rparr>))"

fun io_res :: "unit io \<Rightarrow> replay_error + unit" where
  "io_res (IoOk _) = Inr ()"
| "io_res (IoErr k m) = Inl (ReplayIo k m)"

definition consume :: "crypto \<Rightarrow> replay_os \<Rightarrow> nat \<Rightarrow> string \<Rightarrow> replay_store \<Rightarrow> (replay_error + unit) \<times> replay_store" where
  "consume c os owner rid st = (case prepare os owner st of
     (Inl e, st1) \<Rightarrow> (Inl e, st1)
   | (Inr _, st1) \<Rightarrow> (case create_marker os (uuid_hyphenated c rid) st1 of
       (Inl e, st2) \<Rightarrow> (Inl e, st2)
     | (Inr _, st2) \<Rightarrow> (case io_res (r_sync os) of
         Inl e \<Rightarrow> (Inl e, st2)
       | Inr _ \<Rightarrow> (case io_res (r_diropen os) of
           Inl e \<Rightarrow> (Inl e, st2)
         | Inr _ \<Rightarrow> (io_res (r_dirsync os), st2)))))"

section \<open>Admission\<close>

datatype broker_error = Message string | Trust trust_error | ReplayFailed replay_error

record broker_attempt =
  at_now :: int
  at_request :: signed_request
  at_key :: "string option"
  at_pinned :: "pinned_keys option"
  at_fs :: fs_view
  at_os :: replay_os
  at_owner :: nat

definition authorize ::
  "crypto \<Rightarrow> signed_request \<Rightarrow> string \<Rightarrow> pinned_keys option \<Rightarrow> fs_view \<Rightarrow> replay_os \<Rightarrow> nat \<Rightarrow> replay_store
     \<Rightarrow> (broker_error + unit) \<times> replay_store" where
  "authorize c r public_key pinned fs os owner st = (case request_message c r of
     Inl _ \<Rightarrow> (Inl (Message ''invalid approval payload''), st)
   | Inr message \<Rightarrow> (case hex_decode c (signature_hex r) of
       None \<Rightarrow> (Inl (Message ''invalid signature''), st)
     | Some signature \<Rightarrow>
        (case verify_approval c fs pinned (device_id r) public_key message signature of
           Inl Signature \<Rightarrow> (Inl (Message ''untrusted owner device signature''), st)
         | Inl e \<Rightarrow> (Inl (Trust e), st)
         | Inr _ \<Rightarrow> (case consume c os owner (request_id r) st of
             (Inl e, st') \<Rightarrow> (Inl (ReplayFailed e), st')
           | (Inr _, st') \<Rightarrow> (Inr (), st')))))"

text \<open>The checks of \<open>handle\<close> before the change is applied; the database key is looked up last.\<close>

definition admit :: "crypto \<Rightarrow> replay_store \<Rightarrow> broker_attempt \<Rightarrow> (broker_error + unit) \<times> replay_store" where
  "admit c st a = (case reject_if_expired (at_request a) (at_now a) of
     Inl _ \<Rightarrow> (Inl (Message ''expired approval''), st)
   | Inr _ \<Rightarrow> (case at_key a of
       None \<Rightarrow> (Inl (Message ''untrusted owner device signature''), st)
     | Some key \<Rightarrow> authorize c (at_request a) key (at_pinned a) (at_fs a) (at_os a) (at_owner a) st))"

text \<open>The audited outcome.\<close>

fun audit_outcome :: "broker_error + unit \<Rightarrow> string" where
  "audit_outcome (Inr _) = ''applied''"
| "audit_outcome (Inl (Trust NotTrusted)) = ''device_not_trusted''"
| "audit_outcome (Inl (Trust KeyChanged)) = ''device_key_mismatch''"
| "audit_outcome (Inl (Trust (Invalid _))) = ''trusted_keys_invalid''"
| "audit_outcome (Inl (Trust Signature)) = ''signature_denied''"
| "audit_outcome (Inl (ReplayFailed Replay)) = ''replay_rejected''"
| "audit_outcome (Inl (ReplayFailed UnsafeStore)) = ''replay_store_unsafe''"
| "audit_outcome (Inl (ReplayFailed (ReplayIo _ _))) = ''replay_store_unavailable''"
| "audit_outcome (Inl (Message m)) =
     (if contains_str m ''expired'' then ''expired''
      else if contains_str m ''signature'' \<or> contains_str m ''device'' then ''signature_denied''
      else ''denied'')"

text \<open>A sequence of attempts, in the order the broker takes them.\<close>

fun broker_run :: "crypto \<Rightarrow> replay_store \<Rightarrow> broker_attempt list \<Rightarrow> (broker_attempt \<times> (broker_error + unit)) list" where
  "broker_run c st [] = []"
| "broker_run c st (a # as) = (case admit c st a of (r, st') \<Rightarrow> (a, r) # broker_run c st' as)"

section \<open>Lemmas\<close>

lemma prepare_markers: "prepare os owner st = (r, st') \<Longrightarrow> rs_markers st' = rs_markers st"
  by (auto simp: prepare_def split: sum.splits io.splits io_kind.splits)

lemma consume_markers:
  assumes "consume c os owner rid st = (r, st')"
  shows "set (rs_markers st) \<subseteq> set (rs_markers st')"
    and "r = Inr () \<Longrightarrow> uuid_hyphenated c rid \<notin> set (rs_markers st) \<and> uuid_hyphenated c rid \<in> set (rs_markers st')"
proof -
  obtain r1 st1 where p: "prepare os owner st = (r1, st1)" by fastforce
  note same = prepare_markers [OF p]
  from assms p same show "set (rs_markers st) \<subseteq> set (rs_markers st')"
    by (auto simp: consume_def create_marker_def split: sum.splits io.splits io_kind.splits if_splits)
  from assms p same show "uuid_hyphenated c rid \<notin> set (rs_markers st) \<and> uuid_hyphenated c rid \<in> set (rs_markers st')"
    if "r = Inr ()"
    using that by (auto simp: consume_def create_marker_def split: sum.splits io.splits io_kind.splits if_splits)
qed

lemma admit_ok:
  assumes "admit c st a = (Inr (), st')"
  shows admit_fresh: "reject_if_expired (at_request a) (at_now a) = Inr ()"
    and admit_verified: "\<exists>key m sig. at_key a = Some key \<and> request_message c (at_request a) = Inr m
      \<and> hex_decode c (signature_hex (at_request a)) = Some sig
      \<and> verify_approval c (at_fs a) (at_pinned a) (device_id (at_request a)) key m sig = Inr ()"
    and admit_consumed: "consume c (at_os a) (at_owner a) (request_id (at_request a)) st = (Inr (), st')"
  using assms unfolding admit_def authorize_def
  by (auto split: sum.splits option.splits trust_error.splits prod.splits)

lemma admit_markers: "set (rs_markers st) \<subseteq> set (rs_markers (snd (admit c st a)))"
proof -
  obtain r s where m: "consume c (at_os a) (at_owner a) (request_id (at_request a)) st = (r, s)" by fastforce
  from consume_markers(1) [OF m] show ?thesis
    by (auto simp: admit_def authorize_def m split: sum.splits option.splits trust_error.splits)
qed

interpretation replays: monotone_system "\<lambda>st a. snd (admit c st a)" "\<lambda>_. True" "\<lambda>st. set (rs_markers st)"
  for c
  by unfold_locales (simp_all add: admit_markers)

lemma broker_run_member:
  "(a, r) \<in> set (broker_run c st as) \<Longrightarrow> \<exists>s s'. admit c s a = (r, s') \<and> set (rs_markers st) \<subseteq> set (rs_markers s)"
proof (induction as arbitrary: st)
  case (Cons x as)
  obtain r0 st1 where x: "admit c st x = (r0, st1)" by fastforce
  have grow: "set (rs_markers st) \<subseteq> set (rs_markers st1)"
    using replays.step_mono [of st c x] x by simp
  from Cons.prems x consider "(a, r) = (x, r0)" | "(a, r) \<in> set (broker_run c st1 as)" by auto
  then show ?case
  proof cases
    case 1
    with x show ?thesis by blast
  next
    case 2
    from Cons.IH [OF this] grow show ?thesis by (meson subset_trans)
  qed
qed simp

lemma used_marker_blocks:
  assumes "uuid_hyphenated c x \<in> set (rs_markers st)" and "(a, r) \<in> set (broker_run c st as)"
    and "request_id (at_request a) = x"
  shows "r \<noteq> Inr ()"
proof
  assume "r = Inr ()"
  with broker_run_member [OF assms(2)] obtain s s' where s: "admit c s a = (Inr (), s')"
    and g: "set (rs_markers st) \<subseteq> set (rs_markers s)" by blast
  from consume_markers(2) [OF admit_consumed [OF s]] have "uuid_hyphenated c (request_id (at_request a)) \<notin> set (rs_markers s)"
    by simp
  with assms(1,3) g show False by blast
qed

lemma accepted_once:
  "length (filter (\<lambda>(a, r). request_id (at_request a) = x \<and> r = Inr ()) (broker_run c st as)) \<le> 1"
proof (induction as arbitrary: st)
  case (Cons a as)
  obtain r st1 where a: "admit c st a = (r, st1)" by fastforce
  show ?case
  proof (cases "request_id (at_request a) = x \<and> r = Inr ()")
    case True
    with a have "admit c st a = (Inr (), st1)" by simp
    from consume_markers(2) [OF admit_consumed [OF this]] True
    have "uuid_hyphenated c x \<in> set (rs_markers st1)" by simp
    from used_marker_blocks [OF this]
    have "filter (\<lambda>(a, r). request_id (at_request a) = x \<and> r = Inr ()) (broker_run c st1 as) = []"
      by (fastforce simp: filter_empty_conv)
    with a show ?thesis by simp
  next
    case False
    with a Cons.IH [of st1] show ?thesis by auto
  qed
qed simp

text \<open>
  C39. The broker acts on an approval at most once, and only on a good one. In any sequence of attempts,
  with any answers of the operating system and across restarts, a request id is admitted at most once.
  Every admitted request was within its window of at most five minutes, its bytes were signed by the
  device's database key, and where keys are pinned the protected file held exactly that key for the
  device.\<close>

theorem approval_used_at_most_once:
  "length (filter (\<lambda>(a, r). request_id (at_request a) = x \<and> r = Inr ()) (broker_run c st as)) \<le> 1
   \<and> (\<forall>(a, r) \<in> set (broker_run c st as). r = Inr () \<longrightarrow>
        issued_at (at_request a) - 30 * second \<le> at_now a \<and> at_now a < expires_at (at_request a)
      \<and> expires_at (at_request a) - issued_at (at_request a) \<le> 300 * second
      \<and> op_validate c (operation (at_request a)) = Inr ()
      \<and> (\<exists>key m sig. at_key a = Some key \<and> request_message c (at_request a) = Inr m
          \<and> hex_decode c (signature_hex (at_request a)) = Some sig \<and> verify_signature c key m sig = Inr ()
          \<and> (\<forall>pin. at_pinned a = Some pin \<longrightarrow> (\<exists>keys. keys_read c (at_fs a) (pk_path pin) (owner_uid pin) = Inr (Some keys)
               \<and> al_get keys (device_id (at_request a)) = Some key))))"
proof (intro conjI ballI)
  show "length (filter (\<lambda>(a, r). request_id (at_request a) = x \<and> r = Inr ()) (broker_run c st as)) \<le> 1"
    by (rule accepted_once)
next
  fix e assume e: "e \<in> set (broker_run c st as)"
  obtain a r where ar: "e = (a, r)" by (cases e)
  have "issued_at (at_request a) - 30 * second \<le> at_now a \<and> at_now a < expires_at (at_request a)
      \<and> expires_at (at_request a) - issued_at (at_request a) \<le> 300 * second
      \<and> op_validate c (operation (at_request a)) = Inr ()
      \<and> (\<exists>key m sig. at_key a = Some key \<and> request_message c (at_request a) = Inr m
          \<and> hex_decode c (signature_hex (at_request a)) = Some sig \<and> verify_signature c key m sig = Inr ()
          \<and> (\<forall>pin. at_pinned a = Some pin \<longrightarrow> (\<exists>keys. keys_read c (at_fs a) (pk_path pin) (owner_uid pin) = Inr (Some keys)
               \<and> al_get keys (device_id (at_request a)) = Some key)))" if r: "r = Inr ()"
  proof -
    from broker_run_member e ar r obtain s s' where s: "admit c s a = (Inr (), s')" by blast
    obtain key m sig where k: "at_key a = Some key" "request_message c (at_request a) = Inr m"
        "hex_decode c (signature_hex (at_request a)) = Some sig"
        "verify_approval c (at_fs a) (at_pinned a) (device_id (at_request a)) key m sig = Inr ()"
      using admit_verified [OF s] by blast
    from k(4) have "verify_signature c key m sig = Inr ()"
      and "\<forall>pin. at_pinned a = Some pin \<longrightarrow> (\<exists>keys. keys_read c (at_fs a) (pk_path pin) (owner_uid pin) = Inr (Some keys)
               \<and> al_get keys (device_id (at_request a)) = Some key)"
      by (auto simp: verify_approval_def keys_check_def split: sum.splits option.splits if_splits)
    with k admit_fresh [OF s] request_message_ok [OF k(2)] show ?thesis
      by (auto simp: reject_if_expired_def split: if_splits)
  qed
  with ar show "case e of (a, r) \<Rightarrow> r = Inr () \<longrightarrow>
        issued_at (at_request a) - 30 * second \<le> at_now a \<and> at_now a < expires_at (at_request a)
      \<and> expires_at (at_request a) - issued_at (at_request a) \<le> 300 * second
      \<and> op_validate c (operation (at_request a)) = Inr ()
      \<and> (\<exists>key m sig. at_key a = Some key \<and> request_message c (at_request a) = Inr m
          \<and> hex_decode c (signature_hex (at_request a)) = Some sig \<and> verify_signature c key m sig = Inr ()
          \<and> (\<forall>pin. at_pinned a = Some pin \<longrightarrow> (\<exists>keys. keys_read c (at_fs a) (pk_path pin) (owner_uid pin) = Inr (Some keys)
               \<and> al_get keys (device_id (at_request a)) = Some key)))"
    by simp
qed

definition sample_dir_meta :: fs_meta where
  "sample_dir_meta = \<lparr>m_is_file = False, m_is_dir = True, m_is_socket = False, m_dev = 1, m_ino = 2, m_uid = 0,
     m_gid = 0, m_mode = 448, m_len = 0\<rparr>"

definition sample_attempt :: broker_attempt where
  "sample_attempt = \<lparr>at_now = 0, at_request = sample_request, at_key = Some (replicate 32 CHR ''k''),
     at_pinned = None, at_fs = sample_fs,
     at_os = \<lparr>r_state_meta = IoOk sample_dir_meta, r_mkdir = IoOk (), r_dir_meta = IoOk sample_dir_meta,
       r_open = IoOk (), r_sync = IoOk (), r_diropen = IoOk (), r_dirsync = IoOk ()\<rparr>, at_owner = 0\<rparr>"

lemma sample_admit:
  assumes "name = uuid_hyphenated sample_crypto (request_id sample_request)"
  shows "admit sample_crypto st sample_attempt =
     (if name \<in> set (rs_markers st) then (Inl (ReplayFailed Replay), st\<lparr>rs_dir := True\<rparr>)
      else (Inr (), st\<lparr>rs_dir := True, rs_markers := name # rs_markers st\<rparr>))"
proof -
  have f: "reject_if_expired sample_request 0 = Inr ()"
    by (simp add: reject_if_expired_def sample_request_def second_def)
  have h: "hex_decode sample_crypto (signature_hex sample_request) = Some (replicate 64 CHR ''0'')"
    by (simp add: sample_crypto_def sample_request_def)
  have v: "verify_approval sample_crypto sample_fs None d (replicate 32 CHR ''k'') m (replicate 64 CHR ''0'') = Inr ()" for d m
    by (simp add: verify_approval_def verify_signature_def sample_crypto_def)
  have d: "check_dir (IoOk sample_dir_meta) 0 = Inr ()"
    by (simp add: check_dir_def sample_dir_meta_def group_other_write_def)
  show ?thesis
    by (simp add: admit_def sample_attempt_def f authorize_def sample_request_message h v consume_def prepare_def d
        create_marker_def assms)
qed

theorem approval_used_at_most_once_witness:
  "map snd (broker_run sample_crypto \<lparr>rs_dir = False, rs_markers = []\<rparr> [sample_attempt, sample_attempt])
     = [Inr (), Inl (ReplayFailed Replay)]
   \<and> verify_signature sample_crypto (the (at_key sample_attempt))
        (the (Some (projr (request_message sample_crypto sample_request))))
        (the (hex_decode sample_crypto (signature_hex sample_request))) = Inr ()"
proof -
  let ?st = "\<lparr>rs_dir = False, rs_markers = []\<rparr>"
  have run: "map snd (broker_run sample_crypto ?st [sample_attempt, sample_attempt])
      = [Inr (), Inl (ReplayFailed Replay)]"
    by (simp add: sample_admit [OF refl])
  have m: "(sample_attempt, Inr ()) \<in> set (broker_run sample_crypto ?st [sample_attempt, sample_attempt])"
    by (simp add: sample_admit [OF refl])
  have req: "at_request sample_attempt = sample_request" by (simp add: sample_attempt_def)
  from approval_used_at_most_once [of "request_id sample_request" sample_crypto ?st "[sample_attempt, sample_attempt]"] m
  obtain key b sig where "at_key sample_attempt = Some key" "request_message sample_crypto sample_request = Inr b"
      "hex_decode sample_crypto (signature_hex sample_request) = Some sig"
      "verify_signature sample_crypto key b sig = Inr ()"
    unfolding req [symmetric] by blast
  with run show ?thesis by simp
qed

end
