(* ===== verification/Config_Apply.thy ===== *)
theory Config_Apply
  imports Broker
begin

text \<open>
  The change the root configuration broker makes once a request is admitted: \<open>apply\<close>, its readers and
  its writer, and the whole of \<open>handle\<close>, in \<^verbatim>\<open>src/jarvis-api/src/bin/jarvis-config-broker.rs\<close>. The
  encoders and decoders of the two JSON documents are a record \<open>json\<close>. Writing the content and then a
  newline is one write of both, as a failure of either leaves a prefix.
\<close>

section \<open>Reading\<close>

record json =
  policy_from_slice :: "string \<Rightarrow> access_policy option"
  policy_to_pretty :: "access_policy \<Rightarrow> string option"
  routing_to_pretty :: "model_routing \<Rightarrow> string option"

definition MAX_POLICY_BYTES :: nat where "MAX_POLICY_BYTES = 8 * 1024 * 1024"

definition unsafe_protected :: "fs_meta \<Rightarrow> bool" where
  "unsafe_protected m \<longleftrightarrow> \<not> m_is_file m \<or> m_uid m \<noteq> 0 \<or> group_other_write m"

definition read_protected :: "fs_view \<Rightarrow> path \<Rightarrow> string + string" where
  "read_protected fs p = (case fs_open fs p of
     IoErr _ m \<Rightarrow> Inl m
   | IoOk file \<Rightarrow> (case fs_fstat fs file of
       IoErr _ m \<Rightarrow> Inl m
     | IoOk meta \<Rightarrow>
         if unsafe_protected meta then Inl ''unsafe protected configuration''
         else if m_len meta > MAX_POLICY_BYTES then Inl ''protected configuration exceeds size limit''
         else (case fs_read fs file (MAX_POLICY_BYTES + 1) of
             IoErr _ m \<Rightarrow> Inl m
           | IoOk content \<Rightarrow>
               if length content > MAX_POLICY_BYTES then Inl ''protected configuration exceeds size limit''
               else Inr content)))"

definition parse_policy :: "json \<Rightarrow> string \<Rightarrow> string + access_policy" where
  "parse_policy j raw = (case policy_from_slice j raw of
     None \<Rightarrow> Inl ''malformed model policy''
   | Some p \<Rightarrow> (case policy_validate p of Inl e \<Rightarrow> Inl e | Inr _ \<Rightarrow> Inr p))"

definition check_routing_path :: "path \<Rightarrow> path \<Rightarrow> string + unit" where
  "check_routing_path policy_path routing_path =
     (if path_parent routing_path \<noteq> path_parent policy_path
      then Inl ''model routing must live in the model policy directory''
      else if routing_path = policy_path \<or> path_file_name routing_path \<noteq> Some ''routing.json''
      then Inl ''model routing must be routing.json next to the model policy''
      else Inr ())"

definition routing_replacement :: "crypto \<Rightarrow> json \<Rightarrow> string \<Rightarrow> access_policy \<Rightarrow> model_routing \<Rightarrow> string \<Rightarrow> string + string" where
  "routing_replacement c j current p r expected =
     (if hex_encode c (sha256 c current) \<noteq> expected then Inl ''routing version changed''
      else case routing_validate r of Inl e \<Rightarrow> Inl e | Inr _ \<Rightarrow>
      if \<not> all_discovered r p then Inl ''routed model is not discovered''
      else case routing_to_pretty j r of
        None \<Rightarrow> Inl ''serialization failed''
      | Some v \<Rightarrow> if length v \<ge> ROUTING_MAX_BYTES then Inl ''model routing too large'' else Inr v)"

section \<open>Writing\<close>

definition config_temp_path :: "path \<Rightarrow> path \<Rightarrow> string \<Rightarrow> path" where
  "config_temp_path dir p fresh = dir @ [''.'' @ (case path_file_name p of Some n \<Rightarrow> n | None \<Rightarrow> ''config'')
     @ ''.'' @ fresh @ ''.tmp'']"

definition atomic_root_write_like ::
  "fs_view \<Rightarrow> write_os \<Rightarrow> string \<Rightarrow> path \<Rightarrow> path \<Rightarrow> string \<Rightarrow> store \<Rightarrow> (string + unit) \<times> store" where
  "atomic_root_write_like fs os fresh p template content files =
     (case (case fs_lstat fs p of IoErr NotFoundKind _ \<Rightarrow> fs_lstat fs template | answer \<Rightarrow> answer) of
        IoErr _ m \<Rightarrow> (Inl m, files)
      | IoOk previous \<Rightarrow>
          if unsafe_protected previous then (Inl ''unsafe protected configuration'', files)
          else (case path_parent p of
              None \<Rightarrow> (Inl ''protected path has no parent'', files)
            | Some dir \<Rightarrow>
               (case replace_file os p (config_temp_path dir p fresh) (content @ newline) (m_uid previous)
                       (m_gid previous) files of
                  (IoErr _ m, files') \<Rightarrow> (Inl m, files')
                | (IoOk _, files') \<Rightarrow> (Inr (), files'))))"

section \<open>The change\<close>

record apply_os =
  ap_dir :: "fs_meta io"
  ap_lock :: bool
  ap_fs :: fs_view
  ap_write :: write_os
  ap_fresh :: string

definition apply_toggle ::
  "crypto \<Rightarrow> json \<Rightarrow> apply_os \<Rightarrow> path \<Rightarrow> string \<Rightarrow> string \<Rightarrow> bool \<Rightarrow> string \<Rightarrow> store \<Rightarrow> (string + unit) \<times> store" where
  "apply_toggle c j os policy_path prov mdl b expected files =
     (case read_protected (ap_fs os) policy_path of
        Inl e \<Rightarrow> (Inl e, files)
      | Inr raw \<Rightarrow>
          if hex_encode c (sha256 c raw) \<noteq> expected then (Inl ''policy version changed'', files)
          else (case parse_policy j raw of
              Inl e \<Rightarrow> (Inl e, files)
            | Inr p \<Rightarrow> (case set_enabled prov mdl b (pol_models p) of
                None \<Rightarrow> (Inl ''model is not discovered'', files)
              | Some ms \<Rightarrow> (case policy_to_pretty j (p\<lparr>pol_models := ms\<rparr>) of
                  None \<Rightarrow> (Inl ''serialization failed'', files)
                | Some v \<Rightarrow> atomic_root_write_like (ap_fs os) (ap_write os) (ap_fresh os) policy_path policy_path v files))))"

definition read_routing :: "fs_view \<Rightarrow> path \<Rightarrow> string + string" where
  "read_routing fs p = (case fs_lstat fs p of IoErr NotFoundKind _ \<Rightarrow> Inr [] | _ \<Rightarrow> read_protected fs p)"

definition apply_routing ::
  "crypto \<Rightarrow> json \<Rightarrow> apply_os \<Rightarrow> path \<Rightarrow> path \<Rightarrow> model_routing \<Rightarrow> string \<Rightarrow> store \<Rightarrow> (string + unit) \<times> store" where
  "apply_routing c j os policy_path routing_path r expected files =
     (case check_routing_path policy_path routing_path of
        Inl e \<Rightarrow> (Inl e, files)
      | Inr _ \<Rightarrow> (case read_routing (ap_fs os) routing_path of
          Inl e \<Rightarrow> (Inl e, files)
        | Inr current \<Rightarrow> (case read_protected (ap_fs os) policy_path of
            Inl e \<Rightarrow> (Inl e, files)
          | Inr raw \<Rightarrow> (case parse_policy j raw of
              Inl e \<Rightarrow> (Inl e, files)
            | Inr p \<Rightarrow> (case routing_replacement c j current p r expected of
                Inl e \<Rightarrow> (Inl e, files)
              | Inr v \<Rightarrow> atomic_root_write_like (ap_fs os) (ap_write os) (ap_fresh os) routing_path policy_path v files)))))"

fun apply_operation :: "crypto \<Rightarrow> json \<Rightarrow> apply_os \<Rightarrow> path \<Rightarrow> path \<Rightarrow> operation \<Rightarrow> store \<Rightarrow> (string + unit) \<times> store" where
  "apply_operation c j os policy_path routing_path op files =
     (case path_parent policy_path of
        None \<Rightarrow> (Inl ''policy has no parent'', files)
      | Some _ \<Rightarrow> (case ap_dir os of
          IoErr _ m \<Rightarrow> (Inl m, files)
        | IoOk dir \<Rightarrow>
            if m_uid dir \<noteq> 0 \<or> group_other_write dir then (Inl ''unsafe model policy directory'', files)
            else if \<not> ap_lock os then (Inl ''another model policy change is in progress'', files)
            else (case op of
                ModelSetEnabled prov mdl b expected \<Rightarrow> apply_toggle c j os policy_path prov mdl b expected files
              | ModelRoutingSet r expected \<Rightarrow> apply_routing c j os policy_path routing_path r expected files)))"

declare apply_operation.simps [simp del]

text \<open>One request from admission to the change: the result, the markers and the files.\<close>

definition handle_request :: "crypto \<Rightarrow> json \<Rightarrow> apply_os \<Rightarrow> path \<Rightarrow> path \<Rightarrow> replay_store \<Rightarrow> store \<Rightarrow> broker_attempt
    \<Rightarrow> (broker_error + unit) \<times> replay_store \<times> store" where
  "handle_request c j os policy_path routing_path st files a =
     (case admit c st a of
        (Inl e, st') \<Rightarrow> (Inl e, st', files)
      | (Inr _, st') \<Rightarrow> (case apply_operation c j os policy_path routing_path (operation (at_request a)) files of
          (Inl m, files') \<Rightarrow> (Inl (Message m), st', files')
        | (Inr _, files') \<Rightarrow> (Inr (), st', files')))"

section \<open>What a change may be\<close>

text \<open>The file an operation is about, and the content it asks for given what is on disk.\<close>

fun target_of :: "path \<Rightarrow> path \<Rightarrow> operation \<Rightarrow> path" where
  "target_of policy_path routing_path (ModelSetEnabled _ _ _ _) = policy_path"
| "target_of policy_path routing_path (ModelRoutingSet _ _) = routing_path"

fun approved_content :: "crypto \<Rightarrow> json \<Rightarrow> fs_view \<Rightarrow> path \<Rightarrow> path \<Rightarrow> operation \<Rightarrow> string \<Rightarrow> bool" where
  "approved_content c j fs policy_path routing_path (ModelSetEnabled prov mdl b expected) v \<longleftrightarrow>
     (\<exists>raw p ms. read_protected fs policy_path = Inr raw \<and> hex_encode c (sha256 c raw) = expected
        \<and> policy_from_slice j raw = Some p \<and> policy_validate p = Inr ()
        \<and> set_enabled prov mdl b (pol_models p) = Some ms \<and> policy_to_pretty j (p\<lparr>pol_models := ms\<rparr>) = Some v)"
| "approved_content c j fs policy_path routing_path (ModelRoutingSet r expected) v \<longleftrightarrow>
     (\<exists>current raw p. read_routing fs routing_path = Inr current \<and> hex_encode c (sha256 c current) = expected
        \<and> read_protected fs policy_path = Inr raw \<and> policy_from_slice j raw = Some p \<and> policy_validate p = Inr ()
        \<and> routing_validate r = Inr () \<and> all_discovered r p \<and> routing_to_pretty j r = Some v
        \<and> length v < ROUTING_MAX_BYTES \<and> path_file_name routing_path = Some ''routing.json'' \<and> routing_path \<noteq> policy_path)"

lemma parse_policy_ok: "parse_policy j raw = Inr p \<longleftrightarrow> policy_from_slice j raw = Some p \<and> policy_validate p = Inr ()"
  by (auto simp: parse_policy_def split: option.splits sum.splits)

lemma routing_replacement_ok: "routing_replacement c j current p r expected = Inr v \<longleftrightarrow>
    hex_encode c (sha256 c current) = expected \<and> routing_validate r = Inr () \<and> all_discovered r p
    \<and> routing_to_pretty j r = Some v \<and> length v < ROUTING_MAX_BYTES"
  by (auto simp: routing_replacement_def split: option.splits sum.splits)

lemma check_routing_path_ok: "check_routing_path pp rp = Inr () \<longleftrightarrow>
    path_parent rp = path_parent pp \<and> rp \<noteq> pp \<and> path_file_name rp = Some ''routing.json''"
  by (auto simp: check_routing_path_def)

text \<open>What a replacement may do to the files.\<close>

definition replaced :: "path \<Rightarrow> path \<Rightarrow> (string \<Rightarrow> bool) \<Rightarrow> store \<Rightarrow> string + unit \<Rightarrow> store \<Rightarrow> bool" where
  "replaced p temp good files r files' \<longleftrightarrow>
     (\<forall>q. q \<noteq> p \<longrightarrow> q \<noteq> temp \<longrightarrow> files' q = files q)
     \<and> (files' p \<noteq> files p \<or> r = Inr () \<longrightarrow> (\<exists>v g. good v
          \<and> files' p = Some \<lparr>st_content = v @ newline, st_uid = 0, st_gid = g, st_mode = MODE\<rparr>))"

lemma replaced_refl: "replaced p temp good files (Inl e) files"
  by (simp add: replaced_def)

lemma atomic_root_write_replaced:
  assumes "atomic_root_write_like fs os fresh p template v files = (r, files')" and "path_parent p = Some dir"
    and "p \<noteq> config_temp_path dir p fresh" and "good v"
  shows "replaced p (config_temp_path dir p fresh) good files r files'"
proof -
  let ?t = "config_temp_path dir p fresh"
  obtain previous where *: "(case fs_lstat fs p of IoErr NotFoundKind _ \<Rightarrow> fs_lstat fs template | answer \<Rightarrow> answer) = IoOk previous
      \<and> \<not> unsafe_protected previous \<or> (\<exists>e. r = Inl e) \<and> files' = files"
    using assms(1) by (auto simp: atomic_root_write_like_def split: io.splits if_splits)
  show ?thesis
  proof (cases "(\<exists>e. r = Inl e) \<and> files' = files")
    case True
    then show ?thesis by (auto simp: replaced_def)
  next
    case False
    with * have pr: "(case fs_lstat fs p of IoErr NotFoundKind _ \<Rightarrow> fs_lstat fs template | answer \<Rightarrow> answer) = IoOk previous"
      and safe: "\<not> unsafe_protected previous" by auto
    obtain w g where w: "replace_file os p ?t (v @ newline) (m_uid previous) (m_gid previous) files = (w, g)" by fastforce
    have "files' = g \<and> (r = Inr () \<longrightarrow> w = IoOk ())"
      using assms(1,2) pr safe w by (auto simp: atomic_root_write_like_def split: io.splits)
    moreover have "m_uid previous = 0" using safe by (simp add: unsafe_protected_def)
    ultimately show ?thesis using replace_file_cases [OF w assms(3)] assms(4) by (auto simp: replaced_def)
  qed
qed

lemma apply_toggle_replaced:
  assumes "apply_toggle c j os pp prov mdl b expected files = (r, files')" and "path_parent pp = Some dir"
    and "pp \<noteq> config_temp_path dir pp (ap_fresh os)"
  shows "replaced pp (config_temp_path dir pp (ap_fresh os))
    (approved_content c j (ap_fs os) pp rp (ModelSetEnabled prov mdl b expected)) files r files'"
proof (cases "\<exists>raw p ms v. read_protected (ap_fs os) pp = Inr raw \<and> hex_encode c (sha256 c raw) = expected
    \<and> parse_policy j raw = Inr p \<and> set_enabled prov mdl b (pol_models p) = Some ms
    \<and> policy_to_pretty j (p\<lparr>pol_models := ms\<rparr>) = Some v")
  case True
  then obtain raw p ms v where v: "read_protected (ap_fs os) pp = Inr raw" "hex_encode c (sha256 c raw) = expected"
    "parse_policy j raw = Inr p" "set_enabled prov mdl b (pol_models p) = Some ms"
    "policy_to_pretty j (p\<lparr>pol_models := ms\<rparr>) = Some v" by blast
  with assms(1) have w: "atomic_root_write_like (ap_fs os) (ap_write os) (ap_fresh os) pp pp v files = (r, files')"
    by (simp add: apply_toggle_def)
  from v show ?thesis
    by (intro atomic_root_write_replaced [OF w assms(2,3)]) (auto simp: parse_policy_ok)
next
  case False
  with assms(1) have "files' = files \<and> (\<exists>e. r = Inl e)"
    by (auto simp: apply_toggle_def split: sum.splits option.splits if_splits)
  then show ?thesis by (auto simp: replaced_def)
qed

lemma apply_routing_replaced:
  assumes "apply_routing c j os pp rp rt expected files = (r, files')" and "path_parent pp = Some dir"
    and "rp \<noteq> config_temp_path dir rp (ap_fresh os)"
  shows "replaced rp (config_temp_path dir rp (ap_fresh os))
    (approved_content c j (ap_fs os) pp rp (ModelRoutingSet rt expected)) files r files'"
proof (cases "\<exists>current raw p v. check_routing_path pp rp = Inr () \<and> read_routing (ap_fs os) rp = Inr current
    \<and> read_protected (ap_fs os) pp = Inr raw \<and> parse_policy j raw = Inr p
    \<and> routing_replacement c j current p rt expected = Inr v")
  case True
  then obtain current raw p v where v: "check_routing_path pp rp = Inr ()" "read_routing (ap_fs os) rp = Inr current"
    "read_protected (ap_fs os) pp = Inr raw" "parse_policy j raw = Inr p"
    "routing_replacement c j current p rt expected = Inr v" by blast
  with assms(1) have w: "atomic_root_write_like (ap_fs os) (ap_write os) (ap_fresh os) rp pp v files = (r, files')"
    by (simp add: apply_routing_def)
  have d: "path_parent rp = Some dir" using v(1) assms(2) by (simp add: check_routing_path_ok)
  from v show ?thesis
    by (intro atomic_root_write_replaced [OF w d assms(3)])
      (auto simp: parse_policy_ok routing_replacement_ok check_routing_path_ok)
next
  case False
  with assms(1) have "files' = files \<and> (\<exists>e. r = Inl e)"
    by (auto simp: apply_routing_def split: sum.splits) metis+
  then show ?thesis by (auto simp: replaced_def)
qed

lemma apply_operation_replaced:
  assumes "apply_operation c j os pp rp op files = (r, files')" and "path_parent pp = Some dir"
    and "target_of pp rp op \<noteq> config_temp_path dir (target_of pp rp op) (ap_fresh os)"
  shows "replaced (target_of pp rp op) (config_temp_path dir (target_of pp rp op) (ap_fresh os))
    (approved_content c j (ap_fs os) pp rp op) files r files'"
proof (cases "\<exists>d. ap_dir os = IoOk d \<and> m_uid d = 0 \<and> \<not> group_other_write d \<and> ap_lock os")
  case False
  with assms(1,2) have "files' = files \<and> (\<exists>e. r = Inl e)"
    by (auto simp: apply_operation.simps split: io.splits if_splits)
  then show ?thesis by (auto simp: replaced_def)
next
  case True
  show ?thesis
  proof (cases op)
    case (ModelSetEnabled prov mdl b h)
    with True assms(1,2) have "apply_toggle c j os pp prov mdl b h files = (r, files')"
      by (auto simp: apply_operation.simps)
    from apply_toggle_replaced [OF this assms(2)] assms(3) ModelSetEnabled show ?thesis by simp
  next
    case (ModelRoutingSet rt h)
    with True assms(1,2) have "apply_routing c j os pp rp rt h files = (r, files')"
      by (auto simp: apply_operation.simps)
    from apply_routing_replaced [OF this assms(2)] assms(3) ModelRoutingSet show ?thesis by simp
  qed
qed

text \<open>
  C27. A protected file changes only by an admitted approval, and only to what was approved. Handling a
  request touches no file but the one the operation names and a fresh staging file, and touches those
  only after the request was admitted. If the named file changes at all, it is complete, owned by root
  with the protected mode, and holds exactly the approved change of the version the approval was bound
  to: one enabled bit of a valid policy, or a valid routing document that names discovered models only.
  Success means the change is in place.\<close>

theorem broker_changes_only_what_was_approved:
  assumes "handle_request c j os pp rp st files a = (r, st', files')" and "path_parent pp = Some dir"
    and "target = target_of pp rp (operation (at_request a))" and "temp = config_temp_path dir target (ap_fresh os)"
    and "target \<noteq> temp"
  shows "(\<forall>q. q \<noteq> target \<longrightarrow> q \<noteq> temp \<longrightarrow> files' q = files q)
    \<and> (files' \<noteq> files \<longrightarrow> fst (admit c st a) = Inr ())
    \<and> (files' target \<noteq> files target \<or> r = Inr () \<longrightarrow>
        (\<exists>v g. approved_content c j (ap_fs os) pp rp (operation (at_request a)) v
          \<and> files' target = Some \<lparr>st_content = v @ newline, st_uid = 0, st_gid = g, st_mode = MODE\<rparr>))"
proof (cases "fst (admit c st a) = Inr ()")
  case False
  with assms(1) have "files' = files \<and> (\<exists>e. r = Inl e)"
    by (auto simp: handle_request_def split: prod.splits sum.splits)
  then show ?thesis by auto
next
  case True
  obtain w g where w: "apply_operation c j os pp rp (operation (at_request a)) files = (w, g)" by fastforce
  with True assms(1) have "files' = g" "r = Inr () \<longrightarrow> w = Inr ()"
    by (auto simp: handle_request_def split: prod.splits sum.splits)
  with apply_operation_replaced [OF w assms(2)] assms(3-5) True show ?thesis
    by (auto simp: replaced_def)
qed

definition approve_json :: json where
  "approve_json = \<lparr>policy_from_slice = (\<lambda>raw. if raw = ''old'' then Some (sample_policy False) else None),
     policy_to_pretty = (\<lambda>p. if p = sample_policy True then Some ''new'' else None), routing_to_pretty = (\<lambda>r. None)\<rparr>"

definition policy_meta :: fs_meta where
  "policy_meta = \<lparr>m_is_file = True, m_is_dir = False, m_is_socket = False, m_dev = 1, m_ino = 3, m_uid = 0,
     m_gid = 7, m_mode = 416, m_len = 3\<rparr>"

definition approve_os :: apply_os where
  "approve_os = \<lparr>ap_dir = IoOk sample_dir_meta, ap_lock = True,
     ap_fs = \<lparr>fs_lstat = (\<lambda>q. IoOk policy_meta), fs_open = (\<lambda>q. IoOk 5), fs_fstat = (\<lambda>f. IoOk policy_meta),
       fs_read = (\<lambda>f n. IoOk ''old'')\<rparr>,
     ap_write = sample_write_os\<lparr>w_dirsync := IoOk ()\<rparr>, ap_fresh = ''1''\<rparr>"

definition approve_attempt :: broker_attempt where
  "approve_attempt = sample_attempt\<lparr>at_request := sample_request\<lparr>operation := ModelSetEnabled ''xai-api'' ''grok'' True
     (replicate 64 CHR ''h'')\<rparr>\<rparr>"

lemma approve_admitted: "fst (admit sample_crypto \<lparr>rs_dir = True, rs_markers = []\<rparr> approve_attempt) = Inr ()"
proof -
  let ?r = "at_request approve_attempt"
  have m: "\<exists>m. request_message sample_crypto ?r = Inr m"
    by (simp add: approve_attempt_def sample_attempt_def request_message_def sample_request_def sample_crypto_def
        decode_fixed_def canonical_payload_def valid_sha256_hex_def privileged_config_approval_message_def
        approval_message_def second_def eval_simps)
  then obtain m where m: "request_message sample_crypto ?r = Inr m" by blast
  have f: "reject_if_expired ?r 0 = Inr ()"
    by (simp add: approve_attempt_def sample_attempt_def reject_if_expired_def sample_request_def second_def)
  have h: "hex_decode sample_crypto (signature_hex ?r) = Some (replicate 64 CHR ''0'')"
    by (simp add: approve_attempt_def sample_crypto_def sample_request_def sample_attempt_def)
  have v: "verify_approval sample_crypto sample_fs None d (replicate 32 CHR ''k'') m (replicate 64 CHR ''0'') = Inr ()" for d
    by (simp add: verify_approval_def verify_signature_def sample_crypto_def)
  have d: "check_dir (IoOk sample_dir_meta) 0 = Inr ()"
    by (simp add: check_dir_def sample_dir_meta_def group_other_write_def)
  have a: "at_now approve_attempt = 0" "at_key approve_attempt = Some (replicate 32 CHR ''k'')" "at_pinned approve_attempt = None"
    "at_fs approve_attempt = sample_fs" "at_owner approve_attempt = 0" "at_os approve_attempt = at_os sample_attempt"
    by (simp_all add: approve_attempt_def sample_attempt_def)
  show ?thesis
    by (simp add: admit_def a f authorize_def m h v) (simp add: consume_def prepare_def d create_marker_def sample_attempt_def)
qed

theorem broker_changes_only_what_was_approved_witness:
  "\<exists>st' files' v g. handle_request sample_crypto approve_json approve_os [''etc'', ''policy.json''] [''etc'', ''routing.json'']
     \<lparr>rs_dir = True, rs_markers = []\<rparr> (\<lambda>_. None) approve_attempt = (Inr (), st', files')
   \<and> files' [''etc'', ''policy.json''] = Some \<lparr>st_content = v @ newline, st_uid = 0, st_gid = g, st_mode = MODE\<rparr>
   \<and> policy_to_pretty approve_json (sample_policy True) = Some v"
proof -
  let ?pp = "[''etc'', ''policy.json'']" and ?rp = "[''etc'', ''routing.json'']"
  let ?st = "\<lparr>rs_dir = True, rs_markers = []\<rparr>"
  have op: "operation (at_request approve_attempt) = ModelSetEnabled ''xai-api'' ''grok'' True (replicate 64 CHR ''h'')"
    by (simp add: approve_attempt_def sample_attempt_def)
  have read: "read_protected (ap_fs approve_os) ?pp = Inr ''old''"
    by (simp add: read_protected_def approve_os_def policy_meta_def unsafe_protected_def group_other_write_def MAX_POLICY_BYTES_def)
  have hash: "hex_encode sample_crypto (sha256 sample_crypto x) = replicate 64 CHR ''h''" for x
    by (simp add: sample_crypto_def numeral_eq_Suc)
  have parse: "parse_policy approve_json ''old'' = Inr (sample_policy False)"
    by (simp add: parse_policy_ok approve_json_def sample_valid)
  have toggled: "\<exists>ms. set_enabled ''xai-api'' ''grok'' True (pol_models (sample_policy False)) = Some ms
      \<and> (sample_policy False)\<lparr>pol_models := ms\<rparr> = sample_policy True"
    by (simp add: sample_policy_def)
  have pretty: "policy_to_pretty approve_json (sample_policy True) = Some ''new''" by (simp add: approve_json_def)
  have written: "fst (atomic_root_write_like (ap_fs approve_os) (ap_write approve_os) (ap_fresh approve_os) ?pp ?pp ''new''
      (\<lambda>_. None)) = Inr ()"
    by (simp add: atomic_root_write_like_def approve_os_def policy_meta_def unsafe_protected_def group_other_write_def
        path_parent_def replace_file_def write_steps_def sample_write_os_def)
  have toggle: "fst (apply_toggle sample_crypto approve_json approve_os ?pp ''xai-api'' ''grok'' True
      (replicate 64 CHR ''h'') (\<lambda>_. None)) = Inr ()"
    using toggled pretty written by (auto simp: apply_toggle_def read hash parse)
  have os: "ap_dir approve_os = IoOk sample_dir_meta" "ap_lock approve_os" "m_uid sample_dir_meta = 0"
    "\<not> group_other_write sample_dir_meta"
    by (simp_all add: approve_os_def sample_dir_meta_def group_other_write_def)
  have "fst (apply_operation sample_crypto approve_json approve_os ?pp ?rp
      (ModelSetEnabled ''xai-api'' ''grok'' True (replicate 64 CHR ''h'')) (\<lambda>_. None)) = Inr ()"
    using toggle by (simp add: apply_operation.simps path_parent_def os)
  then obtain files' where ap: "apply_operation sample_crypto approve_json approve_os ?pp ?rp
      (ModelSetEnabled ''xai-api'' ''grok'' True (replicate 64 CHR ''h'')) (\<lambda>_. None) = (Inr (), files')"
    by (metis prod.collapse)
  obtain st' where ad: "admit sample_crypto ?st approve_attempt = (Inr (), st')"
    using approve_admitted by (metis prod.collapse)
  have h: "handle_request sample_crypto approve_json approve_os ?pp ?rp ?st (\<lambda>_. None) approve_attempt
      = (Inr (), st', files')"
    by (simp add: handle_request_def op ad ap)
  have t: "?pp = target_of ?pp ?rp (operation (at_request approve_attempt))" by (simp add: op)
  have "?pp \<noteq> config_temp_path [''etc''] ?pp (ap_fresh approve_os)"
    by (simp add: config_temp_path_def path_file_name_def approve_os_def)
  from broker_changes_only_what_was_approved [OF h _ t refl this] obtain v g where
    "approved_content sample_crypto approve_json (ap_fs approve_os) ?pp ?rp (operation (at_request approve_attempt)) v"
    "files' ?pp = Some \<lparr>st_content = v @ newline, st_uid = 0, st_gid = g, st_mode = MODE\<rparr>"
    by (auto simp: path_parent_def)
  with h show ?thesis using read toggled by (auto simp: op approve_json_def)
qed

end
