(* ===== verification/Peer.thy ===== *)
theory Peer
  imports Rate_Limit Trusted_Keys
begin

text \<open>
  \<^verbatim>\<open>src/jarvis-api/src/peer.rs\<close>: who a request came from. The kernel-reported peer decides whether the
  forwarding headers count; the address it gives keys the rate limiter. A header map is the list of its
  lines, each with a lower-case name; whether a value is readable text is a parameter \<open>to_str\<close>, as the
  header type is from the \<open>http\<close> crate. The textual form of addresses is that of the standard library.
\<close>

section \<open>Parsing an address\<close>

definition to_digit :: "nat \<Rightarrow> char \<Rightarrow> nat option" where
  "to_digit radix c = (let b = byte c;
     d = (if 48 \<le> b \<and> b \<le> 57 then b - 48 else if 97 \<le> b \<and> b \<le> 122 then b - 87
          else if 65 \<le> b \<and> b \<le> 90 then b - 55 else 36)
     in if d < radix then Some d else None)"

text \<open>The longest run of digits: its value, its length and what follows.\<close>

fun read_digits :: "nat \<Rightarrow> nat \<Rightarrow> nat \<Rightarrow> string \<Rightarrow> nat \<times> nat \<times> string" where
  "read_digits radix v n [] = (v, n, [])"
| "read_digits radix v n (c # s) = (case to_digit radix c of
     Some d \<Rightarrow> read_digits radix (v * radix + d) (Suc n) s | None \<Rightarrow> (v, n, c # s))"

definition read_number :: "nat \<Rightarrow> nat \<Rightarrow> nat \<Rightarrow> bool \<Rightarrow> string \<Rightarrow> (nat \<times> string) option" where
  "read_number radix max_digits hi allow_zero_prefix s =
     (let (v, n, rest) = read_digits radix 0 0 s in
      if n > max_digits \<or> n = 0 then None
      else if \<not> allow_zero_prefix \<and> hd s = CHR ''0'' \<and> n > 1 then None
      else if v > hi then None else Some (v, rest))"

definition read_given_char :: "char \<Rightarrow> string \<Rightarrow> string option" where
  "read_given_char c s = (case s of [] \<Rightarrow> None | x # r \<Rightarrow> if x = c then Some r else None)"

definition read_separator :: "char \<Rightarrow> nat \<Rightarrow> (string \<Rightarrow> ('a \<times> string) option) \<Rightarrow> string \<Rightarrow> ('a \<times> string) option" where
  "read_separator sep i inner s = (if i > 0 then Option.bind (read_given_char sep s) inner else inner s)"

fun read_octets :: "nat \<Rightarrow> nat \<Rightarrow> string \<Rightarrow> (nat list \<times> string) option" where
  "read_octets i 0 s = Some ([], s)"
| "read_octets i (Suc k) s = (case read_separator CHR ''.'' i (read_number 10 3 255 False) s of
     None \<Rightarrow> None
   | Some (v, s1) \<Rightarrow> map_option (\<lambda>(vs, s2). (v # vs, s2)) (read_octets (Suc i) k s1))"

definition read_ipv4_addr :: "string \<Rightarrow> (nat list \<times> string) option" where
  "read_ipv4_addr s = read_octets 0 4 s"

text \<open>\<open>read_groups\<close> with \<open>k\<close> groups left of the limit: the groups, whether IPv4 ended them, the rest.\<close>

fun read_groups :: "nat \<Rightarrow> nat \<Rightarrow> string \<Rightarrow> nat list \<times> bool \<times> string" where
  "read_groups i 0 s = ([], False, s)"
| "read_groups i (Suc k) s =
     (case (if k > 0 then read_separator CHR '':'' i read_ipv4_addr s else None) of
        Some (v, s1) \<Rightarrow> ([v ! 0 * 256 + v ! 1, v ! 2 * 256 + v ! 3], True, s1)
      | None \<Rightarrow> (case read_separator CHR '':'' i (read_number 16 4 65535 True) s of
          None \<Rightarrow> ([], False, s)
        | Some (g, s1) \<Rightarrow> (let (gs, v4, s2) = read_groups (Suc i) k s1 in (g # gs, v4, s2))))"

definition read_ipv6_addr :: "string \<Rightarrow> (nat list \<times> string) option" where
  "read_ipv6_addr s =
     (let (head, head_ipv4, s1) = read_groups 0 8 s in
      if length head = 8 then Some (head, s1)
      else if head_ipv4 then None
      else case Option.bind (read_given_char CHR '':'' s1) (read_given_char CHR '':'') of
        None \<Rightarrow> None
      | Some s2 \<Rightarrow>
          let (tail, _, s3) = read_groups 0 (8 - (length head + 1)) s2
          in Some (head @ replicate (8 - length head - length tail) 0 @ tail, s3))"

definition parse_ip :: "string \<Rightarrow> ip_addr option" where
  "parse_ip s = (case read_ipv4_addr s of
     Some (v, rest) \<Rightarrow> if rest = [] then Some (V4 v) else None
   | None \<Rightarrow> (case read_ipv6_addr s of
       Some (g, rest) \<Rightarrow> if rest = [] then Some (V6 g) else None
     | None \<Rightarrow> None))"

section \<open>The peer\<close>

datatype peer = Tcp ip_addr nat | Unix "nat option"

type_synonym header_map = "(string \<times> string) list"

definition get_all :: "header_map \<Rightarrow> string \<Rightarrow> string list" where
  "get_all headers name = map snd (filter (\<lambda>(n, _). n = name) headers)"

definition is_trusted_proxy :: "peer option \<Rightarrow> nat option \<Rightarrow> bool" where
  "is_trusted_proxy peer unix_proxy_uid = (case (peer, unix_proxy_uid) of
     (Some (Unix (Some uid)), Some proxy) \<Rightarrow> uid = proxy | _ \<Rightarrow> False)"

definition forwarded_entries :: "(string \<Rightarrow> string option) \<Rightarrow> header_map \<Rightarrow> string list" where
  "forwarded_entries to_str headers = map trim (concat (map
     (\<lambda>line. split_on CHR '','' (case to_str line of Some t \<Rightarrow> t | None \<Rightarrow> ''unparsable''))
     (get_all headers ''x-forwarded-for'')))"

definition forwarded_client :: "(string \<Rightarrow> string option) \<Rightarrow> peer option \<Rightarrow> header_map \<Rightarrow> bool \<Rightarrow> ip_addr option" where
  "forwarded_client to_str peer headers trusted =
     (if \<not> trusted then (case peer of Some (Tcp ip _) \<Rightarrow> Some ip | _ \<Rightarrow> None)
      else Option.bind (find (\<lambda>e. e \<noteq> []) (rev (forwarded_entries to_str headers))) parse_ip)"

definition peer_trust :: "peer option \<Rightarrow> nat option \<Rightarrow> peer option \<times> bool" where
  "peer_trust peer unix_proxy_uid = (peer, is_trusted_proxy peer unix_proxy_uid)"

definition client_ip :: "(string \<Rightarrow> string option) \<Rightarrow> peer option \<Rightarrow> header_map \<Rightarrow> nat option \<Rightarrow> ip_addr option" where
  "client_ip to_str peer headers unix_proxy_uid =
     (let (p, trusted) = peer_trust peer unix_proxy_uid in forwarded_client to_str p headers trusted)"

definition arrived_via_https_proxy :: "(string \<Rightarrow> string option) \<Rightarrow> peer option \<Rightarrow> header_map \<Rightarrow> nat option \<Rightarrow> bool" where
  "arrived_via_https_proxy to_str peer headers unix_proxy_uid \<longleftrightarrow>
     snd (peer_trust peer unix_proxy_uid)
     \<and> (case get_all headers ''x-forwarded-proto'' of
          [] \<Rightarrow> False
        | v # _ \<Rightarrow> (case to_str v of None \<Rightarrow> False | Some t \<Rightarrow> eq_ignore_ascii_case t ''https''))"

record proxy_ids =
  proxy_uid :: nat
  proxy_gid :: nat

definition proxy_identity :: "(nat \<times> nat) option \<Rightarrow> nat \<Rightarrow> string + proxy_ids" where
  "proxy_identity account euid = (case account of
     None \<Rightarrow> Inl (''reverse proxy account '' @ [CHR 0x22] @ ''caddy'' @ [CHR 0x22] @ '' is missing'')
   | Some (uid, gid) \<Rightarrow>
       if uid = euid then Inl ''reverse proxy account must not be Core's own user''
       else Inr \<lparr>proxy_uid = uid, proxy_gid = gid\<rparr>)"

text \<open>The answers to the calls that change the socket path.\<close>

record socket_os =
  so_remove :: "unit io"
  so_bind :: "unit io"
  so_chmod :: "unit io"
  so_lstat :: "fs_meta io"

definition finish_bind :: "socket_os \<Rightarrow> nat \<Rightarrow> string + unit" where
  "finish_bind os gid = (case so_bind os of IoErr _ m \<Rightarrow> Inl m | IoOk _ \<Rightarrow>
     case so_chmod os of IoErr _ m \<Rightarrow> Inl m | IoOk _ \<Rightarrow>
     case so_lstat os of IoErr _ m \<Rightarrow> Inl m | IoOk meta \<Rightarrow>
     if m_gid meta \<noteq> gid then Inl ''API socket did not inherit the reverse proxy's group'' else Inr ())"

definition bind_api_socket :: "fs_view \<Rightarrow> socket_os \<Rightarrow> nat \<Rightarrow> path \<Rightarrow> nat \<Rightarrow> string + unit" where
  "bind_api_socket fs os euid p gid = (case path_parent p of
     None \<Rightarrow> Inl ''API socket path has no parent''
   | Some parent \<Rightarrow> (case fs_lstat fs parent of
       IoErr _ _ \<Rightarrow> Inl ''API socket directory unavailable''
     | IoOk dir \<Rightarrow>
         if \<not> m_is_dir dir \<or> m_uid dir \<noteq> euid \<or> m_mode dir AND 23 \<noteq> 0
         then Inl ''unsafe API socket directory: must be owned by Core with no group write or other access''
         else if m_gid dir \<noteq> gid
         then Inl ''API socket directory group is not the reverse proxy's group; check the jarvis-core unit's ExecStartPre install step''
         else if m_mode dir AND 1024 = 0
         then Inl ''API socket directory must be setgid so the socket gets the reverse proxy's group; check the jarvis-core unit's ExecStartPre install step''
         else (case fs_lstat fs p of
             IoOk info \<Rightarrow>
               if m_is_socket info \<and> m_uid info = euid
               then (case so_remove os of IoErr _ m \<Rightarrow> Inl m | IoOk _ \<Rightarrow> finish_bind os gid)
               else Inl ''unsafe existing API socket path''
           | IoErr NotFoundKind _ \<Rightarrow> finish_bind os gid
           | IoErr _ m \<Rightarrow> Inl m)))"

section \<open>Lemmas\<close>

lemma split_on_join: "split_on d (a @ d # b) = split_on d a @ split_on d b"
proof (induction a)
  case (Cons c a)
  then show ?case by (cases "split_on d a") auto
qed simp

lemma last_entry:
  assumes "CHR '','' \<notin> set entry" and "sent = [] \<or> last sent = CHR '',''"
  shows "last (split_on CHR '','' (sent @ entry)) = entry"
proof (cases sent rule: rev_cases)
  case Nil
  with assms(1) show ?thesis by (simp add: split_on_plain)
next
  case (snoc s c)
  with assms(2) have "sent @ entry = s @ CHR '','' # entry" by simp
  then show ?thesis using assms(1) by (simp add: split_on_join split_on_plain)
qed

lemma find_rev_last: "xs \<noteq> [] \<Longrightarrow> P (last xs) \<Longrightarrow> find P (rev xs) = Some (last xs)"
  by (cases xs rule: rev_cases) auto

lemma forwarded_last:
  assumes "get_all headers ''x-forwarded-for'' = before @ [line]" and "to_str line = Some (sent @ entry)"
    and "sent = [] \<or> last sent = CHR '',''" and "CHR '','' \<notin> set entry"
  shows "forwarded_entries to_str headers \<noteq> [] \<and> last (forwarded_entries to_str headers) = trim entry"
  using assms(1,2) last_entry [OF assms(4,3)] by (simp add: forwarded_entries_def last_map)

text \<open>
  A client cannot choose its own address. Forwarding headers count only on a connection from the
  proxy's own account over the API socket. For every other connection the address is the one of the
  transport and no header has any influence, nor can it claim to have used HTTPS. Behind the proxy only
  the entry the proxy appended last counts: whatever header lines or entries the client sent before
  it, readable or not, the address is the one in that entry.\<close>

theorem client_address_not_spoofable:
  "(is_trusted_proxy peer proxy \<longleftrightarrow> (\<exists>u. peer = Some (Unix (Some u)) \<and> proxy = Some u))
   \<and> (\<not> is_trusted_proxy peer proxy \<longrightarrow>
        client_ip to_str peer headers proxy = (case peer of Some (Tcp ip _) \<Rightarrow> Some ip | _ \<Rightarrow> None)
      \<and> limit_key (client_ip to_str peer headers proxy) = limit_key (client_ip to_str peer headers' proxy)
      \<and> \<not> arrived_via_https_proxy to_str peer headers proxy)
   \<and> (is_trusted_proxy peer proxy \<longrightarrow> get_all headers ''x-forwarded-for'' = before @ [line] \<longrightarrow>
        to_str line = Some (sent @ entry) \<longrightarrow> sent = [] \<or> last sent = CHR '','' \<longrightarrow> CHR '','' \<notin> set entry \<longrightarrow>
        trim entry \<noteq> [] \<longrightarrow> client_ip to_str peer headers proxy = parse_ip (trim entry))"
proof (intro conjI impI)
  show "is_trusted_proxy peer proxy \<longleftrightarrow> (\<exists>u. peer = Some (Unix (Some u)) \<and> proxy = Some u)"
    by (auto simp: is_trusted_proxy_def split: option.splits peer.splits)
next
  assume "is_trusted_proxy peer proxy" "get_all headers ''x-forwarded-for'' = before @ [line]"
    "to_str line = Some (sent @ entry)" "sent = [] \<or> last sent = CHR '',''" "CHR '','' \<notin> set entry" "trim entry \<noteq> []"
  with forwarded_last find_rev_last [of "forwarded_entries to_str headers" "\<lambda>e. e \<noteq> []"]
  show "client_ip to_str peer headers proxy = parse_ip (trim entry)"
    by (simp add: client_ip_def peer_trust_def forwarded_client_def)
qed (simp_all add: client_ip_def peer_trust_def forwarded_client_def arrived_via_https_proxy_def)

lemma sample_trim: "trim '' 10.0.0.7'' = ''10.0.0.7''"
  by (simp add: trim_def trim_start.simps trim_end.simps ws_prefix_def ws_suffix_def byte_def)

lemma sample_parse: "parse_ip ''10.0.0.7'' = Some (V4 [10, 0, 0, 7])"
  by (simp add: parse_ip_def read_ipv4_addr_def read_number_def read_separator_def read_given_char_def to_digit_def
      byte_def numeral_eq_Suc)

theorem client_address_not_spoofable_witness:
  "client_ip Some (Some (Unix (Some 33)))
     [(''x-forwarded-for'', ''6.6.6.6''), (''x-forwarded-for'', ''7.7.7.7, 10.0.0.7'')] (Some 33) = Some (V4 [10, 0, 0, 7])"
proof -
  let ?h = "[(''x-forwarded-for'', ''6.6.6.6''), (''x-forwarded-for'', ''7.7.7.7, 10.0.0.7'')]"
  have "is_trusted_proxy (Some (Unix (Some 33))) (Some 33)" by (simp add: is_trusted_proxy_def)
  moreover have "get_all ?h ''x-forwarded-for'' = [''6.6.6.6''] @ [''7.7.7.7, 10.0.0.7'']" by (simp add: get_all_def)
  moreover have "trim '' 10.0.0.7'' \<noteq> []" by (simp add: sample_trim)
  moreover have "Some ''7.7.7.7, 10.0.0.7'' = Some (''7.7.7.7,'' @ '' 10.0.0.7'')"
    "last ''7.7.7.7,'' = CHR '',''" "CHR '','' \<notin> set '' 10.0.0.7''" by simp_all
  ultimately have "client_ip Some (Some (Unix (Some 33))) ?h (Some 33) = parse_ip (trim '' 10.0.0.7'')"
    using client_address_not_spoofable by blast
  then show ?thesis by (simp add: sample_trim sample_parse)
qed

end
