(* ===== verification/Mint.thy ===== *)
theory Mint
  imports Token_Filter "HOL-Library.Word"
begin

text \<open>
  \<^verbatim>\<open>src/crates/market-data/src/token2022.rs\<close>: parsing an SPL Token or Token-2022 mint from the raw
  bytes of its account. A byte is an \<open>8 word\<close>; a slice expression that is out of range is
  \<open>Panic\<close>, and \<open>.get(..)\<close> is an option. The extension loop is a function with the length of the
  rest as its measure. The reference is \<open>mint_layout\<close>, the account layout written as a
  relation: the parser accepts exactly the accounts it describes and never panics.
\<close>

type_synonym byte = "8 word"

section \<open>Slices and little-endian numbers\<close>

definition slice :: "byte list \<Rightarrow> nat \<Rightarrow> nat \<Rightarrow> byte list option" where
  "slice xs from till =
     (if from \<le> till \<and> till \<le> length xs then Some (List.take (till - from) (drop from xs)) else None)"

definition byte_at :: "byte list \<Rightarrow> nat \<Rightarrow> byte option" where
  "byte_at xs i = (if i < length xs then Some (xs ! i) else None)"

fun from_le_bytes :: "byte list \<Rightarrow> nat" where
  "from_le_bytes [] = 0"
| "from_le_bytes (b # bs) = unat b + 256 * from_le_bytes bs"

section \<open>Types\<close>

definition SPL_TOKEN_PROGRAM :: string where
  "SPL_TOKEN_PROGRAM = ''TokenkegQfeZyiNwAJbNbGKPFXCWuBvf9Ss623VQ5DA''"

definition TOKEN_2022_PROGRAM :: string where
  "TOKEN_2022_PROGRAM = ''TokenzQdBNbLqP5VEhdkAjS5EQ8i3MBVZ1zRSThdFEsd''"

definition MINT_LEN :: nat where "MINT_LEN = 82"
definition ACCOUNT_TYPE_OFFSET :: nat where "ACCOUNT_TYPE_OFFSET = 165"
definition MULTISIG_LEN :: nat where "MULTISIG_LEN = 355"
definition ACCOUNT_TYPE_MINT :: byte where "ACCOUNT_TYPE_MINT = 1"

datatype mint_parse_error = MintParseError string

datatype token_program = Spl | Token2022

definition from_owner :: "string \<Rightarrow> token_program option" where
  "from_owner owner =
     (if owner = SPL_TOKEN_PROGRAM then Some Spl
      else if owner = TOKEN_2022_PROGRAM then Some Token2022
      else None)"

record mint_account =
  ma_program :: token_program
  ma_supply :: nat
  decimals :: byte
  mint_authority :: "byte list option"
  freeze_authority :: "byte list option"
  ma_extensions :: "extension list"

section \<open>The parser\<close>

definition take_array :: "nat \<Rightarrow> byte list \<Rightarrow> (mint_parse_error, byte list) res" where
  "take_array n bytes =
     (if length bytes = n then Ok bytes else Err (MintParseError ''truncated field''))"

definition coption_pubkey :: "byte list \<Rightarrow> (mint_parse_error, byte list option) res" where
  "coption_pubkey bytes =
     bind_res (or_panic (slice bytes 0 4)) (\<lambda>t.
     bind_res (take_array 4 t) (\<lambda>tag.
       if from_le_bytes tag = 0 then Ok None
       else if from_le_bytes tag = 1 then
         bind_res (or_panic (slice bytes 4 36)) (\<lambda>k.
         bind_res (take_array 32 k) (\<lambda>key. Ok (Some key)))
       else Err (MintParseError ''invalid option tag'')))"

definition optional_pubkey_is_none :: "byte list \<Rightarrow> nat \<Rightarrow> (mint_parse_error, bool) res" where
  "optional_pubkey_is_none val offset =
     bind_res (ok_or (MintParseError ''truncated extension'') (slice val offset (offset + 32)))
       (\<lambda>key. Ok (\<forall>b \<in> set key. b = 0))"

text \<open>Rust's \<open>a? && b?\<close>: the right operand, and its early return, only when the left is true.\<close>

definition and_then :: "('e, bool) res \<Rightarrow> ('e, bool) res \<Rightarrow> ('e, bool) res" where
  "and_then a b = bind_res a (\<lambda>x. if x then b else Ok False)"

definition bps_zero :: "byte list \<Rightarrow> nat \<Rightarrow> bool" where
  "bps_zero val i \<longleftrightarrow> slice val i (i + 2) = Some [0, 0]"

definition extension_of :: "nat \<Rightarrow> byte list \<Rightarrow> bool \<Rightarrow> (mint_parse_error, extension) res" where
  "extension_of code val freeze_revoked =
     (let none_at = optional_pubkey_is_none val;
          with_kind = (\<lambda>k r. bind_res r (\<lambda>b. Ok \<lparr>kind = k, authority_revoked = b\<rparr>))
      in if code = 1 then
           (let fee_zero = (108 \<le> length val \<and> bps_zero val 88 \<and> bps_zero val 106)
            in with_kind TransferFeeConfig (and_then (none_at 0) (and_then (none_at 32) (Ok fee_zero))))
         else if code = 3 then with_kind MintCloseAuthority (none_at 0)
         else if code = 4 then with_kind ConfidentialTransfer (Ok False)
         else if code = 6 then
           bind_res (ok_or (MintParseError ''truncated extension'') (byte_at val 0))
             (\<lambda>state. with_kind DefaultAccountState (Ok (freeze_revoked \<and> state = 1)))
         else if code = 9 then with_kind NonTransferable (Ok False)
         else if code = 10 then with_kind InterestBearing (none_at 0)
         else if code = 12 then with_kind PermanentDelegate (none_at 0)
         else if code = 14 then with_kind TransferHook (and_then (none_at 0) (none_at 32))
         else if code = 18 then with_kind MetadataPointer (none_at 0)
         else if code = 19 then with_kind TokenMetadata (none_at 0)
         else if code = 26 then
           with_kind Pausable (and_then (none_at 0) (Ok (byte_at val 32 = Some 0)))
         else with_kind (Unknown code) (Ok False))"

text \<open>The loop of \<open>parse_extensions\<close>, with its variables \<open>tlv\<close>, \<open>seen\<close> and \<open>out\<close>.\<close>

function (sequential) parse_extensions_loop ::
  "bool \<Rightarrow> byte list \<Rightarrow> nat list \<Rightarrow> extension list \<Rightarrow> (mint_parse_error, extension list) res" where
  "parse_extensions_loop fr [] seen out = Ok out"
| "parse_extensions_loop fr tlv seen out =
     (case slice tlv 0 4 of
        None \<Rightarrow> if \<forall>b \<in> set tlv. b = 0 then Ok out
                else Err (MintParseError ''truncated extension header'')
      | Some header \<Rightarrow>
          let code = from_le_bytes (List.take 2 header);
              len = from_le_bytes (drop 2 header)
          in if code = 0 then Ok out
             else case slice tlv 4 (4 + len) of
               None \<Rightarrow> Err (MintParseError ''extension value runs past the account'')
             | Some val \<Rightarrow>
                 if code \<in> set seen then Err (MintParseError ''duplicate extension'')
                 else (case extension_of code val fr of
                     Err e \<Rightarrow> Err e
                   | Panic \<Rightarrow> Panic
                   | Ok x \<Rightarrow>
                       parse_extensions_loop fr (drop (4 + len) tlv) (seen @ [code]) (out @ [x])))"
  by pat_completeness auto
termination
  by (relation "measure (\<lambda>(_, tlv, _, _). length tlv)") auto

definition parse_extensions :: "byte list \<Rightarrow> bool \<Rightarrow> (mint_parse_error, extension list) res" where
  "parse_extensions tlv freeze_revoked = parse_extensions_loop freeze_revoked tlv [] []"

text \<open>The \<open>match\<close> on program and length inside \<open>parse_mint\<close>.\<close>

definition mint_extensions ::
  "token_program \<Rightarrow> byte list \<Rightarrow> byte list option \<Rightarrow> (mint_parse_error, extension list) res" where
  "mint_extensions program data freeze_auth =
     (if length data = MINT_LEN then Ok []
      else case program of
        Spl \<Rightarrow> Err (MintParseError ''SPL mint has a wrong length'')
      | Token2022 \<Rightarrow>
          if length data \<le> ACCOUNT_TYPE_OFFSET \<or> length data = MULTISIG_LEN
          then Err (MintParseError ''Token-2022 mint has a wrong length'')
          else
            bind_res (or_panic (slice data MINT_LEN ACCOUNT_TYPE_OFFSET)) (\<lambda>padding.
            if \<exists>b \<in> set padding. b \<noteq> 0 then Err (MintParseError ''padding is not zero'')
            else
              bind_res (or_panic (byte_at data ACCOUNT_TYPE_OFFSET)) (\<lambda>t.
              if t \<noteq> ACCOUNT_TYPE_MINT then Err (MintParseError ''account type is not a mint'')
              else
                bind_res (or_panic (slice data (ACCOUNT_TYPE_OFFSET + 1) (length data)))
                  (\<lambda>tlv. parse_extensions tlv (freeze_auth = None)))))"

definition parse_mint :: "token_program \<Rightarrow> byte list \<Rightarrow> (mint_parse_error, mint_account) res" where
  "parse_mint program data =
     bind_res (ok_or (MintParseError ''shorter than a mint'') (slice data 0 MINT_LEN)) (\<lambda>base.
     bind_res (or_panic (slice base 0 36)) (\<lambda>m.
     bind_res (coption_pubkey m) (\<lambda>mint_auth.
     bind_res (or_panic (slice base 36 44)) (\<lambda>s.
     bind_res (take_array 8 s) (\<lambda>sup.
     bind_res (or_panic (byte_at base 44)) (\<lambda>dec.
     bind_res (or_panic (byte_at base 45)) (\<lambda>initialized.
     if initialized \<noteq> 1 then Err (MintParseError ''mint is not initialized'') else
     bind_res (or_panic (slice base 46 82)) (\<lambda>f.
     bind_res (coption_pubkey f) (\<lambda>freeze_auth.
     bind_res (mint_extensions program data freeze_auth)
       (\<lambda>exts. Ok \<lparr>ma_program = program, ma_supply = from_le_bytes sup, decimals = dec,
                    mint_authority = mint_auth, freeze_authority = freeze_auth,
                    ma_extensions = exts\<rparr>))))))))))"

section \<open>The account layout\<close>

text \<open>
  The reference. \<open>to_le_bytes\<close> encodes a number; \<open>tlv_entry\<close> is one extension on the wire, and a
  list of entries ends at the end of the account, at fewer than four zero bytes, or at a header
  of type 0 that anything may follow.
\<close>

fun to_le_bytes :: "nat \<Rightarrow> nat \<Rightarrow> byte list" where
  "to_le_bytes 0 n = []"
| "to_le_bytes (Suc k) n = word_of_nat (n mod 256) # to_le_bytes k (n div 256)"

definition tlv_entry :: "nat \<times> byte list \<Rightarrow> byte list" where
  "tlv_entry e = to_le_bytes 2 (fst e) @ to_le_bytes 2 (length (snd e)) @ snd e"

definition tlv_end :: "byte list \<Rightarrow> bool" where
  "tlv_end rest \<longleftrightarrow> (if length rest < 4 then \<forall>b \<in> set rest. b = 0 else List.take 2 rest = [0, 0])"

definition tlv_entries_wf :: "(nat \<times> byte list) list \<Rightarrow> bool" where
  "tlv_entries_wf es \<longleftrightarrow> distinct (map fst es)
     \<and> (\<forall>(c, v) \<in> set es. 0 < c \<and> c < 65536 \<and> length v < 65536)"

definition coption_bytes :: "byte list option \<Rightarrow> byte list \<Rightarrow> bool" where
  "coption_bytes key bytes \<longleftrightarrow> length bytes = 36 \<and>
     (case key of None \<Rightarrow> List.take 4 bytes = to_le_bytes 4 0
                | Some k \<Rightarrow> bytes = to_le_bytes 4 1 @ k)"

definition base_layout :: "mint_account \<Rightarrow> byte list \<Rightarrow> bool" where
  "base_layout m base \<longleftrightarrow> (\<exists>ma fa. coption_bytes (mint_authority m) ma
     \<and> coption_bytes (freeze_authority m) fa \<and> ma_supply m < 2 ^ 64
     \<and> base = ma @ to_le_bytes 8 (ma_supply m) @ [decimals m, 1] @ fa)"

definition extensions_layout :: "bool \<Rightarrow> extension list \<Rightarrow> byte list \<Rightarrow> bool" where
  "extensions_layout fr exts tlv \<longleftrightarrow> (\<exists>es rest. tlv = concat (map tlv_entry es) @ rest
     \<and> tlv_end rest \<and> tlv_entries_wf es
     \<and> list_all2 (\<lambda>(c, v) x. extension_of c v fr = Ok x) es exts)"

definition mint_layout :: "token_program \<Rightarrow> byte list \<Rightarrow> mint_account \<Rightarrow> bool" where
  "mint_layout program data m \<longleftrightarrow> ma_program m = program \<and>
     (\<exists>base. base_layout m base \<and>
       (data = base \<and> ma_extensions m = []
        \<or> program = Token2022 \<and> length data \<noteq> 355
          \<and> (\<exists>tlv. data = base @ replicate 83 0 @ [1] @ tlv
               \<and> extensions_layout (freeze_authority m = None) (ma_extensions m) tlv)))"

text \<open>The same with the types the loop has already seen.\<close>

definition loop_result ::
  "bool \<Rightarrow> byte list \<Rightarrow> nat list \<Rightarrow> extension list \<Rightarrow> bool" where
  "loop_result fr tlv seen exts \<longleftrightarrow> (\<exists>es rest. tlv = concat (map tlv_entry es) @ rest
     \<and> tlv_end rest \<and> tlv_entries_wf es \<and> fst ` set es \<inter> set seen = {}
     \<and> list_all2 (\<lambda>(c, v) x. extension_of c v fr = Ok x) es exts)"

section \<open>Bytes and slices\<close>

lemma length_to_le_bytes [simp]: "length (to_le_bytes k n) = k"
  by (induction k arbitrary: n) auto

lemma from_le_bytes_bound: "from_le_bytes bs < 256 ^ length bs"
proof (induction bs)
  case (Cons b bs)
  have "unat b < 256" using unsigned_less [where 'a = nat and w = b] by simp
  with Cons show ?case by simp
qed simp

lemma from_to_le_bytes: "from_le_bytes (to_le_bytes k n) = n mod 256 ^ k"
proof (induction k arbitrary: n)
  case (Suc k)
  have "n mod 256 + 256 * ((n div 256) mod 256 ^ k) = n mod (256 * 256 ^ k)"
    by (simp add: mod_mult2_eq)
  with Suc show ?case by (simp add: unat_of_nat take_bit_eq_mod)
qed simp

lemma to_from_le_bytes: "to_le_bytes (length bs) (from_le_bytes bs) = bs"
proof (induction bs)
  case (Cons b bs)
  have "unat b < 256" using unsigned_less [where 'a = nat and w = b] by simp
  with Cons show ?case by simp
qed simp

lemma to_from_le_bytes_eq: "length bs = k \<Longrightarrow> to_le_bytes k (from_le_bytes bs) = bs"
  using to_from_le_bytes by blast

lemma slice_Some_iff: "slice xs i j = Some ys \<longleftrightarrow>
    i \<le> j \<and> j \<le> length xs \<and> ys = List.take (j - i) (drop i xs)"
  by (auto simp: slice_def)

lemma slice_None_iff: "slice xs i j = None \<longleftrightarrow> \<not> (i \<le> j \<and> j \<le> length xs)"
  by (simp add: slice_def)

lemma slice_part: "length a = i \<Longrightarrow> length b = j - i \<Longrightarrow> i \<le> j \<Longrightarrow> slice (a @ b @ c) i j = Some b"
  by (simp add: slice_def)

section \<open>One extension on the wire\<close>

lemma tlv_entry_length: "length (tlv_entry e) = 4 + length (snd e)"
  by (simp add: tlv_entry_def)

lemma tlv_entry_header:
  assumes "c < 65536" and "length v < 65536"
  shows "slice (tlv_entry (c, v) @ rest) 0 4 = Some (to_le_bytes 2 c @ to_le_bytes 2 (length v))"
    and "from_le_bytes (to_le_bytes 2 c) = c"
    and "from_le_bytes (to_le_bytes 2 (length v)) = length v"
    and "slice (tlv_entry (c, v) @ rest) 4 (4 + length v) = Some v"
    and "drop (4 + length v) (tlv_entry (c, v) @ rest) = rest"
  using assms by (simp_all add: slice_def tlv_entry_def from_to_le_bytes)

lemma tlv_entry_read:
  assumes h: "slice tlv 0 4 = Some h" and v: "slice tlv 4 (4 + from_le_bytes (drop 2 h)) = Some v"
  shows "tlv = tlv_entry (from_le_bytes (List.take 2 h), v) @ drop (4 + from_le_bytes (drop 2 h)) tlv"
    and "from_le_bytes (List.take 2 h) < 65536" and "length v < 65536"
proof -
  let ?n = "from_le_bytes (drop 2 h)"
  from h have h': "h = List.take 4 tlv" "4 \<le> length tlv" by (simp_all add: slice_Some_iff)
  then have len: "length h = 4" by simp
  from v have v': "v = List.take ?n (drop 4 tlv)" "4 + ?n \<le> length tlv"
    by (simp_all add: slice_Some_iff)
  then have n: "length v = ?n" by simp
  have "?n < 256 ^ length (drop 2 h)" by (rule from_le_bytes_bound)
  with len n show "length v < 65536" by simp
  have "from_le_bytes (List.take 2 h) < 256 ^ length (List.take 2 h)" by (rule from_le_bytes_bound)
  with len show "from_le_bytes (List.take 2 h) < 65536" by simp
  have "tlv_entry (from_le_bytes (List.take 2 h), v) = List.take 2 h @ drop 2 h @ v"
    using len n by (simp add: tlv_entry_def to_from_le_bytes_eq)
  also have "\<dots> = h @ v" by simp
  also have "\<dots> = List.take (4 + ?n) tlv" using h'(1) v'(1) take_add by metis
  finally show "tlv = tlv_entry (from_le_bytes (List.take 2 h), v) @ drop (4 + ?n) tlv" by simp
qed

lemma tlv_end_header: "slice tlv 0 4 = Some h \<Longrightarrow>
    tlv_end tlv \<longleftrightarrow> from_le_bytes (List.take 2 h) = 0"
proof -
  assume "slice tlv 0 4 = Some h"
  then have h: "h = List.take 4 tlv" "4 \<le> length tlv" by (simp_all add: slice_Some_iff)
  then have t: "List.take 2 h = List.take 2 tlv" by simp
  obtain a b where "List.take 2 tlv = [a, b]"
    using h(2) by (metis (no_types, lifting) add_2_eq_Suc' length_0_conv length_Suc_conv length_take
        min.absorb2 numeral_2_eq_2 numeral_Bit0 numeral_le_one_iff add_leD1)
  with t h(2) show ?thesis by (simp add: tlv_end_def unat_eq_0)
qed


section \<open>The extension loop\<close>

lemma tlv_entries_wf_Cons: "tlv_entries_wf ((c, v) # es) \<longleftrightarrow>
    0 < c \<and> c < 65536 \<and> length v < 65536 \<and> c \<notin> fst ` set es \<and> tlv_entries_wf es"
  by (auto simp: tlv_entries_wf_def)

lemma loop_result_end: "tlv_end tlv \<Longrightarrow> loop_result fr tlv seen exts \<longleftrightarrow> exts = []"
proof
  assume e: "tlv_end tlv"
  show "loop_result fr tlv seen exts" if "exts = []"
    unfolding loop_result_def
    by (rule exI [of _ "[]"], rule exI [of _ tlv]) (simp add: e that tlv_entries_wf_def)
  assume "loop_result fr tlv seen exts"
  then obtain es rest where t: "tlv = concat (map tlv_entry es) @ rest" and wf: "tlv_entries_wf es"
    and x: "list_all2 (\<lambda>(c, v) x. extension_of c v fr = Ok x) es exts"
    unfolding loop_result_def by blast
  show "exts = []"
  proof (cases es)
    case (Cons p es')
    obtain c v where p: "p = (c, v)" by (cases p)
    from wf Cons p have w: "0 < c" "c < 65536" "length v < 65536" by (simp_all add: tlv_entries_wf_Cons)
    have tl: "tlv = tlv_entry (c, v) @ (concat (map tlv_entry es') @ rest)" using t Cons p by simp
    have "from_le_bytes (List.take 2 (to_le_bytes 2 c @ to_le_bytes 2 (length v))) = 0"
      using e tlv_end_header [OF tlv_entry_header(1) [OF w(2,3)]] unfolding tl by blast
    with w tlv_entry_header(2) [OF w(2,3)] show ?thesis by simp
  qed (use x in simp)
qed

lemma loop_result_Cons:
  assumes h: "slice tlv 0 4 = Some h" and v: "slice tlv 4 (4 + from_le_bytes (drop 2 h)) = Some v"
    and c: "c = from_le_bytes (List.take 2 h)" "c \<noteq> 0"
  shows "loop_result fr tlv seen exts \<longleftrightarrow> c \<notin> set seen \<and> (\<exists>x exts'. exts = x # exts'
     \<and> extension_of c v fr = Ok x
     \<and> loop_result fr (drop (4 + from_le_bytes (drop 2 h)) tlv) (seen @ [c]) exts')"
    (is "?L \<longleftrightarrow> ?R")
proof
  let ?t = "drop (4 + from_le_bytes (drop 2 h)) tlv"
  note read = tlv_entry_read [OF h v, folded c(1)]
  show ?L if r: ?R
  proof -
    from r obtain x exts' where r': "c \<notin> set seen" "exts = x # exts'" "extension_of c v fr = Ok x"
      "loop_result fr ?t (seen @ [c]) exts'" by blast
    then obtain es rest where es: "?t = concat (map tlv_entry es) @ rest" "tlv_end rest"
      "tlv_entries_wf es" "fst ` set es \<inter> set (seen @ [c]) = {}"
      "list_all2 (\<lambda>(c, v) x. extension_of c v fr = Ok x) es exts'"
      unfolding loop_result_def by blast
    have "tlv = concat (map tlv_entry ((c, v) # es)) @ rest" using read(1) es(1) by simp
    moreover have "tlv_entries_wf ((c, v) # es)" using read(2,3) c(2) es(3,4)
      by (auto simp: tlv_entries_wf_Cons)
    moreover have "fst ` set ((c, v) # es) \<inter> set seen = {}" using r'(1) es(4) by auto
    moreover have "list_all2 (\<lambda>(c, v) x. extension_of c v fr = Ok x) ((c, v) # es) exts"
      using r' es(5) by simp
    ultimately show ?L using es(2) unfolding loop_result_def by blast
  qed
  assume ?L
  then obtain es rest where es: "tlv = concat (map tlv_entry es) @ rest" "tlv_end rest"
    "tlv_entries_wf es" "fst ` set es \<inter> set seen = {}"
    "list_all2 (\<lambda>(c, v) x. extension_of c v fr = Ok x) es exts"
    unfolding loop_result_def by blast
  have "es \<noteq> []" using es(1,2) tlv_end_header [OF h] c by auto
  then obtain c' v' es' where e: "es = (c', v') # es'" by (metis neq_Nil_conv surj_pair)
  from es(3) e have w: "c' < 65536" "length v' < 65536" by (simp_all add: tlv_entries_wf_Cons)
  let ?rest = "concat (map tlv_entry es') @ rest"
  have tl: "tlv = tlv_entry (c', v') @ ?rest" using es(1) e by simp
  note head = tlv_entry_header(1,4,5) [OF w, where rest = ?rest, folded tl] tlv_entry_header(2,3) [OF w]
  have hh: "h = to_le_bytes 2 c' @ to_le_bytes 2 (length v')" using head(1) h by simp
  have n: "from_le_bytes (drop 2 h) = length v'" "c' = c" using hh head(4,5) c(1) by simp_all
  have "v' = v" "?t = ?rest" using head(2,3) v n(1) by (simp_all add: tl [symmetric])
  with es e n show ?R unfolding loop_result_def by (auto simp: list_all2_Cons1 tlv_entries_wf_Cons)
qed

lemma loop_result_nonempty:
  assumes "loop_result fr tlv seen exts" and "\<not> tlv_end tlv"
  obtains c v rest where "tlv = tlv_entry (c, v) @ rest" and "c < 65536" and "length v < 65536"
proof -
  from assms(1) obtain es rest where es: "tlv = concat (map tlv_entry es) @ rest" "tlv_end rest"
    "tlv_entries_wf es" unfolding loop_result_def by blast
  with assms(2) have "es \<noteq> []" by auto
  then obtain c v es' where e: "es = (c, v) # es'" by (metis neq_Nil_conv surj_pair)
  with es(1,3) that [of c v "concat (map tlv_entry es') @ rest"] show thesis
    by (simp add: tlv_entries_wf_Cons)
qed

lemma loop_result_short:
  assumes "\<not> (\<forall>b \<in> set tlv. b = 0)" and "length tlv < 4"
  shows "\<not> loop_result fr tlv seen exts"
proof
  assume r: "loop_result fr tlv seen exts"
  have "\<not> tlv_end tlv" using assms by (simp add: tlv_end_def)
  with r obtain c v rest where "tlv = tlv_entry (c, v) @ rest" by (rule loop_result_nonempty)
  then have "4 \<le> length tlv" by (simp add: tlv_entry_length)
  with assms(2) show False by simp
qed

lemma loop_result_overrun:
  assumes h: "slice tlv 0 4 = Some h" and v: "slice tlv 4 (4 + from_le_bytes (drop 2 h)) = None"
    and c: "from_le_bytes (List.take 2 h) \<noteq> 0"
  shows "\<not> loop_result fr tlv seen exts"
proof
  assume r: "loop_result fr tlv seen exts"
  have "\<not> tlv_end tlv" using tlv_end_header [OF h] c by simp
  with r obtain c' v' rest where t: "tlv = tlv_entry (c', v') @ rest"
    and w: "c' < 65536" "length v' < 65536" by (rule loop_result_nonempty)
  note head = tlv_entry_header(1,4) [OF w, where rest = rest, folded t]
  from head(1) h have "from_le_bytes (drop 2 h) = length v'"
    using tlv_entry_header(3) [OF w] by simp
  with head(2) v show False by simp
qed

lemma parse_loop_iff:
  "parse_extensions_loop fr tlv seen out = Ok xs \<longleftrightarrow>
     (\<exists>exts. xs = out @ exts \<and> loop_result fr tlv seen exts)"
proof (induction fr tlv seen out rule: parse_extensions_loop.induct)
  case (1 fr seen out)
  have "tlv_end []" by (simp add: tlv_end_def)
  then show ?case by (auto simp: loop_result_end)
next
  case (2 fr b bs seen out)
  let ?tlv = "b # bs"
  show ?case
  proof (cases "slice ?tlv 0 4")
    case None
    then have short: "length ?tlv < 4" by (simp add: slice_None_iff)
    show ?thesis
    proof (cases "\<forall>b \<in> set ?tlv. b = 0")
      case True
      then have "tlv_end ?tlv" using short by (simp add: tlv_end_def)
      then have "loop_result fr ?tlv seen exts \<longleftrightarrow> exts = []" for exts by (rule loop_result_end)
      with None True show ?thesis by auto
    next
      case False
      have "\<not> loop_result fr ?tlv seen exts" for exts
        using False short by (rule loop_result_short)
      with None False show ?thesis by auto
    qed
  next
    case (Some h)
    let ?c = "from_le_bytes (List.take 2 h)" and ?n = "from_le_bytes (drop 2 h)"
    show ?thesis
    proof (cases "?c = 0")
      case True
      then have "loop_result fr ?tlv seen exts \<longleftrightarrow> exts = []" for exts
        using tlv_end_header [OF Some] loop_result_end by blast
      with Some True show ?thesis by auto
    next
      case c: False
      show ?thesis
      proof (cases "slice ?tlv 4 (4 + ?n)")
        case None
        with Some c loop_result_overrun [OF Some None c] show ?thesis by simp
      next
        case v: (Some v)
        note cons = loop_result_Cons [OF Some v refl c]
        show ?thesis
        proof (cases "?c \<in> set seen \<or> (\<forall>x. extension_of ?c v fr \<noteq> Ok x)")
          case True
          then show ?thesis using Some c v cons by (auto simp: Let_def split: res.splits)
        next
          case False
          then obtain x where x: "?c \<notin> set seen" "extension_of ?c v fr = Ok x" by blast
          note ih = "2.IH" [OF Some refl refl c v x]
          have "parse_extensions_loop fr ?tlv seen out
              = parse_extensions_loop fr (drop (4 + ?n) ?tlv) (seen @ [?c]) (out @ [x])"
            using Some c v x by (simp add: Let_def)
          with ih cons x show ?thesis by (auto simp: Let_def)
        qed
      qed
    qed
  qed
qed


section \<open>No panic\<close>

lemma optional_pubkey_no_panic [simp]: "optional_pubkey_is_none v i \<noteq> Panic"
  by (simp add: optional_pubkey_is_none_def res_simps)

lemma and_then_no_panic: "a \<noteq> Panic \<Longrightarrow> b \<noteq> Panic \<Longrightarrow> and_then a b \<noteq> Panic"
  by (simp add: and_then_def res_simps)

lemma extension_of_no_panic [simp]: "extension_of c v fr \<noteq> Panic"
  by (simp add: extension_of_def Let_def res_simps and_then_no_panic)

lemma parse_loop_no_panic [simp]: "parse_extensions_loop fr tlv seen out \<noteq> Panic"
proof (induction fr tlv seen out rule: parse_extensions_loop.induct)
  case (2 fr b bs seen out)
  then show ?case
    by (subst parse_extensions_loop.simps)
      (auto simp: Let_def simp del: parse_extensions_loop.simps split: option.split res.split)
qed simp

lemma parse_extensions_iff: "parse_extensions tlv fr = Ok exts \<longleftrightarrow> extensions_layout fr exts tlv"
  by (simp add: parse_extensions_def parse_loop_iff loop_result_def extensions_layout_def)

section \<open>The base mint\<close>

lemma coption_pubkey_36:
  assumes "length bytes = 36"
  shows "coption_pubkey bytes =
    (if from_le_bytes (List.take 4 bytes) = 0 then Ok None
     else if from_le_bytes (List.take 4 bytes) = 1 then Ok (Some (drop 4 bytes))
     else Err (MintParseError ''invalid option tag''))"
  using assms by (simp add: coption_pubkey_def slice_def take_array_def)

lemma le_bytes_eq: "length bs = k \<Longrightarrow> n < 256 ^ k \<Longrightarrow> from_le_bytes bs = n \<longleftrightarrow> bs = to_le_bytes k n"
  by (metis from_to_le_bytes to_from_le_bytes mod_less)

lemma take_drop_append_iff: "length a = n \<Longrightarrow> List.take n b = a \<and> k = drop n b \<longleftrightarrow> b = a @ k"
  by (metis append_take_drop_id append_eq_conv_conj)

lemma coption_pubkey_iff:
  assumes "length bytes = 36"
  shows "coption_pubkey bytes = Ok k \<longleftrightarrow> coption_bytes k bytes" and "coption_pubkey bytes \<noteq> Panic"
proof -
  have tag: "from_le_bytes (List.take 4 bytes) = n \<longleftrightarrow> List.take 4 bytes = to_le_bytes 4 n"
    if "n < 2" for n using that assms by (intro le_bytes_eq) auto
  have some: "List.take 4 bytes = to_le_bytes 4 1 \<and> key = drop 4 bytes \<longleftrightarrow> bytes = to_le_bytes 4 1 @ key"
    for key by (intro take_drop_append_iff length_to_le_bytes)
  show "coption_pubkey bytes = Ok k \<longleftrightarrow> coption_bytes k bytes"
  proof (cases k)
    case None
    have "coption_pubkey bytes = Ok None \<longleftrightarrow> from_le_bytes (List.take 4 bytes) = 0"
      using assms by (simp add: coption_pubkey_36)
    with None assms tag [of 0] show ?thesis by (simp add: coption_bytes_def)
  next
    case (Some key)
    have "coption_pubkey bytes = Ok (Some key) \<longleftrightarrow> from_le_bytes (List.take 4 bytes) = 1 \<and> key = drop 4 bytes"
      using assms by (auto simp: coption_pubkey_36)
    also have "\<dots> \<longleftrightarrow> bytes = to_le_bytes 4 1 @ key" using tag [of 1] some [of key] by simp
    finally show ?thesis using Some assms by (simp add: coption_bytes_def)
  qed
  show "coption_pubkey bytes \<noteq> Panic" using assms by (simp add: coption_pubkey_36)
qed

lemma mint_extensions_iff:
  assumes b: "length base = 82"
  shows "mint_extensions p (base @ rest) f = Ok exts \<longleftrightarrow>
     rest = [] \<and> exts = [] \<or> p = Token2022 \<and> length (base @ rest) \<noteq> 355 \<and>
       (\<exists>tlv. rest = replicate 83 0 @ [1] @ tlv \<and> extensions_layout (f = None) exts tlv)"
    (is "?L \<longleftrightarrow> ?R")
proof (cases "rest = [] \<or> length (base @ rest) \<le> 165 \<or> length (base @ rest) = 355 \<or> p = Spl")
  case True
  then show ?thesis using b
    by (auto simp: mint_extensions_def MINT_LEN_def ACCOUNT_TYPE_OFFSET_def MULTISIG_LEN_def
        split: token_program.split)
next
  case False
  then have r: "83 < length rest" "82 + length rest \<noteq> 355" "p = Token2022" "rest \<noteq> []"
    using b by (cases p; simp)+
  obtain pad t tlv where s: "rest = pad @ [t] @ tlv" and pl: "length pad = 83"
    using r(1) by (metis append_take_drop_id id_take_nth_drop length_take min.absorb4 append_Cons append_Nil)
  have zero: "pad = replicate 83 0 \<longleftrightarrow> (\<forall>b \<in> set pad. b = 0)"
    using pl by (metis in_set_replicate replicate_eqI)
  have "mint_extensions p (base @ rest) f =
     (if \<exists>b \<in> set pad. b \<noteq> 0 then Err (MintParseError ''padding is not zero'')
      else if t \<noteq> 1 then Err (MintParseError ''account type is not a mint'')
      else parse_extensions tlv (f = None))"
    using b pl r(2,3,4) s
    by (simp add: mint_extensions_def MINT_LEN_def ACCOUNT_TYPE_OFFSET_def MULTISIG_LEN_def
        ACCOUNT_TYPE_MINT_def slice_def byte_at_def nth_append)
  moreover have "(\<exists>tlv'. rest = replicate 83 0 @ [1] @ tlv' \<and> X tlv') \<longleftrightarrow>
      pad = replicate 83 0 \<and> t = 1 \<and> X tlv" for X
    using s pl by auto
  ultimately show ?thesis using r b zero by (simp add: parse_extensions_iff)
qed

lemma mint_extensions_no_panic:
  assumes "82 \<le> length data" shows "mint_extensions p data f \<noteq> Panic"
  using assms
  by (auto simp: mint_extensions_def MINT_LEN_def ACCOUNT_TYPE_OFFSET_def res_simps slice_None_iff
      byte_at_def parse_extensions_def split: token_program.split)

lemma parse_mint_split:
  assumes "length ma = 36" and "length s = 8" and "length fa = 36"
  shows "parse_mint p (ma @ s @ [d, i] @ fa @ rest) =
    bind_res (coption_pubkey ma) (\<lambda>a.
      if i \<noteq> 1 then Err (MintParseError ''mint is not initialized'')
      else bind_res (coption_pubkey fa) (\<lambda>f.
        bind_res (mint_extensions p (ma @ s @ [d, i] @ fa @ rest) f) (\<lambda>exts.
          Ok \<lparr>ma_program = p, ma_supply = from_le_bytes s, decimals = d, mint_authority = a,
              freeze_authority = f, ma_extensions = exts\<rparr>)))"
  using assms
  by (simp add: parse_mint_def MINT_LEN_def slice_def byte_at_def take_array_def nth_append cong: if_cong)

lemma mint_split:
  assumes "82 \<le> length data"
  obtains ma s d i fa rest where "data = ma @ s @ [d, i] @ fa @ rest" and "length ma = 36"
    and "length s = 8" and "length fa = 36"
proof
  show "data = List.take 36 data @ List.take 8 (drop 36 data) @ [data ! 44, data ! 45]
      @ List.take 36 (drop 46 data) @ drop 82 data"
    using assms
    by (intro nth_equalityI) (auto simp: nth_append nth_Cons' min_def, (rule arg_cong [where f = "(!) data"], linarith)+)
qed (use assms in simp_all)


lemma base_layout_split: "base_layout m base \<longleftrightarrow> (\<exists>ma s fa. base = ma @ s @ [decimals m, 1] @ fa
    \<and> length ma = 36 \<and> length s = 8 \<and> length fa = 36 \<and> from_le_bytes s = ma_supply m
    \<and> coption_bytes (mint_authority m) ma \<and> coption_bytes (freeze_authority m) fa)"
    (is "?L \<longleftrightarrow> ?R")
proof
  assume ?L
  then obtain ma fa where b: "coption_bytes (mint_authority m) ma" "coption_bytes (freeze_authority m) fa"
    "ma_supply m < 2 ^ 64" "base = ma @ to_le_bytes 8 (ma_supply m) @ [decimals m, 1] @ fa"
    unfolding base_layout_def by blast
  then have "length ma = 36" "length fa = 36" "from_le_bytes (to_le_bytes 8 (ma_supply m)) = ma_supply m"
    by (simp_all add: coption_bytes_def from_to_le_bytes)
  with b show ?R by (metis length_to_le_bytes)
next
  assume ?R
  then obtain ma s fa where b: "base = ma @ s @ [decimals m, 1] @ fa" "length s = 8"
    "from_le_bytes s = ma_supply m" "coption_bytes (mint_authority m) ma"
    "coption_bytes (freeze_authority m) fa" by blast
  have "from_le_bytes s < 256 ^ 8" using from_le_bytes_bound [of s] b(2) by simp
  moreover have "s = to_le_bytes 8 (ma_supply m)" using b(2,3) to_from_le_bytes_eq by metis
  ultimately show ?L using b unfolding base_layout_def by auto
qed

lemma parse_mint_short: "length data < 82 \<Longrightarrow>
    parse_mint p data = Err (MintParseError ''shorter than a mint'')"
  by (simp add: parse_mint_def MINT_LEN_def slice_def)

lemma parse_mint_split_iff:
  assumes l: "length ma = 36" "length s = 8" "length fa = 36"
    and data: "data = ma @ s @ [d, i] @ fa @ rest"
  shows "parse_mint p data = Ok m \<longleftrightarrow>
     coption_bytes (mint_authority m) ma \<and> coption_bytes (freeze_authority m) fa
     \<and> from_le_bytes s = ma_supply m \<and> decimals m = d \<and> i = 1 \<and> ma_program m = p
     \<and> mint_extensions p data (freeze_authority m) = Ok (ma_extensions m)"
  unfolding parse_mint_split [OF l, of p d i rest, folded data]
  by (cases m) (auto simp: res_simps coption_pubkey_iff(1) [OF l(1)] coption_pubkey_iff(1) [OF l(3)])


lemma parse_mint_no_panic: "parse_mint p data \<noteq> Panic"
proof (cases "length data < 82")
  case True
  then show ?thesis by (simp add: parse_mint_short)
next
  case False
  then have "82 \<le> length data" by simp
  then obtain ma s d i fa rest where data: "data = ma @ s @ [d, i] @ fa @ rest"
    and l: "length ma = 36" "length s = 8" "length fa = 36" by (rule mint_split)
  have "mint_extensions p data f \<noteq> Panic" for f
    using False by (intro mint_extensions_no_panic) simp
  then show ?thesis unfolding parse_mint_split [OF l, of p d i rest, folded data]
    by (simp add: res_simps coption_pubkey_iff(2) [OF l(1)] coption_pubkey_iff(2) [OF l(3)])
qed

lemma base_layout_length: "base_layout m base \<Longrightarrow> length base = 82"
  by (auto simp: base_layout_split)

lemma mint_layout_split:
  assumes b: "length b = 82" and data: "data = b @ rest"
  shows "mint_layout p data m \<longleftrightarrow> ma_program m = p \<and> base_layout m b \<and>
      (rest = [] \<and> ma_extensions m = [] \<or> p = Token2022 \<and> length (b @ rest) \<noteq> 355 \<and>
       (\<exists>tlv. rest = replicate 83 0 @ [1] @ tlv
          \<and> extensions_layout (freeze_authority m = None) (ma_extensions m) tlv))"
    (is "?L \<longleftrightarrow> ?R")
proof
  assume ?L
  then obtain base where base: "base_layout m base" and p: "ma_program m = p"
    and c: "data = base \<and> ma_extensions m = [] \<or> p = Token2022 \<and> length data \<noteq> 355
      \<and> (\<exists>tlv. data = base @ replicate 83 0 @ [1] @ tlv
           \<and> extensions_layout (freeze_authority m = None) (ma_extensions m) tlv)"
    unfolding mint_layout_def by blast
  have "length base = length b" using base_layout_length [OF base] b by simp
  with base p c data show ?R by (auto simp: append_eq_append_conv)
next
  assume ?R
  with data show ?L unfolding mint_layout_def by auto
qed

lemma parse_mint_iff: "parse_mint p data = Ok m \<longleftrightarrow> mint_layout p data m"
proof (cases "82 \<le> length data")
  case False
  then have "\<not> mint_layout p data m"
    by (auto simp: mint_layout_def base_layout_split)
  with False show ?thesis by (simp add: parse_mint_short)
next
  case True
  then obtain ma s d i fa rest where data: "data = ma @ s @ [d, i] @ fa @ rest"
    and l: "length ma = 36" "length s = 8" "length fa = 36" by (rule mint_split)
  let ?b = "ma @ s @ [d, i] @ fa"
  have b: "length ?b = 82" "data = ?b @ rest" using l data by simp_all
  have base: "base_layout m ?b \<longleftrightarrow> coption_bytes (mint_authority m) ma
     \<and> coption_bytes (freeze_authority m) fa \<and> from_le_bytes s = ma_supply m \<and> decimals m = d \<and> i = 1"
    (is "_ \<longleftrightarrow> ?B") using l by (auto simp: base_layout_split)
  have "mint_layout p data m \<longleftrightarrow> ma_program m = p \<and> base_layout m ?b \<and>
      (rest = [] \<and> ma_extensions m = [] \<or> p = Token2022 \<and> length (?b @ rest) \<noteq> 355 \<and>
       (\<exists>tlv. rest = replicate 83 0 @ [1] @ tlv
          \<and> extensions_layout (freeze_authority m = None) (ma_extensions m) tlv))"
    by (rule mint_layout_split [OF b])
  also have "\<dots> \<longleftrightarrow> ma_program m = p \<and> ?B
      \<and> mint_extensions p data (freeze_authority m) = Ok (ma_extensions m)"
    unfolding base mint_extensions_iff [OF b(1), of p rest, folded b(2)] by (simp only: b(2))
  finally show ?thesis using parse_mint_split_iff [OF l data, of p m] by blast
qed

text \<open>
  C11. The mint parser is equivalent to the account layout: whatever bytes an account holds, it
  never panics, and it returns a mint exactly when the bytes are that mint's layout: the 82-byte
  base with a 0 or 1 option tag before each authority and the initialized flag set, and for
  Token-2022 the zero padding, the account type byte, and extension entries with distinct nonzero
  types that each decode, up to a valid end of the list.\<close>

theorem parse_mint_exact:
  "parse_mint program data \<noteq> Panic \<and> (parse_mint program data = Ok m \<longleftrightarrow> mint_layout program data m)"
  by (simp add: parse_mint_no_panic parse_mint_iff)

end
