(* ===== verification/Market_Http.thy ===== *)
theory Market_Http
  imports Strings
begin

text \<open>
  \<^verbatim>\<open>src/crates/market-data/src/http.rs\<close> and \<^verbatim>\<open>lib.rs\<close>: the HTTP plumbing every market-data
  client shares. A provider's pacer hands out request slots under its lock, so each call on it
  is one step; \<open>Instant\<close> and \<open>Duration\<close> are integers in nanoseconds and the clock is passed
  in. \<open>Url::parse\<close>, the transport and the JSON decoder are outside the repository: a parsed
  URL, a response and a decoder are arguments.
\<close>

section \<open>Providers, errors, input checks\<close>

definition ALLOWED_HOSTS :: "string list" where
  "ALLOWED_HOSTS = [''api.dexscreener.com'', ''api.rugcheck.xyz'', ''api.jup.ag'',
     ''api.mainnet-beta.solana.com'', ''mainnet.helius-rpc.com'', ''solana-mainnet.g.alchemy.com'']"

datatype provider = DexScreener | RugCheck | Jupiter | SolanaRpc nat

definition show_provider :: "provider \<Rightarrow> string" where
  "show_provider p = (case p of
     DexScreener \<Rightarrow> ''DexScreener''
   | RugCheck \<Rightarrow> ''RugCheck''
   | Jupiter \<Rightarrow> ''Jupiter''
   | SolanaRpc index \<Rightarrow> ''Solana RPC #'' @ show_nat index)"

datatype market_data_error =
  InvalidUrl | HostNotAllowed | InvalidInput string | HttpFailed provider
| HttpStatus provider nat | TooLarge provider | Decode provider | RateLimitHit provider nat
| Busy provider | RpcError provider int | InvalidData provider string | NotFound string
| NoRoute | ProviderDisagreement string

type_synonym 'a md = "(market_data_error, 'a) res"

definition is_ascii_graphic :: "char \<Rightarrow> bool" where
  "is_ascii_graphic c \<longleftrightarrow> 33 \<le> byte c \<and> byte c \<le> 126"

definition api_key_new :: "string \<Rightarrow> string md" where
  "api_key_new key =
     (if key = [] \<or> \<not> list_all is_ascii_graphic key then Err (InvalidInput ''API key'') else Ok key)"

definition BASE58 :: string where
  "BASE58 = ''123456789ABCDEFGHJKLMNPQRSTUVWXYZabcdefghijkmnopqrstuvwxyz''"

definition validate_address :: "string \<Rightarrow> unit md" where
  "validate_address address =
     (if 32 \<le> length address \<and> length address \<le> 44 \<and> list_all (\<lambda>b. b \<in> set BASE58) address
      then Ok () else Err (InvalidInput ''address''))"

definition digits_value :: "string \<Rightarrow> nat" where
  "digits_value ds = foldl (\<lambda>n c. 10 * n + (byte c - 48)) 0 ds"

text \<open>\<open>str::parse::<u64>\<close>: an optional plus sign, at least one digit, no overflow.\<close>

definition parse_u64 :: "string \<Rightarrow> nat option" where
  "parse_u64 s =
     (let ds = (case s of c # r \<Rightarrow> if c = CHR ''+'' then r else s | [] \<Rightarrow> s)
      in if ds = [] \<or> \<not> list_all is_ascii_digit ds \<or> digits_value ds > u64_max then None
         else Some (digits_value ds))"

text \<open>A JSON string that holds a \<open>u64\<close>: digits only. \<open>Inl\<close> is the text of the decoder's error.\<close>

definition u64_string :: "string \<Rightarrow> string + nat" where
  "u64_string txt =
     (if txt = [] \<or> \<not> list_all is_ascii_digit txt
      then Inl ''expected an unsigned integer string''
      else case parse_u64 txt of
        None \<Rightarrow> Inl ''integer out of range''
      | Some n \<Rightarrow> Inr n)"

section \<open>URLs\<close>

record url =
  scheme :: string
  username :: string
  password :: "string option"
  fragment :: "string option"
  port :: "nat option"
  host_str :: "string option"

definition checked_url :: "(string \<Rightarrow> url option) \<Rightarrow> string \<Rightarrow> url md" where
  "checked_url parse u = (case parse u of
     None \<Rightarrow> Err InvalidUrl
   | Some parsed \<Rightarrow>
       if scheme parsed \<noteq> ''https'' \<or> username parsed \<noteq> [] \<or> password parsed \<noteq> None
          \<or> fragment parsed \<noteq> None \<or> port parsed \<noteq> None
       then Err InvalidUrl
       else case host_str parsed of
         Some h \<Rightarrow> if h \<in> set ALLOWED_HOSTS then Ok parsed else Err HostNotAllowed
       | None \<Rightarrow> Err HostNotAllowed)"

section \<open>The pacer\<close>

definition secs_ns :: "int \<Rightarrow> int" where "secs_ns n = n * 1000000000"
definition as_secs :: "int \<Rightarrow> nat" where "as_secs d = nat (d div 1000000000)"

definition MAX_BODY_BYTES :: nat where "MAX_BODY_BYTES = 2 * 1024 * 1024"
definition MAX_QUEUE_WAIT :: int where "MAX_QUEUE_WAIT = secs_ns 5"
definition DEFAULT_BACKOFF :: int where "DEFAULT_BACKOFF = secs_ns 30"
definition MAX_BACKOFF :: int where "MAX_BACKOFF = secs_ns 300"

record pacer =
  gap :: int
  next_slot :: int
  blocked_until :: "int option"

definition pacer_new :: "int \<Rightarrow> int \<Rightarrow> pacer" where
  "pacer_new g now = \<lparr>gap = g, next_slot = now, blocked_until = None\<rparr>"

definition pacer_check :: "pacer \<Rightarrow> int \<Rightarrow> provider \<Rightarrow> unit md" where
  "pacer_check st now prov = (case blocked_until st of
     Some till \<Rightarrow> if till > now then Err (RateLimitHit prov (max (as_secs (till - now)) 1)) else Ok ()
   | None \<Rightarrow> Ok ())"

definition ensure_open :: "pacer \<Rightarrow> int \<Rightarrow> provider \<Rightarrow> unit md" where
  "ensure_open st now prov = pacer_check st now prov"

definition pacer_reserve :: "pacer \<Rightarrow> int \<Rightarrow> provider \<Rightarrow> int md \<times> pacer" where
  "pacer_reserve st now prov = (case pacer_check st now prov of
     Ok _ \<Rightarrow>
       (let slot = max (next_slot st) now
        in if slot - now > MAX_QUEUE_WAIT then (Err (Busy prov), st)
           else (Ok slot, st\<lparr>next_slot := slot + gap st\<rparr>))
   | Err e \<Rightarrow> (Err e, st)
   | Panic \<Rightarrow> (Panic, st))"

definition pacer_block :: "pacer \<Rightarrow> int \<Rightarrow> int \<Rightarrow> pacer" where
  "pacer_block st backoff now = st\<lparr>blocked_until := Some (now + backoff)\<rparr>"

section \<open>A request\<close>

record http =
  h_provider :: provider
  h_pacer :: pacer

definition http_new :: "provider \<Rightarrow> int \<Rightarrow> int \<Rightarrow> http" where
  "http_new prov g now = \<lparr>h_provider = prov, h_pacer = pacer_new g now\<rparr>"

text \<open>
  A response as the transport gives it: the status, the \<open>Retry-After\<close> header when it is
  visible text, the announced length, and the body chunks, \<open>None\<close> being a transport error.
\<close>

record response =
  status :: nat
  retry_after_header :: "string option"
  content_length :: "nat option"
  chunks :: "char list option list"

definition rate_limited :: "http \<Rightarrow> int \<Rightarrow> int \<Rightarrow> market_data_error \<times> http" where
  "rate_limited h backoff now =
     (RateLimitHit (h_provider h) (as_secs backoff), h\<lparr>h_pacer := pacer_block (h_pacer h) backoff now\<rparr>)"

definition retry_after :: "response \<Rightarrow> int" where
  "retry_after r =
     (case Option.bind (retry_after_header r) (\<lambda>v. parse_u64 (trim v)) of
        Some n \<Rightarrow> min (max (secs_ns (int n)) (secs_ns 1)) MAX_BACKOFF
      | None \<Rightarrow> DEFAULT_BACKOFF)"

fun read_chunks :: "provider \<Rightarrow> string \<Rightarrow> char list option list \<Rightarrow> string md" where
  "read_chunks prov body [] = Ok body"
| "read_chunks prov body (None # cs) = Err (HttpFailed prov)"
| "read_chunks prov body (Some c # cs) =
     (if length body + length c > MAX_BODY_BYTES then Err (TooLarge prov)
      else read_chunks prov (body @ c) cs)"

definition read_capped :: "provider \<Rightarrow> response \<Rightarrow> string md" where
  "read_capped prov r =
     (case content_length r of
        Some n \<Rightarrow> if n > MAX_BODY_BYTES then Err (TooLarge prov) else read_chunks prov [] (chunks r)
      | None \<Rightarrow> read_chunks prov [] (chunks r))"

definition is_success :: "nat \<Rightarrow> bool" where
  "is_success s \<longleftrightarrow> 200 \<le> s \<and> s < 300"

text \<open>
  The part of \<open>json\<close> after \<open>send\<close>, at time \<open>now\<close>; \<open>sent = None\<close> is a failed request.
\<close>

definition receive_json ::
  "http \<Rightarrow> int \<Rightarrow> response option \<Rightarrow> (string \<Rightarrow> 'a option) \<Rightarrow> 'a md \<times> http" where
  "receive_json h now sent decode = (case sent of
     None \<Rightarrow> (Err (HttpFailed (h_provider h)), h)
   | Some r \<Rightarrow>
       if status r = 429 then (let (e, h') = rate_limited h (retry_after r) now in (Err e, h'))
       else if \<not> is_success (status r) then (Err (HttpStatus (h_provider h) (status r)), h)
       else (bind_res (read_capped (h_provider h) r)
               (\<lambda>body. ok_or (Decode (h_provider h)) (decode body)), h))"

text \<open>
  \<open>json\<close> for one caller: \<open>t1\<close> when it reserves, \<open>t2\<close> when it wakes and asks again whether
  the provider is open, \<open>t3\<close> when the response is there. \<open>sent\<close> is the transport's answer,
  used only when the request is sent.
\<close>

definition http_json ::
  "http \<Rightarrow> int \<Rightarrow> int \<Rightarrow> int \<Rightarrow> response option \<Rightarrow> (string \<Rightarrow> 'a option) \<Rightarrow> 'a md \<times> http" where
  "http_json h t1 t2 t3 sent decode =
     (case pacer_reserve (h_pacer h) t1 (h_provider h) of
        (Err e, p) \<Rightarrow> (Err e, h\<lparr>h_pacer := p\<rparr>)
      | (Panic, p) \<Rightarrow> (Panic, h\<lparr>h_pacer := p\<rparr>)
      | (Ok slot, p) \<Rightarrow>
          (case ensure_open p t2 (h_provider h) of
             Err e \<Rightarrow> (Err e, h\<lparr>h_pacer := p\<rparr>)
           | Panic \<Rightarrow> (Panic, h\<lparr>h_pacer := p\<rparr>)
           | Ok _ \<Rightarrow> receive_json (h\<lparr>h_pacer := p\<rparr>) t3 sent decode))"

section \<open>Concurrent callers\<close>

text \<open>
  Callers of one client interleave at its lock. The events are the four places where a call
  touches the pacer; \<open>granted\<close> logs the slots handed out and \<open>requests\<close> the times at which a
  woken caller found the provider open and sent.
\<close>

datatype pacer_event =
  Reserve int | Wake int | Received int "response option" | Backoff int int

record paced =
  client :: http
  granted :: "int list"
  requests :: "int list"

fun paced_step :: "paced \<Rightarrow> pacer_event \<Rightarrow> paced" where
  "paced_step s (Reserve now) =
     (case pacer_reserve (h_pacer (client s)) now (h_provider (client s)) of
        (Ok slot, p) \<Rightarrow> s\<lparr>client := (client s)\<lparr>h_pacer := p\<rparr>, granted := granted s @ [slot]\<rparr>
      | (_, p) \<Rightarrow> s\<lparr>client := (client s)\<lparr>h_pacer := p\<rparr>\<rparr>)"
| "paced_step s (Wake now) =
     (case ensure_open (h_pacer (client s)) now (h_provider (client s)) of
        Ok _ \<Rightarrow> s\<lparr>requests := requests s @ [now]\<rparr>
      | _ \<Rightarrow> s)"
| "paced_step s (Received now sent) =
     s\<lparr>client := snd (receive_json (client s) now sent (\<lambda>body. Some body))\<rparr>"
| "paced_step s (Backoff now d) = s\<lparr>client := snd (rate_limited (client s) d now)\<rparr>"

definition paced_start :: "provider \<Rightarrow> int \<Rightarrow> int \<Rightarrow> paced" where
  "paced_start prov g now = \<lparr>client = http_new prov g now, granted = [], requests = []\<rparr>"

definition paced_inv :: "int \<Rightarrow> paced \<Rightarrow> bool" where
  "paced_inv g s \<longleftrightarrow> gap (h_pacer (client s)) = g
     \<and> sorted_wrt (\<lambda>a b. a + g \<le> b) (granted s)
     \<and> (\<forall>a \<in> set (granted s). a + g \<le> next_slot (h_pacer (client s)))"

text \<open>Events that do not name a new back-off and touch the pacer before \<open>till\<close>.\<close>

definition quiet_event :: "int \<Rightarrow> pacer_event \<Rightarrow> bool" where
  "quiet_event till e = (case e of
     Reserve now \<Rightarrow> now < till
   | Wake now \<Rightarrow> now < till
   | Received _ sent \<Rightarrow> (case sent of Some r \<Rightarrow> status r \<noteq> 429 | None \<Rightarrow> True)
   | Backoff _ _ \<Rightarrow> False)"

section \<open>Lemmas\<close>

lemma pacer_check_cases:
  "pacer_check st now prov = Ok () \<and> (\<forall>till. blocked_until st = Some till \<longrightarrow> till \<le> now)
   \<or> (\<exists>till n. blocked_until st = Some till \<and> now < till
       \<and> pacer_check st now prov = Err (RateLimitHit prov n) \<and> 1 \<le> n)"
  by (auto simp: pacer_check_def split: option.splits)

lemma pacer_reserve_Ok: "pacer_reserve st now prov = (Ok slot, st') \<longleftrightarrow>
    (\<forall>till. blocked_until st = Some till \<longrightarrow> till \<le> now) \<and> slot = max (next_slot st) now
    \<and> slot \<le> now + MAX_QUEUE_WAIT \<and> st' = st\<lparr>next_slot := slot + gap st\<rparr>"
  using pacer_check_cases [of st now prov]
  by (auto simp: pacer_reserve_def Let_def split: if_splits)

lemma pacer_reserve_refused: "pacer_reserve st now prov = (r, st') \<Longrightarrow> (\<forall>slot. r \<noteq> Ok slot) \<Longrightarrow>
    st' = st \<and> r \<noteq> Panic"
  using pacer_check_cases [of st now prov]
  by (auto simp: pacer_reserve_def Let_def split: if_splits)

lemma pacer_reserve_blocked:
  assumes "blocked_until st = Some till" and "now < till"
  obtains n where "pacer_reserve st now prov = (Err (RateLimitHit prov n), st)"
  using assms pacer_check_cases [of st now prov] that by (auto simp: pacer_reserve_def)

lemma retry_after_bounds: "secs_ns 1 \<le> retry_after r \<and> retry_after r \<le> secs_ns 300"
  by (auto simp: retry_after_def DEFAULT_BACKOFF_def MAX_BACKOFF_def secs_ns_def split: option.splits)

lemma receive_http: "snd (receive_json h now sent decode) =
    (case sent of Some r \<Rightarrow> if status r = 429
        then h\<lparr>h_pacer := pacer_block (h_pacer h) (retry_after r) now\<rparr> else h
     | None \<Rightarrow> h)"
  by (auto simp: receive_json_def rate_limited_def split: option.splits)

lemma read_chunks_capped: "read_chunks prov body cs = Ok b \<Longrightarrow> length body \<le> MAX_BODY_BYTES \<Longrightarrow>
    length b \<le> MAX_BODY_BYTES \<and> b = body @ concat (map the cs) \<and> None \<notin> set cs"
  by (induction prov body cs rule: read_chunks.induct) (auto split: if_splits)

lemma read_chunks_total: "None \<notin> set cs \<Longrightarrow> length body + length (concat (map the cs)) \<le> MAX_BODY_BYTES \<Longrightarrow>
    read_chunks prov body cs = Ok (body @ concat (map the cs))"
  by (induction prov body cs rule: read_chunks.induct) auto

lemma read_capped_iff: "read_capped prov r = Ok b \<longleftrightarrow>
    (\<forall>n. content_length r = Some n \<longrightarrow> n \<le> MAX_BODY_BYTES) \<and> None \<notin> set (chunks r)
    \<and> b = concat (map the (chunks r)) \<and> length b \<le> MAX_BODY_BYTES"
  using read_chunks_capped [of prov "[]" "chunks r" b] read_chunks_total [of "chunks r" "[]" prov]
  by (auto simp: read_capped_def split: option.splits)

section \<open>Pacing under concurrency\<close>

lemma paced_step_inv:
  assumes g: "0 \<le> g" and inv: "paced_inv g s"
  shows "paced_inv g (paced_step s e)"
proof (cases e)
  case (Reserve now)
  let ?p = "h_pacer (client s)" and ?v = "h_provider (client s)"
  obtain r p where rp: "pacer_reserve ?p now ?v = (r, p)" by fastforce
  show ?thesis
  proof (cases r)
    case (Ok slot)
    then have ok: "slot = max (next_slot ?p) now" "p = ?p\<lparr>next_slot := slot + gap ?p\<rparr>"
      using rp by (simp_all add: pacer_reserve_Ok)
    from inv have i: "gap ?p = g" "sorted_wrt (\<lambda>a b. a + g \<le> b) (granted s)"
      "\<forall>a \<in> set (granted s). a + g \<le> next_slot ?p" by (simp_all add: paced_inv_def)
    have le: "\<forall>a \<in> set (granted s). a + g \<le> slot" using i(3) ok(1) by fastforce
    then have "\<forall>a \<in> set (granted s). a \<le> slot" using g by fastforce
    with le i ok(2) Reserve Ok rp show ?thesis
      by (simp add: paced_inv_def sorted_wrt_append)
  next
    case (Err x)
    with pacer_reserve_refused [OF rp] Reserve rp inv show ?thesis by (simp add: paced_inv_def)
  next
    case Panic
    with pacer_reserve_refused [OF rp] Reserve rp inv show ?thesis by (simp add: paced_inv_def)
  qed
next
  case (Wake now)
  with inv show ?thesis by (auto simp: paced_inv_def split: res.splits)
next
  case (Received now sent)
  with inv show ?thesis
    by (auto simp: paced_inv_def receive_http pacer_block_def split: option.splits)
next
  case (Backoff now d)
  with inv show ?thesis by (simp add: paced_inv_def rate_limited_def pacer_block_def)
qed

interpretation pacing: transition_system paced_step "\<lambda>s. 0 \<le> g \<and> paced_inv g s" for g
  by unfold_locales (simp add: paced_step_inv)

lemma paced_start_inv: "paced_inv g (paced_start prov g t0)"
  by (simp add: paced_inv_def paced_start_def http_new_def pacer_new_def)

lemma quiet_step:
  assumes q: "quiet_event till e" and b: "blocked_until (h_pacer (client s)) = Some till"
  shows "paced_step s e = s"
proof (cases e)
  case (Reserve now)
  with q have "now < till" by (simp add: quiet_event_def)
  then obtain n where "pacer_reserve (h_pacer (client s)) now (h_provider (client s))
      = (Err (RateLimitHit (h_provider (client s)) n), h_pacer (client s))"
    by (rule pacer_reserve_blocked [OF b])
  with Reserve show ?thesis by simp
next
  case (Wake now)
  with q b show ?thesis by (simp add: quiet_event_def ensure_open_def pacer_check_def)
next
  case (Received now sent)
  with q show ?thesis by (cases sent) (simp_all add: quiet_event_def receive_http)
next
  case (Backoff now d)
  with q show ?thesis by (simp add: quiet_event_def)
qed

lemma quiet_run:
  "list_all (quiet_event till) es \<Longrightarrow> blocked_until (h_pacer (client s)) = Some till \<Longrightarrow>
   foldl paced_step s es = s"
  by (induction es arbitrary: s) (auto simp: quiet_step)

text \<open>
  Requests to a provider are paced and back off, however its callers interleave: the slots
  handed out are at least the provider's gap apart, a caller is never made to wait more than five
  seconds for its slot, and after a 429 no slot is handed out and no request is sent until the
  time the response asked for has passed, which is between one second and five minutes.\<close>

theorem requests_paced_and_back_off:
  assumes "0 \<le> g" and "s = foldl paced_step (paced_start prov g t0) es"
    and "status r = 429" and "list_all (quiet_event (t + retry_after r)) later"
  shows "sorted_wrt (\<lambda>a b. a + g \<le> b) (granted s)
    \<and> (\<forall>now slot p. pacer_reserve (h_pacer (client s)) now prov = (Ok slot, p) \<longrightarrow>
         now \<le> slot \<and> slot \<le> now + secs_ns 5 \<and> (\<forall>a \<in> set (granted s). a + g \<le> slot))
    \<and> granted (foldl paced_step (paced_step s (Received t (Some r))) later) = granted s
    \<and> requests (foldl paced_step (paced_step s (Received t (Some r))) later) = requests s
    \<and> secs_ns 1 \<le> retry_after r \<and> retry_after r \<le> secs_ns 300"
proof -
  have "paced_inv g s" using pacing.run_inv [of g "paced_start prov g t0" es] assms(1,2)
    by (simp add: paced_start_inv)
  then have i: "sorted_wrt (\<lambda>a b. a + g \<le> b) (granted s)"
    "\<forall>a \<in> set (granted s). a + g \<le> next_slot (h_pacer (client s))"
    by (simp_all add: paced_inv_def)
  have wait: "\<forall>now slot p. pacer_reserve (h_pacer (client s)) now prov = (Ok slot, p) \<longrightarrow>
      now \<le> slot \<and> slot \<le> now + secs_ns 5 \<and> (\<forall>a \<in> set (granted s). a + g \<le> slot)"
    using i(2) by (auto simp: pacer_reserve_Ok MAX_QUEUE_WAIT_def)
  let ?s = "paced_step s (Received t (Some r))"
  have "blocked_until (h_pacer (client ?s)) = Some (t + retry_after r)"
    using assms(3) by (simp add: receive_http pacer_block_def)
  then have "foldl paced_step ?s later = ?s" by (rule quiet_run [OF assms(4)])
  then show ?thesis using i(1) wait retry_after_bounds by simp
qed

theorem requests_paced_and_back_off_witness:
  "let s = foldl paced_step (paced_start Jupiter (secs_ns 2) 0) [Reserve 0, Reserve 1, Wake 0];
       r = \<lparr>status = 429, retry_after_header = None, content_length = None, chunks = []\<rparr>
   in granted s = [0, secs_ns 2] \<and> requests s = [0]
    \<and> granted (foldl paced_step (paced_step s (Received 5 (Some r))) [Reserve 9, Wake (secs_ns 2)]) = granted s"
proof -
  let ?es = "[Reserve 0, Reserve 1, Wake 0]" and ?later = "[Reserve 9, Wake (secs_ns 2)]"
  let ?s = "foldl paced_step (paced_start Jupiter (secs_ns 2) 0) ?es"
  let ?r = "\<lparr>status = 429, retry_after_header = None, content_length = None, chunks = []\<rparr>"
  have "granted ?s = [0, secs_ns 2] \<and> requests ?s = [0]"
    by (simp add: secs_ns_def paced_start_def http_new_def pacer_new_def pacer_reserve_def
        pacer_check_def ensure_open_def MAX_QUEUE_WAIT_def)
  moreover have "list_all (quiet_event (5 + retry_after ?r)) ?later" and "0 \<le> secs_ns 2"
    and "status ?r = 429"
    by (simp_all add: quiet_event_def retry_after_def DEFAULT_BACKOFF_def secs_ns_def)
  then have "granted (foldl paced_step (paced_step ?s (Received 5 (Some ?r))) ?later) = granted ?s"
    by (intro requests_paced_and_back_off [OF _ refl, THEN conjunct2, THEN conjunct2, THEN conjunct1])
  ultimately show ?thesis unfolding Let_def by blast
qed

end
