(* ===== verification/Market_Data.thy ===== *)
theory Market_Data
  imports Mint Market_Http "HOL-Library.Multiset"
begin

text \<open>
  \<^verbatim>\<open>src/crates/market-data/src\<close>: the read-only clients \<^verbatim>\<open>dexscreener.rs\<close>, \<^verbatim>\<open>rugcheck.rs\<close>,
  \<^verbatim>\<open>jupiter.rs\<close> and \<^verbatim>\<open>rpc.rs\<close>, and \<^verbatim>\<open>snapshot.rs\<close>, which maps what they read to the snapshot the
  filter of \<open>Token_Filter\<close> checks. A client takes the decoded reply of its request as a function
  \<open>fetch\<close> from the request and the client's HTTP state (\<open>http_json\<close> with a transport and a
  decoder); base64, the decimal conversions and the date range are parameters as well.
\<close>

section \<open>DexScreener\<close>

record pair =
  chain_id :: string
  dex_id :: string
  pair_address :: string
  base_token :: string
  quote_token :: string
  pr_price_usd :: "rat option"
  pr_liquidity :: "rat option option"
  pr_txns :: "(nat \<times> nat) option option"
  pr_price_change :: "rat option option"
  pair_created_at :: "int option"
  pr_boosts :: "nat option"

type_synonym 'a fetch = "url \<Rightarrow> http \<Rightarrow> 'a md \<times> http"

definition MAX_TOKENS_PER_CALL :: nat where "MAX_TOKENS_PER_CALL = 30"

definition DEX_BASE :: string where "DEX_BASE = ''https://api.dexscreener.com''"
definition DEX_GAP :: int where "DEX_GAP = 250 * 1000000"

definition http_client :: "(string \<Rightarrow> url option) \<Rightarrow> string \<Rightarrow> provider \<Rightarrow> int \<Rightarrow> int \<Rightarrow> http md" where
  "http_client parse base prov g now =
     bind_res (checked_url parse base) (\<lambda>_. Ok (http_new prov g now))"

definition dexscreener_new :: "(string \<Rightarrow> url option) \<Rightarrow> int \<Rightarrow> http md" where
  "dexscreener_new parse now = http_client parse DEX_BASE DexScreener DEX_GAP now"

definition solana_only :: "pair list \<Rightarrow> pair list" where
  "solana_only pairs = filter (\<lambda>p. chain_id p = ''solana'') pairs"

fun validate_all :: "string list \<Rightarrow> unit md" where
  "validate_all [] = Ok ()"
| "validate_all (m # ms) = bind_res (validate_address m) (\<lambda>_. validate_all ms)"

fun join_str :: "string \<Rightarrow> string list \<Rightarrow> string" where
  "join_str sep [] = []"
| "join_str sep [s] = s"
| "join_str sep (s # ss) = s @ sep @ join_str sep ss"

definition dex_url :: "(string \<Rightarrow> url option) \<Rightarrow> string \<Rightarrow> string \<Rightarrow> url md" where
  "dex_url parse base path = ok_or InvalidUrl (parse (base @ path))"

definition dex_tokens ::
  "(string \<Rightarrow> url option) \<Rightarrow> pair list fetch \<Rightarrow> string list \<Rightarrow> http \<Rightarrow> pair list md \<times> http" where
  "dex_tokens parse fetch mints h =
     (if mints = [] \<or> length mints > MAX_TOKENS_PER_CALL
      then (Err (InvalidInput ''1 to 30 token addresses''), h)
      else case bind_res (validate_all mints) (\<lambda>_.
             dex_url parse DEX_BASE (''/tokens/v1/solana/'' @ join_str '','' mints)) of
        Err e \<Rightarrow> (Err e, h)
      | Panic \<Rightarrow> (Panic, h)
      | Ok u \<Rightarrow> (let (r, h') = fetch u h in (bind_res r (\<lambda>pairs. Ok (solana_only pairs)), h')))"

definition dex_pair ::
  "(string \<Rightarrow> url option) \<Rightarrow> pair list option fetch \<Rightarrow> string \<Rightarrow> http \<Rightarrow> pair option md \<times> http" where
  "dex_pair parse fetch address h =
     (case bind_res (validate_address address) (\<lambda>_.
             dex_url parse DEX_BASE (''/latest/dex/pairs/solana/'' @ address)) of
        Err e \<Rightarrow> (Err e, h)
      | Panic \<Rightarrow> (Panic, h)
      | Ok u \<Rightarrow> (let (r, h') = fetch u h in
          (bind_res r (\<lambda>pairs. Ok (find (\<lambda>p. pair_address p = address)
             (solana_only (case pairs of Some ps \<Rightarrow> ps | None \<Rightarrow> [])))), h')))"

section \<open>RugCheck\<close>

definition RUGCHECK_BASE :: string where "RUGCHECK_BASE = ''https://api.rugcheck.xyz''"
definition RUGCHECK_GAP :: int where "RUGCHECK_GAP = secs_ns 1"

definition rugcheck_new :: "(string \<Rightarrow> url option) \<Rightarrow> int \<Rightarrow> http md" where
  "rugcheck_new parse now = http_client parse RUGCHECK_BASE RugCheck RUGCHECK_GAP now"

definition rugcheck_summary ::
  "(string \<Rightarrow> url option) \<Rightarrow> 'a fetch \<Rightarrow> string \<Rightarrow> http \<Rightarrow> 'a md \<times> http" where
  "rugcheck_summary parse fetch m h =
     (case bind_res (validate_address m) (\<lambda>_.
             ok_or InvalidUrl (parse (RUGCHECK_BASE @ ''/v1/tokens/'' @ m @ ''/report/summary''))) of
        Err e \<Rightarrow> (Err e, h)
      | Panic \<Rightarrow> (Panic, h)
      | Ok u \<Rightarrow> fetch u h)"

section \<open>Jupiter\<close>

definition ORDER_URL :: string where "ORDER_URL = ''https://api.jup.ag/swap/v2/order''"
definition GAP_WITH_KEY :: int where "GAP_WITH_KEY = secs_ns 1"
definition GAP_KEYLESS :: int where "GAP_KEYLESS = 2100 * 1000000"

record quote_request =
  qr_input_mint :: string
  qr_output_mint :: string
  qr_amount :: nat
  qr_slippage_bps :: "nat option"

record quote =
  q_input_mint :: string
  q_output_mint :: string
  in_amount :: nat
  out_amount :: nat
  price_impact_pct :: "rat option"
  in_usd_value :: "rat option"
  out_usd_value :: "rat option"

record order_reply =
  or_input_mint :: string
  or_output_mint :: string
  or_in_amount :: nat
  or_out_amount :: nat
  or_price_impact :: "rat option"
  or_in_usd_value :: "rat option"
  or_out_usd_value :: "rat option"
  or_transaction :: "string option"
  or_error_code :: "int option"

record jupiter_client =
  jc_http :: http
  jc_api_key :: "string option"

definition jupiter_new :: "(string \<Rightarrow> url option) \<Rightarrow> string option \<Rightarrow> int \<Rightarrow> jupiter_client md" where
  "jupiter_new parse key now =
     bind_res (checked_url parse ORDER_URL) (\<lambda>_.
       Ok \<lparr>jc_http = http_new Jupiter (if key \<noteq> None then GAP_WITH_KEY else GAP_KEYLESS) now,
           jc_api_key = key\<rparr>)"

definition order_query :: "quote_request \<Rightarrow> (string \<times> string) list" where
  "order_query q =
     [(''inputMint'', qr_input_mint q), (''outputMint'', qr_output_mint q),
      (''amount'', show_nat (qr_amount q))]
     @ (case qr_slippage_bps q of Some bps \<Rightarrow> [(''slippageBps'', show_nat bps)] | None \<Rightarrow> [])"

text \<open>What \<open>quote\<close> does with a decoded reply.\<close>

definition accept_quote :: "quote_request \<Rightarrow> order_reply \<Rightarrow> quote md" where
  "accept_quote q r =
     (if (case or_transaction r of Some tx \<Rightarrow> tx \<noteq> [] | None \<Rightarrow> False)
      then Err (InvalidData Jupiter ''quote reply carries a transaction'')
      else if or_error_code r \<noteq> None
      then Err (InvalidData Jupiter ''quote reply carries an error code'')
      else if or_input_mint r \<noteq> qr_input_mint q \<or> or_output_mint r \<noteq> qr_output_mint q
              \<or> or_in_amount r \<noteq> qr_amount q
      then Err (InvalidData Jupiter ''quote does not match the request'')
      else if or_out_amount r = 0 then Err NoRoute
      else Ok \<lparr>q_input_mint = or_input_mint r, q_output_mint = or_output_mint r,
               in_amount = or_in_amount r, out_amount = or_out_amount r,
               price_impact_pct = or_price_impact r, in_usd_value = or_in_usd_value r,
               out_usd_value = or_out_usd_value r\<rparr>)"

definition jupiter_quote ::
  "(string \<Rightarrow> url option) \<Rightarrow> (string \<Rightarrow> bool) \<Rightarrow>
   (url \<Rightarrow> (string \<times> string) list \<Rightarrow> string option \<Rightarrow> http \<Rightarrow> order_reply md \<times> http) \<Rightarrow>
   jupiter_client \<Rightarrow> quote_request \<Rightarrow> quote md \<times> jupiter_client" where
  "jupiter_quote parse header_ok fetch c q =
     (case bind_res (validate_address (qr_input_mint q)) (\<lambda>_.
           bind_res (validate_address (qr_output_mint q)) (\<lambda>_.
             if qr_amount q = 0 then Err (InvalidInput ''amount must be positive'')
             else if (case qr_slippage_bps q of Some bps \<Rightarrow> bps > 10000 | None \<Rightarrow> False)
             then Err (InvalidInput ''slippage above 100%'')
             else bind_res (ok_or InvalidUrl (parse ORDER_URL)) (\<lambda>u.
               case jc_api_key c of
                 Some key \<Rightarrow> if header_ok key then Ok u else Err (InvalidInput ''API key'')
               | None \<Rightarrow> Ok u))) of
        Err e \<Rightarrow> (Err e, c)
      | Panic \<Rightarrow> (Panic, c)
      | Ok u \<Rightarrow>
          (let (r, h') = fetch u (order_query q) (jc_api_key c) (jc_http c)
           in (bind_res r (accept_quote q), c\<lparr>jc_http := h'\<rparr>)))"

section \<open>Solana RPC\<close>

definition RPC_GAP :: int where "RPC_GAP = 250 * 1000000"

record rpc_endpoint =
  ep_url :: string
  ep_host :: string

definition rpc_endpoint_new :: "(string \<Rightarrow> url option) \<Rightarrow> string \<Rightarrow> rpc_endpoint md" where
  "rpc_endpoint_new parse u =
     bind_res (checked_url parse u) (\<lambda>parsed.
     bind_res (ok_or InvalidUrl (host_str parsed)) (\<lambda>host.
       Ok \<lparr>ep_url = u, ep_host = host\<rparr>))"

definition BACKOFF_CODES :: "int list" where "BACKOFF_CODES = [-32005, -32429]"

record rpc_client =
  rc_http :: http
  rc_endpoint :: rpc_endpoint

text \<open>The \<open>id\<close> of a reply is any JSON value; only the integer 1 is the id of a request.\<close>

datatype rpc_id = IntId int | OtherId

record 'a reply =
  jsonrpc :: string
  reply_id :: rpc_id
  reply_result :: "'a option"
  reply_error :: "int option"

record account_value =
  av_data :: "string \<times> string"
  av_owner :: string

record token_account_balance =
  ta_address :: string
  ta_amount :: nat

definition rpc_client_new :: "nat \<Rightarrow> rpc_endpoint \<Rightarrow> int \<Rightarrow> rpc_client" where
  "rpc_client_new index ep now = \<lparr>rc_http = http_new (SolanaRpc index) RPC_GAP now, rc_endpoint = ep\<rparr>"

definition rc_invalid :: "rpc_client \<Rightarrow> string \<Rightarrow> market_data_error" where
  "rc_invalid c reason = InvalidData (h_provider (rc_http c)) reason"

type_synonym 'a rpc_fetch = "url \<Rightarrow> string \<Rightarrow> string \<Rightarrow> http \<Rightarrow> 'a reply md \<times> http"

text \<open>\<open>call\<close>: the request is the method with the mint as its first parameter.\<close>

definition rpc_call ::
  "(string \<Rightarrow> url option) \<Rightarrow> 'a rpc_fetch \<Rightarrow> int \<Rightarrow> rpc_client \<Rightarrow> string \<Rightarrow> string \<Rightarrow> 'a md \<times> rpc_client" where
  "rpc_call parse fetch now c meth param = (case parse (ep_url (rc_endpoint c)) of
     None \<Rightarrow> (Err InvalidUrl, c)
   | Some u \<Rightarrow>
       (let (r, h) = fetch u meth param (rc_http c); c' = c\<lparr>rc_http := h\<rparr>
        in case r of
             Err e \<Rightarrow> (Err e, c')
           | Panic \<Rightarrow> (Panic, c')
           | Ok rep \<Rightarrow>
               if jsonrpc rep \<noteq> ''2.0'' \<or> reply_id rep \<noteq> IntId 1
               then (Err (rc_invalid c' ''not a JSON-RPC 2.0 reply to this request''), c')
               else (case (reply_result rep, reply_error rep) of
                   (_, Some code) \<Rightarrow>
                     if code \<in> set BACKOFF_CODES
                     then (let (e, h') = rate_limited h DEFAULT_BACKOFF now in (Err e, c'\<lparr>rc_http := h'\<rparr>))
                     else (Err (RpcError (h_provider h) code), c')
                 | (Some v, None) \<Rightarrow> (Ok v, c')
                 | (None, None) \<Rightarrow> (Err (rc_invalid c' ''reply has neither result nor error''), c'))))"

definition decode_account ::
  "(string \<Rightarrow> byte list option) \<Rightarrow> rpc_client \<Rightarrow> account_value option \<Rightarrow> mint_account md" where
  "decode_account b64 c acc =
     bind_res (ok_or (NotFound ''mint account'') acc) (\<lambda>account.
     bind_res (ok_or (rc_invalid c ''account is not owned by a token program'')
       (from_owner (av_owner account))) (\<lambda>program.
     if snd (av_data account) \<noteq> ''base64'' then Err (rc_invalid c ''account data is not base64'')
     else
       bind_res (ok_or (rc_invalid c ''account data is not valid base64'') (b64 (fst (av_data account))))
         (\<lambda>bytes. case parse_mint program bytes of
            Ok m \<Rightarrow> Ok m
          | Err (MintParseError e) \<Rightarrow> Err (rc_invalid c e)
          | Panic \<Rightarrow> Panic)))"

definition rpc_mint ::
  "(string \<Rightarrow> url option) \<Rightarrow> (string \<Rightarrow> byte list option) \<Rightarrow> account_value option rpc_fetch \<Rightarrow> int \<Rightarrow>
   rpc_client \<Rightarrow> string \<Rightarrow> mint_account md \<times> rpc_client" where
  "rpc_mint parse b64 fetch now c m = (case validate_address m of
     Ok _ \<Rightarrow> (let (r, c') = rpc_call parse fetch now c ''getAccountInfo'' m
              in (bind_res r (decode_account b64 c'), c'))
   | Err e \<Rightarrow> (Err e, c)
   | Panic \<Rightarrow> (Panic, c))"

definition rpc_largest_accounts ::
  "(string \<Rightarrow> url option) \<Rightarrow> token_account_balance list rpc_fetch \<Rightarrow> int \<Rightarrow>
   rpc_client \<Rightarrow> string \<Rightarrow> token_account_balance list md \<times> rpc_client" where
  "rpc_largest_accounts parse fetch now c m = (case validate_address m of
     Ok _ \<Rightarrow> rpc_call parse fetch now c ''getTokenLargestAccounts'' m
   | Err e \<Rightarrow> (Err e, c)
   | Panic \<Rightarrow> (Panic, c))"

record cross_checked_rpc =
  primary :: rpc_client
  secondary :: rpc_client

record 'a cross_checked =
  cc_mint :: string
  cc_value :: 'a

definition cross_checked_rpc_new :: "rpc_endpoint \<Rightarrow> rpc_endpoint \<Rightarrow> int \<Rightarrow> cross_checked_rpc md" where
  "cross_checked_rpc_new p s now =
     (if ep_host p = ep_host s then Err (InvalidInput ''RPC providers must be independent'')
      else Ok \<lparr>primary = rpc_client_new 0 p now, secondary = rpc_client_new 1 s now\<rparr>)"

definition agree :: "string \<Rightarrow> 'a \<Rightarrow> 'a \<Rightarrow> string \<Rightarrow> 'a cross_checked md" where
  "agree m a b what =
     (if a = b then Ok \<lparr>cc_mint = m, cc_value = a\<rparr> else Err (ProviderDisagreement what))"

text \<open>Both reads are made (\<open>join!\<close>), each on its own client; the primary's error is reported first.\<close>

definition cross_mint ::
  "(string \<Rightarrow> url option) \<Rightarrow> (string \<Rightarrow> byte list option) \<Rightarrow> account_value option rpc_fetch \<Rightarrow>
   account_value option rpc_fetch \<Rightarrow> int \<Rightarrow> int \<Rightarrow>
   cross_checked_rpc \<Rightarrow> string \<Rightarrow> mint_account cross_checked md \<times> cross_checked_rpc" where
  "cross_mint parse b64 fetch0 fetch1 now0 now1 x m =
     (let (a, p) = rpc_mint parse b64 fetch0 now0 (primary x) m;
          (b, s) = rpc_mint parse b64 fetch1 now1 (secondary x) m
      in (bind_res a (\<lambda>va. bind_res b (\<lambda>vb. agree m va vb ''mint account'')),
          \<lparr>primary = p, secondary = s\<rparr>))"

definition sort_accounts :: "token_account_balance list \<Rightarrow> token_account_balance list" where
  "sort_accounts v = sort_key (\<lambda>t. (- int (ta_amount t), ta_address t)) v"

definition cross_largest_accounts ::
  "(string \<Rightarrow> url option) \<Rightarrow> token_account_balance list rpc_fetch \<Rightarrow>
   token_account_balance list rpc_fetch \<Rightarrow> int \<Rightarrow> int \<Rightarrow>
   cross_checked_rpc \<Rightarrow> string \<Rightarrow> token_account_balance list cross_checked md \<times> cross_checked_rpc" where
  "cross_largest_accounts parse fetch0 fetch1 now0 now1 x m =
     (let (a, p) = rpc_largest_accounts parse fetch0 now0 (primary x) m;
          (b, s) = rpc_largest_accounts parse fetch1 now1 (secondary x) m
      in (bind_res a (\<lambda>va. bind_res b (\<lambda>vb.
            agree m (sort_accounts va) (sort_accounts vb) ''largest token accounts'')),
          \<lparr>primary = p, secondary = s\<rparr>))"

section \<open>The snapshot\<close>

definition TOP_HOLDERS :: nat where "TOP_HOLDERS = 10"
definition SOLANA_GENESIS_MS :: int where "SOLANA_GENESIS_MS = 1584368940000"
definition i32_min :: int where "i32_min = - (2 ^ 31)"

text \<open>
  The package functions \<open>Decimal::ceil().to_u32()\<close>, \<open>round().to_i32()\<close>, \<open>from_u128\<close> and
  \<open>OffsetDateTime::from_unix_timestamp_nanos\<close>; the checked operations are those of \<open>decimal\<close>.
\<close>

record conversions =
  ceil_to_u32 :: "rat \<Rightarrow> nat option"
  round_to_i32 :: "rat \<Rightarrow> int option"
  from_u128 :: "nat \<Rightarrow> rat option"
  from_unix_nanos :: "int \<Rightarrow> int option"

record token_observation =
  ob_mint :: string
  ob_observed_at :: int
  ob_pair :: "pair option"
  ob_mint_account :: "mint_account cross_checked option"
  ob_largest_accounts :: "token_account_balance list cross_checked option"
  excluded_accounts :: "string list"
  sell_amount :: nat
  sell_quote :: "quote option"

definition or_zero :: "rat option \<Rightarrow> rat" where
  "or_zero x = (case x of Some v \<Rightarrow> v | None \<Rightarrow> 0)"

definition quote_impact_bps :: "conversions \<Rightarrow> decimal \<Rightarrow> quote \<Rightarrow> nat option" where
  "quote_impact_bps E D q =
     (let saturated = (\<lambda>x. case x of Some n \<Rightarrow> n | None \<Rightarrow> u32_max);
          reported = map_option (\<lambda>pct. saturated
            (Option.bind (checked_mul D \<bar>pct\<bar> 100) (ceil_to_u32 E))) (price_impact_pct q)
      in case (in_usd_value q, out_usd_value q) of
           (Some input, Some outp) \<Rightarrow>
             if input > 0 then
               (let from_usd = saturated
                  (Option.bind (map_option (max 0) (checked_sub D input outp)) (\<lambda>loss.
                   Option.bind (checked_div D loss input) (\<lambda>loss.
                   Option.bind (checked_mul D loss 10000) (ceil_to_u32 E))))
                in Some (case reported of None \<Rightarrow> from_usd | Some r \<Rightarrow> max r from_usd))
             else None
         | _ \<Rightarrow> None)"

definition holder_share :: "conversions \<Rightarrow> decimal \<Rightarrow> token_observation \<Rightarrow> rat option" where
  "holder_share E D ob =
     Option.bind (ob_mint_account ob) (\<lambda>m.
       let sup = ma_supply (cc_value m) in
       if sup = 0 then None
       else Option.bind (ob_largest_accounts ob) (\<lambda>h.
         let amounts = map ta_amount
               (filter (\<lambda>a. ta_address a \<notin> set (excluded_accounts ob)) (cc_value h));
             held = sum_list (List.take TOP_HOLDERS (rev (sort amounts)))
         in Option.bind (from_u128 E held) (\<lambda>d. checked_div D d (of_nat sup))))"

text \<open>The snapshot \<open>to_snapshot\<close> builds once its inputs are about the same token.\<close>

definition snapshot_fields :: "conversions \<Rightarrow> decimal \<Rightarrow> token_observation \<Rightarrow> token_snapshot" where
  "snapshot_fields E D ob =
     (let m = map_option cc_value (ob_mint_account ob);
          m5 = Option.bind (Option.bind (ob_pair ob) pr_txns) id
      in \<lparr>mint = ob_mint ob, observed_at = ob_observed_at ob,
           pool_created_at =
             (case Option.bind (Option.bind (ob_pair ob) pair_created_at) (\<lambda>ms.
                     if ms \<ge> SOLANA_GENESIS_MS then from_unix_nanos E (ms * 1000000) else None) of
                Some t \<Rightarrow> t | None \<Rightarrow> ob_observed_at ob),
           price_usd = or_zero (Option.bind (ob_pair ob) pr_price_usd),
           liquidity_usd = or_zero (Option.bind (Option.bind (ob_pair ob) pr_liquidity) id),
           mint_authority_revoked = (case m of Some a \<Rightarrow> mint_authority a = None | None \<Rightarrow> False),
           freeze_authority_revoked = (case m of Some a \<Rightarrow> freeze_authority a = None | None \<Rightarrow> False),
           extensions = (case m of Some a \<Rightarrow> ma_extensions a | None \<Rightarrow> []),
           lp = LpUnknown,
           top_holders_share = (case holder_share E D ob of Some s \<Rightarrow> s | None \<Rightarrow> 1),
           sell_impact_bps = Option.bind (sell_quote ob) (quote_impact_bps E D),
           buys_5m = (case m5 of Some t \<Rightarrow> fst t | None \<Rightarrow> 0),
           sells_5m = (case m5 of Some t \<Rightarrow> snd t | None \<Rightarrow> 0),
           price_change_5m_bps =
             (case Option.bind (Option.bind (Option.bind (ob_pair ob) pr_price_change) id) (\<lambda>pct.
                     Option.bind (checked_mul D pct 100) (round_to_i32 E)) of
                Some b \<Rightarrow> b | None \<Rightarrow> i32_min),
           boosts = (case Option.bind (ob_pair ob) pr_boosts of Some b \<Rightarrow> b | None \<Rightarrow> 0),
           trending_rank = None\<rparr>)"

definition to_snapshot :: "conversions \<Rightarrow> decimal \<Rightarrow> token_observation \<Rightarrow> token_snapshot md" where
  "to_snapshot E D ob =
     (if (case ob_pair ob of Some p \<Rightarrow> chain_id p \<noteq> ''solana'' \<or> base_token p \<noteq> ob_mint ob | None \<Rightarrow> False)
      then Err (InvalidInput ''pair is for another token'')
      else if (case ob_mint_account ob of Some m \<Rightarrow> cc_mint m \<noteq> ob_mint ob | None \<Rightarrow> False)
              \<or> (case ob_largest_accounts ob of Some h \<Rightarrow> cc_mint h \<noteq> ob_mint ob | None \<Rightarrow> False)
      then Err (InvalidInput ''RPC read is for another token'')
      else if (case sell_quote ob of
                 Some q \<Rightarrow> q_input_mint q \<noteq> ob_mint ob \<or> in_amount q \<noteq> sell_amount ob
               | None \<Rightarrow> False)
      then Err (InvalidInput ''quote does not sell the intended position'')
      else Ok (snapshot_fields E D ob))"

text \<open>
  A provider served \<open>a\<close> for the mint: its reply answers the request without an error, and the
  account in it is owned by a token program and has the layout of \<open>a\<close>.
\<close>

definition serves ::
  "(string \<Rightarrow> url option) \<Rightarrow> (string \<Rightarrow> byte list option) \<Rightarrow> account_value option rpc_fetch \<Rightarrow>
   rpc_client \<Rightarrow> string \<Rightarrow> mint_account \<Rightarrow> bool" where
  "serves parse b64 fetch c m a \<longleftrightarrow> (\<exists>u rep acc program bytes.
     parse (ep_url (rc_endpoint c)) = Some u
   \<and> fst (fetch u ''getAccountInfo'' m (rc_http c)) = Ok rep
   \<and> jsonrpc rep = ''2.0'' \<and> reply_id rep = IntId 1 \<and> reply_error rep = None
   \<and> reply_result rep = Some (Some acc)
   \<and> from_owner (av_owner acc) = Some program \<and> snd (av_data acc) = ''base64''
   \<and> b64 (fst (av_data acc)) = Some bytes \<and> mint_layout program bytes a)"

section \<open>Reads from the chain\<close>

lemma rpc_call_Ok:
  assumes "rpc_call parse fetch now c meth param = (Ok v, c')"
  obtains u rep where "parse (ep_url (rc_endpoint c)) = Some u"
    and "fst (fetch u meth param (rc_http c)) = Ok rep"
    and "jsonrpc rep = ''2.0''" and "reply_id rep = IntId 1" and "reply_error rep = None"
    and "reply_result rep = Some v"
proof -
  obtain u where u: "parse (ep_url (rc_endpoint c)) = Some u"
    using assms by (auto simp: rpc_call_def split: option.splits)
  obtain r h where f: "fetch u meth param (rc_http c) = (r, h)" by fastforce
  obtain rep where rep: "r = Ok rep"
    using assms u f by (cases r) (simp_all add: rpc_call_def Let_def)
  have ids: "jsonrpc rep = ''2.0'' \<and> reply_id rep = IntId 1"
    using assms u f rep by (cases "jsonrpc rep = ''2.0'' \<and> reply_id rep = IntId 1")
      (auto simp: rpc_call_def Let_def)
  have "reply_error rep = None"
    using assms u f rep ids
    by (cases "reply_error rep"; cases "reply_result rep")
      (auto simp: rpc_call_def Let_def rate_limited_def split: if_splits)
  moreover from this assms u f rep ids have "reply_result rep = Some v"
    by (cases "reply_result rep") (auto simp: rpc_call_def Let_def)
  ultimately show thesis using that u f rep ids by simp
qed

lemma decode_account_Ok: "decode_account b64 c x = Ok a \<longleftrightarrow>
    (\<exists>acc program bytes. x = Some acc \<and> from_owner (av_owner acc) = Some program
      \<and> snd (av_data acc) = ''base64'' \<and> b64 (fst (av_data acc)) = Some bytes
      \<and> mint_layout program bytes a)"
proof -
  have "(case parse_mint p b of Ok m \<Rightarrow> Ok m | Err (MintParseError e) \<Rightarrow> Err (rc_invalid c e)
      | Panic \<Rightarrow> Panic) = Ok a \<longleftrightarrow> mint_layout p b a" for p b
    unfolding parse_mint_iff [symmetric] by (auto split: res.split mint_parse_error.split)
  then show ?thesis by (auto simp: decode_account_def res_simps)
qed

lemma decode_account_no_panic: "decode_account b64 c x \<noteq> Panic"
  using parse_mint_no_panic
  by (auto simp: decode_account_def res_simps split: res.split mint_parse_error.split)

lemma rpc_mint_serves:
  assumes "rpc_mint parse b64 fetch now c m = (Ok a, c')"
  shows "serves parse b64 fetch c m a"
proof -
  have v: "validate_address m = Ok ()"
    using assms by (auto simp: rpc_mint_def validate_address_def split: if_splits)
  obtain r c'' where r: "rpc_call parse fetch now c ''getAccountInfo'' m = (r, c'')" by fastforce
  with assms v obtain x where x: "r = Ok x" "decode_account b64 c'' x = Ok a"
    by (auto simp: rpc_mint_def res_simps)
  from r x(1) obtain u rep where "parse (ep_url (rc_endpoint c)) = Some u"
    "fst (fetch u ''getAccountInfo'' m (rc_http c)) = Ok rep" "jsonrpc rep = ''2.0''"
    "reply_id rep = IntId 1" "reply_error rep = None" "reply_result rep = Some x"
    using rpc_call_Ok by metis
  with x(2) show ?thesis unfolding serves_def decode_account_Ok by blast
qed

lemma agree_Ok: "agree m a b what = Ok v \<longleftrightarrow> a = b \<and> v = \<lparr>cc_mint = m, cc_value = a\<rparr>"
  by (auto simp: agree_def)

lemma checked_url_Ok: "checked_url parse u = Ok p \<Longrightarrow> parse u = Some p \<and> scheme p = ''https''
    \<and> username p = [] \<and> password p = None
    \<and> (\<exists>h. host_str p = Some h \<and> h \<in> set ALLOWED_HOSTS)"
  by (auto simp: checked_url_def split: option.splits if_splits)

lemma rpc_endpoint_host: "rpc_endpoint_new parse u = Ok e \<Longrightarrow> ep_host e \<in> set ALLOWED_HOSTS"
  by (auto simp: rpc_endpoint_new_def res_simps dest!: checked_url_Ok)

text \<open>
  C12. A mint account is believed only when two independent providers serve it: if the
  cross-checked read succeeds, its two endpoints are on different hosts, both on the allowlist,
  and each provider answered the request, without an error, with an account of a token program
  whose bytes have the layout of the very mint that is returned for the requested address.\<close>

theorem mint_read_agrees_on_two_providers:
  assumes "rpc_endpoint_new parse u0 = Ok e0" and "rpc_endpoint_new parse u1 = Ok e1"
    and "cross_checked_rpc_new e0 e1 t = Ok x"
    and "cross_mint parse b64 fetch0 fetch1 now0 now1 x m = (Ok v, x')"
  shows "ep_host e0 \<noteq> ep_host e1 \<and> ep_host e0 \<in> set ALLOWED_HOSTS \<and> ep_host e1 \<in> set ALLOWED_HOSTS
    \<and> rc_endpoint (primary x) = e0 \<and> rc_endpoint (secondary x) = e1
    \<and> cc_mint v = m
    \<and> serves parse b64 fetch0 (primary x) m (cc_value v)
    \<and> serves parse b64 fetch1 (secondary x) m (cc_value v)"
proof -
  from assms(3) have x: "ep_host e0 \<noteq> ep_host e1"
    "x = \<lparr>primary = rpc_client_new 0 e0 t, secondary = rpc_client_new 1 e1 t\<rparr>"
    by (simp_all add: cross_checked_rpc_new_def split: if_splits)
  obtain a p where a: "rpc_mint parse b64 fetch0 now0 (primary x) m = (a, p)" by fastforce
  obtain b s where b: "rpc_mint parse b64 fetch1 now1 (secondary x) m = (b, s)" by fastforce
  from assms(4) a b have "bind_res a (\<lambda>va. bind_res b (\<lambda>vb. agree m va vb ''mint account'')) = Ok v"
    by (simp add: cross_mint_def)
  then have "a = Ok (cc_value v)" "b = Ok (cc_value v)" "cc_mint v = m"
    by (auto simp: res_simps agree_Ok)
  with a b rpc_mint_serves x rpc_endpoint_host [OF assms(1)] rpc_endpoint_host [OF assms(2)]
  show ?thesis by (simp add: rpc_client_new_def)
qed


text \<open>The lists agree exactly when the providers report the same balances, in any order.\<close>

lemma sort_accounts_eq_iff: "sort_accounts a = sort_accounts b \<longleftrightarrow> mset a = mset b"
proof
  let ?f = "\<lambda>t :: token_account_balance. (- int (ta_amount t), ta_address t)"
  show "mset a = mset b" if "sort_accounts a = sort_accounts b"
    using that by (metis mset_sort sort_accounts_def)
  assume "mset a = mset b"
  moreover have "inj ?f" by (rule injI) (auto intro: token_account_balance.equality)
  then have "inj_on ?f (set a)" by (meson inj_on_subset subset_UNIV)
  ultimately have "sort_key ?f a = sort_key ?f b"
    by (intro sort_key_inj_key_eq) simp_all
  then show "sort_accounts a = sort_accounts b" by (simp add: sort_accounts_def)
qed

section \<open>What an accepted snapshot was built from\<close>

lemma to_snapshot_Ok:
  assumes "to_snapshot E D ob = Ok s"
  shows "ob_pair ob = Some p \<Longrightarrow> chain_id p = ''solana'' \<and> base_token p = ob_mint ob"
    and "ob_mint_account ob = Some a \<Longrightarrow> cc_mint a = ob_mint ob"
    and "ob_largest_accounts ob = Some h \<Longrightarrow> cc_mint h = ob_mint ob"
    and "sell_quote ob = Some q \<Longrightarrow> q_input_mint q = ob_mint ob \<and> in_amount q = sell_amount ob"
    and "s = snapshot_fields E D ob"
  using assms by (auto simp: to_snapshot_def split: if_splits)

lemma snapshot_fields_simps:
  "lp (snapshot_fields E D ob) = LpUnknown"
  "observed_at (snapshot_fields E D ob) = ob_observed_at ob"
  "price_usd (snapshot_fields E D ob) = or_zero (Option.bind (ob_pair ob) pr_price_usd)"
  "liquidity_usd (snapshot_fields E D ob) = or_zero (Option.bind (Option.bind (ob_pair ob) pr_liquidity) id)"
  "mint_authority_revoked (snapshot_fields E D ob) \<longleftrightarrow>
     (\<exists>a. ob_mint_account ob = Some a \<and> mint_authority (cc_value a) = None)"
  "freeze_authority_revoked (snapshot_fields E D ob) \<longleftrightarrow>
     (\<exists>a. ob_mint_account ob = Some a \<and> freeze_authority (cc_value a) = None)"
  "ob_mint_account ob = Some a \<Longrightarrow> extensions (snapshot_fields E D ob) = ma_extensions (cc_value a)"
  "top_holders_share (snapshot_fields E D ob) = (case holder_share E D ob of Some s \<Rightarrow> s | None \<Rightarrow> 1)"
  "sell_impact_bps (snapshot_fields E D ob) = Option.bind (sell_quote ob) (quote_impact_bps E D)"
  by (simp_all add: snapshot_fields_def Let_def split: option.split)

lemma snapshot_pool_age:
  assumes "pool_created_at (snapshot_fields E D ob) \<noteq> ob_observed_at ob"
  obtains p ms where "ob_pair ob = Some p" and "pair_created_at p = Some ms"
    and "SOLANA_GENESIS_MS \<le> ms" and "from_unix_nanos E (ms * 1000000) = Some (pool_created_at (snapshot_fields E D ob))"
proof -
  let ?c = "Option.bind (Option.bind (ob_pair ob) pair_created_at) (\<lambda>ms.
    if ms \<ge> SOLANA_GENESIS_MS then from_unix_nanos E (ms * 1000000) else None)"
  have c: "pool_created_at (snapshot_fields E D ob) = (case ?c of Some t \<Rightarrow> t | None \<Rightarrow> ob_observed_at ob)"
    by (simp add: snapshot_fields_def Let_def)
  with assms obtain t where "?c = Some t" by (cases ?c) auto
  with c that show thesis by (auto simp: bind_eq_Some_conv split: if_splits)
qed

lemma or_zero_pos: "0 < or_zero x \<Longrightarrow> \<exists>v. x = Some v \<and> 0 < v"
  by (cases x) (simp_all add: or_zero_def)

lemma quote_impact_Some: "quote_impact_bps E D q = Some b \<Longrightarrow>
    (\<exists>i out. in_usd_value q = Some i \<and> out_usd_value q = Some out \<and> 0 < i)"
  by (auto simp: quote_impact_bps_def Let_def split: option.splits if_splits)

lemma holder_share_Some: "holder_share E D ob = Some v \<Longrightarrow>
    (\<exists>a h. ob_mint_account ob = Some a \<and> ob_largest_accounts ob = Some h \<and> ma_supply (cc_value a) \<noteq> 0)"
  by (auto simp: holder_share_def Let_def bind_eq_Some_conv split: if_splits)


text \<open>Every input a snapshot needs was read, is about the observed token and is safe.\<close>

definition inputs_read :: "filter_rules \<Rightarrow> token_observation \<Rightarrow> bool" where
  "inputs_read r ob \<longleftrightarrow> (\<exists>p a h q.
     ob_pair ob = Some p \<and> chain_id p = ''solana'' \<and> base_token p = ob_mint ob
   \<and> (\<exists>v. pr_price_usd p = Some v \<and> 0 < v)
   \<and> (\<exists>v. pr_liquidity p = Some (Some v) \<and> min_liquidity_usd r \<le> v)
   \<and> (\<exists>ms. pair_created_at p = Some ms \<and> SOLANA_GENESIS_MS \<le> ms)
   \<and> ob_mint_account ob = Some a \<and> cc_mint a = ob_mint ob
   \<and> mint_authority (cc_value a) = None \<and> freeze_authority (cc_value a) = None
   \<and> (\<forall>e \<in> set (ma_extensions (cc_value a)). kind e \<in> set (allowed_extensions r) \<and> authority_revoked e)
   \<and> ob_largest_accounts ob = Some h \<and> cc_mint h = ob_mint ob
   \<and> sell_quote ob = Some q \<and> q_input_mint q = ob_mint ob \<and> in_amount q = sell_amount ob
   \<and> (\<exists>i out. in_usd_value q = Some i \<and> out_usd_value q = Some out \<and> 0 < i))"

lemma rules_hold_inputs:
  assumes ok: "to_snapshot E D ob = Ok s" and rules: "rules_hold (s\<lparr>lp := l\<rparr>) r deny now"
    and share: "max_top_holders_share r < 1" and age: "0 < min_pool_age r"
  shows "inputs_read r ob"
proof -
  note s = to_snapshot_Ok [OF ok]
  note f = snapshot_fields_simps [where E = E and D = D and ob = ob, folded s(5)]
  have h: "0 < price_usd s" "0 < liquidity_usd s" "min_liquidity_usd r \<le> liquidity_usd s"
    "mint_authority_revoked s" "freeze_authority_revoked s" "top_holders_share s \<le> max_top_holders_share r"
    "min_pool_age r \<le> observed_at s - pool_created_at s" "\<exists>b. sell_impact_bps s = Some b"
    and ex: "\<forall>e \<in> set (extensions s). kind e \<in> set (allowed_extensions r) \<and> authority_revoked e"
    using rules by (auto simp: rules_hold_def)
  have "pool_created_at s \<noteq> ob_observed_at ob" using h(7) age f(2) by linarith
  then obtain p ms where p: "ob_pair ob = Some p" "pair_created_at p = Some ms" "SOLANA_GENESIS_MS \<le> ms"
    using snapshot_pool_age [of E D ob] s(5) by metis
  have "\<exists>v. pr_price_usd p = Some v \<and> 0 < v" using or_zero_pos h(1) f(3) p(1) by simp
  moreover have "\<exists>v. pr_liquidity p = Some (Some v) \<and> min_liquidity_usd r \<le> v"
    using h(2,3) f(4) p(1) by (cases "pr_liquidity p") (auto simp: or_zero_def split: option.splits)
  moreover obtain a where a: "ob_mint_account ob = Some a" "mint_authority (cc_value a) = None"
    "freeze_authority (cc_value a) = None" using h(4,5) f(5,6) by auto
  moreover obtain v where v: "holder_share E D ob = Some v"
    using h(6) f(8) share by (cases "holder_share E D ob") auto
  then obtain hs where hs: "ob_largest_accounts ob = Some hs" using holder_share_Some by blast
  moreover obtain q b where q: "sell_quote ob = Some q" "quote_impact_bps E D q = Some b"
    using h(8) f(9) by (auto simp: bind_eq_Some_conv)
  moreover have "\<forall>e \<in> set (ma_extensions (cc_value a)). kind e \<in> set (allowed_extensions r) \<and> authority_revoked e"
    using ex f(7) [OF a(1)] by simp
  ultimately show ?thesis
    using p s(1) [OF p(1)] s(2) [OF a(1)] s(3) [OF hs] s(4) [OF q(1)] quote_impact_Some [OF q(2)]
    unfolding inputs_read_def by blast
qed

text \<open>
  Unknown market data never passes the safety filter. A snapshot built from observed data is
  never accepted, because the state of the liquidity pool is always reported as unknown. Even
  if the pool were found to be secured, the filter accepts the snapshot only if every other
  input was read and is about this very token: a Solana pair with a positive price, enough liquidity
  and a plausible creation time, the mint account with both authorities and every extension
  authority revoked, the largest holders, and a sell quote for the exact amount with both USD
  values. The thresholds need only be real ones (a holder limit below 100% and a minimum pool age).\<close>

theorem unknown_data_is_never_accepted:
  assumes "to_snapshot E D ob = Ok s"
  shows "check s r deny now \<noteq> Accept
    \<and> (max_top_holders_share r < 1 \<and> 0 < min_pool_age r \<and> check (s\<lparr>lp := l\<rparr>) r deny now = Accept
       \<longrightarrow> inputs_read r ob)"
proof -
  have "lp s = LpUnknown" using to_snapshot_Ok(5) [OF assms] snapshot_fields_simps(1) by simp
  then have "check s r deny now \<noteq> Accept" by (simp add: check_Accept_iff rules_hold_def)
  then show ?thesis using rules_hold_inputs [OF assms] unfolding check_Accept_iff by blast
qed


section \<open>A concrete observation\<close>

definition exact_conversions :: conversions where
  "exact_conversions = \<lparr>
     ceil_to_u32 = (\<lambda>x. if 0 \<le> \<lceil>x\<rceil> \<and> \<lceil>x\<rceil> \<le> int u32_max then Some (nat \<lceil>x\<rceil>) else None),
     round_to_i32 = (\<lambda>x. if - (2 ^ 31) \<le> round x \<and> round x < 2 ^ 31 then Some (round x) else None),
     from_u128 = (\<lambda>n. if n < 2 ^ 96 then Some (of_nat n) else None),
     from_unix_nanos = Some\<rparr>"

definition demo_observation :: token_observation where
  "demo_observation = \<lparr>ob_mint = ''M'', ob_observed_at = 1600000000000000000,
     ob_pair = Some \<lparr>chain_id = ''solana'', dex_id = ''ray'', pair_address = ''P'', base_token = ''M'',
       quote_token = ''U'', pr_price_usd = Some (1 / 1000), pr_liquidity = Some (Some 200000),
       pr_txns = None, pr_price_change = None, pair_created_at = Some 1590000000000, pr_boosts = None\<rparr>,
     ob_mint_account = Some \<lparr>cc_mint = ''M'', cc_value = \<lparr>ma_program = Spl, ma_supply = 1000,
       decimals = 6, mint_authority = None, freeze_authority = None, ma_extensions = []\<rparr>\<rparr>,
     ob_largest_accounts = Some \<lparr>cc_mint = ''M'', cc_value = [\<lparr>ta_address = ''V'', ta_amount = 700\<rparr>,
       \<lparr>ta_address = ''A'', ta_amount = 90\<rparr>, \<lparr>ta_address = ''B'', ta_amount = 60\<rparr>]\<rparr>,
     excluded_accounts = [''V''], sell_amount = 5,
     sell_quote = Some \<lparr>q_input_mint = ''M'', q_output_mint = ''U'', in_amount = 5, out_amount = 4,
       price_impact_pct = Some (1 / 2), in_usd_value = Some 100, out_usd_value = Some 99\<rparr>\<rparr>"

lemma demo_impact: "quote_impact_bps exact_conversions dec96 \<lparr>q_input_mint = ''M'', q_output_mint = ''U'',
    in_amount = 5, out_amount = 4, price_impact_pct = Some (1 / 2), in_usd_value = Some 100,
    out_usd_value = Some 99\<rparr> = Some 100"
  by (simp add: quote_impact_bps_def exact_conversions_def dec96_def dec96_lim_def dec96_repr_def
      dec_max_def u32_max_def Let_def)

lemma demo_share: "holder_share exact_conversions dec96 demo_observation = Some (15 / 100)"
  by (simp add: holder_share_def demo_observation_def exact_conversions_def dec96_def dec96_lim_def
      dec96_repr_def dec_max_def TOP_HOLDERS_def Let_def)

theorem unknown_data_is_never_accepted_witness:
  "\<exists>s. to_snapshot exact_conversions dec96 demo_observation = Ok s
    \<and> check s demo_rules [] 1600000000000000010 \<noteq> Accept
    \<and> check (s\<lparr>lp := Burned\<rparr>) demo_rules [] 1600000000000000010 = Accept
    \<and> inputs_read demo_rules demo_observation"
proof -
  let ?s = "snapshot_fields exact_conversions dec96 demo_observation"
  have ok: "to_snapshot exact_conversions dec96 demo_observation = Ok ?s"
    by (simp add: to_snapshot_def demo_observation_def)
  have "check (?s\<lparr>lp := Burned\<rparr>) demo_rules [] 1600000000000000010 = Accept"
    using demo_share demo_impact
    by (simp add: check_def first_failure_def snapshot_fields_def demo_rules_def Let_def
        demo_observation_def or_zero_def SOLANA_GENESIS_MS_def exact_conversions_def)
  moreover have "max_top_holders_share demo_rules < 1" "0 < min_pool_age demo_rules"
    by (simp_all add: demo_rules_def)
  ultimately show ?thesis
    using ok unknown_data_is_never_accepted [OF ok, of demo_rules "[]" 1600000000000000010 Burned]
    by blast
qed

definition demo_parse :: "string \<Rightarrow> url option" where
  "demo_parse u =
     (let host = (if u = ''h'' then ''mainnet.helius-rpc.com'' else ''api.mainnet-beta.solana.com'')
      in Some \<lparr>scheme = ''https'', username = [], password = None, fragment = None, port = None,
               host_str = Some host\<rparr>)"

definition demo_bytes :: "byte list" where
  "demo_bytes = replicate 36 0 @ replicate 8 0 @ [6, 1] @ replicate 36 0 @ []"

definition demo_account :: mint_account where
  "demo_account = \<lparr>ma_program = Spl, ma_supply = 0, decimals = 6, mint_authority = None,
     freeze_authority = None, ma_extensions = []\<rparr>"

definition demo_fetch :: "account_value option rpc_fetch" where
  "demo_fetch u meth param h = (Ok \<lparr>jsonrpc = ''2.0'', reply_id = IntId 1,
     reply_result = Some (Some \<lparr>av_data = (''x'', ''base64''), av_owner = SPL_TOKEN_PROGRAM\<rparr>),
     reply_error = None\<rparr>, h)"

definition demo_address :: string where "demo_address = replicate 32 CHR ''1''"

lemma from_le_bytes_zero: "from_le_bytes (replicate n 0) = 0"
  by (induction n) auto

lemma demo_parse_mint: "parse_mint Spl demo_bytes = Ok demo_account"
proof -
  have none: "coption_pubkey (replicate 36 0) = Ok None"
    by (simp add: coption_pubkey_36 from_le_bytes_zero)
  have "parse_mint Spl demo_bytes =
    bind_res (mint_extensions Spl demo_bytes None) (\<lambda>exts.
          Ok \<lparr>ma_program = Spl, ma_supply = 0, decimals = 6, mint_authority = None,
              freeze_authority = None, ma_extensions = exts\<rparr>)"
    unfolding demo_bytes_def
    by (subst parse_mint_split) (simp_all add: none from_le_bytes_zero del: append_Nil2)
  also have "mint_extensions Spl demo_bytes None = Ok []"
    by (simp add: mint_extensions_def demo_bytes_def MINT_LEN_def)
  finally show ?thesis by (simp add: demo_account_def)
qed

lemma demo_rpc_mint: "rpc_mint demo_parse (\<lambda>_. Some demo_bytes) demo_fetch now c demo_address = (Ok demo_account, c)"
proof -
  have "validate_address demo_address = Ok ()"
    by (simp add: validate_address_def demo_address_def list_all_iff BASE58_def)
  moreover have "demo_parse u \<noteq> None" for u by (simp add: demo_parse_def Let_def)
  ultimately show ?thesis
    by (auto simp: rpc_mint_def rpc_call_def demo_fetch_def Let_def decode_account_def
        from_owner_def demo_parse_mint split: option.split)
qed

theorem mint_read_agrees_on_two_providers_witness:
  "\<exists>e0 e1 x v x'. rpc_endpoint_new demo_parse ''h'' = Ok e0 \<and> rpc_endpoint_new demo_parse ''s'' = Ok e1
    \<and> cross_checked_rpc_new e0 e1 0 = Ok x
    \<and> cross_mint demo_parse (\<lambda>_. Some demo_bytes) demo_fetch demo_fetch 1 2 x demo_address = (Ok v, x')
    \<and> cc_value v = demo_account \<and> ep_host e0 \<noteq> ep_host e1
    \<and> serves demo_parse (\<lambda>_. Some demo_bytes) demo_fetch (secondary x) demo_address demo_account"
proof -
  let ?e0 = "\<lparr>ep_url = ''h'', ep_host = ''mainnet.helius-rpc.com''\<rparr>"
  let ?e1 = "\<lparr>ep_url = ''s'', ep_host = ''api.mainnet-beta.solana.com''\<rparr>"
  let ?x = "\<lparr>primary = rpc_client_new 0 ?e0 0, secondary = rpc_client_new 1 ?e1 0\<rparr>"
  let ?v = "\<lparr>cc_mint = demo_address, cc_value = demo_account\<rparr>"
  have e: "rpc_endpoint_new demo_parse ''h'' = Ok ?e0" "rpc_endpoint_new demo_parse ''s'' = Ok ?e1"
    by (simp_all add: rpc_endpoint_new_def checked_url_def demo_parse_def ALLOWED_HOSTS_def)
  have x: "cross_checked_rpc_new ?e0 ?e1 0 = Ok ?x" by (simp add: cross_checked_rpc_new_def)
  have m: "cross_mint demo_parse (\<lambda>_. Some demo_bytes) demo_fetch demo_fetch 1 2 ?x demo_address = (Ok ?v, ?x)"
    by (simp add: cross_mint_def demo_rpc_mint agree_def)
  have v: "cc_value ?v = demo_account" by simp
  show ?thesis using e x m v mint_read_agrees_on_two_providers [OF e x m] by metis
qed

end
