(* ===== verification/Paper_Profile.thy ===== *)
theory Paper_Profile
  imports Strategy Market_Http
begin

text \<open>
  \<^verbatim>\<open>src/jarvis-api/src/memecoin/profile.rs\<close>: the root-owned profile of the paper trader. The
  JSON decoder and encoder are parameters, and so is what the file system answers; the checks on
  the decoded file and on the file's owner, mode and size are the source's.
\<close>

section \<open>The file\<close>

definition PROFILE_MAX_BYTES :: nat where "PROFILE_MAX_BYTES = 64 * 1024"
definition MAX_WATCHLIST :: nat where "MAX_WATCHLIST = 20"
definition MAX_OPEN_POSITIONS :: nat where "MAX_OPEN_POSITIONS = 10"
definition MAX_SECS :: nat where "MAX_SECS = 30 * 24 * 60 * 60"

datatype profile_extension =
  PeMetadataPointer | PeTokenMetadata | PeTransferFeeConfig | PeTransferHook | PePermanentDelegate
| PeDefaultAccountState | PePausable | PeMintCloseAuthority | PeNonTransferable
| PeConfidentialTransfer | PeInterestBearing

fun extension_kind_of :: "profile_extension \<Rightarrow> extension_kind" where
  "extension_kind_of PeMetadataPointer = MetadataPointer"
| "extension_kind_of PeTokenMetadata = TokenMetadata"
| "extension_kind_of PeTransferFeeConfig = TransferFeeConfig"
| "extension_kind_of PeTransferHook = TransferHook"
| "extension_kind_of PePermanentDelegate = PermanentDelegate"
| "extension_kind_of PeDefaultAccountState = DefaultAccountState"
| "extension_kind_of PePausable = Pausable"
| "extension_kind_of PeMintCloseAuthority = MintCloseAuthority"
| "extension_kind_of PeNonTransferable = NonTransferable"
| "extension_kind_of PeConfidentialTransfer = ConfidentialTransfer"
| "extension_kind_of PeInterestBearing = InterestBearing"

record filter_file =
  ff_min_liquidity_usd :: rat
  ff_min_pool_age_secs :: nat
  ff_max_top_holders_share :: rat
  ff_max_sell_impact_bps :: nat
  ff_allowed_extensions :: "profile_extension list"
  ff_max_snapshot_age_secs :: nat
  ff_min_lp_lock_remaining_secs :: nat

record strategy_file =
  sf_version :: nat
  sf_min_buy_ratio_bps :: nat
  sf_min_momentum_bps :: int
  sf_max_momentum_bps :: int
  sf_position_share_bps :: nat
  sf_max_liquidity_share_bps :: nat
  sf_take_profit_bps :: nat
  sf_stop_loss_bps :: nat
  sf_liquidity_drop_exit_bps :: nat
  sf_max_hold_secs :: nat
  sf_entry_slippage_bps :: nat
  sf_exit_slippage_bps :: nat
  sf_intent_ttl_secs :: nat

record cost_file =
  cf_dex_fee_bps :: nat
  cf_network_fee_usd :: rat
  cf_priority_fee_usd :: rat
  cf_failure_rate :: rat

record profile_file =
  pf_watchlist :: "string list"
  pf_goal_multiple :: rat
  pf_stake_usd :: rat
  pf_max_position_usd :: rat
  pf_max_open_positions :: nat
  pf_filter :: filter_file
  pf_strategy :: strategy_file
  pf_costs :: cost_file

text \<open>What decides results, in the order it is recorded.\<close>

record versioned =
  vs_stake_usd :: rat
  vs_max_position_usd :: rat
  vs_max_open_positions :: nat
  vs_filter :: filter_file
  vs_strategy :: strategy_file
  vs_costs :: cost_file

record paper_profile =
  watchlist :: "string list"
  goal_multiple :: rat
  stake_usd :: rat
  max_position_usd :: rat
  max_open_positions :: nat
  rules :: filter_rules
  strategy :: strategy_params
  costs :: cost_model
  versioned_params :: string

section \<open>Parsing\<close>

definition seconds :: "nat \<Rightarrow> string \<Rightarrow> (string, int) res" where
  "seconds v field =
     (if v > MAX_SECS then Err (field @ '' is above 30 days'') else Ok (int v * nanos))"

definition is_ascii_alphanumeric :: "char \<Rightarrow> bool" where
  "is_ascii_alphanumeric c \<longleftrightarrow> is_ascii_lowercase c \<or> is_ascii_uppercase c \<or> is_ascii_digit c"

definition is_mint :: "string \<Rightarrow> bool" where
  "is_mint v \<longleftrightarrow> 32 \<le> length v \<and> length v \<le> 44
     \<and> list_all (\<lambda>b. is_ascii_alphanumeric b \<and> b \<notin> set ''0OIl'') v"

definition profile_rules :: "filter_file \<Rightarrow> (string, filter_rules) res" where
  "profile_rules f =
     (if ff_min_liquidity_usd f < 0 \<or> ff_max_top_holders_share f < 0 \<or> ff_max_top_holders_share f > 1
         \<or> ff_max_sell_impact_bps f > 10000 \<or> ff_max_snapshot_age_secs f = 0
      then Err ''filter rules are out of range''
      else bind_res (seconds (ff_min_pool_age_secs f) ''min_pool_age_secs'') (\<lambda>age.
           bind_res (seconds (ff_max_snapshot_age_secs f) ''max_snapshot_age_secs'') (\<lambda>snap.
           bind_res (seconds (ff_min_lp_lock_remaining_secs f) ''min_lp_lock_remaining_secs'') (\<lambda>lock.
           Ok \<lparr>min_liquidity_usd = ff_min_liquidity_usd f, min_pool_age = age,
               max_top_holders_share = ff_max_top_holders_share f,
               max_sell_impact_bps = ff_max_sell_impact_bps f,
               allowed_extensions = map extension_kind_of (ff_allowed_extensions f),
               max_snapshot_age = snap, min_lp_lock_remaining = lock\<rparr>))))"

definition profile_strategy :: "strategy_file \<Rightarrow> (string, strategy_params) res" where
  "profile_strategy s =
     bind_res (seconds (sf_max_hold_secs s) ''max_hold_secs'') (\<lambda>hold.
     bind_res (seconds (sf_intent_ttl_secs s) ''intent_ttl_secs'') (\<lambda>ttl.
     let p = \<lparr>version = sf_version s, min_buy_ratio_bps = sf_min_buy_ratio_bps s,
              min_momentum_bps = sf_min_momentum_bps s, max_momentum_bps = sf_max_momentum_bps s,
              position_share_bps = sf_position_share_bps s,
              max_liquidity_share_bps = sf_max_liquidity_share_bps s,
              take_profit_bps = sf_take_profit_bps s, stop_loss_bps = sf_stop_loss_bps s,
              liquidity_drop_exit_bps = sf_liquidity_drop_exit_bps s, max_hold = hold,
              entry_slippage_bps = sf_entry_slippage_bps s,
              exit_slippage_bps = sf_exit_slippage_bps s, intent_ttl = ttl\<rparr>
     in case validate p of
          Ok _ \<Rightarrow> Ok p
        | Err (OutOfBounds field) \<Rightarrow> 
            Err (''strategy parameters: strategy parameter `'' @ field @ ''` is outside its bounds'')
        | Panic \<Rightarrow> Panic))"

definition profile_costs :: "cost_file \<Rightarrow> (string, cost_model) res" where
  "profile_costs c =
     (let m = \<lparr>dex_fee_bps = cf_dex_fee_bps c, network_fee_usd = cf_network_fee_usd c,
              priority_fee_usd = cf_priority_fee_usd c, failure_rate = cf_failure_rate c\<rparr>
      in if \<not> is_valid m \<or> failure_rate m \<ge> 1 then Err ''cost model is out of range'' else Ok m)"

definition profile_of_file ::
  "decimal \<Rightarrow> (versioned \<Rightarrow> string + string) \<Rightarrow> profile_file \<Rightarrow> (string, paper_profile) res" where
  "profile_of_file D encode v =
     (if pf_watchlist v = [] \<or> length (pf_watchlist v) > MAX_WATCHLIST
      then Err (''watchlist must hold 1 to '' @ show_nat MAX_WATCHLIST @ '' mints'')
      else if \<not> list_all is_mint (pf_watchlist v)
              \<or> length (remdups (pf_watchlist v)) \<noteq> length (pf_watchlist v)
      then Err ''watchlist must hold distinct base58 mints''
      else if \<not> (1 \<le> pf_max_open_positions v \<and> pf_max_open_positions v \<le> MAX_OPEN_POSITIONS)
      then Err (''max_open_positions must be 1 to '' @ show_nat MAX_OPEN_POSITIONS)
      else if pf_stake_usd v \<le> 0 \<or> pf_max_position_usd v \<le> 0
              \<or> (case checked_mul D (pf_max_position_usd v) (of_nat (pf_max_open_positions v)) of
                   None \<Rightarrow> True | Some committed \<Rightarrow> committed > pf_stake_usd v)
      then Err ''stake_usd must cover max_position_usd x max_open_positions''
      else if pf_goal_multiple v \<le> 1 then Err ''goal_multiple must be above 1''
      else bind_res (profile_rules (pf_filter v)) (\<lambda>r.
           bind_res (profile_strategy (pf_strategy v)) (\<lambda>s.
           bind_res (profile_costs (pf_costs v)) (\<lambda>c.
           case encode \<lparr>vs_stake_usd = pf_stake_usd v, vs_max_position_usd = pf_max_position_usd v,
                  vs_max_open_positions = pf_max_open_positions v, vs_filter = pf_filter v,
                  vs_strategy = pf_strategy v, vs_costs = pf_costs v\<rparr> of
             Inl e \<Rightarrow> Err (''paper profile cannot be recorded: '' @ e)
           | Inr params \<Rightarrow>
               Ok \<lparr>watchlist = pf_watchlist v, goal_multiple = pf_goal_multiple v,
                   stake_usd = pf_stake_usd v, max_position_usd = pf_max_position_usd v,
                   max_open_positions = pf_max_open_positions v, rules = r, strategy = s, costs = c,
                   versioned_params = params\<rparr>))))"

definition profile_parse ::
  "decimal \<Rightarrow> (string \<Rightarrow> string + profile_file) \<Rightarrow> (versioned \<Rightarrow> string + string) \<Rightarrow> string \<Rightarrow>
   (string, paper_profile) res" where
  "profile_parse D decode encode json = (case decode json of
     Inl e \<Rightarrow> Err (''invalid paper profile: '' @ e)
   | Inr file \<Rightarrow> profile_of_file D encode file)"

section \<open>Loading\<close>

text \<open>
  The open file (opened without following a link, so the file checked is the file read): its
  metadata, the group of its directory when that can be read, and its content as text.
\<close>

record profile_handle =
  ph_uid :: nat
  ph_gid :: nat
  ph_mode :: nat
  ph_is_file :: bool
  ph_len :: nat
  ph_parent_gid :: "nat option"
  ph_text :: "string + string"

definition profile_load ::
  "decimal \<Rightarrow> (string \<Rightarrow> string + profile_file) \<Rightarrow> (versioned \<Rightarrow> string + string) \<Rightarrow>
   string + profile_handle \<Rightarrow> bool \<Rightarrow> (string, paper_profile) res" where
  "profile_load D decode encode opened enforce = (case opened of
     Inl e \<Rightarrow> Err (''paper profile unavailable: '' @ e)
   | Inr f \<Rightarrow>
       bind_res (if enforce then
           (case ph_parent_gid f of
              None \<Rightarrow> Err ''paper profile has no trusted parent''
            | Some g \<Rightarrow>
                if ph_uid f \<noteq> 0 \<or> ph_gid f \<noteq> g \<or> ph_mode f mod 512 \<noteq> 416
                then Err ''paper profile permissions are unsafe'' else Ok ())
         else Ok ()) (\<lambda>_.
       if \<not> ph_is_file f \<or> ph_len f > PROFILE_MAX_BYTES
       then Err ''paper profile must be a regular file of at most 64 KiB''
       else case ph_text f of
         Inl e \<Rightarrow> Err (''paper profile unreadable: '' @ e)
       | Inr json \<Rightarrow> profile_parse D decode encode json))"

section \<open>What a loaded profile satisfies\<close>

definition profile_valid :: "decimal \<Rightarrow> paper_profile \<Rightarrow> bool" where
  "profile_valid D p \<longleftrightarrow>
     1 \<le> length (watchlist p) \<and> length (watchlist p) \<le> 20 \<and> distinct (watchlist p)
   \<and> (\<forall>m \<in> set (watchlist p). validate_address m = Ok ())
   \<and> 1 \<le> max_open_positions p \<and> max_open_positions p \<le> 10
   \<and> 0 < stake_usd p \<and> 0 < max_position_usd p
   \<and> (\<exists>c. checked_mul D (max_position_usd p) (of_nat (max_open_positions p)) = Some c \<and> c \<le> stake_usd p)
   \<and> 1 < goal_multiple p
   \<and> 0 \<le> min_liquidity_usd (rules p) \<and> 0 \<le> max_top_holders_share (rules p)
   \<and> max_top_holders_share (rules p) \<le> 1 \<and> max_sell_impact_bps (rules p) \<le> 10000
   \<and> 0 < max_snapshot_age (rules p) \<and> max_snapshot_age (rules p) \<le> 30 * 86400 * nanos
   \<and> 0 \<le> min_pool_age (rules p) \<and> 0 \<le> min_lp_lock_remaining (rules p)
   \<and> (\<forall>c. Unknown c \<notin> set (allowed_extensions (rules p)))
   \<and> validate (strategy p) = Ok () \<and> is_valid (costs p) \<and> failure_rate (costs p) < 1"

section \<open>Lemmas\<close>

lemma base58_char: "is_ascii_alphanumeric b \<and> b \<notin> set ''0OIl'' \<longleftrightarrow> b \<in> set BASE58"
proof -
  have "\<forall>b :: char. (is_ascii_alphanumeric b \<and> b \<notin> set ''0OIl'') = (b \<in> set BASE58)"
    unfolding is_ascii_alphanumeric_def is_ascii_lowercase_def is_ascii_uppercase_def
      is_ascii_digit_def byte_def BASE58_def
    by code_simp
  then show ?thesis by blast
qed

lemma is_mint_address: "is_mint m \<longleftrightarrow> validate_address m = Ok ()"
  unfolding is_mint_def validate_address_def base58_char by simp


lemma seconds_Ok: "seconds v f = Ok d \<Longrightarrow> 0 \<le> d \<and> d \<le> 30 * 86400 * nanos \<and> d = int v * nanos"
  by (auto simp: seconds_def MAX_SECS_def nanos_def split: if_splits)

lemma extension_kind_known: "extension_kind_of e \<noteq> Unknown c"
  by (cases e) simp_all

lemma profile_rules_Ok:
  assumes "profile_rules f = Ok r"
  shows "0 \<le> min_liquidity_usd r" and "0 \<le> max_top_holders_share r" and "max_top_holders_share r \<le> 1"
    and "max_sell_impact_bps r \<le> 10000" and "0 < max_snapshot_age r"
    and "max_snapshot_age r \<le> 30 * 86400 * nanos" and "0 \<le> min_pool_age r"
    and "0 \<le> min_lp_lock_remaining r" and "Unknown c \<notin> set (allowed_extensions r)"
proof -
  from assms obtain age snap lock where g: "0 \<le> ff_min_liquidity_usd f" "0 \<le> ff_max_top_holders_share f"
    "ff_max_top_holders_share f \<le> 1" "ff_max_sell_impact_bps f \<le> 10000" "0 < ff_max_snapshot_age_secs f"
    and d: "seconds (ff_min_pool_age_secs f) ''min_pool_age_secs'' = Ok age"
      "seconds (ff_max_snapshot_age_secs f) ''max_snapshot_age_secs'' = Ok snap"
      "seconds (ff_min_lp_lock_remaining_secs f) ''min_lp_lock_remaining_secs'' = Ok lock"
    and r: "r = \<lparr>min_liquidity_usd = ff_min_liquidity_usd f, min_pool_age = age,
               max_top_holders_share = ff_max_top_holders_share f,
               max_sell_impact_bps = ff_max_sell_impact_bps f,
               allowed_extensions = map extension_kind_of (ff_allowed_extensions f),
               max_snapshot_age = snap, min_lp_lock_remaining = lock\<rparr>"
    unfolding profile_rules_def by (auto simp: res_simps not_less split: if_splits)
  from seconds_Ok [OF d(1)] seconds_Ok [OF d(2)] seconds_Ok [OF d(3)] g r
  show "0 \<le> min_liquidity_usd r" and "0 \<le> max_top_holders_share r" and "max_top_holders_share r \<le> 1"
    and "max_sell_impact_bps r \<le> 10000" and "0 < max_snapshot_age r"
    and "max_snapshot_age r \<le> 30 * 86400 * nanos" and "0 \<le> min_pool_age r"
    and "0 \<le> min_lp_lock_remaining r"
    by (simp_all add: nanos_def)
  show "Unknown c \<notin> set (allowed_extensions r)"
    using r extension_kind_known by (auto simp: in_image_iff)
qed

lemma validate_no_panic: "validate p \<noteq> Panic"
  by (simp add: validate_def within_bounds_def res_simps)

lemma validated: "(case validate p of Ok _ \<Rightarrow> Ok p | Err (OutOfBounds f) \<Rightarrow> Err (g f) | Panic \<Rightarrow> Panic) = Ok s \<Longrightarrow>
    validate s = Ok ()"
  by (cases "validate p") (auto split: out_of_bounds.splits)

lemma profile_strategy_Ok: "profile_strategy f = Ok s \<Longrightarrow> validate s = Ok ()"
  unfolding profile_strategy_def Let_def bind_res_Ok_iff by (elim exE conjE) (rule validated)

lemma profile_costs_Ok: "profile_costs f = Ok c \<Longrightarrow> is_valid c \<and> failure_rate c < 1"
  by (auto simp: profile_costs_def Let_def split: if_splits)

lemma sum_case_Ok: "(case x of Inl e \<Rightarrow> Err (g e) | Inr q \<Rightarrow> Ok (f q)) = Ok p \<longleftrightarrow> (\<exists>q. x = Inr q \<and> p = f q)"
  by (cases x) auto

lemma profile_of_file_valid:
  assumes "profile_of_file D encode v = Ok p"
  shows "profile_valid D p"
proof -
  from assms obtain r s c e where w: "pf_watchlist v \<noteq> []" "length (pf_watchlist v) \<le> 20"
      "list_all is_mint (pf_watchlist v)" "length (remdups (pf_watchlist v)) = length (pf_watchlist v)"
    and m: "1 \<le> pf_max_open_positions v" "pf_max_open_positions v \<le> 10"
    and st: "0 < pf_stake_usd v" "0 < pf_max_position_usd v"
      "\<exists>x. checked_mul D (pf_max_position_usd v) (of_nat (pf_max_open_positions v)) = Some x \<and> x \<le> pf_stake_usd v"
    and g: "1 < pf_goal_multiple v"
    and rsc: "profile_rules (pf_filter v) = Ok r" "profile_strategy (pf_strategy v) = Ok s"
      "profile_costs (pf_costs v) = Ok c"
    and p: "p = \<lparr>watchlist = pf_watchlist v, goal_multiple = pf_goal_multiple v,
                   stake_usd = pf_stake_usd v, max_position_usd = pf_max_position_usd v,
                   max_open_positions = pf_max_open_positions v, rules = r, strategy = s, costs = c,
                   versioned_params = e\<rparr>"
    unfolding profile_of_file_def MAX_WATCHLIST_def MAX_OPEN_POSITIONS_def
    by (auto simp: res_simps sum_case_Ok not_le not_less split: if_splits option.splits)
  have "distinct (pf_watchlist v)" using w(4) by (simp add: length_remdups_eq)
  moreover have "1 \<le> length (pf_watchlist v)" using w(1) by (simp add: Suc_le_eq)
  ultimately show ?thesis
    using w m st g profile_rules_Ok [OF rsc(1)] profile_strategy_Ok [OF rsc(2)] profile_costs_Ok [OF rsc(3)]
    unfolding profile_valid_def p by (simp add: list_all_iff is_mint_address)
qed


text \<open>
  A profile that loads is well formed: whatever the file holds, the trader runs only with 1 to 20
  distinct mints that the market-data client accepts as addresses, at most 10 positions whose
  total fits the stake, strategy parameters inside their fixed bounds, filter thresholds in
  range with no unknown extension allowed, and a valid cost model that does not make every exit
  fail. In production the file is also a regular file of at most 64 KiB owned by root with mode
  0640 and the group of its directory.\<close>

theorem loaded_profile_is_well_formed:
  assumes "profile_load D decode encode opened enforce = Ok p"
  shows "profile_valid D p
    \<and> (\<exists>f. opened = Inr f \<and> ph_is_file f \<and> ph_len f \<le> 65536
         \<and> (enforce \<longrightarrow> ph_uid f = 0 \<and> ph_parent_gid f = Some (ph_gid f) \<and> ph_mode f mod 512 = 416))"
proof -
  from assms obtain f where f: "opened = Inr f" by (auto simp: profile_load_def split: sum.splits)
  obtain json where j: "ph_text f = Inr json"
    using assms f by (cases "ph_text f") (auto simp: profile_load_def res_simps split: if_splits)
  have c: "ph_is_file f \<and> ph_len f \<le> PROFILE_MAX_BYTES" "profile_parse D decode encode json = Ok p"
    using assms f j by (auto simp: profile_load_def res_simps split: if_splits)
  have "enforce \<longrightarrow> ph_uid f = 0 \<and> ph_parent_gid f = Some (ph_gid f) \<and> ph_mode f mod 512 = 416"
    using assms f by (cases "ph_parent_gid f") (auto simp: profile_load_def res_simps split: if_splits)
  moreover have "profile_valid D p"
    using c(2) profile_of_file_valid by (auto simp: profile_parse_def split: sum.splits)
  ultimately show ?thesis using f c(1) by (auto simp: PROFILE_MAX_BYTES_def)
qed

section \<open>A concrete profile\<close>

definition demo_profile_file :: profile_file where
  "demo_profile_file = \<lparr>pf_watchlist = [replicate 32 CHR ''1'', replicate 32 CHR ''2''],
     pf_goal_multiple = 3, pf_stake_usd = 1000, pf_max_position_usd = 100, pf_max_open_positions = 5,
     pf_filter = \<lparr>ff_min_liquidity_usd = 50000, ff_min_pool_age_secs = 3600,
       ff_max_top_holders_share = 30 / 100, ff_max_sell_impact_bps = 200,
       ff_allowed_extensions = [PeMetadataPointer], ff_max_snapshot_age_secs = 30,
       ff_min_lp_lock_remaining_secs = 86400\<rparr>,
     pf_strategy = \<lparr>sf_version = 1, sf_min_buy_ratio_bps = 6000, sf_min_momentum_bps = 100,
       sf_max_momentum_bps = 5000, sf_position_share_bps = 5000, sf_max_liquidity_share_bps = 100,
       sf_take_profit_bps = 3000, sf_stop_loss_bps = 2000, sf_liquidity_drop_exit_bps = 3000,
       sf_max_hold_secs = 3600, sf_entry_slippage_bps = 100, sf_exit_slippage_bps = 500,
       sf_intent_ttl_secs = 30\<rparr>,
     pf_costs = \<lparr>cf_dex_fee_bps = 30, cf_network_fee_usd = 1 / 100, cf_priority_fee_usd = 2 / 100,
       cf_failure_rate = 5 / 100\<rparr>\<rparr>"

definition demo_handle :: profile_handle where
  "demo_handle = \<lparr>ph_uid = 0, ph_gid = 7, ph_mode = 416, ph_is_file = True, ph_len = 2000,
     ph_parent_gid = Some 7, ph_text = Inr []\<rparr>"

lemma demo_profile_rules: "\<exists>r. profile_rules (pf_filter demo_profile_file) = Ok r"
  by (simp add: profile_rules_def seconds_def MAX_SECS_def demo_profile_file_def)

lemma demo_profile_strategy: "\<exists>s. profile_strategy (pf_strategy demo_profile_file) = Ok s"
  by (simp add: profile_strategy_def seconds_def MAX_SECS_def demo_profile_file_def validate_def
      within_bounds_def bounds_defs u32_max_def)

lemma demo_profile_costs: "\<exists>c. profile_costs (pf_costs demo_profile_file) = Ok c"
  by (simp add: profile_costs_def is_valid_def demo_profile_file_def)

theorem loaded_profile_is_well_formed_witness:
  "\<exists>p. profile_load dec96 (\<lambda>_. Inr demo_profile_file) (\<lambda>_. Inr ''{}'') (Inr demo_handle) True = Ok p
    \<and> profile_valid dec96 p"
proof -
  have mints: "list_all is_mint (pf_watchlist demo_profile_file)" "distinct (pf_watchlist demo_profile_file)"
    by (simp_all add: demo_profile_file_def is_mint_def is_ascii_alphanumeric_def is_ascii_digit_def byte_def
        list_all_iff)
  have mul: "checked_mul dec96 (pf_max_position_usd demo_profile_file)
      (of_nat (pf_max_open_positions demo_profile_file)) = Some 500"
    by (simp add: demo_profile_file_def dec96_def dec96_lim_def dec96_repr_def dec_max_def)
  obtain r s c where "profile_rules (pf_filter demo_profile_file) = Ok r"
    "profile_strategy (pf_strategy demo_profile_file) = Ok s" "profile_costs (pf_costs demo_profile_file) = Ok c"
    using demo_profile_rules demo_profile_strategy demo_profile_costs by blast
  moreover have "pf_watchlist demo_profile_file \<noteq> []" "length (pf_watchlist demo_profile_file) = 2"
    "pf_max_open_positions demo_profile_file = 5" "pf_stake_usd demo_profile_file = 1000"
    "pf_max_position_usd demo_profile_file = 100" "pf_goal_multiple demo_profile_file = 3"
    by (simp_all add: demo_profile_file_def)
  ultimately obtain p where "profile_of_file dec96 (\<lambda>_. Inr ''{}'') demo_profile_file = Ok p"
    using mints mul by (simp add: profile_of_file_def MAX_WATCHLIST_def MAX_OPEN_POSITIONS_def distinct_remdups_id)
  then have "profile_load dec96 (\<lambda>_. Inr demo_profile_file) (\<lambda>_. Inr ''{}'') (Inr demo_handle) True = Ok p"
    by (simp add: profile_load_def profile_parse_def demo_handle_def PROFILE_MAX_BYTES_def)
  then show ?thesis using loaded_profile_is_well_formed by blast
qed

end
