(* ===== verification/Paper_Store.thy ===== *)
theory Paper_Store
  imports Paper_Profile Gate
begin

text \<open>
  \<^verbatim>\<open>src/jarvis-api/src/memecoin/store.rs\<close> with its schema \<^verbatim>\<open>src/schema/surreal/0014_memecoin_paper.surql\<close>:
  the tables of the paper trader as state, each query as the change it makes. A statement that
  breaks an \<open>ASSERT\<close> or a \<open>UNIQUE\<close> index of the schema is a database error and changes nothing.
  Decimals are stored as their exact text, so a row holds the value; a decimal has at most 28
  places, so of the schema's patterns only the sign and the number of integer digits bind.
  A call of the trader may fail, or run into its timeout after the statement has taken effect:
  \<open>db_fault\<close>.
\<close>

section \<open>Rows\<close>

definition RETENTION_DAYS :: nat where "RETENTION_DAYS = 30"
definition PRUNE_BATCH :: nat where "PRUNE_BATCH = 5000"
definition PRUNE_MAX_BATCHES :: nat where "PRUNE_MAX_BATCHES = 20"
definition MAX_LEDGER_ROWS :: nat where "MAX_LEDGER_ROWS = 100000"
definition MAX_LIST :: nat where "MAX_LIST = 100"

datatype store_error = DatabaseError | StoreInvalid | VersionConflict | LedgerTooLarge

record candidate =
  ca_id :: string
  ca_mint :: string
  ca_observed_at :: int
  ca_version :: nat
  ca_reason :: "string option"
  ca_price_usd :: "rat option"
  ca_liquidity_usd :: "rat option"

record trip_close =
  closed_at :: int
  tc_usd_out :: rat
  tc_exit_fees_usd :: rat
  tc_net_pnl_usd :: rat
  tc_exit_reason :: string

record trip =
  tr_id :: string
  tr_mint :: string
  tr_version :: nat
  tr_tokens :: rat
  tr_cost_usd :: rat
  tr_entry_liquidity_usd :: rat
  tr_opened_at :: int
  tr_exit_failures :: nat
  tr_stuck :: bool
  tr_close :: "trip_close option"

datatype cost_kind = KindFailedTx | KindAiCost

fun cost_kind_str :: "cost_kind \<Rightarrow> string" where
  "cost_kind_str KindFailedTx = ''failed_tx''"
| "cost_kind_str KindAiCost = ''ai_cost''"

record cost =
  co_kind :: cost_kind
  co_usd :: rat
  co_at :: int
  co_version :: nat

record gate_snapshot =
  gs_id :: string
  gs_at :: int
  gs_version :: nat
  gs_closed_trades :: nat
  gs_duration_secs :: nat
  gs_trading_days :: nat
  gs_net_result_usd :: rat
  gs_net_expectancy_usd :: rat

record control =
  pc_paused :: bool
  pc_paused_at :: "int option"
  pc_paused_by :: "string option"

definition control_default :: control where
  "control_default = \<lparr>pc_paused = False, pc_paused_at = None, pc_paused_by = None\<rparr>"

definition CANDIDATE_REASONS :: "string list" where
  "CANDIDATE_REASONS = [''data_unavailable'', ''stale_snapshot'', ''invalid_snapshot'', ''denied'',
     ''mint_authority_active'', ''freeze_authority_active'', ''unknown_extension'',
     ''extension_not_allowed'', ''extension_authority_active'', ''lp_not_secured'',
     ''lp_unlocks_too_soon'', ''liquidity_too_low'', ''pool_too_young'',
     ''holder_concentration_too_high'', ''no_sell_route'', ''sell_impact_too_high'']"

definition EXIT_REASONS :: "string list" where
  "EXIT_REASONS = [''liquidity_drop'', ''stop_loss'', ''take_profit'', ''time_stop'']"

text \<open>A row of \<open>memecoin_paper_trips\<close>.\<close>

record trip_row =
  rw_id :: string
  rw_slot :: string
  rw_mint :: string
  rw_version :: nat
  rw_status :: string
  rw_tokens :: rat
  rw_cost_usd :: rat
  rw_entry_liquidity_usd :: rat
  rw_exit_failures :: nat
  rw_opened_at :: int
  rw_closed_at :: "int option"
  rw_usd_out :: "rat option"
  rw_exit_fees_usd :: "rat option"
  rw_net_pnl_usd :: "rat option"
  rw_exit_reason :: "string option"

definition known :: "string \<Rightarrow> string list \<Rightarrow> store_error + string" where
  "known v s = (case find (\<lambda>k. k = v) s of Some k \<Rightarrow> Inr k | None \<Rightarrow> Inl StoreInvalid)"

definition row_close :: "trip_row \<Rightarrow> store_error + trip_close option" where
  "row_close r =
     (case (rw_closed_at r, rw_usd_out r, rw_exit_fees_usd r, rw_net_pnl_usd r, rw_exit_reason r) of
        (None, None, None, None, None) \<Rightarrow> Inr None
      | (Some t, Some u, Some f, Some n, Some e) \<Rightarrow>
          (case known e EXIT_REASONS of
             Inl x \<Rightarrow> Inl x
           | Inr k \<Rightarrow> Inr (Some \<lparr>closed_at = t, tc_usd_out = u, tc_exit_fees_usd = f,
                               tc_net_pnl_usd = n, tc_exit_reason = k\<rparr>))
      | _ \<Rightarrow> Inl StoreInvalid)"

definition trip_of_row :: "trip_row \<Rightarrow> store_error + trip" where
  "trip_of_row r = (case row_close r of
     Inl e \<Rightarrow> Inl e
   | Inr cl \<Rightarrow>
       (case (if rw_status r = ''stuck'' \<and> cl = None then Inr True
              else if rw_status r = ''open'' \<and> cl = None \<or> rw_status r = ''closed'' \<and> cl \<noteq> None
              then Inr False else Inl StoreInvalid) of
          Inl e \<Rightarrow> Inl e
        | Inr st \<Rightarrow> Inr \<lparr>tr_id = rw_id r, tr_mint = rw_mint r, tr_version = rw_version r,
            tr_tokens = rw_tokens r, tr_cost_usd = rw_cost_usd r,
            tr_entry_liquidity_usd = rw_entry_liquidity_usd r, tr_opened_at = rw_opened_at r,
            tr_exit_failures = rw_exit_failures r, tr_stuck = st, tr_close = cl\<rparr>))"

fun trips_of_rows :: "trip_row list \<Rightarrow> store_error + trip list" where
  "trips_of_rows [] = Inr []"
| "trips_of_rows (r # rs) = (case trip_of_row r of
     Inl e \<Rightarrow> Inl e
   | Inr t \<Rightarrow> (case trips_of_rows rs of Inl e \<Rightarrow> Inl e | Inr ts \<Rightarrow> Inr (t # ts)))"

section \<open>Tables\<close>

text \<open>Costs are keyed by strategy version, kind and UTC day.\<close>

record paper_db =
  db_candidates :: "candidate list"
  db_versions :: "(nat \<times> string) list"
  db_trips :: "trip_row list"
  db_costs :: "((nat \<times> cost_kind \<times> int) \<times> cost) list"
  db_gate :: "gate_snapshot list"
  db_control :: "control option"

definition digits_ok :: "nat \<Rightarrow> rat \<Rightarrow> bool" where
  "digits_ok n x \<longleftrightarrow> 0 \<le> x \<and> x < 10 ^ n"

definition signed_ok :: "rat \<Rightarrow> bool" where
  "signed_ok x \<longleftrightarrow> \<bar>x\<bar> < 10 ^ 20"

definition opt_ok :: "('a \<Rightarrow> bool) \<Rightarrow> 'a option \<Rightarrow> bool" where
  "opt_ok p x \<longleftrightarrow> (case x of None \<Rightarrow> True | Some v \<Rightarrow> p v)"

definition row_status_ok :: "trip_row \<Rightarrow> bool" where
  "row_status_ok r \<longleftrightarrow>
     rw_status r \<in> {''open'', ''stuck''} \<and> rw_slot r = rw_mint r \<and> rw_closed_at r = None \<and> rw_usd_out r = None
       \<and> rw_exit_fees_usd r = None \<and> rw_net_pnl_usd r = None \<and> rw_exit_reason r = None
   \<or> rw_status r = ''closed'' \<and> rw_slot r \<noteq> rw_mint r \<and> rw_closed_at r \<noteq> None \<and> rw_usd_out r \<noteq> None
       \<and> rw_exit_fees_usd r \<noteq> None \<and> rw_net_pnl_usd r \<noteq> None \<and> rw_exit_reason r \<noteq> None"

definition row_assert :: "trip_row \<Rightarrow> bool" where
  "row_assert r \<longleftrightarrow> 1 \<le> length (rw_slot r) \<and> length (rw_slot r) \<le> 64 \<and> is_mint (rw_mint r) \<and> 1 \<le> rw_version r
     \<and> row_status_ok r \<and> digits_ok 28 (rw_tokens r) \<and> digits_ok 20 (rw_cost_usd r)
     \<and> digits_ok 20 (rw_entry_liquidity_usd r) \<and> rw_exit_failures r \<le> 1000
     \<and> opt_ok (digits_ok 20) (rw_usd_out r) \<and> opt_ok (digits_ok 20) (rw_exit_fees_usd r)
     \<and> opt_ok signed_ok (rw_net_pnl_usd r) \<and> opt_ok (\<lambda>e. e \<in> set EXIT_REASONS) (rw_exit_reason r)"

text \<open>A statement that would leave a table in breach of its schema fails as a whole.\<close>

definition trips_assert :: "trip_row list \<Rightarrow> bool" where
  "trips_assert rs \<longleftrightarrow> list_all row_assert rs \<and> distinct (map rw_id rs) \<and> distinct (map rw_slot rs)"

definition write_trips :: "paper_db \<Rightarrow> trip_row list \<Rightarrow> store_error + paper_db" where
  "write_trips db rs = (if trips_assert rs then Inr (db\<lparr>db_trips := rs\<rparr>) else Inl DatabaseError)"

section \<open>Queries on trips\<close>

definition open_row :: "trip \<Rightarrow> trip_row" where
  "open_row t = \<lparr>rw_id = tr_id t, rw_slot = tr_mint t, rw_mint = tr_mint t, rw_version = tr_version t,
     rw_status = ''open'', rw_tokens = tr_tokens t, rw_cost_usd = tr_cost_usd t,
     rw_entry_liquidity_usd = tr_entry_liquidity_usd t, rw_exit_failures = 0,
     rw_opened_at = tr_opened_at t, rw_closed_at = None, rw_usd_out = None, rw_exit_fees_usd = None,
     rw_net_pnl_usd = None, rw_exit_reason = None\<rparr>"

definition open_trip :: "paper_db \<Rightarrow> trip \<Rightarrow> store_error + unit \<times> paper_db" where
  "open_trip db t =
     (if tr_close t \<noteq> None \<or> tr_stuck t \<or> tr_exit_failures t \<noteq> 0 then Inl StoreInvalid
      else case write_trips db (db_trips db @ [open_row t]) of
        Inl e \<Rightarrow> Inl e
      | Inr db' \<Rightarrow> Inr ((), db'))"

definition is_open_row :: "string \<Rightarrow> trip_row \<Rightarrow> bool" where
  "is_open_row i r \<longleftrightarrow> rw_id r = i \<and> rw_status r = ''open''"

definition closed_row :: "trip_close \<Rightarrow> trip_row \<Rightarrow> trip_row" where
  "closed_row c r = r\<lparr>rw_status := ''closed'', rw_slot := rw_id r, rw_closed_at := Some (closed_at c),
     rw_usd_out := Some (tc_usd_out c), rw_exit_fees_usd := Some (tc_exit_fees_usd c),
     rw_net_pnl_usd := Some (tc_net_pnl_usd c), rw_exit_reason := Some (tc_exit_reason c)\<rparr>"

definition update_where :: "(trip_row \<Rightarrow> bool) \<Rightarrow> (trip_row \<Rightarrow> trip_row) \<Rightarrow> trip_row list \<Rightarrow> trip_row list" where
  "update_where p f rs = map (\<lambda>r. if p r then f r else r) rs"

definition close_trip :: "paper_db \<Rightarrow> string \<Rightarrow> trip_close \<Rightarrow> store_error + bool \<times> paper_db" where
  "close_trip db i c =
     (if tc_exit_reason c \<notin> set EXIT_REASONS then Inl StoreInvalid
      else case write_trips db (update_where (is_open_row i) (closed_row c) (db_trips db)) of
        Inl e \<Rightarrow> Inl e
      | Inr db' \<Rightarrow> Inr (length (filter (is_open_row i) (db_trips db)) = 1, db'))"

definition failed_row :: "nat \<Rightarrow> trip_row \<Rightarrow> trip_row" where
  "failed_row cap r = r\<lparr>rw_exit_failures := rw_exit_failures r + 1,
     rw_status := (if rw_exit_failures r + 1 \<ge> cap then ''stuck'' else ''open'')\<rparr>"

definition record_exit_failure ::
  "paper_db \<Rightarrow> string \<Rightarrow> nat \<Rightarrow> store_error + bool option \<times> paper_db" where
  "record_exit_failure db i cap =
     (case write_trips db (update_where (is_open_row i) (failed_row cap) (db_trips db)) of
        Inl e \<Rightarrow> Inl e
      | Inr db' \<Rightarrow>
          Inr (case filter (is_open_row i) (db_trips db) of
                 [] \<Rightarrow> None
               | r # _ \<Rightarrow> Some (rw_status (failed_row cap r) = ''stuck''), db'))"

definition bounded_rows :: "'a list \<Rightarrow> store_error + 'a list" where
  "bounded_rows rs = (if length rs > MAX_LEDGER_ROWS then Inl LedgerTooLarge else Inr rs)"

definition load_trips :: "paper_db \<Rightarrow> store_error + trip list" where
  "load_trips db =
     (case bounded_rows (List.take (MAX_LEDGER_ROWS + 1) (sort_key rw_opened_at (db_trips db))) of
        Inl e \<Rightarrow> Inl e | Inr rs \<Rightarrow> trips_of_rows rs)"

definition load_held_trips :: "paper_db \<Rightarrow> store_error + trip list" where
  "load_held_trips db = trips_of_rows
     (List.take 64 (sort_key rw_opened_at (filter (\<lambda>r. rw_status r \<noteq> ''closed'') (db_trips db))))"

text \<open>\<open>ORDER BY closed_at DESC\<close>: every closed row has a closing time.\<close>

definition recent_closed_trips :: "paper_db \<Rightarrow> nat \<Rightarrow> store_error + trip list" where
  "recent_closed_trips db limit = trips_of_rows (List.take (min limit MAX_LIST)
     (sort_key (\<lambda>r. case rw_closed_at r of Some t \<Rightarrow> - t | None \<Rightarrow> 0)
        (filter (\<lambda>r. rw_status r = ''closed'') (db_trips db))))"

section \<open>Other tables\<close>

definition insert_candidate :: "paper_db \<Rightarrow> candidate \<Rightarrow> store_error + unit \<times> paper_db" where
  "insert_candidate db c =
     (if (case ca_reason c of Some r \<Rightarrow> r \<notin> set CANDIDATE_REASONS | None \<Rightarrow> False) then Inl StoreInvalid
      else if is_mint (ca_mint c) \<and> 1 \<le> ca_version c \<and> opt_ok (digits_ok 20) (ca_price_usd c)
              \<and> opt_ok (digits_ok 20) (ca_liquidity_usd c) \<and> ca_id c \<notin> ca_id ` set (db_candidates db)
      then Inr ((), db\<lparr>db_candidates := db_candidates db @ [c]\<rparr>)
      else Inl DatabaseError)"

definition recent_candidates :: "paper_db \<Rightarrow> nat \<Rightarrow> candidate list" where
  "recent_candidates db limit =
     List.take (min limit MAX_LIST) (sort_key (\<lambda>c. - ca_observed_at c) (db_candidates db))"

definition register_strategy_version ::
  "paper_db \<Rightarrow> nat \<Rightarrow> string \<Rightarrow> store_error + unit \<times> paper_db" where
  "register_strategy_version db ver params = (case al_get (db_versions db) ver of
     Some existing \<Rightarrow> if existing = params then Inr ((), db) else Inl VersionConflict
   | None \<Rightarrow>
       if 1 \<le> ver \<and> 2 \<le> length params \<and> length params \<le> 8192
       then Inr ((), db\<lparr>db_versions := db_versions db @ [(ver, params)]\<rparr>) else Inl DatabaseError)"

definition store_add_cost ::
  "decimal \<Rightarrow> paper_db \<Rightarrow> cost_kind \<Rightarrow> nat \<Rightarrow> rat \<Rightarrow> int \<Rightarrow> store_error + unit \<times> paper_db" where
  "store_add_cost D db k ver usd tm =
     (if usd < 0 then Inl StoreInvalid
      else let key = (ver, k, utc_date tm) in
        case (case al_get (db_costs db) key of
                Some c \<Rightarrow> checked_add D (co_usd c) usd
              | None \<Rightarrow> Some usd) of
          None \<Rightarrow> Inl StoreInvalid
        | Some tot \<Rightarrow>
            if digits_ok 20 tot \<and> 1 \<le> ver
            then Inr ((), db\<lparr>db_costs := hm_insert key
                   \<lparr>co_kind = k, co_usd = tot, co_at = tm, co_version = ver\<rparr> (db_costs db)\<rparr>)
            else Inl DatabaseError)"

definition load_costs :: "paper_db \<Rightarrow> store_error + cost list" where
  "load_costs db = bounded_rows (List.take (MAX_LEDGER_ROWS + 1)
     (sort_key co_at (map snd (db_costs db))))"

definition insert_gate_snapshot :: "paper_db \<Rightarrow> gate_snapshot \<Rightarrow> store_error + unit \<times> paper_db" where
  "insert_gate_snapshot db g =
     (if 1 \<le> gs_version g \<and> signed_ok (gs_net_result_usd g) \<and> signed_ok (gs_net_expectancy_usd g)
         \<and> gs_id g \<notin> gs_id ` set (db_gate db)
      then Inr ((), db\<lparr>db_gate := db_gate db @ [g]\<rparr>) else Inl DatabaseError)"

definition db_control_of :: "paper_db \<Rightarrow> store_error + control" where
  "db_control_of db = Inr (case db_control db of Some c \<Rightarrow> c | None \<Rightarrow> control_default)"

definition store_pause :: "paper_db \<Rightarrow> string \<Rightarrow> int \<Rightarrow> store_error + unit \<times> paper_db" where
  "store_pause db device now =
     (let fresh = \<lparr>pc_paused = True, pc_paused_at = Some now, pc_paused_by = Some device\<rparr>;
          c = (case db_control db of Some c \<Rightarrow> if pc_paused c then c else fresh | None \<Rightarrow> fresh)
      in if opt_ok (\<lambda>d. length d \<le> 64) (pc_paused_by c) then Inr ((), db\<lparr>db_control := Some c\<rparr>)
         else Inl DatabaseError)"

definition store_resume :: "paper_db \<Rightarrow> int \<Rightarrow> store_error + bool \<times> paper_db" where
  "store_resume db paused_at = (case db_control db of
     Some c \<Rightarrow>
       if pc_paused c \<and> pc_paused_at c = Some paused_at
       then Inr (True, db\<lparr>db_control := Some control_default\<rparr>) else Inr (False, db)
   | None \<Rightarrow> Inr (False, db))"

text \<open>One sweep of \<open>prune\<close> on a table: batches while they are full, at most twenty.\<close>

fun prune_batches :: "nat \<Rightarrow> ('a \<Rightarrow> bool) \<Rightarrow> 'a list \<Rightarrow> nat \<times> 'a list" where
  "prune_batches 0 old rs = (0, rs)"
| "prune_batches (Suc n) old rs =
     (let gone = List.take PRUNE_BATCH (filter old rs);
          rest = filter (\<lambda>r. \<not> old r) rs @ drop PRUNE_BATCH (filter old rs)
      in if length gone < PRUNE_BATCH then (length gone, rest)
         else let (k, rest') = prune_batches n old rest in (length gone + k, rest'))"

definition prune :: "paper_db \<Rightarrow> int \<Rightarrow> nat \<times> paper_db" where
  "prune db now =
     (let limit = now - int RETENTION_DAYS * day_nanos;
          (a, cs) = prune_batches PRUNE_MAX_BATCHES (\<lambda>c. ca_observed_at c < limit) (db_candidates db);
          (b, gs) = prune_batches PRUNE_MAX_BATCHES (\<lambda>g. gs_at g < limit) (db_gate db)
      in (a + b, db\<lparr>db_candidates := cs, db_gate := gs\<rparr>))"

end
