(* ===== verification/Paper_Trader.thy ===== *)
theory Paper_Trader
  imports Paper_Store Market_Data
begin

text \<open>
  \<^verbatim>\<open>src/jarvis-api/src/memecoin.rs\<close>: the paper trader that joins market data, filter, strategy,
  simulator, store and gate. One tick is a function of the task, the tables and a \<open>tick_env\<close>:
  what the clock, the random source, the market source, the owner's pause button and the database
  connection answer at each point where the tick asks them. The tick returns its outcome with
  the tables as they are then, since what it wrote before an error stays written.
\<close>

section \<open>Replay of the stored ledger\<close>

datatype paper_replay_error = ReplayLedger ledger_error | Mismatch

definition position_of :: "trip \<Rightarrow> position" where
  "position_of t = \<lparr>pos_mint = tr_mint t, tokens = tr_tokens t, cost_usd = tr_cost_usd t,
     opened_at = tr_opened_at t, entry_liquidity_usd = tr_entry_liquidity_usd t\<rparr>"

type_synonym replay_event = "int \<times> nat \<times> string \<times> trip"

definition trip_events :: "trip \<Rightarrow> replay_event list" where
  "trip_events t = (tr_opened_at t, 1, tr_id t, t)
     # (case tr_close t of Some c \<Rightarrow> [(closed_at c, 0, tr_id t, t)] | None \<Rightarrow> [])"

definition event_key :: "replay_event \<Rightarrow> int \<times> nat \<times> string" where
  "event_key e = (fst e, fst (snd e), fst (snd (snd e)))"

definition replay_events :: "trip list \<Rightarrow> replay_event list" where
  "replay_events trips = sort_key event_key (concat (map trip_events trips))"

definition from_ledger :: "(ledger_error, 'a) res \<Rightarrow> (paper_replay_error, 'a) res" where
  "from_ledger r = (case r of Ok x \<Rightarrow> Ok x | Err e \<Rightarrow> Err (ReplayLedger e) | Panic \<Rightarrow> Panic)"

definition replay_one :: "decimal \<Rightarrow> ledger \<Rightarrow> replay_event \<Rightarrow> (paper_replay_error, ledger) res" where
  "replay_one D l e = (case e of (_, k, _, t) \<Rightarrow>
     (case (if k = 0 then tr_close t else None) of
        Some c \<Rightarrow>
          bind_res (from_ledger (ledger_close D l (tr_mint t) (tr_tokens t) (tc_usd_out c)
              (tc_exit_fees_usd c) (closed_at c))) (\<lambda>(net, l').
            if net \<noteq> tc_net_pnl_usd c then Err Mismatch else Ok l')
      | None \<Rightarrow> from_ledger (ledger_open l (position_of t))))"

fun replay_trips :: "decimal \<Rightarrow> ledger \<Rightarrow> replay_event list \<Rightarrow> (paper_replay_error, ledger) res" where
  "replay_trips D l [] = Ok l"
| "replay_trips D l (e # es) = bind_res (replay_one D l e) (\<lambda>l'. replay_trips D l' es)"

fun replay_costs :: "decimal \<Rightarrow> ledger \<Rightarrow> cost list \<Rightarrow> (paper_replay_error, ledger) res" where
  "replay_costs D l [] = Ok l"
| "replay_costs D l (c # cs) =
     bind_res (from_ledger (case co_kind c of
         KindFailedTx \<Rightarrow> record_failed_tx D l (co_usd c)
       | KindAiCost \<Rightarrow> record_ai_cost D l (co_usd c))) (\<lambda>l'. replay_costs D l' cs)"

definition replay :: "decimal \<Rightarrow> trip list \<Rightarrow> cost list \<Rightarrow> (paper_replay_error, ledger) res" where
  "replay D trips cs =
     bind_res (replay_trips D ledger_default (replay_events trips)) (\<lambda>l. replay_costs D l cs)"

section \<open>Names of decisions\<close>

fun reject_reason_str :: "reject_reason \<Rightarrow> string" where
  "reject_reason_str StaleSnapshot = ''stale_snapshot''"
| "reject_reason_str InvalidSnapshot = ''invalid_snapshot''"
| "reject_reason_str DeniedMint = ''denied''"
| "reject_reason_str MintAuthorityActive = ''mint_authority_active''"
| "reject_reason_str FreezeAuthorityActive = ''freeze_authority_active''"
| "reject_reason_str (UnknownExtension _) = ''unknown_extension''"
| "reject_reason_str (ExtensionNotAllowed _) = ''extension_not_allowed''"
| "reject_reason_str (ExtensionAuthorityActive _) = ''extension_authority_active''"
| "reject_reason_str LpNotSecured = ''lp_not_secured''"
| "reject_reason_str LpUnlocksTooSoon = ''lp_unlocks_too_soon''"
| "reject_reason_str LiquidityTooLow = ''liquidity_too_low''"
| "reject_reason_str PoolTooYoung = ''pool_too_young''"
| "reject_reason_str HolderConcentrationTooHigh = ''holder_concentration_too_high''"
| "reject_reason_str NoSellRoute = ''no_sell_route''"
| "reject_reason_str SellImpactTooHigh = ''sell_impact_too_high''"

fun exit_reason_str :: "exit_reason \<Rightarrow> string" where
  "exit_reason_str LiquidityDrop = ''liquidity_drop''"
| "exit_reason_str StopLoss = ''stop_loss''"
| "exit_reason_str TakeProfit = ''take_profit''"
| "exit_reason_str TimeStop = ''time_stop''"

section \<open>Market source\<close>

definition liquidity_key :: "pair \<Rightarrow> nat \<times> rat" where
  "liquidity_key p = (case Option.bind (pr_liquidity p) id of None \<Rightarrow> (0, 0) | Some v \<Rightarrow> (1, v))"

text \<open>\<open>max_by_key\<close> keeps the last of equal maxima.\<close>

definition main_pair :: "pair list \<Rightarrow> string \<Rightarrow> pair option" where
  "main_pair pairs m =
     foldl (\<lambda>acc p. case acc of None \<Rightarrow> Some p
        | Some q \<Rightarrow> if liquidity_key q \<le> liquidity_key p then Some p else Some q) None
       (filter (\<lambda>p. chain_id p = ''solana'' \<and> base_token p = m) pairs)"

definition pair_snapshot :: "conversions \<Rightarrow> decimal \<Rightarrow> pair \<Rightarrow> int \<Rightarrow> token_snapshot option" where
  "pair_snapshot E D p now = res_ok (to_snapshot E D
     \<lparr>ob_mint = base_token p, ob_observed_at = now, ob_pair = Some p, ob_mint_account = None,
      ob_largest_accounts = None, excluded_accounts = [], sell_amount = 0, sell_quote = None\<rparr>)"

definition USDC_MINT :: string where "USDC_MINT = ''EPjFWdd5AufqSSqeM2qN1xzybapC8G4wEGGkZwyTDt1v''"

text \<open>
  \<open>entry_snapshot\<close> of the live source, given the two cross-checked reads and the quote
  service. \<open>floor_to_u64\<close> is the package's floor followed by the conversion.
\<close>

definition live_sell_amount :: "(rat \<Rightarrow> nat option) \<Rightarrow> decimal \<Rightarrow> pair \<Rightarrow> rat \<Rightarrow> nat \<Rightarrow> nat" where
  "live_sell_amount floor_to_u64 D p sell_usd dec =
     (case Option.bind (pr_price_usd p) (\<lambda>price.
        if price > 0 then
          Option.bind (checked_div D sell_usd price) (\<lambda>toks.
            if 10 ^ dec \<le> u64_max
            then Option.bind (checked_mul D toks (10 ^ dec)) floor_to_u64 else None)
        else None) of
      Some n \<Rightarrow> n | None \<Rightarrow> 0)"

definition live_entry_snapshot ::
  "conversions \<Rightarrow> decimal \<Rightarrow> (rat \<Rightarrow> nat option) \<Rightarrow> mint_account cross_checked md \<Rightarrow>
   token_account_balance list cross_checked md \<Rightarrow> (quote_request \<Rightarrow> quote md) \<Rightarrow>
   pair \<Rightarrow> rat \<Rightarrow> int \<Rightarrow> token_snapshot md" where
  "live_entry_snapshot E D floor_to_u64 mint_read largest_read quote_service p sell_usd now =
     bind_res mint_read (\<lambda>acc.
     bind_res largest_read (\<lambda>largest.
     let amount = live_sell_amount floor_to_u64 D p sell_usd (unat (decimals (cc_value acc)))
     in bind_res (if amount = 0 then Ok None
          else case quote_service \<lparr>qr_input_mint = base_token p, qr_output_mint = USDC_MINT,
                 qr_amount = amount, qr_slippage_bps = None\<rparr> of
            Ok q \<Rightarrow> Ok (Some q)
          | Err e \<Rightarrow> if e = NoRoute then Ok None else Err e
          | Panic \<Rightarrow> Panic) (\<lambda>q.
        to_snapshot E D \<lparr>ob_mint = base_token p, ob_observed_at = now, ob_pair = Some p,
          ob_mint_account = Some acc, ob_largest_accounts = Some largest, excluded_accounts = [],
          sell_amount = amount, sell_quote = q\<rparr>)))"

section \<open>The task\<close>

definition MAX_ENTRY_CANDIDATES_PER_TICK :: nat where "MAX_ENTRY_CANDIDATES_PER_TICK = 5"
definition OBSERVE_COOLDOWN :: int where "OBSERVE_COOLDOWN = 15 * 60 * nanos"
definition GATE_SNAPSHOT_EVERY :: int where "GATE_SNAPSHOT_EVERY = 3600 * nanos"
definition EXIT_FAILURE_CAP :: nat where "EXIT_FAILURE_CAP = 10"
definition CLOCK_TOLERANCE :: int where "CLOCK_TOLERANCE = 5 * 60 * nanos"

record open_view =
  ov_mint :: string
  ov_version :: nat
  ov_tokens :: rat
  ov_cost_usd :: rat
  ov_value_usd :: "rat option"
  ov_opened_at :: int
  ov_exit_failures :: nat
  ov_stuck :: bool

record paper_view =
  pv_version :: nat
  pv_at :: int
  pv_stake_usd :: rat
  pv_pnl :: pnl_report
  pv_equity_usd :: rat
  pv_open :: "open_view list"
  pv_gate :: gate_report
  pv_goal_multiple :: rat
  pv_goal :: "progress option"

record paper_handle =
  hd_enabled :: bool
  hd_running :: bool
  hd_paused :: bool
  hd_view :: "paper_view option"
  hd_last_error :: "string option"

definition paper_handle_new :: "bool \<Rightarrow> paper_handle" where
  "paper_handle_new enabled = \<lparr>hd_enabled = enabled, hd_running = False, hd_paused = False,
     hd_view = None, hd_last_error = None\<rparr>"

definition pause_now :: "paper_handle \<Rightarrow> paper_handle" where
  "pause_now h = h\<lparr>hd_paused := True\<rparr>"

definition note_outcome :: "paper_handle \<Rightarrow> string option \<Rightarrow> bool \<times> paper_handle" where
  "note_outcome h e = (hd_last_error h \<noteq> e, h\<lparr>hd_last_error := e\<rparr>)"

record tick_stats =
  st_observed :: nat
  st_accepted :: nat
  st_entries :: nat
  st_exits :: nat
  st_failed_attempts :: nat
  st_unpriced_exits :: nat
  st_stuck :: nat
  st_provider_errors :: nat

definition stats_default :: tick_stats where
  "stats_default = \<lparr>st_observed = 0, st_accepted = 0, st_entries = 0, st_exits = 0,
     st_failed_attempts = 0, st_unpriced_exits = 0, st_stuck = 0, st_provider_errors = 0\<rparr>"

record paper_task =
  pt_profile :: paper_profile
  pt_handle :: paper_handle
  pt_seen :: "(string \<times> string option \<times> int) list"
  pt_last_gate_at :: "int option"

definition paper_task_new :: "paper_profile \<Rightarrow> paper_handle \<Rightarrow> paper_task" where
  "paper_task_new p h = \<lparr>pt_profile = p, pt_handle = h, pt_seen = [], pt_last_gate_at = None\<rparr>"

section \<open>Database calls\<close>

text \<open>
  What the connection does to a call: nothing, fail or time out; the flag says whether the
  statement took effect all the same.
\<close>

datatype db_fault = NoFault | CallFails bool | CallTimesOut bool

definition db_call_failed :: string where "db_call_failed = ''database call failed''"
definition db_call_timed_out :: string where "db_call_timed_out = ''database call timed out''"

definition bounded_read :: "db_fault \<Rightarrow> store_error + 'a \<Rightarrow> (string, 'a) res" where
  "bounded_read fault r = (case fault of
     NoFault \<Rightarrow> (case r of Inr x \<Rightarrow> Ok x | Inl _ \<Rightarrow> Err db_call_failed)
   | CallFails _ \<Rightarrow> Err db_call_failed
   | CallTimesOut _ \<Rightarrow> Err db_call_timed_out)"

definition effect_of :: "bool \<Rightarrow> store_error + 'a \<times> paper_db \<Rightarrow> paper_db \<Rightarrow> paper_db" where
  "effect_of applied r db = (case r of Inr (_, db') \<Rightarrow> if applied then db' else db | Inl _ \<Rightarrow> db)"

definition bounded_write ::
  "db_fault \<Rightarrow> paper_db \<Rightarrow> store_error + 'a \<times> paper_db \<Rightarrow> (string, 'a) res \<times> paper_db" where
  "bounded_write fault db r = (case fault of
     NoFault \<Rightarrow> (case r of Inr (x, db') \<Rightarrow> (Ok x, db') | Inl _ \<Rightarrow> (Err db_call_failed, db))
   | CallFails applied \<Rightarrow> (Err db_call_failed, effect_of applied r db)
   | CallTimesOut applied \<Rightarrow> (Err db_call_timed_out, effect_of applied r db))"

text \<open>The early return with the tables as they are.\<close>

definition then_db ::
  "('e, 'a) res \<times> paper_db \<Rightarrow> ('a \<Rightarrow> paper_db \<Rightarrow> ('e, 'b) res \<times> paper_db) \<Rightarrow> ('e, 'b) res \<times> paper_db" where
  "then_db r f = (case r of
     (Ok x, db) \<Rightarrow> f x db | (Err e, db) \<Rightarrow> (Err e, db) | (Panic, db) \<Rightarrow> (Panic, db))"

definition replay_message :: string where "replay_message = ''paper ledger does not replay''"

definition to_message :: "string \<Rightarrow> ('e, 'a) res \<Rightarrow> (string, 'a) res" where
  "to_message msg r = (case r of Ok x \<Rightarrow> Ok x | Err _ \<Rightarrow> Err msg | Panic \<Rightarrow> Panic)"

definition load_history :: "decimal \<Rightarrow> db_fault \<Rightarrow> db_fault \<Rightarrow> paper_db \<Rightarrow> nat \<Rightarrow> (string, ledger) res" where
  "load_history D f1 f2 db ver =
     bind_res (bounded_read f1 (load_trips db)) (\<lambda>trips.
     bind_res (bounded_read f2 (load_costs db)) (\<lambda>cs.
     bind_res (to_message replay_message (replay D trips cs)) (\<lambda>_.
     to_message replay_message
       (replay D (filter (\<lambda>t. tr_version t = ver) trips) (filter (\<lambda>c. co_version c = ver) cs)))))"

section \<open>Exits\<close>

record exit_env =
  xe_roll :: rat
  xe_clock :: int
  xe_close_fault :: db_fault
  xe_cost_fault :: db_fault
  xe_failure_fault :: db_fault

text \<open>The strictly increasing event clock: its last value and the wall clock.\<close>

definition stamp :: "int option \<Rightarrow> int \<Rightarrow> int" where
  "stamp prev clock = max clock (case prev of None \<Rightarrow> 0 | Some l \<Rightarrow> l + 1)"

definition not_open_message :: string where "not_open_message = ''paper trip was not open''"

type_synonym 'a ticked = "(string, 'a) res \<times> paper_db"

definition exit_filled ::
  "decimal \<Rightarrow> exit_env \<Rightarrow> exit_reason \<Rightarrow> rat \<Rightarrow> rat \<Rightarrow> trip \<Rightarrow> int option \<Rightarrow> tick_stats \<Rightarrow> paper_db \<Rightarrow>
   (trip \<times> int option \<times> tick_stats) ticked" where
  "exit_filled D x reason amount_out fees t prev stats db =
     (case Option.bind (checked_sub D amount_out fees) (\<lambda>v. checked_sub D v (tr_cost_usd t)) of
        None \<Rightarrow> (Err ''paper exit overflow'', db)
      | Some net \<Rightarrow>
          let tm = stamp prev (xe_clock x);
              c = \<lparr>closed_at = tm, tc_usd_out = amount_out, tc_exit_fees_usd = fees,
                   tc_net_pnl_usd = net, tc_exit_reason = exit_reason_str reason\<rparr>
          in then_db (bounded_write (xe_close_fault x) db (close_trip db (tr_id t) c)) (\<lambda>closed db'.
             if \<not> closed then (Err not_open_message, db')
             else (Ok (t\<lparr>tr_close := Some c\<rparr>, Some tm, stats\<lparr>st_exits := st_exits stats + 1\<rparr>), db')))"

definition count_failure ::
  "exit_env \<Rightarrow> trip \<Rightarrow> int option \<Rightarrow> tick_stats \<Rightarrow> paper_db \<Rightarrow> (trip \<times> int option \<times> tick_stats) ticked" where
  "count_failure x t prev stats db =
     then_db (bounded_write (xe_failure_fault x) db (record_exit_failure db (tr_id t) EXIT_FAILURE_CAP))
       (\<lambda>r db'. case r of
          None \<Rightarrow> (Err not_open_message, db')
        | Some stuck \<Rightarrow>
            (Ok (t\<lparr>tr_exit_failures := tr_exit_failures t + 1, tr_stuck := tr_stuck t \<or> stuck\<rparr>, prev,
                 if stuck then stats\<lparr>st_stuck := st_stuck stats + 1\<rparr> else stats), db'))"

definition exit_failed ::
  "decimal \<Rightarrow> exit_env \<Rightarrow> rat \<Rightarrow> trip \<Rightarrow> int option \<Rightarrow> tick_stats \<Rightarrow> paper_db \<Rightarrow>
   (trip \<times> int option \<times> tick_stats) ticked" where
  "exit_failed D x fees t prev stats db =
     (let tm = stamp prev (xe_clock x)
      in then_db (bounded_write (xe_cost_fault x) db
             (store_add_cost D db KindFailedTx (tr_version t) fees tm)) (\<lambda>_ db'.
         count_failure x t (Some tm) (stats\<lparr>st_failed_attempts := st_failed_attempts stats + 1\<rparr>) db'))"

definition exit_trip ::
  "conversions \<Rightarrow> decimal \<Rightarrow> paper_profile \<Rightarrow> pair list \<Rightarrow> int \<Rightarrow> exit_env \<Rightarrow> trip \<Rightarrow> int option \<Rightarrow>
   tick_stats \<Rightarrow> paper_db \<Rightarrow> (trip \<times> int option \<times> tick_stats) ticked" where
  "exit_trip E D p pairs now x t prev stats db =
     (case Option.bind (main_pair pairs (tr_mint t)) (\<lambda>q. pair_snapshot E D q now) of
        None \<Rightarrow> (Ok (t, prev, stats), db)
      | Some s \<Rightarrow>
          (case evaluate_exit D (position_of t) s (strategy p) (costs p) (max_snapshot_age (rules p)) now of
             Panic \<Rightarrow> (Panic, db)
           | Err _ \<Rightarrow> (Ok (t, prev, stats), db)
           | Ok intent \<Rightarrow>
               (case ti_kind intent of
                  Entry \<Rightarrow> (Ok (t, prev, stats), db)
                | Exit reason \<Rightarrow>
                    (case sell D (tr_tokens t) (price_usd s) (liquidity_usd s) (costs p) (xe_roll x) of
                       Panic \<Rightarrow> (Panic, db)
                     | Ok (Filled amount_out fees) \<Rightarrow> exit_filled D x reason amount_out fees t prev stats db
                     | Ok (FailedFill fees) \<Rightarrow> exit_failed D x fees t prev stats db
                     | Err _ \<Rightarrow>
                         count_failure x t prev
                           (stats\<lparr>st_unpriced_exits := st_unpriced_exits stats + 1\<rparr>) db))))"

fun exit_loop ::
  "conversions \<Rightarrow> decimal \<Rightarrow> paper_profile \<Rightarrow> pair list \<Rightarrow> int \<Rightarrow> (string \<Rightarrow> exit_env) \<Rightarrow> trip list \<Rightarrow>
   int option \<Rightarrow> tick_stats \<Rightarrow> paper_db \<Rightarrow> (trip list \<times> int option \<times> tick_stats) ticked" where
  "exit_loop E D p pairs now xs [] prev stats db = (Ok ([], prev, stats), db)"
| "exit_loop E D p pairs now xs (t # ts) prev stats db =
     (if tr_stuck t then
        then_db (exit_loop E D p pairs now xs ts prev stats db)
          (\<lambda>(ts', prev', stats') db'. (Ok (t # ts', prev', stats'), db'))
      else
        then_db (exit_trip E D p pairs now (xs (tr_id t)) t prev stats db) (\<lambda>(t', prev', stats') db'.
        then_db (exit_loop E D p pairs now xs ts prev' stats' db')
          (\<lambda>(ts', prev'', stats'') db''. (Ok (t' # ts', prev'', stats''), db''))))"

section \<open>Entries\<close>

text \<open>
  \<open>en_paused_before\<close> and \<open>en_paused_after\<close>: whether the owner's pause had been set when the
  loop looked; \<open>en_snapshot = None\<close>: the source failed.
\<close>

record entry_env =
  en_paused_before :: bool
  en_snapshot :: "token_snapshot option"
  en_clock :: int
  en_candidate_id :: string
  en_candidate_fault :: db_fault
  en_paused_after :: bool
  en_roll :: rat
  en_trip_id :: string
  en_stamp_clock :: int
  en_open_fault :: db_fault
  en_cost_fault :: db_fault

record entry_state =
  es_held :: "trip list"
  es_open :: nat
  es_seen :: "(string \<times> string option \<times> int) list"
  es_prev :: "int option"
  es_stats :: tick_stats
  es_db :: paper_db

definition observe_entry ::
  "paper_profile \<Rightarrow> pair list \<Rightarrow> entry_env \<Rightarrow> string \<Rightarrow> entry_state \<Rightarrow> token_snapshot option \<times> string option \<times> entry_state" where
  "observe_entry p pairs e m st =
     (let found = main_pair pairs m \<noteq> None;
          observed = (if found then en_snapshot e else None);
          stats = (es_stats st)\<lparr>st_observed := st_observed (es_stats st) + 1,
            st_provider_errors := st_provider_errors (es_stats st)
              + (if found \<and> en_snapshot e = None then 1 else 0)\<rparr>;
          reason = (case observed of
              None \<Rightarrow> Some ''data_unavailable''
            | Some s \<Rightarrow> (case check s (rules p) [] (en_clock e) of
                Accept \<Rightarrow> None | Reject r \<Rightarrow> Some (reject_reason_str r)));
          changed = (case al_get (es_seen st) m of None \<Rightarrow> True | Some (prior, _) \<Rightarrow> prior \<noteq> reason);
          row = \<lparr>ca_id = en_candidate_id e, ca_mint = m,
             ca_observed_at = (case observed of None \<Rightarrow> en_clock e | Some s \<Rightarrow> observed_at s),
             ca_version = version (strategy p), ca_reason = reason,
             ca_price_usd = map_option price_usd observed,
             ca_liquidity_usd = map_option liquidity_usd observed\<rparr>;
          db = (if changed then
              snd (bounded_write (en_candidate_fault e) (es_db st) (insert_candidate (es_db st) row))
            else es_db st)
      in (observed, reason,
          st\<lparr>es_seen := hm_insert m (reason, en_clock e) (es_seen st), es_stats := stats, es_db := db\<rparr>))"

definition open_entry ::
  "decimal \<Rightarrow> paper_profile \<Rightarrow> entry_env \<Rightarrow> string \<Rightarrow> token_snapshot \<Rightarrow> rat \<Rightarrow> entry_state \<Rightarrow>
   (string, bool) res \<times> entry_state" where
  "open_entry D p e m s sz st =
     (let ver = version (strategy p); tm = stamp (es_prev st) (en_stamp_clock e) in
      case buy D sz (price_usd s) (liquidity_usd s) (costs p) (en_roll e) of
        Panic \<Rightarrow> (Panic, st)
      | Err _ \<Rightarrow> (Ok True, st)
      | Ok (FailedFill fees) \<Rightarrow>
          (case bounded_write (en_cost_fault e) (es_db st)
               (store_add_cost D (es_db st) KindFailedTx ver fees tm) of
             (Ok _, db) \<Rightarrow> (Ok True, st\<lparr>es_db := db, es_prev := Some tm, es_stats := (es_stats st)
                 \<lparr>st_failed_attempts := st_failed_attempts (es_stats st) + 1\<rparr>\<rparr>)
           | (Err x, db) \<Rightarrow> (Err x, st\<lparr>es_db := db\<rparr>)
           | (Panic, db) \<Rightarrow> (Panic, st\<lparr>es_db := db\<rparr>))
      | Ok (Filled amount_out fees) \<Rightarrow>
          (case checked_add D sz fees of
             None \<Rightarrow> (Err ''paper entry overflow'', st)
           | Some cost \<Rightarrow>
               (let t = \<lparr>tr_id = en_trip_id e, tr_mint = m, tr_version = ver, tr_tokens = amount_out,
                   tr_cost_usd = cost, tr_entry_liquidity_usd = liquidity_usd s, tr_opened_at = tm,
                   tr_exit_failures = 0, tr_stuck = False, tr_close = None\<rparr>
                in case bounded_write (en_open_fault e) (es_db st) (open_trip (es_db st) t) of
                     (Ok _, db) \<Rightarrow> (Ok True, st\<lparr>es_db := db, es_prev := Some tm, es_held := es_held st @ [t],
                         es_open := es_open st + 1,
                         es_stats := (es_stats st)\<lparr>st_entries := st_entries (es_stats st) + 1\<rparr>\<rparr>)
                   | (Err x, db) \<Rightarrow> (Err x, st\<lparr>es_db := db\<rparr>)
                   | (Panic, db) \<Rightarrow> (Panic, st\<lparr>es_db := db\<rparr>))))"

text \<open>One turn of the entry loop; \<open>Ok False\<close> leaves it.\<close>

definition entry_step ::
  "decimal \<Rightarrow> paper_profile \<Rightarrow> pair list \<Rightarrow> bool \<Rightarrow> entry_env \<Rightarrow> string \<Rightarrow> entry_state \<Rightarrow>
   (string, bool) res \<times> entry_state" where
  "entry_step D p pairs paused e m st =
     (if paused \<or> en_paused_before e \<or> es_open st \<ge> max_open_positions p then (Ok False, st)
      else
        let (observed, reason, st1) = observe_entry p pairs e m st in
        case (if reason = None then observed else None) of
          None \<Rightarrow> (Ok True, st1)
        | Some s \<Rightarrow>
            let st2 = st1\<lparr>es_stats := (es_stats st1)\<lparr>st_accepted := st_accepted (es_stats st1) + 1\<rparr>\<rparr> in
            (case evaluate_entry D s (strategy p) (rules p) [] (max_position_usd p) (en_clock e) of
               Panic \<Rightarrow> (Panic, st2)
             | Err _ \<Rightarrow> (Ok True, st2)
             | Ok intent \<Rightarrow>
                 (case apply_research D (amount_in intent) Keep of
                    Panic \<Rightarrow> (Panic, st2)
                  | Err _ \<Rightarrow> (Ok True, st2)
                  | Ok sz \<Rightarrow>
                      if paused \<or> en_paused_after e then (Ok False, st2)
                      else open_entry D p e m s sz st2)))"

fun entry_loop ::
  "decimal \<Rightarrow> paper_profile \<Rightarrow> pair list \<Rightarrow> bool \<Rightarrow> (string \<Rightarrow> entry_env) \<Rightarrow> string list \<Rightarrow> entry_state \<Rightarrow>
   (string, unit) res \<times> entry_state" where
  "entry_loop D p pairs paused es [] st = (Ok (), st)"
| "entry_loop D p pairs paused es (m # ms) st =
     (case entry_step D p pairs paused (es m) m st of
        (Ok go, st') \<Rightarrow> if go then entry_loop D p pairs paused es ms st' else (Ok (), st')
      | (Err x, st') \<Rightarrow> (Err x, st')
      | (Panic, st') \<Rightarrow> (Panic, st'))"

definition due_mints :: "paper_task \<Rightarrow> string list \<Rightarrow> int \<Rightarrow> string list" where
  "due_mints task held_mints now =
     (let waited = (\<lambda>m. case al_get (pt_seen task) m of
            None \<Rightarrow> True | Some (_, tm) \<Rightarrow> now - tm \<ge> OBSERVE_COOLDOWN);
          key = (\<lambda>m. case al_get (pt_seen task) m of None \<Rightarrow> (0 :: nat, 0 :: int) | Some (_, tm) \<Rightarrow> (1, tm))
      in List.take MAX_ENTRY_CANDIDATES_PER_TICK (sort_key key
           (filter waited (filter (\<lambda>m. m \<notin> set held_mints) (watchlist (pt_profile task))))))"

section \<open>A tick\<close>

record tick_env =
  te_held_fault :: db_fault
  te_latest_fault :: db_fault
  te_costs_fault :: db_fault
  te_clock :: int
  te_history_faults :: "db_fault \<times> db_fault"
  te_control_fault :: db_fault
  te_pairs :: "pair list option"
  te_now :: int
  te_exit :: "string \<Rightarrow> exit_env"
  te_entry :: "string \<Rightarrow> entry_env"
  te_report_faults :: "db_fault \<times> db_fault"
  te_gate_id :: string
  te_gate_fault :: db_fault

definition latest_event :: "trip list \<Rightarrow> trip list \<Rightarrow> cost list \<Rightarrow> int option" where
  "latest_event held latest cs =
     iter_max (map tr_opened_at held
       @ map closed_at (List.map_filter tr_close latest) @ map co_at cs)"

definition tick_marks ::
  "conversions \<Rightarrow> decimal \<Rightarrow> pair list \<Rightarrow> int \<Rightarrow> string list \<Rightarrow> (string \<times> mark) list" where
  "tick_marks E D pairs now mints =
     foldl (\<lambda>ms m. case Option.bind (main_pair pairs m) (\<lambda>q. pair_snapshot E D q now) of
         None \<Rightarrow> ms
       | Some s \<Rightarrow> bt_insert m \<lparr>mark_price_usd = price_usd s, mark_liquidity_usd = liquidity_usd s\<rparr> ms) [] mints"

definition open_views ::
  "decimal \<Rightarrow> paper_profile \<Rightarrow> (string \<times> mark) list \<Rightarrow> trip list \<Rightarrow> open_view list" where
  "open_views D p marks held =
     map (\<lambda>t. \<lparr>ov_mint = tr_mint t, ov_version = tr_version t, ov_tokens = tr_tokens t,
            ov_cost_usd = tr_cost_usd t,
            ov_value_usd = (case al_get marks (tr_mint t) of None \<Rightarrow> None
              | Some mk \<Rightarrow> res_ok (sell_value D (tr_tokens t) (mark_price_usd mk) (mark_liquidity_usd mk) (costs p))),
            ov_opened_at = tr_opened_at t, ov_exit_failures = tr_exit_failures t, ov_stuck = tr_stuck t\<rparr>)
       (filter (\<lambda>t. tr_close t = None) held)"

text \<open>The report at the end of a tick: the view and, when one is due, the gate snapshot.\<close>

definition report_view ::
  "decimal \<Rightarrow> tick_env \<Rightarrow> (string \<times> mark) list \<Rightarrow> trip list \<Rightarrow> paper_profile \<Rightarrow> paper_db \<Rightarrow>
   (string, gate_report \<times> paper_view) res" where
  "report_view D env marks held p db =
     (let ver = version (strategy p);
          gr = \<lparr>min_closed_trades = MIN_CLOSED_TRADES, min_duration = MIN_DURATION,
                min_trading_days = MIN_TRADING_DAYS\<rparr>
      in bind_res (load_history D (fst (te_report_faults env)) (snd (te_report_faults env)) db ver) (\<lambda>l.
         bind_res (to_message ''paper gate cannot be computed'' (gate_evaluate D l marks (costs p) gr)) (\<lambda>report.
         bind_res (to_message ''paper result cannot be computed'' (ledger_pnl D l marks (costs p))) (\<lambda>pnl.
         bind_res (ok_or ''paper equity overflow'' (checked_add D (stake_usd p) (net_usd pnl))) (\<lambda>equity.
         case goal_progress D (stake_usd p) (max equity 0) 0 (goal_multiple p) of
           Panic \<Rightarrow> Panic
         | g \<Rightarrow> Ok (report, \<lparr>pv_version = ver, pv_at = te_now env, pv_stake_usd = stake_usd p, pv_pnl = pnl,
               pv_equity_usd = equity, pv_open = open_views D p marks held, pv_gate = report,
               pv_goal_multiple = goal_multiple p, pv_goal = res_ok g\<rparr>))))))"

definition gate_row :: "tick_env \<Rightarrow> nat \<Rightarrow> gate_report \<Rightarrow> gate_snapshot" where
  "gate_row env ver report =
     \<lparr>gs_id = te_gate_id env, gs_at = te_now env, gs_version = ver,
      gs_closed_trades = closed_trades report,
      gs_duration_secs = nat (max (duration report div nanos) 0),
      gs_trading_days = trading_days report, gs_net_result_usd = net_result_usd report,
      gs_net_expectancy_usd = net_expectancy_usd report\<rparr>"

definition tick_report ::
  "decimal \<Rightarrow> tick_env \<Rightarrow> (string \<times> mark) list \<Rightarrow> trip list \<Rightarrow> paper_task \<Rightarrow> paper_db \<Rightarrow>
   (string, unit) res \<times> paper_task \<times> paper_db" where
  "tick_report D env marks held task db =
     (case report_view D env marks held (pt_profile task) db of
        Err e \<Rightarrow> (Err e, task, db)
      | Panic \<Rightarrow> (Panic, task, db)
      | Ok (report, view) \<Rightarrow>
          (let task1 = task\<lparr>pt_handle := (pt_handle task)\<lparr>hd_view := Some view\<rparr>\<rparr> in
           if (case pt_last_gate_at task of None \<Rightarrow> True | Some tm \<Rightarrow> te_now env - tm \<ge> GATE_SNAPSHOT_EVERY)
           then (case bounded_write (te_gate_fault env) db
               (insert_gate_snapshot db (gate_row env (version (strategy (pt_profile task))) report)) of
             (Ok _, db') \<Rightarrow> (Ok (), task1\<lparr>pt_last_gate_at := Some (te_now env)\<rparr>, db')
           | (_, db') \<Rightarrow> (Ok (), task1, db'))
           else (Ok (), task1, db)))"

definition pause_state :: "tick_env \<Rightarrow> paper_task \<Rightarrow> paper_db \<Rightarrow> bool \<times> paper_task" where
  "pause_state env task db = (case bounded_read (te_control_fault env) (db_control_of db) of
     Ok c \<Rightarrow> (False, if pc_paused c then task\<lparr>pt_handle := pause_now (pt_handle task)\<rparr> else task)
   | _ \<Rightarrow> (True, task))"

definition tick_read :: "tick_env \<Rightarrow> paper_db \<Rightarrow> (string, trip list \<times> int option) res" where
  "tick_read env db =
     bind_res (bounded_read (te_held_fault env) (load_held_trips db)) (\<lambda>held.
     bind_res (bounded_read (te_latest_fault env) (recent_closed_trips db 1)) (\<lambda>latest.
     bind_res (bounded_read (te_costs_fault env) (load_costs db)) (\<lambda>cs.
       let prev = latest_event held latest cs in
       if (case prev of None \<Rightarrow> False | Some l \<Rightarrow> l > te_clock env + CLOCK_TOLERANCE)
       then Err ''paper ledger is dated ahead of the clock''
       else Ok (held, prev))))"

text \<open>Exits, then entries for the mints that are due; the state says how far they came.\<close>

definition tick_trades ::
  "conversions \<Rightarrow> decimal \<Rightarrow> tick_env \<Rightarrow> paper_task \<Rightarrow> bool \<Rightarrow> string list \<Rightarrow> trip list \<Rightarrow> int option \<Rightarrow>
   paper_db \<Rightarrow> (string, unit) res \<times> entry_state" where
  "tick_trades E D env task paused due held prev db =
     (let p = pt_profile task;
          pairs = (case te_pairs env of Some ps \<Rightarrow> ps | None \<Rightarrow> []);
          stats = (if te_pairs env = None then stats_default\<lparr>st_provider_errors := 1\<rparr> else stats_default);
          st = (\<lambda>held prev stats db. \<lparr>es_held = held, es_open = length (filter (\<lambda>t. tr_close t = None) held),
                  es_seen = pt_seen task, es_prev = prev, es_stats = stats, es_db = db\<rparr>)
      in case exit_loop E D p pairs (te_now env) (te_exit env) held prev stats db of
           (Err e, db') \<Rightarrow> (Err e, st held prev stats db')
         | (Panic, db') \<Rightarrow> (Panic, st held prev stats db')
         | (Ok (held', prev', stats'), db') \<Rightarrow>
             entry_loop D p pairs paused (te_entry env) due (st held' prev' stats' db'))"

definition tick ::
  "conversions \<Rightarrow> decimal \<Rightarrow> tick_env \<Rightarrow> paper_task \<Rightarrow> paper_db \<Rightarrow>
   (string, tick_stats) res \<times> paper_task \<times> paper_db" where
  "tick E D env task db =
     (case tick_read env db of
        Err e \<Rightarrow> (Err e, task, db)
      | Panic \<Rightarrow> (Panic, task, db)
      | Ok (held, prev) \<Rightarrow>
          (let p = pt_profile task;
               history = load_history D (fst (te_history_faults env)) (snd (te_history_faults env)) db
                 (version (strategy p));
               (read_failed, task1) = pause_state env task db;
               paused = (read_failed \<or> hd_paused (pt_handle task1));
               held_mints = sort (remdups (map tr_mint held));
               mints = held_mints @ filter (\<lambda>m. m \<notin> set held_mints) (watchlist p);
               due = (case history of Ok _ \<Rightarrow> due_mints task1 held_mints (te_now env) | _ \<Rightarrow> []);
               marks = tick_marks E D (case te_pairs env of Some ps \<Rightarrow> ps | None \<Rightarrow> []) (te_now env) mints
           in if history = Panic then (Panic, task1, db)
              else case tick_trades E D env task1 paused due held prev db of
                (Err e, st) \<Rightarrow> (Err e, task1\<lparr>pt_seen := es_seen st\<rparr>, es_db st)
              | (Panic, st) \<Rightarrow> (Panic, task1\<lparr>pt_seen := es_seen st\<rparr>, es_db st)
              | (Ok _, st) \<Rightarrow>
                  (case history of
                     Err e \<Rightarrow> (Err e, task1\<lparr>pt_seen := es_seen st\<rparr>, es_db st)
                   | _ \<Rightarrow>
                       (case tick_report D env marks (es_held st) (task1\<lparr>pt_seen := es_seen st\<rparr>) (es_db st) of
                          (r, task2, db2) \<Rightarrow> (map_res id (\<lambda>_. es_stats st) r, task2, db2)))))"

end
