(* ===== verification/Paper_Replay.thy ===== *)
theory Paper_Replay
  imports Paper_Trader
begin

text \<open>
  Why the stored history replays. \<open>history_ok\<close> says what the trips in the tables satisfy: each is
  sound in itself, and two trips of one mint never overlap in time. From it, replaying the
  trips in time order rebuilds a ledger and recomputes every stored result; nothing in the
  order of the rows or the ties between instants matters.
\<close>

section \<open>A sound history\<close>

definition trip_ok :: "decimal \<Rightarrow> (rat \<Rightarrow> bool) \<Rightarrow> trip \<Rightarrow> bool" where
  "trip_ok D R t \<longleftrightarrow> 0 < tr_tokens t \<and> R (tr_tokens t) \<and> 0 \<le> tr_cost_usd t \<and> R (tr_cost_usd t)
     \<and> (case tr_close t of None \<Rightarrow> True | Some c \<Rightarrow>
          tr_opened_at t < closed_at c \<and> 0 \<le> tc_usd_out c \<and> R (tc_usd_out c)
          \<and> 0 \<le> tc_exit_fees_usd c \<and> R (tc_exit_fees_usd c)
          \<and> Option.bind (checked_sub D (tc_usd_out c) (tc_exit_fees_usd c))
              (\<lambda>v. checked_sub D v (tr_cost_usd t)) = Some (tc_net_pnl_usd c))"

definition ended_before :: "trip \<Rightarrow> int \<Rightarrow> bool" where
  "ended_before t tm \<longleftrightarrow> (case tr_close t of None \<Rightarrow> False | Some c \<Rightarrow> closed_at c < tm)"

definition apart :: "trip \<Rightarrow> trip \<Rightarrow> bool" where
  "apart t u \<longleftrightarrow> ended_before t (tr_opened_at u) \<or> ended_before u (tr_opened_at t)"

definition history_ok :: "decimal \<Rightarrow> (rat \<Rightarrow> bool) \<Rightarrow> trip list \<Rightarrow> bool" where
  "history_ok D R ts \<longleftrightarrow> (\<forall>t \<in> set ts. trip_ok D R t) \<and> distinct (map tr_id ts)
     \<and> (\<forall>t \<in> set ts. \<forall>u \<in> set ts. tr_id t \<noteq> tr_id u \<and> tr_mint t = tr_mint u \<longrightarrow> apart t u)"

text \<open>The trips that are held after the events \<open>pre\<close>.\<close>

definition opens :: "trip \<Rightarrow> replay_event" where
  "opens t = (tr_opened_at t, 1, tr_id t, t)"

definition closes :: "trip \<Rightarrow> trip_close \<Rightarrow> replay_event" where
  "closes t c = (closed_at c, 0, tr_id t, t)"

definition held_after :: "trip list \<Rightarrow> replay_event list \<Rightarrow> trip set" where
  "held_after ts pre = {t \<in> set ts. opens t \<in> set pre
     \<and> (\<forall>c. tr_close t = Some c \<longrightarrow> closes t c \<notin> set pre)}"

definition ledger_matches :: "trip set \<Rightarrow> replay_event list \<Rightarrow> ledger \<Rightarrow> bool" where
  "ledger_matches H pre l \<longleftrightarrow> set (lots l) = position_of ` H \<and> distinct (map pos_mint (lots l))
     \<and> open_trips l = [] \<and> (\<forall>tm. last_event_at l = Some tm \<longrightarrow> (\<exists>e \<in> set pre. fst e = tm))"

section \<open>Selling a whole lot\<close>

lemma add_zero: "decimal_laws D R \<Longrightarrow> R x \<Longrightarrow> checked_add D 0 x = Some x"
  using op_law_exact [OF laws_add, of D R 0 x] laws_neg laws_zero by fastforce

lemma sub_self: "decimal_laws D R \<Longrightarrow> R x \<Longrightarrow> checked_sub D x x = Some 0"
  using op_law_exact [OF laws_sub, of D R x x] laws_zero by fastforce

lemma mint_lots_unique:
  assumes "distinct (map pos_mint ls)" and "x \<in> set ls"
  shows "mint_lots (pos_mint x) ls = [x]"
  using assms by (induction ls) (auto simp: mint_lots_def filter_empty_conv image_iff)

lemma mint_lots_none: "m \<notin> pos_mint ` set ls \<Longrightarrow> filter (\<lambda>x. pos_mint x \<noteq> m) ls = ls"
  by (induction ls) auto

lemma consume_none: "m \<notin> pos_mint ` set ls \<Longrightarrow> consume_lots D m ls left cost oldest = Ok (ls, left, cost, oldest)"
  by (induction ls) auto

lemma consume_whole:
  assumes laws: "decimal_laws D R" and "distinct (map pos_mint ls)" and "x \<in> set ls"
    and x: "R (tokens x)" "0 < tokens x" "R (cost_usd x)"
  shows "consume_lots D (pos_mint x) ls (tokens x) 0 None =
    Ok (map (\<lambda>y. if pos_mint y = pos_mint x then y\<lparr>tokens := 0, cost_usd := 0\<rparr> else y) ls, 0,
        cost_usd x, Some (opened_at x))"
  using assms(2,3)
proof (induction ls)
  case (Cons y ls)
  note ops = add_zero [OF laws x(3)] sub_self [OF laws x(1)] sub_self [OF laws x(3)]
  show ?case
  proof (cases "y = x")
    case True
    then have m: "pos_mint x \<notin> pos_mint ` set ls" using Cons.prems(1) by simp
    then have "map (\<lambda>y. if pos_mint y = pos_mint x then y\<lparr>tokens := 0, cost_usd := 0\<rparr> else y) ls = ls"
      by (intro map_idI) (metis image_eqI)
    with True m ops x(2) show ?thesis
      by (simp add: lot_share_def op_sub_def consume_none Let_def)
  next
    case False
    then have "x \<in> set ls" using Cons.prems(2) by simp
    moreover have "pos_mint y \<noteq> pos_mint x" using Cons.prems(1) calculation by force
    ultimately show ?thesis using Cons by simp
  qed
qed simp

lemma kept_lots: "\<forall>y \<in> set ls. 0 < tokens y \<Longrightarrow>
    filter (\<lambda>y. tokens y \<noteq> 0)
      (map (\<lambda>y. if pos_mint y = m then y\<lparr>tokens := 0, cost_usd := 0\<rparr> else y) ls)
    = filter (\<lambda>y. pos_mint y \<noteq> m) ls"
  by (induction ls) auto

lemma close_whole:
  assumes laws: "decimal_laws D R" and l: "distinct (map pos_mint (lots l))" "open_trips l = []"
      "\<forall>y \<in> set (lots l). 0 < tokens y" "x \<in> set (lots l)"
    and x: "R (tokens x)" "R (cost_usd x)"
    and amounts: "0 \<le> out" "R out" "0 \<le> fees" "R fees"
    and net: "Option.bind (checked_sub D out fees) (\<lambda>v. checked_sub D v (cost_usd x)) = Some net"
    and ord: "check_order l tm = Ok ()"
  obtains l' where "ledger_close D l (pos_mint x) (tokens x) out fees tm = Ok (net, l')"
    and "lots l' = filter (\<lambda>y. pos_mint y \<noteq> pos_mint x) (lots l)" and "open_trips l' = []"
    and "last_event_at l' = Some tm"
proof -
  let ?m = "pos_mint x"
  let ?ls = "map (\<lambda>y. if pos_mint y = ?m then y\<lparr>tokens := 0, cost_usd := 0\<rparr> else y) (lots l)"
  have pos: "0 < tokens x" using l(3,4) by blast
  have sum: "checked_sum D (map tokens (mint_lots ?m (lots l))) = Ok (tokens x)"
    using mint_lots_unique [OF l(1,4)] add_zero [OF laws x(1)] by (simp add: checked_sum_def)
  have kept: "filter (\<lambda>y. tokens y \<noteq> 0) ?ls = filter (\<lambda>y. pos_mint y \<noteq> ?m) (lots l)"
    by (rule kept_lots [OF l(3)])
  obtain v where v: "checked_sub D out fees = Some v" "checked_sub D v (cost_usd x) = Some net"
    using net by (auto simp: bind_eq_Some_conv)
  have "R net" using sub_repr [OF laws sub_repr [OF laws amounts(2,4) v(1)] x(2) v(2)] .
  then have trip: "checked_add D (fst (trip_so_far l ?m (Some (opened_at x)) tm)) net = Some net"
    using add_zero [OF laws] l(2) by (simp add: trip_so_far_def)
  let ?l' = "settle_trip l ?m tm ?ls net (snd (trip_so_far l ?m (Some (opened_at x)) tm))"
  have "ledger_close D l ?m (tokens x) out fees tm = Ok (net, ?l')"
    using amounts pos ord sum consume_whole [OF laws l(1,4) x(1) pos x(2)] net trip
    by (simp add: ledger_close_def Let_def)
  moreover have "lots ?l' = filter (\<lambda>y. pos_mint y \<noteq> ?m) (lots l)" "open_trips ?l' = []" "last_event_at ?l' = Some tm"
    using l(2) kept by (simp_all add: settle_trip_def Let_def list_ex_iff al_remove_def)
  ultimately show thesis using that by blast
qed

section \<open>Replaying in time order\<close>

text \<open>\<open>pre\<close> is done and \<open>post\<close> is left of all events in order.\<close>

definition replaying :: "trip list \<Rightarrow> replay_event list \<Rightarrow> replay_event list \<Rightarrow> bool" where
  "replaying ts pre post \<longleftrightarrow> set (pre @ post) = (\<Union>t \<in> set ts. set (trip_events t))
     \<and> sorted (map event_key (pre @ post)) \<and> distinct (pre @ post)"

lemma trip_events_iff: "e \<in> set (trip_events t) \<longleftrightarrow> e = opens t \<or> (\<exists>c. tr_close t = Some c \<and> e = closes t c)"
  by (cases "tr_close t") (auto simp: trip_events_def opens_def closes_def)

lemma replaying_next: "replaying ts pre (e # post) \<Longrightarrow> replaying ts (pre @ [e]) post"
  by (simp add: replaying_def)

lemma replaying_order:
  assumes "replaying ts pre post" and "e \<in> set pre" and "e' \<in> set post"
  shows "fst e \<le> fst e'" and "e \<noteq> e'"
proof -
  have "event_key e \<le> event_key e'"
    using assms unfolding replaying_def by (auto simp: sorted_append)
  then show "fst e \<le> fst e'" by (auto simp: event_key_def less_eq_prod_def)
  show "e \<noteq> e'" using assms unfolding replaying_def by auto
qed

lemma replaying_event:
  assumes "replaying ts pre post" and "t \<in> set ts"
  shows "opens t \<in> set pre \<or> opens t \<in> set post"
    and "tr_close t = Some c \<Longrightarrow> closes t c \<in> set pre \<or> closes t c \<in> set post"
proof -
  have "set pre \<union> set post = (\<Union>t \<in> set ts. set (trip_events t))"
    using assms(1) by (simp add: replaying_def)
  then have all: "e \<in> set pre \<or> e \<in> set post" if "e \<in> set (trip_events t)" for e
    using assms(2) that by blast
  show "opens t \<in> set pre \<or> opens t \<in> set post" by (rule all) (simp add: trip_events_iff)
  show "closes t c \<in> set pre \<or> closes t c \<in> set post" if "tr_close t = Some c"
    by (rule all) (simp add: trip_events_iff that)
qed

lemma trip_times: "trip_ok D R t \<Longrightarrow> tr_close t = Some c \<Longrightarrow> fst (opens t) < fst (closes t c)"
  by (simp add: trip_ok_def opens_def closes_def)

lemma held_unique:
  assumes hist: "history_ok D R ts" and r: "replaying ts pre post"
    and t: "t \<in> held_after ts pre" and u: "u \<in> held_after ts pre" and m: "tr_mint t = tr_mint u"
  shows "t = u"
proof (rule ccontr)
  assume ne: "t \<noteq> u"
  have ts: "t \<in> set ts" "u \<in> set ts" using t u by (simp_all add: held_after_def)
  have late: False if ab: "ended_before a (tr_opened_at b)" and a: "a \<in> held_after ts pre" and b: "b \<in> held_after ts pre" for a b
  proof -
    from ab obtain c where c: "tr_close a = Some c" "closed_at c < tr_opened_at b"
      by (auto simp: ended_before_def split: option.splits)
    have "closes a c \<in> set post" using replaying_event(2) [OF r _ c(1)] a c(1) by (auto simp: held_after_def)
    moreover have "opens b \<in> set pre" using b by (simp add: held_after_def)
    ultimately have "fst (opens b) \<le> fst (closes a c)" using replaying_order(1) [OF r] by blast
    with c(2) show False by (simp add: opens_def closes_def)
  qed
  have "tr_id t \<noteq> tr_id u"
    using hist ts ne unfolding history_ok_def by (metis distinct_map inj_onD)
  then have "apart t u" using hist ts m unfolding history_ok_def by blast
  then show False unfolding apart_def using late t u by blast
qed

lemma held_after_open:
  assumes hist: "history_ok D R ts" and r: "replaying ts pre (opens t # post)" and t: "t \<in> set ts"
  shows "held_after ts (pre @ [opens t]) = insert t (held_after ts pre)" and "t \<notin> held_after ts pre"
proof -
  have "closes t c \<notin> set pre" if c: "tr_close t = Some c" for c
  proof
    assume "closes t c \<in> set pre"
    then have "fst (closes t c) \<le> fst (opens t)" using replaying_order(1) [OF r, of _ "opens t"] by simp
    moreover have "trip_ok D R t" using hist t by (simp add: history_ok_def)
    ultimately show False using trip_times c by fastforce
  qed
  moreover have "opens u = opens v \<longleftrightarrow> u = v" "closes u c \<noteq> opens v" for u v c
    by (auto simp: opens_def closes_def)
  ultimately show "held_after ts (pre @ [opens t]) = insert t (held_after ts pre)"
    using t unfolding held_after_def by auto
  show "t \<notin> held_after ts pre"
    using replaying_order(2) [OF r, of "opens t" "opens t"] by (auto simp: held_after_def)
qed

lemma held_after_close:
  assumes hist: "history_ok D R ts" and r: "replaying ts pre (closes t c # post)" and t: "t \<in> set ts"
    and c: "tr_close t = Some c"
  shows "held_after ts (pre @ [closes t c]) = held_after ts pre - {t}" and "t \<in> held_after ts pre"
proof -
  have ok: "trip_ok D R t" using hist t by (simp add: history_ok_def)
  have "opens t \<in> set pre"
  proof (rule ccontr)
    assume "opens t \<notin> set pre"
    then have "opens t \<in> set (closes t c # post)" using replaying_event(1) [OF r t] by blast
    then have "opens t \<in> set post" by (auto simp: opens_def closes_def)
    then have "fst (closes t c) \<le> fst (opens t)"
      using replaying_order(1) [OF replaying_next [OF r], of "closes t c"] by simp
    then show False using trip_times [OF ok c] by simp
  qed
  moreover have "closes t c \<notin> set pre" using replaying_order(2) [OF r, of "closes t c" "closes t c"] by auto
  ultimately show "t \<in> held_after ts pre" using t c by (simp add: held_after_def)
  have "closes u d = closes t c \<longleftrightarrow> u = t \<and> d = c" if "tr_close u = Some d" for u d
    using that c by (auto simp: closes_def)
  moreover have "opens u \<noteq> closes t c" for u by (simp add: opens_def closes_def)
  ultimately show "held_after ts (pre @ [closes t c]) = held_after ts pre - {t}"
    using c unfolding held_after_def by auto
qed

lemma order_ok:
  assumes "replaying ts pre (e # post)" and "ledger_matches H pre l"
  shows "check_order l (fst e) = Ok ()"
proof (cases "last_event_at l")
  case (Some tm)
  then obtain e' where "e' \<in> set pre" "fst e' = tm" using assms(2) by (auto simp: ledger_matches_def)
  then have "tm \<le> fst e" using replaying_order(1) [OF assms(1), of e' e] by simp
  with Some show ?thesis by (simp add: check_order_def)
qed (simp add: check_order_def)

lemma position_mint [simp]: "pos_mint (position_of t) = tr_mint t"
  by (simp add: position_of_def)

lemma replay_open:
  assumes hist: "history_ok D R ts" and r: "replaying ts pre (opens t # post)" and t: "t \<in> set ts"
    and m: "ledger_matches (held_after ts pre) pre l"
  obtains l' where "replay_one D l (opens t) = Ok l'"
    and "ledger_matches (held_after ts (pre @ [opens t])) (pre @ [opens t]) l'"
proof -
  note h = held_after_open [OF hist r t]
  have ok: "trip_ok D R t" using hist t by (simp add: history_ok_def)
  let ?l = "l\<lparr>last_event_at := Some (tr_opened_at t), lots := lots l @ [position_of t]\<rparr>"
  have "check_order l (tr_opened_at t) = Ok ()" using order_ok [OF r m] by (simp add: opens_def)
  then have "ledger_open l (position_of t) = Ok ?l"
    using ok by (simp add: ledger_open_def position_of_def trip_ok_def)
  then have "replay_one D l (opens t) = Ok ?l" by (simp add: replay_one_def opens_def from_ledger_def)
  moreover have "tr_mint t \<notin> pos_mint ` set (lots l)"
  proof
    assume "tr_mint t \<in> pos_mint ` set (lots l)"
    then obtain u where u: "u \<in> held_after ts pre" "tr_mint u = tr_mint t"
      using m by (auto simp: ledger_matches_def)
    then have "u = t" using held_unique [OF hist replaying_next [OF r], of u t] h(1) by simp
    with u(1) h(2) show False by simp
  qed
  then have "ledger_matches (held_after ts (pre @ [opens t])) (pre @ [opens t]) ?l"
    using m unfolding ledger_matches_def h(1) by (auto simp: opens_def)
  ultimately show thesis by (rule that)
qed

lemma replay_close:
  assumes laws: "decimal_laws D R" and hist: "history_ok D R ts" and r: "replaying ts pre (closes t c # post)"
    and t: "t \<in> set ts" and c: "tr_close t = Some c" and m: "ledger_matches (held_after ts pre) pre l"
  obtains l' where "replay_one D l (closes t c) = Ok l'"
    and "ledger_matches (held_after ts (pre @ [closes t c])) (pre @ [closes t c]) l'"
proof -
  note h = held_after_close [OF hist r t c]
  have ok: "trip_ok D R u" if "u \<in> set ts" for u using hist that by (simp add: history_ok_def)
  let ?x = "position_of t"
  have l: "distinct (map pos_mint (lots l))" "open_trips l = []" "set (lots l) = position_of ` held_after ts pre"
    using m by (simp_all add: ledger_matches_def)
  have pos: "\<forall>y \<in> set (lots l). 0 < tokens y"
    using l(3) ok by (auto simp: held_after_def trip_ok_def position_of_def)
  have x: "?x \<in> set (lots l)" "R (tokens ?x)" "R (cost_usd ?x)" "tokens ?x = tr_tokens t" "cost_usd ?x = tr_cost_usd t"
    using l(3) h(2) ok [OF t] by (simp_all add: trip_ok_def position_of_def)
  have am: "0 \<le> tc_usd_out c" "R (tc_usd_out c)" "0 \<le> tc_exit_fees_usd c" "R (tc_exit_fees_usd c)"
    "Option.bind (checked_sub D (tc_usd_out c) (tc_exit_fees_usd c)) (\<lambda>v. checked_sub D v (cost_usd ?x)) = Some (tc_net_pnl_usd c)"
    using ok [OF t] c x(5) by (simp_all add: trip_ok_def)
  have ord: "check_order l (closed_at c) = Ok ()" using order_ok [OF r m] by (simp add: closes_def)
  obtain l' where l': "ledger_close D l (pos_mint ?x) (tokens ?x) (tc_usd_out c) (tc_exit_fees_usd c) (closed_at c)
      = Ok (tc_net_pnl_usd c, l')"
    "lots l' = filter (\<lambda>y. pos_mint y \<noteq> pos_mint ?x) (lots l)" "open_trips l' = []" "last_event_at l' = Some (closed_at c)"
    by (rule close_whole [OF laws l(1,2) pos x(1,2,3) am ord])
  have "replay_one D l (closes t c) = Ok l'"
    using c l'(1) x(4) by (simp add: replay_one_def closes_def from_ledger_def)
  moreover have "u = t" if "u \<in> held_after ts pre" "tr_mint u = tr_mint t" for u
    using held_unique [OF hist r that(1) h(2)] that(2) by simp
  then have "set (lots l') = position_of ` (held_after ts pre - {t})"
    using l'(2) l(3) by auto
  then have "ledger_matches (held_after ts (pre @ [closes t c])) (pre @ [closes t c]) l'"
    using l' l(1) unfolding ledger_matches_def h(1)
    by (auto simp: closes_def distinct_map_filter)
  ultimately show thesis by (rule that)
qed

lemma replay_from:
  assumes laws: "decimal_laws D R" and hist: "history_ok D R ts"
  shows "replaying ts pre post \<Longrightarrow> ledger_matches (held_after ts pre) pre l \<Longrightarrow>
    \<exists>l'. replay_trips D l post = Ok l' \<and> ledger_matches (held_after ts (pre @ post)) (pre @ post) l'"
proof (induction post arbitrary: pre l)
  case (Cons e post)
  have "e \<in> (\<Union>t \<in> set ts. set (trip_events t))"
    using Cons.prems(1) unfolding replaying_def by auto
  then obtain t where t: "t \<in> set ts" and e: "e = opens t \<or> (\<exists>c. tr_close t = Some c \<and> e = closes t c)"
    by (auto simp: trip_events_iff)
  obtain l1 where l1: "replay_one D l e = Ok l1" "ledger_matches (held_after ts (pre @ [e])) (pre @ [e]) l1"
  proof (cases "e = opens t")
    case True
    with Cons.prems t that show thesis using replay_open [OF hist, of pre t post l] by blast
  next
    case False
    with e obtain c where c: "tr_close t = Some c" "e = closes t c" by blast
    with Cons.prems t that show thesis using replay_close [OF laws hist, of pre t c post l] by blast
  qed
  have "\<exists>l'. replay_trips D l1 post = Ok l' \<and> ledger_matches (held_after ts ((pre @ [e]) @ post)) ((pre @ [e]) @ post) l'"
    by (rule Cons.IH [OF replaying_next [OF Cons.prems(1)] l1(2)])
  then show ?case using l1(1) by simp
qed simp

lemma trip_events_distinct: "distinct (map tr_id ts) \<Longrightarrow> distinct (concat (map trip_events ts))"
proof (induction ts)
  case (Cons t ts)
  have one: "distinct (trip_events t)"
    by (cases "tr_close t") (simp_all add: trip_events_def)
  have "e \<notin> set (trip_events u)" if "e \<in> set (trip_events t)" "u \<in> set ts" for e u
  proof -
    have "tr_id u \<noteq> tr_id t" using Cons.prems that(2) by (metis distinct.simps(2) image_eqI list.set_map list.simps(9))
    with that(1) show ?thesis by (auto simp: trip_events_iff opens_def closes_def)
  qed
  with one Cons show ?case by fastforce
qed simp

lemma replaying_start: "history_ok D R ts \<Longrightarrow> replaying ts [] (replay_events ts)"
  unfolding replaying_def replay_events_def history_ok_def
  by (simp add: trip_events_distinct)

lemma held_after_all: "replaying ts pre [] \<Longrightarrow> held_after ts pre = {t \<in> set ts. tr_close t = None}"
  using replaying_event [of ts pre "[]"] by (auto simp: held_after_def)

lemma history_replays:
  assumes "decimal_laws D R" and "history_ok D R ts"
  obtains l where "replay_trips D ledger_default (replay_events ts) = Ok l"
    and "set (lots l) = position_of ` {t \<in> set ts. tr_close t = None}"
proof -
  have "ledger_matches (held_after ts []) [] ledger_default"
    by (simp add: ledger_matches_def held_after_def ledger_default_def)
  then obtain l where l: "replay_trips D ledger_default (replay_events ts) = Ok l"
    "ledger_matches (held_after ts (replay_events ts)) (replay_events ts) l"
    using replay_from [OF assms replaying_start [OF assms(2)]] by auto
  have "replaying ts (replay_events ts) []" using replaying_start [OF assms(2)] by (simp add: replaying_def)
  with l that show thesis by (simp add: ledger_matches_def held_after_all)
qed

text \<open>A total of at most 100000 costs, each below \<open>10 ^ 20\<close>, fits the package.\<close>

definition cost_total_ok :: "(rat \<Rightarrow> bool) \<Rightarrow> nat \<Rightarrow> rat \<Rightarrow> bool" where
  "cost_total_ok R n a \<longleftrightarrow> R a \<and> 0 \<le> a \<and> a \<le> of_nat n * 10 ^ 20"

definition cost_ok :: "(rat \<Rightarrow> bool) \<Rightarrow> cost \<Rightarrow> bool" where
  "cost_ok R c \<longleftrightarrow> R (co_usd c) \<and> digits_ok 20 (co_usd c)"

lemma add_cost_total:
  assumes laws: "decimal_laws D R" and a: "cost_total_ok R n a" and u: "R u" "digits_ok 20 u" and n: "n < MAX_LEDGER_ROWS"
  obtains b where "Paper.add_cost D a u = Ok b" and "cost_total_ok R (Suc n) b"
proof -
  let ?r = "of_nat (Suc n) * 10 ^ 20 :: rat"
  have "Suc n * 10 ^ 20 < 2 ^ 96" using n by (simp add: MAX_LEDGER_ROWS_def)
  then have r: "R ?r" using laws_nat [OF laws, of "Suc n * 10 ^ 20"] by (simp only: of_nat_mult of_nat_power of_nat_numeral)
  have le: "0 \<le> a + u" "a + u \<le> ?r" and u0: "0 \<le> u"
    using a u(2) by (simp_all add: cost_total_ok_def digits_ok_def algebra_simps)
  note law = laws_add [OF laws _ u(1), of a]
  have aR: "R a" using a by (simp add: cost_total_ok_def)
  obtain b where b: "checked_add D a u = Some b" using op_law_total [OF law [OF aR] r] le by auto
  have "b \<le> ?r" by (rule faithful_le [OF op_law_faithful [OF law [OF aR] b] r le(2)])
  moreover have "0 \<le> b" "R b"
    using op_law_nonneg [OF law [OF aR] laws_zero [OF laws] le(1) b] op_law_repr [OF law [OF aR] b] .
  ultimately show thesis using that b u0 by (simp add: Paper.add_cost_def cost_total_ok_def)
qed

lemma replay_costs_total:
  assumes laws: "decimal_laws D R"
  shows "\<forall>c \<in> set cs. cost_ok R c \<Longrightarrow> n + length cs \<le> MAX_LEDGER_ROWS \<Longrightarrow>
    cost_total_ok R n (failed_tx_fees_usd l) \<Longrightarrow> cost_total_ok R n (ai_cost_usd l) \<Longrightarrow>
    \<exists>l'. replay_costs D l cs = Ok l'"
proof (induction cs arbitrary: l n)
  case (Cons c cs)
  have u: "R (co_usd c)" "digits_ok 20 (co_usd c)" and n: "n < MAX_LEDGER_ROWS" using Cons.prems(1,2) by (simp_all add: cost_ok_def)
  have mono: "cost_total_ok R (Suc n) a" if "cost_total_ok R n a" for a
    using that by (auto simp: cost_total_ok_def algebra_simps)
  obtain f where f: "Paper.add_cost D (failed_tx_fees_usd l) (co_usd c) = Ok f" "cost_total_ok R (Suc n) f"
    by (rule add_cost_total [OF laws Cons.prems(3) u n])
  obtain g where g: "Paper.add_cost D (ai_cost_usd l) (co_usd c) = Ok g" "cost_total_ok R (Suc n) g"
    by (rule add_cost_total [OF laws Cons.prems(4) u n])
  let ?l = "case co_kind c of KindFailedTx \<Rightarrow> l\<lparr>failed_tx_fees_usd := f\<rparr> | KindAiCost \<Rightarrow> l\<lparr>ai_cost_usd := g\<rparr>"
  have "replay_costs D l (c # cs) = replay_costs D ?l cs"
    using f(1) g(1) by (cases "co_kind c") (simp_all add: record_failed_tx_def record_ai_cost_def from_ledger_def)
  moreover have "\<exists>l'. replay_costs D ?l cs = Ok l'"
    by (rule Cons.IH [of "Suc n"])
      (use Cons.prems f(2) g(2) mono in \<open>auto split: cost_kind.split\<close>)
  ultimately show ?case by simp
qed simp

lemma replay_one_costs:
  assumes "replay_one D l e = Ok l'"
  shows "failed_tx_fees_usd l' = failed_tx_fees_usd l \<and> ai_cost_usd l' = ai_cost_usd l"
proof -
  obtain tm k i t where e: "e = (tm, k, i, t)" by (cases e)
  have settle: "failed_tx_fees_usd (settle_trip l m tm ls x y) = failed_tx_fees_usd l
      \<and> ai_cost_usd (settle_trip l m tm ls x y) = ai_cost_usd l" for m tm ls x y
    by (simp add: settle_trip_def Let_def)
  have sold: "failed_tx_fees_usd l2 = failed_tx_fees_usd l \<and> ai_cost_usd l2 = ai_cost_usd l"
    if "ledger_close D l m toks u f tm = Ok (net, l2)" for m toks u f tm net l2
    using ledger_close_Ok [OF that] settle by metis
  show ?thesis
  proof (cases "if k = 0 then tr_close t else None")
    case None
    then show ?thesis
      using assms e by (auto simp: replay_one_def from_ledger_def ledger_open_def res_simps split: res.splits if_splits)
  next
    case (Some c)
    then show ?thesis
      using assms e sold by (auto simp: replay_one_def from_ledger_def split: res.splits if_splits)
  qed
qed

lemma replay_trips_costs:
  "replay_trips D l es = Ok l' \<Longrightarrow> failed_tx_fees_usd l' = failed_tx_fees_usd l \<and> ai_cost_usd l' = ai_cost_usd l"
proof (induction es arbitrary: l)
  case (Cons e es)
  then obtain l1 where "replay_one D l e = Ok l1" "replay_trips D l1 es = Ok l'" by (auto simp: res_simps)
  then show ?case using replay_one_costs Cons.IH by metis
qed simp

lemma replay_costs_lots: "replay_costs D l cs = Ok l' \<Longrightarrow> lots l' = lots l"
proof (induction cs arbitrary: l)
  case (Cons c cs)
  then obtain l1 where "from_ledger (case co_kind c of
      KindFailedTx \<Rightarrow> record_failed_tx D l (co_usd c)
    | KindAiCost \<Rightarrow> record_ai_cost D l (co_usd c)) = Ok l1" and l1: "replay_costs D l1 cs = Ok l'"
    by (auto simp: res_simps)
  then have "lots l1 = lots l"
    by (auto simp: record_failed_tx_def record_ai_cost_def from_ledger_def res_simps split: cost_kind.splits res.splits)
  then show ?case using Cons.IH [OF l1] by simp
qed simp

lemma replay_total:
  assumes laws: "decimal_laws D R" and "history_ok D R ts" and "\<forall>c \<in> set cs. cost_ok R c" and "length cs \<le> MAX_LEDGER_ROWS"
  shows "\<exists>l. replay D ts cs = Ok l \<and> set (lots l) = position_of ` {t \<in> set ts. tr_close t = None}"
proof -
  obtain l where l: "replay_trips D ledger_default (replay_events ts) = Ok l"
    "set (lots l) = position_of ` {t \<in> set ts. tr_close t = None}"
    using history_replays [OF assms(1,2)] by blast
  have "failed_tx_fees_usd l = 0" "ai_cost_usd l = 0"
    using replay_trips_costs [OF l(1)] by (simp_all add: ledger_default_def)
  then obtain l' where l': "replay_costs D l cs = Ok l'"
    using replay_costs_total [OF laws assms(3), of 0 l] assms(4) laws_zero [OF laws]
    by (auto simp: cost_total_ok_def)
  with l replay_costs_lots [OF l'] show ?thesis by (simp add: replay_def)
qed

lemma history_ok_filter: "history_ok D R ts \<Longrightarrow> history_ok D R (filter p ts)"
  by (auto simp: history_ok_def distinct_map_filter)

lemma history_ok_perm:
  assumes "history_ok D R ts" and "mset us = mset ts"
  shows "history_ok D R us"
proof -
  have "set us = set ts" using assms(2) by (metis set_mset_mset)
  moreover have "mset (map tr_id us) = mset (map tr_id ts)" using assms(2) by simp
  then have "distinct (map tr_id us) \<longleftrightarrow> distinct (map tr_id ts)" by (metis mset_eq_imp_distinct_iff)
  ultimately show ?thesis using assms(1) by (simp add: history_ok_def)
qed

end
