(* ===== verification/Paper_Run.thy ===== *)
theory Paper_Run
  imports Paper_Replay
begin

text \<open>
  The invariant of the paper tables and why every tick keeps it, whatever the market, the clock,
  the random source and the database connection do: the schema holds, the stored trips are a
  sound history in the sense of \<open>Paper_Replay\<close>, at most ten positions are held, and every cost fits
  its column. \<open>after\<close> relates the tables to the event clock of a tick.
\<close>

section \<open>The invariant\<close>

definition row_trip :: "trip_row \<Rightarrow> trip" where
  "row_trip r = \<lparr>tr_id = rw_id r, tr_mint = rw_mint r, tr_version = rw_version r,
     tr_tokens = rw_tokens r, tr_cost_usd = rw_cost_usd r,
     tr_entry_liquidity_usd = rw_entry_liquidity_usd r, tr_opened_at = rw_opened_at r,
     tr_exit_failures = rw_exit_failures r, tr_stuck = (rw_status r = ''stuck''),
     tr_close = (case rw_closed_at r of None \<Rightarrow> None | Some t \<Rightarrow> Some \<lparr>closed_at = t,
       tc_usd_out = the (rw_usd_out r), tc_exit_fees_usd = the (rw_exit_fees_usd r),
       tc_net_pnl_usd = the (rw_net_pnl_usd r), tc_exit_reason = the (rw_exit_reason r)\<rparr>)\<rparr>"

definition stored :: "paper_db \<Rightarrow> trip list" where
  "stored db = map row_trip (db_trips db)"

definition held_rows :: "paper_db \<Rightarrow> trip_row list" where
  "held_rows db = filter (\<lambda>r. rw_status r \<noteq> ''closed'') (db_trips db)"

definition db_inv :: "decimal \<Rightarrow> (rat \<Rightarrow> bool) \<Rightarrow> paper_db \<Rightarrow> bool" where
  "db_inv D R db \<longleftrightarrow> trips_assert (db_trips db) \<and> history_ok D R (stored db)
     \<and> length (held_rows db) \<le> MAX_OPEN_POSITIONS \<and> (\<forall>c \<in> set (db_costs db). cost_ok R (snd c))"

text \<open>Every event of the stored trips is at most \<open>prev\<close>.\<close>

definition after :: "int option \<Rightarrow> paper_db \<Rightarrow> bool" where
  "after prev db \<longleftrightarrow> (\<forall>r \<in> set (db_trips db). \<exists>l. prev = Some l \<and> rw_opened_at r \<le> l
     \<and> (\<forall>t. rw_closed_at r = Some t \<longrightarrow> t \<le> l))"

text \<open>A later state of the same trip.\<close>

definition extends :: "trip \<Rightarrow> trip \<Rightarrow> bool" where
  "extends t t' \<longleftrightarrow> tr_id t' = tr_id t \<and> tr_mint t' = tr_mint t \<and> tr_opened_at t' = tr_opened_at t
     \<and> (\<forall>c. tr_close t = Some c \<longrightarrow> tr_close t' = Some c)"

section \<open>Rows and trips\<close>

lemma known_Inr: "e \<in> set s \<Longrightarrow> known e s = Inr e"
  unfolding known_def by (metis (mono_tags, lifting) find_None_iff find_Some_iff option.case(2) option.exhaust)

lemma trip_of_row_ok: "row_assert r \<Longrightarrow> trip_of_row r = Inr (row_trip r)"
  unfolding row_assert_def row_status_ok_def
  by (auto simp: trip_of_row_def row_trip_def row_close_def opt_ok_def known_Inr split: option.splits)

lemma trips_of_rows_ok: "list_all row_assert rs \<Longrightarrow> trips_of_rows rs = Inr (map row_trip rs)"
  by (induction rs) (simp_all add: trip_of_row_ok)

lemma row_assert_held: "row_assert r \<Longrightarrow> rw_status r \<noteq> ''closed'' \<longleftrightarrow> tr_close (row_trip r) = None"
  by (auto simp: row_assert_def row_status_ok_def row_trip_def)

lemma row_trip_ids: "map tr_id (map row_trip rs) = map rw_id rs"
  by (simp add: row_trip_def)

lemma ended_before_extends: "extends t t' \<Longrightarrow> ended_before t tm \<Longrightarrow> ended_before t' tm"
  by (auto simp: extends_def ended_before_def split: option.splits)

lemma apart_extends: "extends t t' \<Longrightarrow> extends u u' \<Longrightarrow> apart t u \<Longrightarrow> apart t' u'"
  using ended_before_extends unfolding apart_def extends_def by metis

lemma history_ok_extends:
  assumes hist: "history_ok D R (map f xs)" and ext: "\<And>x. x \<in> set xs \<Longrightarrow> extends (f x) (g x)"
    and ok: "\<And>x. x \<in> set xs \<Longrightarrow> trip_ok D R (g x)"
  shows "history_ok D R (map g xs)"
proof -
  have ids: "tr_id (g x) = tr_id (f x)" "tr_mint (g x) = tr_mint (f x)" if "x \<in> set xs" for x
    using ext [OF that] by (simp_all add: extends_def)
  then have "map tr_id (map g xs) = map tr_id (map f xs)" by simp
  moreover have "apart (g x) (g y)" if "x \<in> set xs" "y \<in> set xs" "tr_id (g x) \<noteq> tr_id (g y)" "tr_mint (g x) = tr_mint (g y)" for x y
  proof -
    have "apart (f x) (f y)" using hist that ids unfolding history_ok_def by auto
    then show ?thesis using apart_extends ext that(1,2) by blast
  qed
  moreover have "distinct (map tr_id (map f xs))" using hist by (simp add: history_ok_def)
  ultimately show ?thesis using ok by (auto simp: history_ok_def simp del: map_map)
qed

section \<open>Single writes\<close>

abbreviation is_held :: "trip_row \<Rightarrow> bool" where
  "is_held r \<equiv> rw_status r \<noteq> ''closed''"

lemma write_trips_Inr: "write_trips db rs = Inr db' \<longleftrightarrow> trips_assert rs \<and> db' = db\<lparr>db_trips := rs\<rparr>"
  by (auto simp: write_trips_def)

lemma update_where_held:
  "\<forall>r \<in> set rs. p r \<longrightarrow> is_held r \<and> is_held (f r) \<Longrightarrow>
     length (filter is_held (update_where p f rs)) = length (filter is_held rs)"
  "\<forall>r \<in> set rs. p r \<longrightarrow> is_held r \<and> \<not> is_held (f r) \<Longrightarrow>
     length (filter is_held (update_where p f rs)) + length (filter p rs) = length (filter is_held rs)"
  by (induction rs) (auto simp: update_where_def)

lemma update_inv:
  assumes inv: "db_inv D R db" and w: "write_trips db (update_where p f (db_trips db)) = Inr db'"
    and upd: "\<And>r. r \<in> set (db_trips db) \<Longrightarrow> p r \<Longrightarrow> extends (row_trip r) (row_trip (f r))
      \<and> trip_ok D R (row_trip (f r))"
    and held: "length (held_rows db') \<le> length (held_rows db)"
  shows "db_inv D R db'"
proof -
  let ?g = "\<lambda>r. row_trip (if p r then f r else r)"
  from w have db': "db' = db\<lparr>db_trips := update_where p f (db_trips db)\<rparr>"
    and a: "trips_assert (update_where p f (db_trips db))" by (simp_all add: write_trips_Inr)
  have hist: "history_ok D R (map row_trip (db_trips db))" using inv by (simp add: db_inv_def stored_def)
  have "history_ok D R (map ?g (db_trips db))"
  proof (rule history_ok_extends [OF hist])
    fix r assume r: "r \<in> set (db_trips db)"
    show "extends (row_trip r) (?g r)" using upd [OF r] by (auto simp: extends_def)
    show "trip_ok D R (?g r)" using upd [OF r] hist r by (auto simp: history_ok_def)
  qed
  then have "history_ok D R (stored db')"
    by (simp add: db' stored_def update_where_def comp_def)
  with inv a held show ?thesis by (simp add: db_inv_def db')
qed

lemma row_trip_closed: "row_trip (closed_row c r) = (row_trip r)\<lparr>tr_stuck := False, tr_close := Some c\<rparr>"
  by (simp add: row_trip_def closed_row_def)

lemma trip_ok_close:
  assumes "trip_ok D R t" and "tr_opened_at t < closed_at c" and "0 \<le> tc_usd_out c" and "R (tc_usd_out c)"
    and "0 \<le> tc_exit_fees_usd c" and "R (tc_exit_fees_usd c)"
    and "Option.bind (checked_sub D (tc_usd_out c) (tc_exit_fees_usd c)) (\<lambda>v. checked_sub D v (tr_cost_usd t)) = Some (tc_net_pnl_usd c)"
  shows "trip_ok D R (t\<lparr>tr_stuck := b, tr_close := Some c\<rparr>)"
  using assms by (simp add: trip_ok_def)

lemma close_trip_inv:
  assumes inv: "db_inv D R db" and aft: "after prev db" and c: "close_trip db i c = Inr (b, db')"
    and row: "r \<in> set (db_trips db)" "rw_id r = i"
    and tm: "\<And>l. prev = Some l \<Longrightarrow> l < closed_at c"
    and ok: "0 \<le> tc_usd_out c" "R (tc_usd_out c)" "0 \<le> tc_exit_fees_usd c" "R (tc_exit_fees_usd c)"
      "Option.bind (checked_sub D (tc_usd_out c) (tc_exit_fees_usd c)) (\<lambda>v. checked_sub D v (rw_cost_usd r)) = Some (tc_net_pnl_usd c)"
  shows "db_inv D R db'" and "after (Some (closed_at c)) db'"
    and "b \<Longrightarrow> length (held_rows db') + 1 = length (held_rows db)"
    and "\<forall>x \<in> set (db_trips db). rw_id x \<noteq> i \<longrightarrow> x \<in> set (db_trips db')"
proof -
  let ?p = "is_open_row i" and ?f = "closed_row c"
  from c have w: "write_trips db (update_where ?p ?f (db_trips db)) = Inr db'"
    and b: "b \<longleftrightarrow> length (filter ?p (db_trips db)) = 1"
    by (auto simp: close_trip_def split: if_splits sum.splits)
  then have db': "db_trips db' = update_where ?p ?f (db_trips db)" by (simp add: write_trips_Inr)
  have a: "trips_assert (db_trips db)" using inv by (simp add: db_inv_def)
  have hist: "\<forall>x \<in> set (db_trips db). trip_ok D R (row_trip x)"
    using inv by (simp add: db_inv_def history_ok_def stored_def)
  have only: "x = r" if "x \<in> set (db_trips db)" "?p x" for x
    using that row a inj_onD [of rw_id "set (db_trips db)" x r]
    by (simp add: trips_assert_def is_open_row_def distinct_map)
  have cnt: "length (held_rows db') + length (filter ?p (db_trips db)) = length (held_rows db)"
    unfolding held_rows_def db'
    by (rule update_where_held(2)) (auto simp: is_open_row_def closed_row_def)
  then show "b \<Longrightarrow> length (held_rows db') + 1 = length (held_rows db)" using b by simp
  have open_row_trip: "extends (row_trip x) (row_trip (?f x)) \<and> trip_ok D R (row_trip (?f x))"
    if x: "x \<in> set (db_trips db)" "?p x" for x
  proof -
    obtain l where l: "prev = Some l" "rw_opened_at x \<le> l" using aft x(1) by (auto simp: after_def)
    have "row_assert x" using a x(1) by (simp add: trips_assert_def list_all_iff)
    then have "tr_close (row_trip x) = None" using row_assert_held [of x] x(2) by (simp add: is_open_row_def)
    then have "extends (row_trip x) (row_trip (?f x))" by (simp add: extends_def row_trip_closed)
    moreover have "tr_opened_at (row_trip x) < closed_at c" using tm [OF l(1)] l(2) by (simp add: row_trip_def)
    moreover have "tr_cost_usd (row_trip x) = rw_cost_usd r" using only [OF x] by (simp add: row_trip_def)
    ultimately show ?thesis
      unfolding row_trip_closed using trip_ok_close [OF _ _ ok(1-4)] hist x(1) ok(5) by simp
  qed
  show "db_inv D R db'" by (rule update_inv [OF inv w open_row_trip]) (use cnt in simp_all)
  show "after (Some (closed_at c)) db'"
    using aft tm unfolding after_def db' update_where_def by (fastforce simp: closed_row_def)
  show "\<forall>x \<in> set (db_trips db). rw_id x \<noteq> i \<longrightarrow> x \<in> set (db_trips db')"
    unfolding db' update_where_def by (force simp: is_open_row_def)
qed

lemma row_trip_failed: "row_trip (failed_row cap r) =
    (row_trip r)\<lparr>tr_exit_failures := rw_exit_failures r + 1, tr_stuck := rw_exit_failures r + 1 \<ge> cap\<rparr>"
  by (simp add: row_trip_def failed_row_def split: option.split)

lemma trip_ok_failed: "trip_ok D R (t\<lparr>tr_exit_failures := n, tr_stuck := b\<rparr>) = trip_ok D R t"
  by (cases "tr_close t") (simp_all add: trip_ok_def)

lemma record_exit_failure_inv:
  assumes inv: "db_inv D R db" and aft: "after prev db" and c: "record_exit_failure db i cap = Inr (b, db')"
  shows "db_inv D R db'" and "after prev db'"
    and "length (held_rows db') = length (held_rows db)"
    and "\<forall>x \<in> set (db_trips db). rw_id x \<noteq> i \<longrightarrow> x \<in> set (db_trips db')"
proof -
  let ?p = "is_open_row i" and ?f = "failed_row cap"
  from c have w: "write_trips db (update_where ?p ?f (db_trips db)) = Inr db'"
    by (auto simp: record_exit_failure_def split: sum.splits)
  then have db': "db_trips db' = update_where ?p ?f (db_trips db)" by (simp add: write_trips_Inr)
  have hist: "\<forall>x \<in> set (db_trips db). trip_ok D R (row_trip x)"
    using inv by (simp add: db_inv_def history_ok_def stored_def)
  have upd: "extends (row_trip x) (row_trip (?f x)) \<and> trip_ok D R (row_trip (?f x))"
    if "x \<in> set (db_trips db)" for x
    using hist that unfolding row_trip_failed trip_ok_failed by (simp add: extends_def)
  show cnt: "length (held_rows db') = length (held_rows db)"
    unfolding held_rows_def db'
    by (rule update_where_held(1)) (auto simp: is_open_row_def failed_row_def)
  show "db_inv D R db'" by (rule update_inv [OF inv w upd]) (use cnt in simp_all)
  show "after prev db'"
    using aft unfolding after_def db' update_where_def by (fastforce simp: failed_row_def)
  show "\<forall>x \<in> set (db_trips db). rw_id x \<noteq> i \<longrightarrow> x \<in> set (db_trips db')"
    unfolding db' update_where_def by (force simp: is_open_row_def)
qed

lemma hm_insert_vals: "(k', v') \<in> set (hm_insert k v m) \<Longrightarrow> (k', v') = (k, v) \<or> (k', v') \<in> set m"
  by (induction m) (auto split: if_splits)

lemma store_add_cost_inv:
  assumes laws: "decimal_laws D R" and inv: "db_inv D R db" and u: "R usd"
    and ok: "store_add_cost D db k ver usd tm = Inr (v, db')"
  shows "db_inv D R db'" and "db_trips db' = db_trips db"
proof -
  let ?key = "(ver, k, utc_date tm)"
  from ok obtain tot where t: "digits_ok 20 tot" and
    sum: "(case al_get (db_costs db) ?key of Some c \<Rightarrow> checked_add D (co_usd c) usd | None \<Rightarrow> Some usd) = Some tot" and
    db': "db' = db\<lparr>db_costs := hm_insert ?key \<lparr>co_kind = k, co_usd = tot, co_at = tm, co_version = ver\<rparr> (db_costs db)\<rparr>"
    by (auto simp: store_add_cost_def Let_def split: if_splits option.splits)
  then show "db_trips db' = db_trips db" by simp
  have old: "cost_ok R c" if "(i, c) \<in> set (db_costs db)" for i c
    using inv that by (force simp: db_inv_def)
  have "R tot"
  proof (cases "al_get (db_costs db) ?key")
    case (Some c)
    then have "R (co_usd c)" using old map_of_SomeD by (fastforce simp: cost_ok_def)
    then show ?thesis using add_repr [OF laws _ u] Some sum by simp
  qed (use u sum in simp)
  then have "cost_ok R (snd c)" if "c \<in> set (db_costs db')" for c
    using that t old hm_insert_vals [of "fst c" "snd c"] by (fastforce simp: db' cost_ok_def)
  then show "db_inv D R db'" using inv by (simp add: db_inv_def db' stored_def held_rows_def)
qed

lemma after_same: "db_trips db' = db_trips db \<Longrightarrow> after prev db' = after prev db"
  by (simp add: after_def)

lemma held_same: "db_trips db' = db_trips db \<Longrightarrow> held_rows db' = held_rows db"
  by (simp add: held_rows_def)

lemma open_row_trip: "tr_close t = None \<Longrightarrow> \<not> tr_stuck t \<Longrightarrow> tr_exit_failures t = 0 \<Longrightarrow> row_trip (open_row t) = t"
  by (simp add: row_trip_def open_row_def)

lemma open_trip_apart:
  assumes inv: "db_inv D R db" and aft: "after prev db" and tm: "\<And>l. prev = Some l \<Longrightarrow> l < tr_opened_at t"
    and slots: "tr_mint t \<notin> rw_slot ` set (db_trips db)" and r: "r \<in> set (db_trips db)" "rw_mint r = tr_mint t"
  shows "ended_before (row_trip r) (tr_opened_at t)"
proof -
  have ra: "row_assert r" using inv r(1) by (simp add: db_inv_def trips_assert_def list_all_iff)
  have "rw_slot r \<noteq> rw_mint r" using slots r by (metis image_eqI)
  then obtain c where c: "rw_closed_at r = Some c" using ra by (auto simp: row_assert_def row_status_ok_def)
  then have "c < tr_opened_at t" using aft r(1) tm by (fastforce simp: after_def)
  with c show ?thesis by (simp add: ended_before_def row_trip_def)
qed

lemma open_trip_inv:
  assumes inv: "db_inv D R db" and aft: "after prev db" and c: "open_trip db t = Inr (u, db')"
    and tm: "\<And>l. prev = Some l \<Longrightarrow> l < tr_opened_at t" and ok: "trip_ok D R t"
    and room: "length (held_rows db) < MAX_OPEN_POSITIONS"
  shows "db_inv D R db'" and "after (Some (tr_opened_at t)) db'"
    and "length (held_rows db') = length (held_rows db) + 1"
proof -
  from c have fresh: "row_trip (open_row t) = t" and w: "write_trips db (db_trips db @ [open_row t]) = Inr db'"
    by (auto simp: open_trip_def open_row_trip split: if_splits sum.splits)
  then have db': "db' = db\<lparr>db_trips := db_trips db @ [open_row t]\<rparr>"
    and a: "trips_assert (db_trips db @ [open_row t])" by (simp_all add: write_trips_Inr)
  have hist: "history_ok D R (map row_trip (db_trips db))" using inv by (simp add: db_inv_def stored_def)
  have slots: "tr_mint t \<notin> rw_slot ` set (db_trips db)" and ids: "tr_id t \<notin> rw_id ` set (db_trips db)"
    using a by (auto simp: trips_assert_def open_row_def)
  have apart: "ended_before (row_trip r) (tr_opened_at t)" if "r \<in> set (db_trips db)" "tr_mint (row_trip r) = tr_mint t" for r
    using open_trip_apart [OF inv aft tm slots that(1)] that(2) by (simp add: row_trip_def)
  have "distinct (map tr_id (map row_trip (db_trips db) @ [t]))"
    using hist ids by (auto simp: history_ok_def row_trip_def)
  moreover have "apart x y" if "x \<in> set (map row_trip (db_trips db) @ [t])" "y \<in> set (map row_trip (db_trips db) @ [t])"
    "tr_id x \<noteq> tr_id y" "tr_mint x = tr_mint y" for x y
    using that apart hist unfolding history_ok_def apart_def by auto
  ultimately have "history_ok D R (stored db')"
    using hist ok unfolding history_ok_def stored_def db' by (auto simp: fresh)
  moreover show cnt: "length (held_rows db') = length (held_rows db) + 1"
    by (simp add: held_rows_def db' open_row_def)
  ultimately show "db_inv D R db'" using inv a room by (simp add: db_inv_def db')
  show "after (Some (tr_opened_at t)) db'"
    using aft tm unfolding after_def db' by (fastforce simp: open_row_def)
qed

lemma bounded_write_cases:
  assumes "bounded_write f db r = (res, db')"
  shows "db' = db \<or> (\<exists>x. r = Inr (x, db'))" and "\<And>x. res = Ok x \<Longrightarrow> r = Inr (x, db')"
  using assms by (auto simp: bounded_write_def effect_of_def split: db_fault.splits sum.splits if_splits)

section \<open>What the market answers\<close>

text \<open>Every number a provider, the profile or a row gives is a decimal of the package.\<close>

definition pair_repr :: "(rat \<Rightarrow> bool) \<Rightarrow> pair \<Rightarrow> bool" where
  "pair_repr R q \<longleftrightarrow> (\<forall>v. pr_price_usd q = Some v \<longrightarrow> R v) \<and> (\<forall>v. pr_liquidity q = Some (Some v) \<longrightarrow> R v)"

definition snapshot_repr :: "(rat \<Rightarrow> bool) \<Rightarrow> token_snapshot \<Rightarrow> bool" where
  "snapshot_repr R s \<longleftrightarrow> R (price_usd s) \<and> R (liquidity_usd s)"

definition profile_repr :: "(rat \<Rightarrow> bool) \<Rightarrow> paper_profile \<Rightarrow> bool" where
  "profile_repr R p \<longleftrightarrow> R (network_fee_usd (costs p)) \<and> R (priority_fee_usd (costs p)) \<and> R (max_position_usd p)"

lemma main_pair_in: "main_pair pairs m = Some q \<Longrightarrow> q \<in> set pairs"
proof -
  have "foldl (\<lambda>acc p. case acc of None \<Rightarrow> Some p
        | Some q \<Rightarrow> if liquidity_key q \<le> liquidity_key p then Some p else Some q) a xs = Some q
      \<Longrightarrow> q \<in> set xs \<or> a = Some q" for a xs
    by (induction xs arbitrary: a) (fastforce split: option.splits if_splits)+
  then show "main_pair pairs m = Some q \<Longrightarrow> q \<in> set pairs" unfolding main_pair_def by fastforce
qed

lemma pair_snapshot_repr:
  assumes "decimal_laws D R" and "pair_repr R q" and "pair_snapshot E D q now = Some s"
  shows "snapshot_repr R s"
proof -
  have "price_usd s = or_zero (pr_price_usd q)" "liquidity_usd s = or_zero (Option.bind (pr_liquidity q) id)"
    using assms(3) by (auto simp: pair_snapshot_def to_snapshot_def snapshot_fields_def Let_def split: if_splits)
  with assms(1,2) show ?thesis
    by (auto simp: snapshot_repr_def pair_repr_def or_zero_def laws_zero split: option.splits bind_splits)
qed

text \<open>A fill is positive, and its fees are representable whether it went through or not.\<close>

fun fill_ok :: "(rat \<Rightarrow> bool) \<Rightarrow> fill \<Rightarrow> bool" where
  "fill_ok R (Filled out fees) \<longleftrightarrow> 0 < out \<and> R out \<and> 0 \<le> fees \<and> R fees"
| "fill_ok R (FailedFill fees) \<longleftrightarrow> 0 \<le> fees \<and> R fees"

lemma attempt_ok:
  assumes laws: "decimal_laws D R" and c: "R (network_fee_usd c)" "R (priority_fee_usd c)"
    and a: "attempt D c roll r = Ok fl" and r: "\<And>x. is_valid c \<Longrightarrow> r = Ok x \<Longrightarrow> R x"
  shows "fill_ok R fl"
proof -
  have v: "is_valid c" using a by (auto simp: attempt_def split: if_splits)
  obtain out fees where o: "r = Ok out" "0 < out" and f: "checked_add D (network_fee_usd c) (priority_fee_usd c) = Some fees"
    and fl: "fl = Filled out fees \<or> fl = FailedFill fees"
    using a by (auto simp: attempt_def res_simps split: if_splits)
  have "0 \<le> fees" "R fees"
    using add_repr [OF laws c f] add_nonneg [OF laws c _ _ f] v by (simp_all add: is_valid_def)
  with o r [OF v o(1)] fl show ?thesis by auto
qed

lemma fills_ok:
  assumes laws: "decimal_laws D R" and c: "R (network_fee_usd c)" "R (priority_fee_usd c)"
    and r: "R a" "R p" "R liq"
    and f: "buy D a p liq c roll = Ok fl \<or> sell D a p liq c roll = Ok fl"
  shows "fill_ok R fl"
proof -
  obtain q t x y where qt: "reserves D p liq = Ok (q, t)" and at: "attempt D c roll (swap_out D a x y c) = Ok fl"
    and xy: "x = q \<and> y = t \<or> x = t \<and> y = q"
    using f by (auto simp: buy_def sell_def res_simps)
  have xy: "R x" "R y" "0 \<le> x" "0 \<le> y" using reserves_ok(2) [OF laws r(2,3) qt] xy by auto
  have "R out" if "is_valid c" "swap_out D a x y c = Ok out" for out
    using swap_out_ok(2) [OF laws r(1) xy _ that(2)] that(1) by (simp add: is_valid_def)
  then show ?thesis by (rule attempt_ok [OF laws c at])
qed

section \<open>Exits\<close>

definition exit_ok ::
  "decimal \<Rightarrow> (rat \<Rightarrow> bool) \<Rightarrow> string \<Rightarrow> paper_db \<Rightarrow> (trip \<times> int option \<times> tick_stats) ticked \<Rightarrow> bool" where
  "exit_ok D R i db out \<longleftrightarrow> db_inv D R (snd out) \<and>
     (\<forall>t' prev' st. fst out = Ok (t', prev', st) \<longrightarrow> after prev' (snd out)
        \<and> length (held_rows (snd out)) + 1 = length (held_rows db) + (if tr_close t' = None then 1 else 0)
        \<and> (\<forall>x \<in> set (db_trips db). rw_id x \<noteq> i \<longrightarrow> x \<in> set (db_trips (snd out))))"

lemma stamp_later: "prev = Some l \<Longrightarrow> l < stamp prev clock"
  by (simp add: stamp_def)

lemma after_later: "after prev db \<Longrightarrow> (\<And>l. prev = Some l \<Longrightarrow> l < tm) \<Longrightarrow> after (Some tm) db"
  unfolding after_def by fastforce

lemma exit_filled_ok:
  assumes inv: "db_inv D R db" and aft: "after prev db" and row: "r \<in> set (db_trips db)" "row_trip r = t"
    and f: "0 < out" "R out" "0 \<le> fees" "R fees"
  shows "exit_ok D R (tr_id t) db (exit_filled D x reason out fees t prev stats db)"
proof (cases "Option.bind (checked_sub D out fees) (\<lambda>v. checked_sub D v (tr_cost_usd t))")
  case None
  then show ?thesis using inv by (simp add: exit_filled_def exit_ok_def)
next
  case (Some net)
  let ?c = "\<lparr>closed_at = stamp prev (xe_clock x), tc_usd_out = out, tc_exit_fees_usd = fees,
                   tc_net_pnl_usd = net, tc_exit_reason = exit_reason_str reason\<rparr>"
  obtain res db' where w: "bounded_write (xe_close_fault x) db (close_trip db (tr_id t) ?c) = (res, db')" by fastforce
  note W = bounded_write_cases [OF w]
  have i: "rw_id r = tr_id t" "rw_cost_usd r = tr_cost_usd t" using row(2) by (auto simp: row_trip_def)
  have C: "db_inv D R db'' \<and> after (Some (stamp prev (xe_clock x))) db''
      \<and> (b \<longrightarrow> length (held_rows db'') + 1 = length (held_rows db))
      \<and> (\<forall>y \<in> set (db_trips db). rw_id y \<noteq> tr_id t \<longrightarrow> y \<in> set (db_trips db''))"
    if "close_trip db (tr_id t) ?c = Inr (b, db'')" for b db''
    using close_trip_inv [OF inv aft that row(1) i(1)] f Some i(2) by (simp add: stamp_later)
  have "db_inv D R db'" using W(1) C inv by blast
  then show ?thesis
    using Some w W(2) C by (cases res) (auto simp: exit_filled_def exit_ok_def Let_def then_db_def)
qed

lemma count_failure_ok:
  assumes inv: "db_inv D R db" and aft: "after prev db" and t: "tr_close t = None"
  shows "exit_ok D R (tr_id t) db (count_failure x t prev stats db)"
proof -
  obtain res db' where w: "bounded_write (xe_failure_fault x) db
      (record_exit_failure db (tr_id t) EXIT_FAILURE_CAP) = (res, db')" by fastforce
  note W = bounded_write_cases [OF w]
  note F = record_exit_failure_inv [OF inv aft]
  have "db_inv D R db'" using W(1) F(1) inv by blast
  then show ?thesis
    using w W(2) F t by (cases res) (auto simp: count_failure_def exit_ok_def then_db_def split: option.splits)
qed

lemma exit_ok_same: "db_trips db' = db_trips db \<Longrightarrow> exit_ok D R i db' out = exit_ok D R i db out"
  by (simp add: exit_ok_def held_rows_def)

lemma exit_failed_ok:
  assumes laws: "decimal_laws D R" and inv: "db_inv D R db" and aft: "after prev db" and t: "tr_close t = None"
    and f: "R fees"
  shows "exit_ok D R (tr_id t) db (exit_failed D x fees t prev stats db)"
proof -
  let ?tm = "stamp prev (xe_clock x)"
  obtain res db' where w: "bounded_write (xe_cost_fault x) db
      (store_add_cost D db KindFailedTx (tr_version t) fees ?tm) = (res, db')" by fastforce
  have same: "db_inv D R db' \<and> db_trips db' = db_trips db"
    using bounded_write_cases(1) [OF w] store_add_cost_inv [OF laws inv f] inv by blast
  then have "after (Some ?tm) db'"
    using after_later [OF aft stamp_later] after_same [OF conjunct2 [OF same]] by simp
  then have "exit_ok D R (tr_id t) db' (count_failure x t (Some ?tm) st db')" for st
    using count_failure_ok [OF conjunct1 [OF same] _ t] by blast
  then have go: "exit_ok D R (tr_id t) db (count_failure x t (Some ?tm) st db')" for st
    using exit_ok_same [OF conjunct2 [OF same]] by blast
  show ?thesis
  proof (cases res)
    case (Ok u)
    then show ?thesis using go by (simp add: exit_failed_def Let_def then_db_def w)
  qed (use same in \<open>simp_all add: exit_failed_def Let_def then_db_def w exit_ok_def\<close>)
qed

lemma exit_trip_ok:
  assumes laws: "decimal_laws D R" and inv: "db_inv D R db" and aft: "after prev db"
    and row: "r \<in> set (db_trips db)" "row_trip r = t" and t: "tr_close t = None"
    and p: "profile_repr R p" and pairs: "\<forall>q \<in> set pairs. pair_repr R q"
  shows "exit_ok D R (tr_id t) db (exit_trip E D p pairs now x t prev stats db)"
proof -
  have idle: "exit_ok D R (tr_id t) db (Ok (t, prev, st), db)" "exit_ok D R (tr_id t) db (Panic, db)" for st
    using inv aft t by (simp_all add: exit_ok_def)
  have tok: "R (tr_tokens t)" using inv row by (auto simp: db_inv_def history_ok_def stored_def trip_ok_def)
  show ?thesis
  proof (cases "Option.bind (main_pair pairs (tr_mint t)) (\<lambda>q. pair_snapshot E D q now)")
    case (Some s)
    then obtain q where "main_pair pairs (tr_mint t) = Some q" "pair_snapshot E D q now = Some s"
      by (auto simp: bind_eq_Some_conv)
    then have s: "R (price_usd s)" "R (liquidity_usd s)"
      using main_pair_in [of pairs] pairs pair_snapshot_repr [OF laws, of q E now s]
      by (simp_all add: snapshot_repr_def)
    have fill: "fill_ok R fl"
      if "sell D (tr_tokens t) (price_usd s) (liquidity_usd s) (costs p) (xe_roll x) = Ok fl" for fl
      using fills_ok [OF laws _ _ tok s disjI2 [OF that]] p by (simp add: profile_repr_def)
    have out: "exit_ok D R (tr_id t) db (case fl of
        Filled amount_out fees \<Rightarrow> exit_filled D x reason amount_out fees t prev stats db
      | FailedFill fees \<Rightarrow> exit_failed D x fees t prev stats db)" if "fill_ok R fl" for fl reason
      using that exit_filled_ok [OF inv aft row] exit_failed_ok [OF laws inv aft t] by (cases fl) simp_all
    have sold: "exit_ok D R (tr_id t) db (case sell D (tr_tokens t) (price_usd s) (liquidity_usd s) (costs p) (xe_roll x) of
         Panic \<Rightarrow> (Panic, db)
       | Ok (Filled amount_out fees) \<Rightarrow> exit_filled D x reason amount_out fees t prev stats db
       | Ok (FailedFill fees) \<Rightarrow> exit_failed D x fees t prev stats db
       | Err _ \<Rightarrow> count_failure x t prev (stats\<lparr>st_unpriced_exits := st_unpriced_exits stats + 1\<rparr>) db)" for reason
      using out [OF fill] idle(2) count_failure_ok [OF inv aft t]
      by (cases "sell D (tr_tokens t) (price_usd s) (liquidity_usd s) (costs p) (xe_roll x)") simp_all
    show ?thesis
      unfolding exit_trip_def Some option.case
      using idle sold by (simp split: res.split intent_kind.split)
  qed (simp add: exit_trip_def idle)
qed

definition exits_ok ::
  "decimal \<Rightarrow> (rat \<Rightarrow> bool) \<Rightarrow> nat \<Rightarrow> paper_db \<Rightarrow> (trip list \<times> int option \<times> tick_stats) ticked \<Rightarrow> bool" where
  "exits_ok D R n db out \<longleftrightarrow> db_inv D R (snd out) \<and>
     (\<forall>ts' prev' st. fst out = Ok (ts', prev', st) \<longrightarrow> after prev' (snd out)
        \<and> length (held_rows (snd out)) + n = length (held_rows db) + length (filter (\<lambda>t. tr_close t = None) ts'))"

definition stored_held :: "paper_db \<Rightarrow> trip list \<Rightarrow> bool" where
  "stored_held db ts \<longleftrightarrow> distinct (map tr_id ts)
     \<and> (\<forall>t \<in> set ts. tr_close t = None \<and> (\<exists>r \<in> set (db_trips db). row_trip r = t))"

lemma exits_ok_cons:
  assumes "exit_ok D R i db (Ok (t', prev', st), db1)" and "exits_ok D R n db1 out"
  shows "exits_ok D R (Suc n) db
    (then_db out (\<lambda>(ts', prev'', stats'') db''. (Ok (t' # ts', prev'', stats''), db'')))"
proof (cases out)
  case (Pair res db2)
  then show ?thesis
    using assms by (cases res) (auto simp: exits_ok_def exit_ok_def then_db_def split: if_splits)
qed

lemma stored_held_step:
  assumes "stored_held db (t # ts)" and "exit_ok D R (tr_id t) db (Ok v, db1)"
  shows "stored_held db1 ts"
proof -
  have "\<exists>r \<in> set (db_trips db1). row_trip r = u" if u: "u \<in> set ts" for u
  proof -
    from assms(1) u obtain r where r: "r \<in> set (db_trips db)" "row_trip r = u" by (auto simp: stored_held_def)
    have "tr_id t \<notin> tr_id ` set ts" using assms(1) by (simp add: stored_held_def)
    then have "tr_id u \<noteq> tr_id t" using u by (metis image_eqI)
    then have "rw_id r \<noteq> tr_id t" using r(2) by (auto simp: row_trip_def)
    with assms(2) r show ?thesis by (cases v) (auto simp: exit_ok_def)
  qed
  with assms(1) show ?thesis by (simp add: stored_held_def)
qed

lemma exit_loop_ok:
  assumes laws: "decimal_laws D R" and p: "profile_repr R p" and pairs: "\<forall>q \<in> set pairs. pair_repr R q"
  shows "db_inv D R db \<Longrightarrow> after prev db \<Longrightarrow> stored_held db ts \<Longrightarrow>
    exits_ok D R (length ts) db (exit_loop E D p pairs now xs ts prev stats db)"
proof (induction ts arbitrary: prev stats db)
  case Nil
  then show ?case by (simp add: exits_ok_def)
next
  case (Cons t ts)
  obtain r where r: "r \<in> set (db_trips db)" "row_trip r = t" and t: "tr_close t = None"
    using Cons.prems(3) by (auto simp: stored_held_def)
  show ?case
  proof (cases "tr_stuck t")
    case True
    have idle: "exit_ok D R (tr_id t) db (Ok (t, prev, stats), db)"
      using Cons.prems t by (simp add: exit_ok_def)
    with True show ?thesis
      using exits_ok_cons [OF idle Cons.IH [OF Cons.prems(1,2) stored_held_step [OF Cons.prems(3) idle]]] by simp
  next
    case False
    obtain res db1 where x: "exit_trip E D p pairs now (xs (tr_id t)) t prev stats db = (res, db1)" by fastforce
    have ok: "exit_ok D R (tr_id t) db (res, db1)"
      using exit_trip_ok [OF laws Cons.prems(1,2) r t p pairs] x by metis
    show ?thesis
    proof (cases res)
      case (Ok v)
      obtain t' prev' st where v: "v = (t', prev', st)" by (cases v)
      have "exits_ok D R (length ts) db1 (exit_loop E D p pairs now xs ts prev' st db1)"
        by (rule Cons.IH) (use stored_held_step [OF Cons.prems(3)] ok Ok v in \<open>auto simp: exit_ok_def\<close>)
      then show ?thesis using exits_ok_cons ok Ok v False x by (simp add: then_db_def [of "(Ok _, _)"])
    qed (use ok False x in \<open>simp_all add: exits_ok_def exit_ok_def then_db_def\<close>)
  qed
qed

section \<open>Entries\<close>

definition entry_inv :: "decimal \<Rightarrow> (rat \<Rightarrow> bool) \<Rightarrow> entry_state \<Rightarrow> bool" where
  "entry_inv D R st \<longleftrightarrow> db_inv D R (es_db st) \<and> after (es_prev st) (es_db st) \<and> es_open st = length (held_rows (es_db st))"

definition entry_out :: "decimal \<Rightarrow> (rat \<Rightarrow> bool) \<Rightarrow> (string, 'a) res \<times> entry_state \<Rightarrow> bool" where
  "entry_out D R out \<longleftrightarrow> db_inv D R (es_db (snd out)) \<and> (\<forall>v. fst out = Ok v \<longrightarrow> entry_inv D R (snd out))"

lemma insert_candidate_inv:
  "db_inv D R db \<Longrightarrow> insert_candidate db c = Inr (u, db') \<Longrightarrow> db_inv D R db' \<and> db_trips db' = db_trips db"
  by (auto simp: insert_candidate_def db_inv_def stored_def held_rows_def split: if_splits)

lemma entry_inv_same:
  assumes "entry_inv D R st" and "db_inv D R db'" and "db_trips db' = db_trips (es_db st)"
    and "es_db st' = db'" "es_open st' = es_open st" "es_prev st' = es_prev st"
  shows "entry_inv D R st'"
  using assms by (simp add: entry_inv_def after_def held_rows_def)

lemma observe_entry_inv:
  assumes "entry_inv D R st" and "observe_entry p pairs e m st = (ob, reason, st')"
  shows "entry_inv D R st'" and "es_open st' = es_open st" and "ob = Some s \<Longrightarrow> en_snapshot e = Some s"
proof -
  have "\<exists>c. es_db st' = es_db st \<or>
      es_db st' = snd (bounded_write (en_candidate_fault e) (es_db st) (insert_candidate (es_db st) c))"
    using arg_cong [OF assms(2), of "\<lambda>x. es_db (snd (snd x))"] by (simp add: observe_entry_def Let_def split: if_splits) metis+
  then obtain c where db: "es_db st' = es_db st \<or>
      es_db st' = snd (bounded_write (en_candidate_fault e) (es_db st) (insert_candidate (es_db st) c))" by blast
  have eq: "es_open st' = es_open st" "es_prev st' = es_prev st"
    using arg_cong [OF assms(2), of "\<lambda>x. es_open (snd (snd x))"] arg_cong [OF assms(2), of "\<lambda>x. es_prev (snd (snd x))"]
    by (simp_all add: observe_entry_def Let_def)
  show "es_open st' = es_open st" by (rule eq)
  have inv: "db_inv D R (es_db st)" using assms(1) by (simp add: entry_inv_def)
  have "db_inv D R (es_db st') \<and> db_trips (es_db st') = db_trips (es_db st)"
    using db
  proof
    assume w: "es_db st' = snd (bounded_write (en_candidate_fault e) (es_db st) (insert_candidate (es_db st) c))"
    obtain r d where rd: "bounded_write (en_candidate_fault e) (es_db st) (insert_candidate (es_db st) c) = (r, d)" by fastforce
    from bounded_write_cases(1) [OF rd] show ?thesis using insert_candidate_inv [OF inv] inv w rd by auto
  qed (use inv in simp)
  then show "entry_inv D R st'" using entry_inv_same [OF assms(1)] eq by blast
  show "ob = Some s \<Longrightarrow> en_snapshot e = Some s"
    using assms(2) by (auto simp: observe_entry_def Let_def split: if_splits)
qed

lemma open_entry_ok:
  assumes laws: "decimal_laws D R" and inv: "entry_inv D R st" and room: "es_open st < MAX_OPEN_POSITIONS"
    and p: "profile_repr R p" and s: "snapshot_repr R s" and sz: "R sz" "0 \<le> sz"
  shows "entry_out D R (open_entry D p e m s sz st)"
proof -
  let ?ver = "version (strategy p)" and ?tm = "stamp (es_prev st) (en_stamp_clock e)"
  have db: "db_inv D R (es_db st)" "after (es_prev st) (es_db st)" "es_open st = length (held_rows (es_db st))"
    using inv by (simp_all add: entry_inv_def)
  have rep: "R (network_fee_usd (costs p))" "R (priority_fee_usd (costs p))" "R (price_usd s)" "R (liquidity_usd s)"
    using p s by (simp_all add: profile_repr_def snapshot_repr_def)
  have idle: "entry_out D R (v, st)" for v :: "(string, bool) res" using inv db by (simp add: entry_out_def)
  show ?thesis
  proof (cases "buy D sz (price_usd s) (liquidity_usd s) (costs p) (en_roll e)")
    case (Ok fl)
    show ?thesis
    proof (cases fl)
      case (FailedFill fees)
      have f: "R fees" using fills_ok [OF laws rep(1,2) sz(1) rep(3,4) disjI1] Ok FailedFill by fastforce
      obtain r d where w: "bounded_write (en_cost_fault e) (es_db st)
          (store_add_cost D (es_db st) KindFailedTx ?ver fees ?tm) = (r, d)" by fastforce
      have d: "db_inv D R d" "db_trips d = db_trips (es_db st)"
        using bounded_write_cases(1) [OF w] store_add_cost_inv [OF laws db(1) f] db(1) by blast+
      have "after (Some ?tm) d" using after_later [OF db(2) stamp_later] after_same [OF d(2)] by simp
      then show ?thesis using Ok FailedFill w d(1) db(3) held_same [OF d(2)]
        by (cases r) (simp_all add: open_entry_def Let_def entry_out_def entry_inv_def)
    next
      case (Filled out fees)
      have f: "0 < out" "R out" "0 \<le> fees" "R fees"
        using fills_ok [OF laws rep(1,2) sz(1) rep(3,4) disjI1] Ok Filled by fastforce+
      show ?thesis
      proof (cases "checked_add D sz fees")
        case (Some c)
        let ?t = "\<lparr>tr_id = en_trip_id e, tr_mint = m, tr_version = ?ver, tr_tokens = out,
                   tr_cost_usd = c, tr_entry_liquidity_usd = liquidity_usd s, tr_opened_at = ?tm,
                   tr_exit_failures = 0, tr_stuck = False, tr_close = None\<rparr>"
        have "trip_ok D R ?t"
          using f sz(2) add_repr [OF laws sz(1) f(4) Some] add_nonneg [OF laws sz(1) f(4) sz(2) f(3) Some]
          by (simp add: trip_ok_def)
        note O = open_trip_inv [OF db(1,2) _ _ this room [unfolded db(3)]]
        obtain r d where w: "bounded_write (en_open_fault e) (es_db st) (open_trip (es_db st) ?t) = (r, d)" by fastforce
        have later: "\<And>l. es_prev st = Some l \<Longrightarrow> l < tr_opened_at ?t" by (simp add: stamp_later)
        have "db_inv D R d" using bounded_write_cases(1) [OF w] O(1) [OF _ later] db(1) by blast
        moreover have "after (Some ?tm) d \<and> length (held_rows d) = length (held_rows (es_db st)) + 1" if "r = Ok u" for u
          using O(2,3) [OF bounded_write_cases(2) [OF w that] later] by simp
        ultimately show ?thesis using Ok Filled Some w db(3)
          by (cases r) (simp_all add: open_entry_def Let_def entry_out_def entry_inv_def)
      qed (use Ok Filled idle in \<open>simp add: open_entry_def Let_def\<close>)
    qed
  qed (use idle in \<open>simp_all add: open_entry_def Let_def\<close>)
qed

lemma entry_intent:
  assumes laws: "decimal_laws D R" and "profile_repr R p" and "snapshot_repr R s"
    and ok: "evaluate_entry D s (strategy p) (rules p) [] (max_position_usd p) now = Ok intent"
  obtains sz where "apply_research D (amount_in intent) Keep = Ok sz" and "R sz" and "0 \<le> sz"
proof -
  from ok have v: "validate (strategy p) = Ok ()"
    by (cases "validate (strategy p)") (auto simp: evaluate_entry_def)
  then have z: "entry_size D s (strategy p) (max_position_usd p) = Ok (amount_in intent)" "0 < amount_in intent"
    using ok by (auto simp: evaluate_entry_def res_simps split: if_splits)
  have "R (amount_in intent)"
    using entry_size_Ok(4) [OF laws _ _ v z] assms(2,3) by (simp add: profile_repr_def snapshot_repr_def)
  then show thesis using that apply_research_ok [OF laws, of "amount_in intent" Keep] by blast
qed

lemma entry_step_ok:
  assumes laws: "decimal_laws D R" and inv: "entry_inv D R st" and p: "profile_repr R p" "profile_valid D p"
    and e: "\<And>s. en_snapshot e = Some s \<Longrightarrow> snapshot_repr R s"
  shows "entry_out D R (entry_step D p pairs paused e m st)"
proof -
  have idle: "entry_out D R (v, x)" if "entry_inv D R x" for v :: "(string, bool) res" and x
    using that by (simp add: entry_out_def entry_inv_def)
  show ?thesis
  proof (cases "paused \<or> en_paused_before e \<or> es_open st \<ge> max_open_positions p")
    case False
    obtain ob reason st1 where o: "observe_entry p pairs e m st = (ob, reason, st1)" by (metis prod_cases3)
    note O = observe_entry_inv [OF inv o]
    show ?thesis
    proof (cases "if reason = None then ob else None")
      case None
      then show ?thesis using False o O(1) idle by (simp add: entry_step_def)
    next
      case (Some s)
      let ?st = "st1\<lparr>es_stats := (es_stats st1)\<lparr>st_accepted := st_accepted (es_stats st1) + 1\<rparr>\<rparr>"
      have inv2: "entry_inv D R ?st" using O(1) by (simp add: entry_inv_def)
      have room: "es_open ?st < MAX_OPEN_POSITIONS"
        using False O(2) p(2) by (simp add: profile_valid_def MAX_OPEN_POSITIONS_def)
      have s: "snapshot_repr R s" using e O(3) Some by (auto split: if_splits)
      have eq: "entry_step D p pairs paused e m st =
          (case evaluate_entry D s (strategy p) (rules p) [] (max_position_usd p) (en_clock e) of
               Panic \<Rightarrow> (Panic, ?st)
             | Err _ \<Rightarrow> (Ok True, ?st)
             | Ok intent \<Rightarrow>
                 (case apply_research D (amount_in intent) Keep of
                    Panic \<Rightarrow> (Panic, ?st)
                  | Err _ \<Rightarrow> (Ok True, ?st)
                  | Ok sz \<Rightarrow>
                      if paused \<or> en_paused_after e then (Ok False, ?st)
                      else open_entry D p e m s sz ?st))"
        unfolding entry_step_def o using False Some by (simp add: Let_def del: One_nat_def)
      show ?thesis
      proof (cases "evaluate_entry D s (strategy p) (rules p) [] (max_position_usd p) (en_clock e)")
        case (Ok intent)
        from entry_intent [OF laws p(1) s Ok] obtain sz
          where sz: "apply_research D (amount_in intent) Keep = Ok sz" "R sz" "0 \<le> sz" .
        show ?thesis
          unfolding eq using Ok sz(1) idle [OF inv2] open_entry_ok [OF laws inv2 room p(1) s sz(2,3)] by simp
      qed (use eq idle [OF inv2] in simp_all)
    qed
  qed (use inv idle in \<open>simp add: entry_step_def\<close>)
qed

lemma entry_loop_ok:
  assumes laws: "decimal_laws D R" and p: "profile_repr R p" "profile_valid D p"
    and e: "\<And>m s. en_snapshot (es m) = Some s \<Longrightarrow> snapshot_repr R s"
  shows "entry_inv D R st \<Longrightarrow> entry_out D R (entry_loop D p pairs paused es ms st)"
proof (induction ms arbitrary: st)
  case (Cons m ms)
  have ok: "entry_out D R (entry_step D p pairs paused (es m) m st)"
    by (rule entry_step_ok [OF laws Cons.prems p e])
  obtain r st' where rs: "entry_step D p pairs paused (es m) m st = (r, st')" by fastforce
  show ?case
  proof (cases r)
    case (Ok go)
    then have "entry_inv D R st'" using ok rs by (simp add: entry_out_def)
    then show ?thesis using Cons.IH [of st'] rs Ok by (auto simp: entry_out_def entry_inv_def)
  qed (use ok rs in \<open>simp_all add: entry_out_def\<close>)
qed (simp add: entry_out_def entry_inv_def)

section \<open>A tick\<close>

lemma load_held_ok:
  assumes inv: "db_inv D R db" and ok: "load_held_trips db = Inr held"
  shows "stored_held db held" and "length held = length (held_rows db)"
    and "r \<in> set (db_trips db) \<Longrightarrow> is_held r \<Longrightarrow> row_trip r \<in> set held"
proof -
  let ?rs = "sort_key rw_opened_at (held_rows db)"
  have a: "list_all row_assert (db_trips db)" "distinct (map rw_id (db_trips db))"
    using inv by (simp_all add: db_inv_def trips_assert_def)
  have len: "length ?rs \<le> 64" using inv by (simp add: db_inv_def MAX_OPEN_POSITIONS_def)
  have sub: "set ?rs = {r \<in> set (db_trips db). is_held r}" by (auto simp: held_rows_def)
  have "list_all row_assert ?rs" using a(1) sub by (auto simp: list_all_iff)
  then have held: "held = map row_trip ?rs"
    using ok len by (simp add: load_held_trips_def held_rows_def [symmetric] trips_of_rows_ok)
  then show "length held = length (held_rows db)" by simp
  show "r \<in> set (db_trips db) \<Longrightarrow> is_held r \<Longrightarrow> row_trip r \<in> set held" using held sub by auto
  have "distinct (map rw_id ?rs)"
  proof -
    have "distinct (map rw_id (held_rows db))" using a(2) by (simp add: held_rows_def distinct_map_filter)
    then show ?thesis by (metis mset_eq_imp_distinct_iff mset_map mset_sort)
  qed
  moreover have "tr_close (row_trip r) = None" if "r \<in> set ?rs" for r
    using that sub a(1) row_assert_held by (auto simp: list_all_iff)
  ultimately show "stored_held db held"
    unfolding stored_held_def held row_trip_ids using sub by auto
qed

lemma iter_max_ge: "x \<in> set xs \<Longrightarrow> \<exists>m. iter_max xs = Some m \<and> x \<le> m"
proof -
  have "a \<le> foldl max a ys \<and> (\<forall>y \<in> set ys. y \<le> foldl max a ys)" for a :: int and ys
  proof (induction ys arbitrary: a)
    case (Cons y ys)
    from Cons [of "max a y"] have "max a y \<le> foldl max (max a y) ys" "\<forall>z \<in> set ys. z \<le> foldl max (max a y) ys" by auto
    then show ?case by simp
  qed simp
  then show "x \<in> set xs \<Longrightarrow> \<exists>m. iter_max xs = Some m \<and> x \<le> m" by (cases xs) auto
qed

lemma latest_closed:
  assumes inv: "db_inv D R db" and ok: "recent_closed_trips db 1 = Inr latest"
    and r: "r \<in> set (db_trips db)" "rw_status r = ''closed''" "rw_closed_at r = Some t"
  shows "\<exists>c \<in> set (map closed_at (List.map_filter tr_close latest)). t \<le> c"
proof -
  let ?key = "\<lambda>r. case rw_closed_at r of Some t \<Rightarrow> - t | None \<Rightarrow> 0"
  let ?rs = "sort_key ?key (filter (\<lambda>r. rw_status r = ''closed'') (db_trips db))"
  have a: "row_assert x" if "x \<in> set (db_trips db)" for x
    using inv that by (simp add: db_inv_def trips_assert_def list_all_iff)
  have mem: "r \<in> set ?rs" using r by simp
  then obtain q qs where q: "?rs = q # qs" by (cases ?rs) auto
  have "q \<in> set ?rs" unfolding q by simp
  then have qs: "q \<in> set (db_trips db)" "rw_status q = ''closed''" by simp_all
  then obtain u where u: "rw_closed_at q = Some u" using a by (fastforce simp: row_assert_def row_status_ok_def)
  have "?key q \<le> ?key r"
    using sorted_sort_key [of ?key "filter (\<lambda>r. rw_status r = ''closed'') (db_trips db)"] mem unfolding q by auto
  then have "t \<le> u" using u r(3) by simp
  moreover have "latest = [row_trip q]"
    using ok a [OF qs(1)] q by (simp add: recent_closed_trips_def MAX_LIST_def trip_of_row_ok)
  moreover have "\<exists>c. tr_close (row_trip q) = Some c \<and> closed_at c = u" using u by (simp add: row_trip_def)
  ultimately show ?thesis by (auto simp: List.map_filter_def)
qed

lemma latest_event_after:
  assumes inv: "db_inv D R db" and h: "load_held_trips db = Inr held" and l: "recent_closed_trips db 1 = Inr latest"
  shows "after (latest_event held latest cs) db"
  unfolding after_def
proof
  fix r assume r: "r \<in> set (db_trips db)"
  let ?xs = "map tr_opened_at held @ map closed_at (List.map_filter tr_close latest) @ map co_at cs"
  have ra: "row_assert r" using inv r by (simp add: db_inv_def trips_assert_def list_all_iff)
  show "\<exists>l. latest_event held latest cs = Some l \<and> rw_opened_at r \<le> l \<and> (\<forall>t. rw_closed_at r = Some t \<longrightarrow> t \<le> l)"
  proof (cases "is_held r")
    case True
    have "rw_opened_at r \<in> set ?xs" using load_held_ok(3) [OF inv h r True] by (force simp: row_trip_def)
    moreover have "rw_closed_at r = None" using ra True by (auto simp: row_assert_def row_status_ok_def)
    ultimately show ?thesis using iter_max_ge unfolding latest_event_def by auto
  next
    case False
    then obtain t where t: "rw_closed_at r = Some t" using ra by (auto simp: row_assert_def row_status_ok_def)
    obtain c where c: "c \<in> set ?xs" "t \<le> c" using latest_closed [OF inv l r _ t] False by auto
    have "trip_ok D R (row_trip r)" using inv r by (simp add: db_inv_def history_ok_def stored_def)
    then have "rw_opened_at r < t" using t by (simp add: trip_ok_def row_trip_def)
    with c t iter_max_ge [OF c(1)] show ?thesis unfolding latest_event_def by auto
  qed
qed

definition env_repr :: "(rat \<Rightarrow> bool) \<Rightarrow> tick_env \<Rightarrow> bool" where
  "env_repr R env \<longleftrightarrow> (\<forall>ps. te_pairs env = Some ps \<longrightarrow> (\<forall>q \<in> set ps. pair_repr R q))
     \<and> (\<forall>m s. en_snapshot (te_entry env m) = Some s \<longrightarrow> snapshot_repr R s)"

lemma gate_snapshot_inv:
  "db_inv D R db \<Longrightarrow> insert_gate_snapshot db g = Inr (u, db') \<Longrightarrow>
     db_inv D R db' \<and> db_trips db' = db_trips db"
  by (auto simp: insert_gate_snapshot_def db_inv_def stored_def held_rows_def split: if_splits)

lemma tick_report_inv:
  assumes inv: "db_inv D R db" and r: "tick_report D env marks held task db = (res, task', db')"
  shows "db_inv D R db' \<and> db_trips db' = db_trips db \<and> pt_profile task' = pt_profile task
    \<and> hd_paused (pt_handle task') = hd_paused (pt_handle task)"
proof (cases "report_view D env marks held (pt_profile task) db")
  case (Ok rv)
  obtain report view where rv: "rv = (report, view)" by (cases rv)
  obtain x d where w: "bounded_write (te_gate_fault env) db
      (insert_gate_snapshot db (gate_row env (version (strategy (pt_profile task))) report)) = (x, d)" by fastforce
  have "db_inv D R d \<and> db_trips d = db_trips db"
    using bounded_write_cases(1) [OF w] gate_snapshot_inv [OF inv] inv by blast
  then show ?thesis
    using r inv Ok rv w by (cases x) (auto simp: tick_report_def Let_def split: if_splits)
qed (use r inv in \<open>auto simp: tick_report_def\<close>)

lemma pause_state_keeps:
  "pause_state env task db = (b, task') \<Longrightarrow> pt_profile task' = pt_profile task
     \<and> (hd_paused (pt_handle task) \<longrightarrow> hd_paused (pt_handle task'))"
  by (auto simp: pause_state_def pause_now_def split: res.splits)

lemma bounded_read_Ok: "bounded_read f r = Ok x \<longleftrightarrow> f = NoFault \<and> r = Inr x"
  by (auto simp: bounded_read_def split: db_fault.splits sum.splits)

lemma tick_read_Ok:
  assumes inv: "db_inv D R db" and ok: "tick_read env db = Ok (held, prev)"
  shows "stored_held db held" and "length held = length (held_rows db)" and "after prev db"
proof -
  from ok obtain latest cs where h: "load_held_trips db = Inr held" and l: "recent_closed_trips db 1 = Inr latest"
    and p: "prev = latest_event held latest cs"
    by (auto simp: tick_read_def res_simps bounded_read_Ok Let_def split: if_splits)
  show "stored_held db held" "length held = length (held_rows db)" by (rule load_held_ok [OF inv h])+
  show "after prev db" unfolding p by (rule latest_event_after [OF inv h l])
qed

lemma tick_trades_inv:
  assumes laws: "decimal_laws D R" and inv: "db_inv D R db" and env: "env_repr R env"
    and p: "profile_repr R (pt_profile task)" "profile_valid D (pt_profile task)"
    and r: "tick_read env db = Ok (held, prev)"
  shows "db_inv D R (es_db (snd (tick_trades E D env task paused due held prev db)))"
proof -
  let ?pairs = "case te_pairs env of Some ps \<Rightarrow> ps | None \<Rightarrow> []"
  let ?stats = "if te_pairs env = None then stats_default\<lparr>st_provider_errors := 1\<rparr> else stats_default"
  note H = tick_read_Ok [OF inv r]
  have pairs: "\<forall>q \<in> set ?pairs. pair_repr R q" using env by (cases "te_pairs env") (simp_all add: env_repr_def)
  have snap: "\<And>m s. en_snapshot (te_entry env m) = Some s \<Longrightarrow> snapshot_repr R s" using env by (simp add: env_repr_def)
  obtain res db' where x: "exit_loop E D (pt_profile task) ?pairs (te_now env) (te_exit env) held prev ?stats db = (res, db')"
    by fastforce
  have ok: "exits_ok D R (length held) db (res, db')"
    using exit_loop_ok [OF laws p(1) pairs inv H(3,1)] x by metis
  show ?thesis
  proof (cases res)
    case (Ok v)
    obtain held' prev' stats' where v: "v = (held', prev', stats')" by (cases v)
    let ?st = "\<lparr>es_held = held', es_open = length (filter (\<lambda>t. tr_close t = None) held'),
                  es_seen = pt_seen task, es_prev = prev', es_stats = stats', es_db = db'\<rparr>"
    have "entry_inv D R ?st" using ok Ok v H(2) by (simp add: exits_ok_def entry_inv_def)
    then have "entry_out D R (entry_loop D (pt_profile task) ?pairs paused (te_entry env) due ?st)"
      using entry_loop_ok [OF laws p, of "te_entry env"] snap by blast
    then show ?thesis unfolding tick_trades_def Let_def x using Ok v by (simp add: entry_out_def)
  qed (unfold tick_trades_def Let_def x, use ok in \<open>simp_all add: exits_ok_def\<close>)
qed

lemma tick_inv:
  assumes laws: "decimal_laws D R" and inv: "db_inv D R db" and env: "env_repr R env"
    and p: "profile_repr R (pt_profile task)" "profile_valid D (pt_profile task)"
    and t: "tick E D env task db = (res, task', db')"
  shows "db_inv D R db' \<and> pt_profile task' = pt_profile task"
proof (cases "tick_read env db")
  case (Ok hp)
  obtain held prev where hp: "hp = (held, prev)" by (cases hp)
  obtain b task1 where ps: "pause_state env task db = (b, task1)" by fastforce
  have p1: "pt_profile task1 = pt_profile task" using pause_state_keeps [OF ps] by blast
  let ?h = "load_history D (fst (te_history_faults env)) (snd (te_history_faults env)) db (version (strategy (pt_profile task)))"
  let ?due = "case ?h of Ok _ \<Rightarrow> due_mints task1 (sort (remdups (map tr_mint held))) (te_now env) | _ \<Rightarrow> []"
  obtain r st where tt: "tick_trades E D env task1 (b \<or> hd_paused (pt_handle task1)) ?due held prev db = (r, st)" by fastforce
  have dbi: "db_inv D R (es_db st)"
    using tick_trades_inv [OF laws inv env _ _ Ok [unfolded hp], of task1] p p1 tt by (metis snd_conv)
  note T = t [unfolded tick_def Let_def Ok hp ps res.case prod.case tt]
  show ?thesis
  proof (cases "?h = Panic \<or> (\<forall>u. r \<noteq> Ok u) \<or> (\<exists>e. ?h = Err e)")
    case True
    then show ?thesis using T inv dbi p1 by (cases r) (auto split: if_splits)
  next
    case False
    then obtain l u where l: "?h = Ok l" "r = Ok u" by (cases ?h; cases r) auto
    from T [unfolded l] show ?thesis
      using tick_report_inv [OF dbi] p1 by (auto split: prod.splits)
  qed
qed (use t inv in \<open>auto simp: tick_def\<close>)

end
