(* ===== verification/Paper_Service.thy ===== *)
theory Paper_Service
  imports Paper_Run
begin

text \<open>
  The paper trader as a service: starting it (\<open>start\<close> of \<^verbatim>\<open>memecoin.rs\<close>), the loop around its ticks,
  and the owner's routes of \<^verbatim>\<open>src/jarvis-api/src/routes/meme.rs\<close>. A run is any sequence of ticks,
  pauses, retention sweeps and restarts. A tick cancelled by its own timeout leaves the tables as
  a tick does whose next database calls time out without effect.
\<close>

section \<open>Start and loop\<close>

text \<open>The recording of the version and the configured resume, each with what the connection does to it.\<close>

definition start_trader ::
  "paper_profile \<Rightarrow> paper_handle \<Rightarrow> int option \<Rightarrow> db_fault \<Rightarrow> db_fault \<Rightarrow> paper_db \<Rightarrow>
   (string, paper_task) res \<times> paper_db" where
  "start_trader p h resume_paused_at f1 f2 db =
     then_db (bounded_write f1 db (register_strategy_version db (version (strategy p)) (versioned_params p))) (\<lambda>_ db1.
       let db2 = (case resume_paused_at of
             None \<Rightarrow> db1
           | Some t \<Rightarrow> snd (bounded_write f2 db1 (store_resume db1 t)))
       in (Ok (paper_task_new p (h\<lparr>hd_running := True\<rparr>)), db2))"

definition note_start_failure :: "paper_handle \<Rightarrow> paper_handle" where
  "note_start_failure h = snd (note_outcome h (Some ''paper trader did not start; see the Core log''))"

text \<open>One turn of the loop; a panic ends the task and its guard clears \<open>running\<close>.\<close>

definition run_tick :: "conversions \<Rightarrow> decimal \<Rightarrow> tick_env \<Rightarrow> paper_task \<Rightarrow> paper_db \<Rightarrow> paper_task \<times> paper_db" where
  "run_tick E D env task db = (case tick E D env task db of
     (Ok _, t, db') \<Rightarrow> (t\<lparr>pt_handle := snd (note_outcome (pt_handle t) None)\<rparr>, db')
   | (Err e, t, db') \<Rightarrow> (t\<lparr>pt_handle := snd (note_outcome (pt_handle t) (Some e))\<rparr>, db')
   | (Panic, t, db') \<Rightarrow> (t\<lparr>pt_handle := (pt_handle t)\<lparr>hd_running := False\<rparr>\<rparr>, db'))"

section \<open>Routes\<close>

datatype meme_error = BadLimit | PaperUnavailable

definition DEFAULT_LIMIT :: nat where "DEFAULT_LIMIT = 50"

definition limit_of :: "nat option \<Rightarrow> meme_error + nat" where
  "limit_of q = (case q of
     None \<Rightarrow> Inr DEFAULT_LIMIT
   | Some n \<Rightarrow> if 1 \<le> n \<and> n \<le> MAX_LIST then Inr n else Inl BadLimit)"

definition route_read :: "db_fault \<Rightarrow> store_error + 'a \<Rightarrow> meme_error + 'a" where
  "route_read f r = (case bounded_read f r of Ok x \<Rightarrow> Inr x | _ \<Rightarrow> Inl PaperUnavailable)"

record meme_overview =
  mo_enabled :: bool
  mo_running :: bool
  mo_paused :: bool
  mo_paused_at :: "int option"
  mo_last_error :: "string option"
  mo_view :: "paper_view option"

definition overview :: "db_fault \<Rightarrow> paper_handle \<Rightarrow> paper_db \<Rightarrow> meme_error + meme_overview" where
  "overview f h db = (case route_read f (db_control_of db) of
     Inl e \<Rightarrow> Inl e
   | Inr c \<Rightarrow> Inr \<lparr>mo_enabled = hd_enabled h, mo_running = hd_running h,
       mo_paused = (pc_paused c \<or> hd_paused h), mo_paused_at = pc_paused_at c,
       mo_last_error = hd_last_error h, mo_view = hd_view h\<rparr>)"

definition candidates :: "nat option \<Rightarrow> db_fault \<Rightarrow> paper_db \<Rightarrow> meme_error + candidate list" where
  "candidates q f db = (case limit_of q of
     Inl e \<Rightarrow> Inl e | Inr n \<Rightarrow> route_read f (Inr (recent_candidates db n)))"

definition trades :: "nat option \<Rightarrow> db_fault \<Rightarrow> paper_db \<Rightarrow> meme_error + (trip \<times> trip_close) list" where
  "trades q f db = (case limit_of q of
     Inl e \<Rightarrow> Inl e
   | Inr n \<Rightarrow> (case route_read f (recent_closed_trips db n) of
       Inl e \<Rightarrow> Inl e
     | Inr ts \<Rightarrow> Inr (List.map_filter (\<lambda>t. map_option (Pair t) (tr_close t)) ts)))"

text \<open>The answer, the outcome in the security log, the handle and the tables.\<close>

definition pause_route ::
  "string \<Rightarrow> int \<Rightarrow> db_fault \<Rightarrow> paper_handle \<Rightarrow> paper_db \<Rightarrow> (meme_error + unit) \<times> string \<times> paper_handle \<times> paper_db" where
  "pause_route device now f h db = (case bounded_write f db (store_pause db device now) of
     (Ok _, db') \<Rightarrow> (Inr (), ''paused'', pause_now h, db')
   | (_, db') \<Rightarrow> (Inl PaperUnavailable, ''paused_unpersisted'', pause_now h, db'))"

section \<open>A run\<close>

datatype paper_event =
  TickEvent tick_env
| PauseEvent string int db_fault
| PruneEvent int
| RestartEvent paper_profile "int option" db_fault db_fault

fun paper_step :: "conversions \<Rightarrow> decimal \<Rightarrow> paper_task \<times> paper_db \<Rightarrow> paper_event \<Rightarrow> paper_task \<times> paper_db" where
  "paper_step E D (task, db) (TickEvent env) =
     (if hd_running (pt_handle task) then run_tick E D env task db else (task, db))"
| "paper_step E D (task, db) (PauseEvent device now f) =
     (case pause_route device now f (pt_handle task) db of
        (_, _, h, db') \<Rightarrow> (task\<lparr>pt_handle := h\<rparr>, db'))"
| "paper_step E D (task, db) (PruneEvent now) = (task, snd (prune db now))"
| "paper_step E D (task, db) (RestartEvent p resume f1 f2) =
     (case start_trader p (paper_handle_new True) resume f1 f2 db of
        (Ok task', db') \<Rightarrow> (task', db')
      | (_, db') \<Rightarrow> (paper_task_new p (note_start_failure (paper_handle_new True)), db'))"

definition empty_tables :: paper_db where
  "empty_tables = \<lparr>db_candidates = [], db_versions = [], db_trips = [], db_costs = [], db_gate = [], db_control = None\<rparr>"

fun event_ok :: "decimal \<Rightarrow> (rat \<Rightarrow> bool) \<Rightarrow> paper_event \<Rightarrow> bool" where
  "event_ok D R (TickEvent env) \<longleftrightarrow> env_repr R env"
| "event_ok D R (RestartEvent p _ _ _) \<longleftrightarrow> profile_valid D p \<and> profile_repr R p"
| "event_ok D R _ \<longleftrightarrow> True"

definition service_inv :: "decimal \<Rightarrow> (rat \<Rightarrow> bool) \<Rightarrow> paper_task \<times> paper_db \<Rightarrow> bool" where
  "service_inv D R s \<longleftrightarrow> db_inv D R (snd s) \<and> profile_valid D (pt_profile (fst s)) \<and> profile_repr R (pt_profile (fst s))"

section \<open>The invariant along a run\<close>

text \<open>Calls that leave trips and costs alone.\<close>

definition same_ledger :: "paper_db \<Rightarrow> paper_db \<Rightarrow> bool" where
  "same_ledger db db' \<longleftrightarrow> db_trips db' = db_trips db \<and> db_costs db' = db_costs db"

lemma same_ledger_inv: "same_ledger db db' \<Longrightarrow> db_inv D R db \<Longrightarrow> db_inv D R db'"
  by (simp add: same_ledger_def db_inv_def stored_def held_rows_def)

lemma same_ledger_write:
  assumes "\<And>x d. r = Inr (x, d) \<Longrightarrow> same_ledger db d" and "bounded_write f db r = (res, db')"
  shows "same_ledger db db'"
  using bounded_write_cases(1) [OF assms(2)] assms(1) by (auto simp: same_ledger_def)

lemma same_ledger_control:
  "store_pause db d n = Inr (u, db') \<Longrightarrow> same_ledger db db'"
  "store_resume db t = Inr (b, db') \<Longrightarrow> same_ledger db db'"
  "register_strategy_version db v ps = Inr (u, db') \<Longrightarrow> same_ledger db db'"
  "same_ledger db (snd (prune db now))"
  by (auto simp: same_ledger_def store_pause_def store_resume_def register_strategy_version_def prune_def Let_def
      split: if_splits option.splits prod.splits)

lemma start_trader_keeps:
  assumes "start_trader p h resume f1 f2 db = (res, db')"
  shows "same_ledger db db'" and "res = Ok task \<Longrightarrow> pt_profile task = p"
proof -
  obtain r db1 where w: "bounded_write f1 db (register_strategy_version db (version (strategy p)) (versioned_params p)) = (r, db1)"
    by fastforce
  have s1: "same_ledger db db1" by (rule same_ledger_write [OF same_ledger_control(3) w])
  have s2: "same_ledger db1 (snd (bounded_write f2 db1 (store_resume db1 t)))" for t
    using same_ledger_write [OF same_ledger_control(2) prod.collapse [symmetric]] .
  show "same_ledger db db'"
    using assms s1 s2 w
    by (cases r) (auto simp: start_trader_def then_db_def Let_def same_ledger_def split: option.splits)
  show "res = Ok task \<Longrightarrow> pt_profile task = p"
    using assms w by (cases r) (auto simp: start_trader_def then_db_def paper_task_new_def Let_def)
qed

lemma run_tick_inv:
  assumes "decimal_laws D R" and "service_inv D R (task, db)" and "env_repr R env"
  shows "service_inv D R (run_tick E D env task db)"
proof -
  obtain res t d where t: "tick E D env task db = (res, t, d)" by (metis prod_cases3)
  have "db_inv D R d \<and> pt_profile t = pt_profile task"
    using tick_inv [OF assms(1) _ assms(3) _ _ t] assms(2) by (simp add: service_inv_def)
  with assms(2) t show ?thesis by (cases res) (simp_all add: run_tick_def service_inv_def)
qed

lemma paper_step_inv:
  assumes laws: "decimal_laws D R" and inv: "service_inv D R s" and e: "event_ok D R e"
  shows "service_inv D R (paper_step E D s e)"
proof -
  obtain task db where s: "s = (task, db)" by fastforce
  show ?thesis
  proof (cases e)
    case (TickEvent env)
    then show ?thesis using run_tick_inv [OF laws, of task db env E] inv e s by simp
  next
    case (PauseEvent device now f)
    obtain r d where w: "bounded_write f db (store_pause db device now) = (r, d)" by fastforce
    have "db_inv D R d"
      using same_ledger_inv [OF same_ledger_write [OF same_ledger_control(1) w]] inv s by (simp add: service_inv_def)
    then show ?thesis using inv s w PauseEvent by (cases r) (simp_all add: pause_route_def service_inv_def)
  next
    case (PruneEvent now)
    then show ?thesis using same_ledger_inv [OF same_ledger_control(4)] inv s by (simp add: service_inv_def)
  next
    case (RestartEvent p resume f1 f2)
    obtain r d where w: "start_trader p (paper_handle_new True) resume f1 f2 db = (r, d)" by fastforce
    have "db_inv D R d" using same_ledger_inv [OF start_trader_keeps(1) [OF w]] inv s by (simp add: service_inv_def)
    then show ?thesis
      using start_trader_keeps(2) [OF w] e s w RestartEvent
      by (cases r) (simp_all add: service_inv_def paper_task_new_def)
  qed
qed

text \<open>Runs as a transition system: events that carry numbers the package cannot hold are left out.\<close>

definition paper_request ::
  "conversions \<Rightarrow> decimal \<Rightarrow> (rat \<Rightarrow> bool) \<Rightarrow> paper_task \<times> paper_db \<Rightarrow> paper_event \<Rightarrow> paper_task \<times> paper_db" where
  "paper_request E D R s e = (if event_ok D R e then paper_step E D s e else s)"

interpretation svc: transition_system "paper_request E D R" "\<lambda>s. decimal_laws D R \<longrightarrow> service_inv D R s"
  for E :: conversions and D :: decimal and R :: "rat \<Rightarrow> bool"
  by unfold_locales (simp add: paper_request_def paper_step_inv)

lemma paper_requests:
  "\<forall>e \<in> set es. event_ok D R e \<Longrightarrow> foldl (paper_step E D) s es = foldl (paper_request E D R) s es"
  by (induction es arbitrary: s) (simp_all add: paper_request_def)

lemma run_service_inv:
  assumes "decimal_laws D R" and "service_inv D R s" and "\<forall>e \<in> set es. event_ok D R e"
  shows "service_inv D R (foldl (paper_step E D) s es)"
  using svc.run_inv [of D R s E es] assms paper_requests [OF assms(3), of E s] by simp

section \<open>Loading the history\<close>

lemma load_trips_ok:
  assumes inv: "db_inv D R db" and n: "length (db_trips db) \<le> MAX_LEDGER_ROWS"
  obtains ts where "load_trips db = Inr ts" and "history_ok D R ts" and "set ts = set (stored db)"
proof -
  let ?rs = "sort_key rw_opened_at (db_trips db)"
  have "list_all row_assert ?rs" using inv by (simp add: db_inv_def trips_assert_def list_all_iff)
  then have "load_trips db = Inr (map row_trip ?rs)"
    using n by (simp add: load_trips_def bounded_rows_def trips_of_rows_ok)
  moreover have "history_ok D R (map row_trip ?rs)"
    by (rule history_ok_perm [of _ _ "stored db"]) (use inv in \<open>simp_all add: db_inv_def stored_def\<close>)
  ultimately show thesis using that by (simp add: stored_def)
qed

lemma load_costs_ok:
  assumes inv: "db_inv D R db" and n: "length (db_costs db) \<le> MAX_LEDGER_ROWS"
  obtains cs where "load_costs db = Inr cs" and "\<forall>c \<in> set cs. cost_ok R c" and "length cs \<le> MAX_LEDGER_ROWS"
  using that [of "sort_key co_at (map snd (db_costs db))"] assms
  by (auto simp: load_costs_def bounded_rows_def db_inv_def)

lemma load_history_total:
  assumes laws: "decimal_laws D R" and inv: "db_inv D R db"
    and n: "length (db_trips db) \<le> MAX_LEDGER_ROWS" "length (db_costs db) \<le> MAX_LEDGER_ROWS"
  shows "\<exists>l. load_history D NoFault NoFault db ver = Ok l
    \<and> set (lots l) = position_of ` {t \<in> set (stored db). tr_close t = None \<and> tr_version t = ver}"
proof -
  obtain ts where ts: "load_trips db = Inr ts" "history_ok D R ts" "set ts = set (stored db)"
    by (rule load_trips_ok [OF inv n(1)])
  obtain cs where cs: "load_costs db = Inr cs" "\<forall>c \<in> set cs. cost_ok R c" "length cs \<le> MAX_LEDGER_ROWS"
    by (rule load_costs_ok [OF inv n(2)])
  let ?ts = "filter (\<lambda>t. tr_version t = ver) ts" and ?cs = "filter (\<lambda>c. co_version c = ver) cs"
  have k: "\<forall>c \<in> set ?cs. cost_ok R c" "length ?cs \<le> MAX_LEDGER_ROWS"
    using cs(2,3) order_trans [OF length_filter_le cs(3)] by auto
  obtain l0 where l0: "replay D ts cs = Ok l0" using replay_total [OF laws ts(2) cs(2,3)] by blast
  obtain l where l: "replay D ?ts ?cs = Ok l" "set (lots l) = position_of ` {t \<in> set ?ts. tr_close t = None}"
    using replay_total [OF laws history_ok_filter [OF ts(2)] k] by blast
  have "{t \<in> set ?ts. tr_close t = None} = {t \<in> set (stored db). tr_close t = None \<and> tr_version t = ver}"
    using ts(3) by auto
  moreover have "load_history D NoFault NoFault db ver = Ok l"
    using ts(1) cs(1) l0 l(1) by (simp add: load_history_def bounded_read_def to_message_def)
  ultimately show ?thesis using l(2) by simp
qed

lemma held_mints_distinct:
  assumes "trips_assert rs"
  shows "distinct (map rw_mint (filter is_held rs))"
proof -
  have "map rw_mint (filter is_held rs) = map rw_slot (filter is_held rs)"
    using assms by (auto simp: trips_assert_def list_all_iff row_assert_def row_status_ok_def)
  moreover have "distinct (map rw_slot (filter is_held rs))"
    using assms by (simp add: trips_assert_def distinct_map_filter)
  ultimately show ?thesis by metis
qed

section \<open>Which trips a tick may add\<close>

definition trip_ids :: "paper_db \<Rightarrow> string list" where
  "trip_ids db = map rw_id (db_trips db)"

lemma update_where_ids: "(\<And>r. rw_id (f r) = rw_id r) \<Longrightarrow> map rw_id (update_where p f rs) = map rw_id rs"
  by (simp add: update_where_def)

lemma ids_kept:
  "close_trip db i c = Inr (b, db') \<Longrightarrow> trip_ids db' = trip_ids db"
  "record_exit_failure db i cap = Inr (ob, db') \<Longrightarrow> trip_ids db' = trip_ids db"
  "store_add_cost D db k ver usd tm = Inr (u, db') \<Longrightarrow> trip_ids db' = trip_ids db"
  by (auto simp: close_trip_def record_exit_failure_def store_add_cost_def write_trips_Inr trip_ids_def Let_def
      update_where_ids closed_row_def failed_row_def split: if_splits sum.splits option.splits)

lemma ids_bounded:
  assumes "\<And>x d. r = Inr (x, d) \<Longrightarrow> trip_ids d = trip_ids db"
  shows "trip_ids (snd (bounded_write f db r)) = trip_ids db"
  using bounded_write_cases(1) [of f db r, OF surjective_pairing] assms by metis

lemma then_db_ids:
  assumes "trip_ids (snd r) = ids" and "\<And>x d. trip_ids d = ids \<Longrightarrow> trip_ids (snd (f x d)) = ids"
  shows "trip_ids (snd (then_db r f)) = ids"
  using assms by (cases r; cases "fst r") (auto simp: then_db_def)

lemma count_failure_ids: "trip_ids (snd (count_failure x t prev stats db)) = trip_ids db"
  unfolding count_failure_def
  by (rule then_db_ids [OF ids_bounded [OF ids_kept(2)]]) (auto split: option.split)

lemma exit_filled_ids: "trip_ids (snd (exit_filled D x reason out fees t prev stats db)) = trip_ids db"
  unfolding exit_filled_def Let_def
  by (auto split: option.split intro!: then_db_ids [OF ids_bounded [OF ids_kept(1)]])

lemma exit_failed_ids: "trip_ids (snd (exit_failed D x fees t prev stats db)) = trip_ids db"
  unfolding exit_failed_def Let_def
  by (rule then_db_ids [OF ids_bounded [OF ids_kept(3)]], assumption) (rule trans [OF count_failure_ids])

lemmas exit_parts_ids = count_failure_ids exit_filled_ids exit_failed_ids

lemma exit_trip_ids: "trip_ids (snd (exit_trip E D p pairs now x t prev stats db)) = trip_ids db"
  unfolding exit_trip_def
  by (simp add: exit_parts_ids split: option.split res.split intent_kind.split fill.split)

lemma exit_loop_ids: "trip_ids (snd (exit_loop E D p pairs now xs ts prev stats db)) = trip_ids db"
proof (induction ts arbitrary: prev stats db)
  case (Cons t ts)
  show ?case
  proof (cases "tr_stuck t")
    case True
    show ?thesis unfolding exit_loop.simps if_P [OF True]
      by (rule then_db_ids [OF Cons.IH]) (auto split: prod.split)
  next
    case False
    show ?thesis unfolding exit_loop.simps if_not_P [OF False]
      by (rule then_db_ids [OF exit_trip_ids])
        (auto split: prod.split intro!: then_db_ids simp: Cons.IH)
  qed
qed simp

text \<open>A row that a tick opened: the filter accepted the snapshot of its mint.\<close>

definition opened_ok :: "paper_profile \<Rightarrow> (string \<Rightarrow> entry_env) \<Rightarrow> string list \<Rightarrow> trip_row \<Rightarrow> bool" where
  "opened_ok p es ms r \<longleftrightarrow> rw_mint r \<in> set ms \<and> rw_version r = version (strategy p) \<and>
     (\<exists>s. en_snapshot (es (rw_mint r)) = Some s
        \<and> check s (rules p) [] (en_clock (es (rw_mint r))) = Accept)"

definition rows_ok :: "(trip_row \<Rightarrow> bool) \<Rightarrow> string set \<Rightarrow> paper_db \<Rightarrow> bool" where
  "rows_ok P ids db \<longleftrightarrow> (\<forall>r \<in> set (db_trips db). rw_id r \<in> ids \<or> P r)"

lemma observe_entry_rows:
  assumes "observe_entry p pairs e m st = (ob, reason, st')"
  shows "db_trips (es_db st') = db_trips (es_db st)"
    and "ob = Some s \<Longrightarrow> reason = None \<Longrightarrow> en_snapshot e = Some s \<and> check s (rules p) [] (en_clock e) = Accept"
proof -
  have ins: "db_trips (snd (bounded_write f db (insert_candidate db c))) = db_trips db" for f db c
  proof -
    obtain r d where w: "bounded_write f db (insert_candidate db c) = (r, d)" by fastforce
    show ?thesis using bounded_write_cases(1) [OF w] w by (auto simp: insert_candidate_def split: if_splits)
  qed
  show "db_trips (es_db st') = db_trips (es_db st)"
    using arg_cong [OF assms, of "\<lambda>x. es_db (snd (snd x))"] ins
    by (simp add: observe_entry_def Let_def split: if_splits) metis+
  show "ob = Some s \<Longrightarrow> reason = None \<Longrightarrow> en_snapshot e = Some s \<and> check s (rules p) [] (en_clock e) = Accept"
    using assms by (auto simp: observe_entry_def Let_def split: if_splits verdict.splits)
qed

lemma open_entry_rows:
  assumes rows: "rows_ok (opened_ok p es ms) ids (es_db st)" and m: "m \<in> set ms" "e = es m"
    and acc: "en_snapshot e = Some s" "check s (rules p) [] (en_clock e) = Accept"
  shows "rows_ok (opened_ok p es ms) ids (es_db (snd (open_entry D p e m s sz st)))"
proof -
  let ?ver = "version (strategy p)" and ?tm = "stamp (es_prev st) (en_stamp_clock e)"
  have cost: "rows_ok (opened_ok p es ms) ids d"
    if "bounded_write f (es_db st) (store_add_cost D (es_db st) k v fees tm) = (r, d)" for f k v fees tm r d
    using bounded_write_cases(1) [OF that] rows
    by (auto simp: store_add_cost_def rows_ok_def Let_def split: if_splits option.splits)
  have opn: "rows_ok (opened_ok p es ms) ids d"
    if w: "bounded_write f (es_db st) (open_trip (es_db st) t) = (r, d)" and t: "tr_mint t = m" "tr_version t = ?ver" for f t r d
  proof -
    have "opened_ok p es ms (open_row t)" using m acc t by (simp add: opened_ok_def open_row_def)
    with bounded_write_cases(1) [OF w] rows show ?thesis
      by (auto simp: open_trip_def rows_ok_def write_trips_Inr split: if_splits sum.splits)
  qed
  show ?thesis
    using rows cost opn unfolding open_entry_def Let_def
    by (simp split: res.split fill.split option.split prod.split)
qed

lemma entry_step_rows:
  assumes rows: "rows_ok (opened_ok p es ms) ids (es_db st)" and m: "m \<in> set ms"
  shows "rows_ok (opened_ok p es ms) ids (es_db (snd (entry_step D p pairs paused (es m) m st)))"
proof -
  obtain ob reason st1 where o: "observe_entry p pairs (es m) m st = (ob, reason, st1)" by (metis prod_cases3)
  let ?st = "st1\<lparr>es_stats := (es_stats st1)\<lparr>st_accepted := st_accepted (es_stats st1) + 1\<rparr>\<rparr>"
  have r1: "rows_ok (opened_ok p es ms) ids (es_db st1)" "rows_ok (opened_ok p es ms) ids (es_db ?st)"
    using rows observe_entry_rows(1) [OF o] by (simp_all add: rows_ok_def)
  show ?thesis
  proof (cases "if reason = None then ob else None")
    case None
    then show ?thesis unfolding entry_step_def o using rows r1 by (simp add: Let_def)
  next
    case (Some s)
    then have acc: "en_snapshot (es m) = Some s" "check s (rules p) [] (en_clock (es m)) = Accept"
      using observe_entry_rows(2) [OF o] by (auto split: if_splits)
    have "rows_ok (opened_ok p es ms) ids (es_db (snd (open_entry D p (es m) m s sz ?st)))" for sz
      by (rule open_entry_rows [OF r1(2) m refl acc])
    then show ?thesis
      unfolding entry_step_def o using rows r1 Some
      by (simp add: Let_def del: One_nat_def split: res.split)
  qed
qed

lemma entry_loop_rows:
  assumes "set ns \<subseteq> set ms"
  shows "rows_ok (opened_ok p es ms) ids (es_db st) \<Longrightarrow>
    rows_ok (opened_ok p es ms) ids (es_db (snd (entry_loop D p pairs paused es ns st)))"
  using assms
proof (induction ns arbitrary: st)
  case (Cons m ns)
  obtain r st' where x: "entry_step D p pairs paused (es m) m st = (r, st')" by fastforce
  have "rows_ok (opened_ok p es ms) ids (es_db st')"
    using entry_step_rows [OF Cons.prems(1), of m D pairs paused] Cons.prems(2) x by simp
  then show ?case using x Cons.IH [of st'] Cons.prems(2) by (cases r) auto
qed simp

lemma entry_loop_paused: "entry_loop D p pairs True es ms st = (Ok (), st)"
  by (cases ms) (simp_all add: entry_step_def)

lemma rows_ok_ids: "set (trip_ids db) \<subseteq> ids \<Longrightarrow> rows_ok P ids db"
  by (auto simp: rows_ok_def trip_ids_def)

lemma tick_trades_rows:
  "rows_ok (opened_ok (pt_profile task) (te_entry env) due) (set (trip_ids db))
     (es_db (snd (tick_trades E D env task paused due held prev db)))"
  "paused \<Longrightarrow> trip_ids (es_db (snd (tick_trades E D env task paused due held prev db))) = trip_ids db"
proof -
  obtain r d where x: "exit_loop E D (pt_profile task) (case te_pairs env of Some ps \<Rightarrow> ps | None \<Rightarrow> []) (te_now env)
      (te_exit env) held prev (if te_pairs env = None then stats_default\<lparr>st_provider_errors := 1\<rparr> else stats_default) db
      = (r, d)" by fastforce
  have ids: "trip_ids d = trip_ids db" using exit_loop_ids [of E D "pt_profile task"] x by (metis snd_conv)
  have rows: "rows_ok P (set (trip_ids db)) d" for P using rows_ok_ids ids by simp
  show "rows_ok (opened_ok (pt_profile task) (te_entry env) due) (set (trip_ids db))
     (es_db (snd (tick_trades E D env task paused due held prev db)))"
    unfolding tick_trades_def Let_def x using rows
    by (cases r) (simp_all add: entry_loop_rows split: prod.split)
  show "paused \<Longrightarrow> trip_ids (es_db (snd (tick_trades E D env task paused due held prev db))) = trip_ids db"
    unfolding tick_trades_def Let_def x using ids
    by (cases r) (simp_all add: entry_loop_paused split: prod.split)
qed

lemma tick_report_trips:
  assumes r: "tick_report D env marks held task db = (res, task', db')"
  shows "same_ledger db db' \<and> hd_paused (pt_handle task') = hd_paused (pt_handle task)"
proof (cases "report_view D env marks held (pt_profile task) db")
  case (Ok rv)
  obtain report view where rv: "rv = (report, view)" by (cases rv)
  obtain x d where w: "bounded_write (te_gate_fault env) db
      (insert_gate_snapshot db (gate_row env (version (strategy (pt_profile task))) report)) = (x, d)" by fastforce
  have "same_ledger db d"
    using bounded_write_cases(1) [OF w] by (auto simp: same_ledger_def insert_gate_snapshot_def split: if_splits)
  then show ?thesis
    using r Ok rv w by (cases x) (auto simp: tick_report_def same_ledger_def Let_def split: if_splits)
qed (use r in \<open>auto simp: tick_report_def same_ledger_def\<close>)

definition tick_history :: "decimal \<Rightarrow> tick_env \<Rightarrow> paper_task \<Rightarrow> paper_db \<Rightarrow> (string, ledger) res" where
  "tick_history D env task db = load_history D (fst (te_history_faults env)) (snd (te_history_faults env)) db
     (version (strategy (pt_profile task)))"

text \<open>What a tick does to the trips: nothing, or what its exits and entries did.\<close>

lemma tick_trips:
  assumes t: "tick E D env task db = (res, task', db')"
  shows "db' = db \<and> (hd_paused (pt_handle task) \<longrightarrow> hd_paused (pt_handle task'))
    \<or> (\<exists>held prev b task1 due. tick_read env db = Ok (held, prev) \<and> pause_state env task db = (b, task1)
        \<and> (due = [] \<or> (\<exists>l. tick_history D env task db = Ok l)
             \<and> due = due_mints task1 (sort (remdups (map tr_mint held))) (te_now env))
        \<and> db_trips db' = db_trips (es_db (snd (tick_trades E D env task1 (b \<or> hd_paused (pt_handle task1)) due held prev db)))
        \<and> hd_paused (pt_handle task') = hd_paused (pt_handle task1))"
proof (cases "tick_read env db")
  case (Ok hp)
  obtain held prev where hp: "hp = (held, prev)" by (cases hp)
  obtain b task1 where ps: "pause_state env task db = (b, task1)" by fastforce
  let ?due = "case tick_history D env task db of Ok _ \<Rightarrow> due_mints task1 (sort (remdups (map tr_mint held))) (te_now env) | _ \<Rightarrow> []"
  obtain r st where tt: "tick_trades E D env task1 (b \<or> hd_paused (pt_handle task1)) ?due held prev db = (r, st)" by fastforce
  note T = t [unfolded tick_def Let_def Ok hp ps res.case prod.case tick_history_def [symmetric] tt]
  have P: "hd_paused (pt_handle task) \<longrightarrow> hd_paused (pt_handle task1)" using pause_state_keeps [OF ps] by blast
  show ?thesis
  proof (cases "tick_history D env task db")
    case Panic
    then show ?thesis using T P by auto
  next
    case (Err e)
    then have "db' = es_db st \<and> hd_paused (pt_handle task') = hd_paused (pt_handle task1)"
      using T by (cases r) auto
    then show ?thesis using Ok hp ps tt Err by (intro disjI2 exI [of _ held] exI [of _ prev] exI [of _ b] exI [of _ task1] exI [of _ ?due]) simp
  next
    case (Ok l)
    have "db_trips db' = db_trips (es_db st) \<and> hd_paused (pt_handle task') = hd_paused (pt_handle task1)"
      using T Ok tick_report_trips by (cases r) (fastforce simp: same_ledger_def split: prod.splits)+
    then show ?thesis using \<open>tick_read env db = Ok hp\<close> hp ps tt Ok
      by (intro disjI2 exI [of _ held] exI [of _ prev] exI [of _ b] exI [of _ task1] exI [of _ ?due]) simp
  qed
qed (use t in \<open>auto simp: tick_def\<close>)

lemma tick_paused:
  assumes t: "tick E D env task db = (res, task', db')" and p: "hd_paused (pt_handle task)"
  shows "trip_ids db' = trip_ids db" and "hd_paused (pt_handle task')"
proof -
  have "trip_ids db' = trip_ids db \<and> hd_paused (pt_handle task')"
    using tick_trips [OF t]
  proof
    assume "\<exists>held prev b task1 due. tick_read env db = Ok (held, prev) \<and> pause_state env task db = (b, task1)
        \<and> (due = [] \<or> (\<exists>l. tick_history D env task db = Ok l)
             \<and> due = due_mints task1 (sort (remdups (map tr_mint held))) (te_now env))
        \<and> db_trips db' = db_trips (es_db (snd (tick_trades E D env task1 (b \<or> hd_paused (pt_handle task1)) due held prev db)))
        \<and> hd_paused (pt_handle task') = hd_paused (pt_handle task1)"
    then obtain held prev b task1 due where ps: "pause_state env task db = (b, task1)"
      and d: "db_trips db' = db_trips (es_db (snd (tick_trades E D env task1 (b \<or> hd_paused (pt_handle task1)) due held prev db)))"
      and h: "hd_paused (pt_handle task') = hd_paused (pt_handle task1)" by blast
    have "hd_paused (pt_handle task1)" using pause_state_keeps [OF ps] p by blast
    with d h tick_trades_rows(2) show ?thesis by (simp add: trip_ids_def)
  qed (use p in simp)
  then show "trip_ids db' = trip_ids db" "hd_paused (pt_handle task')" by blast+
qed

lemma due_watched: "m \<in> set (due_mints task held now) \<Longrightarrow> m \<in> set (watchlist (pt_profile task)) \<and> m \<notin> set held"
  unfolding due_mints_def Let_def by (auto dest: in_set_takeD)

lemma pause_state_runs:
  assumes "pause_state env task db = (b, task1)" and "\<not> (b \<or> hd_paused (pt_handle task1))"
  shows "\<not> hd_paused (pt_handle task) \<and> (\<exists>c. bounded_read (te_control_fault env) (db_control_of db) = Ok c \<and> \<not> pc_paused c)"
  using assms by (auto simp: pause_state_def pause_now_def split: res.splits if_splits)

lemma paper_step_paused:
  assumes "hd_paused (pt_handle (fst s))" and "\<And>p t f g. e \<noteq> RestartEvent p t f g"
  shows "trip_ids (snd (paper_step E D s e)) = trip_ids (snd s) \<and> hd_paused (pt_handle (fst (paper_step E D s e)))"
proof -
  obtain task db where s: "s = (task, db)" by fastforce
  show ?thesis
  proof (cases e)
    case (TickEvent env)
    obtain res t d where t: "tick E D env task db = (res, t, d)" by (metis prod_cases3)
    have "trip_ids d = trip_ids db" "hd_paused (pt_handle t)" using tick_paused [OF t] assms(1) s by simp_all
    then show ?thesis using TickEvent s t assms(1) by (cases res) (simp_all add: run_tick_def note_outcome_def)
  next
    case (PauseEvent device now f)
    obtain r d where w: "bounded_write f db (store_pause db device now) = (r, d)" by fastforce
    have "trip_ids d = trip_ids db"
      using same_ledger_write [OF same_ledger_control(1) w] by (simp add: same_ledger_def trip_ids_def)
    then show ?thesis using PauseEvent s w by (cases r) (simp_all add: pause_route_def pause_now_def)
  next
    case (PruneEvent now)
    then show ?thesis using assms(1) s same_ledger_control(4) [of db now] by (simp add: same_ledger_def trip_ids_def)
  qed (use assms(2) in blast)
qed

section \<open>A concrete run\<close>

definition demo_paper_profile :: paper_profile where
  "demo_paper_profile = \<lparr>watchlist = [demo_address], goal_multiple = 3, stake_usd = 1000, max_position_usd = 100,
     max_open_positions = 5, rules = demo_rules, strategy = demo_params, costs = demo_costs, versioned_params = ''{}''\<rparr>"

definition demo_pair :: pair where
  "demo_pair = \<lparr>chain_id = ''solana'', dex_id = ''raydium'', pair_address = ''P'', base_token = demo_address,
     quote_token = USDC_MINT, pr_price_usd = Some 2, pr_liquidity = Some (Some 80000), pr_txns = None,
     pr_price_change = None, pair_created_at = None, pr_boosts = None\<rparr>"

definition demo_entry_env :: entry_env where
  "demo_entry_env = \<lparr>en_paused_before = False, en_snapshot = Some demo_snapshot, en_clock = 1010,
     en_candidate_id = ''c1'', en_candidate_fault = NoFault, en_paused_after = False, en_roll = 1 / 2,
     en_trip_id = ''t1'', en_stamp_clock = 1011, en_open_fault = NoFault, en_cost_fault = NoFault\<rparr>"

definition demo_exit_env :: exit_env where
  "demo_exit_env = \<lparr>xe_roll = 1 / 2, xe_clock = 5000, xe_close_fault = NoFault, xe_cost_fault = NoFault, xe_failure_fault = NoFault\<rparr>"

definition demo_env :: tick_env where
  "demo_env = \<lparr>te_held_fault = NoFault, te_latest_fault = NoFault, te_costs_fault = NoFault, te_clock = 1000,
     te_history_faults = (NoFault, NoFault), te_control_fault = NoFault, te_pairs = Some [demo_pair], te_now = 1005,
     te_exit = (\<lambda>_. demo_exit_env), te_entry = (\<lambda>_. demo_entry_env), te_report_faults = (NoFault, NoFault),
     te_gate_id = ''g1'', te_gate_fault = NoFault\<rparr>"

definition demo_conversions :: conversions where
  "demo_conversions = \<lparr>ceil_to_u32 = (\<lambda>x. Some (nat \<lceil>x\<rceil>)), round_to_i32 = (\<lambda>x. Some (round x)), from_u128 = (\<lambda>n. Some (of_nat n)),
     from_unix_nanos = (\<lambda>t. Some t)\<rparr>"

definition demo_tokens :: rat where "demo_tokens = 49475509622736745 / 10 ^ 12"

lemma demo_buy: "buy dec96 50 (1/1000) 200000 demo_costs (1/2) = Ok (Filled demo_tokens (1/50))"
proof -
  have "\<lfloor>9900000000000000000000 / 200099 :: rat\<rfloor> = 49475509622736745"
    using floor_divide_of_int_eq [of 9900000000000000000000 200099, where 'a = rat] by simp
  then show ?thesis
    by (simp add: buy_def reserves_def op_div_def attempt_def swap_out_def op_sub_def curve_out_def is_valid_def demo_costs_def bps_def eval_simps demo_tokens_def)
qed

lemma demo_intent: "evaluate_entry dec96 demo_snapshot demo_params demo_rules [] 100 1010 =
       Ok \<lparr>strategy_version = 1, ti_mint = mint demo_snapshot, ti_kind = Entry, amount_in = 50,
          max_slippage_bps = 200, created_at = 1010, expires_at = 1010 + 30 * nanos\<rparr>"
    by (simp add: evaluate_entry_def validate_def within_bounds_def bounds_defs demo_params_def
        entry_signal_def entry_size_def bps_def eval_simps)


abbreviation demo_task :: paper_task where
  "demo_task \<equiv> paper_task_new demo_paper_profile ((paper_handle_new True)\<lparr>hd_running := True\<rparr>)"

definition demo_trip :: trip where
  "demo_trip = \<lparr>tr_id = ''t1'', tr_mint = demo_address, tr_version = 1, tr_tokens = demo_tokens, tr_cost_usd = 5002 / 100,
     tr_entry_liquidity_usd = 200000, tr_opened_at = 1011, tr_exit_failures = 0, tr_stuck = False, tr_close = None\<rparr>"

lemma demo_row: "row_assert (open_row demo_trip)"
  by (simp add: row_assert_def open_row_def demo_trip_def demo_address_def is_mint_def is_ascii_alphanumeric_def is_ascii_digit_def byte_def
        list_all_iff row_status_ok_def digits_ok_def opt_ok_def demo_tokens_def)

lemma demo_reads: "tick_read demo_env empty_tables = Ok ([], None)" "tick_history dec96 demo_env demo_task empty_tables = Ok ledger_default"
  "pause_state demo_env demo_task empty_tables = (False, demo_task)" "due_mints demo_task [] 1005 = [demo_address]"
  by (simp_all add: tick_read_def demo_env_def empty_tables_def load_held_trips_def recent_closed_trips_def load_costs_def bounded_rows_def bounded_read_def latest_event_def tick_history_def load_history_def load_trips_def
    replay_def replay_events_def to_message_def pause_state_def db_control_of_def control_default_def due_mints_def paper_task_new_def demo_paper_profile_def MAX_ENTRY_CANDIDATES_PER_TICK_def map_filter_simps)

lemma demo_entry: "\<exists>c st. entry_loop dec96 demo_paper_profile [demo_pair] False (\<lambda>_. demo_entry_env) [demo_address]
   \<lparr>es_held = [], es_open = 0, es_seen = [], es_prev = None, es_stats = stats_default, es_db = empty_tables\<rparr> = (Ok (), st) \<and>
    es_db st = empty_tables\<lparr>db_candidates := [c], db_trips := [open_row demo_trip]\<rparr>"
proof -
  have mp: "main_pair [demo_pair] demo_address = Some demo_pair" by (simp add: main_pair_def demo_pair_def)
  have ck: "check demo_snapshot demo_rules [] 1010 = Accept" by (simp add: eval_simps)
  have im: "is_mint demo_address" 
    by (simp add: demo_address_def is_mint_def is_ascii_alphanumeric_def is_ascii_digit_def byte_def list_all_iff)
  have add: "checked_add dec96 50 (1/50) = Some (5002/100)" by (simp add: eval_simps)
  have ar: "apply_research dec96 50 Keep = Ok 50" by (simp add: apply_research_def)
  have w: "trips_assert [open_row demo_trip]" using demo_row by (simp add: trips_assert_def)
  have t: "demo_trip = \<lparr>tr_id = ''t1'', tr_mint = demo_address, tr_version = 1, tr_tokens = demo_tokens, tr_cost_usd = 5002 / 100,
     tr_entry_liquidity_usd = 200000, tr_opened_at = 1011, tr_exit_failures = 0, tr_stuck = False, tr_close = None\<rparr>" by (simp add: demo_trip_def)
  show ?thesis
    using mp ck im add ar w demo_intent demo_buy
    by (simp add: entry_step_def observe_entry_def demo_paper_profile_def demo_entry_env_def demo_params_def [THEN arg_cong, of version] insert_candidate_def
      empty_tables_def bounded_write_def opt_ok_def digits_ok_def demo_snapshot_def open_entry_def stamp_def open_trip_def write_trips_def t Let_def)
qed

lemma demo_run:
  "\<exists>task' d. paper_step E dec96 (demo_task, empty_tables) (TickEvent demo_env) = (task', d)
     \<and> db_trips d = [open_row demo_trip] \<and> db_costs d = []"
proof -
  obtain c st where e: "entry_loop dec96 demo_paper_profile [demo_pair] False (\<lambda>_. demo_entry_env) [demo_address]
     \<lparr>es_held = [], es_open = 0, es_seen = [], es_prev = None, es_stats = stats_default, es_db = empty_tables\<rparr> = (Ok (), st)"
    and st: "es_db st = empty_tables\<lparr>db_candidates := [c], db_trips := [open_row demo_trip]\<rparr>"
    using demo_entry by blast
  have f: "hd_paused (pt_handle demo_task) = False" "pt_profile demo_task = demo_paper_profile" "pt_seen demo_task = []"
    "hd_running (pt_handle demo_task)" "te_pairs demo_env = Some [demo_pair]" "te_entry demo_env = (\<lambda>_. demo_entry_env)" "te_now demo_env = 1005"
    by (simp_all add: paper_task_new_def paper_handle_new_def demo_env_def)
  have tt: "tick_trades E dec96 demo_env demo_task False [demo_address] [] None empty_tables = (Ok (), st)"
    using e by (simp add: tick_trades_def Let_def f)
  have lh: "load_history dec96 (fst (te_history_faults demo_env)) (snd (te_history_faults demo_env)) empty_tables
      (version (strategy demo_paper_profile)) = Ok ledger_default"
    using demo_reads(2) by (simp add: tick_history_def f)
  obtain r t d where tr: "tick_report dec96 demo_env (tick_marks E dec96 [demo_pair] 1005 (watchlist demo_paper_profile)) (es_held st)
      (demo_task\<lparr>pt_seen := es_seen st\<rparr>) (es_db st) = (r, t, d)" by (metis prod_cases3)
  have "tick E dec96 demo_env demo_task empty_tables = (map_res id (\<lambda>_. es_stats st) r, t, d)"
    unfolding tick_def demo_reads(1,3) Let_def res.case prod.case f lh
    using tt tr demo_reads(4) by simp
  moreover have "same_ledger (es_db st) d" using tick_report_trips [OF tr] by blast
  ultimately show ?thesis using st f(4) by (cases r) (simp_all add: run_tick_def same_ledger_def empty_tables_def)
qed

section \<open>Properties\<close>

text \<open>
  C17. The stored history always loads: after any sequence of ticks, pauses, retention sweeps and
  restarts, whatever the market, the clock, the random source and the database connection did,
  every stored result of every strategy version recomputes from the rows, the rebuilt ledger holds
  exactly the positions the table shows as held, at most ten are held and no mint twice. The row
  limit of the loader is the only way a load can fail.
\<close>

theorem stored_history_always_loads:
  assumes "decimal_laws D R" and "profile_valid D (pt_profile task)" and "profile_repr R (pt_profile task)"
    and "\<forall>e \<in> set es. event_ok D R e" and run: "foldl (paper_step E D) (task, empty_tables) es = (task', db)"
    and rows: "length (db_trips db) \<le> 100000" "length (db_costs db) \<le> 100000"
  shows "(\<exists>l. load_history D NoFault NoFault db ver = Ok l
       \<and> set (lots l) = position_of ` {t \<in> set (stored db). tr_close t = None \<and> tr_version t = ver})
    \<and> length (held_rows db) \<le> 10 \<and> distinct (map rw_mint (held_rows db))"
proof -
  have "service_inv D R (task, empty_tables)"
    using assms(2,3) by (simp add: service_inv_def db_inv_def empty_tables_def trips_assert_def history_ok_def stored_def held_rows_def)
  then have inv: "db_inv D R db" using run_service_inv [OF assms(1) _ assms(4), of _ E] run by (metis service_inv_def snd_conv)
  then have "length (held_rows db) \<le> 10" "trips_assert (db_trips db)" by (simp_all add: db_inv_def MAX_OPEN_POSITIONS_def)
  then show ?thesis
    using load_history_total [OF assms(1) inv] rows held_mints_distinct by (simp add: MAX_LEDGER_ROWS_def held_rows_def)
qed

lemma demo_profile_ok: "profile_valid dec96 demo_paper_profile" "profile_repr dec96_repr demo_paper_profile"
proof -
  have a: "validate_address demo_address = Ok ()" by (simp add: validate_address_def demo_address_def list_all_iff BASE58_def)
  have v: "validate demo_params = Ok ()" by (simp add: validate_def within_bounds_def bounds_defs demo_params_def u32_max_def)
  have m: "checked_mul dec96 100 (of_nat 5) = Some 500" by (simp add: eval_simps)
  show "profile_valid dec96 demo_paper_profile"
    using a v m by (simp add: profile_valid_def demo_paper_profile_def demo_rules_def demo_costs_def is_valid_def nanos_def)
  show "profile_repr dec96_repr demo_paper_profile"
    by (simp add: profile_repr_def demo_paper_profile_def demo_costs_def dec96_small)
qed

lemma demo_event_ok: "event_ok dec96 dec96_repr (TickEvent demo_env)"
  by (simp add: env_repr_def demo_env_def pair_repr_def demo_pair_def snapshot_repr_def demo_entry_env_def demo_snapshot_def dec96_small)

theorem stored_history_always_loads_witness:
  "\<exists>task' db l. foldl (paper_step demo_conversions dec96) (demo_task, empty_tables) [TickEvent demo_env] = (task', db)
    \<and> load_history dec96 NoFault NoFault db 1 = Ok l \<and> set (lots l) = {position_of demo_trip}"
proof -
  obtain task' d where d: "paper_step demo_conversions dec96 (demo_task, empty_tables) (TickEvent demo_env) = (task', d)"
    "db_trips d = [open_row demo_trip]" "db_costs d = []" using demo_run by blast
  have run: "foldl (paper_step demo_conversions dec96) (demo_task, empty_tables) [TickEvent demo_env] = (task', d)" using d(1) by simp
  have "row_trip (open_row demo_trip) = demo_trip" by (simp add: open_row_trip demo_trip_def)
  then have t: "{t \<in> set (stored d). tr_close t = None \<and> tr_version t = 1} = {demo_trip}"
    using d(2) by (auto simp: stored_def demo_trip_def)
  have p: "pt_profile demo_task = demo_paper_profile" by (simp add: paper_task_new_def)
  have "\<exists>l. load_history dec96 NoFault NoFault d 1 = Ok l \<and> set (lots l) = position_of ` {demo_trip}"
    using stored_history_always_loads [OF dec96_laws _ _ _ run, of 1] demo_profile_ok demo_event_ok p d(2,3) unfolding t by simp
  with run show ?thesis by auto
qed

text \<open>
  C18. A pause holds: once the owner pressed pause, even when it could not be written to the
  database, no later tick opens a position, whatever the market offers; exits go on and only a restart
  of the service can end the pause.
\<close>

theorem paused_trader_opens_nothing:
  assumes "\<forall>e \<in> set es. \<forall>p t f g. e \<noteq> RestartEvent p t f g"
  shows "let s' = foldl (paper_step E D) (paper_step E D s (PauseEvent device now fault)) es
    in map rw_id (db_trips (snd s')) = map rw_id (db_trips (snd s)) \<and> hd_paused (pt_handle (fst s'))"
proof -
  let ?s = "paper_step E D s (PauseEvent device now fault)"
  obtain task db where s: "s = (task, db)" by fastforce
  obtain r d where w: "bounded_write fault db (store_pause db device now) = (r, d)" by fastforce
  have "trip_ids (snd ?s) = trip_ids (snd s) \<and> hd_paused (pt_handle (fst ?s))"
    using same_ledger_write [OF same_ledger_control(1) w] s w
    by (cases r) (simp_all add: pause_route_def pause_now_def same_ledger_def trip_ids_def)
  then have "trip_ids (snd (foldl (paper_step E D) ?s es)) = trip_ids (snd s) \<and> hd_paused (pt_handle (fst (foldl (paper_step E D) ?s es)))"
    using assms
  proof (induction es rule: rev_induct)
    case (snoc e es)
    then show ?case using paper_step_paused [of "foldl (paper_step E D) ?s es" e E D] by simp
  qed simp
  then show ?thesis by (simp add: Let_def trip_ids_def)
qed

theorem paused_trader_opens_nothing_witness:
  "db_trips (snd (foldl (paper_step demo_conversions dec96)
     (paper_step demo_conversions dec96 (demo_task, empty_tables) (PauseEvent ''phone'' 900 (CallFails False))) [TickEvent demo_env])) = []"
  using paused_trader_opens_nothing [of "[TickEvent demo_env]" demo_conversions dec96 "(demo_task, empty_tables)" "''phone''" 900 "CallFails False"]
  by (simp add: Let_def empty_tables_def)

text \<open>
  C19. A tick opens only what it may: a new trip is for a watched mint, of the current strategy
  version, in a tick that was not paused and read the pause state, whose stored history replayed,
  and the filter accepted the snapshot the trip was opened on.
\<close>

theorem tick_opens_only_accepted:
  assumes t: "tick E D env task db = (res, task', db')"
    and r: "r \<in> set (db_trips db')" "rw_id r \<notin> rw_id ` set (db_trips db)"
  shows "rw_mint r \<in> set (watchlist (pt_profile task)) \<and> rw_version r = version (strategy (pt_profile task))
    \<and> \<not> hd_paused (pt_handle task)
    \<and> (\<exists>c. bounded_read (te_control_fault env) (db_control_of db) = Ok c \<and> \<not> pc_paused c)
    \<and> (\<exists>l. tick_history D env task db = Ok l)
    \<and> (\<exists>s. en_snapshot (te_entry env (rw_mint r)) = Some s
         \<and> check s (rules (pt_profile task)) [] (en_clock (te_entry env (rw_mint r))) = Accept)"
proof -
  from tick_trips [OF t] r obtain held prev b task1 due where ps: "pause_state env task db = (b, task1)"
    and due: "due = [] \<or> (\<exists>l. tick_history D env task db = Ok l)
       \<and> due = due_mints task1 (sort (remdups (map tr_mint held))) (te_now env)"
    and d: "db_trips db' = db_trips (es_db (snd (tick_trades E D env task1 (b \<or> hd_paused (pt_handle task1)) due held prev db)))"
    by blast
  have p1: "pt_profile task1 = pt_profile task" using pause_state_keeps [OF ps] by blast
  have ids: "rw_id r \<notin> set (trip_ids db)" using r(2) by (simp add: trip_ids_def)
  have ok: "opened_ok (pt_profile task1) (te_entry env) due r"
    using tick_trades_rows(1) [of task1 env due db E D] r(1) ids unfolding d rows_ok_def by blast
  then have m: "rw_mint r \<in> set due" by (simp add: opened_ok_def)
  then have w: "rw_mint r \<in> set (watchlist (pt_profile task))" "\<exists>l. tick_history D env task db = Ok l"
    using due due_watched p1 by fastforce+
  have "\<not> (b \<or> hd_paused (pt_handle task1))"
  proof
    assume "b \<or> hd_paused (pt_handle task1)"
    then have "trip_ids db' = trip_ids db"
      using tick_trades_rows(2) [of "b \<or> hd_paused (pt_handle task1)"] d by (simp add: trip_ids_def)
    then show False using r(1) ids by (metis image_eqI list.set_map trip_ids_def)
  qed
  with w ok p1 pause_state_runs [OF ps] show ?thesis by (simp add: opened_ok_def)
qed

theorem tick_opens_only_accepted_witness:
  "\<exists>res task' db'. tick demo_conversions dec96 demo_env demo_task empty_tables = (res, task', db')
    \<and> open_row demo_trip \<in> set (db_trips db') \<and> check demo_snapshot demo_rules [] 1010 = Accept"
proof -
  obtain res t d where t: "tick demo_conversions dec96 demo_env demo_task empty_tables = (res, t, d)" by (metis prod_cases3)
  have "hd_running (pt_handle demo_task)" by (simp add: paper_task_new_def)
  then have "db_trips d = [open_row demo_trip]"
    using demo_run [of demo_conversions] t by (cases res) (auto simp: run_tick_def)
  then have r: "open_row demo_trip \<in> set (db_trips d)" by simp
  have "check demo_snapshot demo_rules [] 1010 = Accept"
    using tick_opens_only_accepted [OF t r]
    by (simp add: empty_tables_def paper_task_new_def demo_paper_profile_def demo_env_def demo_entry_env_def)
  with t r show ?thesis by blast
qed

end
