(* ===== verification/Identity_Tables.thy ===== *)
theory Identity_Tables
  imports Approval
begin

text \<open>
  The tables of \<^verbatim>\<open>src/crates/identity/src/surreal.rs\<close> and \<^verbatim>\<open>account.rs\<close> with the schema under \<^verbatim>\<open>src/schema/surreal\<close>, and
  every statement that changes them. The database runs a statement, or a whole transaction, at
  once, or refuses it and changes nothing: a \<open>THROW\<close>, a broken \<open>ASSERT\<close> or \<open>UNIQUE\<close> index is \<open>None\<close>. The
  number a statement returns is the number of rows it claimed. An identifier is the sixteen bytes of
  a UUID; the tables hold its hyphenated text, from which the code parses the same bytes. \<open>t\<close> is the
  time of the database, in nanoseconds. Columns that no operation reads (the status of a user, \<open>updated_at\<close>
  but of a password, \<open>last_seen_at\<close>, the algorithm of a key, which is checked) are left out. A transaction is one
  step because it writes every row whose change by another would matter, so the two conflict; the
  login transaction does not, and is two steps.
\<close>

section \<open>Times and platforms\<close>

definition minutes :: "int \<Rightarrow> int" where "minutes n = n * 60 * second"
definition hours :: "int \<Rightarrow> int" where "hours n = n * 3600 * second"
definition days :: "int \<Rightarrow> int" where "days n = n * 86400 * second"

datatype platform = Macos | Ios | Windows | Linux | Android

fun platform_str :: "platform \<Rightarrow> string" where
  "platform_str Macos = ''macos''"
| "platform_str Ios = ''ios''"
| "platform_str Windows = ''windows''"
| "platform_str Linux = ''linux''"
| "platform_str Android = ''android''"

definition platform_parse :: "string \<Rightarrow> identity_error + platform" where
  "platform_parse s =
     (if s = ''macos'' then Inr Macos else if s = ''ios'' then Inr Ios
      else if s = ''windows'' then Inr Windows else if s = ''linux'' then Inr Linux
      else if s = ''android'' then Inr Android else Inl (UnknownPlatform s))"

definition APPROVER_PLATFORMS :: "string list" where
  "APPROVER_PLATFORMS = [''ios'', ''android'', ''macos'']"

definition BIOMETRIC_RENEWAL_PLATFORMS :: "string list" where
  "BIOMETRIC_RENEWAL_PLATFORMS = [''ios'', ''android'']"

definition PASSWORD_RENEWAL_DAYS :: int where "PASSWORD_RENEWAL_DAYS = 30"
definition RECOVERY_TTL_MINUTES :: int where "RECOVERY_TTL_MINUTES = 15"
definition RECOVERY_COOLDOWN_DAYS :: int where "RECOVERY_COOLDOWN_DAYS = 7"
definition RECOVERY_REQUESTS_PER_DAY :: nat where "RECOVERY_REQUESTS_PER_DAY = 3"
definition AUTH_PRUNE_BATCH :: nat where "AUTH_PRUNE_BATCH = 5000"
definition AUTH_PRUNE_MAX_BATCHES :: nat where "AUTH_PRUNE_MAX_BATCHES = 20"

section \<open>Rows\<close>

record user =
  us_id :: string
  us_name :: string
  us_created_at :: int

record device =
  dv_id :: string
  dv_user_id :: string
  dv_name :: string
  dv_platform :: string
  dv_status :: string
  dv_created_at :: int

record device_key =
  ky_id :: string
  ky_device_id :: string
  ky_public_key :: string
  ky_created_at :: int
  ky_revoked_at :: "int option"

record challenge =
  ch_id :: string
  ch_device_id :: string
  ch_nonce :: string
  ch_expires_at :: int
  ch_consumed_at :: "int option"

record session =
  se_id :: string
  se_user_id :: string
  se_device_id :: string
  se_token_hash :: string
  se_created_at :: int
  se_expires_at :: int
  se_last_used_at :: "int option"
  se_revoked_at :: "int option"
  se_verified_at :: "int option"
  se_revision :: "string option"

record pairing_details =
  pd_ip :: "string option"
  pd_user_agent :: "string option"
  pd_app_version :: "string option"
  pd_model :: "string option"

record pairing_request =
  pg_id :: string
  pg_user_id :: string
  pg_name :: string
  pg_platform :: string
  pg_public_key :: string
  pg_fingerprint :: string
  pg_nonce :: string
  pg_status :: string
  pg_created_at :: int
  pg_expires_at :: int
  pg_approved_by :: "string option"
  pg_activated :: "string option"
  pg_details :: pairing_details

record unlock_request =
  ul_id :: string
  ul_user_id :: string
  ul_device_id :: string
  ul_nonce :: string
  ul_status :: string
  ul_approved_by :: "string option"
  ul_created_at :: int
  ul_expires_at :: int

record push_target =
  pu_device_id :: string
  pu_target :: string
  pu_env :: string

record account_password =
  pw_user_id :: string
  pw_verifier :: string
  pw_revision :: string
  pw_updated_at :: int

datatype account_action = PasswordSet | DeviceRevoke | PasswordReset

fun account_action_str :: "account_action \<Rightarrow> string" where
  "account_action_str PasswordSet = ''password-set''"
| "account_action_str DeviceRevoke = ''device-revoke''"
| "account_action_str PasswordReset = ''password-reset''"

record action_request =
  ac_id :: string
  ac_user_id :: string
  ac_device_id :: string
  ac_action :: account_action
  ac_target :: string
  ac_nonce :: string
  ac_verifier :: "string option"
  ac_expires_at :: int
  ac_consumed_at :: "int option"

record recovery =
  rc_id :: string
  rc_user_id :: string
  rc_device_id :: string
  rc_slot :: string
  rc_verifier :: "string option"
  rc_status :: string
  rc_created_at :: int
  rc_expires_at :: int
  rc_resolved_at :: "int option"

record auth_db =
  db_users :: "user list"
  db_devices :: "device list"
  db_keys :: "device_key list"
  db_challenges :: "challenge list"
  db_sessions :: "session list"
  db_pairings :: "pairing_request list"
  db_bootstrap :: "string option"
  db_unlocks :: "unlock_request list"
  db_pushes :: "push_target list"
  db_passwords :: "account_password list"
  db_actions :: "action_request list"
  db_recoveries :: "recovery list"

definition set_where :: "('a \<Rightarrow> bool) \<Rightarrow> ('a \<Rightarrow> 'a) \<Rightarrow> 'a list \<Rightarrow> 'a list" where
  "set_where p f xs = map (\<lambda>x. if p x then f x else x) xs"

definition count_where :: "('a \<Rightarrow> bool) \<Rightarrow> 'a list \<Rightarrow> nat" where
  "count_where p xs = length (filter p xs)"

definition delete_where :: "('a \<Rightarrow> bool) \<Rightarrow> 'a list \<Rightarrow> 'a list" where
  "delete_where p xs = filter (\<lambda>x. \<not> p x) xs"

type_synonym stmt_result = "(nat \<times> auth_db) option"

section \<open>Users, devices and keys\<close>

definition st_create_user :: "string \<Rightarrow> string \<Rightarrow> int \<Rightarrow> auth_db \<Rightarrow> stmt_result" where
  "st_create_user i name t db =
     (if i \<in> us_id ` set (db_users db) then None
      else Some (1, db\<lparr>db_users := db_users db @ [\<lparr>us_id = i, us_name = name, us_created_at = t\<rparr>]\<rparr>))"

definition device_platforms :: "string list" where
  "device_platforms = [''macos'', ''ios'', ''windows'', ''linux'', ''android'']"

text \<open>The two rows of a new device.\<close>

definition add_device :: "string \<Rightarrow> string \<Rightarrow> string \<Rightarrow> string \<Rightarrow> string \<Rightarrow> string \<Rightarrow> int \<Rightarrow> auth_db \<Rightarrow> auth_db option" where
  "add_device dev usr name plat key_id pk t db =
     (if dev \<in> dv_id ` set (db_devices db) \<or> plat \<notin> set device_platforms \<or> key_id \<in> ky_id ` set (db_keys db)
         \<or> (dev, pk) \<in> (\<lambda>k. (ky_device_id k, ky_public_key k)) ` set (db_keys db)
      then None
      else Some (db\<lparr>
        db_devices := db_devices db @ [\<lparr>dv_id = dev, dv_user_id = usr, dv_name = name, dv_platform = plat,
          dv_status = ''active'', dv_created_at = t\<rparr>],
        db_keys := db_keys db @ [\<lparr>ky_id = key_id, ky_device_id = dev, ky_public_key = pk,
          ky_created_at = t, ky_revoked_at = None\<rparr>]\<rparr>))"

definition st_register_device ::
  "string \<Rightarrow> string \<Rightarrow> string \<Rightarrow> string \<Rightarrow> string \<Rightarrow> string \<Rightarrow> string \<Rightarrow> int \<Rightarrow> auth_db \<Rightarrow> stmt_result" where
  "st_register_device dev usr name plat key_id algorithm pk t db =
     (if algorithm \<noteq> ''ed25519'' then None
      else map_option (\<lambda>db'. (1, db')) (add_device dev usr name plat key_id pk t db))"

definition st_claim_bootstrap :: "string \<Rightarrow> int \<Rightarrow> auth_db \<Rightarrow> stmt_result" where
  "st_claim_bootstrap dev t db =
     (if db_bootstrap db \<noteq> None then None else Some (1, db\<lparr>db_bootstrap := Some dev\<rparr>))"

definition cancel_recovery :: "int \<Rightarrow> recovery \<Rightarrow> recovery" where
  "cancel_recovery t r = r\<lparr>rc_status := ''expired'', rc_verifier := None, rc_slot := rc_id r, rc_resolved_at := Some t\<rparr>"

text \<open>A statement that would break the index on \<open>slot\<close> fails.\<close>

definition set_recoveries :: "recovery list \<Rightarrow> auth_db \<Rightarrow> auth_db option" where
  "set_recoveries rs db =
     (if distinct (map rc_slot rs) \<and> distinct (map rc_id rs) then Some (db\<lparr>db_recoveries := rs\<rparr>) else None)"

definition end_sessions :: "(session \<Rightarrow> bool) \<Rightarrow> int \<Rightarrow> auth_db \<Rightarrow> auth_db" where
  "end_sessions p t db = db\<lparr>db_sessions :=
     set_where (\<lambda>s. p s \<and> se_revoked_at s = None) (\<lambda>s. s\<lparr>se_revoked_at := Some t\<rparr>) (db_sessions db)\<rparr>"

text \<open>Status, keys, sessions and push target of a device that loses its trust.\<close>

definition drop_device :: "(device \<Rightarrow> bool) \<Rightarrow> (session \<Rightarrow> bool) \<Rightarrow> string \<Rightarrow> int \<Rightarrow> auth_db \<Rightarrow> auth_db" where
  "drop_device p q dev t db = (end_sessions q t db)\<lparr>
     db_devices := set_where p (\<lambda>d. d\<lparr>dv_status := ''revoked''\<rparr>) (db_devices db),
     db_keys := set_where (\<lambda>k. ky_device_id k = dev \<and> ky_revoked_at k = None)
       (\<lambda>k. k\<lparr>ky_revoked_at := Some t\<rparr>) (db_keys db),
     db_pushes := delete_where (\<lambda>p. pu_device_id p = dev) (db_pushes db)\<rparr>"

definition st_revoke_device :: "string \<Rightarrow> int \<Rightarrow> auth_db \<Rightarrow> stmt_result" where
  "st_revoke_device dev t db =
     map_option (\<lambda>db'. (1, db'))
       (set_recoveries (set_where (\<lambda>r. rc_device_id r = dev \<and> rc_status r = ''pending'') (cancel_recovery t)
          (db_recoveries db))
        (drop_device (\<lambda>d. dv_id d = dev) (\<lambda>s. se_device_id s = dev) dev t db))"

section \<open>Pairing\<close>

definition pairing_live :: "string \<Rightarrow> string \<Rightarrow> int \<Rightarrow> pairing_request \<Rightarrow> bool" where
  "pairing_live i usr t r \<longleftrightarrow> pg_id r = i \<and> pg_user_id r = usr \<and> pg_status r = ''pending'' \<and> pg_expires_at r > t"

definition st_create_pairing :: "pairing_request \<Rightarrow> auth_db \<Rightarrow> stmt_result" where
  "st_create_pairing r db =
     (if pg_id r \<in> pg_id ` set (db_pairings db) \<or> pg_platform r \<notin> set device_platforms then None
      else Some (1, db\<lparr>db_pairings := db_pairings db @ [r]\<rparr>))"

definition st_expire_pairing :: "string \<Rightarrow> int \<Rightarrow> auth_db \<Rightarrow> stmt_result" where
  "st_expire_pairing i t db = Some (1, db\<lparr>db_pairings :=
     set_where (\<lambda>r. pg_id r = i \<and> pg_status r = ''pending'' \<and> pg_expires_at r \<le> t)
       (\<lambda>r. r\<lparr>pg_status := ''expired''\<rparr>) (db_pairings db)\<rparr>)"

definition st_activate_pairing ::
  "string \<Rightarrow> string \<Rightarrow> string \<Rightarrow> string option \<Rightarrow> string \<Rightarrow> string \<Rightarrow> string \<Rightarrow> string \<Rightarrow> string \<Rightarrow> int \<Rightarrow> auth_db \<Rightarrow> stmt_result" where
  "st_activate_pairing i usr fingerprint approver dev key_id name plat pk t db =
     (let live = (\<lambda>r. pairing_live i usr t r \<and> pg_fingerprint r = fingerprint) in
      if count_where live (db_pairings db) = 0 then None
      else map_option (\<lambda>db'. (1, db'\<lparr>db_pairings :=
               set_where (\<lambda>r. pg_id r = i) (\<lambda>r. r\<lparr>pg_activated := Some dev\<rparr>)
                 (set_where live (\<lambda>r. r\<lparr>pg_status := ''approved'', pg_approved_by := approver\<rparr>) (db_pairings db'))\<rparr>))
             (add_device dev usr name plat key_id pk t db))"

definition st_deny_pairing :: "string \<Rightarrow> string \<Rightarrow> string option \<Rightarrow> int \<Rightarrow> auth_db \<Rightarrow> stmt_result" where
  "st_deny_pairing i usr denier t db = Some (count_where (pairing_live i usr t) (db_pairings db),
     db\<lparr>db_pairings := set_where (pairing_live i usr t)
       (\<lambda>r. r\<lparr>pg_status := ''denied'', pg_approved_by := denier\<rparr>) (db_pairings db)\<rparr>)"

section \<open>Challenges and sessions\<close>

definition st_drop_challenges :: "string \<Rightarrow> int \<Rightarrow> auth_db \<Rightarrow> stmt_result" where
  "st_drop_challenges dev t db = Some (1, db\<lparr>db_challenges :=
     delete_where (\<lambda>c. ch_device_id c = dev \<and> ch_expires_at c < t) (db_challenges db)\<rparr>)"

definition st_create_challenge :: "string \<Rightarrow> string \<Rightarrow> string \<Rightarrow> int \<Rightarrow> auth_db \<Rightarrow> stmt_result" where
  "st_create_challenge i dev nonce t db =
     (if i \<in> ch_id ` set (db_challenges db) then None
      else Some (1, db\<lparr>db_challenges := db_challenges db @ [\<lparr>ch_id = i, ch_device_id = dev, ch_nonce = nonce,
        ch_expires_at = t + minutes 5, ch_consumed_at = None\<rparr>]\<rparr>))"

definition st_claim_challenge :: "string \<Rightarrow> string \<Rightarrow> int \<Rightarrow> auth_db \<Rightarrow> stmt_result" where
  "st_claim_challenge i dev t db =
     (let open_c = (\<lambda>c. ch_id c = i \<and> ch_device_id c = dev \<and> ch_consumed_at c = None \<and> ch_expires_at c > t)
      in Some (count_where open_c (db_challenges db),
           db\<lparr>db_challenges := set_where open_c (\<lambda>c. c\<lparr>ch_consumed_at := Some t\<rparr>) (db_challenges db)\<rparr>))"

definition active_device :: "string \<Rightarrow> string \<Rightarrow> device \<Rightarrow> bool" where
  "active_device dev usr d \<longleftrightarrow> dv_id d = dev \<and> dv_user_id d = usr \<and> dv_status d = ''active''"

definition add_session :: "session \<Rightarrow> auth_db \<Rightarrow> auth_db option" where
  "add_session s db =
     (if se_id s \<in> se_id ` set (db_sessions db) \<or> se_token_hash s \<in> se_token_hash ` set (db_sessions db)
         \<or> (case se_revision s of None \<Rightarrow> False | Some r \<Rightarrow> length r > 64)
      then None else Some (db\<lparr>db_sessions := db_sessions db @ [s]\<rparr>))"

text \<open>
  The login transaction in two steps. It reads the password revision and the device, and writes only
  the new session, so under snapshot isolation another transaction may commit between the two;
  \<open>revision\<close> is empty when no password was checked.
\<close>

definition mint_check :: "string \<Rightarrow> string \<Rightarrow> string option \<Rightarrow> auth_db \<Rightarrow> bool" where
  "mint_check usr dev verified db \<longleftrightarrow>
     (let revision = (case verified of None \<Rightarrow> [] | Some r \<Rightarrow> r);
          account = filter (\<lambda>p. pw_user_id p = usr) (db_passwords db)
      in \<not> (account = [] \<and> revision \<noteq> [] \<or> account \<noteq> [] \<and> pw_revision (hd account) \<noteq> revision)
         \<and> count_where (active_device dev usr) (db_devices db) = 1)"

definition minted :: "string \<Rightarrow> string \<Rightarrow> string \<Rightarrow> string \<Rightarrow> string option \<Rightarrow> int \<Rightarrow> session" where
  "minted i usr dev hash verified t = \<lparr>se_id = i, se_user_id = usr, se_device_id = dev,
     se_token_hash = hash, se_created_at = t, se_expires_at = t + days 7, se_last_used_at = None,
     se_revoked_at = None, se_verified_at = map_option (\<lambda>_. t) verified, se_revision = verified\<rparr>"

definition st_mint_session ::
  "string \<Rightarrow> string \<Rightarrow> string \<Rightarrow> string \<Rightarrow> string option \<Rightarrow> int \<Rightarrow> auth_db \<Rightarrow> stmt_result" where
  "st_mint_session i usr dev hash verified t db =
     map_option (\<lambda>db'. (1, db')) (add_session (minted i usr dev hash verified t) db)"

text \<open>\<open>ORDER BY created_at DESC LIMIT 1\<close>.\<close>

definition latest_session :: "string \<Rightarrow> string \<Rightarrow> auth_db \<Rightarrow> session option" where
  "latest_session dev usr db =
     (case sort_key (\<lambda>s. - se_created_at s)
        (filter (\<lambda>s. se_device_id s = dev \<and> se_user_id s = usr) (db_sessions db)) of
        [] \<Rightarrow> None | s # _ \<Rightarrow> Some s)"

definition st_renew_session :: "string \<Rightarrow> string \<Rightarrow> string \<Rightarrow> string \<Rightarrow> int \<Rightarrow> auth_db \<Rightarrow> stmt_result" where
  "st_renew_session i usr dev hash t db =
     (if count_where (\<lambda>d. active_device dev usr d \<and> dv_platform d \<in> set BIOMETRIC_RENEWAL_PLATFORMS) (db_devices db) \<noteq> 1
      then None
      else case latest_session dev usr db of
        None \<Rightarrow> None
      | Some anchor \<Rightarrow>
          (case (se_verified_at anchor, se_revision anchor, filter (\<lambda>p. pw_user_id p = usr) (db_passwords db)) of
             (Some v, Some rv, [account]) \<Rightarrow>
               if se_revoked_at anchor \<noteq> None \<or> v \<le> t - days PASSWORD_RENEWAL_DAYS \<or> pw_revision account \<noteq> rv then None
               else map_option (\<lambda>db'. (1, db')) (add_session \<lparr>se_id = i, se_user_id = usr, se_device_id = dev,
                   se_token_hash = hash, se_created_at = t,
                   se_expires_at = min (t + days 7) (v + days PASSWORD_RENEWAL_DAYS), se_last_used_at = None,
                   se_revoked_at = None, se_verified_at = Some v, se_revision = Some rv\<rparr>
                 (end_sessions (\<lambda>s. se_device_id s = dev) t db))
           | _ \<Rightarrow> None))"

definition st_touch_session :: "string \<Rightarrow> int \<Rightarrow> auth_db \<Rightarrow> stmt_result" where
  "st_touch_session i t db = Some (1, db\<lparr>db_sessions :=
     set_where (\<lambda>s. se_id s = i) (\<lambda>s. s\<lparr>se_last_used_at := Some t\<rparr>) (db_sessions db)\<rparr>)"

definition st_revoke_session :: "string \<Rightarrow> int \<Rightarrow> auth_db \<Rightarrow> stmt_result" where
  "st_revoke_session i t db = Some (1,
     end_sessions (\<lambda>s. se_device_id s \<in> se_device_id ` {s \<in> set (db_sessions db). se_id s = i}) t db)"

section \<open>Unlock requests\<close>

definition unlock_live :: "string \<Rightarrow> string \<Rightarrow> string \<Rightarrow> unlock_request \<Rightarrow> bool" where
  "unlock_live i usr decider r \<longleftrightarrow> ul_id r = i \<and> ul_user_id r = usr \<and> ul_device_id r \<noteq> decider \<and> ul_status r = ''pending''"

definition st_create_unlock :: "string \<Rightarrow> string \<Rightarrow> string \<Rightarrow> string \<Rightarrow> int \<Rightarrow> auth_db \<Rightarrow> stmt_result" where
  "st_create_unlock i usr dev nonce t db =
     (let kept = delete_where (\<lambda>r. ul_user_id r = usr \<and> ul_expires_at r < t - days 1) (db_unlocks db);
          settled = set_where (\<lambda>r. ul_user_id r = usr \<and> ul_device_id r = dev \<and> ul_status r = ''pending''
              \<and> ul_expires_at r > t) (\<lambda>r. r\<lparr>ul_status := ''denied''\<rparr>) kept
      in if i \<in> ul_id ` set settled then None
         else Some (1, db\<lparr>db_unlocks := settled @ [\<lparr>ul_id = i, ul_user_id = usr, ul_device_id = dev, ul_nonce = nonce,
           ul_status = ''pending'', ul_approved_by = None, ul_created_at = t, ul_expires_at = t + minutes 2\<rparr>]\<rparr>))"

definition st_approve_unlock :: "string \<Rightarrow> string \<Rightarrow> string \<Rightarrow> int \<Rightarrow> auth_db \<Rightarrow> stmt_result" where
  "st_approve_unlock i usr approver t db =
     (let live = (\<lambda>r. unlock_live i usr approver r \<and> ul_expires_at r > t)
      in Some (count_where live (db_unlocks db),
           db\<lparr>db_unlocks := set_where live (\<lambda>r. r\<lparr>ul_status := ''approved'', ul_approved_by := Some approver\<rparr>) (db_unlocks db)\<rparr>))"

definition st_deny_unlock :: "string \<Rightarrow> string \<Rightarrow> string \<Rightarrow> auth_db \<Rightarrow> stmt_result" where
  "st_deny_unlock i usr denier db = Some (count_where (unlock_live i usr denier) (db_unlocks db),
     db\<lparr>db_unlocks := set_where (unlock_live i usr denier)
       (\<lambda>r. r\<lparr>ul_status := ''denied'', ul_approved_by := Some denier\<rparr>) (db_unlocks db)\<rparr>)"

section \<open>Push targets\<close>

definition foreign_push_target :: "string \<Rightarrow> string \<Rightarrow> auth_db \<Rightarrow> bool" where
  "foreign_push_target dev target db \<longleftrightarrow>
     (let users = dv_user_id ` {d \<in> set (db_devices db). dv_id d = dev};
          ours = dv_id ` {d \<in> set (db_devices db). dv_user_id d \<in> users}
      in \<exists>p \<in> set (db_pushes db). pu_target p = target \<and> pu_device_id p \<notin> ours)"

definition st_set_push :: "string \<Rightarrow> string \<Rightarrow> string \<Rightarrow> auth_db \<Rightarrow> stmt_result" where
  "st_set_push dev target env db =
     (if count_where (\<lambda>d. dv_id d = dev \<and> dv_status d = ''active'') (db_devices db) \<noteq> 1
         \<or> foreign_push_target dev target db
         \<or> \<not> (64 \<le> length target \<and> length target \<le> 200) \<or> env \<notin> {''sandbox'', ''production''}
      then None
      else Some (1, db\<lparr>db_pushes := delete_where (\<lambda>p. pu_device_id p = dev \<or> pu_target p = target) (db_pushes db)
             @ [\<lparr>pu_device_id = dev, pu_target = target, pu_env = env\<rparr>]\<rparr>))"

definition st_delete_push :: "(push_target \<Rightarrow> bool) \<Rightarrow> auth_db \<Rightarrow> stmt_result" where
  "st_delete_push p db = Some (1, db\<lparr>db_pushes := delete_where p (db_pushes db)\<rparr>)"

section \<open>Retention\<close>

text \<open>One batch: the first rows that match, in the order of the table.\<close>

fun first_where :: "nat \<Rightarrow> ('a \<Rightarrow> bool) \<Rightarrow> ('a \<Rightarrow> 'a option) \<Rightarrow> 'a list \<Rightarrow> nat \<times> 'a list" where
  "first_where n p f [] = (0, [])"
| "first_where n p f (x # xs) =
     (if 0 < n \<and> p x
      then let (k, ys) = first_where (n - 1) p f xs in (Suc k, (case f x of None \<Rightarrow> ys | Some y \<Rightarrow> y # ys))
      else let (k, ys) = first_where n p f xs in (k, x # ys))"

definition stale_pairing :: "int \<Rightarrow> pairing_request \<Rightarrow> bool" where
  "stale_pairing t r \<longleftrightarrow> pg_status r \<noteq> ''approved'' \<and> pg_expires_at r < t - days 1"

definition no_details :: pairing_details where
  "no_details = \<lparr>pd_ip = None, pd_user_agent = None, pd_app_version = None, pd_model = None\<rparr>"

definition detailed_pairing :: "int \<Rightarrow> pairing_request \<Rightarrow> bool" where
  "detailed_pairing t r \<longleftrightarrow> pg_status r = ''approved'' \<and> pg_expires_at r < t - days 1 \<and> pg_details r \<noteq> no_details"

definition st_prune_challenges :: "int \<Rightarrow> auth_db \<Rightarrow> stmt_result" where
  "st_prune_challenges t db =
     (let (k, cs) = first_where AUTH_PRUNE_BATCH (\<lambda>c. ch_expires_at c < t) (\<lambda>_. None) (db_challenges db)
      in Some (k, db\<lparr>db_challenges := cs\<rparr>))"

definition st_prune_pairings :: "int \<Rightarrow> auth_db \<Rightarrow> stmt_result" where
  "st_prune_pairings t db =
     (let (k, rs) = first_where AUTH_PRUNE_BATCH (stale_pairing t) (\<lambda>_. None) (db_pairings db)
      in Some (k, db\<lparr>db_pairings := rs\<rparr>))"

definition st_clear_pairings :: "int \<Rightarrow> auth_db \<Rightarrow> stmt_result" where
  "st_clear_pairings t db =
     (let (k, rs) = first_where AUTH_PRUNE_BATCH (detailed_pairing t) (\<lambda>r. Some (r\<lparr>pg_details := no_details\<rparr>)) (db_pairings db)
      in Some (k, db\<lparr>db_pairings := rs\<rparr>))"

section \<open>Accounts\<close>

definition st_bootstrap_account ::
  "int \<Rightarrow> bool \<Rightarrow> string \<Rightarrow> string \<Rightarrow> string \<Rightarrow> string \<Rightarrow> string \<Rightarrow> string \<Rightarrow> string \<Rightarrow> string \<Rightarrow> int \<Rightarrow> auth_db \<Rightarrow> stmt_result" where
  "st_bootstrap_account expires new_user usr dev verifier revision name plat key_id pk t db =
     (if unix_timestamp t \<ge> expires \<or> count_where (\<lambda>d. dv_status d = ''active'') (db_devices db) \<noteq> 0
         \<or> db_bootstrap db \<noteq> None \<or> new_user \<and> usr \<in> us_id ` set (db_users db)
         \<or> usr \<in> pw_user_id ` set (db_passwords db)
      then None
      else map_option (\<lambda>db'. (1, db'\<lparr>db_bootstrap := Some dev,
               db_users := db_users db @ (if new_user then [\<lparr>us_id = usr, us_name = ''Jarvis owner'', us_created_at = t\<rparr>] else []),
               db_passwords := db_passwords db @ [\<lparr>pw_user_id = usr, pw_verifier = verifier, pw_revision = revision,
                 pw_updated_at = t\<rparr>]\<rparr>))
             (add_device dev usr name plat key_id pk t db))"

definition st_request_action :: "action_request \<Rightarrow> int \<Rightarrow> auth_db \<Rightarrow> stmt_result" where
  "st_request_action a t db =
     (let kept = delete_where (\<lambda>x. ac_expires_at x \<le> t \<or> ac_consumed_at x \<noteq> None
            \<or> ac_user_id x = ac_user_id a \<and> ac_device_id x = ac_device_id a) (db_actions db)
      in if ac_id a \<in> ac_id ` set kept then None else Some (1, db\<lparr>db_actions := kept @ [a]\<rparr>))"

definition action_live :: "string \<Rightarrow> string \<Rightarrow> string \<Rightarrow> int \<Rightarrow> action_request \<Rightarrow> bool" where
  "action_live i usr dev t a \<longleftrightarrow> ac_id a = i \<and> ac_user_id a = usr \<and> ac_device_id a = dev
     \<and> ac_consumed_at a = None \<and> ac_expires_at a > t"

definition expire_recoveries :: "int \<Rightarrow> recovery list \<Rightarrow> recovery list" where
  "expire_recoveries t = set_where (\<lambda>r. rc_status r = ''pending'' \<and> rc_expires_at r \<le> t) (cancel_recovery t)"

definition confirmed_after :: "int \<Rightarrow> recovery \<Rightarrow> bool" where
  "confirmed_after u r \<longleftrightarrow> (case rc_resolved_at r of None \<Rightarrow> False | Some v \<Rightarrow> v > u)"

text \<open>The four checks of \<open>recovery_guard\<close>, in its order.\<close>

definition recovery_checks :: "string \<Rightarrow> (int \<Rightarrow> account_password list \<Rightarrow> recovery list \<Rightarrow> bool) list" where
  "recovery_checks usr =
     [\<lambda>t ps rs. count_where (\<lambda>p. pw_user_id p = usr) ps = 1,
      \<lambda>t ps rs. count_where (\<lambda>r. rc_user_id r = usr \<and> rc_status r = ''pending'' \<and> rc_expires_at r > t) rs = 0,
      \<lambda>t ps rs. count_where (\<lambda>r. rc_user_id r = usr \<and> rc_created_at r > t - days 1) rs < RECOVERY_REQUESTS_PER_DAY,
      \<lambda>t ps rs. count_where (\<lambda>r. rc_user_id r = usr \<and> rc_status r = ''confirmed''
        \<and> confirmed_after (t - days RECOVERY_COOLDOWN_DAYS) r) rs = 0]"

definition recovery_guard :: "string \<Rightarrow> int \<Rightarrow> auth_db \<Rightarrow> recovery list \<Rightarrow> bool" where
  "recovery_guard usr t db rs \<longleftrightarrow> list_all (\<lambda>check. check t (db_passwords db) rs) (recovery_checks usr)"

text \<open>The three mutations of an approved action; \<open>a\<close> is the claimed request.\<close>

definition set_password :: "string \<Rightarrow> string \<Rightarrow> string \<Rightarrow> int \<Rightarrow> account_password list \<Rightarrow> account_password list" where
  "set_password usr verifier revision t ps =
     (if filter (\<lambda>p. pw_user_id p = usr) ps = []
      then ps @ [\<lparr>pw_user_id = usr, pw_verifier = verifier, pw_revision = revision, pw_updated_at = t\<rparr>]
      else set_where (\<lambda>p. pw_user_id p = usr) (\<lambda>p. p\<lparr>pw_verifier := verifier, pw_revision := revision, pw_updated_at := t\<rparr>) ps)"

definition act_password_set :: "action_request \<Rightarrow> int \<Rightarrow> auth_db \<Rightarrow> auth_db option" where
  "act_password_set a t db = (case ac_verifier a of
     None \<Rightarrow> None
   | Some v \<Rightarrow>
       set_recoveries (set_where (\<lambda>r. rc_user_id r = ac_user_id a \<and> rc_status r = ''pending'') (cancel_recovery t) (db_recoveries db))
         ((end_sessions (\<lambda>s. se_user_id s = ac_user_id a) t db)\<lparr>
            db_passwords := set_password (ac_user_id a) v (ac_id a) t (db_passwords db),
            db_actions := delete_where (\<lambda>x. ac_user_id x = ac_user_id a) (db_actions db)\<rparr>))"

definition approver_ids :: "string \<Rightarrow> auth_db \<Rightarrow> string list" where
  "approver_ids usr db = map dv_id (filter (\<lambda>d. dv_user_id d = usr \<and> dv_status d = ''active''
     \<and> dv_platform d \<in> set APPROVER_PLATFORMS) (db_devices db))"

definition act_device_revoke :: "action_request \<Rightarrow> int \<Rightarrow> auth_db \<Rightarrow> auth_db option" where
  "act_device_revoke a t db =
     (let usr = ac_user_id a; target = ac_target a in
      if count_where (\<lambda>u. us_id u = usr) (db_users db) \<noteq> 1 then None
      else if target \<in> set (approver_ids usr db) \<and> length (approver_ids usr db) < 2 then None
      else set_recoveries (set_where (\<lambda>r. rc_user_id r = usr \<and> rc_device_id r = target \<and> rc_status r = ''pending'')
               (cancel_recovery t) (db_recoveries db))
             (drop_device (\<lambda>d. dv_id d = target \<and> dv_user_id d = usr)
               (\<lambda>s. se_device_id s = target \<and> se_user_id s = usr) target t db))"

definition act_password_reset :: "action_request \<Rightarrow> int \<Rightarrow> auth_db \<Rightarrow> auth_db option" where
  "act_password_reset a t db =
     (let usr = ac_user_id a;
          rs = delete_where (\<lambda>r. rc_created_at r < t - days (RECOVERY_COOLDOWN_DAYS + 1)) (expire_recoveries t (db_recoveries db))
      in if \<not> recovery_guard usr t db rs then None
         else set_recoveries (rs @ [\<lparr>rc_id = ac_id a, rc_user_id = usr, rc_device_id = ac_device_id a, rc_slot = usr,
           rc_verifier = ac_verifier a, rc_status = ''pending'', rc_created_at = t,
           rc_expires_at = t + minutes RECOVERY_TTL_MINUTES, rc_resolved_at = None\<rparr>]) db)"

definition apply_action :: "action_request \<Rightarrow> int \<Rightarrow> auth_db \<Rightarrow> auth_db option" where
  "apply_action a t db = (case ac_action a of
     PasswordSet \<Rightarrow> act_password_set a t db
   | DeviceRevoke \<Rightarrow> act_device_revoke a t db
   | PasswordReset \<Rightarrow> act_password_reset a t db)"

definition st_approve_action ::
  "string \<Rightarrow> string \<Rightarrow> string \<Rightarrow> account_action \<Rightarrow> string \<Rightarrow> int \<Rightarrow> auth_db \<Rightarrow> stmt_result" where
  "st_approve_action i usr dev act target t db =
     (if count_where (active_device dev usr) (db_devices db) \<noteq> 1 then None
      else
        let claimed = (\<lambda>a. action_live i usr dev t a \<and> ac_action a = act \<and> ac_target a = target) in
        case filter claimed (db_actions db) of
          [a] \<Rightarrow>
            map_option (\<lambda>db'. (1, db'\<lparr>db_actions := delete_where (\<lambda>x. ac_id x = i) (db_actions db')\<rparr>))
              (apply_action a t (db\<lparr>db_actions := set_where claimed (\<lambda>x. x\<lparr>ac_consumed_at := Some t\<rparr>) (db_actions db)\<rparr>))
        | _ \<Rightarrow> None)"

definition st_expire_recoveries :: "int \<Rightarrow> auth_db \<Rightarrow> stmt_result" where
  "st_expire_recoveries t db = map_option (\<lambda>db'. (1, db')) (set_recoveries (expire_recoveries t (db_recoveries db)) db)"

definition st_confirm_recovery :: "string \<Rightarrow> string \<Rightarrow> int \<Rightarrow> auth_db \<Rightarrow> stmt_result" where
  "st_confirm_recovery usr i t db =
     (let live = (\<lambda>r. rc_id r = i \<and> rc_user_id r = usr \<and> rc_status r = ''pending'' \<and> rc_expires_at r > t) in
      if count_where (\<lambda>r. rc_user_id r = usr \<and> rc_status r = ''confirmed''
           \<and> confirmed_after (t - days RECOVERY_COOLDOWN_DAYS) r) (db_recoveries db) \<noteq> 0 then None
      else case filter live (db_recoveries db) of
        [c] \<Rightarrow>
          if count_where (active_device (rc_device_id c) usr) (db_devices db) \<noteq> 1
             \<or> count_where (\<lambda>p. pw_user_id p = usr \<and> pw_updated_at p > rc_created_at c) (db_passwords db) \<noteq> 0
             \<or> count_where (\<lambda>p. pw_user_id p = usr) (db_passwords db) \<noteq> 1 then None
          else (case rc_verifier c of
             None \<Rightarrow> None
           | Some v \<Rightarrow> map_option (\<lambda>db'. (1, db'))
               (set_recoveries (set_where live (\<lambda>r. r\<lparr>rc_status := ''confirmed'', rc_verifier := None, rc_slot := rc_id r,
                    rc_resolved_at := Some t\<rparr>) (db_recoveries db))
                 ((end_sessions (\<lambda>s. se_user_id s = usr) t db)\<lparr>
                    db_passwords := set_where (\<lambda>p. pw_user_id p = usr)
                      (\<lambda>p. p\<lparr>pw_verifier := v, pw_revision := i, pw_updated_at := t\<rparr>) (db_passwords db),
                    db_pairings := set_where (\<lambda>r. pg_user_id r = usr \<and> pg_status r = ''pending'')
                      (\<lambda>r. r\<lparr>pg_status := ''denied''\<rparr>) (db_pairings db),
                    db_unlocks := set_where (\<lambda>r. ul_user_id r = usr \<and> ul_status r = ''pending'')
                      (\<lambda>r. r\<lparr>ul_status := ''denied''\<rparr>) (db_unlocks db),
                    db_actions := delete_where (\<lambda>x. ac_user_id x = usr) (db_actions db)\<rparr>)))
      | _ \<Rightarrow> None)"

definition st_deny_recovery :: "string \<Rightarrow> string \<Rightarrow> int \<Rightarrow> auth_db \<Rightarrow> stmt_result" where
  "st_deny_recovery usr i t db =
     (let live = (\<lambda>r. rc_id r = i \<and> rc_user_id r = usr \<and> rc_status r = ''pending'') in
      map_option (\<lambda>db'. (count_where live (db_recoveries db), db'))
        (set_recoveries (set_where live (\<lambda>r. r\<lparr>rc_status := ''denied'', rc_verifier := None, rc_slot := rc_id r,
            rc_resolved_at := Some t\<rparr>) (db_recoveries db)) db))"

section \<open>Statements\<close>

datatype auth_stmt =
  CreateUser string string int
| RegisterDevice string string string string string string string int
| ClaimBootstrap string int
| RevokeDevice string int
| CreatePairing pairing_request
| ExpirePairing string int
| ActivatePairing string string string "string option" string string string string string int
| DenyPairing string string "string option" int
| DropChallenges string int
| CreateChallenge string string string int
| ClaimChallenge string string int
| MintSession string string string string "string option" int
| RenewSession string string string string int
| TouchSession string int
| RevokeSession string int
| CreateUnlock string string string string int
| ApproveUnlock string string string int
| DenyUnlock string string string
| SetPush string string string
| DeletePushOf string
| DeleteApnsTarget string
| PruneChallenges int
| PrunePairings int
| ClearPairings int
| BootstrapAccount int bool string string string string string string string string int
| RequestAction action_request int
| ApproveAction string string string account_action string int
| ExpireRecoveries int
| ConfirmRecovery string string int
| DenyRecovery string string int

fun exec :: "auth_stmt \<Rightarrow> auth_db \<Rightarrow> stmt_result" where
  "exec (CreateUser i n t) = st_create_user i n t"
| "exec (RegisterDevice d u n p k a pk t) = st_register_device d u n p k a pk t"
| "exec (ClaimBootstrap d t) = st_claim_bootstrap d t"
| "exec (RevokeDevice d t) = st_revoke_device d t"
| "exec (CreatePairing r) = st_create_pairing r"
| "exec (ExpirePairing i t) = st_expire_pairing i t"
| "exec (ActivatePairing i u f a d k n p pk t) = st_activate_pairing i u f a d k n p pk t"
| "exec (DenyPairing i u d t) = st_deny_pairing i u d t"
| "exec (DropChallenges d t) = st_drop_challenges d t"
| "exec (CreateChallenge i d n t) = st_create_challenge i d n t"
| "exec (ClaimChallenge i d t) = st_claim_challenge i d t"
| "exec (MintSession i u d h v t) = st_mint_session i u d h v t"
| "exec (RenewSession i u d h t) = st_renew_session i u d h t"
| "exec (TouchSession i t) = st_touch_session i t"
| "exec (RevokeSession i t) = st_revoke_session i t"
| "exec (CreateUnlock i u d n t) = st_create_unlock i u d n t"
| "exec (ApproveUnlock i u a t) = st_approve_unlock i u a t"
| "exec (DenyUnlock i u d) = st_deny_unlock i u d"
| "exec (SetPush d tg e) = st_set_push d tg e"
| "exec (DeletePushOf d) = st_delete_push (\<lambda>p. pu_device_id p = d)"
| "exec (DeleteApnsTarget tg) = st_delete_push (\<lambda>p. pu_target p = tg)"
| "exec (PruneChallenges t) = st_prune_challenges t"
| "exec (PrunePairings t) = st_prune_pairings t"
| "exec (ClearPairings t) = st_clear_pairings t"
| "exec (BootstrapAccount x nu u d v r n p k pk t) = st_bootstrap_account x nu u d v r n p k pk t"
| "exec (RequestAction a t) = st_request_action a t"
| "exec (ApproveAction i u d a tg t) = st_approve_action i u d a tg t"
| "exec (ExpireRecoveries t) = st_expire_recoveries t"
| "exec (ConfirmRecovery u i t) = st_confirm_recovery u i t"
| "exec (DenyRecovery u i t) = st_deny_recovery u i t"

definition auth_step :: "auth_db \<Rightarrow> auth_stmt \<Rightarrow> auth_db" where
  "auth_step db s = (case exec s db of None \<Rightarrow> db | Some (_, db') \<Rightarrow> db')"

definition empty_auth :: auth_db where
  "empty_auth = \<lparr>db_users = [], db_devices = [], db_keys = [], db_challenges = [], db_sessions = [], db_pairings = [],
     db_bootstrap = None, db_unlocks = [], db_pushes = [], db_passwords = [], db_actions = [], db_recoveries = []\<rparr>"

end
