(* ===== verification/Identity.thy ===== *)
theory Identity
  imports Identity_Tables
begin

text \<open>
  The operations of \<^verbatim>\<open>src/crates/identity/src/surreal.rs\<close> and the messages they verify
  (\<^verbatim>\<open>src/crates/client-core/src/lib.rs\<close>). An operation is a sequence of database queries; before each of
  them other requests may have run any statements of their own. \<open>auth_env\<close> says what they ran, how
  the clock and the connection behaved at each query; \<open>ru_log\<close> records every statement in the
  order in which the database ran them, so the tables are always the result of the log.
\<close>

section \<open>Queries\<close>

text \<open>\<open>qe_fault\<close>: \<open>None\<close> when the query was answered, else whether the statement took effect.\<close>

record auth_env =
  qe_before :: "nat \<Rightarrow> auth_stmt list"
  qe_fault :: "nat \<Rightarrow> bool option"
  qe_clock :: "nat \<Rightarrow> int"

record auth_run =
  ru_count :: nat
  ru_db :: auth_db
  ru_log :: "auth_stmt list"

type_synonym 'a auth = "auth_run \<Rightarrow> (identity_error + 'a) \<times> auth_run"

definition return_auth :: "'a \<Rightarrow> 'a auth" where
  "return_auth x = (\<lambda>st. (Inr x, st))"

definition fail_auth :: "identity_error \<Rightarrow> 'a auth" where
  "fail_auth e = (\<lambda>st. (Inl e, st))"

definition bind_auth :: "'a auth \<Rightarrow> ('a \<Rightarrow> 'b auth) \<Rightarrow> 'b auth" where
  "bind_auth m f = (\<lambda>st. case m st of (Inl e, st') \<Rightarrow> (Inl e, st') | (Inr x, st') \<Rightarrow> f x st')"

definition some_or :: "identity_error \<Rightarrow> 'a option \<Rightarrow> 'a auth" where
  "some_or e x = (case x of None \<Rightarrow> fail_auth e | Some y \<Rightarrow> return_auth y)"

definition map_err_auth :: "(identity_error \<Rightarrow> identity_error) \<Rightarrow> 'a auth \<Rightarrow> 'a auth" where
  "map_err_auth f m = (\<lambda>st. case m st of (Inl e, st') \<Rightarrow> (Inl (f e), st') | r \<Rightarrow> r)"

definition of_sum :: "identity_error + 'a \<Rightarrow> 'a auth" where
  "of_sum r = (\<lambda>st. (r, st))"

definition arrive :: "auth_env \<Rightarrow> auth_run \<Rightarrow> auth_run" where
  "arrive env st =
     (let ss = qe_before env (ru_count st)
      in st\<lparr>ru_count := ru_count st + 1, ru_db := foldl auth_step (ru_db st) ss, ru_log := ru_log st @ ss\<rparr>)"

text \<open>A query that only reads, and one that runs a statement.\<close>

definition ask :: "auth_env \<Rightarrow> (int \<Rightarrow> auth_db \<Rightarrow> 'a) \<Rightarrow> 'a auth" where
  "ask env f = (\<lambda>st.
     let n = ru_count st; st' = arrive env st
     in case qe_fault env n of
          None \<Rightarrow> (Inr (f (qe_clock env n) (ru_db st')), st')
        | Some _ \<Rightarrow> (Inl DatabaseSurreal, st'))"

definition logged :: "auth_stmt \<Rightarrow> auth_run \<Rightarrow> auth_run" where
  "logged s st = st\<lparr>ru_db := auth_step (ru_db st) s, ru_log := ru_log st @ [s]\<rparr>"

definition execute_query :: "auth_env \<Rightarrow> (int \<Rightarrow> auth_stmt) \<Rightarrow> nat auth" where
  "execute_query env f = (\<lambda>st.
     let n = ru_count st; st' = arrive env st; s = f (qe_clock env n)
     in case qe_fault env n of
          None \<Rightarrow> (case exec s (ru_db st') of
              None \<Rightarrow> (Inl DatabaseSurreal, st')
            | Some (k, _) \<Rightarrow> (Inr k, logged s st'))
        | Some applied \<Rightarrow> (Inl DatabaseSurreal, if applied then logged s st' else st'))"

text \<open>\<open>OffsetDateTime::now_utc()\<close>.\<close>

definition now_utc :: "auth_env \<Rightarrow> int auth" where
  "now_utc env = (\<lambda>st. (Inr (qe_clock env (ru_count st)), st\<lparr>ru_count := ru_count st + 1\<rparr>))"

section \<open>Messages\<close>

definition login_domain :: string where "login_domain = ''jarvis-login-v1'' @ [CHR 0x00]"
definition unlock_domain :: string where "unlock_domain = ''jarvis-unlock-approval-v1'' @ [CHR 0x00]"
definition pairing_domain :: string where "pairing_domain = ''jarvis-device-pairing-v1'' @ [CHR 0x00]"

definition challenge_message :: "string \<Rightarrow> string \<Rightarrow> string \<Rightarrow> string \<Rightarrow> identity_error + string" where
  "challenge_message domain i dev nonce =
     (if length nonce \<noteq> 32 then Inl AuthFailed else Inr (domain @ i @ dev @ nonce))"

definition login_message :: "string \<Rightarrow> string \<Rightarrow> string \<Rightarrow> identity_error + string" where
  "login_message = challenge_message login_domain"

definition unlock_approval_message :: "string \<Rightarrow> string \<Rightarrow> string \<Rightarrow> identity_error + string" where
  "unlock_approval_message = challenge_message unlock_domain"

definition pairing_approval_message ::
  "string \<Rightarrow> string \<Rightarrow> string \<Rightarrow> string \<Rightarrow> string \<Rightarrow> int \<Rightarrow> identity_error + string" where
  "pairing_approval_message i nonce pk usr approver expires =
     (if length nonce \<noteq> 32 \<or> length pk \<noteq> 32 then Inl AuthFailed
      else Inr (pairing_domain @ i @ nonce @ pk @ usr @ approver @ i64_be (unix_timestamp expires)))"

section \<open>Users and devices\<close>

definition get_user :: "auth_env \<Rightarrow> string \<Rightarrow> user option auth" where
  "get_user env i = ask env (\<lambda>_ db. find (\<lambda>u. us_id u = i) (db_users db))"

definition create_user :: "auth_env \<Rightarrow> string \<Rightarrow> string \<Rightarrow> user auth" where
  "create_user env i name =
     bind_auth (execute_query env (CreateUser i name)) (\<lambda>_.
     bind_auth (get_user env i) (some_or DatabaseSurreal))"

definition first_user :: "auth_env \<Rightarrow> user option auth" where
  "first_user env = ask env (\<lambda>_ db. case sort_key us_created_at (db_users db) of [] \<Rightarrow> None | u # _ \<Rightarrow> Some u)"

definition first_user_or_create :: "auth_env \<Rightarrow> string \<Rightarrow> string \<Rightarrow> user auth" where
  "first_user_or_create env i name = bind_auth (first_user env) (\<lambda>u.
     case u of Some x \<Rightarrow> return_auth x | None \<Rightarrow> create_user env i name)"

definition active_device_count :: "auth_env \<Rightarrow> nat auth" where
  "active_device_count env = ask env (\<lambda>_ db. count_where (\<lambda>d. dv_status d = ''active'') (db_devices db))"

definition get_device :: "auth_env \<Rightarrow> string \<Rightarrow> device option auth" where
  "get_device env i = ask env (\<lambda>_ db. find (\<lambda>d. dv_id d = i) (db_devices db))"

definition register_device ::
  "auth_env \<Rightarrow> string \<Rightarrow> string \<Rightarrow> string \<Rightarrow> string \<Rightarrow> platform \<Rightarrow> string \<Rightarrow> string \<Rightarrow> (device \<times> device_key) auth" where
  "register_device env dev key_id usr name plat algorithm pk =
     bind_auth (execute_query env (RegisterDevice dev usr name (platform_str plat) key_id algorithm pk)) (\<lambda>_.
     bind_auth (bind_auth (get_device env dev) (some_or DatabaseSurreal)) (\<lambda>d.
     bind_auth (bind_auth (ask env (\<lambda>_ db. find (\<lambda>k. ky_id k = key_id) (db_keys db))) (some_or DatabaseSurreal)) (\<lambda>k.
     return_auth (d, k))))"

definition bootstrap_register_first_device ::
  "auth_env \<Rightarrow> string \<Rightarrow> string \<Rightarrow> string \<Rightarrow> string \<Rightarrow> platform \<Rightarrow> string \<Rightarrow> (user \<times> device) auth" where
  "bootstrap_register_first_device env usr dev key_id name plat pk =
     bind_auth (active_device_count env) (\<lambda>n.
     if n \<noteq> 0 then fail_auth AuthFailed
     else bind_auth (map_err_auth (\<lambda>_. AuthFailed) (execute_query env (ClaimBootstrap ''bootstrap-claimed''))) (\<lambda>_.
          bind_auth (first_user_or_create env usr ''Jarvis user'') (\<lambda>u.
          bind_auth (register_device env dev key_id (us_id u) name plat ''ed25519'' pk) (\<lambda>(d, _).
          return_auth (u, d)))))"

definition list_active_devices :: "auth_env \<Rightarrow> string \<Rightarrow> device list auth" where
  "list_active_devices env usr = ask env (\<lambda>_ db. sort_key (\<lambda>d. - dv_created_at d)
     (filter (\<lambda>d. dv_user_id d = usr \<and> dv_status d = ''active'') (db_devices db)))"

definition revoke_device :: "auth_env \<Rightarrow> string \<Rightarrow> unit auth" where
  "revoke_device env dev = bind_auth (execute_query env (RevokeDevice dev)) (\<lambda>_. return_auth ())"

text \<open>The current key: \<open>ORDER BY created_at DESC LIMIT 1\<close>.\<close>

definition current_key :: "string \<Rightarrow> auth_db \<Rightarrow> device_key option" where
  "current_key dev db =
     (case sort_key (\<lambda>k. - ky_created_at k)
        (filter (\<lambda>k. ky_device_id k = dev \<and> ky_revoked_at k = None) (db_keys db)) of
        [] \<Rightarrow> None | k # _ \<Rightarrow> Some k)"

definition active_device_and_key :: "auth_env \<Rightarrow> string \<Rightarrow> string \<Rightarrow> (device \<times> string) auth" where
  "active_device_and_key env usr dev =
     bind_auth (bind_auth (get_device env dev) (some_or AuthFailed)) (\<lambda>d.
     if dv_user_id d \<noteq> usr \<or> dv_status d \<noteq> ''active'' then fail_auth AuthFailed
     else bind_auth (bind_auth (ask env (\<lambda>_. current_key dev)) (some_or AuthFailed)) (\<lambda>k.
          return_auth (d, ky_public_key k)))"

definition active_device_public_key :: "auth_env \<Rightarrow> string \<Rightarrow> string \<Rightarrow> string auth" where
  "active_device_public_key env usr dev =
     bind_auth (active_device_and_key env usr dev) (\<lambda>(_, pk). return_auth pk)"

definition verify_device_signature ::
  "crypto \<Rightarrow> auth_env \<Rightarrow> string \<Rightarrow> string \<Rightarrow> string \<Rightarrow> string \<Rightarrow> unit auth" where
  "verify_device_signature c env usr dev message signature =
     bind_auth (active_device_and_key env usr dev) (\<lambda>(d, pk).
     if dv_platform d \<notin> set APPROVER_PLATFORMS then fail_auth AuthFailed
     else of_sum (verify_signature c pk message signature))"

section \<open>Pairing\<close>

definition pairing_request_of :: "auth_env \<Rightarrow> string \<Rightarrow> string \<Rightarrow> pairing_request option auth" where
  "pairing_request_of env i usr =
     ask env (\<lambda>_ db. find (\<lambda>r. pg_id r = i \<and> pg_user_id r = usr) (db_pairings db))"

definition create_pairing_request ::
  "crypto \<Rightarrow> auth_env \<Rightarrow> string \<Rightarrow> string \<Rightarrow> string \<Rightarrow> string \<Rightarrow> platform \<Rightarrow> string \<Rightarrow> pairing_details \<Rightarrow> pairing_request auth" where
  "create_pairing_request c env i nonce usr name plat pk details =
     (let fingerprint = hex_encode c (sha256 c pk) in
      bind_auth (ask env (\<lambda>t db. find (\<lambda>r. pg_fingerprint r = fingerprint \<and> pg_status r = ''pending''
          \<and> pg_expires_at r > t) (db_pairings db))) (\<lambda>dup.
      if dup \<noteq> None then fail_auth AuthFailed
      else bind_auth (execute_query env (\<lambda>t. CreatePairing \<lparr>pg_id = i, pg_user_id = usr, pg_name = name,
             pg_platform = platform_str plat, pg_public_key = pk, pg_fingerprint = fingerprint, pg_nonce = nonce,
             pg_status = ''pending'', pg_created_at = t, pg_expires_at = t + minutes 5, pg_approved_by = None,
             pg_activated = None, pg_details = details\<rparr>)) (\<lambda>_.
           bind_auth (pairing_request_of env i usr) (some_or DatabaseSurreal))))"

definition pairing_request_status :: "auth_env \<Rightarrow> string \<Rightarrow> string \<Rightarrow> string option auth" where
  "pairing_request_status env i usr = bind_auth (pairing_request_of env i usr) (\<lambda>r. case r of
     None \<Rightarrow> return_auth None
   | Some x \<Rightarrow> bind_auth (now_utc env) (\<lambda>now. return_auth (Some
       (if pg_status x = ''pending'' \<and> pg_expires_at x < now then ''expired'' else pg_status x))))"

definition pairing_status_for_candidate ::
  "auth_env \<Rightarrow> string \<Rightarrow> string \<Rightarrow> (string \<times> string option \<times> bool) option auth" where
  "pairing_status_for_candidate env i nonce =
     bind_auth (ask env (\<lambda>_ db. find (\<lambda>r. pg_id r = i) (db_pairings db))) (\<lambda>r. case r of
       None \<Rightarrow> return_auth None
     | Some x \<Rightarrow>
         if pg_nonce x \<noteq> nonce then fail_auth AuthFailed
         else bind_auth (now_utc env) (\<lambda>now.
           let just_expired = (pg_status x = ''pending'' \<and> pg_expires_at x \<le> now) in
           bind_auth (if just_expired then execute_query env (ExpirePairing i) else return_auth 0) (\<lambda>_.
           return_auth (Some (if just_expired then ''expired'' else pg_status x, pg_activated x, just_expired)))))"

definition pending_pairing_requests :: "auth_env \<Rightarrow> string \<Rightarrow> pairing_request list auth" where
  "pending_pairing_requests env usr = ask env (\<lambda>t db. List.take 20 (sort_key (\<lambda>r. - pg_created_at r)
     (filter (\<lambda>r. pg_user_id r = usr \<and> pg_status r = ''pending'' \<and> pg_expires_at r > t) (db_pairings db))))"

definition activate_pairing_request ::
  "auth_env \<Rightarrow> string \<Rightarrow> string \<Rightarrow> pairing_request \<Rightarrow> string option \<Rightarrow> device auth" where
  "activate_pairing_request env dev key_id r approver =
     bind_auth (of_sum (platform_parse (pg_platform r))) (\<lambda>plat.
     bind_auth (map_err_auth (\<lambda>_. AuthFailed) (execute_query env (ActivatePairing (pg_id r) (pg_user_id r) (pg_fingerprint r)
         approver dev key_id (pg_name r) (platform_str plat) (pg_public_key r)))) (\<lambda>_.
     bind_auth (get_device env dev) (some_or DatabaseSurreal)))"

definition approve_pairing_request ::
  "crypto \<Rightarrow> auth_env \<Rightarrow> string \<Rightarrow> string \<Rightarrow> string \<Rightarrow> string \<Rightarrow> string \<Rightarrow> string \<Rightarrow> device auth" where
  "approve_pairing_request c env dev key_id i usr approver signature =
     bind_auth (bind_auth (pairing_request_of env i usr) (some_or AuthFailed)) (\<lambda>r.
     bind_auth (now_utc env) (\<lambda>now.
     if pg_status r \<noteq> ''pending'' \<or> pg_expires_at r \<le> now then fail_auth AuthFailed
     else bind_auth (of_sum (pairing_approval_message i (pg_nonce r) (pg_public_key r) usr approver (pg_expires_at r))) (\<lambda>m.
          bind_auth (verify_device_signature c env usr approver m signature) (\<lambda>_.
          activate_pairing_request env dev key_id r (Some approver)))))"

definition deny_pairing_request :: "auth_env \<Rightarrow> string \<Rightarrow> string \<Rightarrow> string \<Rightarrow> unit auth" where
  "deny_pairing_request env i usr denier =
     bind_auth (bind_auth (get_device env denier) (some_or AuthFailed)) (\<lambda>d.
     if dv_user_id d \<noteq> usr \<or> dv_status d \<noteq> ''active'' then fail_auth AuthFailed
     else bind_auth (execute_query env (DenyPairing i usr (Some denier))) (\<lambda>k.
          if k = 0 then fail_auth AuthFailed else return_auth ()))"

section \<open>Push targets\<close>

definition set_push_target :: "auth_env \<Rightarrow> string \<Rightarrow> string \<Rightarrow> string \<Rightarrow> unit auth" where
  "set_push_target env dev target apns_env = (\<lambda>st.
     case execute_query env (\<lambda>_. SetPush dev target apns_env) st of
       (Inr _, st') \<Rightarrow> (Inr (), st')
     | (Inl e, st') \<Rightarrow>
         bind_auth (ask env (\<lambda>_. foreign_push_target dev target)) (\<lambda>foreign.
           fail_auth (if foreign then AuthFailed else e)) st')"

definition delete_push_target :: "auth_env \<Rightarrow> string \<Rightarrow> unit auth" where
  "delete_push_target env dev = bind_auth (execute_query env (\<lambda>_. DeletePushOf dev)) (\<lambda>_. return_auth ())"

definition apns_targets :: "auth_env \<Rightarrow> string \<Rightarrow> string option \<Rightarrow> string \<Rightarrow> nat \<Rightarrow> string list auth" where
  "apns_targets env usr except apns_env limit = ask env (\<lambda>_ db. List.take limit (map pu_target
     (filter (\<lambda>p. pu_env p = apns_env \<and> Some (pu_device_id p) \<noteq> except
        \<and> pu_device_id p \<in> dv_id ` {d \<in> set (db_devices db). dv_user_id d = usr \<and> dv_status d = ''active''})
        (db_pushes db))))"

definition delete_apns_target :: "auth_env \<Rightarrow> string \<Rightarrow> unit auth" where
  "delete_apns_target env target = bind_auth (execute_query env (\<lambda>_. DeleteApnsTarget target)) (\<lambda>_. return_auth ())"

section \<open>Challenges and retention\<close>

definition owner_of :: "auth_env \<Rightarrow> string \<Rightarrow> string option auth" where
  "owner_of env dev = ask env (\<lambda>_ db. map_option dv_user_id
     (find (\<lambda>d. dv_id d = dev \<and> dv_status d = ''active'') (db_devices db)))"

definition create_challenge :: "auth_env \<Rightarrow> string \<Rightarrow> string \<Rightarrow> string \<Rightarrow> (string \<times> string) auth" where
  "create_challenge env i nonce dev = bind_auth (owner_of env dev) (\<lambda>owner. case owner of
     None \<Rightarrow> return_auth (i, nonce)
   | Some _ \<Rightarrow>
       bind_auth (execute_query env (DropChallenges dev)) (\<lambda>_.
       bind_auth (execute_query env (CreateChallenge i dev nonce)) (\<lambda>_. return_auth (i, nonce))))"

fun prune_auth_batches :: "auth_env \<Rightarrow> (int \<Rightarrow> auth_stmt) \<Rightarrow> nat \<Rightarrow> nat auth" where
  "prune_auth_batches env q 0 = return_auth 0"
| "prune_auth_batches env q (Suc n) = bind_auth (execute_query env q) (\<lambda>k.
     if k < AUTH_PRUNE_BATCH then return_auth k
     else bind_auth (prune_auth_batches env q n) (\<lambda>m. return_auth (k + m)))"

definition prune_expired_auth_state :: "auth_env \<Rightarrow> nat auth" where
  "prune_expired_auth_state env =
     bind_auth (prune_auth_batches env PruneChallenges AUTH_PRUNE_MAX_BATCHES) (\<lambda>a.
     bind_auth (prune_auth_batches env PrunePairings AUTH_PRUNE_MAX_BATCHES) (\<lambda>b.
     bind_auth (prune_auth_batches env ClearPairings AUTH_PRUNE_MAX_BATCHES) (\<lambda>d.
     return_auth (a + b + d))))"

section \<open>Passwords\<close>

text \<open>
  \<^verbatim>\<open>src/crates/identity/src/password.rs\<close>. The PHC parser, Argon2 and the list of \<^verbatim>\<open>common-passwords.txt\<close> are
  parameters: \<open>phc_parse\<close> gives the fields of a stored verifier, \<open>argon2_hash\<close> and \<open>argon2_verify\<close> the
  answers of the hashing task, \<open>ps_permit\<close> whether the semaphore had a permit left. A string is its UTF-8 bytes.
\<close>

datatype password_error = InvalidInput | InvalidVerifier | AuthenticationFailed | CommonPassword | PasswordBusy | PasswordUnavailable

definition MEMORY_KIB :: nat where "MEMORY_KIB = 64 * 1024"
definition ITERATIONS :: nat where "ITERATIONS = 3"
definition LANES :: nat where "LANES = 1"
definition OUTPUT_BYTES :: nat where "OUTPUT_BYTES = 32"
definition SALT_BYTES :: nat where "SALT_BYTES = 16"
definition MAX_PHC_BYTES :: nat where "MAX_PHC_BYTES = 256"

record phc =
  phc_algorithm :: string
  phc_version :: "nat option"
  phc_m_cost :: nat
  phc_t_cost :: nat
  phc_p_cost :: nat
  phc_params :: nat
  phc_salt_len :: nat
  phc_hash_len :: "nat option"

record password_service =
  ps_permit :: bool
  phc_parse :: "string \<Rightarrow> phc option"
  argon2_hash :: "string \<Rightarrow> password_error + string"
  argon2_verify :: "string \<Rightarrow> string \<Rightarrow> password_error + unit"
  common_lines :: "string list"

definition MIN_PASSWORD_CHARACTERS :: nat where "MIN_PASSWORD_CHARACTERS = 15"
definition MAX_PASSWORD_BYTES :: nat where "MAX_PASSWORD_BYTES = 1024"

definition account_password_new :: "string \<Rightarrow> password_error + string" where
  "account_password_new v =
     (if length v > MAX_PASSWORD_BYTES \<or> chars_count v < MIN_PASSWORD_CHARACTERS \<or> any_control v
      then Inl InvalidInput else Inr v)"

definition is_common :: "password_service \<Rightarrow> string \<Rightarrow> bool" where
  "is_common ps w = list_ex (\<lambda>l. eq_ignore_ascii_case l w)
     (filter (\<lambda>l. List.take 1 l \<noteq> ''#'') (common_lines ps))"

definition from_storage :: "password_service \<Rightarrow> string \<Rightarrow> password_error + string" where
  "from_storage ps v =
     (if length v > MAX_PHC_BYTES then Inl InvalidVerifier
      else case phc_parse ps v of
        None \<Rightarrow> Inl InvalidVerifier
      | Some h \<Rightarrow>
          if phc_algorithm h \<noteq> ''argon2id'' \<or> phc_version h \<noteq> Some 19 \<or> phc_m_cost h \<noteq> MEMORY_KIB
             \<or> phc_t_cost h \<noteq> ITERATIONS \<or> phc_p_cost h \<noteq> LANES \<or> phc_params h \<noteq> 3
             \<or> phc_salt_len h \<noteq> SALT_BYTES \<or> phc_hash_len h \<noteq> Some OUTPUT_BYTES
          then Inl InvalidVerifier else Inr v)"

text \<open>A hashing task runs only with one of the permits of the service.\<close>

definition password_work :: "password_service \<Rightarrow> password_error + 'a \<Rightarrow> password_error + 'a" where
  "password_work ps r = (if ps_permit ps then r else Inl PasswordBusy)"

definition password_hash :: "password_service \<Rightarrow> string \<Rightarrow> password_error + string" where
  "password_hash ps w =
     (if is_common ps w then Inl CommonPassword
      else password_work ps (case argon2_hash ps w of Inl e \<Rightarrow> Inl e | Inr h \<Rightarrow> from_storage ps h))"

definition password_verify :: "password_service \<Rightarrow> string \<Rightarrow> string \<Rightarrow> password_error + unit" where
  "password_verify ps w stored = password_work ps
     (if phc_parse ps stored = None then Inl InvalidVerifier else argon2_verify ps stored w)"

definition password_required :: "auth_env \<Rightarrow> string \<Rightarrow> bool auth" where
  "password_required env usr = ask env (\<lambda>_ db. case find (\<lambda>p. pw_user_id p = usr) (db_passwords db) of
     None \<Rightarrow> False | Some p \<Rightarrow> pw_revision p \<noteq> [])"

text \<open>The revision that was checked, or \<open>None\<close> when the account has no password.\<close>

definition verify_password :: "password_service \<Rightarrow> auth_env \<Rightarrow> string \<Rightarrow> string option \<Rightarrow> string option auth" where
  "verify_password ps env usr password =
     bind_auth (ask env (\<lambda>_ db. find (\<lambda>p. pw_user_id p = usr) (db_passwords db))) (\<lambda>row. case row of
       None \<Rightarrow> return_auth None
     | Some p \<Rightarrow>
         (case from_storage ps (pw_verifier p) of
            Inl _ \<Rightarrow> fail_auth AuthFailed
          | Inr stored \<Rightarrow>
              (case password of
                 None \<Rightarrow> fail_auth AuthFailed
               | Some w \<Rightarrow>
                   (case password_verify ps w stored of
                      Inr _ \<Rightarrow> return_auth (Some (pw_revision p))
                    | Inl PasswordBusy \<Rightarrow> fail_auth AuthBusy
                    | Inl AuthenticationFailed \<Rightarrow> fail_auth PasswordRejected
                    | Inl _ \<Rightarrow> fail_auth AuthFailed))))"

section \<open>Sessions\<close>

record login_result =
  lr_token :: string
  lr_session :: session
  lr_renewed :: bool

definition session_by_hash :: "string \<Rightarrow> auth_db \<Rightarrow> session option" where
  "session_by_hash h db = find (\<lambda>s. se_token_hash s = h) (db_sessions db)"

definition issued :: "crypto \<Rightarrow> auth_env \<Rightarrow> string \<Rightarrow> bool \<Rightarrow> login_result auth" where
  "issued c env token renewed =
     bind_auth (bind_auth (ask env (\<lambda>_. session_by_hash (sha256 c token))) (some_or DatabaseSurreal)) (\<lambda>s.
     return_auth \<lparr>lr_token = hex_encode c token, lr_session = s, lr_renewed = renewed\<rparr>)"

definition renew_session :: "crypto \<Rightarrow> auth_env \<Rightarrow> string \<Rightarrow> string \<Rightarrow> string \<Rightarrow> string \<Rightarrow> login_result auth" where
  "renew_session c env i token usr dev =
     bind_auth (map_err_auth (\<lambda>_. AuthFailed) (execute_query env (RenewSession i usr dev (sha256 c token)))) (\<lambda>_.
     issued c env token True)"

definition login_with_password ::
  "crypto \<Rightarrow> password_service \<Rightarrow> auth_env \<Rightarrow> string \<Rightarrow> string \<Rightarrow> string \<Rightarrow> string \<Rightarrow> string \<Rightarrow> string option \<Rightarrow> login_result auth" where
  "login_with_password c ps env sid token dev cid signature password =
     bind_auth (bind_auth (ask env (\<lambda>_ db. find (\<lambda>x. ch_id x = cid \<and> ch_device_id x = dev) (db_challenges db)))
       (some_or AuthFailed)) (\<lambda>ch.
     bind_auth (now_utc env) (\<lambda>now.
     if ch_consumed_at ch \<noteq> None \<or> ch_expires_at ch < now then fail_auth AuthFailed
     else
       bind_auth (bind_auth (ask env (\<lambda>_. current_key dev)) (some_or AuthFailed)) (\<lambda>k.
       bind_auth (of_sum (login_message cid dev (ch_nonce ch))) (\<lambda>m.
       bind_auth (of_sum (verify_signature c (ky_public_key k) m signature)) (\<lambda>_.
       bind_auth (bind_auth (owner_of env dev) (some_or AuthFailed)) (\<lambda>usr.
       bind_auth (execute_query env (ClaimChallenge cid dev)) (\<lambda>claimed.
       if claimed = 0 then fail_auth AuthFailed
       else
         bind_auth (if password = None then password_required env usr else return_auth False) (\<lambda>renew.
         if renew then renew_session c env sid token usr dev
         else
           bind_auth (verify_password ps env usr password) (\<lambda>revision.
           bind_auth (ask env (\<lambda>_. mint_check usr dev revision)) (\<lambda>granted.
           if \<not> granted then fail_auth DatabaseSurreal
           else bind_auth (execute_query env (MintSession sid usr dev (sha256 c token) revision)) (\<lambda>_.
             issued c env token False)))))))))))"

definition login :: "crypto \<Rightarrow> password_service \<Rightarrow> auth_env \<Rightarrow> string \<Rightarrow> string \<Rightarrow> string \<Rightarrow> string \<Rightarrow> string \<Rightarrow> login_result auth" where
  "login c ps env sid token dev cid signature = login_with_password c ps env sid token dev cid signature None"

definition SESSION_IDLE :: int where "SESSION_IDLE = hours 24"

definition session_is_live :: "session \<Rightarrow> int \<Rightarrow> bool" where
  "session_is_live s now \<longleftrightarrow>
     (let last_activity = (case se_last_used_at s of Some u \<Rightarrow> u | None \<Rightarrow> se_created_at s)
      in se_revoked_at s = None \<and> se_expires_at s \<ge> now \<and> now - last_activity < SESSION_IDLE)"

record authenticated =
  au_user :: user
  au_device :: device
  au_session_id :: string

definition active_device_row :: "string \<Rightarrow> auth_db \<Rightarrow> device option" where
  "active_device_row dev db = find (\<lambda>d. dv_id d = dev \<and> dv_status d = ''active'') (db_devices db)"

definition authenticate :: "crypto \<Rightarrow> auth_env \<Rightarrow> string \<Rightarrow> authenticated auth" where
  "authenticate c env token = (case hex_decode c token of
     None \<Rightarrow> fail_auth AuthFailed
   | Some raw \<Rightarrow>
       bind_auth (bind_auth (ask env (\<lambda>_. session_by_hash (sha256 c raw))) (some_or AuthFailed)) (\<lambda>s.
       bind_auth (now_utc env) (\<lambda>now.
       if \<not> session_is_live s now then fail_auth AuthFailed
       else
         bind_auth (execute_query env (TouchSession (se_id s))) (\<lambda>_.
         bind_auth (bind_auth (get_user env (se_user_id s)) (some_or AuthFailed)) (\<lambda>u.
         bind_auth (bind_auth (ask env (\<lambda>_. active_device_row (se_device_id s))) (some_or AuthFailed)) (\<lambda>d.
         return_auth \<lparr>au_user = u, au_device = d, au_session_id = se_id s\<rparr>))))))"

definition session_is_active :: "auth_env \<Rightarrow> string \<Rightarrow> string \<Rightarrow> string \<Rightarrow> bool auth" where
  "session_is_active env i usr dev =
     bind_auth (ask env (\<lambda>_ db. find (\<lambda>s. se_id s = i) (db_sessions db))) (\<lambda>s. case s of
       None \<Rightarrow> return_auth False
     | Some x \<Rightarrow>
         bind_auth (now_utc env) (\<lambda>now.
         if se_user_id x \<noteq> usr \<or> se_device_id x \<noteq> dev \<or> se_revoked_at x \<noteq> None \<or> se_expires_at x \<le> now
         then return_auth False
         else bind_auth (ask env (\<lambda>_. active_device_row dev)) (\<lambda>d.
              return_auth (case d of None \<Rightarrow> False | Some y \<Rightarrow> dv_user_id y = usr))))"

definition revoke_session :: "auth_env \<Rightarrow> string \<Rightarrow> unit auth" where
  "revoke_session env i = bind_auth (execute_query env (RevokeSession i)) (\<lambda>_. return_auth ())"

section \<open>Unlock requests\<close>

definition create_unlock_request :: "auth_env \<Rightarrow> string \<Rightarrow> string \<Rightarrow> string \<Rightarrow> string \<Rightarrow> (string \<times> string) auth" where
  "create_unlock_request env i nonce usr dev =
     bind_auth (execute_query env (CreateUnlock i usr dev nonce)) (\<lambda>_. return_auth (i, nonce))"

definition unlock_request_status :: "auth_env \<Rightarrow> string \<Rightarrow> string \<Rightarrow> string option auth" where
  "unlock_request_status env i usr =
     bind_auth (ask env (\<lambda>_ db. find (\<lambda>r. ul_id r = i \<and> ul_user_id r = usr) (db_unlocks db))) (\<lambda>r. case r of
       None \<Rightarrow> return_auth None
     | Some x \<Rightarrow>
         if ul_status x = ''pending'' \<or> ul_status x = ''denied'' \<and> ul_approved_by x = None
         then bind_auth (now_utc env) (\<lambda>now.
           return_auth (Some (if ul_expires_at x < now then ''expired'' else ''pending'')))
         else return_auth (Some (ul_status x)))"

record pending_unlock =
  pn_id :: string
  pn_device_id :: string
  pn_device_name :: string
  pn_platform :: string
  pn_nonce :: string
  pn_created_at :: int

fun unlocks_with_devices :: "auth_env \<Rightarrow> string \<Rightarrow> unlock_request list \<Rightarrow> pending_unlock list auth" where
  "unlocks_with_devices env usr [] = return_auth []"
| "unlocks_with_devices env usr (r # rs) =
     bind_auth (bind_auth (get_device env (ul_device_id r)) (some_or AuthFailed)) (\<lambda>d.
     bind_auth (unlocks_with_devices env usr rs) (\<lambda>ps.
     return_auth (if dv_user_id d \<noteq> usr \<or> dv_status d \<noteq> ''active'' then ps
       else \<lparr>pn_id = ul_id r, pn_device_id = ul_device_id r, pn_device_name = dv_name d,
             pn_platform = dv_platform d, pn_nonce = ul_nonce r, pn_created_at = ul_created_at r\<rparr> # ps)))"

definition pending_unlock_requests :: "auth_env \<Rightarrow> string \<Rightarrow> string \<Rightarrow> pending_unlock list auth" where
  "pending_unlock_requests env usr approver =
     bind_auth (ask env (\<lambda>t db. sort_key (\<lambda>r. - ul_created_at r) (filter (\<lambda>r. ul_user_id r = usr
         \<and> ul_device_id r \<noteq> approver \<and> ul_status r = ''pending'' \<and> ul_expires_at r > t) (db_unlocks db))))
       (unlocks_with_devices env usr)"

definition approve_unlock_request :: "crypto \<Rightarrow> auth_env \<Rightarrow> string \<Rightarrow> string \<Rightarrow> string \<Rightarrow> string \<Rightarrow> unit auth" where
  "approve_unlock_request c env i usr approver signature =
     bind_auth (bind_auth (ask env (\<lambda>t db. find (\<lambda>r. ul_id r = i \<and> ul_user_id r = usr \<and> ul_status r = ''pending''
         \<and> ul_expires_at r > t) (db_unlocks db))) (some_or AuthFailed)) (\<lambda>r.
     if ul_device_id r = approver then fail_auth AuthFailed
     else
       bind_auth (of_sum (unlock_approval_message i approver (ul_nonce r))) (\<lambda>m.
       bind_auth (verify_device_signature c env usr approver m signature) (\<lambda>_.
       bind_auth (execute_query env (ApproveUnlock i usr approver)) (\<lambda>k.
       if k = 0 then fail_auth AuthFailed else return_auth ()))))"

definition deny_unlock_request :: "auth_env \<Rightarrow> string \<Rightarrow> string \<Rightarrow> string \<Rightarrow> unit auth" where
  "deny_unlock_request env i usr denier =
     bind_auth (execute_query env (\<lambda>_. DenyUnlock i usr denier)) (\<lambda>k. if k = 0 then fail_auth AuthFailed else return_auth ())"

end
