(* ===== verification/Account.thy ===== *)
theory Account
  imports Identity
begin

text \<open>
  The account transactions of \<^verbatim>\<open>src/crates/identity/src/account.rs\<close>, the message they verify
  (\<^verbatim>\<open>src/crates/client-core/src/account.rs\<close>) and the operations reserved to local root
  (\<^verbatim>\<open>src/crates/identity/src/local_devices.rs\<close>). A request for an action changes nothing until the device that
  asked signs it; a forgotten password is set only after root confirms the signed recovery.
\<close>

section \<open>The first account\<close>

definition bootstrap_account ::
  "crypto \<Rightarrow> auth_env \<Rightarrow> string \<Rightarrow> string \<Rightarrow> string \<Rightarrow> string \<Rightarrow> string \<Rightarrow> platform \<Rightarrow> string \<Rightarrow> string \<Rightarrow> int \<Rightarrow> (user \<times> device) auth" where
  "bootstrap_account c env new_usr dev revision key_id name plat pk stored expires =
     (if length pk \<noteq> 32 \<or> \<not> key_from_bytes c pk then fail_auth AuthFailed
      else bind_auth (first_user env) (\<lambda>existing.
        let usr = (case existing of None \<Rightarrow> new_usr | Some u \<Rightarrow> us_id u) in
        bind_auth (execute_query env (BootstrapAccount expires (existing = None) usr dev stored revision name
            (platform_str plat) key_id pk)) (\<lambda>_.
        bind_auth (bind_auth (get_user env usr) (some_or DatabaseSurreal)) (\<lambda>u.
        bind_auth (bind_auth (get_device env dev) (some_or DatabaseSurreal)) (\<lambda>d.
        return_auth (u, d))))))"

definition bootstrap_available :: "auth_env \<Rightarrow> bool auth" where
  "bootstrap_available env = bind_auth (ask env (\<lambda>_ db. db_bootstrap db \<noteq> None)) (\<lambda>claimed.
     if claimed then return_auth False
     else bind_auth (active_device_count env) (\<lambda>n. return_auth (n = 0)))"

section \<open>Signed actions\<close>

record account_approval =
  aa_request_id :: string
  aa_user_id :: string
  aa_device_id :: string
  aa_action :: account_action
  aa_target :: string
  aa_nonce :: string
  aa_expires_at :: int

definition account_domain :: string where
  "account_domain = ''jarvis-account-approval-v1'' @ [CHR 0x00]"

definition account_approval_message :: "crypto \<Rightarrow> account_approval \<Rightarrow> string option" where
  "account_approval_message c a = (case hex_decode c (aa_nonce a) of
     None \<Rightarrow> None
   | Some nonce \<Rightarrow>
       if length nonce \<noteq> 32 \<or> aa_expires_at a \<le> 0 then None
       else Some (account_domain @ account_action_str (aa_action a) @ [CHR 0x00] @ aa_request_id a @ aa_user_id a
              @ aa_device_id a @ aa_target a @ nonce @ i64_be (aa_expires_at a)))"

definition load_action :: "auth_env \<Rightarrow> string \<Rightarrow> string \<Rightarrow> string \<Rightarrow> action_request auth" where
  "load_action env i usr dev =
     bind_auth (ask env (\<lambda>t db. find (action_live i usr dev t) (db_actions db))) (some_or AuthFailed)"

definition approval :: "crypto \<Rightarrow> string \<Rightarrow> action_request \<Rightarrow> account_approval" where
  "approval c i a = \<lparr>aa_request_id = i, aa_user_id = ac_user_id a, aa_device_id = ac_device_id a,
     aa_action = ac_action a, aa_target = ac_target a, aa_nonce = hex_encode c (ac_nonce a),
     aa_expires_at = unix_timestamp (ac_expires_at a)\<rparr>"

definition ensure_other_approver :: "auth_env \<Rightarrow> string \<Rightarrow> string \<Rightarrow> unit auth" where
  "ensure_other_approver env usr target =
     bind_auth (list_active_devices env usr) (\<lambda>ds.
     let approvers = map dv_id (filter (\<lambda>d. dv_platform d \<in> set APPROVER_PLATFORMS) ds) in
     if target \<in> set approvers \<and> length approvers < 2 then fail_auth LastApprover else return_auth ())"

text \<open>\<open>nonce\<close> is \<open>None\<close> when the random number generator fails.\<close>

definition request_action ::
  "crypto \<Rightarrow> auth_env \<Rightarrow> string \<Rightarrow> string option \<Rightarrow> string \<Rightarrow> string \<Rightarrow> account_action \<Rightarrow> string \<Rightarrow> string option \<Rightarrow> account_approval auth" where
  "request_action c env i nonce usr dev action target verifier =
     bind_auth (bind_auth (get_device env dev) (some_or AuthFailed)) (\<lambda>d.
     let sets_password = (action = PasswordSet \<or> action = PasswordReset) in
     if dv_user_id d \<noteq> usr \<or> dv_status d \<noteq> ''active''
        \<or> sets_password \<and> (target \<noteq> usr \<or> verifier = None)
        \<or> action = DeviceRevoke \<and> verifier \<noteq> None
        \<or> action = PasswordReset \<and> dv_platform d \<notin> set APPROVER_PLATFORMS
     then fail_auth AuthFailed
     else
       bind_auth (if action = DeviceRevoke
         then bind_auth (bind_auth (get_device env target) (some_or AuthFailed)) (\<lambda>tg.
           if dv_user_id tg \<noteq> usr \<or> dv_status tg \<noteq> ''active'' then fail_auth AuthFailed
           else ensure_other_approver env usr (dv_id tg))
         else return_auth ()) (\<lambda>_.
       bind_auth (some_or AuthFailed nonce) (\<lambda>n.
       bind_auth (execute_query env (\<lambda>t. RequestAction \<lparr>ac_id = i, ac_user_id = usr, ac_device_id = dev, ac_action = action,
           ac_target = target, ac_nonce = n, ac_verifier = verifier, ac_expires_at = t + minutes 5,
           ac_consumed_at = None\<rparr> t)) (\<lambda>_.
       bind_auth (load_action env i usr dev) (\<lambda>a. return_auth (approval c i a))))))"

text \<open>The error of a refused revocation.\<close>

definition revoke_failure :: "auth_env \<Rightarrow> string \<Rightarrow> string \<Rightarrow> string \<Rightarrow> string \<Rightarrow> identity_error \<Rightarrow> 'a auth" where
  "revoke_failure env i usr dev target e = (\<lambda>st.
     case get_device env dev st of (signer, st1) \<Rightarrow>
       if \<not> (case signer of Inr (Some d) \<Rightarrow> dv_user_id d = usr \<and> dv_status d = ''active'' | _ \<Rightarrow> False) then (Inl e, st1)
       else case load_action env i usr dev st1 of
         (Inl _, st2) \<Rightarrow> (Inl e, st2)
       | (Inr _, st2) \<Rightarrow>
           (case ensure_other_approver env usr target st2 of
              (r, st3) \<Rightarrow> (Inl (if r = Inl LastApprover then LastApprover else e), st3)))"

definition approve_action ::
  "crypto \<Rightarrow> password_service \<Rightarrow> auth_env \<Rightarrow> string \<Rightarrow> string \<Rightarrow> string \<Rightarrow> string \<Rightarrow> account_approval auth" where
  "approve_action c ps env i usr dev signature =
     bind_auth (load_action env i usr dev) (\<lambda>a.
     if (ac_action a = PasswordSet \<or> ac_action a = PasswordReset)
        \<and> (case ac_verifier a of None \<Rightarrow> True | Some v \<Rightarrow> isl (from_storage ps v))
     then fail_auth AuthFailed
     else
       let ch = approval c i a in
       bind_auth (some_or AuthFailed (account_approval_message c ch)) (\<lambda>m.
       bind_auth (verify_device_signature c env usr dev m signature) (\<lambda>_.
       (\<lambda>st. case execute_query env (ApproveAction i usr dev (ac_action a) (aa_target ch)) st of
          (Inr _, st') \<Rightarrow> (Inr ch, st')
        | (Inl e, st') \<Rightarrow>
            if ac_action a = DeviceRevoke then revoke_failure env i usr dev (aa_target ch) e st' else (Inl e, st')))))"

section \<open>Recovery\<close>

text \<open>The query is not a transaction: each of its statements stands alone.\<close>

fun recovery_checked :: "auth_env \<Rightarrow> (int \<Rightarrow> account_password list \<Rightarrow> recovery list \<Rightarrow> bool) list \<Rightarrow> unit auth" where
  "recovery_checked env [] = return_auth ()"
| "recovery_checked env (check # checks) =
     bind_auth (ask env (\<lambda>t db. check t (db_passwords db) (db_recoveries db))) (\<lambda>ok.
     if ok then recovery_checked env checks else fail_auth DatabaseSurreal)"

definition recovery_available :: "auth_env \<Rightarrow> string \<Rightarrow> unit auth" where
  "recovery_available env usr =
     bind_auth (execute_query env ExpireRecoveries) (\<lambda>_. recovery_checked env (recovery_checks usr))"

record pending_recovery =
  pr_id :: string
  pr_device_id :: string
  pr_device_name :: string
  pr_platform :: string
  pr_created_at :: int
  pr_expires_at :: int

fun recoveries_with_devices :: "auth_env \<Rightarrow> string \<Rightarrow> recovery list \<Rightarrow> pending_recovery list auth" where
  "recoveries_with_devices env usr [] = return_auth []"
| "recoveries_with_devices env usr (r # rs) =
     bind_auth (get_device env (rc_device_id r)) (\<lambda>dev.
     bind_auth (recoveries_with_devices env usr rs) (\<lambda>ps.
     return_auth (case dev of
       None \<Rightarrow> ps
     | Some d \<Rightarrow>
         if dv_user_id d \<noteq> usr \<or> dv_status d \<noteq> ''active'' then ps
         else \<lparr>pr_id = rc_id r, pr_device_id = rc_device_id r, pr_device_name = dv_name d, pr_platform = dv_platform d,
               pr_created_at = rc_created_at r, pr_expires_at = rc_expires_at r\<rparr> # ps)))"

definition pending_recoveries :: "auth_env \<Rightarrow> string \<Rightarrow> pending_recovery list auth" where
  "pending_recoveries env usr =
     bind_auth (execute_query env ExpireRecoveries) (\<lambda>_.
     bind_auth (ask env (\<lambda>t db. sort_key rc_created_at (filter (\<lambda>r. rc_user_id r = usr \<and> rc_status r = ''pending''
         \<and> rc_expires_at r > t) (db_recoveries db))))
       (recoveries_with_devices env usr))"

definition confirm_recovery :: "auth_env \<Rightarrow> string \<Rightarrow> string \<Rightarrow> unit auth" where
  "confirm_recovery env usr i =
     bind_auth (execute_query env ExpireRecoveries) (\<lambda>_.
     bind_auth (execute_query env (ConfirmRecovery usr i)) (\<lambda>_. return_auth ()))"

definition deny_recovery :: "auth_env \<Rightarrow> string \<Rightarrow> string \<Rightarrow> unit auth" where
  "deny_recovery env usr i =
     bind_auth (execute_query env ExpireRecoveries) (\<lambda>_.
     bind_auth (execute_query env (DenyRecovery usr i)) (\<lambda>k. if k = 0 then fail_auth AuthFailed else return_auth ()))"

section \<open>Local root\<close>

text \<open>\<open>uid\<close> is the answer of \<open>peer_cred\<close>. An operation asks for the proof first.\<close>

definition local_root_peer :: "nat option \<Rightarrow> identity_error + unit" where
  "local_root_peer uid = (if uid = Some 0 then Inr () else Inl AuthFailed)"

definition as_root :: "nat option \<Rightarrow> auth_env \<Rightarrow> (user \<Rightarrow> 'a auth) \<Rightarrow> 'a auth" where
  "as_root uid env f =
     bind_auth (of_sum (local_root_peer uid)) (\<lambda>_.
     bind_auth (bind_auth (first_user env) (some_or AuthFailed)) f)"

definition local_approve :: "nat option \<Rightarrow> auth_env \<Rightarrow> string \<Rightarrow> string \<Rightarrow> string \<Rightarrow> string \<Rightarrow> (device \<times> string) auth" where
  "local_approve uid env dev key_id i fingerprint = as_root uid env (\<lambda>owner.
     bind_auth (bind_auth (pairing_request_of env i (us_id owner)) (some_or AuthFailed)) (\<lambda>r.
     bind_auth (now_utc env) (\<lambda>now.
     if pg_status r \<noteq> ''pending'' \<or> pg_expires_at r \<le> now \<or> pg_fingerprint r \<noteq> fingerprint then fail_auth AuthFailed
     else bind_auth (activate_pairing_request env dev key_id r None) (\<lambda>d. return_auth (d, pg_public_key r)))))"

definition local_revoke :: "nat option \<Rightarrow> auth_env \<Rightarrow> string \<Rightarrow> user auth" where
  "local_revoke uid env dev = as_root uid env (\<lambda>owner.
     bind_auth (bind_auth (get_device env dev) (some_or AuthFailed)) (\<lambda>d.
     if dv_user_id d \<noteq> us_id owner \<or> dv_status d \<noteq> ''active'' then fail_auth AuthFailed
     else bind_auth (revoke_device env dev) (\<lambda>_. return_auth owner)))"

definition local_deny :: "nat option \<Rightarrow> auth_env \<Rightarrow> string \<Rightarrow> unit auth" where
  "local_deny uid env i = as_root uid env (\<lambda>owner.
     bind_auth (execute_query env (DenyPairing i (us_id owner) None)) (\<lambda>k.
     if k = 0 then fail_auth AuthFailed else return_auth ()))"

definition local_pending_recoveries :: "nat option \<Rightarrow> auth_env \<Rightarrow> pending_recovery list auth" where
  "local_pending_recoveries uid env = as_root uid env (\<lambda>owner. pending_recoveries env (us_id owner))"

definition local_confirm_recovery :: "nat option \<Rightarrow> auth_env \<Rightarrow> string \<Rightarrow> user auth" where
  "local_confirm_recovery uid env i = as_root uid env (\<lambda>owner.
     bind_auth (confirm_recovery env (us_id owner) i) (\<lambda>_. return_auth owner))"

definition local_deny_recovery :: "nat option \<Rightarrow> auth_env \<Rightarrow> string \<Rightarrow> unit auth" where
  "local_deny_recovery uid env i = as_root uid env (\<lambda>owner. deny_recovery env (us_id owner) i)"

section \<open>Signed bytes\<close>

text \<open>Every message that a device signs starts with a domain of its own.\<close>

lemma request_bytes_domain:
  assumes "request_message c r = Inr m"
  shows "take 28 m = ''jarvis-privileged-config-v1'' @ [CHR 0x00]
    \<and> codex_coding_approval_message act ph rid n u d i x st \<noteq> Inr m
    \<and> login_message rid d n \<noteq> Inr m \<and> unlock_approval_message rid d n \<noteq> Inr m
    \<and> pairing_approval_message rid n pk u d x \<noteq> Inr m \<and> account_approval_message c aa \<noteq> Some m"
proof -
  obtain rest where m: "m = config_domain @ rest"
    using request_message_ok [OF assms] by (auto simp: signed_fields_def)
  have "take 28 m = ''jarvis-privileged-config-v1'' @ [CHR 0x00]" by (simp add: m config_domain_def)
  moreover have "codex_coding_approval_message act ph rid n u d i x st \<noteq> Inr m"
    by (simp add: m codex_coding_approval_message_def signed_fields_def domains_differ [THEN not_sym])
  moreover have "login_message rid d n \<noteq> Inr m" "unlock_approval_message rid d n \<noteq> Inr m" "pairing_approval_message rid n pk u d x \<noteq> Inr m"
    by (simp_all add: m login_message_def unlock_approval_message_def challenge_message_def pairing_approval_message_def
        config_domain_def login_domain_def unlock_domain_def pairing_domain_def)
  moreover have "account_approval_message c aa \<noteq> Some m"
    by (simp add: m account_approval_message_def config_domain_def account_domain_def split: option.split)
  ultimately show ?thesis by blast
qed

text \<open>
  C40. The signed bytes identify the request. Bytes exist only for a well-formed operation with a
  lifetime of at most five minutes. Two requests with the same signed bytes agree on the action, the
  digest of the operation, the request id, the nonce, the user, the device, both times to the second
  and the state the approval is bound to. They start with the domain of a configuration approval, and no login, unlock, pairing,
  account or coding approval, whatever its fields, has the same bytes.\<close>

theorem signed_bytes_identify_request:
  assumes "crypto_laws c" and "request_typed r" and "request_typed r'"
    and "request_message c r = Inr m" and "request_message c r' = Inr m"
  shows "op_validate c (operation r) = Inr ()
    \<and> issued_at r < expires_at r \<and> expires_at r - issued_at r \<le> 300 * second
    \<and> op_action (operation r) = op_action (operation r')
    \<and> map_sum id (sha256 c) (canonical_payload c (operation r)) = map_sum id (sha256 c) (canonical_payload c (operation r'))
    \<and> request_id r = request_id r' \<and> hex_decode c (nonce_hex r) = hex_decode c (nonce_hex r')
    \<and> user_id r = user_id r' \<and> device_id r = device_id r'
    \<and> unix_timestamp (issued_at r) = unix_timestamp (issued_at r')
    \<and> unix_timestamp (expires_at r) = unix_timestamp (expires_at r')
    \<and> hex_decode c (expected_state_sha256 (operation r)) = hex_decode c (expected_state_sha256 (operation r'))
    \<and> take 28 m = ''jarvis-privileged-config-v1'' @ [CHR 0x00]
    \<and> codex_coding_approval_message act ph rid n u d i x st \<noteq> Inr m
    \<and> login_message rid d n \<noteq> Inr m \<and> unlock_approval_message rid d n \<noteq> Inr m
    \<and> pairing_approval_message rid n pk u d x \<noteq> Inr m \<and> account_approval_message c aa \<noteq> Some m"
proof -
  obtain n1 p s where 1: "decode_fixed c InvalidApproval 32 (nonce_hex r) = Inr n1"
      "canonical_payload c (operation r) = Inr p"
      "decode_fixed c InvalidOperation 32 (expected_state_sha256 (operation r)) = Inr s"
      "op_validate c (operation r) = Inr ()" "issued_at r < expires_at r"
      "expires_at r - issued_at r \<le> 5 * 60 * second"
      "m = signed_fields config_domain (op_action (operation r)) (sha256 c p) (request_id r) n1
            (user_id r) (device_id r) (issued_at r) (expires_at r) s"
    using request_message_ok [OF assms(4)] by blast
  obtain n1' p' s' where 2: "decode_fixed c InvalidApproval 32 (nonce_hex r') = Inr n1'"
      "canonical_payload c (operation r') = Inr p'"
      "decode_fixed c InvalidOperation 32 (expected_state_sha256 (operation r')) = Inr s'"
      "m = signed_fields config_domain (op_action (operation r')) (sha256 c p') (request_id r') n1'
            (user_id r') (device_id r') (issued_at r') (expires_at r') s'"
    using request_message_ok [OF assms(5)] by blast
  have "op_action (operation r) = op_action (operation r') \<and> sha256 c p = sha256 c p'
    \<and> request_id r = request_id r' \<and> n1 = n1' \<and> user_id r = user_id r' \<and> device_id r = device_id r'
    \<and> unix_timestamp (issued_at r) = unix_timestamp (issued_at r')
    \<and> unix_timestamp (expires_at r) = unix_timestamp (expires_at r') \<and> s = s'"
    using assms(1-3) decode_fixed_length [OF 1(1)] decode_fixed_length [OF 2(1)]
    by (intro signed_fields_inj [OF trans [OF 1(7) [symmetric] 2(4)]])
      (simp_all add: op_action_ok request_typed_def crypto_laws_def)
  moreover note request_bytes_domain [OF assms(4), of act ph rid n u d i x st pk aa]
  moreover have "hex_decode c (nonce_hex r) = Some n1" "hex_decode c (nonce_hex r') = Some n1'"
      "hex_decode c (expected_state_sha256 (operation r)) = Some s"
      "hex_decode c (expected_state_sha256 (operation r')) = Some s'"
    using 1(1,3) 2(1,3) by (auto simp: decode_fixed_def split: option.splits if_splits)
  ultimately show ?thesis using 1(2,4,5,6) 2(2) by simp
qed

theorem signed_bytes_identify_request_witness:
  "request_message sample_crypto sample_request \<noteq> request_message sample_crypto (sample_request\<lparr>user_id := replicate 16 CHR ''x''\<rparr>)"
proof
  let ?r = "sample_request\<lparr>user_id := replicate 16 CHR ''x''\<rparr>"
  assume "request_message sample_crypto sample_request = request_message sample_crypto ?r"
  then have m: "request_message sample_crypto ?r = Inr (signed_fields config_domain ''model.set_enabled''
     (replicate 32 CHR ''h'') (replicate 16 CHR ''r'') (replicate 32 CHR ''0'') (replicate 16 CHR ''u'')
     (replicate 16 CHR ''d'') 0 (60 * second) (replicate 32 CHR ''0''))"
    by (simp add: sample_request_message)
  have "request_typed ?r" using sample_request_typed by (simp add: request_typed_def)
  from signed_bytes_identify_request [OF sample_crypto_laws sample_request_typed this sample_request_message m]
  have "user_id sample_request = user_id ?r" by blast
  then show False by (simp add: sample_request_def numeral_eq_Suc)
qed

end
