(* ===== verification/Identity_Inv.thy ===== *)
theory Identity_Inv
  imports Account
begin

text \<open>
  What the statements of the identity store keep (\<open>accounts_ok\<close>), and what a run of statements can
  and cannot do to a device, a challenge, the approvers of a user, a recovery and the lifetime of a
  session. \<open>accounts\<close>, \<open>device_rows\<close>, \<open>recoveries\<close> and \<open>lifetimes\<close> are the interpretations of
  \<open>transition_system\<close> for the tables.
\<close>

section \<open>Tables\<close>

lemma set_set_where: "set (set_where p f xs) = (\<lambda>x. if p x then f x else x) ` set xs"
  by (simp add: set_where_def)

lemma set_delete_where [simp]: "set (delete_where p xs) = {x \<in> set xs. \<not> p x}"
  by (simp add: delete_where_def)

lemma map_set_where: "(\<And>x. g (f x) = g x) \<Longrightarrow> map g (set_where p f xs) = map g xs"
  by (induction xs) (auto simp: set_where_def)

lemma distinct_delete_where: "distinct (map g xs) \<Longrightarrow> distinct (map g (delete_where p xs))"
  unfolding delete_where_def by (rule distinct_map_filter)

lemma count_where_0: "count_where p xs = 0 \<longleftrightarrow> (\<forall>x \<in> set xs. \<not> p x)"
  by (auto simp: count_where_def filter_empty_conv)

lemma count_where_1D: "count_where p xs = 1 \<Longrightarrow> \<exists>x \<in> set xs. p x"
  using count_where_0 [of p xs] by auto

lemma first_where_subset: "set (snd (first_where n p (\<lambda>_. None) xs)) \<subseteq> set xs"
proof (induction xs arbitrary: n)
  case (Cons x xs)
  show ?case using Cons.IH [of "n - 1"] Cons.IH [of n] by (auto split: prod.splits)
qed simp

lemma first_where_distinct:
  "distinct (map g xs) \<Longrightarrow> distinct (map g (snd (first_where n p (\<lambda>_. None) xs)))"
proof (induction xs arbitrary: n)
  case (Cons x xs)
  have "g x \<notin> g ` set (snd (first_where n p (\<lambda>_. None) xs))"
    using Cons.prems first_where_subset [of n p xs] by auto
  then show ?case using Cons.IH [of "n - 1"] Cons.IH [of n] Cons.prems by (auto split: prod.splits)
qed simp

section \<open>The state of the accounts\<close>

text \<open>
  Identifiers are unique, a session that is not revoked belongs to an active device of its user
  and carries the revision of the user's present password, and a key that is not revoked belongs
  to an active device.
\<close>

definition current_revision :: "string \<Rightarrow> account_password list \<Rightarrow> string" where
  "current_revision usr ps = (case filter (\<lambda>p. pw_user_id p = usr) ps of [] \<Rightarrow> [] | p # _ \<Rightarrow> pw_revision p)"

definition revision_of :: "session \<Rightarrow> string" where
  "revision_of s = (case se_revision s of None \<Rightarrow> [] | Some r \<Rightarrow> r)"

definition live_ok :: "device list \<Rightarrow> account_password list \<Rightarrow> session \<Rightarrow> bool" where
  "live_ok ds ps s \<longleftrightarrow> (se_revoked_at s = None \<longrightarrow>
     (\<exists>d \<in> set ds. active_device (se_device_id s) (se_user_id s) d) \<and> revision_of s = current_revision (se_user_id s) ps)"

definition times_ok :: "session \<Rightarrow> bool" where
  "times_ok s \<longleftrightarrow> se_expires_at s \<le> se_created_at s + days 7
     \<and> (\<forall>v. se_verified_at s = Some v \<longrightarrow> se_expires_at s \<le> v + days PASSWORD_RENEWAL_DAYS)"

definition keys_ok :: "device list \<Rightarrow> device_key list \<Rightarrow> bool" where
  "keys_ok ds ks \<longleftrightarrow> (\<forall>k \<in> set ks. ky_revoked_at k = None \<longrightarrow>
     (\<exists>d \<in> set ds. dv_id d = ky_device_id k \<and> dv_status d = ''active''))"

definition accounts_ok :: "auth_db \<Rightarrow> bool" where
  "accounts_ok db \<longleftrightarrow> distinct (map dv_id (db_devices db)) \<and> distinct (map pw_user_id (db_passwords db))
     \<and> (\<forall>s \<in> set (db_sessions db). live_ok (db_devices db) (db_passwords db) s \<and> times_ok s)
     \<and> keys_ok (db_devices db) (db_keys db)"

lemma accounts_ok_cong:
  assumes "db_devices db' = db_devices db" "db_passwords db' = db_passwords db" "db_sessions db' = db_sessions db"
    and "db_keys db' = db_keys db"
  shows "accounts_ok db' = accounts_ok db"
  using assms by (simp add: accounts_ok_def)

lemma add_device_ok:
  assumes "accounts_ok db" and "add_device dev usr name plat key_id pk t db = Some db'"
  shows "accounts_ok db' \<and> db_passwords db' = db_passwords db \<and> db_sessions db' = db_sessions db"
  using assms by (fastforce simp: add_device_def accounts_ok_def live_ok_def keys_ok_def split: if_splits)

lemma end_sessions_simps [simp]:
  "db_devices (end_sessions p t db) = db_devices db" "db_passwords (end_sessions p t db) = db_passwords db"
  "db_keys (end_sessions p t db) = db_keys db" "db_recoveries (end_sessions p t db) = db_recoveries db"
  "db_challenges (end_sessions p t db) = db_challenges db" "db_pushes (end_sessions p t db) = db_pushes db"
  by (simp_all add: end_sessions_def)

lemma end_sessions_set:
  "s \<in> set (db_sessions (end_sessions p t db)) \<longleftrightarrow>
     (\<exists>x \<in> set (db_sessions db). s = (if p x \<and> se_revoked_at x = None then x\<lparr>se_revoked_at := Some t\<rparr> else x))"
proof -
  have "db_sessions (end_sessions p t db) =
      map (\<lambda>x. if p x \<and> se_revoked_at x = None then x\<lparr>se_revoked_at := Some t\<rparr> else x) (db_sessions db)"
    by (simp add: end_sessions_def set_where_def)
  then show ?thesis by (simp only: set_map image_iff)
qed

lemma ended_ok:
  assumes "\<forall>s \<in> set (db_sessions db). times_ok s"
    and "\<And>s. s \<in> set (db_sessions db) \<Longrightarrow> se_revoked_at s = None \<Longrightarrow> \<not> p s \<Longrightarrow> live_ok ds ps s"
  shows "\<forall>s \<in> set (db_sessions (end_sessions p t db)). live_ok ds ps s \<and> times_ok s"
proof
  fix s assume "s \<in> set (db_sessions (end_sessions p t db))"
  then obtain x where x: "x \<in> set (db_sessions db)"
      and s: "s = (if p x \<and> se_revoked_at x = None then x\<lparr>se_revoked_at := Some t\<rparr> else x)"
    unfolding end_sessions_set by blast
  have tm: "times_ok x" using assms(1) x by blast
  show "live_ok ds ps s \<and> times_ok s"
  proof (cases "se_revoked_at x = None \<and> \<not> p x")
    case True
    then show ?thesis using assms(2) [OF x] s tm by simp
  next
    case False
    then show ?thesis using s tm by (auto simp: live_ok_def times_ok_def)
  qed
qed

lemma drop_device_ok:
  assumes "accounts_ok db" and "\<And>d. p d \<Longrightarrow> dv_id d = dev"
    and "\<And>d s. p d \<Longrightarrow> active_device (se_device_id s) (se_user_id s) d \<Longrightarrow> q s"
  shows "accounts_ok (drop_device p q dev t db)"
proof -
  let ?ds = "set_where p (\<lambda>d. d\<lparr>dv_status := ''revoked''\<rparr>) (db_devices db)"
  have keep: "d \<in> set ?ds" if "d \<in> set (db_devices db)" "\<not> p d" for d
    using that by (force simp: set_set_where)
  have "\<forall>s \<in> set (db_sessions (end_sessions q t db)). live_ok ?ds (db_passwords db) s \<and> times_ok s"
  proof (rule ended_ok)
    show "\<forall>s \<in> set (db_sessions db). times_ok s" using assms(1) by (simp add: accounts_ok_def)
    fix s assume s: "s \<in> set (db_sessions db)" "se_revoked_at s = None" "\<not> q s"
    then have ok: "live_ok (db_devices db) (db_passwords db) s" using assms(1) by (simp add: accounts_ok_def)
    then obtain d where "d \<in> set (db_devices db)" "active_device (se_device_id s) (se_user_id s) d"
      using s(2) unfolding live_ok_def by blast
    then show "live_ok ?ds (db_passwords db) s" using keep assms(3) s ok unfolding live_ok_def by blast
  qed
  moreover have "keys_ok ?ds (db_keys (drop_device p q dev t db))"
    using assms(1) keep assms(2) unfolding keys_ok_def accounts_ok_def
    by (fastforce simp: drop_device_def set_set_where split: if_splits)
  moreover have "map dv_id ?ds = map dv_id (db_devices db)" by (rule map_set_where) simp
  ultimately show ?thesis using assms(1) by (simp add: accounts_ok_def drop_device_def)
qed


lemma set_recoveries_ok:
  assumes "set_recoveries rs db = Some db'"
  shows "accounts_ok db' = accounts_ok db" and "db_recoveries db' = rs" and "distinct (map rc_slot rs)"
  using assms by (auto simp: set_recoveries_def accounts_ok_def split: if_splits)

lemma add_session_ok:
  assumes "accounts_ok db" and "add_session s db = Some db'" and "live_ok (db_devices db) (db_passwords db) s" and "times_ok s"
  shows "accounts_ok db'"
  using assms by (auto simp: add_session_def accounts_ok_def split: if_splits)

lemma current_revision_filter:
  "filter (\<lambda>p. pw_user_id p = usr) ps = filter (\<lambda>p. pw_user_id p = usr) qs \<Longrightarrow> current_revision usr ps = current_revision usr qs"
  by (simp add: current_revision_def)

lemma filter_set_where_other:
  "(\<And>x. g (f x) = g x) \<Longrightarrow> (\<And>x. p x \<Longrightarrow> g x \<noteq> v) \<Longrightarrow>
     filter (\<lambda>x. g x = v) (set_where p f xs) = filter (\<lambda>x. g x = v) xs"
  by (induction xs) (auto simp: set_where_def)

lemma days_le: "a \<le> b \<Longrightarrow> days a \<le> days b"
  by (simp add: days_def second_def)

lemma minted_times [simp]: "times_ok (minted i usr dev hash verified t)"
  using days_le [of 7 30] by (simp add: minted_def times_ok_def PASSWORD_RENEWAL_DAYS_def)

lemma mint_session_ok:
  assumes ok: "accounts_ok db" and run: "st_mint_session i usr dev hash verified t db = Some (k, db')" and check: "mint_check usr dev verified db"
  shows "accounts_ok db'"
proof -
  have add: "add_session (minted i usr dev hash verified t) db = Some db'" using run by (auto simp: st_mint_session_def)
  have act: "count_where (active_device dev usr) (db_devices db) = 1"
    and rv: "(case verified of None \<Rightarrow> [] | Some r \<Rightarrow> r) = current_revision usr (db_passwords db)"
    using check by (auto simp: mint_check_def Let_def current_revision_def split: list.splits)
  have "live_ok (db_devices db) (db_passwords db) (minted i usr dev hash verified t)"
    using count_where_1D [OF act] rv by (simp add: live_ok_def revision_of_def minted_def)
  then show ?thesis by (rule add_session_ok [OF ok add]) simp
qed

lemma renew_session_ok:
  assumes ok: "accounts_ok db" and run: "st_renew_session i usr dev hash t db = Some (k, db')"
  shows "accounts_ok db'"
proof -
  obtain anchor v rv account where act: "count_where (\<lambda>d. active_device dev usr d \<and> dv_platform d \<in> set BIOMETRIC_RENEWAL_PLATFORMS) (db_devices db) = 1"
      and acc: "filter (\<lambda>p. pw_user_id p = usr) (db_passwords db) = [account]" "pw_revision account = rv"
      and add: "add_session \<lparr>se_id = i, se_user_id = usr, se_device_id = dev, se_token_hash = hash, se_created_at = t,
        se_expires_at = min (t + days 7) (v + days PASSWORD_RENEWAL_DAYS), se_last_used_at = None,
        se_revoked_at = None, se_verified_at = Some v, se_revision = Some rv\<rparr> (end_sessions (\<lambda>s. se_device_id s = dev) t db) = Some db'"
    using run by (auto simp: st_renew_session_def split: if_splits option.splits list.splits)
  have "accounts_ok (end_sessions (\<lambda>s. se_device_id s = dev) t db)"
    using ok ended_ok [of db "\<lambda>s. se_device_id s = dev" "db_devices db" "db_passwords db"] by (simp add: accounts_ok_def)
  then show ?thesis
  proof (rule add_session_ok [OF _ add])
    show "times_ok \<lparr>se_id = i, se_user_id = usr, se_device_id = dev, se_token_hash = hash, se_created_at = t,
        se_expires_at = min (t + days 7) (v + days PASSWORD_RENEWAL_DAYS), se_last_used_at = None,
        se_revoked_at = None, se_verified_at = Some v, se_revision = Some rv\<rparr>"
      by (simp add: times_ok_def)
  qed (use count_where_1D [OF act] acc in \<open>auto simp: live_ok_def revision_of_def current_revision_def\<close>)
qed

lemma touch_session_ok: "accounts_ok db \<Longrightarrow> st_touch_session i t db = Some (k, db') \<Longrightarrow> accounts_ok db'"
  by (auto simp: st_touch_session_def accounts_ok_def set_set_where live_ok_def revision_of_def times_ok_def)

lemma end_sessions_ok: "accounts_ok db \<Longrightarrow> accounts_ok (end_sessions p t db)"
  using ended_ok [of db p "db_devices db" "db_passwords db" t] by (auto simp: accounts_ok_def)

lemma revoke_device_ok: "accounts_ok db \<Longrightarrow> st_revoke_device dev t db = Some (k, db') \<Longrightarrow> accounts_ok db'"
  using drop_device_ok [of db "\<lambda>d. dv_id d = dev" dev "\<lambda>s. se_device_id s = dev" t]
  by (auto simp: st_revoke_device_def active_device_def set_recoveries_ok(1))

lemma no_active_no_live:
  assumes "accounts_ok db" and "count_where (\<lambda>d. dv_status d = ''active'') (db_devices db) = 0" and "s \<in> set (db_sessions db)"
  shows "se_revoked_at s \<noteq> None"
  using assms by (auto simp: accounts_ok_def live_ok_def active_device_def count_where_0)

lemma bootstrap_account_ok:
  assumes ok: "accounts_ok db" and run: "st_bootstrap_account x nu usr dev v r name plat key_id pk t db = Some (k, db')"
  shows "accounts_ok db'"
proof -
  obtain db1 where none: "count_where (\<lambda>d. dv_status d = ''active'') (db_devices db) = 0"
      and fresh: "usr \<notin> pw_user_id ` set (db_passwords db)"
      and add: "add_device dev usr name plat key_id pk t db = Some db1"
      and db': "db_devices db' = db_devices db1" "db_keys db' = db_keys db1" "db_sessions db' = db_sessions db1"
        "map pw_user_id (db_passwords db') = map pw_user_id (db_passwords db) @ [usr]"
    using run by (auto simp: st_bootstrap_account_def split: if_splits)
  have ok1: "accounts_ok db1" "db_sessions db1 = db_sessions db" using add_device_ok [OF ok add] by auto
  have "live_ok (db_devices db') (db_passwords db') s" if "s \<in> set (db_sessions db')" for s
    using no_active_no_live [OF ok none, of s] that ok1 db' by (auto simp: live_ok_def)
  moreover have "distinct (map pw_user_id (db_passwords db'))"
    using ok fresh unfolding db'(4) by (auto simp: accounts_ok_def)
  ultimately show ?thesis using ok1(1) db'(1-3) by (simp add: accounts_ok_def)
qed

lemma set_password_facts:
  "w \<noteq> usr \<Longrightarrow> current_revision w (set_password usr v r t ps) = current_revision w ps"
  "distinct (map pw_user_id ps) \<Longrightarrow> distinct (map pw_user_id (set_password usr v r t ps))"
  by (auto simp: set_password_def map_set_where filter_set_where_other filter_empty_conv image_iff
      intro!: current_revision_filter)

lemma password_change_ok:
  assumes ok: "accounts_ok db" and "distinct (map pw_user_id ps)"
    and "\<And>w. w \<noteq> usr \<Longrightarrow> current_revision w ps = current_revision w (db_passwords db)"
  shows "accounts_ok ((end_sessions (\<lambda>s. se_user_id s = usr) t db)\<lparr>db_passwords := ps\<rparr>)"
  using ok assms(2-3) ended_ok [of db "\<lambda>s. se_user_id s = usr" "db_devices db" ps t]
  by (auto simp: accounts_ok_def live_ok_def)


lemma apply_action_ok:
  assumes ok: "accounts_ok db" and run: "apply_action a t db = Some db'"
  shows "accounts_ok db'"
proof (cases "ac_action a")
  case PasswordSet
  then obtain v where "set_recoveries (set_where (\<lambda>r. rc_user_id r = ac_user_id a \<and> rc_status r = ''pending'') (cancel_recovery t) (db_recoveries db))
         ((end_sessions (\<lambda>s. se_user_id s = ac_user_id a) t db)\<lparr>
            db_passwords := set_password (ac_user_id a) v (ac_id a) t (db_passwords db),
            db_actions := delete_where (\<lambda>x. ac_user_id x = ac_user_id a) (db_actions db)\<rparr>) = Some db'"
    using run by (auto simp: apply_action_def act_password_set_def split: option.splits)
  from set_recoveries_ok(1) [OF this]
  show ?thesis
    using password_change_ok [OF ok set_password_facts(2) set_password_facts(1), of "ac_user_id a"] ok
    by (simp add: accounts_ok_def)
next
  case DeviceRevoke
  then have "set_recoveries (set_where (\<lambda>r. rc_user_id r = ac_user_id a \<and> rc_device_id r = ac_target a \<and> rc_status r = ''pending'')
               (cancel_recovery t) (db_recoveries db))
             (drop_device (\<lambda>d. dv_id d = ac_target a \<and> dv_user_id d = ac_user_id a)
               (\<lambda>s. se_device_id s = ac_target a \<and> se_user_id s = ac_user_id a) (ac_target a) t db) = Some db'"
    using run by (simp add: apply_action_def act_device_revoke_def Let_def split: if_splits)
  then show ?thesis
    using drop_device_ok [OF ok, of "\<lambda>d. dv_id d = ac_target a \<and> dv_user_id d = ac_user_id a" "ac_target a"
        "\<lambda>s. se_device_id s = ac_target a \<and> se_user_id s = ac_user_id a" t]
    by (auto simp: active_device_def set_recoveries_ok(1))
next
  case PasswordReset
  then show ?thesis
    using ok run by (auto simp: apply_action_def act_password_reset_def Let_def set_recoveries_ok(1) split: if_splits)
qed

lemma approve_action_ok:
  assumes ok: "accounts_ok db" and run: "st_approve_action i usr dev act target t db = Some (k, db')"
  shows "accounts_ok db'"
proof -
  obtain a db1 as where "apply_action a t (db\<lparr>db_actions := as\<rparr>) = Some db1"
      and db': "db' = db1\<lparr>db_actions := delete_where (\<lambda>x. ac_id x = i) (db_actions db1)\<rparr>"
    using run by (auto simp: st_approve_action_def Let_def split: if_splits list.splits)
  then have "accounts_ok db1" using apply_action_ok ok accounts_ok_cong [of "db\<lparr>db_actions := as\<rparr>" db] by auto
  then show ?thesis using db' accounts_ok_cong [of db' db1] by simp
qed

lemma confirm_recovery_ok:
  assumes ok: "accounts_ok db" and run: "st_confirm_recovery usr i t db = Some (k, db')"
  shows "accounts_ok db'"
proof -
  let ?ps = "\<lambda>v. set_where (\<lambda>p. pw_user_id p = usr) (\<lambda>p. p\<lparr>pw_verifier := v, pw_revision := i, pw_updated_at := t\<rparr>) (db_passwords db)"
  obtain rs v db1 where rec: "set_recoveries rs db1 = Some db'"
      and db1: "db_devices db1 = db_devices db" "db_keys db1 = db_keys db" "db_passwords db1 = ?ps v"
        "db_sessions db1 = db_sessions (end_sessions (\<lambda>s. se_user_id s = usr) t db)"
    using run by (auto simp: st_confirm_recovery_def Let_def split: if_splits list.splits option.splits)
  have "accounts_ok ((end_sessions (\<lambda>s. se_user_id s = usr) t db)\<lparr>db_passwords := ?ps v\<rparr>)"
    using ok by (intro password_change_ok)
      (auto simp: accounts_ok_def map_set_where filter_set_where_other intro!: current_revision_filter)
  then have "accounts_ok db1" using db1 accounts_ok_cong [of db1 "(end_sessions (\<lambda>s. se_user_id s = usr) t db)\<lparr>db_passwords := ?ps v\<rparr>"]
    by simp
  then show ?thesis using set_recoveries_ok(1) [OF rec] by simp
qed

definition touches_accounts :: "auth_stmt \<Rightarrow> bool" where
  "touches_accounts s \<longleftrightarrow> (case s of
     RegisterDevice _ _ _ _ _ _ _ _ \<Rightarrow> True | RevokeDevice _ _ \<Rightarrow> True | ActivatePairing _ _ _ _ _ _ _ _ _ _ \<Rightarrow> True
   | MintSession _ _ _ _ _ _ \<Rightarrow> True | RenewSession _ _ _ _ _ \<Rightarrow> True | TouchSession _ _ \<Rightarrow> True | RevokeSession _ _ \<Rightarrow> True
   | BootstrapAccount _ _ _ _ _ _ _ _ _ _ _ \<Rightarrow> True | ApproveAction _ _ _ _ _ _ \<Rightarrow> True | ConfirmRecovery _ _ _ \<Rightarrow> True
   | _ \<Rightarrow> False)"

lemmas plain_stmts = st_create_user_def st_claim_bootstrap_def st_create_pairing_def st_expire_pairing_def st_deny_pairing_def
  st_drop_challenges_def st_create_challenge_def st_claim_challenge_def st_create_unlock_def st_approve_unlock_def
  st_deny_unlock_def st_set_push_def st_delete_push_def st_prune_challenges_def st_prune_pairings_def st_clear_pairings_def
  st_request_action_def st_expire_recoveries_def st_deny_recovery_def set_recoveries_def Let_def

lemma untouched_accounts:
  "\<not> touches_accounts s \<Longrightarrow> exec s db = Some (k, db') \<Longrightarrow>
     db_devices db' = db_devices db \<and> db_passwords db' = db_passwords db \<and> db_sessions db' = db_sessions db \<and> db_keys db' = db_keys db"
  by (cases s) (auto simp: touches_accounts_def plain_stmts split: if_splits prod.splits)

lemma register_device_ok:
  "accounts_ok db \<Longrightarrow> st_register_device dev usr name plat key_id alg pk t db = Some (k, db') \<Longrightarrow> accounts_ok db'"
  by (auto simp: st_register_device_def dest: add_device_ok split: if_splits)

lemma activate_pairing_ok:
  assumes "accounts_ok db" and "st_activate_pairing i usr fp ap dev key_id name plat pk t db = Some (k, db')"
  shows "accounts_ok db'"
proof -
  obtain db1 where "add_device dev usr name plat key_id pk t db = Some db1"
      and "db_devices db' = db_devices db1" "db_passwords db' = db_passwords db1" "db_sessions db' = db_sessions db1" "db_keys db' = db_keys db1"
    using assms(2) by (auto simp: st_activate_pairing_def Let_def split: if_splits)
  then show ?thesis using add_device_ok [OF assms(1)] accounts_ok_cong [of db' db1] by blast
qed

lemma revoke_session_ok: "accounts_ok db \<Longrightarrow> st_revoke_session i t db = Some (k, db') \<Longrightarrow> accounts_ok db'"
  by (auto simp: st_revoke_session_def intro: end_sessions_ok)

lemmas touching_ok = register_device_ok activate_pairing_ok revoke_session_ok revoke_device_ok renew_session_ok
  touch_session_ok bootstrap_account_ok approve_action_ok confirm_recovery_ok

text \<open>A run in which no login is overtaken: what it checked still holds when its session is written.\<close>

definition mint_allowed :: "auth_db \<Rightarrow> auth_stmt \<Rightarrow> bool" where
  "mint_allowed db s \<longleftrightarrow> (case s of MintSession _ usr dev _ verified _ \<Rightarrow> mint_check usr dev verified db | _ \<Rightarrow> True)"

definition serial_step :: "auth_db \<Rightarrow> auth_stmt \<Rightarrow> auth_db" where
  "serial_step db s = (if mint_allowed db s then auth_step db s else db)"

lemma exec_ok:
  assumes ok: "accounts_ok db" and run: "exec s db = Some (k, db')" and allowed: "mint_allowed db s"
  shows "accounts_ok db'"
proof (cases "touches_accounts s")
  case False
  then show ?thesis using untouched_accounts [OF False run] ok accounts_ok_cong [of db' db] by simp
next
  case True
  then show ?thesis
    using run allowed by (cases s) (simp_all add: touches_accounts_def touching_ok [OF ok] mint_allowed_def mint_session_ok [OF ok])
qed

lemma step_ok: "accounts_ok db \<Longrightarrow> accounts_ok (serial_step db s)"
  by (auto simp: serial_step_def auth_step_def dest: exec_ok split: option.splits)

interpretation accounts: transition_system serial_step accounts_ok
  by unfold_locales (rule step_ok)

lemma empty_ok [simp]: "accounts_ok empty_auth"
  by (simp add: accounts_ok_def empty_auth_def keys_ok_def)

section \<open>Devices\<close>

text \<open>How a statement can change the devices: not at all, one new row, or some rows revoked.\<close>

definition keeps_approver :: "auth_db \<Rightarrow> (device \<Rightarrow> bool) \<Rightarrow> bool" where
  "keeps_approver db p \<longleftrightarrow> (\<exists>usr target. p = (\<lambda>d. dv_id d = target \<and> dv_user_id d = usr)
     \<and> \<not> (target \<in> set (approver_ids usr db) \<and> length (approver_ids usr db) < 2))"

definition device_change :: "auth_stmt \<Rightarrow> auth_db \<Rightarrow> device list \<Rightarrow> bool" where
  "device_change s db ds \<longleftrightarrow> ds = db_devices db
     \<or> (\<exists>d. dv_id d \<notin> dv_id ` set (db_devices db) \<and> ds = db_devices db @ [d])
     \<or> (\<exists>p. ds = set_where p (\<lambda>d. d\<lparr>dv_status := ''revoked''\<rparr>) (db_devices db)
          \<and> ((\<exists>dev t. s = RevokeDevice dev t) \<or> keeps_approver db p))"

lemma add_device_change:
  "add_device dev usr name plat key_id pk t db = Some db' \<Longrightarrow>
     \<exists>d. dv_id d \<notin> dv_id ` set (db_devices db) \<and> db_devices db' = db_devices db @ [d]"
  by (auto simp: add_device_def split: if_splits)

lemma set_recoveries_devices: "set_recoveries rs db = Some db' \<Longrightarrow> db_devices db' = db_devices db"
  by (auto simp: set_recoveries_def split: if_splits)

lemma add_session_devices: "add_session x db = Some db' \<Longrightarrow> db_devices db' = db_devices db"
  by (auto simp: add_session_def split: if_splits)

lemma apply_action_devices:
  assumes "apply_action a t db = Some db'"
  shows "db_devices db' = db_devices db
    \<or> (\<exists>p. db_devices db' = set_where p (\<lambda>d. d\<lparr>dv_status := ''revoked''\<rparr>) (db_devices db) \<and> keeps_approver db p)"
  using assms
  by (cases "ac_action a")
    (auto simp: apply_action_def act_password_set_def act_device_revoke_def act_password_reset_def Let_def drop_device_def
        keeps_approver_def dest!: set_recoveries_devices split: if_splits option.splits)

lemma approve_action_change:
  assumes "st_approve_action i usr dev act target t db = Some (k, db')"
  shows "device_change s db (db_devices db')"
proof -
  obtain a as db1 where "apply_action a t (db\<lparr>db_actions := as\<rparr>) = Some db1" and "db_devices db' = db_devices db1"
    using assms by (auto simp: st_approve_action_def Let_def split: if_splits list.splits)
  then show ?thesis
    using apply_action_devices [of a t "db\<lparr>db_actions := as\<rparr>" db1]
    by (auto simp: device_change_def keeps_approver_def approver_ids_def)
qed

lemma exec_devices:
  assumes "exec s db = Some (k, db')"
  shows "device_change s db (db_devices db')"
proof (cases "touches_accounts s")
  case False
  then show ?thesis using untouched_accounts [OF False assms] by (simp add: device_change_def)
next
  case True
  have same: ?thesis if "db_devices db' = db_devices db" using that by (simp add: device_change_def)
  show ?thesis
  proof (cases s)
    case (RevokeDevice dev t)
    then show ?thesis
      using assms by (auto simp: st_revoke_device_def drop_device_def device_change_def dest!: set_recoveries_devices)
  next
    case (ApproveAction i usr dev act target t)
    then show ?thesis using assms approve_action_change by simp
  next
    case (RenewSession i usr dev hash t)
    then show ?thesis using assms
      by (intro same) (auto simp: st_renew_session_def dest!: add_session_devices split: if_splits option.splits list.splits)
  next
    case (ConfirmRecovery usr i t)
    then show ?thesis using assms
      by (intro same) (auto simp: st_confirm_recovery_def Let_def dest!: set_recoveries_devices split: if_splits option.splits list.splits)
  qed (use True assms in \<open>auto simp: touches_accounts_def st_register_device_def st_activate_pairing_def st_bootstrap_account_def
      st_mint_session_def st_touch_session_def st_revoke_session_def Let_def device_change_def
      dest!: add_session_devices add_device_change split: if_splits\<close>)
qed

text \<open>A device whose row is not active any more never is again.\<close>

definition known_device :: "string \<Rightarrow> auth_db \<Rightarrow> bool" where
  "known_device dev db \<longleftrightarrow> dev \<in> dv_id ` set (db_devices db)"

definition out :: "string \<Rightarrow> auth_db \<Rightarrow> bool" where
  "out dev db \<longleftrightarrow> known_device dev db \<and> (\<forall>d \<in> set (db_devices db). dv_id d = dev \<longrightarrow> dv_status d \<noteq> ''active'')"

lemma ids_set_where_status: "dv_id ` set (set_where p (\<lambda>d. d\<lparr>dv_status := x\<rparr>) ds) = dv_id ` set ds"
proof -
  have "map dv_id (set_where p (\<lambda>d. d\<lparr>dv_status := x\<rparr>) ds) = map dv_id ds" by (rule map_set_where) simp
  then show ?thesis by (metis set_map)
qed

lemma device_change_known: "device_change s db (db_devices db') \<Longrightarrow> known_device dev db \<Longrightarrow> known_device dev db'"
  by (auto simp: device_change_def known_device_def ids_set_where_status)

lemma device_change_out: "device_change s db (db_devices db') \<Longrightarrow> out dev db \<Longrightarrow> out dev db'"
  using device_change_known [of s db db' dev] unfolding out_def device_change_def
  by (elim disjE exE conjE) (auto simp: known_device_def set_set_where)

lemma step_out: "out dev db \<Longrightarrow> out dev (auth_step db s)"
  by (auto simp: auth_step_def dest: exec_devices device_change_out split: option.splits)

lemma step_known: "known_device dev db \<Longrightarrow> known_device dev (auth_step db s)"
  by (auto simp: auth_step_def dest: exec_devices device_change_known split: option.splits)

lemma revoke_device_out: "known_device dev db \<Longrightarrow> st_revoke_device dev t db = Some (k, db') \<Longrightarrow> out dev db'"
  using ids_set_where_status [of "\<lambda>d. dv_id d = dev" "''revoked''" "db_devices db"]
  by (auto simp: st_revoke_device_def drop_device_def out_def known_device_def set_where_def
      dest!: set_recoveries_devices split: if_splits)

lemma device_change_ids:
  "device_change s db (db_devices db') \<Longrightarrow> distinct (map dv_id (db_devices db)) \<Longrightarrow> distinct (map dv_id (db_devices db'))"
  unfolding device_change_def by (elim disjE exE conjE) (auto simp: map_set_where)

lemma step_device_ids:
  "distinct (map dv_id (db_devices db)) \<Longrightarrow> distinct (map dv_id (db_devices (auth_step db s)))"
  by (auto simp: auth_step_def dest: exec_devices device_change_ids split: option.splits)

interpretation device_rows: transition_system auth_step "\<lambda>db. distinct (map dv_id (db_devices db))"
  by unfold_locales (rule step_device_ids)

text \<open>Only local root takes the last approver away.\<close>

lemma kept_approver:
  assumes ids: "distinct (map dv_id (db_devices db))" and some: "approver_ids w db \<noteq> []" and "keeps_approver db p"
  shows "\<exists>d \<in> set (db_devices db). dv_id d \<in> set (approver_ids w db) \<and> dv_user_id d = w \<and> dv_status d = ''active''
    \<and> dv_platform d \<in> set APPROVER_PLATFORMS \<and> \<not> p d"
proof -
  let ?as = "filter (\<lambda>d. dv_user_id d = w \<and> dv_status d = ''active'' \<and> dv_platform d \<in> set APPROVER_PLATFORMS) (db_devices db)"
  obtain usr target where p: "p = (\<lambda>d. dv_id d = target \<and> dv_user_id d = usr)"
      and guard: "\<not> (target \<in> set (approver_ids usr db) \<and> length (approver_ids usr db) < 2)"
    using assms(3) unfolding keeps_approver_def by blast
  have dist: "distinct (map dv_id ?as)" by (rule distinct_map_filter [OF ids])
  have "\<exists>d \<in> set ?as. \<not> p d"
  proof (rule ccontr)
    assume "\<not> (\<exists>d \<in> set ?as. \<not> p d)"
    then have all: "\<And>d. d \<in> set ?as \<Longrightarrow> dv_id d = target \<and> dv_user_id d = usr" unfolding p by blast
    obtain d ds where as: "?as = d # ds" using some unfolding approver_ids_def by (cases ?as) simp_all
    then have in_as: "d \<in> set ?as" by (metis list.set_intros(1))
    have d: "dv_id d = target" "dv_user_id d = usr" using all [OF in_as] by simp_all
    have "dv_user_id d = w" using in_as by simp
    then have w: "w = usr" using d(2) by simp
    have "ds = []"
    proof (cases ds)
      case (Cons e es)
      then have e: "e \<in> set ?as" unfolding as by simp
      have "dv_id e = target" by (rule conjunct1 [OF all [OF e]])
      then show ?thesis using dist d(1) unfolding as Cons by simp
    qed
    then have "approver_ids usr db = [target]" using as d(1) by (simp add: approver_ids_def w)
    then show False using guard by simp
  qed
  then show ?thesis by (auto simp: approver_ids_def)
qed

lemma approver_ids_conv: "approver_ids w db \<noteq> [] \<longleftrightarrow>
   (\<exists>d \<in> set (db_devices db). dv_user_id d = w \<and> dv_status d = ''active'' \<and> dv_platform d \<in> set APPROVER_PLATFORMS)"
  by (auto simp: approver_ids_def filter_empty_conv)

lemma step_approver:
  assumes ok: "distinct (map dv_id (db_devices db))" and some: "approver_ids w db \<noteq> []" and "\<And>dev t. s \<noteq> RevokeDevice dev t"
  shows "approver_ids w (auth_step db s) \<noteq> []"
proof (cases "exec s db")
  case (Some r)
  then obtain k db' where run: "exec s db = Some (k, db')" by (cases r) auto
  have "approver_ids w db' \<noteq> []"
    using exec_devices [OF run] unfolding device_change_def
  proof (elim disjE exE conjE)
    fix p assume ds: "db_devices db' = set_where p (\<lambda>d. d\<lparr>dv_status := ''revoked''\<rparr>) (db_devices db)" and "keeps_approver db p"
    then show ?thesis using kept_approver [OF ok some] unfolding approver_ids_conv
      by (force simp: set_set_where)
  qed (use some assms(3) in \<open>auto simp: approver_ids_conv\<close>)
  then show ?thesis by (simp add: auth_step_def run)
qed (use some in \<open>simp add: auth_step_def\<close>)

section \<open>Challenges\<close>

definition touches_challenges :: "auth_stmt \<Rightarrow> bool" where
  "touches_challenges s \<longleftrightarrow> (case s of DropChallenges _ _ \<Rightarrow> True | CreateChallenge _ _ _ _ \<Rightarrow> True
     | ClaimChallenge _ _ _ \<Rightarrow> True | PruneChallenges _ \<Rightarrow> True | _ \<Rightarrow> False)"

lemma add_device_rest:
  "add_device dev usr name plat key_id pk t db = Some db' \<Longrightarrow>
     db_challenges db' = db_challenges db \<and> db_recoveries db' = db_recoveries db \<and> db_sessions db' = db_sessions db"
  by (auto simp: add_device_def split: if_splits)

lemma add_session_rest:
  "add_session x db = Some db' \<Longrightarrow> db_challenges db' = db_challenges db \<and> db_recoveries db' = db_recoveries db"
  by (auto simp: add_session_def split: if_splits)

lemma set_recoveries_rest: "set_recoveries rs db = Some db' \<Longrightarrow> db_challenges db' = db_challenges db \<and> db_recoveries db' = rs \<and> db_sessions db' = db_sessions db"
  by (auto simp: set_recoveries_def split: if_splits)

lemma drop_device_rest [simp]:
  "db_challenges (drop_device p q dev t db) = db_challenges db" "db_recoveries (drop_device p q dev t db) = db_recoveries db"
  by (simp_all add: drop_device_def)

lemma apply_action_challenges: "apply_action a t db = Some db' \<Longrightarrow> db_challenges db' = db_challenges db"
  by (cases "ac_action a") (auto simp: apply_action_def act_password_set_def act_device_revoke_def act_password_reset_def Let_def
      dest!: set_recoveries_rest split: if_splits option.splits)

lemma approve_action_challenges: "st_approve_action i usr dev act target t db = Some (k, db') \<Longrightarrow> db_challenges db' = db_challenges db"
  by (auto simp: st_approve_action_def Let_def dest!: apply_action_challenges split: if_splits list.splits)

lemma confirm_recovery_challenges: "st_confirm_recovery usr i t db = Some (k, db') \<Longrightarrow> db_challenges db' = db_challenges db"
  by (auto simp: st_confirm_recovery_def Let_def dest!: set_recoveries_rest split: if_splits list.splits option.splits)

lemma renew_session_rest:
  "st_renew_session i usr dev hash t db = Some (k, db') \<Longrightarrow> db_challenges db' = db_challenges db \<and> db_recoveries db' = db_recoveries db"
  by (auto simp: st_renew_session_def dest!: add_session_rest split: if_splits list.splits option.splits)

lemma mint_session_rest:
  "st_mint_session i usr dev hash v t db = Some (k, db') \<Longrightarrow> db_challenges db' = db_challenges db \<and> db_recoveries db' = db_recoveries db"
  by (auto simp: st_mint_session_def Let_def dest!: add_session_rest split: if_splits)

lemmas device_stmts = st_register_device_def st_activate_pairing_def st_bootstrap_account_def st_touch_session_def st_revoke_session_def

lemma untouched_challenges:
  assumes "\<not> touches_challenges s" and "exec s db = Some (k, db')"
  shows "db_challenges db' = db_challenges db"
proof (cases "touches_accounts s")
  case True
  then show ?thesis
    using assms(2) by (cases s) (auto simp: touches_accounts_def device_stmts st_revoke_device_def Let_def
        dest: approve_action_challenges confirm_recovery_challenges
        dest!: renew_session_rest mint_session_rest add_device_rest set_recoveries_rest split: if_splits)
next
  case False
  then show ?thesis
    using assms by (cases s) (auto simp: touches_accounts_def touches_challenges_def plain_stmts split: if_splits prod.splits)
qed

definition challenge_ids :: "auth_db \<Rightarrow> bool" where
  "challenge_ids db \<longleftrightarrow> distinct (map ch_id (db_challenges db))"

text \<open>The challenge was claimed, or removed after it had expired.\<close>

definition spent :: "string \<Rightarrow> auth_db \<Rightarrow> bool" where
  "spent cid db \<longleftrightarrow> (\<forall>c \<in> set (db_challenges db). ch_id c = cid \<longrightarrow> ch_consumed_at c \<noteq> None)"

definition not_again :: "string \<Rightarrow> auth_stmt \<Rightarrow> bool" where
  "not_again cid s \<longleftrightarrow> (case s of CreateChallenge i _ _ _ \<Rightarrow> i \<noteq> cid | _ \<Rightarrow> True)"

lemma prune_challenges_facts:
  assumes "st_prune_challenges t db = Some (k, db')"
  shows "set (db_challenges db') \<subseteq> set (db_challenges db)" and "challenge_ids db \<Longrightarrow> challenge_ids db'"
proof -
  have "db_challenges db' = snd (first_where AUTH_PRUNE_BATCH (\<lambda>c. ch_expires_at c < t) (\<lambda>_. None) (db_challenges db))"
    using assms by (auto simp: st_prune_challenges_def split: prod.splits)
  then show "set (db_challenges db') \<subseteq> set (db_challenges db)" "challenge_ids db \<Longrightarrow> challenge_ids db'"
    by (simp_all add: first_where_subset challenge_ids_def first_where_distinct)
qed

lemma exec_challenges:
  assumes "exec s db = Some (k, db')"
  shows "challenge_ids db \<Longrightarrow> challenge_ids db'" and "spent cid db \<Longrightarrow> not_again cid s \<Longrightarrow> spent cid db'"
proof -
  have ids: "map ch_id (set_where p (\<lambda>c. c\<lparr>ch_consumed_at := Some t\<rparr>) cs) = map ch_id cs" for p t cs
    by (rule map_set_where) simp
  have "(challenge_ids db \<longrightarrow> challenge_ids db') \<and> (spent cid db \<longrightarrow> not_again cid s \<longrightarrow> spent cid db')"
  proof (cases "touches_challenges s")
    case False
    then show ?thesis using untouched_challenges [OF False assms] by (simp add: challenge_ids_def spent_def)
  next
    case True
    then show ?thesis
      using assms
    proof (cases s)
      case (PruneChallenges t)
      then show ?thesis using assms prune_challenges_facts [of t db k db'] by (auto simp: spent_def)
    qed (auto simp: touches_challenges_def challenge_ids_def spent_def not_again_def st_drop_challenges_def st_create_challenge_def
        st_claim_challenge_def Let_def ids set_set_where intro: distinct_delete_where split: if_splits)
  qed
  then show "challenge_ids db \<Longrightarrow> challenge_ids db'" "spent cid db \<Longrightarrow> not_again cid s \<Longrightarrow> spent cid db'" by blast+
qed

lemma claim_spends:
  assumes "challenge_ids db" and "st_claim_challenge cid dev t db = Some (k, db')" and "k \<noteq> 0"
  shows "spent cid db'"
proof -
  let ?p = "\<lambda>c. ch_id c = cid \<and> ch_device_id c = dev \<and> ch_consumed_at c = None \<and> ch_expires_at c > t"
  have k: "k = count_where ?p (db_challenges db)"
    and db': "db_challenges db' = set_where ?p (\<lambda>c. c\<lparr>ch_consumed_at := Some t\<rparr>) (db_challenges db)"
    using assms(2) by (auto simp: st_claim_challenge_def Let_def)
  obtain x where x: "x \<in> set (db_challenges db)" "?p x" using assms(3) k count_where_0 [of ?p "db_challenges db"] by auto
  have "c = x" if "c \<in> set (db_challenges db)" "ch_id c = cid" for c
    using assms(1) that x by (auto simp: challenge_ids_def distinct_map inj_on_def)
  then show ?thesis using x(2) by (auto simp: spent_def db' set_set_where)
qed

lemma step_challenge_ids: "challenge_ids db \<Longrightarrow> challenge_ids (auth_step db s)"
  by (auto simp: auth_step_def dest: exec_challenges(1) split: option.splits)

lemma step_spent: "not_again cid s \<Longrightarrow> spent cid db \<Longrightarrow> spent cid (auth_step db s)"
  by (auto simp: auth_step_def dest: exec_challenges(2) split: option.splits)

text \<open>A challenge comes from the statement that creates it.\<close>

definition unknown_challenge :: "string \<Rightarrow> auth_db \<Rightarrow> bool" where
  "unknown_challenge cid db \<longleftrightarrow> cid \<notin> set (map ch_id (db_challenges db))"

lemma exec_unknown_challenge:
  assumes "exec s db = Some (k, db')" and "unknown_challenge cid db" and "not_again cid s"
  shows "unknown_challenge cid db'"
proof (cases "touches_challenges s")
  case False
  then show ?thesis using untouched_challenges [OF False assms(1)] assms(2) by (simp add: unknown_challenge_def)
next
  case True
  have ids: "map ch_id (set_where p (\<lambda>c. c\<lparr>ch_consumed_at := Some t\<rparr>) cs) = map ch_id cs" for p t cs
    by (rule map_set_where) simp
  have deleted: "cid \<notin> set (map ch_id cs) \<Longrightarrow> cid \<notin> set (map ch_id (delete_where p cs))" for p cs
    by (auto simp: delete_where_def)
  from True show ?thesis
    using assms
  proof (cases s)
    case (PruneChallenges t)
    then show ?thesis using assms prune_challenges_facts [of t db k db'] by (auto simp: unknown_challenge_def)
  qed (auto simp: touches_challenges_def unknown_challenge_def not_again_def st_drop_challenges_def st_create_challenge_def
      st_claim_challenge_def Let_def ids deleted simp del: set_map split: if_splits)
qed

lemma step_unknown_challenge: "not_again cid s \<Longrightarrow> unknown_challenge cid db \<Longrightarrow> unknown_challenge cid (auth_step db s)"
  by (auto simp: auth_step_def dest: exec_unknown_challenge split: option.splits)

section \<open>Recoveries\<close>

definition recovery_times :: "recovery list \<Rightarrow> bool" where
  "recovery_times rs \<longleftrightarrow> (\<forall>r \<in> set rs. rc_status r = ''pending'' \<longrightarrow> rc_expires_at r \<le> rc_created_at r + minutes RECOVERY_TTL_MINUTES)"

text \<open>
  A statement changes pending recoveries only; an approved action alone removes others, and only those
  created more than eight days before.
\<close>

definition outlives :: "int \<Rightarrow> auth_stmt \<Rightarrow> bool" where
  "outlives c s \<longleftrightarrow> (case s of ApproveAction _ _ _ _ _ t \<Rightarrow> t \<le> c + days (RECOVERY_COOLDOWN_DAYS + 1) | _ \<Rightarrow> True)"

definition recovery_change :: "auth_stmt \<Rightarrow> recovery list \<Rightarrow> recovery list \<Rightarrow> bool" where
  "recovery_change s rs rs' \<longleftrightarrow> (recovery_times rs \<longrightarrow> recovery_times rs')
     \<and> (\<forall>r \<in> set rs. rc_status r \<noteq> ''pending'' \<longrightarrow> outlives (rc_created_at r) s \<longrightarrow> r \<in> set rs')"

lemma recovery_change_refl [simp]: "recovery_change s rs rs"
  by (simp add: recovery_change_def)

lemma settle_change:
  assumes "\<And>r. p r \<Longrightarrow> rc_status r = ''pending''" and "\<And>r. rc_status (f r) \<noteq> ''pending''"
  shows "recovery_change s rs (set_where p f rs)"
  using assms by (force simp: recovery_change_def recovery_times_def set_set_where)

lemma cancel_status [simp]: "rc_status (cancel_recovery t r) = ''expired''"
  by (simp add: cancel_recovery_def)

lemma apply_action_recoveries:
  assumes "apply_action a t db = Some db'"
  shows "recovery_change (ApproveAction i usr dev act target t) (db_recoveries db) (db_recoveries db')"
proof (cases "ac_action a = PasswordReset")
  case False
  then show ?thesis
    using assms by (cases "ac_action a") (auto simp: apply_action_def act_password_set_def act_device_revoke_def Let_def
        intro!: settle_change dest!: set_recoveries_rest split: if_splits option.splits)
next
  case True
  let ?es = "expire_recoveries t (db_recoveries db)"
  have "recovery_change (ApproveAction i usr dev act target t) (db_recoveries db) ?es"
    unfolding expire_recoveries_def by (rule settle_change) auto
  then show ?thesis
    using True assms by (fastforce simp: apply_action_def act_password_reset_def Let_def recovery_change_def recovery_times_def outlives_def
        dest!: set_recoveries_rest split: if_splits)
qed

lemma exec_recoveries:
  assumes "exec s db = Some (k, db')"
  shows "recovery_change s (db_recoveries db) (db_recoveries db')"
proof (cases s)
  case (ApproveAction i usr dev act target t)
  then obtain a as db1 where "apply_action a t (db\<lparr>db_actions := as\<rparr>) = Some db1" and "db_recoveries db' = db_recoveries db1"
    using assms by (auto simp: st_approve_action_def Let_def split: if_splits list.splits)
  then show ?thesis using apply_action_recoveries ApproveAction by fastforce
next
  case (ConfirmRecovery usr i t)
  then show ?thesis
    using assms by (auto simp: st_confirm_recovery_def Let_def intro!: settle_change dest!: set_recoveries_rest split: if_splits list.splits option.splits)
next
  case (RevokeDevice dev t)
  then show ?thesis using assms by (auto simp: st_revoke_device_def intro!: settle_change dest!: set_recoveries_rest)
next
  case (ExpireRecoveries t)
  then show ?thesis
    using assms by (auto simp: st_expire_recoveries_def expire_recoveries_def intro!: settle_change dest!: set_recoveries_rest)
next
  case (DenyRecovery usr i t)
  then show ?thesis using assms by (auto simp: st_deny_recovery_def Let_def intro!: settle_change dest!: set_recoveries_rest)
qed (use assms in \<open>auto simp: plain_stmts device_stmts
      dest!: renew_session_rest mint_session_rest add_device_rest split: if_splits prod.splits\<close>)

lemma step_recoveries: "recovery_change s (db_recoveries db) (db_recoveries (auth_step db s))"
  by (auto simp: auth_step_def dest: exec_recoveries split: option.splits)

interpretation recoveries: transition_system auth_step "\<lambda>db. recovery_times (db_recoveries db)"
  using step_recoveries by unfold_locales (auto simp: recovery_change_def)

text \<open>A confirmed recovery stays on record for the time of the cooldown.\<close>

definition recovered :: "string \<Rightarrow> int \<Rightarrow> auth_db \<Rightarrow> bool" where
  "recovered usr t db \<longleftrightarrow> (\<exists>r \<in> set (db_recoveries db). rc_user_id r = usr \<and> rc_status r = ''confirmed''
     \<and> rc_resolved_at r = Some t \<and> rc_created_at r > t - minutes RECOVERY_TTL_MINUTES)"

definition not_after :: "int \<Rightarrow> auth_stmt \<Rightarrow> bool" where
  "not_after u s \<longleftrightarrow> (case s of ApproveAction _ _ _ _ _ t \<Rightarrow> t \<le> u | _ \<Rightarrow> True)"

lemma confirm_recovered:
  assumes "recovery_times (db_recoveries db)" and "st_confirm_recovery usr i t db = Some (k, db')"
  shows "recovered usr t db'"
proof -
  let ?live = "\<lambda>r. rc_id r = i \<and> rc_user_id r = usr \<and> rc_status r = ''pending'' \<and> rc_expires_at r > t"
  obtain c where c: "filter ?live (db_recoveries db) = [c]"
      and db': "db_recoveries db' = set_where ?live (\<lambda>r. r\<lparr>rc_status := ''confirmed'', rc_verifier := None, rc_slot := rc_id r,
                    rc_resolved_at := Some t\<rparr>) (db_recoveries db)"
    using assms(2) by (auto simp: st_confirm_recovery_def Let_def dest!: set_recoveries_rest split: if_splits list.splits option.splits)
  have "c \<in> set (filter ?live (db_recoveries db))" unfolding c by simp
  then have live: "c \<in> set (db_recoveries db)" "?live c" by auto
  let ?c = "c\<lparr>rc_status := ''confirmed'', rc_verifier := None, rc_slot := rc_id c, rc_resolved_at := Some t\<rparr>"
  have "?c \<in> set (db_recoveries db')" unfolding db' set_set_where using live by (intro image_eqI [of _ _ c]) auto
  moreover have "rc_created_at c > t - minutes RECOVERY_TTL_MINUTES"
    using assms(1) live unfolding recovery_times_def by fastforce
  ultimately show ?thesis unfolding recovered_def using live(2) by (intro bexI [of _ ?c]) auto
qed

lemma step_recovered:
  assumes "recovered usr t db" and "not_after u s" and "u < t + days RECOVERY_COOLDOWN_DAYS"
  shows "recovered usr t (auth_step db s)"
proof -
  obtain r where r: "r \<in> set (db_recoveries db)" "rc_user_id r = usr" "rc_status r = ''confirmed''"
      "rc_resolved_at r = Some t" "rc_created_at r > t - minutes RECOVERY_TTL_MINUTES"
    using assms(1) unfolding recovered_def by blast
  have "outlives (rc_created_at r) s"
    using assms(2,3) r(5) unfolding outlives_def not_after_def
    by (cases s) (auto simp: days_def minutes_def second_def RECOVERY_TTL_MINUTES_def RECOVERY_COOLDOWN_DAYS_def)
  then show ?thesis
    using step_recoveries [of s db] r unfolding recovery_change_def recovered_def by force
qed

lemma cooldown_refuses:
  assumes "recovered usr t1 db" and "t2 < t1 + days RECOVERY_COOLDOWN_DAYS"
  shows "st_confirm_recovery usr j t2 db = None"
proof -
  have "\<exists>r \<in> set (db_recoveries db). rc_user_id r = usr \<and> rc_status r = ''confirmed''
      \<and> confirmed_after (t2 - days RECOVERY_COOLDOWN_DAYS) r"
    using assms unfolding recovered_def confirmed_after_def by force
  then have "count_where (\<lambda>r. rc_user_id r = usr \<and> rc_status r = ''confirmed''
      \<and> confirmed_after (t2 - days RECOVERY_COOLDOWN_DAYS) r) (db_recoveries db) \<noteq> 0"
    unfolding count_where_0 by blast
  then show ?thesis unfolding st_confirm_recovery_def Let_def by simp
qed

section \<open>Lifetimes of sessions\<close>

definition sessions_timed :: "auth_db \<Rightarrow> bool" where
  "sessions_timed db \<longleftrightarrow> (\<forall>s \<in> set (db_sessions db). times_ok s)"

lemma timed_cong: "db_sessions db' = db_sessions db \<Longrightarrow> sessions_timed db' = sessions_timed db"
  by (simp add: sessions_timed_def)

lemma timed_end: "db_sessions db' = db_sessions (end_sessions p t db) \<Longrightarrow> sessions_timed db \<Longrightarrow> sessions_timed db'"
  unfolding sessions_timed_def end_sessions_def by (auto simp: set_set_where times_ok_def)

lemma timed_add: "add_session s db = Some db' \<Longrightarrow> times_ok s \<Longrightarrow> sessions_timed db \<Longrightarrow> sessions_timed db'"
  by (auto simp: add_session_def sessions_timed_def split: if_splits)

lemma drop_device_sessions: "db_sessions (drop_device p q dev t db) = db_sessions (end_sessions q t db)"
  by (simp add: drop_device_def)

lemma timed_action:
  assumes "apply_action a t db = Some db'" and "sessions_timed db"
  shows "sessions_timed db'"
proof -
  have "db_sessions db' = db_sessions db \<or> (\<exists>p. db_sessions db' = db_sessions (end_sessions p t db))"
    using assms(1)
    by (cases "ac_action a")
      (auto simp: apply_action_def act_password_set_def act_device_revoke_def act_password_reset_def Let_def drop_device_sessions
        dest!: set_recoveries_rest split: if_splits option.splits)
  then show ?thesis using timed_cong [of db' db] timed_end [of db' _ t db] assms(2) by blast
qed

lemma timed_renew:
  assumes "st_renew_session i usr dev hash t db = Some (k, db')" and "sessions_timed db"
  shows "sessions_timed db'"
proof -
  obtain x where add: "add_session x (end_sessions (\<lambda>s. se_device_id s = dev) t db) = Some db'" and "times_ok x"
    using assms(1) by (auto simp: st_renew_session_def times_ok_def split: if_splits list.splits option.splits)
  then show ?thesis using timed_add [OF add] timed_end [OF refl assms(2)] by blast
qed

lemma exec_timed:
  assumes run: "exec s db = Some (k, db')" and ok: "sessions_timed db"
  shows "sessions_timed db'"
proof (cases "touches_accounts s")
  case False
  then show ?thesis using untouched_accounts [OF False run] ok by (simp add: sessions_timed_def)
next
  case True
  show ?thesis
  proof (cases s)
    case (ApproveAction i usr dev act target t)
    then obtain a as db1 where "apply_action a t (db\<lparr>db_actions := as\<rparr>) = Some db1" and "db_sessions db' = db_sessions db1"
      using run by (auto simp: st_approve_action_def Let_def split: if_splits list.splits)
    then show ?thesis using timed_action ok timed_cong [of "db\<lparr>db_actions := as\<rparr>" db] timed_cong [of db' db1] by simp
  next
    case (ConfirmRecovery usr i t)
    then show ?thesis
      using run ok by (intro timed_end [of db' "\<lambda>s. se_user_id s = usr" t db])
        (auto simp: st_confirm_recovery_def Let_def dest!: set_recoveries_rest split: if_splits list.splits option.splits)
  next
    case (TouchSession i t)
    then show ?thesis using run ok by (auto simp: st_touch_session_def sessions_timed_def set_set_where times_ok_def)
  next
    case (MintSession i usr dev hash v t)
    then show ?thesis using run ok by (auto simp: st_mint_session_def intro: timed_add)
  next
    case (RenewSession i usr dev hash t)
    then show ?thesis using run ok timed_renew by simp
  next
    case (RevokeDevice dev t)
    then have "db_sessions db' = db_sessions (end_sessions (\<lambda>s. se_device_id s = dev) t db)"
      using run by (auto simp: st_revoke_device_def drop_device_sessions dest!: set_recoveries_rest)
    then show ?thesis using ok by (rule timed_end)
  next
    case (RevokeSession i t)
    then show ?thesis using run ok by (auto simp: st_revoke_session_def intro: timed_end [OF refl])
  qed (use True run ok in \<open>auto simp: touches_accounts_def st_register_device_def st_activate_pairing_def st_bootstrap_account_def
      Let_def sessions_timed_def dest!: add_device_rest split: if_splits\<close>)
qed

interpretation lifetimes: transition_system auth_step sessions_timed
  by unfold_locales (auto simp: auth_step_def dest: exec_timed split: option.splits)

end
