(* ===== verification/Identity_Run.thy ===== *)
theory Identity_Run
  imports Identity_Inv
begin

text \<open>
  The operations of the identity store, while other requests run theirs. \<open>yields\<close> is a triple for an
  operation, \<open>relied\<close> the contract that makes a precondition survive the statements of other requests;
  it is interpreted for each stable fact of \<^verbatim>\<open>Identity_Inv\<close>. The properties of the component are at the end.
\<close>

section \<open>Triples\<close>

text \<open>
  \<open>yields P m Q\<close>: when \<open>m\<close> starts on tables with \<open>P\<close> and succeeds, its result and the tables then satisfy
  \<open>Q\<close>. A precondition has to be stable under the statements that other requests may run between two
  queries; \<open>relied\<close> is that contract, \<open>A\<close> the statements the others may run.
\<close>

definition yields :: "(auth_db \<Rightarrow> bool) \<Rightarrow> 'a auth \<Rightarrow> ('a \<Rightarrow> auth_db \<Rightarrow> bool) \<Rightarrow> bool" where
  "yields P m Q \<longleftrightarrow> (\<forall>st x st'. P (ru_db st) \<longrightarrow> m st = (Inr x, st') \<longrightarrow> Q x (ru_db st'))"

definition others_run :: "(auth_stmt \<Rightarrow> bool) \<Rightarrow> auth_env \<Rightarrow> bool" where
  "others_run A env \<longleftrightarrow> (\<forall>n. list_all A (qe_before env n))"

named_theorems yields_rules \<open>rules of the triples\<close>

lemma yieldsD: "yields P m Q \<Longrightarrow> P (ru_db st) \<Longrightarrow> m st = (Inr x, st') \<Longrightarrow> Q x (ru_db st')"
  by (simp add: yields_def)

lemma yields_bind: "yields P m R \<Longrightarrow> (\<And>x. yields (R x) (f x) Q) \<Longrightarrow> yields P (bind_auth m f) Q"
  by (auto simp: yields_def bind_auth_def split: prod.splits sum.splits)

lemma yields_return [yields_rules]: "(\<And>db. P db \<Longrightarrow> Q x db) \<Longrightarrow> yields P (return_auth x) Q"
  by (simp add: yields_def return_auth_def)

lemma yields_fail [yields_rules]: "yields P (fail_auth e) Q"
  by (simp add: yields_def fail_auth_def)

lemma yields_some_or [yields_rules]: "(\<And>y db. v = Some y \<Longrightarrow> P db \<Longrightarrow> Q y db) \<Longrightarrow> yields P (some_or e v) Q"
  by (auto simp: yields_def some_or_def return_auth_def fail_auth_def split: option.splits)

lemma yields_of_sum [yields_rules]: "(\<And>y db. r = Inr y \<Longrightarrow> P db \<Longrightarrow> Q y db) \<Longrightarrow> yields P (of_sum r) Q"
  by (auto simp: yields_def of_sum_def)

lemma yields_now [yields_rules]: "(\<And>t db. P db \<Longrightarrow> Q t db) \<Longrightarrow> yields P (now_utc env) Q"
  by (auto simp: yields_def now_utc_def)

lemma yields_map_err [yields_rules]: "yields P m Q \<Longrightarrow> yields P (map_err_auth f m) Q"
  by (auto simp: yields_def map_err_auth_def split: prod.splits sum.splits)

lemma yields_if [yields_rules]: "(b \<Longrightarrow> yields P m Q) \<Longrightarrow> (\<not> b \<Longrightarrow> yields P m' Q) \<Longrightarrow> yields P (if b then m else m') Q"
  by simp

lemma yields_pure: "(\<phi> \<Longrightarrow> yields P m Q) \<Longrightarrow> yields (\<lambda>db. \<phi> \<and> P db) m Q"
  by (auto simp: yields_def)

lemma yields_post: "yields P m R \<Longrightarrow> (\<And>x db. R x db \<Longrightarrow> Q x db) \<Longrightarrow> yields P m Q"
  by (auto simp: yields_def)

lemma yields_pre: "yields P' m Q \<Longrightarrow> (\<And>db. P db \<Longrightarrow> P' db) \<Longrightarrow> yields P m Q"
  by (auto simp: yields_def)

locale relied =
  fixes A :: "auth_stmt \<Rightarrow> bool" and P :: "auth_db \<Rightarrow> bool"
  assumes stable: "A s \<Longrightarrow> P db \<Longrightarrow> P (auth_step db s)"
begin

lemma stable_run: "list_all A ss \<Longrightarrow> P db \<Longrightarrow> P (foldl auth_step db ss)"
  by (induction ss arbitrary: db) (auto intro: stable)

lemma arrive_keeps: "others_run A env \<Longrightarrow> P (ru_db st) \<Longrightarrow> P (ru_db (arrive env st))"
  by (auto simp: arrive_def Let_def others_run_def intro: stable_run)

lemma yields_ask:
  assumes "others_run A env" and "\<And>t db. P db \<Longrightarrow> Q (f t db) db"
  shows "yields P (ask env f) Q"
  using arrive_keeps [OF assms(1)] assms(2)
  by (auto simp: yields_def ask_def Let_def split: option.splits)

lemma yields_execute:
  assumes "others_run A env" and "\<And>t db k db'. P db \<Longrightarrow> exec (f t) db = Some (k, db') \<Longrightarrow> Q k db'"
  shows "yields P (execute_query env f) Q"
  unfolding yields_def
proof (intro allI impI)
  fix st x st' assume "P (ru_db st)" and run: "execute_query env f st = (Inr x, st')"
  then have "P (ru_db (arrive env st))" by (intro arrive_keeps [OF assms(1)])
  then show "Q x (ru_db st')"
    using run assms(2) [of "ru_db (arrive env st)" "qe_clock env (ru_count st)" x "ru_db st'"]
    by (auto simp: execute_query_def Let_def logged_def auth_step_def split: option.splits)
qed

text \<open>A query whose answer alone matters keeps \<open>P\<close>.\<close>

lemma keeps_ask:
  "others_run A env \<Longrightarrow> (\<And>t db. P db \<Longrightarrow> \<phi> (f t db)) \<Longrightarrow> yields P (ask env f) (\<lambda>x db. \<phi> x \<and> P db)"
  by (rule yields_ask) auto

lemma keeps_execute:
  assumes "others_run A env" and "\<And>t. A (f t)"
  shows "yields P (execute_query env f) (\<lambda>_. P)"
  by (rule yields_execute [OF assms(1)]) (metis assms(2) auth_step_def case_prod_conv option.simps(5) stable)

lemma bind_ask_some:
  assumes "others_run A env" and "\<And>t db y. P db \<Longrightarrow> f t db = Some y \<Longrightarrow> \<phi> y" and "\<And>y. \<phi> y \<Longrightarrow> yields P (g y) Q"
  shows "yields P (bind_auth (bind_auth (ask env f) (some_or e)) g) Q"
proof (rule yields_bind)
  show "yields P (bind_auth (ask env f) (some_or e)) (\<lambda>y db. \<phi> y \<and> P db)"
    by (rule yields_bind [OF keeps_ask [where \<phi> = "\<lambda>v. \<forall>y. v = Some y \<longrightarrow> \<phi> y", OF assms(1)]])
      (use assms(2) in \<open>auto intro: yields_some_or\<close>)
  show "yields (\<lambda>db. \<phi> y \<and> P db) (g y) Q" for y by (rule yields_pure) (rule assms(3))
qed

lemma bind_ask:
  assumes "others_run A env" and "\<And>x. yields P (g x) Q"
  shows "yields P (bind_auth (ask env f) g) Q"
  by (rule yields_bind [OF keeps_ask [OF assms(1), where \<phi> = "\<lambda>_. True"]]) (use assms(2) in auto)

lemma bind_execute:
  assumes "others_run A env" and "\<And>t. A (f t)" and "\<And>x. yields P (g x) Q"
  shows "yields P (bind_auth (execute_query env f) g) Q"
  by (rule yields_bind [OF keeps_execute [OF assms(1,2)] assms(3)])

end

lemma bind_now: "(\<And>t. yields P (g t) Q) \<Longrightarrow> yields P (bind_auth (now_utc env) g) Q"
  by (rule yields_bind [where R = "\<lambda>_. P"]) (auto intro: yields_now)

lemma bind_of_sum: "(\<And>y. r = Inr y \<Longrightarrow> yields P (g y) Q) \<Longrightarrow> yields P (bind_auth (of_sum r) g) Q"
  by (rule yields_bind [where R = "\<lambda>y db. r = Inr y \<and> P db"]) (auto intro: yields_of_sum yields_pure)

lemma others_run_any [simp]: "others_run (\<lambda>_. True) env"
  by (simp add: others_run_def list_all_iff)

interpretation dev_out: relied "\<lambda>_. True" "out dev" for dev
  by unfold_locales (rule step_out)

interpretation dev_known: relied "\<lambda>_. True" "known_device dev" for dev
  by unfold_locales (rule step_known)

interpretation ids: relied "\<lambda>_. True" challenge_ids
  by unfold_locales (rule step_challenge_ids)

interpretation used: relied "not_again cid" "spent cid" for cid
  by unfold_locales (rule step_spent)

interpretation unknown: relied "not_again cid" "unknown_challenge cid" for cid
  by unfold_locales (rule step_unknown_challenge)

interpretation anything: relied "\<lambda>_. True" "\<lambda>_. True"
  by unfold_locales simp


section \<open>Revoked devices\<close>

lemma out_no_active_row: "out dev db \<Longrightarrow> find (\<lambda>d. dv_id d = dev \<and> dv_status d = ''active'') (db_devices db) = None"
  by (auto simp: out_def find_None_iff)

lemma out_signs_nothing: "yields (out dev) (verify_device_signature c env usr dev m sig) (\<lambda>_ _. False)"
  unfolding verify_device_signature_def active_device_and_key_def get_device_def
  by (rule yields_bind [where R = "\<lambda>_ _. False"],
      rule dev_out.bind_ask_some [where \<phi> = "\<lambda>d. dv_status d \<noteq> ''active''"])
    (auto simp: out_def find_Some_iff yields_def fail_auth_def)

lemma out_owner: "yields (out dev) (bind_auth (owner_of env dev) (some_or e)) (\<lambda>_ _. False)"
  unfolding owner_of_def
  by (rule yields_bind [OF dev_out.keeps_ask [where \<phi> = "\<lambda>v. v = None"]])
    (auto simp: out_no_active_row intro!: yields_pure yields_some_or)

lemma out_no_login: "yields (out dev) (login_with_password c ps env sid token dev cid sig pw) (\<lambda>_ _. False)"
  unfolding login_with_password_def
  by (intro dev_out.bind_ask_some [where \<phi> = "\<lambda>_. True"] bind_now yields_if yields_fail bind_of_sum
      yields_bind [OF out_owner] others_run_any) (auto simp: yields_def)

lemma out_not_authenticated: "yields (out dev) (authenticate c env token) (\<lambda>a _. dv_id (au_device a) \<noteq> dev)"
proof (cases "hex_decode c token")
  case (Some raw)
  show ?thesis
    unfolding authenticate_def Some option.case get_user_def
    by (intro dev_out.bind_ask_some [where \<phi> = "\<lambda>_. True"] bind_now yields_if yields_fail others_run_any
        dev_out.bind_execute dev_out.bind_ask_some [where \<phi> = "\<lambda>d. dv_id d \<noteq> dev"] yields_return)
      (auto simp: out_def active_device_row_def find_Some_iff)
qed (simp add: authenticate_def yields_fail)

lemma local_revoke_out: "yields (\<lambda>_. True) (local_revoke uid env dev) (\<lambda>_. out dev)"
proof -
  have known: "yields (\<lambda>_. True) (bind_auth (get_device env dev) (some_or e)) (\<lambda>_. known_device dev)" for e
    unfolding get_device_def
    by (rule yields_bind [OF anything.yields_ask [where Q = "\<lambda>v db. v \<noteq> None \<longrightarrow> known_device dev db"]])
      (auto simp: known_device_def find_Some_iff intro!: yields_some_or)
  have "yields (known_device dev) (revoke_device env dev) (\<lambda>_. out dev)"
    unfolding revoke_device_def
    by (rule yields_bind [OF dev_known.yields_execute [where Q = "\<lambda>_. out dev"]])
      (auto intro: revoke_device_out yields_return)
  then have revoke: "yields (known_device dev) (bind_auth (revoke_device env dev) (\<lambda>_. return_auth u)) (\<lambda>_. out dev)" for u :: user
    by (rule yields_bind) (auto intro: yields_return)
  show ?thesis
    unfolding local_revoke_def as_root_def first_user_def
    by (intro bind_of_sum anything.bind_ask_some [where \<phi> = "\<lambda>_. True"] yields_bind [OF known] yields_if yields_fail revoke others_run_any)
      auto
qed

section \<open>Exact runs\<close>

text \<open>
  The tables in which the query of a run is answered are those at its start after everything the other requests ran before
  its earlier queries \<open>ks\<close> and before itself. The lemmas below unfold a run that succeeds query by query.
\<close>

definition overheard :: "auth_env \<Rightarrow> auth_run \<Rightarrow> nat list \<Rightarrow> auth_stmt list" where
  "overheard env st ks = concat (map (\<lambda>k. qe_before env (ru_count st + k)) ks)"

definition tables_seen :: "auth_env \<Rightarrow> auth_run \<Rightarrow> nat list \<Rightarrow> auth_db" where
  "tables_seen env st ks = foldl auth_step (ru_db st) (overheard env st ks)"

text \<open>Any tables that can follow, whatever statements are run.\<close>

definition later :: "auth_db \<Rightarrow> auth_db \<Rightarrow> bool" where
  "later db db' \<longleftrightarrow> (\<exists>ss. db' = foldl auth_step db ss)"

lemma later_refl [simp]: "later db db"
  unfolding later_def by (rule exI [of _ "[]"]) simp

named_theorems run_simps \<open>a run that succeeds, query by query\<close>

lemma arrive_sel [simp]:
  "ru_count (arrive env st) = ru_count st + 1"
  "ru_db (arrive env st) = foldl auth_step (ru_db st) (qe_before env (ru_count st))"
  "ru_log (arrive env st) = ru_log st @ qe_before env (ru_count st)"
  by (simp_all add: arrive_def Let_def)

lemma bind_ask_run [run_simps]:
  "bind_auth (ask env f) g st = (Inr y, st') \<longleftrightarrow> qe_fault env (ru_count st) = None
     \<and> g (f (qe_clock env (ru_count st)) (ru_db (arrive env st))) (arrive env st) = (Inr y, st')"
  by (simp add: bind_auth_def ask_def Let_def split: option.splits)

lemma bind_assoc_run [run_simps]: "bind_auth (bind_auth m f) g = bind_auth m (\<lambda>x. bind_auth (f x) g)"
  by (auto simp: bind_auth_def fun_eq_iff split: prod.splits sum.splits)

lemma bind_some_or_run [run_simps]:
  "bind_auth (some_or e v) g st = (Inr y, st') \<longleftrightarrow> (\<exists>x. v = Some x \<and> g x st = (Inr y, st'))"
  by (cases v) (simp_all add: bind_auth_def some_or_def return_auth_def fail_auth_def)

lemma some_or_run [run_simps]: "some_or e v st = (Inr y, st') \<longleftrightarrow> v = Some y \<and> st = st'"
  by (auto simp: some_or_def return_auth_def fail_auth_def split: option.splits)

lemma bind_of_sum_run [run_simps]:
  "bind_auth (of_sum r) g st = (Inr y, st') \<longleftrightarrow> (\<exists>x. r = Inr x \<and> g x st = (Inr y, st'))"
  by (cases r) (simp_all add: bind_auth_def of_sum_def)

lemma bind_now_run [run_simps]:
  "bind_auth (now_utc env) g st = (Inr y, st') \<longleftrightarrow> g (qe_clock env (ru_count st)) (st\<lparr>ru_count := ru_count st + 1\<rparr>) = (Inr y, st')"
  by (simp add: bind_auth_def now_utc_def)

lemma bind_return_run [run_simps]: "bind_auth (return_auth x) g st = g x st"
  by (simp add: bind_auth_def return_auth_def)

lemma bind_fail_run [run_simps]: "bind_auth (fail_auth e) g = fail_auth e"
  by (simp add: bind_auth_def fail_auth_def)

lemma bind_if_run [run_simps]: "bind_auth (if b then m else m') g = (if b then bind_auth m g else bind_auth m' g)"
  by simp

lemma bind_execute_run [run_simps]:
  "bind_auth (execute_query env f) g st = (Inr y, st') \<longleftrightarrow> qe_fault env (ru_count st) = None
     \<and> (\<exists>k db. exec (f (qe_clock env (ru_count st))) (ru_db (arrive env st)) = Some (k, db)
        \<and> g k (logged (f (qe_clock env (ru_count st))) (arrive env st)) = (Inr y, st'))"
  by (auto simp: bind_auth_def execute_query_def Let_def split: option.splits)

lemma return_run [run_simps]: "return_auth x st = (Inr y, st') \<longleftrightarrow> x = y \<and> st = st'"
  by (simp add: return_auth_def)

lemma fail_run [run_simps]: "fail_auth e st \<noteq> (Inr y, st')"
  by (simp add: fail_auth_def)

lemma if_fail_run [run_simps]:
  "(if b then fail_auth e else m) st = (Inr y, st') \<longleftrightarrow> \<not> b \<and> m st = (Inr y, st')"
  by (simp add: fail_auth_def)

lemma logged_sel [simp]:
  "ru_count (logged s st) = ru_count st" "ru_db (logged s st) = auth_step (ru_db st) s" "ru_log (logged s st) = ru_log st @ [s]"
  by (simp_all add: logged_def)

lemma count_simps:
  "n + 3 = Suc (Suc (Suc n))" "n + 4 = Suc (Suc (Suc (Suc n)))" "n + 5 = Suc (Suc (Suc (Suc (Suc n))))" for n :: nat
  by simp_all

lemma seen_nil [simp]: "tables_seen env st [] = ru_db st" "overheard env st [] = []"
  by (simp_all add: tables_seen_def overheard_def)

lemma seen_fold:
  "foldl auth_step (ru_db st) (qe_before env (ru_count st)) = tables_seen env st [0]"
  "foldl auth_step (tables_seen env st ks) (qe_before env (ru_count st + n)) = tables_seen env st (ks @ [n])"
  by (simp_all add: tables_seen_def overheard_def)

section \<open>Challenges are used once\<close>

text \<open>\<open>grows m\<close>: the log of statements only grows during \<open>m\<close>.\<close>

definition grows :: "'a auth \<Rightarrow> bool" where
  "grows m \<longleftrightarrow> (\<forall>st. \<exists>ss. ru_log (snd (m st)) = ru_log st @ ss)"

lemma grows_bind: "grows m \<Longrightarrow> (\<And>x. grows (f x)) \<Longrightarrow> grows (bind_auth m f)"
  unfolding grows_def bind_auth_def by (auto split: prod.splits sum.splits) (metis append_assoc snd_conv)+

lemma grows_simps [simp]:
  "grows (return_auth x)" "grows (fail_auth e)" "grows (of_sum r)" "grows (some_or e v)" "grows (ask env f)" "grows (execute_query env g)"
  by (auto simp: grows_def return_auth_def fail_auth_def of_sum_def some_or_def ask_def execute_query_def Let_def split: option.splits)

lemma grows_map_err: "grows m \<Longrightarrow> grows (map_err_auth f m)"
  unfolding grows_def map_err_auth_def by (auto split: prod.splits sum.splits) (metis snd_conv)+

text \<open>Where in the log of its run the claim of a login stands: after everything that was heard before it.\<close>

definition claim_index :: "auth_env \<Rightarrow> auth_run \<Rightarrow> nat" where
  "claim_index env st = length (ru_log st) + length (overheard env st [0, 2, 3, 4])"

lemma grows_rest:
  "grows (issued c env token b)" "grows (renew_session c env sid token usr dev)" "grows (verify_password ps env usr pw)"
  "grows (if pw' = None then password_required env usr else return_auth False)"
proof -
  show issued: "grows (issued c env token b)" for b unfolding issued_def by (intro grows_bind) simp_all
  show "grows (renew_session c env sid token usr dev)"
    unfolding renew_session_def by (intro grows_bind grows_map_err issued) simp
  show "grows (verify_password ps env usr pw)"
    unfolding verify_password_def
    by (intro grows_bind) (simp_all split: option.split sum.split password_error.split)
  show "grows (if pw' = None then password_required env usr else return_auth False)"
    by (simp add: password_required_def)
qed

lemma grows_if: "grows m \<Longrightarrow> grows m' \<Longrightarrow> grows (if b then m else m')"
  by simp

text \<open>A login that succeeds claimed the challenge, at its place in the history.\<close>

lemma login_claims:
  assumes "login_with_password c ps env sid token dev cid sig pw st = (Inr r, st')"
  shows "\<exists>t k db ss. exec (ClaimChallenge cid dev t) (tables_seen env st [0, 2, 3, 4]) = Some (k, db) \<and> k \<noteq> 0
    \<and> ru_log st' = ru_log st @ overheard env st [0, 2, 3, 4] @ [ClaimChallenge cid dev t] @ ss"
proof -
  define rest where "rest usr = bind_auth (if pw = None then password_required env usr else return_auth False) (\<lambda>renew.
     if renew then renew_session c env sid token usr dev
     else bind_auth (verify_password ps env usr pw) (\<lambda>revision.
       bind_auth (ask env (\<lambda>_. mint_check usr dev revision)) (\<lambda>granted. if \<not> granted then fail_auth DatabaseSurreal
       else bind_auth (execute_query env (MintSession sid usr dev (sha256 c token) revision)) (\<lambda>_. issued c env token False))))" for usr
  have rest: "grows (rest usr)" for usr
    unfolding rest_def by (intro grows_bind grows_if grows_rest grows_simps)
  let ?t = "qe_clock env (ru_count st + 4)"
  from assms obtain usr k db st4 where claim: "exec (ClaimChallenge cid dev ?t) (tables_seen env st [0, 2, 3, 4]) = Some (k, db)" "k \<noteq> 0"
    and run: "rest usr st4 = (Inr r, st')"
    and log: "ru_log st4 = ru_log st @ overheard env st [0, 2, 3, 4] @ [ClaimChallenge cid dev ?t]"
    unfolding login_with_password_def owner_of_def rest_def [symmetric]
    by (auto simp: run_simps tables_seen_def overheard_def count_simps)
  from run rest [of usr] obtain ss where "ru_log st' = ru_log st4 @ ss" unfolding grows_def by (metis snd_conv)
  with claim log show ?thesis by auto
qed

text \<open>
  Of the claims of one challenge in a history that starts with an empty store and creates the challenge once, the first one
  that finds it open is the only one.
\<close>

lemma claims_once:
  assumes "length (filter (\<lambda>s. \<not> not_again cid s) H) \<le> 1" and "p < q" and "q < length H"
    and "H ! p = ClaimChallenge cid d t" and "exec (ClaimChallenge cid d t) (foldl auth_step empty_auth (take p H)) = Some (k, db)" and "k \<noteq> 0"
    and "exec (ClaimChallenge cid d' t') (foldl auth_step empty_auth (take q H)) = Some (k', db')"
  shows "k' = 0"
proof -
  let ?db = "foldl auth_step empty_auth (take p H)"
  have ids: "challenge_ids ?db"
    by (rule ids.stable_run) (simp_all add: list_all_iff challenge_ids_def empty_auth_def)
  have claim: "st_claim_challenge cid d t ?db = Some (k, db)" using assms(5) by simp
  have known: "\<not> unknown_challenge cid ?db"
  proof
    assume "unknown_challenge cid ?db"
    then have "k = 0" using claim by (auto simp: st_claim_challenge_def Let_def unknown_challenge_def count_where_0)
    with assms(6) show False by simp
  qed
  have "\<not> list_all (not_again cid) (take p H)"
  proof
    assume "list_all (not_again cid) (take p H)"
    from unknown.stable_run [OF this, of empty_auth] known show False by (simp add: unknown_challenge_def empty_auth_def)
  qed
  then obtain x where "x \<in> set (take p H)" "\<not> not_again cid x" by (auto simp: list_all_iff)
  then have "filter (\<lambda>s. \<not> not_again cid s) (take p H) \<noteq> []" by (metis filter_empty_conv)
  moreover have "length (filter (\<lambda>s. \<not> not_again cid s) (take p H)) + length (filter (\<lambda>s. \<not> not_again cid s) (drop p H)) \<le> 1"
    using assms(1) by (metis append_take_drop_id filter_append length_append)
  ultimately have "filter (\<lambda>s. \<not> not_again cid s) (drop p H) = []" by (cases "filter (\<lambda>s. \<not> not_again cid s) (take p H)") auto
  then have none: "\<forall>s \<in> set (drop p H). not_again cid s" by (simp add: filter_empty_conv)
  let ?mid = "take (q - Suc p) (drop (Suc p) H)"
  have "set ?mid \<subseteq> set (drop p H)" by (meson le_SucI order.refl order.trans set_drop_subset_set_drop set_take_subset)
  then have mid: "list_all (not_again cid) ?mid" using none by (auto simp: list_all_iff)
  have "take q H = take (Suc p + (q - Suc p)) H" using assms(2) by simp
  also have "\<dots> = take p H @ [H ! p] @ ?mid" using assms(2,3) by (simp only: take_add) (simp add: take_Suc_conv_app_nth)
  finally have q: "foldl auth_step empty_auth (take q H) = foldl auth_step db ?mid"
    using assms(4) claim by (simp add: auth_step_def)
  have "spent cid db" by (rule claim_spends [OF ids claim assms(6)])
  then have "spent cid (foldl auth_step empty_auth (take q H))" unfolding q by (rule used.stable_run [OF mid])
  then show ?thesis using assms(7) by (auto simp: st_claim_challenge_def Let_def count_where_0 spent_def)
qed

section \<open>Signed decisions\<close>

text \<open>
  The signature verifies under the newest key of \<open>dev\<close> that was not revoked in the tables \<open>db2\<close>; in the tables \<open>db1\<close>, read
  just before, \<open>dev\<close> is an active device of the user on an approver platform.
\<close>

definition signed_by :: "crypto \<Rightarrow> auth_db \<Rightarrow> auth_db \<Rightarrow> string \<Rightarrow> string \<Rightarrow> string \<Rightarrow> string \<Rightarrow> bool" where
  "signed_by c db1 db2 usr dev m sig \<longleftrightarrow> (\<exists>d k. find (\<lambda>d. dv_id d = dev) (db_devices db1) = Some d \<and> dv_user_id d = usr
     \<and> dv_status d = ''active'' \<and> dv_platform d \<in> set APPROVER_PLATFORMS \<and> current_key dev db2 = Some k
     \<and> verify_signature c (ky_public_key k) m sig = Inr ())"

lemma bind_signature_run [run_simps]:
  "bind_auth (verify_device_signature c env usr dev m sig) g st = (Inr y, st') \<longleftrightarrow>
     qe_fault env (ru_count st) = None \<and> qe_fault env (ru_count st + 1) = None
     \<and> signed_by c (ru_db (arrive env st)) (ru_db (arrive env (arrive env st))) usr dev m sig
     \<and> g () (arrive env (arrive env st)) = (Inr y, st')"
  unfolding verify_device_signature_def active_device_and_key_def get_device_def
  by (auto simp: run_simps signed_by_def split_beta unit_eq)

section \<open>Messages\<close>

lemma action_bytes_inj:
  assumes "account_action_str a @ [CHR 0x00] @ x = account_action_str b @ [CHR 0x00] @ y"
  shows "a = b \<and> x = y"
  using assms by (cases a; cases b) simp_all

definition approval_form :: "account_approval \<Rightarrow> bool" where
  "approval_form a \<longleftrightarrow> length (aa_request_id a) = 16 \<and> length (aa_user_id a) = 16 \<and> length (aa_device_id a) = 16
     \<and> length (aa_target a) = 16 \<and> aa_expires_at a < 2 ^ 63"

lemma account_message_binds:
  assumes a: "approval_form a" "account_approval_message c a = Some m" and b: "approval_form b" "account_approval_message c b = Some m"
  shows "a\<lparr>aa_nonce := aa_nonce b\<rparr> = b \<and> hex_decode c (aa_nonce a) = hex_decode c (aa_nonce b)"
proof -
  obtain na where na: "hex_decode c (aa_nonce a) = Some na" "length na = 32" "aa_expires_at a > 0"
      and ma: "m = account_domain @ account_action_str (aa_action a) @ [CHR 0x00] @ aa_request_id a @ aa_user_id a
              @ aa_device_id a @ aa_target a @ na @ i64_be (aa_expires_at a)"
    using a(2) by (auto simp: account_approval_message_def split: option.splits if_splits)
  obtain nb where nb: "hex_decode c (aa_nonce b) = Some nb" "length nb = 32" "aa_expires_at b > 0"
      and mb: "m = account_domain @ account_action_str (aa_action b) @ [CHR 0x00] @ aa_request_id b @ aa_user_id b
              @ aa_device_id b @ aa_target b @ nb @ i64_be (aa_expires_at b)"
    using b(2) by (auto simp: account_approval_message_def split: option.splits if_splits)
  have act: "aa_action a = aa_action b"
    and rest: "aa_request_id a @ aa_user_id a @ aa_device_id a @ aa_target a @ na @ i64_be (aa_expires_at a)
      = aa_request_id b @ aa_user_id b @ aa_device_id b @ aa_target b @ nb @ i64_be (aa_expires_at b)"
    using action_bytes_inj [OF ma [unfolded mb, unfolded append_same_eq same_append_eq, symmetric]] by blast+
  have "i64_be (aa_expires_at a) = i64_be (aa_expires_at b)" and ids: "aa_request_id a = aa_request_id b" "aa_user_id a = aa_user_id b"
      "aa_device_id a = aa_device_id b" "aa_target a = aa_target b" "na = nb"
    using rest a(1) b(1) na(2) nb(2) by (simp_all add: approval_form_def)
  then have "aa_expires_at a = aa_expires_at b"
    using a(1) b(1) na(3) nb(3) by (intro i64_be_inj) (auto simp: approval_form_def)
  then show ?thesis using act ids na(1) nb(1) by simp
qed

section \<open>Fresh sessions\<close>

text \<open>The session behind an accepted token, in the tables in which it was read, and the time of that check.\<close>

definition fresh_session :: "auth_db \<Rightarrow> session \<Rightarrow> int \<Rightarrow> bool" where
  "fresh_session db s now \<longleftrightarrow> s \<in> set (db_sessions db) \<and> se_revoked_at s = None
     \<and> now \<le> se_created_at s + days 7 \<and> (\<forall>v. se_verified_at s = Some v \<longrightarrow> now \<le> v + days 30)
     \<and> now - (case se_last_used_at s of None \<Rightarrow> se_created_at s | Some u \<Rightarrow> u) < hours 24"

lemma live_is_fresh:
  assumes "sessions_timed db" and "s \<in> set (db_sessions db)" and "session_is_live s now"
  shows "fresh_session db s now"
proof -
  have ok: "times_ok s" using assms(1,2) by (auto simp: sessions_timed_def)
  have live: "se_revoked_at s = None" "now \<le> se_expires_at s"
      "now - (case se_last_used_at s of None \<Rightarrow> se_created_at s | Some u \<Rightarrow> u) < hours 24"
    using assms(3) by (auto simp: session_is_live_def Let_def SESSION_IDLE_def split: option.splits)
  show ?thesis
    using ok live assms(2) unfolding fresh_session_def times_ok_def PASSWORD_RENEWAL_DAYS_def by force
qed

section \<open>Approvals\<close>

lemma bind_map_err_run [run_simps]: "bind_auth (map_err_auth h m) g st = (Inr y, st') \<longleftrightarrow> bind_auth m g st = (Inr y, st')"
  by (simp add: bind_auth_def map_err_auth_def split: prod.splits sum.splits)

lemma execute_run:
  "execute_query env f st = (Inr k, st') \<longleftrightarrow> qe_fault env (ru_count st) = None
     \<and> (\<exists>db. exec (f (qe_clock env (ru_count st))) (ru_db (arrive env st)) = Some (k, db))
     \<and> st' = logged (f (qe_clock env (ru_count st))) (arrive env st)"
  by (auto simp: execute_query_def Let_def split: option.splits)

lemma revoke_failure_run: "revoke_failure env i usr dev tg e st \<noteq> (Inr y, st')"
  by (auto simp: revoke_failure_def split: prod.splits sum.splits)

lemma approve_end_run:
  "(case execute_query env f st of (Inr _, st') \<Rightarrow> (Inr x, st')
     | (Inl e, st') \<Rightarrow> if b then revoke_failure env i usr dev tg e st' else (Inl e, st')) = (Inr y, st2)
   \<longleftrightarrow> x = y \<and> (\<exists>k. execute_query env f st = (Inr k, st2))"
  by (auto simp: revoke_failure_run split: prod.splits sum.splits if_splits)

lemma pairing_message_run:
  "pairing_approval_message i nonce pk usr approver expires = Inr m \<longleftrightarrow> length nonce = 32 \<and> length pk = 32
     \<and> m = pairing_domain @ i @ nonce @ pk @ usr @ approver @ i64_be (unix_timestamp expires)"
  by (auto simp: pairing_approval_message_def)

lemma unlock_message_run:
  "unlock_approval_message i dev nonce = Inr m \<longleftrightarrow> length nonce = 32
     \<and> m = unlock_domain @ i @ dev @ nonce"
  by (auto simp: unlock_approval_message_def challenge_message_def)

lemma account_message_run:
  "account_approval_message c a = Some m \<longleftrightarrow> aa_expires_at a > 0 \<and> (\<exists>nonce. hex_decode c (aa_nonce a) = Some nonce \<and> length nonce = 32
     \<and> m = account_domain @ account_action_str (aa_action a) @ [CHR 0x00] @ aa_request_id a
         @ aa_user_id a @ aa_device_id a @ aa_target a @ nonce @ i64_be (aa_expires_at a))"
  by (auto simp: account_approval_message_def split: option.splits)

lemma pairing_signed:
  assumes "approve_pairing_request c env dev key_id i usr approver sig st = (Inr d, st')"
  shows "\<exists>r plat. find (\<lambda>r. pg_id r = i \<and> pg_user_id r = usr) (db_pairings (tables_seen env st [0])) = Some r
     \<and> pg_status r = ''pending'' \<and> qe_clock env (ru_count st + 1) < pg_expires_at r \<and> length (pg_nonce r) = 32 \<and> length (pg_public_key r) = 32
     \<and> signed_by c (tables_seen env st [0, 2]) (tables_seen env st [0, 2, 3]) usr approver
         (pairing_domain @ i @ pg_nonce r @ pg_public_key r @ usr @ approver
          @ i64_be (unix_timestamp (pg_expires_at r))) sig
     \<and> platform_parse (pg_platform r) = Inr plat
     \<and> ru_log st' = ru_log st @ overheard env st [0, 2, 3, 4]
         @ [ActivatePairing (pg_id r) (pg_user_id r) (pg_fingerprint r) (Some approver) dev key_id (pg_name r) (platform_str plat) (pg_public_key r)
              (qe_clock env (ru_count st + 4))] @ overheard env st [5]"
  using assms unfolding approve_pairing_request_def pairing_request_of_def activate_pairing_request_def get_device_def
  by (auto simp: run_simps pairing_message_run tables_seen_def overheard_def count_simps)

lemma unlock_signed:
  assumes "approve_unlock_request c env i usr approver sig st = (Inr (), st')"
  shows "\<exists>r. find (\<lambda>r. ul_id r = i \<and> ul_user_id r = usr \<and> ul_status r = ''pending'' \<and> qe_clock env (ru_count st) < ul_expires_at r)
        (db_unlocks (tables_seen env st [0])) = Some r
     \<and> ul_device_id r \<noteq> approver \<and> length (ul_nonce r) = 32
     \<and> signed_by c (tables_seen env st [0, 1]) (tables_seen env st [0, 1, 2]) usr approver (unlock_domain @ i @ approver @ ul_nonce r) sig
     \<and> ru_log st' = ru_log st @ overheard env st [0, 1, 2, 3] @ [ApproveUnlock i usr approver (qe_clock env (ru_count st + 3))]"
  using assms unfolding approve_unlock_request_def
  by (auto simp: run_simps unlock_message_run tables_seen_def overheard_def count_simps)

lemma action_signed:
  assumes "approve_action c ps env i usr dev sig st = (Inr ap, st')"
  shows "\<exists>a nonce. find (action_live i usr dev (qe_clock env (ru_count st))) (db_actions (tables_seen env st [0])) = Some a
     \<and> ap = approval c i a \<and> unix_timestamp (ac_expires_at a) > 0
     \<and> hex_decode c (hex_encode c (ac_nonce a)) = Some nonce \<and> length nonce = 32
     \<and> signed_by c (tables_seen env st [0, 1]) (tables_seen env st [0, 1, 2]) usr dev
         (account_domain @ account_action_str (ac_action a) @ [CHR 0x00] @ i @ ac_user_id a @ ac_device_id a @ ac_target a @ nonce
          @ i64_be (unix_timestamp (ac_expires_at a))) sig
     \<and> ru_log st' = ru_log st @ overheard env st [0, 1, 2, 3]
         @ [ApproveAction i usr dev (ac_action a) (ac_target a) (qe_clock env (ru_count st + 3))]"
  using assms unfolding approve_action_def load_action_def Let_def
  by (auto simp: run_simps approve_end_run account_message_run approval_def execute_run tables_seen_def overheard_def count_simps)

section \<open>Logins and sessions\<close>

lemma login_claim_placed:
  assumes "login_with_password c ps env sid token dev cid sig pw st = (Inr r, st')" and "ru_db st = foldl auth_step empty_auth (ru_log st)"
    and "ru_log st' @ rest = H"
  shows "\<exists>t k db. claim_index env st < length H \<and> H ! claim_index env st = ClaimChallenge cid dev t \<and> k \<noteq> 0
    \<and> exec (ClaimChallenge cid dev t) (foldl auth_step empty_auth (take (claim_index env st) H)) = Some (k, db)"
proof -
  obtain t k db ss where c: "exec (ClaimChallenge cid dev t) (tables_seen env st [0, 2, 3, 4]) = Some (k, db)" "k \<noteq> 0"
      and l: "ru_log st' = ru_log st @ overheard env st [0, 2, 3, 4] @ [ClaimChallenge cid dev t] @ ss"
    using login_claims [OF assms(1)] by blast
  let ?before = "ru_log st @ overheard env st [0, 2, 3, 4]"
  have H: "H = ?before @ ClaimChallenge cid dev t # ss @ rest" and n: "claim_index env st = length ?before"
    using l assms(3) by (simp_all add: claim_index_def)
  have "take (claim_index env st) H = ?before" "H ! claim_index env st = ClaimChallenge cid dev t" "claim_index env st < length H"
    unfolding H n by (simp_all only: append_eq_conv_conj [THEN iffD1, OF refl] nth_append_length) simp_all
  moreover have "foldl auth_step empty_auth ?before = tables_seen env st [0, 2, 3, 4]" by (simp add: tables_seen_def assms(2))
  ultimately show ?thesis using c by auto
qed

lemma authenticate_run:
  assumes "authenticate c env token st = (Inr a, st')"
  shows "\<exists>raw s. hex_decode c token = Some raw \<and> session_by_hash (sha256 c raw) (tables_seen env st [0]) = Some s
    \<and> session_is_live s (qe_clock env (ru_count st + 1)) \<and> se_id s = au_session_id a
    \<and> us_id (au_user a) = se_user_id s \<and> active_device_row (se_device_id s) (ru_db st') = Some (au_device a)"
proof (cases "hex_decode c token")
  case None
  then show ?thesis using assms by (simp add: authenticate_def run_simps)
next
  case (Some raw)
  have user: "find (\<lambda>u. us_id u = usr) us = Some u \<Longrightarrow> us_id u = usr" for us usr and u :: user
    by (auto simp: find_Some_iff)
  from Some assms show ?thesis
    by (auto simp: authenticate_def get_user_def run_simps tables_seen_def overheard_def dest!: user)
qed

section \<open>A store for the witnesses\<close>

definition demo_crypto :: crypto where
  "demo_crypto = \<lparr>hex_decode = Some, hex_encode = (\<lambda>x. x), sha256 = (\<lambda>x. x), op_to_vec = (\<lambda>_. None),
     key_from_bytes = (\<lambda>_. True), verify_strict = (\<lambda>_ _ _. True), uuid_parse_str = Some, uuid_hyphenated = (\<lambda>x. x)\<rparr>"

definition demo_passwords :: password_service where
  "demo_passwords = \<lparr>ps_permit = True, phc_parse = (\<lambda>_. None), argon2_hash = (\<lambda>_. Inl PasswordUnavailable),
     argon2_verify = (\<lambda>_ _. Inr ()), common_lines = []\<rparr>"

text \<open>No other request, an answered connection, and the clock at \<open>t\<close>.\<close>

definition quiet :: "int \<Rightarrow> auth_env" where
  "quiet t = \<lparr>qe_before = (\<lambda>_. []), qe_fault = (\<lambda>_. None), qe_clock = (\<lambda>_. t)\<rparr>"

definition demo_bytes :: "nat \<Rightarrow> string" where
  "demo_bytes n = replicate n CHR ''p''"

definition demo_stmts :: "auth_stmt list" where
  "demo_stmts = [CreateUser ''u'' ''Owner'' 0,
     RegisterDevice ''d'' ''u'' ''Phone'' ''ios'' ''k'' ''ed25519'' (demo_bytes 32) 0,
     RegisterDevice ''e'' ''u'' ''Mac'' ''macos'' ''l'' ''ed25519'' (demo_bytes 32) 0,
     CreateChallenge ''c'' ''d'' (demo_bytes 32) 0,
     MintSession ''s'' ''u'' ''d'' ''hash'' None 0]"

definition demo_run :: "auth_stmt list \<Rightarrow> auth_run" where
  "demo_run ss = \<lparr>ru_count = 0, ru_db = foldl auth_step empty_auth ss, ru_log = ss\<rparr>"

lemma succeeds: "\<not> isl (fst r) \<Longrightarrow> \<exists>x st. r = (Inr x, st)"
  by (metis isl_def prod.collapse sum.exhaust)

lemma quiet_others [simp]: "others_run A (quiet t)"
  by (simp add: others_run_def quiet_def)

section \<open>Retention\<close>

text \<open>What one statement without a limit would leave.\<close>

definition all_where :: "('a \<Rightarrow> bool) \<Rightarrow> ('a \<Rightarrow> 'a option) \<Rightarrow> 'a list \<Rightarrow> 'a list" where
  "all_where p f xs = concat (map (\<lambda>x. if p x then (case f x of None \<Rightarrow> [] | Some y \<Rightarrow> [y]) else [x]) xs)"

lemma first_where_facts:
  assumes "\<And>x y. p x \<Longrightarrow> f x = Some y \<Longrightarrow> \<not> p y"
  shows "fst (first_where n p f xs) = min n (count_where p xs)
    \<and> count_where p (snd (first_where n p f xs)) = count_where p xs - min n (count_where p xs)
    \<and> all_where p f (snd (first_where n p f xs)) = all_where p f xs"
proof (induction xs arbitrary: n)
  case Nil
  show ?case by (simp add: count_where_def)
next
  case (Cons x xs)
  show ?case
    using Cons.IH [of "n - 1"] Cons.IH [of n] assms [of x]
    by (cases n; cases "p x"; cases "f x") (auto simp: count_where_def all_where_def split: prod.splits)
qed

lemma all_where_none: "count_where p xs = 0 \<Longrightarrow> all_where p f xs = xs"
  by (induction xs) (auto simp: count_where_def all_where_def split: if_splits)

lemma all_where_delete: "all_where p (\<lambda>_. None) xs = delete_where p xs"
  by (induction xs) (auto simp: all_where_def delete_where_def)

lemma all_where_set: "all_where p (\<lambda>x. Some (g x)) xs = set_where p g xs"
  by (induction xs) (auto simp: all_where_def set_where_def)

lemma execute_quiet:
  assumes "exec (q t) (ru_db st) = Some (k, db)"
  shows "execute_query (quiet t) q st = (Inr k, st\<lparr>ru_count := ru_count st + 1, ru_db := db, ru_log := ru_log st @ [q t]\<rparr>)"
  using assms by (simp add: execute_query_def quiet_def arrive_def logged_def auth_step_def Let_def)

text \<open>
  The loop of batches over a table \<open>tab\<close> that a statement \<open>q\<close> thins out: when the table holds no more
  matching rows than the batches can take, it leaves what the statement without a limit leaves.
\<close>

locale batched =
  fixes q :: "int \<Rightarrow> auth_stmt" and p :: "int \<Rightarrow> 'r \<Rightarrow> bool" and f :: "'r \<Rightarrow> 'r option"
    and tab :: "auth_db \<Rightarrow> 'r list" and put :: "'r list \<Rightarrow> auth_db \<Rightarrow> auth_db"
  assumes settles: "p t x \<Longrightarrow> f x = Some y \<Longrightarrow> \<not> p t y"
    and batch: "exec (q t) db = Some (fst (first_where AUTH_PRUNE_BATCH (p t) f (tab db)),
      put (snd (first_where AUTH_PRUNE_BATCH (p t) f (tab db))) db)"
    and get_put: "tab (put r db) = r" and put_put: "put r (put r' db) = put r db" and put_get: "put (tab db) db = db"
begin

lemma batches:
  assumes "count_where (p t) (tab (ru_db st)) \<le> n * AUTH_PRUNE_BATCH"
  shows "\<exists>st'. prune_auth_batches (quiet t) q n st = (Inr (count_where (p t) (tab (ru_db st))), st')
    \<and> ru_db st' = put (all_where (p t) f (tab (ru_db st))) (ru_db st)"
  using assms
proof (induction n arbitrary: st)
  case 0
  then show ?case by (simp add: return_auth_def all_where_none put_get)
next
  case (Suc n)
  let ?xs = "tab (ru_db st)"
  let ?w = "first_where AUTH_PRUNE_BATCH (p t) f ?xs"
  have w: "fst ?w = min AUTH_PRUNE_BATCH (count_where (p t) ?xs)"
    "count_where (p t) (snd ?w) = count_where (p t) ?xs - min AUTH_PRUNE_BATCH (count_where (p t) ?xs)"
    "all_where (p t) f (snd ?w) = all_where (p t) f ?xs"
    using first_where_facts [of "p t" f AUTH_PRUNE_BATCH ?xs] settles by blast+
  define st1 where "st1 = st\<lparr>ru_count := ru_count st + 1, ru_db := put (snd ?w) (ru_db st), ru_log := ru_log st @ [q t]\<rparr>"
  have run: "execute_query (quiet t) q st = (Inr (fst ?w), st1)"
    unfolding st1_def by (rule execute_quiet) (rule batch)
  have tab1: "tab (ru_db st1) = snd ?w" and db1: "ru_db st1 = put (snd ?w) (ru_db st)" by (simp_all add: st1_def get_put)
  show ?case
  proof (cases "fst ?w < AUTH_PRUNE_BATCH")
    case True
    then have all: "fst ?w = count_where (p t) ?xs" "all_where (p t) f ?xs = snd ?w"
      using w all_where_none [of "p t" "snd ?w" f] by auto
    then show ?thesis using True run db1 by (simp add: bind_auth_def return_auth_def)
  next
    case False
    then have "count_where (p t) (tab (ru_db st1)) \<le> n * AUTH_PRUNE_BATCH" using Suc.prems w tab1 by simp
    from Suc.IH [OF this] obtain st' where
      "prune_auth_batches (quiet t) q n st1 = (Inr (count_where (p t) (snd ?w)), st')"
      "ru_db st' = put (all_where (p t) f ?xs) (ru_db st)"
      unfolding tab1 by (auto simp: w(3) db1 put_put)
    then show ?thesis using False run w(1,2) by (simp add: bind_auth_def return_auth_def)
  qed
qed

end

interpretation challenge_rows: batched PruneChallenges "\<lambda>t c. ch_expires_at c < t" "\<lambda>_. None" db_challenges "\<lambda>r. db_challenges_update (\<lambda>_. r)"
  by unfold_locales (auto simp: st_prune_challenges_def split: prod.splits)

interpretation stale_rows: batched PrunePairings stale_pairing "\<lambda>_. None" db_pairings "\<lambda>r. db_pairings_update (\<lambda>_. r)"
  by unfold_locales (auto simp: st_prune_pairings_def split: prod.splits)

interpretation detailed_rows: batched ClearPairings detailed_pairing "\<lambda>r. Some (r\<lparr>pg_details := no_details\<rparr>)" db_pairings "\<lambda>r. db_pairings_update (\<lambda>_. r)"
  by unfold_locales (auto simp: st_clear_pairings_def detailed_pairing_def split: prod.splits)

lemma detailed_after_delete: "count_where (detailed_pairing t) (delete_where (stale_pairing t) xs) = count_where (detailed_pairing t) xs"
  unfolding count_where_def delete_where_def
  by (induction xs) (auto simp: detailed_pairing_def stale_pairing_def)

lemma prune_runs:
  fixes st :: auth_run
  defines "cs \<equiv> db_challenges (ru_db st)" and "ps \<equiv> db_pairings (ru_db st)"
  assumes "count_where (\<lambda>c. ch_expires_at c < t) cs \<le> 100000" and "count_where (stale_pairing t) ps \<le> 100000"
    and "count_where (detailed_pairing t) ps \<le> 100000"
  shows "\<exists>st'. prune_expired_auth_state (quiet t) st = (Inr (count_where (\<lambda>c. ch_expires_at c < t) cs
      + count_where (stale_pairing t) ps + count_where (detailed_pairing t) ps), st')
    \<and> ru_db st' = (ru_db st)\<lparr>db_challenges := delete_where (\<lambda>c. ch_expires_at c < t) cs,
        db_pairings := set_where (detailed_pairing t) (\<lambda>r. r\<lparr>pg_details := no_details\<rparr>) (delete_where (stale_pairing t) ps)\<rparr>"
proof -
  have bound: "AUTH_PRUNE_MAX_BATCHES * AUTH_PRUNE_BATCH = 100000" by (simp add: AUTH_PRUNE_MAX_BATCHES_def AUTH_PRUNE_BATCH_def)
  obtain st1 where one: "prune_auth_batches (quiet t) PruneChallenges AUTH_PRUNE_MAX_BATCHES st = (Inr (count_where (\<lambda>c. ch_expires_at c < t) cs), st1)"
      and db1: "ru_db st1 = (ru_db st)\<lparr>db_challenges := delete_where (\<lambda>c. ch_expires_at c < t) cs\<rparr>"
    using challenge_rows.batches [of t st AUTH_PRUNE_MAX_BATCHES] assms(3) unfolding bound all_where_delete cs_def by blast
  obtain st2 where two: "prune_auth_batches (quiet t) PrunePairings AUTH_PRUNE_MAX_BATCHES st1 = (Inr (count_where (stale_pairing t) ps), st2)"
      and db2: "ru_db st2 = (ru_db st1)\<lparr>db_pairings := delete_where (stale_pairing t) ps\<rparr>"
    using stale_rows.batches [of t st1 AUTH_PRUNE_MAX_BATCHES] assms(4) unfolding bound all_where_delete ps_def db1 by auto
  obtain st3 where three: "prune_auth_batches (quiet t) ClearPairings AUTH_PRUNE_MAX_BATCHES st2 = (Inr (count_where (detailed_pairing t) ps), st3)"
      and db3: "ru_db st3 = (ru_db st2)\<lparr>db_pairings := set_where (detailed_pairing t) (\<lambda>r. r\<lparr>pg_details := no_details\<rparr>) (delete_where (stale_pairing t) ps)\<rparr>"
    using detailed_rows.batches [of t st2 AUTH_PRUNE_MAX_BATCHES] assms(5) unfolding bound all_where_set ps_def db2
    by (auto simp: detailed_after_delete)
  show ?thesis
    by (simp add: prune_expired_auth_state_def bind_auth_def one two three return_auth_def db3 db2 db1)
qed

section \<open>Properties\<close>

text \<open>
  C8. As long as no login is overtaken between its check and its commit, a session that is not
  revoked belongs to an active device of its user and carries the revision of the user's present
  password, whatever the store runs: no session survives the revocation of its device, a change
  of the password or a confirmed recovery.
\<close>

theorem live_sessions_are_current:
  assumes "db = foldl serial_step empty_auth ss" and "s \<in> set (db_sessions db)" and "se_revoked_at s = None"
  shows "(\<exists>d \<in> set (db_devices db). active_device (se_device_id s) (se_user_id s) d)
    \<and> revision_of s = current_revision (se_user_id s) (db_passwords db)"
proof -
  have "accounts_ok db" unfolding assms(1) by (rule accounts.run_inv) simp
  then show ?thesis using assms(2,3) by (simp add: accounts_ok_def live_ok_def)
qed

theorem live_sessions_are_current_witness:
  "\<exists>s \<in> set (db_sessions (foldl serial_step empty_auth demo_stmts)). se_revoked_at s = None
    \<and> (\<exists>d \<in> set (db_devices (foldl serial_step empty_auth demo_stmts)). active_device (se_device_id s) (se_user_id s) d)
    \<and> revision_of s = current_revision (se_user_id s) (db_passwords (foldl serial_step empty_auth demo_stmts))"
proof -
  let ?db = "foldl serial_step empty_auth demo_stmts"
  have "\<exists>s \<in> set (db_sessions ?db). se_revoked_at s = None" by code_simp
  then show ?thesis using live_sessions_are_current [OF refl, of _ demo_stmts] by blast
qed

text \<open>
  C7. A token is accepted only for the session that its hash finds in the tables of the first query: not revoked,
  at most seven days after it was created, at most thirty days after the password was checked and less
  than twenty-four hours after its last use, all at the clock read next; the answer names that session, its user and its
  device, whose row is active in the tables of the last query.
\<close>

theorem authenticated_session_is_fresh:
  assumes "ru_db st = foldl auth_step empty_auth ss" and "authenticate c env token st = (Inr a, st')"
  shows "\<exists>raw s. hex_decode c token = Some raw \<and> session_by_hash (sha256 c raw) (tables_seen env st [0]) = Some s
    \<and> fresh_session (tables_seen env st [0]) s (qe_clock env (ru_count st + 1)) \<and> se_id s = au_session_id a
    \<and> se_user_id s = us_id (au_user a) \<and> se_device_id s = dv_id (au_device a)
    \<and> au_device a \<in> set (db_devices (ru_db st')) \<and> dv_status (au_device a) = ''active''"
proof -
  obtain raw s where run: "hex_decode c token = Some raw" "session_by_hash (sha256 c raw) (tables_seen env st [0]) = Some s"
      "session_is_live s (qe_clock env (ru_count st + 1))" "se_id s = au_session_id a"
      "us_id (au_user a) = se_user_id s" "active_device_row (se_device_id s) (ru_db st') = Some (au_device a)"
    using authenticate_run [OF assms(2)] by blast
  have "tables_seen env st [0] = foldl auth_step empty_auth (ss @ overheard env st [0])" by (simp add: tables_seen_def assms(1))
  then have "sessions_timed (tables_seen env st [0])"
    by (simp only:) (rule lifetimes.run_inv, simp add: sessions_timed_def empty_auth_def)
  moreover have "s \<in> set (db_sessions (tables_seen env st [0]))" using run(2) by (auto simp: session_by_hash_def find_Some_iff)
  ultimately show ?thesis using run live_is_fresh by (fastforce simp: active_device_row_def find_Some_iff)
qed

theorem authenticated_session_is_fresh_witness:
  "\<exists>a st' s. authenticate demo_crypto (quiet second) ''hash'' (demo_run demo_stmts) = (Inr a, st')
    \<and> session_by_hash ''hash'' (tables_seen (quiet second) (demo_run demo_stmts) [0]) = Some s
    \<and> fresh_session (tables_seen (quiet second) (demo_run demo_stmts) [0]) s second \<and> se_id s = au_session_id a"
proof -
  have ok: "\<not> isl (fst (authenticate demo_crypto (quiet second) ''hash'' (demo_run demo_stmts)))" by code_simp
  obtain a st' where run: "authenticate demo_crypto (quiet second) ''hash'' (demo_run demo_stmts) = (Inr a, st')"
    using succeeds [OF ok] by blast
  show ?thesis
    using authenticated_session_is_fresh [OF _ run, of demo_stmts] run by (auto simp: demo_run_def quiet_def demo_crypto_def)
qed

text \<open>
  C4. Once local root has revoked a device, and whatever the store runs afterwards, the device is
  never the answer of an authentication, never logs in and never signs an approval that is
  accepted. Only a peer with uid 0 gets that far.
\<close>

theorem revoked_device_is_out:
  assumes "local_revoke uid env0 dev st0 = (Inr owner, st1)" and "later (ru_db st1) (ru_db st)"
  shows "uid = Some 0
    \<and> (\<forall>a st'. authenticate c env token st = (Inr a, st') \<longrightarrow> dv_id (au_device a) \<noteq> dev)
    \<and> (\<forall>r st'. login_with_password c ps env sid secret dev cid sig pw st \<noteq> (Inr r, st'))
    \<and> (\<forall>st'. verify_device_signature c env usr dev m sig st \<noteq> (Inr (), st'))"
proof -
  have uid: "uid = Some 0"
    using assms(1) by (auto simp: local_revoke_def as_root_def bind_auth_def of_sum_def local_root_peer_def split: if_splits)
  obtain ss where ss: "ru_db st = foldl auth_step (ru_db st1) ss" using assms(2) unfolding later_def by blast
  have "out dev (ru_db st1)" using yieldsD [OF local_revoke_out _ assms(1)] by simp
  then have "out dev (ru_db st)" unfolding ss by (intro dev_out.stable_run) (simp_all add: list_all_iff)
  then show ?thesis
    using uid yieldsD [OF out_not_authenticated] yieldsD [OF out_no_login] yieldsD [OF out_signs_nothing]
    by (intro conjI allI impI notI) metis+
qed

theorem revoked_device_is_out_witness:
  "\<exists>owner st1. local_revoke (Some 0) (quiet second) ''d'' (demo_run demo_stmts) = (Inr owner, st1)
    \<and> (\<forall>r st'. login_with_password demo_crypto demo_passwords (quiet second) ''s2'' ''t'' ''d'' ''c'' (demo_bytes 64) None st1 \<noteq> (Inr r, st'))"
proof -
  have ok: "\<not> isl (fst (local_revoke (Some 0) (quiet second) ''d'' (demo_run demo_stmts)))" by code_simp
  obtain owner st1 where run: "local_revoke (Some 0) (quiet second) ''d'' (demo_run demo_stmts) = (Inr owner, st1)"
    using succeeds [OF ok] by blast
  show ?thesis using revoked_device_is_out [OF run later_refl] run by blast
qed


text \<open>
  C6. A login challenge opens one session at most, however its logins interleave: in one history, in which the challenge
  is created once, of two logins that put it to the store at different places at most one succeeds, from whichever devices and with
  whatever signatures, the other one started before, during or after it.
\<close>

theorem challenge_opens_one_session:
  assumes "login_with_password c ps env sid token dev cid sig pw st = (Inr r, st')" and "ru_db st = foldl auth_step empty_auth (ru_log st)"
    and "login_with_password c' ps' env' sid' token' dev' cid sig' pw' st1 = (res, st1')"
    and "ru_db st1 = foldl auth_step empty_auth (ru_log st1)"
    and "ru_log st' @ rest = H" and "ru_log st1' @ rest' = H" and "length (filter (\<lambda>s. \<not> not_again cid s) H) \<le> 1"
    and "claim_index env st \<noteq> claim_index env' st1"
  shows "isl res"
proof (rule ccontr)
  assume "\<not> isl res"
  then obtain r' where "login_with_password c' ps' env' sid' token' dev' cid sig' pw' st1 = (Inr r', st1')"
    using assms(3) by (cases res) auto
  then obtain t' k' db' where two: "claim_index env' st1 < length H" "H ! claim_index env' st1 = ClaimChallenge cid dev' t'" "k' \<noteq> 0"
      "exec (ClaimChallenge cid dev' t') (foldl auth_step empty_auth (take (claim_index env' st1) H)) = Some (k', db')"
    using login_claim_placed [OF _ assms(4,6)] by blast
  obtain t k db where one: "claim_index env st < length H" "H ! claim_index env st = ClaimChallenge cid dev t" "k \<noteq> 0"
      "exec (ClaimChallenge cid dev t) (foldl auth_step empty_auth (take (claim_index env st) H)) = Some (k, db)"
    using login_claim_placed [OF assms(1,2,5)] by blast
  from assms(8) show False
  proof (cases rule: linorder_neqE_nat)
    assume "claim_index env st < claim_index env' st1"
    from claims_once [OF assms(7) this two(1) one(2,4,3) two(4)] two(3) show False by simp
  next
    assume "claim_index env' st1 < claim_index env st"
    from claims_once [OF assms(7) this one(1) two(2,4,3) one(4)] one(3) show False by simp
  qed
qed

text \<open>A race: the second login read the challenge while it was open; the first one ran before the second one's claim.\<close>

definition demo_race :: auth_env where
  "demo_race = (quiet second)\<lparr>qe_before := (\<lambda>n. if n = 4 then [ClaimChallenge ''c'' ''d'' second, MintSession ''s1'' ''u'' ''d'' ''t1'' None second] else [])\<rparr>"

theorem challenge_opens_one_session_witness:
  "\<not> isl (fst (login_with_password demo_crypto demo_passwords (quiet second) ''s1'' ''t1'' ''d'' ''c'' (demo_bytes 64) None (demo_run demo_stmts)))
   \<and> isl (fst (login_with_password demo_crypto demo_passwords demo_race ''s2'' ''t2'' ''d'' ''c'' (demo_bytes 64) None (demo_run demo_stmts)))"
proof -
  let ?one = "login_with_password demo_crypto demo_passwords (quiet second) ''s1'' ''t1'' ''d'' ''c'' (demo_bytes 64) None (demo_run demo_stmts)"
  let ?two = "login_with_password demo_crypto demo_passwords demo_race ''s2'' ''t2'' ''d'' ''c'' (demo_bytes 64) None (demo_run demo_stmts)"
  let ?H = "demo_stmts @ [ClaimChallenge ''c'' ''d'' second, MintSession ''s1'' ''u'' ''d'' ''t1'' None second, ClaimChallenge ''c'' ''d'' second]"
  have ok: "\<not> isl (fst ?one)" by code_simp
  obtain r st' where run: "?one = (Inr r, st')" using succeeds [OF ok] by blast
  obtain res st1' where race: "?two = (res, st1')" by fastforce
  have "ru_log (snd ?one) @ [ClaimChallenge ''c'' ''d'' second] = ?H" "ru_log (snd ?two) @ [] = ?H" by code_simp+
  then have log: "ru_log st' @ [ClaimChallenge ''c'' ''d'' second] = ?H" "ru_log st1' @ [] = ?H" by (simp_all only: run race snd_conv)
  have once: "length (filter (\<lambda>s. \<not> not_again ''c'' s) ?H) \<le> 1" by code_simp
  have start: "ru_db (demo_run demo_stmts) = foldl auth_step empty_auth (ru_log (demo_run demo_stmts))" by (simp add: demo_run_def)
  have "claim_index (quiet second) (demo_run demo_stmts) \<noteq> claim_index demo_race (demo_run demo_stmts)" by code_simp
  from challenge_opens_one_session [OF run start race start log once this] ok race show ?thesis by simp
qed

text \<open>
  C9. As long as local root revokes no device, a user with an approver device keeps one: no signed
  revocation, however many race, takes the last device that can approve.
\<close>

theorem last_approver_survives:
  assumes "approver_ids usr (foldl auth_step empty_auth ss0) \<noteq> []" and "\<forall>s \<in> set ss. \<forall>dev t. s \<noteq> RevokeDevice dev t"
  shows "approver_ids usr (foldl auth_step empty_auth (ss0 @ ss)) \<noteq> []"
  using assms(2)
proof (induction ss rule: rev_induct)
  case Nil
  then show ?case using assms(1) by simp
next
  case (snoc s ss)
  have "distinct (map dv_id (db_devices (foldl auth_step empty_auth (ss0 @ ss))))"
    by (rule device_rows.run_inv) (simp add: empty_auth_def)
  then show ?case using step_approver [of "foldl auth_step empty_auth (ss0 @ ss)" usr s] snoc by simp
qed

theorem last_approver_survives_witness:
  "approver_ids ''u'' (foldl auth_step empty_auth (demo_stmts @ [RevokeSession ''s'' second])) \<noteq> []"
proof (rule last_approver_survives)
  show "approver_ids ''u'' (foldl auth_step empty_auth demo_stmts) \<noteq> []" by code_simp
qed simp

text \<open>
  Two confirmed recoveries of an account are at least seven days apart, whatever was requested,
  denied or expired in between, provided that no action in between was approved after the second confirmation.
\<close>

theorem recoveries_are_spaced:
  assumes "exec (ConfirmRecovery usr i t1) (foldl auth_step empty_auth ss0) = Some (k, db)" and "list_all (not_after t2) ss"
    and "exec (ConfirmRecovery usr j t2) (foldl auth_step db ss) = Some (k', db')"
  shows "t1 + days 7 \<le> t2"
proof (rule ccontr)
  assume "\<not> t1 + days 7 \<le> t2"
  then have early: "t2 < t1 + days RECOVERY_COOLDOWN_DAYS" by (simp add: RECOVERY_COOLDOWN_DAYS_def)
  have "recovery_times (db_recoveries (foldl auth_step empty_auth ss0))"
    by (rule recoveries.run_inv) (simp add: recovery_times_def empty_auth_def)
  then have "recovered usr t1 db" using assms(1) confirm_recovered by simp
  then have "recovered usr t1 (foldl auth_step db ss)"
    using assms(2) by (induction ss arbitrary: db) (auto intro: step_recovered [OF _ _ early])
  then show False using cooldown_refuses [OF _ early] assms(3) by simp
qed

definition demo_recovery :: "int \<Rightarrow> string \<Rightarrow> auth_stmt list" where
  "demo_recovery t i = [RequestAction \<lparr>ac_id = i, ac_user_id = ''u'', ac_device_id = ''d'', ac_action = PasswordReset, ac_target = ''u'',
       ac_nonce = [], ac_verifier = Some ''v'', ac_expires_at = t + minutes 5, ac_consumed_at = None\<rparr> t,
     ApproveAction i ''u'' ''d'' PasswordReset ''u'' t]"

definition demo_account :: "auth_stmt list" where
  "demo_account = BootstrapAccount 100 True ''u'' ''d'' ''v'' ''r'' ''Phone'' ''ios'' ''k'' (demo_bytes 32) 0 # demo_recovery 1 ''a''"

theorem recoveries_are_spaced_witness:
  "\<exists>k db k' db'. exec (ConfirmRecovery ''u'' ''a'' 2) (foldl auth_step empty_auth demo_account) = Some (k, db)
    \<and> exec (ConfirmRecovery ''u'' ''b'' (days 8 + 1)) (foldl auth_step db (demo_recovery (days 8) ''b'')) = Some (k', db')
    \<and> 2 + days 7 \<le> days 8 + 1"
proof -
  let ?first = "exec (ConfirmRecovery ''u'' ''a'' 2) (foldl auth_step empty_auth demo_account)"
  let ?second = "exec (ConfirmRecovery ''u'' ''b'' (days 8 + 1)) (foldl auth_step (snd (the ?first)) (demo_recovery (days 8) ''b''))"
  have "?first \<noteq> None" "?second \<noteq> None" by code_simp+
  then obtain k db k' db' where run: "?first = Some (k, db)" and again: "?second = Some (k', db')" by auto
  have clock: "list_all (not_after (days 8 + 1)) (demo_recovery (days 8) ''b'')" by (simp add: demo_recovery_def not_after_def)
  show ?thesis using recoveries_are_spaced [OF run clock] again run by auto
qed

text \<open>
  C5. Nothing is granted without a signature. A pairing, an unlock or an account action is approved only when its first query
  found the request of that identifier, still pending and in time, and the approver's signature verifies over the bytes that
  hold the domain, that request's identifier, nonce and the fields of the row just read, under the newest key of the approver
  that was not revoked, read after its row was found to be active, the user's and on an approver platform. The statement
  that grants it, run next, carries the same row. A device never approves its own unlock.
\<close>

theorem grants_are_signed:
  "(approve_pairing_request c env dev key_id i usr approver sig st = (Inr d, st') \<longrightarrow>
      (\<exists>r plat. find (\<lambda>r. pg_id r = i \<and> pg_user_id r = usr) (db_pairings (tables_seen env st [0])) = Some r
         \<and> pg_status r = ''pending'' \<and> qe_clock env (ru_count st + 1) < pg_expires_at r \<and> length (pg_nonce r) = 32 \<and> length (pg_public_key r) = 32
         \<and> signed_by c (tables_seen env st [0, 2]) (tables_seen env st [0, 2, 3]) usr approver
             (''jarvis-device-pairing-v1'' @ [CHR 0x00] @ i @ pg_nonce r @ pg_public_key r @ usr @ approver
              @ i64_be (unix_timestamp (pg_expires_at r))) sig
         \<and> platform_parse (pg_platform r) = Inr plat
         \<and> ru_log st' = ru_log st @ overheard env st [0, 2, 3, 4]
             @ [ActivatePairing (pg_id r) (pg_user_id r) (pg_fingerprint r) (Some approver) dev key_id (pg_name r) (platform_str plat)
                  (pg_public_key r) (qe_clock env (ru_count st + 4))] @ overheard env st [5]))
   \<and> (approve_unlock_request c env i usr approver sig st = (Inr (), st') \<longrightarrow>
      (\<exists>r. find (\<lambda>r. ul_id r = i \<and> ul_user_id r = usr \<and> ul_status r = ''pending'' \<and> qe_clock env (ru_count st) < ul_expires_at r)
            (db_unlocks (tables_seen env st [0])) = Some r
         \<and> ul_device_id r \<noteq> approver \<and> length (ul_nonce r) = 32
         \<and> signed_by c (tables_seen env st [0, 1]) (tables_seen env st [0, 1, 2]) usr approver
             (''jarvis-unlock-approval-v1'' @ [CHR 0x00] @ i @ approver @ ul_nonce r) sig
         \<and> ru_log st' = ru_log st @ overheard env st [0, 1, 2, 3] @ [ApproveUnlock i usr approver (qe_clock env (ru_count st + 3))]))
   \<and> (approve_action c ps env i usr approver sig st = (Inr ap, st') \<longrightarrow>
      (\<exists>a nonce. find (action_live i usr approver (qe_clock env (ru_count st))) (db_actions (tables_seen env st [0])) = Some a
         \<and> ap = approval c i a \<and> unix_timestamp (ac_expires_at a) > 0
         \<and> hex_decode c (hex_encode c (ac_nonce a)) = Some nonce \<and> length nonce = 32
         \<and> signed_by c (tables_seen env st [0, 1]) (tables_seen env st [0, 1, 2]) usr approver
             (''jarvis-account-approval-v1'' @ [CHR 0x00] @ account_action_str (ac_action a) @ [CHR 0x00] @ i @ ac_user_id a
              @ ac_device_id a @ ac_target a @ nonce @ i64_be (unix_timestamp (ac_expires_at a))) sig
         \<and> ru_log st' = ru_log st @ overheard env st [0, 1, 2, 3]
             @ [ApproveAction i usr approver (ac_action a) (ac_target a) (qe_clock env (ru_count st + 3))]))"
proof (intro conjI impI)
qed (erule pairing_signed [unfolded pairing_domain_def append_assoc] unlock_signed [unfolded unlock_domain_def append_assoc]
    action_signed [unfolded account_domain_def append_assoc])+

theorem grants_are_signed_witness:
  "\<exists>st' (r :: unlock_request). approve_unlock_request demo_crypto (quiet second) ''x'' ''u'' ''d'' (demo_bytes 64)
      (demo_run (demo_stmts @ [CreateUnlock ''x'' ''u'' ''e'' (demo_bytes 32) 0])) = (Inr (), st')
    \<and> ul_device_id r \<noteq> ''d'' \<and> signed_by demo_crypto
        (tables_seen (quiet second) (demo_run (demo_stmts @ [CreateUnlock ''x'' ''u'' ''e'' (demo_bytes 32) 0])) [0, 1])
        (tables_seen (quiet second) (demo_run (demo_stmts @ [CreateUnlock ''x'' ''u'' ''e'' (demo_bytes 32) 0])) [0, 1, 2])
        ''u'' ''d'' (''jarvis-unlock-approval-v1'' @ [CHR 0x00] @ ''x'' @ ''d'' @ ul_nonce r) (demo_bytes 64)"
proof -
  let ?st = "demo_run (demo_stmts @ [CreateUnlock ''x'' ''u'' ''e'' (demo_bytes 32) 0])"
  have ok: "\<not> isl (fst (approve_unlock_request demo_crypto (quiet second) ''x'' ''u'' ''d'' (demo_bytes 64) ?st))" by code_simp
  obtain x st' where run: "approve_unlock_request demo_crypto (quiet second) ''x'' ''u'' ''d'' (demo_bytes 64) ?st = (Inr x, st')"
    using succeeds [OF ok] by blast
  have unit: "x = ()" by simp
  show ?thesis
    using grants_are_signed [THEN conjunct2, THEN conjunct1, THEN mp, OF run [unfolded unit]] run [unfolded unit]
    by (elim exE conjE) (intro exI conjI, assumption+)
qed

text \<open>
  The bytes of an account approval fix every field that carries authority, and are never
  the bytes of a login, unlock or pairing message.
\<close>

theorem account_approval_binds_every_field:
  assumes "approval_form a" "account_approval_message c a = Some m"
  shows "(approval_form b \<and> account_approval_message c b = Some m \<longrightarrow>
      aa_request_id b = aa_request_id a \<and> aa_user_id b = aa_user_id a \<and> aa_device_id b = aa_device_id a
      \<and> aa_action b = aa_action a \<and> aa_target b = aa_target a \<and> aa_expires_at b = aa_expires_at a
      \<and> hex_decode c (aa_nonce b) = hex_decode c (aa_nonce a))
    \<and> login_message i dev nonce \<noteq> Inr m \<and> unlock_approval_message i dev nonce \<noteq> Inr m
    \<and> pairing_approval_message i nonce pk usr dev expires \<noteq> Inr m"
proof (intro conjI impI)
  assume "approval_form b \<and> account_approval_message c b = Some m"
  then have same: "b\<lparr>aa_nonce := aa_nonce a\<rparr> = a \<and> hex_decode c (aa_nonce b) = hex_decode c (aa_nonce a)"
    using account_message_binds [of b c m a] assms by blast
  then show "aa_request_id b = aa_request_id a" "aa_user_id b = aa_user_id a" "aa_device_id b = aa_device_id a"
      "aa_action b = aa_action a" "aa_target b = aa_target a" "aa_expires_at b = aa_expires_at a"
      "hex_decode c (aa_nonce b) = hex_decode c (aa_nonce a)"
    by (metis account_approval.select_convs account_approval.surjective account_approval.update_convs(6))+
next
  obtain rest where "m = account_domain @ rest"
    using assms(2) by (auto simp: account_approval_message_def split: option.splits if_splits)
  then show "login_message i dev nonce \<noteq> Inr m" "unlock_approval_message i dev nonce \<noteq> Inr m"
      "pairing_approval_message i nonce pk usr dev expires \<noteq> Inr m"
    by (simp_all add: login_message_def unlock_approval_message_def challenge_message_def pairing_approval_message_def
        account_domain_def login_domain_def unlock_domain_def pairing_domain_def)
qed

definition demo_approval :: account_approval where
  "demo_approval = \<lparr>aa_request_id = demo_bytes 16, aa_user_id = demo_bytes 16, aa_device_id = demo_bytes 16,
     aa_action = PasswordSet, aa_target = demo_bytes 16, aa_nonce = demo_bytes 32, aa_expires_at = 1\<rparr>"

theorem account_approval_binds_every_field_witness:
  "\<exists>m. account_approval_message demo_crypto demo_approval = Some m \<and> login_message ''i'' ''d'' (demo_bytes 32) \<noteq> Inr m"
proof -
  have form: "approval_form demo_approval" by (simp add: approval_form_def demo_approval_def demo_bytes_def)
  obtain m where m: "account_approval_message demo_crypto demo_approval = Some m"
    by (auto simp: account_approval_message_def demo_approval_def demo_crypto_def demo_bytes_def)
  show ?thesis using account_approval_binds_every_field [OF form m] m by blast
qed

text \<open>
  Retention in batches does what the statements without a limit would do: with up to 100,000
  expired challenges, stale pairings and pairings with details, it removes exactly the expired
  challenges and stale pairings, clears exactly the details of the old approved pairings, and returns their number.
\<close>

theorem retention_is_exact:
  assumes "count_where (\<lambda>c. ch_expires_at c < t) (db_challenges (ru_db st)) \<le> 100000"
    and "count_where (stale_pairing t) (db_pairings (ru_db st)) \<le> 100000"
    and "count_where (detailed_pairing t) (db_pairings (ru_db st)) \<le> 100000"
  shows "\<exists>st'. prune_expired_auth_state (quiet t) st = (Inr (count_where (\<lambda>c. ch_expires_at c < t) (db_challenges (ru_db st))
      + count_where (stale_pairing t) (db_pairings (ru_db st)) + count_where (detailed_pairing t) (db_pairings (ru_db st))), st')
    \<and> ru_db st' = (ru_db st)\<lparr>db_challenges := delete_where (\<lambda>c. ch_expires_at c < t) (db_challenges (ru_db st)),
        db_pairings := set_where (detailed_pairing t) (\<lambda>r. r\<lparr>pg_details := no_details\<rparr>)
          (delete_where (stale_pairing t) (db_pairings (ru_db st)))\<rparr>"
  by (rule prune_runs [OF assms])

theorem retention_is_exact_witness:
  "\<exists>st'. prune_expired_auth_state (quiet (days 1)) (demo_run demo_stmts) = (Inr 1, st')"
proof -
  have "count_where (\<lambda>c. ch_expires_at c < days 1) (db_challenges (ru_db (demo_run demo_stmts))) = 1" by code_simp
  moreover have "db_pairings (ru_db (demo_run demo_stmts)) = []" by code_simp
  ultimately show ?thesis
    using retention_is_exact [of "days 1" "demo_run demo_stmts"] by (auto simp: count_where_def)
qed

end
