(* ===== verification/Sandbox.thy ===== *)
theory Sandbox
  imports Policy Market_Http Trusted_Keys
begin

text \<open>
  \<^verbatim>\<open>src/crates/sandbox/src/lib.rs\<close>: the profiles of a sandboxed task with their limits and network policies,
  and the client of the sandbox manager. The manager is a parameter: \<open>m_send\<close> answers a request and
  changes the manager's state, \<open>None\<close> being a request that was not answered. \<open>Url::parse\<close>, \<open>Url::join\<close> and the JSON
  parser are parameters too; a JSON value has the constructors of \<open>serde_json::Value\<close>, and the order of
  the fields of an object plays no part.
\<close>

section \<open>Limits, profiles and policies\<close>

definition MAX_COMMAND_ARGS :: nat where "MAX_COMMAND_ARGS = 64"
definition MAX_COMMAND_ARG_BYTES :: nat where "MAX_COMMAND_ARG_BYTES = 8 * 1024"
definition MAX_ALLOWED_DOMAINS :: nat where "MAX_ALLOWED_DOMAINS = 16"
definition MAX_ARTIFACTS :: nat where "MAX_ARTIFACTS = 32"
definition MAX_ARTIFACT_BYTES :: nat where "MAX_ARTIFACT_BYTES = 16 * 1024 * 1024"
definition MAX_TOTAL_ARTIFACT_BYTES :: nat where "MAX_TOTAL_ARTIFACT_BYTES = 64 * 1024 * 1024"
definition MAX_INPUT_BYTES :: nat where "MAX_INPUT_BYTES = 16 * 1024 * 1024"
definition SANDBOX_WORKSPACE :: string where "SANDBOX_WORKSPACE = ''/workspace''"
definition SANDBOX_INPUT_DIR :: string where "SANDBOX_INPUT_DIR = ''/workspace/input''"
definition SANDBOX_EXECD_PORT :: nat where "SANDBOX_EXECD_PORT = 44772"

datatype sandbox_error = SbUnavailable | SbInvalidTask | SbInvalidNetworkPolicy | SbInvalidArtifact | SbInvalidInput
| SbInvalidConfiguration | SbProviderRequestFailed | SbInvalidProviderResponse | SbOutputLimitExceeded | SbUnsupported

datatype sandbox_profile = PResearch | PCoding | PBrowser | PDataAnalysis | PCodex

record resource_limits =
  rl_cpu_millis :: nat
  rl_memory_mib :: nat
  rl_disk_mib :: nat
  rl_pids :: nat
  rl_max_runtime_secs :: nat
  rl_max_output_bytes :: nat

datatype network_policy = DenyAll | PublicWeb "string list"

definition is_ascii_alnum :: "char \<Rightarrow> bool" where
  "is_ascii_alnum c \<longleftrightarrow> is_ascii_lowercase c \<or> is_ascii_uppercase c \<or> is_ascii_digit c"

definition strip_prefix :: "string \<Rightarrow> string \<Rightarrow> string option" where
  "strip_prefix p s = (if starts_with s p then Some (drop (length p) s) else None)"

fun split_once_str :: "string \<Rightarrow> string \<Rightarrow> (string \<times> string) option" where
  "split_once_str p [] = (if p = [] then Some ([], []) else None)"
| "split_once_str p (c # s) = (if starts_with (c # s) p then Some ([], drop (length p) (c # s))
     else map_option (\<lambda>(a, b). (c # a, b)) (split_once_str p s))"

definition rsplit_once_str :: "string \<Rightarrow> string \<Rightarrow> (string \<times> string) option" where
  "rsplit_once_str p s = map_option (\<lambda>(a, b). (rev b, rev a)) (split_once_str (rev p) (rev s))"

text \<open>\<open>str::parse::<Ipv4Addr>\<close> succeeds: four decimal octets without leading zeros.\<close>

definition is_ipv4 :: "string \<Rightarrow> bool" where
  "is_ipv4 s \<longleftrightarrow> length (split_on CHR ''.'' s) = 4 \<and> list_all (\<lambda>d. d \<noteq> [] \<and> length d \<le> 3 \<and> list_all is_ascii_digit d
     \<and> digits_value d \<le> 255 \<and> (length d = 1 \<or> hd d \<noteq> CHR ''0'')) (split_on CHR ''.'' s)"

text \<open>A text that parses as an IPv6 address has a colon, which the alphabet refuses.\<close>

definition is_public_domain :: "string \<Rightarrow> bool" where
  "is_public_domain full = (let d = (case strip_prefix ''*.'' full of Some r \<Rightarrow> r | None \<Rightarrow> full) in
     d \<noteq> [] \<and> length d \<le> 253 \<and> CHR ''.'' \<in> set d \<and> \<not> is_ipv4 d
     \<and> list_all (\<lambda>c. is_ascii_alnum c \<or> c = CHR ''.'' \<or> c = CHR ''-'') d
     \<and> \<not> list_ex (\<lambda>p. p = [] \<or> starts_with p ''-'' \<or> ends_with p ''-'') (split_on CHR ''.'' d))"

fun network_validate :: "network_policy \<Rightarrow> sandbox_error + unit" where
  "network_validate DenyAll = Inr ()"
| "network_validate (PublicWeb ds) =
     (if ds = [] \<or> length ds > MAX_ALLOWED_DOMAINS then Inl SbInvalidNetworkPolicy
      else if list_ex (\<lambda>d. \<not> is_public_domain d) ds then Inl SbInvalidNetworkPolicy else Inr ())"

definition limits_of :: "nat \<Rightarrow> nat \<Rightarrow> nat \<Rightarrow> nat \<Rightarrow> nat \<Rightarrow> nat \<Rightarrow> resource_limits" where
  "limits_of cpu mem disk ps secs outb = \<lparr>rl_cpu_millis = cpu, rl_memory_mib = mem, rl_disk_mib = disk, rl_pids = ps,
     rl_max_runtime_secs = secs, rl_max_output_bytes = outb\<rparr>"

fun profile_limits :: "sandbox_profile \<Rightarrow> resource_limits" where
  "profile_limits PResearch = limits_of 500 512 512 64 (5 * 60) (256 * 1024)"
| "profile_limits PCoding = limits_of 1500 2048 4096 128 (15 * 60) (512 * 1024)"
| "profile_limits PCodex = limits_of 1500 2048 4096 128 (15 * 60) (512 * 1024)"
| "profile_limits PBrowser = limits_of 1000 2048 2048 128 (10 * 60) (256 * 1024)"
| "profile_limits PDataAnalysis = limits_of 1000 1024 1024 64 (10 * 60) (256 * 1024)"

definition code_domains :: "string list" where
  "code_domains = [''github.com'', ''*.github.com'', ''crates.io'', ''*.crates.io'', ''registry.npmjs.org'', ''pypi.org'',
     ''files.pythonhosted.org'']"

fun profile_network_policy :: "sandbox_profile \<Rightarrow> network_policy" where
  "profile_network_policy PDataAnalysis = DenyAll"
| "profile_network_policy PResearch = PublicWeb [''*.wikipedia.org'', ''*.arxiv.org'']"
| "profile_network_policy PCoding = PublicWeb code_domains"
| "profile_network_policy PCodex = PublicWeb code_domains"
| "profile_network_policy PBrowser = PublicWeb [''*.google.com'', ''*.googleusercontent.com'']"

section \<open>Tasks, inputs and artifacts\<close>

record sandbox_task =
  sk_task_id :: string
  sk_codex_session_id :: "string option"
  sk_profile :: sandbox_profile
  sk_command :: "string list"
  sk_network_policy :: network_policy

definition validate_command :: "string list \<Rightarrow> sandbox_error + unit" where
  "validate_command cmd =
     (if cmd = [] \<or> length cmd > MAX_COMMAND_ARGS \<or> list_ex (\<lambda>a. a = [] \<or> length a > MAX_COMMAND_ARG_BYTES) cmd
      then Inl SbInvalidTask else Inr ())"

text \<open>The same test is written out in \<open>SandboxTask::new\<close>; \<open>i\<close> is the fresh identifier.\<close>

definition sandbox_task_new :: "string \<Rightarrow> sandbox_profile \<Rightarrow> string list \<Rightarrow> sandbox_error + sandbox_task" where
  "sandbox_task_new i prof cmd =
     (case validate_command cmd of
        Inl e \<Rightarrow> Inl e
      | Inr _ \<Rightarrow> (case network_validate (profile_network_policy prof) of
          Inl e \<Rightarrow> Inl e
        | Inr _ \<Rightarrow> Inr \<lparr>sk_task_id = i, sk_codex_session_id = None, sk_profile = prof, sk_command = cmd,
                     sk_network_policy = profile_network_policy prof\<rparr>))"

definition task_policy_decision :: "bool \<Rightarrow> policy_decision" where
  "task_policy_decision trusted = decide \<lparr>capability = ExecuteCode, risk = Mutating, trusted_device = trusted,
     approved = False, reversible = False\<rparr>"

record sandbox_handle =
  sh_provider_id :: string
  sh_task_id :: string
  sh_profile :: sandbox_profile

record owned_codex_sandbox =
  oc_handle :: sandbox_handle
  oc_session_id :: string

record artifact =
  ar_path :: string
  ar_bytes :: nat

record collected_artifact =
  co_path :: string
  co_contents :: string

record task_input =
  in_name :: string
  in_bytes :: string

record execution_result =
  ex_exit_code :: "int option"
  ex_timed_out :: bool
  ex_stdout :: string
  ex_stderr :: string
  ex_duration_ms :: nat

definition is_safe_relative_path :: "string \<Rightarrow> bool" where
  "is_safe_relative_path p \<longleftrightarrow> p \<noteq> [] \<and> \<not> starts_with p ''/'' \<and> CHR 0x5C \<notin> set p
     \<and> \<not> list_ex (\<lambda>x. x = [] \<or> x = ''.'' \<or> x = ''..'') (split_on CHR ''/'' p) \<and> CHR 0x00 \<notin> set p"

definition input_validate :: "task_input \<Rightarrow> sandbox_error + unit" where
  "input_validate x = (if length (in_bytes x) > MAX_INPUT_BYTES \<or> \<not> is_safe_relative_path (in_name x)
     then Inl SbInvalidInput else Inr ())"

definition validate_artifacts :: "artifact list \<Rightarrow> sandbox_error + unit" where
  "validate_artifacts xs =
     (if length xs > MAX_ARTIFACTS then Inl SbInvalidArtifact
      else if list_ex (\<lambda>a. ar_bytes a > MAX_ARTIFACT_BYTES \<or> \<not> is_safe_relative_path (ar_path a)) xs
      then Inl SbInvalidArtifact else Inr ())"

definition validate_artifact_paths :: "string list \<Rightarrow> sandbox_error + unit" where
  "validate_artifact_paths ps =
     (if ps = [] \<or> length ps > MAX_ARTIFACTS \<or> list_ex (\<lambda>p. \<not> is_safe_relative_path p) ps \<or> \<not> distinct ps
      then Inl SbInvalidArtifact else Inr ())"

text \<open>Every quote inside an argument becomes quote, backslash, quote, quote.\<close>

definition quote_char :: "char \<Rightarrow> string" where
  "quote_char c = (if c = CHR 0x27 then [CHR 0x27, CHR 0x5C, CHR 0x27, CHR 0x27] else [c])"

definition quote_argument :: "string \<Rightarrow> string" where
  "quote_argument a = CHR 0x27 # concat (map quote_char a) @ [CHR 0x27]"

fun join_words :: "string list \<Rightarrow> string" where
  "join_words [] = []"
| "join_words [w] = w"
| "join_words (w # v # ws) = w @ CHR '' '' # join_words (v # ws)"

definition shell_quote_command :: "string list \<Rightarrow> string" where
  "shell_quote_command cmd = join_words (map quote_argument cmd)"

section \<open>The configuration\<close>

record sandbox_url = url +
  url_query :: "string option"
  url_path :: string

definition validate_loopback_endpoint :: "(string \<Rightarrow> sandbox_url option) \<Rightarrow> string \<Rightarrow> sandbox_error + sandbox_url" where
  "validate_loopback_endpoint parse v = (case parse v of
     None \<Rightarrow> Inl SbInvalidConfiguration
   | Some u \<Rightarrow>
       if scheme u \<noteq> ''http'' \<or> port u = None \<or> username u \<noteq> [] \<or> password u \<noteq> None \<or> url_query u \<noteq> None
          \<or> fragment u \<noteq> None \<or> url_path u \<noteq> ''/'' \<or> host_str u \<notin> {Some ''127.0.0.1'', Some ''::1''}
       then Inl SbInvalidConfiguration else Inr u)"

definition is_digest_pinned_image :: "string \<Rightarrow> bool" where
  "is_digest_pinned_image img = (case rsplit_once_str ''@sha256:'' img of
     None \<Rightarrow> False
   | Some (_, digest) \<Rightarrow> length img > length ''@sha256:'' + 64 \<and> length digest = 64
       \<and> list_all (\<lambda>c. is_ascii_digit c \<or> (97 \<le> byte c \<and> byte c \<le> 102)) digest)"

definition is_safe_provider_id :: "string \<Rightarrow> bool" where
  "is_safe_provider_id i \<longleftrightarrow> i \<noteq> [] \<and> length i \<le> 128 \<and> list_all (\<lambda>c. is_ascii_alnum c \<or> c = CHR ''-'' \<or> c = CHR ''_'') i"

record open_sandbox_images =
  im_research :: string
  im_coding :: string
  im_browser :: string
  im_data_analysis :: string
  im_codex :: string

fun image_for_profile :: "open_sandbox_images \<Rightarrow> sandbox_profile \<Rightarrow> string" where
  "image_for_profile m PResearch = im_research m"
| "image_for_profile m PCoding = im_coding m"
| "image_for_profile m PBrowser = im_browser m"
| "image_for_profile m PDataAnalysis = im_data_analysis m"
| "image_for_profile m PCodex = im_codex m"

definition images_validate :: "open_sandbox_images \<Rightarrow> bool" where
  "images_validate m \<longleftrightarrow> list_all is_digest_pinned_image
     [im_research m, im_coding m, im_browser m, im_data_analysis m, im_codex m]"

record open_sandbox_provider =
  sp_endpoint :: sandbox_url
  sp_api_key :: string
  sp_images :: open_sandbox_images
  sp_codex_only :: bool

text \<open>\<open>client_ok\<close>: the HTTP client could be built.\<close>

definition for_home_node :: "(string \<Rightarrow> sandbox_url option) \<Rightarrow> bool \<Rightarrow> string \<Rightarrow> string \<Rightarrow> open_sandbox_images
    \<Rightarrow> sandbox_error + open_sandbox_provider" where
  "for_home_node parse client_ok ep key images =
     (case validate_loopback_endpoint parse ep of
        Inl e \<Rightarrow> Inl e
      | Inr u \<Rightarrow> if trim_is_empty key \<or> \<not> images_validate images then Inl SbInvalidConfiguration
                 else if \<not> client_ok then Inl SbInvalidConfiguration
                 else Inr \<lparr>sp_endpoint = u, sp_api_key = key, sp_images = images, sp_codex_only = False\<rparr>)"

definition for_codex_broker :: "(string \<Rightarrow> sandbox_url option) \<Rightarrow> bool \<Rightarrow> string \<Rightarrow> string \<Rightarrow> string
    \<Rightarrow> sandbox_error + open_sandbox_provider" where
  "for_codex_broker parse client_ok ep key digest =
     (case for_home_node parse client_ok ep key \<lparr>im_research = digest, im_coding = digest, im_browser = digest,
        im_data_analysis = digest, im_codex = digest\<rparr> of
        Inl e \<Rightarrow> Inl e | Inr p \<Rightarrow> Inr (p\<lparr>sp_codex_only := True\<rparr>))"

section \<open>The manager\<close>

datatype jvalue = JNull | JBool bool | JInt int | JFloat string | JStr string | JArr "jvalue list"
| JObj "(string \<times> jvalue) list"

fun jget :: "string \<Rightarrow> jvalue \<Rightarrow> jvalue option" where
  "jget k (JObj fs) = map_of fs k"
| "jget k _ = None"

fun as_str :: "jvalue \<Rightarrow> string option" where
  "as_str (JStr s) = Some s"
| "as_str _ = None"

fun as_array :: "jvalue \<Rightarrow> jvalue list option" where
  "as_array (JArr vs) = Some vs"
| "as_array _ = None"

fun as_bool :: "jvalue \<Rightarrow> bool option" where
  "as_bool (JBool b) = Some b"
| "as_bool _ = None"

fun is_object :: "jvalue \<Rightarrow> bool" where
  "is_object (JObj _) = True"
| "is_object _ = False"

fun as_u64 :: "jvalue \<Rightarrow> nat option" where
  "as_u64 (JInt i) = (if 0 \<le> i \<and> i \<le> int u64_max then Some (nat i) else None)"
| "as_u64 _ = None"

fun as_i64 :: "jvalue \<Rightarrow> int option" where
  "as_i64 (JInt i) = (if - (2 ^ 63) \<le> i \<and> i < 2 ^ 63 then Some i else None)"
| "as_i64 _ = None"

definition jstr :: "string \<Rightarrow> jvalue \<Rightarrow> string option" where
  "jstr k v = Option.bind (jget k v) as_str"

datatype http_verb = GET | POST | DELETE

datatype http_body = NoBody | JsonBody jvalue | FormBody jvalue string

record manager_request =
  mr_verb :: http_verb
  mr_url :: sandbox_url
  mr_query :: "(string \<times> string) list"
  mr_body :: http_body
  mr_key :: "string option"

record 'm manager =
  m_send :: "manager_request \<Rightarrow> 'm \<Rightarrow> response option \<times> 'm"
  m_join :: "sandbox_url \<Rightarrow> string \<Rightarrow> sandbox_url option"
  m_json :: "string \<Rightarrow> jvalue option"

type_synonym ('m, 'a) sandbox_call = "'m \<Rightarrow> (sandbox_error + 'a) \<times> 'm"

definition bind_sb :: "('m, 'a) sandbox_call \<Rightarrow> ('a \<Rightarrow> ('m, 'b) sandbox_call) \<Rightarrow> ('m, 'b) sandbox_call" where
  "bind_sb f g s = (case f s of (Inl e, s') \<Rightarrow> (Inl e, s') | (Inr x, s') \<Rightarrow> g x s')"

definition ret_sb :: "sandbox_error + 'a \<Rightarrow> ('m, 'a) sandbox_call" where
  "ret_sb r s = (r, s)"

fun sb_some :: "sandbox_error \<Rightarrow> 'a option \<Rightarrow> sandbox_error + 'a" where
  "sb_some e (Some x) = Inr x"
| "sb_some e None = Inl e"

definition endpoint :: "'m manager \<Rightarrow> open_sandbox_provider \<Rightarrow> string \<Rightarrow> sandbox_error + sandbox_url" where
  "endpoint M p pth = sb_some SbInvalidConfiguration (m_join M (sp_endpoint p) pth)"

definition authenticated_request :: "open_sandbox_provider \<Rightarrow> http_verb \<Rightarrow> sandbox_url \<Rightarrow> (string \<times> string) list \<Rightarrow> http_body
    \<Rightarrow> manager_request" where
  "authenticated_request p v u q b = \<lparr>mr_verb = v, mr_url = u, mr_query = q, mr_body = b, mr_key = Some (sp_api_key p)\<rparr>"

definition proxy_endpoint :: "'m manager \<Rightarrow> open_sandbox_provider \<Rightarrow> sandbox_handle \<Rightarrow> string \<Rightarrow> sandbox_error + sandbox_url" where
  "proxy_endpoint M p h pth =
     (if \<not> is_safe_provider_id (sh_provider_id h) \<or> \<not> starts_with pth ''/'' \<or> contains_str pth ''..''
      then Inl SbInvalidProviderResponse
      else endpoint M p (''v1/sandboxes/'' @ sh_provider_id h @ ''/proxy/'' @ show_nat SANDBOX_EXECD_PORT @ pth))"

text \<open>\<open>error_for_status\<close> refuses the statuses 400 to 599 only.\<close>

definition error_for_status :: "response \<Rightarrow> sandbox_error + response" where
  "error_for_status r = (if 400 \<le> status r \<and> status r < 600 then Inl SbProviderRequestFailed else Inr r)"

definition send_request :: "'m manager \<Rightarrow> manager_request \<Rightarrow> ('m, response) sandbox_call" where
  "send_request M q s = (case m_send M q s of (None, s') \<Rightarrow> (Inl SbUnavailable, s') | (Some r, s') \<Rightarrow> (Inr r, s'))"

definition request_success :: "'m manager \<Rightarrow> manager_request \<Rightarrow> ('m, response) sandbox_call" where
  "request_success M q = bind_sb (send_request M q) (\<lambda>r. ret_sb (error_for_status r))"

text \<open>\<open>response.json()\<close>: the whole body, then the parser.\<close>

definition response_json :: "'m manager \<Rightarrow> response \<Rightarrow> sandbox_error + jvalue" where
  "response_json M r = (if None \<in> set (chunks r) then Inl SbInvalidProviderResponse
     else sb_some SbInvalidProviderResponse (m_json M (concat (map the (chunks r)))))"

definition request_json :: "'m manager \<Rightarrow> manager_request \<Rightarrow> ('m, jvalue) sandbox_call" where
  "request_json M q = bind_sb (request_success M q) (\<lambda>r. ret_sb (response_json M r))"

section \<open>Discovery and termination\<close>

definition owned_item :: "crypto \<Rightarrow> jvalue \<Rightarrow> sandbox_error + owned_codex_sandbox option" where
  "owned_item c item =
     (case jget ''metadata'' item of
        Some md \<Rightarrow>
          if \<not> is_object md then Inl SbInvalidProviderResponse
          else if jstr ''jarvis.profile'' md \<noteq> Some ''codex'' then Inr None
          else (case (jstr ''id'' item, Option.bind (jstr ''jarvis.run_id'' md) (uuid_parse_str c),
                      Option.bind (jstr ''jarvis.session_id'' md) (uuid_parse_str c)) of
              (Some i, Some run, Some session) \<Rightarrow>
                if \<not> is_safe_provider_id i then Inl SbInvalidProviderResponse
                else Inr (Some \<lparr>oc_handle = \<lparr>sh_provider_id = i, sh_task_id = run, sh_profile = PCodex\<rparr>,
                                oc_session_id = session\<rparr>)
            | _ \<Rightarrow> Inl SbInvalidProviderResponse)
      | None \<Rightarrow> Inl SbInvalidProviderResponse)"

fun owned_items :: "crypto \<Rightarrow> jvalue list \<Rightarrow> sandbox_error + owned_codex_sandbox list" where
  "owned_items c [] = Inr []"
| "owned_items c (v # vs) = (case owned_item c v of
     Inl e \<Rightarrow> Inl e
   | Inr x \<Rightarrow> (case owned_items c vs of
       Inl e \<Rightarrow> Inl e
     | Inr xs \<Rightarrow> Inr (case x of None \<Rightarrow> xs | Some w \<Rightarrow> w # xs)))"

text \<open>One page: its items and whether another follows.\<close>

definition read_page :: "crypto \<Rightarrow> jvalue \<Rightarrow> sandbox_error + owned_codex_sandbox list \<times> bool" where
  "read_page c body =
     (case Option.bind (jget ''items'' body) as_array of
        None \<Rightarrow> Inl SbInvalidProviderResponse
      | Some items \<Rightarrow>
          if length items > 100 then Inl SbInvalidProviderResponse
          else (case owned_items c items of
             Inl e \<Rightarrow> Inl e
           | Inr xs \<Rightarrow>
               (case Option.bind (Option.bind (jget ''pagination'' body) (jget ''hasNextPage'')) as_bool of
                  None \<Rightarrow> Inl SbInvalidProviderResponse
                | Some nxt \<Rightarrow> Inr (xs, nxt))))"

definition page_request :: "open_sandbox_provider \<Rightarrow> sandbox_url \<Rightarrow> nat \<Rightarrow> manager_request" where
  "page_request p u n = authenticated_request p GET u
     [(''metadata'', ''jarvis.profile=codex''), (''page'', show_nat n), (''pageSize'', ''100'')] NoBody"

fun discover_pages :: "crypto \<Rightarrow> 'm manager \<Rightarrow> open_sandbox_provider \<Rightarrow> sandbox_url \<Rightarrow> nat list
    \<Rightarrow> owned_codex_sandbox list \<Rightarrow> ('m, owned_codex_sandbox list) sandbox_call" where
  "discover_pages c M p u [] owned s = (Inl SbOutputLimitExceeded, s)"
| "discover_pages c M p u (n # ns) owned s =
     (case request_json M (page_request p u n) s of
        (Inl e, s') \<Rightarrow> (Inl e, s')
      | (Inr body, s') \<Rightarrow>
          (case read_page c body of
             Inl e \<Rightarrow> (Inl e, s')
           | Inr (xs, nxt) \<Rightarrow> if \<not> nxt then (Inr (owned @ xs), s') else discover_pages c M p u ns (owned @ xs) s'))"

definition list_owned_codex :: "crypto \<Rightarrow> 'm manager \<Rightarrow> open_sandbox_provider \<Rightarrow> ('m, owned_codex_sandbox list) sandbox_call" where
  "list_owned_codex c M p s =
     (if \<not> sp_codex_only p then (Inl SbUnsupported, s)
      else case endpoint M p ''v1/sandboxes'' of
        Inl e \<Rightarrow> (Inl e, s)
      | Inr u \<Rightarrow> discover_pages c M p u [1..<11] [] s)"

definition same_workload :: "sandbox_handle \<Rightarrow> owned_codex_sandbox \<Rightarrow> bool" where
  "same_workload h x \<longleftrightarrow> sh_provider_id (oc_handle x) = sh_provider_id h \<or> sh_task_id (oc_handle x) = sh_task_id h"

text \<open>The listing is read up to three times, with a pause in between.\<close>

fun confirm_gone :: "crypto \<Rightarrow> 'm manager \<Rightarrow> open_sandbox_provider \<Rightarrow> sandbox_handle \<Rightarrow> nat \<Rightarrow> ('m, unit) sandbox_call" where
  "confirm_gone c M p h 0 s = (Inl SbProviderRequestFailed, s)"
| "confirm_gone c M p h (Suc n) s =
     (case list_owned_codex c M p s of
        (Inl e, s') \<Rightarrow> (Inl e, s')
      | (Inr owned, s') \<Rightarrow> if \<not> list_ex (same_workload h) owned then (Inr (), s') else confirm_gone c M p h n s')"

definition sb_terminate :: "crypto \<Rightarrow> 'm manager \<Rightarrow> open_sandbox_provider \<Rightarrow> sandbox_handle \<Rightarrow> ('m, unit) sandbox_call" where
  "sb_terminate c M p h = bind_sb (ret_sb (endpoint M p (''v1/sandboxes/'' @ sh_provider_id h))) (\<lambda>u.
     bind_sb (send_request M (authenticated_request p DELETE u [] NoBody)) (\<lambda>r.
       if \<not> is_success (status r) \<and> \<not> (sp_codex_only p \<and> status r = 404) then ret_sb (Inl SbProviderRequestFailed)
       else if sp_codex_only p then confirm_gone c M p h 3 else ret_sb (Inr ())))"

definition terminate_after_failure :: "crypto \<Rightarrow> 'm manager \<Rightarrow> open_sandbox_provider \<Rightarrow> sandbox_handle \<Rightarrow> 'm \<Rightarrow> 'm" where
  "terminate_after_failure c M p h s = snd (sb_terminate c M p h s)"

definition or_terminate :: "crypto \<Rightarrow> 'm manager \<Rightarrow> open_sandbox_provider \<Rightarrow> sandbox_handle
    \<Rightarrow> ('m, 'a) sandbox_call \<Rightarrow> ('m, 'a) sandbox_call" where
  "or_terminate c M p h f s = (case f s of
     (Inl e, s') \<Rightarrow> (Inl e, terminate_after_failure c M p h s') | (Inr x, s') \<Rightarrow> (Inr x, s'))"

section \<open>The other requests\<close>

definition sb_availability :: "'m manager \<Rightarrow> open_sandbox_provider \<Rightarrow> 'm \<Rightarrow> bool \<times> 'm" where
  "sb_availability M p s = (case endpoint M p ''health'' of
     Inl _ \<Rightarrow> (False, s)
   | Inr u \<Rightarrow> (case m_send M \<lparr>mr_verb = GET, mr_url = u, mr_query = [], mr_body = NoBody, mr_key = None\<rparr> s of
       (Some r, s') \<Rightarrow> (is_success (status r), s') | (None, s') \<Rightarrow> (False, s')))"

fun profile_name :: "sandbox_profile \<Rightarrow> string" where
  "profile_name PResearch = ''research''"
| "profile_name PCoding = ''coding''"
| "profile_name PBrowser = ''browser''"
| "profile_name PDataAnalysis = ''data_analysis''"
| "profile_name PCodex = ''codex''"

fun opensandbox_network_policy :: "network_policy \<Rightarrow> jvalue" where
  "opensandbox_network_policy DenyAll = JObj [(''defaultAction'', JStr ''deny''), (''egress'', JArr [])]"
| "opensandbox_network_policy (PublicWeb ds) = JObj [(''defaultAction'', JStr ''deny''),
     (''egress'', JArr (map (\<lambda>d. JObj [(''action'', JStr ''allow''), (''target'', JStr d)]) ds))]"

definition payload_metadata :: "crypto \<Rightarrow> sandbox_task \<Rightarrow> jvalue" where
  "payload_metadata c t = JObj ([(''jarvis.task_id'', JStr (uuid_hyphenated c (sk_task_id t))),
     (''jarvis.profile'', JStr (profile_name (sk_profile t)))]
     @ (if sk_profile t = PCodex then (''jarvis.run_id'', JStr (uuid_hyphenated c (sk_task_id t)))
          # (case sk_codex_session_id t of None \<Rightarrow> []
             | Some i \<Rightarrow> [(''jarvis.session_id'', JStr (uuid_hyphenated c i))]) else []))"

definition opensandbox_create_payload :: "crypto \<Rightarrow> sandbox_task \<Rightarrow> open_sandbox_images \<Rightarrow> jvalue" where
  "opensandbox_create_payload c t images = (let l = profile_limits (sk_profile t) in
     JObj [(''image'', JObj [(''uri'', JStr (image_for_profile images (sk_profile t)))]),
       (''entrypoint'', JArr [JStr ''tail'', JStr ''-f'', JStr ''/dev/null'']),
       (''timeout'', JInt (int (rl_max_runtime_secs l))),
       (''resourceLimits'', JObj [(''cpu'', JStr (show_nat (rl_cpu_millis l) @ ''m'')),
          (''memory'', JStr (show_nat (rl_memory_mib l) @ ''Mi''))]),
       (''networkPolicy'', opensandbox_network_policy (sk_network_policy t)),
       (''metadata'', payload_metadata c t)])"

definition sb_create :: "crypto \<Rightarrow> 'm manager \<Rightarrow> open_sandbox_provider \<Rightarrow> sandbox_task \<Rightarrow> ('m, sandbox_handle) sandbox_call" where
  "sb_create c M p t =
     (if sp_codex_only p \<and> (sk_profile t \<noteq> PCodex \<or> sk_codex_session_id t = None) then ret_sb (Inl SbInvalidTask)
      else bind_sb (ret_sb (network_validate (sk_network_policy t))) (\<lambda>_.
        bind_sb (ret_sb (endpoint M p ''v1/sandboxes'')) (\<lambda>u.
        bind_sb (request_json M (authenticated_request p POST u [] (JsonBody (opensandbox_create_payload c t (sp_images p))))) (\<lambda>body.
          ret_sb (case jstr ''id'' body of
            None \<Rightarrow> Inl SbInvalidProviderResponse
          | Some i \<Rightarrow> if \<not> is_safe_provider_id i then Inl SbInvalidProviderResponse
              else Inr \<lparr>sh_provider_id = i, sh_task_id = sk_task_id t, sh_profile = sk_profile t\<rparr>)))))"

definition sb_upload :: "crypto \<Rightarrow> 'm manager \<Rightarrow> open_sandbox_provider \<Rightarrow> sandbox_handle \<Rightarrow> task_input \<Rightarrow> ('m, unit) sandbox_call" where
  "sb_upload c M p h x = bind_sb (ret_sb (input_validate x)) (\<lambda>_.
     bind_sb (ret_sb (proxy_endpoint M p h ''/files/upload'')) (\<lambda>u.
     bind_sb (or_terminate c M p h (request_success M (authenticated_request p POST u [] (FormBody
         (JObj [(''path'', JStr (SANDBOX_INPUT_DIR @ ''/'' @ in_name x))]) (in_bytes x))))) (\<lambda>_. ret_sb (Inr ()))))"

definition sb_set_network_policy :: "sandbox_handle \<Rightarrow> network_policy \<Rightarrow> sandbox_error + unit" where
  "sb_set_network_policy h pol =
     (if pol \<noteq> profile_network_policy (sh_profile h) then Inl SbInvalidNetworkPolicy else Inr ())"

section \<open>Running a command\<close>

record sse_execution =
  se_command_id :: "string option"
  se_stdout :: string
  se_stderr :: string
  se_duration_ms :: nat
  se_completed :: bool

definition sse_default :: sse_execution where
  "sse_default = \<lparr>se_command_id = None, se_stdout = [], se_stderr = [], se_duration_ms = 0, se_completed = False\<rparr>"

definition append_bounded :: "nat \<Rightarrow> string \<Rightarrow> string \<Rightarrow> sandbox_error + string" where
  "append_bounded bound dst v = (if sat_add u64_max (length dst) (length v) > bound then Inl SbOutputLimitExceeded
     else Inr (dst @ v))"

definition append_stderr :: "nat \<Rightarrow> string \<Rightarrow> sse_execution \<Rightarrow> sandbox_error + sse_execution" where
  "append_stderr bound v x = (case append_bounded bound (se_stderr x) v of
     Inl e \<Rightarrow> Inl e | Inr t \<Rightarrow> Inr (x\<lparr>se_stderr := t\<rparr>))"

definition text_of :: "jvalue \<Rightarrow> string" where
  "text_of v = (case jstr ''text'' v of Some t \<Rightarrow> t | None \<Rightarrow> [])"

definition consume_sse_event :: "(string \<Rightarrow> jvalue option) \<Rightarrow> nat \<Rightarrow> string \<Rightarrow> sse_execution \<Rightarrow> sandbox_error + sse_execution" where
  "consume_sse_event parse bound data x =
     (case parse data of
        None \<Rightarrow> Inl SbInvalidProviderResponse
      | Some v \<Rightarrow>
          (case jstr ''type'' v of
             None \<Rightarrow> Inl SbInvalidProviderResponse
           | Some ty \<Rightarrow>
               if ty = ''init'' then (case jstr ''text'' v of
                   None \<Rightarrow> Inl SbInvalidProviderResponse
                 | Some i \<Rightarrow> if is_safe_provider_id i then Inr (x\<lparr>se_command_id := Some i\<rparr>)
                             else Inl SbInvalidProviderResponse)
               else if ty = ''stdout'' then (case append_bounded bound (se_stdout x) (text_of v) of
                   Inl e \<Rightarrow> Inl e | Inr t \<Rightarrow> Inr (x\<lparr>se_stdout := t\<rparr>))
               else if ty = ''stderr'' then append_stderr bound (text_of v) x
               else if ty = ''error'' then append_stderr bound
                   (case Option.bind (jget ''error'' v) (jstr ''evalue'') of Some t \<Rightarrow> t | None \<Rightarrow> ''sandbox command failed'') x
               else if ty = ''execution_complete'' then (case Option.bind (jget ''execution_time'' v) as_u64 of
                   None \<Rightarrow> Inl SbInvalidProviderResponse
                 | Some n \<Rightarrow> Inr (x\<lparr>se_duration_ms := n, se_completed := True\<rparr>))
               else if ty \<in> {''status'', ''result'', ''execution_count'', ''ping''} then Inr x
               else Inl SbInvalidProviderResponse))"

definition trim_cr :: "string \<Rightarrow> string" where
  "trim_cr l = rev (dropWhile (\<lambda>c. c = CHR 0x0D) (rev l))"

definition consume_line :: "(string \<Rightarrow> jvalue option) \<Rightarrow> nat \<Rightarrow> string \<Rightarrow> sse_execution \<Rightarrow> sandbox_error + sse_execution" where
  "consume_line parse bound l x = (case strip_prefix ''data:'' (trim_cr l) of
     None \<Rightarrow> Inr x | Some d \<Rightarrow> consume_sse_event parse bound (trim_start d) x)"

text \<open>The whole lines at the front of the pending text; what follows the last newline stays pending.\<close>

fun consume_lines :: "(string \<Rightarrow> jvalue option) \<Rightarrow> nat \<Rightarrow> string list \<Rightarrow> sse_execution \<Rightarrow> sandbox_error + string \<times> sse_execution" where
  "consume_lines parse bound [] x = Inr ([], x)"
| "consume_lines parse bound [l] x = Inr (l, x)"
| "consume_lines parse bound (l # l' # ls) x = (case consume_line parse bound l x of
     Inl e \<Rightarrow> Inl e | Inr y \<Rightarrow> consume_lines parse bound (l' # ls) y)"

fun consume_chunks :: "(string \<Rightarrow> jvalue option) \<Rightarrow> nat \<Rightarrow> char list option list \<Rightarrow> nat \<Rightarrow> string \<Rightarrow> sse_execution
    \<Rightarrow> sandbox_error + sse_execution" where
  "consume_chunks parse bound [] wire pending x =
     (if \<not> trim_is_empty pending then Inl SbInvalidProviderResponse else Inr x)"
| "consume_chunks parse bound (None # cs) wire pending x = Inl SbProviderRequestFailed"
| "consume_chunks parse bound (Some ch # cs) wire pending x =
     (let wire' = sat_add u64_max wire (length ch) in
      if wire' > sat_add u64_max bound (64 * 1024) then Inl SbOutputLimitExceeded
      else if \<not> utf8_valid (map byte ch) then Inl SbInvalidProviderResponse
      else case consume_lines parse bound (split_on CHR 0x0A (pending @ ch)) x of
        Inl e \<Rightarrow> Inl e
      | Inr (rest, y) \<Rightarrow> consume_chunks parse bound cs wire' rest y)"

definition consume_sse_response :: "'m manager \<Rightarrow> response \<Rightarrow> nat \<Rightarrow> sandbox_error + sse_execution" where
  "consume_sse_response M r bound = consume_chunks (m_json M) bound (chunks r) 0 [] sse_default"

definition to_i32 :: "int \<Rightarrow> int option" where
  "to_i32 i = (if - (2 ^ 31) \<le> i \<and> i < 2 ^ 31 then Some i else None)"

definition execution_of :: "sse_execution \<Rightarrow> jvalue \<Rightarrow> sandbox_error + execution_result" where
  "execution_of x v =
     (let code = Option.bind (jget ''exit_code'' v) as_i64;
          late = (case jstr ''error'' v of None \<Rightarrow> False | Some e \<Rightarrow> contains_str (to_ascii_lowercase e) ''timeout'') in
      if (case code of None \<Rightarrow> False | Some i \<Rightarrow> to_i32 i = None) then Inl SbInvalidProviderResponse
      else Inr \<lparr>ex_exit_code = code, ex_timed_out = late, ex_stdout = se_stdout x, ex_stderr = se_stderr x,
             ex_duration_ms = se_duration_ms x\<rparr>)"

definition command_body :: "sandbox_handle \<Rightarrow> string list \<Rightarrow> jvalue" where
  "command_body h cmd = JObj [(''command'', JStr (shell_quote_command cmd)), (''cwd'', JStr SANDBOX_WORKSPACE),
     (''background'', JBool False),
     (''timeout'', JInt (int (rl_max_runtime_secs (profile_limits (sh_profile h)) * 1000)))]"

text \<open>A failed request or stream, and a stream without completion, end the sandbox at once.\<close>

definition sb_exec :: "crypto \<Rightarrow> 'm manager \<Rightarrow> open_sandbox_provider \<Rightarrow> sandbox_handle \<Rightarrow> string list
    \<Rightarrow> ('m, execution_result) sandbox_call" where
  "sb_exec c M p h cmd = bind_sb (ret_sb (validate_command cmd)) (\<lambda>_.
     bind_sb (ret_sb (proxy_endpoint M p h ''/command'')) (\<lambda>u.
     bind_sb (or_terminate c M p h
       (bind_sb (request_success M (authenticated_request p POST u [] (JsonBody (command_body h cmd)))) (\<lambda>r.
        bind_sb (ret_sb (consume_sse_response M r (rl_max_output_bytes (profile_limits (sh_profile h))))) (\<lambda>x.
          if \<not> se_completed x then ret_sb (Inl SbInvalidProviderResponse) else ret_sb (Inr x))))) (\<lambda>x.
     bind_sb (ret_sb (sb_some SbInvalidProviderResponse (se_command_id x))) (\<lambda>i.
     bind_sb (ret_sb (proxy_endpoint M p h (''/command/status/'' @ i))) (\<lambda>v.
     bind_sb (request_json M (authenticated_request p GET v [] NoBody)) (\<lambda>st.
       ret_sb (execution_of x st)))))))"

section \<open>Files out of the sandbox\<close>

fun bounded_bytes :: "nat \<Rightarrow> string \<Rightarrow> char list option list \<Rightarrow> sandbox_error + string" where
  "bounded_bytes bound bytes [] = Inr bytes"
| "bounded_bytes bound bytes (None # cs) = Inl SbProviderRequestFailed"
| "bounded_bytes bound bytes (Some ch # cs) =
     (if sat_add u64_max (length bytes) (length ch) > bound then Inl SbInvalidArtifact
      else bounded_bytes bound (bytes @ ch) cs)"

definition bounded_response_bytes :: "response \<Rightarrow> nat \<Rightarrow> sandbox_error + string" where
  "bounded_response_bytes r bound = bounded_bytes bound [] (chunks r)"

definition file_ok :: "nat \<Rightarrow> jvalue \<Rightarrow> bool" where
  "file_ok bound f \<longleftrightarrow> jstr ''type'' f = Some ''file''
     \<and> (case Option.bind (jget ''size'' f) as_u64 of None \<Rightarrow> False | Some n \<Rightarrow> n \<le> bound)"

definition collect_one :: "'m manager \<Rightarrow> open_sandbox_provider \<Rightarrow> sandbox_handle \<Rightarrow> string \<Rightarrow> ('m, string) sandbox_call" where
  "collect_one M p h pth = (let full = SANDBOX_WORKSPACE @ ''/artifacts/'' @ pth in
     bind_sb (ret_sb (proxy_endpoint M p h ''/files/info'')) (\<lambda>u.
     bind_sb (request_json M (authenticated_request p GET u [(''path'', full)] NoBody)) (\<lambda>info.
     bind_sb (ret_sb (sb_some SbInvalidProviderResponse (jget full info))) (\<lambda>f.
       if \<not> file_ok MAX_ARTIFACT_BYTES f then ret_sb (Inl SbInvalidArtifact)
       else bind_sb (ret_sb (proxy_endpoint M p h ''/files/download'')) (\<lambda>v.
         bind_sb (request_success M (authenticated_request p GET v [(''path'', full)] NoBody)) (\<lambda>r.
           if (case content_length r of None \<Rightarrow> False | Some n \<Rightarrow> n > MAX_ARTIFACT_BYTES) then ret_sb (Inl SbInvalidArtifact)
           else ret_sb (bounded_response_bytes r MAX_ARTIFACT_BYTES)))))))"

fun collect_loop :: "'m manager \<Rightarrow> open_sandbox_provider \<Rightarrow> sandbox_handle \<Rightarrow> string list \<Rightarrow> nat \<Rightarrow> collected_artifact list
    \<Rightarrow> ('m, collected_artifact list) sandbox_call" where
  "collect_loop M p h [] n acc s = (Inr acc, s)"
| "collect_loop M p h (pth # ps) n acc s =
     (case collect_one M p h pth s of
        (Inl e, s') \<Rightarrow> (Inl e, s')
      | (Inr b, s') \<Rightarrow> (let n' = sat_add u64_max n (length b) in
          if n' > MAX_TOTAL_ARTIFACT_BYTES then (Inl SbInvalidArtifact, s')
          else collect_loop M p h ps n' (acc @ [\<lparr>co_path = pth, co_contents = b\<rparr>]) s'))"

definition sb_collect_artifacts :: "'m manager \<Rightarrow> open_sandbox_provider \<Rightarrow> sandbox_handle \<Rightarrow> string list
    \<Rightarrow> ('m, collected_artifact list) sandbox_call" where
  "sb_collect_artifacts M p h ps = bind_sb (ret_sb (validate_artifact_paths ps)) (\<lambda>_. collect_loop M p h ps 0 [])"

definition TASK_REQUEST_PATH :: string where "TASK_REQUEST_PATH = ''/workspace/channel/task-request.json''"
definition TASK_REQUEST_LIMIT :: nat where "TASK_REQUEST_LIMIT = 48 * 1024"

definition sb_read_codex_task_request :: "'m manager \<Rightarrow> open_sandbox_provider \<Rightarrow> sandbox_handle \<Rightarrow> ('m, string option) sandbox_call" where
  "sb_read_codex_task_request M p h =
     (if sh_profile h \<noteq> PCodex then ret_sb (Inl SbInvalidTask)
      else bind_sb (ret_sb (proxy_endpoint M p h ''/files/info'')) (\<lambda>u.
        bind_sb (send_request M (authenticated_request p GET u [(''path'', TASK_REQUEST_PATH)] NoBody)) (\<lambda>r.
          if status r = 404 then ret_sb (Inr None)
          else bind_sb (ret_sb (error_for_status r)) (\<lambda>r'.
            bind_sb (ret_sb (response_json M r')) (\<lambda>info.
              case jget TASK_REQUEST_PATH info of
                None \<Rightarrow> ret_sb (Inr None)
              | Some f \<Rightarrow>
                  if \<not> file_ok TASK_REQUEST_LIMIT f then ret_sb (Inl SbInvalidArtifact)
                  else bind_sb (ret_sb (proxy_endpoint M p h ''/files/download'')) (\<lambda>v.
                    bind_sb (request_success M (authenticated_request p GET v [(''path'', TASK_REQUEST_PATH)] NoBody)) (\<lambda>d.
                      ret_sb (map_sum id Some (bounded_response_bytes d TASK_REQUEST_LIMIT)))))))))"

definition sb_write_codex_task_response :: "crypto \<Rightarrow> 'm manager \<Rightarrow> open_sandbox_provider \<Rightarrow> sandbox_handle \<Rightarrow> string
    \<Rightarrow> ('m, unit) sandbox_call" where
  "sb_write_codex_task_response c M p h b =
     (if length b > 640 * 1024 then ret_sb (Inl SbInvalidInput)
      else sb_upload c M p h \<lparr>in_name = ''task-response.json'', in_bytes = b\<rparr>)"

section \<open>Quoting\<close>

text \<open>
  What a POSIX shell reads: words separated by blanks, with single quotes and backslashes. A character
  that may have another meaning outside quotes ends the reading with \<open>None\<close>.
\<close>

definition sh_plain :: "char \<Rightarrow> bool" where
  "sh_plain c \<longleftrightarrow> is_ascii_alnum c \<or> c \<in> set ''-_./:,@%+''"

definition sh_word :: "string option \<Rightarrow> string" where
  "sh_word w = (case w of None \<Rightarrow> [] | Some v \<Rightarrow> v)"

fun sh_scan :: "bool \<Rightarrow> string option \<Rightarrow> string \<Rightarrow> string list option" where
  "sh_scan q w [] = (if q then None else Some (case w of None \<Rightarrow> [] | Some v \<Rightarrow> [v]))"
| "sh_scan True w (c # s) = (if c = CHR 0x27 then sh_scan False w s else sh_scan True (Some (sh_word w @ [c])) s)"
| "sh_scan False w [c] =
     (if c = CHR '' '' then Some (case w of None \<Rightarrow> [] | Some v \<Rightarrow> [v])
      else if sh_plain c then Some [sh_word w @ [c]] else None)"
| "sh_scan False w (c # d # s) =
     (if c = CHR 0x27 then sh_scan True (Some (sh_word w)) (d # s)
      else if c = CHR 0x5C then (if d = CHR 0x0A then None else sh_scan False (Some (sh_word w @ [d])) s)
      else if c = CHR '' '' then (case w of None \<Rightarrow> sh_scan False None (d # s)
        | Some v \<Rightarrow> map_option (Cons v) (sh_scan False None (d # s)))
      else if sh_plain c then sh_scan False (Some (sh_word w @ [c])) (d # s) else None)"

definition shell_words :: "string \<Rightarrow> string list option" where
  "shell_words s = sh_scan False None s"

lemma sh_scan_open: "s \<noteq> [] \<Longrightarrow> sh_scan False w (CHR 0x27 # s) = sh_scan True (Some (sh_word w)) s"
  by (cases s) auto

lemma sh_scan_quoted:
  "sh_scan True (Some v) (concat (map quote_char a) @ CHR 0x27 # rest) = sh_scan False (Some (v @ a)) rest"
  by (induction a arbitrary: v) (auto simp: quote_char_def sh_word_def sh_scan_open)

lemma sh_scan_argument: "sh_scan False None (quote_argument a @ rest) = sh_scan False (Some a) rest"
  using sh_scan_quoted [of "[]" a rest] by (simp add: quote_argument_def sh_word_def sh_scan_open)

lemma sh_scan_blank: "s \<noteq> [] \<Longrightarrow> sh_scan False (Some v) (CHR '' '' # s) = map_option (Cons v) (sh_scan False None s)"
  by (cases s) auto

lemma join_words_nonempty: "join_words (map quote_argument (a # cmd)) \<noteq> []"
  by (cases cmd) (auto simp: quote_argument_def)

text \<open>
  C37. The command line sent to the sandbox is read back by a POSIX shell as exactly the arguments it was made from: no
  argument, whatever bytes it holds, can end its quotes, add a word or reach the shell's syntax.\<close>

theorem shell_quote_round_trip: "shell_words (shell_quote_command cmd) = Some cmd"
  unfolding shell_words_def shell_quote_command_def
proof (induction cmd)
  case Nil
  show ?case by simp
next
  case (Cons a cmd)
  show ?case
  proof (cases cmd)
    case Nil
    then show ?thesis using sh_scan_argument [of a "[]"] by simp
  next
    case (Cons b ws)
    then have "join_words (map quote_argument (a # cmd)) = quote_argument a @ CHR '' '' # join_words (map quote_argument cmd)"
      by simp
    then show ?thesis
      using Cons.IH join_words_nonempty [of b ws] Cons by (simp add: sh_scan_argument sh_scan_blank)
  qed
qed

section \<open>Bounds on what comes back\<close>

lemma sat_le: "sat_add u64_max a b \<le> bound \<Longrightarrow> bound < u64_max \<Longrightarrow> a + b \<le> bound"
  by (auto simp: sat_add_def min_def split: if_splits)

definition sse_bounded :: "nat \<Rightarrow> sse_execution \<Rightarrow> bool" where
  "sse_bounded bound x \<longleftrightarrow> length (se_stdout x) \<le> bound \<and> length (se_stderr x) \<le> bound"

lemma append_bounded_ok: "append_bounded bound dst v = Inr t \<Longrightarrow> bound < u64_max \<Longrightarrow> length t \<le> bound"
  by (auto simp: append_bounded_def not_less dest: sat_le split: if_splits)

lemma consume_sse_event_bounded:
  assumes "consume_sse_event parse bound d x = Inr y" and "sse_bounded bound x" and b: "bound < u64_max"
  shows "sse_bounded bound y"
  using assms(1,2) append_bounded_ok [OF _ b]
  by (auto simp: consume_sse_event_def sse_bounded_def append_stderr_def split: option.splits if_splits sum.splits)

lemma consume_line_bounded:
  "consume_line parse bound l x = Inr y \<Longrightarrow> sse_bounded bound x \<Longrightarrow> bound < u64_max \<Longrightarrow> sse_bounded bound y"
  by (auto simp: consume_line_def split: option.splits intro: consume_sse_event_bounded)

lemma consume_lines_bounded:
  "consume_lines parse bound ls x = Inr (r, y) \<Longrightarrow> sse_bounded bound x \<Longrightarrow> bound < u64_max \<Longrightarrow> sse_bounded bound y"
  by (induction parse bound ls x rule: consume_lines.induct) (auto split: sum.splits dest: consume_line_bounded)

lemma consume_chunks_bounded:
  "consume_chunks parse bound cs wire pending x = Inr y \<Longrightarrow> sse_bounded bound x \<Longrightarrow> bound < u64_max \<Longrightarrow> sse_bounded bound y"
  by (induction parse bound cs wire pending x rule: consume_chunks.induct)
    (auto simp: Let_def split: sum.splits if_splits dest: consume_lines_bounded)

lemma limits_small: "rl_max_output_bytes (profile_limits prof) \<le> 512 * 1024"
  by (cases prof) (simp_all add: limits_of_def)

lemma bind_sb_Inr:
  "bind_sb f g s = (Inr y, s') \<longleftrightarrow> (\<exists>x s1. f s = (Inr x, s1) \<and> g x s1 = (Inr y, s'))"
  by (auto simp: bind_sb_def split: prod.splits sum.splits)

lemma bind_ret_Inr: "bind_sb (ret_sb r) g s = (Inr y, s') \<longleftrightarrow> (\<exists>x. r = Inr x \<and> g x s = (Inr y, s'))"
  by (cases r) (auto simp: bind_sb_def ret_sb_def)

lemma ret_sb_Inr: "ret_sb r s = (Inr y, s') \<longleftrightarrow> r = Inr y \<and> s' = s"
  by (auto simp: ret_sb_def)

lemma if_call_Inr: "(if b then ret_sb (Inl e) else f) s = (Inr y, s') \<longleftrightarrow> \<not> b \<and> f s = (Inr y, s')"
  by (auto simp: ret_sb_def)

lemma or_terminate_Inr: "or_terminate c M p h f s = (Inr y, s') \<longleftrightarrow> f s = (Inr y, s')"
  by (auto simp: or_terminate_def split: prod.splits sum.splits)

lemmas call_simps = or_terminate_Inr bind_ret_Inr bind_sb_Inr ret_sb_Inr if_call_Inr

lemma exec_bounded:
  assumes "sb_exec c M p h cmd s = (Inr x, s')"
  shows "length (ex_stdout x) \<le> 512 * 1024 \<and> length (ex_stderr x) \<le> 512 * 1024"
proof -
  let ?b = "rl_max_output_bytes (profile_limits (sh_profile h))"
  have b: "?b \<le> 512 * 1024" and lt: "?b < u64_max"
    using limits_small [of "sh_profile h"] by (simp_all add: u64_max_def)
  from assms obtain r y st where "consume_sse_response M r ?b = Inr y" and x: "execution_of y st = Inr x"
    by (auto simp: sb_exec_def call_simps)
  then have run: "consume_chunks (m_json M) ?b (chunks r) 0 [] sse_default = Inr y"
    by (simp add: consume_sse_response_def)
  have "sse_bounded ?b y"
    by (rule consume_chunks_bounded [OF run _ lt]) (simp add: sse_bounded_def sse_default_def)
  with b x show ?thesis by (auto simp: execution_of_def sse_bounded_def Let_def split: if_splits)
qed

lemma bounded_bytes_le:
  "bounded_bytes bound bytes cs = Inr b \<Longrightarrow> length bytes \<le> bound \<Longrightarrow> bound < u64_max \<Longrightarrow> length b \<le> bound"
  by (induction bound bytes cs rule: bounded_bytes.induct) (auto split: if_splits simp: not_less dest: sat_le)

lemma collect_one_le:
  assumes "collect_one M p h pth s = (Inr b, s')"
  shows "length b \<le> MAX_ARTIFACT_BYTES"
proof -
  from assms obtain r where "bounded_response_bytes r MAX_ARTIFACT_BYTES = Inr b"
    unfolding collect_one_def Let_def call_simps by blast
  then show ?thesis unfolding bounded_response_bytes_def
    by (rule bounded_bytes_le) (simp_all add: MAX_ARTIFACT_BYTES_def u64_max_def)
qed

definition artifact_total :: "collected_artifact list \<Rightarrow> nat" where
  "artifact_total xs = sum_list (map (\<lambda>a. length (co_contents a)) xs)"

lemma collect_loop_ok:
  assumes "collect_loop M p h ps n acc s = (Inr xs, s')"
    and "n = artifact_total acc" and "n \<le> MAX_TOTAL_ARTIFACT_BYTES"
    and "\<forall>a \<in> set acc. length (co_contents a) \<le> MAX_ARTIFACT_BYTES"
  shows "map co_path xs = map co_path acc @ ps \<and> artifact_total xs \<le> MAX_TOTAL_ARTIFACT_BYTES
    \<and> (\<forall>a \<in> set xs. length (co_contents a) \<le> MAX_ARTIFACT_BYTES)"
  using assms
proof (induction ps arbitrary: n acc s)
  case Nil
  then show ?case by simp
next
  case (Cons pth ps)
  obtain b s1 where one: "collect_one M p h pth s = (Inr b, s1)"
    using Cons.prems(1) by (auto split: prod.splits sum.splits)
  let ?n = "sat_add u64_max n (length b)" and ?acc = "acc @ [\<lparr>co_path = pth, co_contents = b\<rparr>]"
  have le: "?n \<le> MAX_TOTAL_ARTIFACT_BYTES" and loop: "collect_loop M p h ps ?n ?acc s1 = (Inr xs, s')"
    using Cons.prems(1) one by (auto simp: Let_def split: if_splits)
  have "n + length b \<le> MAX_TOTAL_ARTIFACT_BYTES" by (rule sat_le [OF le]) (simp add: MAX_TOTAL_ARTIFACT_BYTES_def u64_max_def)
  then have "?n = artifact_total ?acc"
    using Cons.prems(2) by (simp add: artifact_total_def sat_add_def MAX_TOTAL_ARTIFACT_BYTES_def u64_max_def)
  from Cons.IH [OF loop this le] Cons.prems(4) collect_one_le [OF one] show ?case by simp
qed

section \<open>Listings\<close>

definition codex_item :: "jvalue \<Rightarrow> bool" where
  "codex_item v \<longleftrightarrow> Option.bind (jget ''metadata'' v) (jstr ''jarvis.profile'') = Some ''codex''"

definition run_of_item :: "crypto \<Rightarrow> jvalue \<Rightarrow> string option" where
  "run_of_item c v = Option.bind (Option.bind (jget ''metadata'' v) (jstr ''jarvis.run_id'')) (uuid_parse_str c)"

definition page_items :: "jvalue \<Rightarrow> jvalue list" where
  "page_items b = (case Option.bind (jget ''items'' b) as_array of None \<Rightarrow> [] | Some vs \<Rightarrow> vs)"

definition has_next_page :: "jvalue \<Rightarrow> bool option" where
  "has_next_page b = Option.bind (Option.bind (jget ''pagination'' b) (jget ''hasNextPage'')) as_bool"

text \<open>Every page up to and including the one that says it is the last.\<close>

fun complete_listing :: "jvalue list \<Rightarrow> bool" where
  "complete_listing [] = False"
| "complete_listing [b] = (has_next_page b = Some False)"
| "complete_listing (b # b' # bs) = (has_next_page b = Some True \<and> complete_listing (b' # bs))"

text \<open>The manager answered the pages \<open>ns\<close> in turn with \<open>bs\<close>.\<close>

fun answered :: "'m manager \<Rightarrow> open_sandbox_provider \<Rightarrow> sandbox_url \<Rightarrow> nat list \<Rightarrow> jvalue list \<Rightarrow> 'm \<Rightarrow> 'm \<Rightarrow> bool" where
  "answered M p u ns [] s s' \<longleftrightarrow> s' = s"
| "answered M p u [] (b # bs) s s' \<longleftrightarrow> False"
| "answered M p u (n # ns) (b # bs) s s' \<longleftrightarrow>
     (\<exists>s1. request_json M (page_request p u n) s = (Inr b, s1) \<and> answered M p u ns bs s1 s')"

definition reports :: "crypto \<Rightarrow> owned_codex_sandbox list \<Rightarrow> jvalue \<Rightarrow> bool" where
  "reports c xs v \<longleftrightarrow> (\<exists>x \<in> set xs. jstr ''id'' v = Some (sh_provider_id (oc_handle x))
     \<and> run_of_item c v = Some (sh_task_id (oc_handle x)))"

lemma owned_item_codex:
  assumes "owned_item c v = Inr x" and "codex_item v"
  shows "\<exists>w. x = Some w \<and> jstr ''id'' v = Some (sh_provider_id (oc_handle w))
    \<and> run_of_item c v = Some (sh_task_id (oc_handle w))"
  using assms by (auto simp: owned_item_def codex_item_def run_of_item_def split: option.splits if_splits)

lemma owned_items_complete: "owned_items c vs = Inr xs \<Longrightarrow> v \<in> set vs \<Longrightarrow> codex_item v \<Longrightarrow> reports c xs v"
proof (induction vs arbitrary: xs)
  case (Cons w vs)
  obtain x ys where x: "owned_item c w = Inr x" and ys: "owned_items c vs = Inr ys"
    and xs: "xs = (case x of None \<Rightarrow> ys | Some y \<Rightarrow> y # ys)"
    using Cons.prems(1) by (auto split: sum.splits)
  show ?case
  proof (cases "v = w")
    case True
    with owned_item_codex [OF x] Cons.prems(3) xs show ?thesis by (auto simp: reports_def)
  next
    case False
    with Cons.IH [OF ys] Cons.prems(2,3) xs show ?thesis by (auto simp: reports_def split: option.splits)
  qed
qed simp

lemma read_page_complete:
  assumes "read_page c b = Inr (xs, nxt)"
  shows "has_next_page b = Some nxt \<and> (\<forall>v \<in> set (page_items b). codex_item v \<longrightarrow> reports c xs v)"
proof -
  from assms obtain vs where "Option.bind (jget ''items'' b) as_array = Some vs" "owned_items c vs = Inr xs"
      "has_next_page b = Some nxt"
    by (auto simp: read_page_def has_next_page_def split: option.splits if_splits sum.splits)
  then show ?thesis by (auto simp: page_items_def dest: owned_items_complete)
qed

lemma reports_append: "reports c xs v \<or> reports c ys v \<Longrightarrow> reports c (xs @ ys) v"
  by (auto simp: reports_def)

lemma discover_pages_listing:
  assumes "discover_pages c M p u ns owned s = (Inr xs, s')"
  shows "\<exists>bs ys. answered M p u ns bs s s' \<and> complete_listing bs \<and> xs = owned @ ys
    \<and> (\<forall>b \<in> set bs. \<forall>v \<in> set (page_items b). codex_item v \<longrightarrow> reports c ys v)"
  using assms
proof (induction ns arbitrary: owned s)
  case (Cons n ns)
  obtain b s1 zs nxt where req: "request_json M (page_request p u n) s = (Inr b, s1)" and page: "read_page c b = Inr (zs, nxt)"
    using Cons.prems by (auto split: prod.splits sum.splits)
  note pg = read_page_complete [OF page]
  show ?case
  proof (cases nxt)
    case False
    with Cons.prems req page have "xs = owned @ zs" "s' = s1" by auto
    with req pg False have "answered M p u (n # ns) [b] s s' \<and> complete_listing [b] \<and> xs = owned @ zs
      \<and> (\<forall>b' \<in> set [b]. \<forall>v \<in> set (page_items b'). codex_item v \<longrightarrow> reports c zs v)" by simp
    then show ?thesis by blast
  next
    case True
    with Cons.prems req page have "discover_pages c M p u ns (owned @ zs) s1 = (Inr xs, s')" by simp
    from Cons.IH [OF this] obtain bs ys where bs: "answered M p u ns bs s1 s'" "complete_listing bs" "xs = (owned @ zs) @ ys"
        "\<forall>b \<in> set bs. \<forall>v \<in> set (page_items b). codex_item v \<longrightarrow> reports c ys v" by blast
    then have "complete_listing (b # bs)" using pg True by (cases bs) auto
    with bs req pg have "answered M p u (n # ns) (b # bs) s s' \<and> complete_listing (b # bs) \<and> xs = owned @ (zs @ ys)
      \<and> (\<forall>b' \<in> set (b # bs). \<forall>v \<in> set (page_items b'). codex_item v \<longrightarrow> reports c (zs @ ys) v)"
      by (auto intro: reports_append)
    then show ?thesis by blast
  qed
qed simp

lemma confirm_gone_listing:
  assumes "confirm_gone c M p h n s = (Inr (), s')"
  shows "\<exists>s1 owned. list_owned_codex c M p s1 = (Inr owned, s') \<and> \<not> list_ex (same_workload h) owned"
  using assms
proof (induction n arbitrary: s)
  case (Suc n)
  then show ?case by (cases "list_owned_codex c M p s") (auto split: sum.splits if_splits)
qed simp

text \<open>
  C36. When the broker's client reports a sandbox as terminated, the manager has, after the delete, answered a complete
  listing of the Codex workloads, page after page up to the one marked as the last, and no workload in it carries the
  sandbox's identifier or its run.\<close>

theorem terminated_workload_is_gone:
  assumes "sp_codex_only p" and "sb_terminate c M p h s = (Inr (), s')"
  shows "\<exists>u s1 bs. answered M p u [1..<11] bs s1 s' \<and> complete_listing bs
    \<and> (\<forall>b \<in> set bs. \<forall>v \<in> set (page_items b). codex_item v \<longrightarrow>
        jstr ''id'' v \<noteq> Some (sh_provider_id h) \<and> run_of_item c v \<noteq> Some (sh_task_id h))"
proof -
  from assms obtain s0 where "confirm_gone c M p h 3 s0 = (Inr (), s')"
    by (auto simp: sb_terminate_def call_simps)
  from confirm_gone_listing [OF this] obtain s1 owned
    where l: "list_owned_codex c M p s1 = (Inr owned, s')" and none: "\<not> list_ex (same_workload h) owned" by blast
  from l assms(1) obtain u where "discover_pages c M p u [1..<11] [] s1 = (Inr owned, s')"
    by (auto simp: list_owned_codex_def split: sum.splits)
  from discover_pages_listing [OF this] obtain bs where bs: "answered M p u [1..<11] bs s1 s'" "complete_listing bs"
      "\<forall>b \<in> set bs. \<forall>v \<in> set (page_items b). codex_item v \<longrightarrow> reports c owned v" by auto
  have "jstr ''id'' v \<noteq> Some (sh_provider_id h) \<and> run_of_item c v \<noteq> Some (sh_task_id h)" if "reports c owned v" for v
    using that none by (auto simp: reports_def list_ex_iff same_workload_def)
  with bs show ?thesis by blast
qed

lemma trim_start_code [code]:
  "trim_start s = (if ws_prefix (map byte s) = 0 then s else trim_start (drop (ws_prefix (map byte s)) s))"
  by (subst trim_start.simps) (simp add: Let_def)

section \<open>A sample manager\<close>

definition demo_loopback :: sandbox_url where
  "demo_loopback = \<lparr>scheme = ''http'', username = [], password = None, fragment = None, port = Some 8090,
     host_str = Some ''127.0.0.1'', url_query = None, url_path = ''/''\<rparr>"

definition demo_provider :: open_sandbox_provider where
  "demo_provider = \<lparr>sp_endpoint = demo_loopback, sp_api_key = ''key'', sp_images = \<lparr>im_research = [], im_coding = [],
     im_browser = [], im_data_analysis = [], im_codex = []\<rparr>, sp_codex_only = True\<rparr>"

definition demo_reply :: "nat \<Rightarrow> string \<Rightarrow> response" where
  "demo_reply n b = \<lparr>status = n, retry_after_header = None, content_length = None, chunks = [Some b]\<rparr>"

definition demo_body :: string where
  "demo_body = ''data: I'' @ newline @ ''data: X'' @ newline"

text \<open>A workload is listed until it was deleted.\<close>

definition demo_answer :: "manager_request \<Rightarrow> bool \<Rightarrow> response \<times> bool" where
  "demo_answer q alive =
     (if mr_verb q = DELETE then (demo_reply 204 [], False)
      else if ends_with (url_path (mr_url q)) ''/command'' then (demo_reply 200 demo_body, alive)
      else if ends_with (url_path (mr_url q)) ''/download'' then (demo_reply 200 ''{}'', alive)
      else if ends_with (url_path (mr_url q)) ''/info'' then (demo_reply 200 ''F'', alive)
      else if ends_with (url_path (mr_url q)) ''/sandboxes'' then (demo_reply 200 (if alive then ''L'' else ''E''), alive)
      else (demo_reply 200 ''S'', alive))"

definition demo_listing :: "jvalue list \<Rightarrow> jvalue" where
  "demo_listing vs = JObj [(''items'', JArr vs), (''pagination'', JObj [(''hasNextPage'', JBool False)])]"

definition demo_json :: "string \<Rightarrow> jvalue option" where
  "demo_json t = map_of [
     (''I'', JObj [(''type'', JStr ''init''), (''text'', JStr ''cmd-1'')]),
     (''X'', JObj [(''type'', JStr ''execution_complete''), (''execution_time'', JInt 12)]),
     (''S'', JObj [(''exit_code'', JInt 0)]),
     (''F'', JObj [(''/workspace/artifacts/result.json'', JObj [(''type'', JStr ''file''), (''size'', JInt 2)])]),
     (''E'', demo_listing []),
     (''L'', demo_listing [JObj [(''id'', JStr ''box-1''), (''metadata'', JObj [(''jarvis.profile'', JStr ''codex''),
        (''jarvis.run_id'', JStr (replicate 16 CHR ''r'')), (''jarvis.session_id'', JStr (replicate 16 CHR ''s''))])]])] t"

definition demo_manager :: "bool manager" where
  "demo_manager = \<lparr>m_send = (\<lambda>q s. case demo_answer q s of (r, s') \<Rightarrow> (Some r, s')),
     m_join = (\<lambda>u p. Some (u\<lparr>url_path := p\<rparr>)), m_json = demo_json\<rparr>"

definition demo_sandbox_handle :: sandbox_handle where
  "demo_sandbox_handle = \<lparr>sh_provider_id = ''box-1'', sh_task_id = replicate 16 CHR ''r'', sh_profile = PCodex\<rparr>"

theorem terminated_workload_is_gone_witness:
  "sp_codex_only demo_provider \<and> fst (sb_terminate sample_crypto demo_manager demo_provider demo_sandbox_handle True) = Inr ()
    \<and> (\<exists>u s1 bs. answered demo_manager demo_provider u [1..<11] bs s1 False \<and> complete_listing bs
        \<and> (\<forall>b \<in> set bs. \<forall>v \<in> set (page_items b). codex_item v \<longrightarrow>
            jstr ''id'' v \<noteq> Some ''box-1'' \<and> run_of_item sample_crypto v \<noteq> Some (sh_task_id demo_sandbox_handle)))"
proof -
  have r: "sb_terminate sample_crypto demo_manager demo_provider demo_sandbox_handle True = (Inr (), False)" by code_simp
  have c: "sp_codex_only demo_provider" by code_simp
  have i: "sh_provider_id demo_sandbox_handle = ''box-1''" by code_simp
  show ?thesis using terminated_workload_is_gone [OF c r] r c unfolding i by simp
qed

section \<open>What a sandbox hands back\<close>

text \<open>
  What a sandbox hands back is bounded: a command's output to 512 KiB on each stream, and collected files to the
  paths asked for, which are distinct, relative and free of parent steps, at most 32, 16 MiB each and 64 MiB together.\<close>

theorem sandbox_output_is_bounded:
  "(sb_exec c M p h cmd s = (Inr x, s') \<longrightarrow> length (ex_stdout x) \<le> 512 * 1024 \<and> length (ex_stderr x) \<le> 512 * 1024)
   \<and> (sb_collect_artifacts M p h ps t = (Inr xs, t') \<longrightarrow> map co_path xs = ps \<and> distinct ps \<and> length ps \<le> 32
       \<and> list_all is_safe_relative_path ps \<and> (\<forall>a \<in> set xs. length (co_contents a) \<le> 16 * 1024 * 1024)
       \<and> artifact_total xs \<le> 64 * 1024 * 1024)"
proof (intro conjI impI)
  assume run: "sb_exec c M p h cmd s = (Inr x, s')"
  show "length (ex_stdout x) \<le> 512 * 1024" "length (ex_stderr x) \<le> 512 * 1024"
    using exec_bounded [OF run] by simp_all
next
  assume "sb_collect_artifacts M p h ps t = (Inr xs, t')"
  then have paths: "validate_artifact_paths ps = Inr ()" and loop: "collect_loop M p h ps 0 [] t = (Inr xs, t')"
    by (simp_all add: sb_collect_artifacts_def call_simps)
  from paths show "distinct ps" "length ps \<le> 32" "list_all is_safe_relative_path ps"
    by (auto simp: validate_artifact_paths_def MAX_ARTIFACTS_def list_ex_iff list_all_iff split: if_splits)
  from collect_loop_ok [OF loop] show "map co_path xs = ps"
      "\<forall>a \<in> set xs. length (co_contents a) \<le> 16 * 1024 * 1024" "artifact_total xs \<le> 64 * 1024 * 1024"
    by (simp_all add: artifact_total_def MAX_ARTIFACT_BYTES_def MAX_TOTAL_ARTIFACT_BYTES_def)
qed

lemma demo_stream:
  "consume_sse_response demo_manager (demo_reply 200 demo_body) (512 * 1024)
   = Inr (sse_default\<lparr>se_command_id := Some ''cmd-1'', se_duration_ms := 12, se_completed := True\<rparr>)"
proof -
  have i: "demo_json ''I'' = Some (JObj [(''type'', JStr ''init''), (''text'', JStr ''cmd-1'')])"
    and x: "demo_json ''X'' = Some (JObj [(''type'', JStr ''execution_complete''), (''execution_time'', JInt 12)])"
    and ok: "is_safe_provider_id ''cmd-1''" by code_simp+
  have m: "m_json demo_manager = demo_json" by (simp add: demo_manager_def)
  have u: "utf8_valid (map byte demo_body)" by code_simp
  have s: "split_on CHR 0x0A demo_body = [''data: I'', ''data: X'', []]" by code_simp
  have l: "trim_cr ''data: I'' = ''data: I''" "trim_cr ''data: X'' = ''data: X''" "trim_start '' I'' = ''I''" "trim_start '' X'' = ''X''"
    "strip_prefix ''data:'' ''data: I'' = Some '' I''" "strip_prefix ''data:'' ''data: X'' = Some '' X''"
    by code_simp+
  have n: "length demo_body = 16" by code_simp
  show ?thesis using u s
    by (simp add: consume_sse_response_def m demo_reply_def eval_simps consume_line_def l trim_start_code [of "[]"] n consume_sse_event_def i x ok jstr_def trim_is_empty_Nil)
qed

lemma demo_proxy:
  assumes "starts_with pth ''/''" and "\<not> contains_str pth ''..''"
  shows "proxy_endpoint demo_manager demo_provider demo_sandbox_handle pth
    = Inr (demo_loopback\<lparr>url_path := ''v1/sandboxes/box-1/proxy/44772'' @ pth\<rparr>)"
proof -
  have digits: "char_of (52::nat) = CHR ''4''" "char_of (55::nat) = CHR ''7''" "char_of (50::nat) = CHR ''2''" by code_simp+
  have port: "show_nat SANDBOX_EXECD_PORT = ''44772''" by (simp add: SANDBOX_EXECD_PORT_def show_nat.simps digits)
  have "is_safe_provider_id (sh_provider_id demo_sandbox_handle)" by code_simp
  with assms show ?thesis
    by (simp add: proxy_endpoint_def endpoint_def port demo_manager_def demo_provider_def demo_sandbox_handle_def)
qed

lemma demo_request:
  assumes "demo_answer (authenticated_request demo_provider v u qs b) True = (demo_reply 200 txt, True)"
  shows "request_success demo_manager (authenticated_request demo_provider v u qs b) True = (Inr (demo_reply 200 txt), True)"
    and "demo_json txt = Some j \<Longrightarrow> request_json demo_manager (authenticated_request demo_provider v u qs b) True = (Inr j, True)"
proof -
  show r: "request_success demo_manager (authenticated_request demo_provider v u qs b) True = (Inr (demo_reply 200 txt), True)"
    using assms by (simp add: request_success_def bind_sb_def send_request_def ret_sb_def demo_manager_def
      error_for_status_def demo_reply_def)
  show "request_json demo_manager (authenticated_request demo_provider v u qs b) True = (Inr j, True)" if "demo_json txt = Some j"
    using that unfolding request_json_def bind_sb_def r
    by (simp add: ret_sb_def response_json_def demo_reply_def demo_manager_def)
qed

lemma demo_exec: "\<exists>x. sb_exec sample_crypto demo_manager demo_provider demo_sandbox_handle [''ls''] True = (Inr x, True)"
proof -
  let ?u = "demo_loopback\<lparr>url_path := ''v1/sandboxes/box-1/proxy/44772/command''\<rparr>"
  let ?v = "demo_loopback\<lparr>url_path := ''v1/sandboxes/box-1/proxy/44772/command/status/cmd-1''\<rparr>"
  have p: "proxy_endpoint demo_manager demo_provider demo_sandbox_handle ''/command'' = Inr ?u"
    by (subst demo_proxy) code_simp+
  have p': "proxy_endpoint demo_manager demo_provider demo_sandbox_handle (''/command/status/'' @ ''cmd-1'') = Inr ?v"
    by (subst demo_proxy) code_simp+
  have q: "request_success demo_manager (authenticated_request demo_provider POST ?u [] b) True
      = (Inr (demo_reply 200 demo_body), True)" for b
    by (rule demo_request) (simp add: demo_answer_def authenticated_request_def ends_with_def)
  have j: "request_json demo_manager (authenticated_request demo_provider GET ?v [] NoBody) True = (Inr (JObj [(''exit_code'', JInt 0)]), True)"
    by (rule demo_request(2)) code_simp+
  have k: "validate_command [''ls''] = Inr ()" "rl_max_output_bytes (profile_limits (sh_profile demo_sandbox_handle)) = 512 * 1024"
    by (simp_all add: validate_command_def MAX_COMMAND_ARGS_def MAX_COMMAND_ARG_BYTES_def demo_sandbox_handle_def limits_of_def)
  show ?thesis using p' demo_stream
    by (simp add: sb_exec_def k bind_sb_def ret_sb_def p q or_terminate_def j execution_of_def jstr_def to_i32_def)
qed

theorem sandbox_output_is_bounded_witness:
  "\<exists>x. sb_exec sample_crypto demo_manager demo_provider demo_sandbox_handle [''ls''] True = (Inr x, True)
   \<and> length (ex_stdout x) \<le> 512 * 1024"
proof -
  obtain x where x: "sb_exec sample_crypto demo_manager demo_provider demo_sandbox_handle [''ls''] True = (Inr x, True)"
    using demo_exec by blast
  from sandbox_output_is_bounded [THEN conjunct1, rule_format, OF x] x show ?thesis by simp
qed

lemma input_paths_stay_inside:
  assumes "input_validate x = Inr ()"
  shows "path_components (in_name x) \<noteq> [] \<and> ''..'' \<notin> set (path_components (in_name x)) \<and> \<not> path_is_absolute (in_name x)"
proof -
  from assms have ok: "is_safe_relative_path (in_name x)" by (auto simp: input_validate_def split: if_splits)
  obtain a as where s: "split_on CHR ''/'' (in_name x) = a # as" by (cases "split_on CHR ''/'' (in_name x)") auto
  with ok have "a \<noteq> []" "a \<noteq> ''.''" by (auto simp: is_safe_relative_path_def)
  with ok s show ?thesis
    by (auto simp: is_safe_relative_path_def path_components_def path_is_absolute_def list_ex_iff)
qed

text \<open>A workload created for a run is found again by the metadata it was created with.\<close>

lemma created_workload_is_rediscovered:
  assumes "\<forall>u. length u = 16 \<longrightarrow> uuid_parse_str c (uuid_hyphenated c u) = Some u"
    and "sk_profile t = PCodex" and "sk_codex_session_id t = Some i" and "length (sk_task_id t) = 16" and "length i = 16"
    and "is_safe_provider_id pid" and "jget ''metadata'' (opensandbox_create_payload c t images) = Some md"
  shows "owned_item c (JObj [(''id'', JStr pid), (''metadata'', md)]) = Inr (Some \<lparr>oc_handle = \<lparr>sh_provider_id = pid,
      sh_task_id = sk_task_id t, sh_profile = PCodex\<rparr>, oc_session_id = i\<rparr>)"
proof -
  have md: "md = payload_metadata c t" using assms(7) by (simp add: opensandbox_create_payload_def Let_def)
  have "uuid_parse_str c (uuid_hyphenated c i) = Some i"
      "uuid_parse_str c (uuid_hyphenated c (sk_task_id t)) = Some (sk_task_id t)" using assms(1,4,5) by blast+
  with assms(2,3,6) show ?thesis by (simp add: md owned_item_def payload_metadata_def jstr_def)
qed

text \<open>Every profile's own policy is valid, so only the command can make a task invalid.\<close>

lemma profile_policy_valid: "network_validate (profile_network_policy prof) = Inr ()"
proof -
  have "list_all (\<lambda>prof. network_validate (profile_network_policy prof) = Inr ())
      [PResearch, PCoding, PBrowser, PDataAnalysis, PCodex]" by code_simp
  then show ?thesis by (cases prof) simp_all
qed

lemma task_new_iff: "isl (sandbox_task_new i prof cmd) \<longleftrightarrow> isl (validate_command cmd)"
  by (auto simp: sandbox_task_new_def profile_policy_valid split: sum.splits)

text \<open>
  The stream is decoded chunk by chunk: the same bytes are accepted in one chunk and refused when the transport cuts
  them inside a character.\<close>

definition demo_ping :: "string \<Rightarrow> jvalue option" where
  "demo_ping t = Some (JObj [(''type'', JStr ''ping'')])"

lemma split_character_ends_stream:
  "consume_chunks demo_ping 64 [Some (''data: '' @ [CHR 0xC3, CHR 0xA9] @ newline)] 0 [] sse_default = Inr sse_default
   \<and> consume_chunks demo_ping 64 [Some (''data: '' @ [CHR 0xC3]), Some (CHR 0xA9 # newline)] 0 [] sse_default
      = Inl SbInvalidProviderResponse"
  by (simp add: newline_def eval_simps byte_def cont_def second_ok_def consume_line_def trim_cr_def strip_prefix_def starts_with_def
      consume_sse_event_def demo_ping_def jstr_def trim_start_code ws_prefix_def)

end
