(* ===== verification/Coding.thy ===== *)
theory Coding
  imports Sandbox
begin

text \<open>
  \<^verbatim>\<open>src/crates/codex/src/lib.rs\<close>: the signed coding request, the limits it has to meet, the capability a
  sandboxed worker spends, the states of a session and of a task, and the bounded context handed to
  the worker. Times are nanoseconds, an identifier the bytes of a UUID, and a string its UTF-8 bytes.
  The JSON encoders are parameters.
\<close>

section \<open>Limits\<close>

definition MAX_TASK_SUMMARY_CHARS :: nat where "MAX_TASK_SUMMARY_CHARS = 8000"
definition MAX_CHECKPOINT_CHARS :: nat where "MAX_CHECKPOINT_CHARS = 16000"
definition MAX_CODING_TIMEOUT_SECS :: nat where "MAX_CODING_TIMEOUT_SECS = 15 * 60"
definition MAX_CODING_OUTPUT_BYTES :: nat where "MAX_CODING_OUTPUT_BYTES = 512 * 1024"
definition MAX_TASK_ENVELOPE_BYTES :: nat where "MAX_TASK_ENVELOPE_BYTES = 32 * 1024"
definition MAX_REPOSITORY_ARCHIVE_BYTES :: nat where "MAX_REPOSITORY_ARCHIVE_BYTES = MAX_INPUT_BYTES"
definition MAX_CAPABILITY_REQUESTS :: nat where "MAX_CAPABILITY_REQUESTS = 4"

definition ACTION_CODING_START :: string where "ACTION_CODING_START = ''coding.start''"
definition ACTION_CODING_RESUME :: string where "ACTION_CODING_RESUME = ''coding.resume''"
definition ACTION_CODEX_RUN_APPROVED_TASK :: string where
  "ACTION_CODEX_RUN_APPROVED_TASK = ''codex.run_approved_task''"

definition CODEX_SANDBOX_COMMAND :: "string list" where
  "CODEX_SANDBOX_COMMAND = [''/usr/local/bin/jarvis-codex-runtime'', ''run-approved-task'', ''/workspace/input/request.json'']"

definition nil_uuid :: string where "nil_uuid = replicate 16 (CHR 0x00)"

definition is_hex_digit :: "char \<Rightarrow> bool" where
  "is_hex_digit c \<longleftrightarrow> is_ascii_digit c \<or> (97 \<le> byte c \<and> byte c \<le> 102) \<or> (65 \<le> byte c \<and> byte c \<le> 70)"

definition is_safe_identifier :: "string \<Rightarrow> nat \<Rightarrow> bool" where
  "is_safe_identifier v m \<longleftrightarrow> v \<noteq> [] \<and> v \<noteq> ''.'' \<and> v \<noteq> ''..'' \<and> length v \<le> m
     \<and> list_all (\<lambda>c. is_ascii_alnum c \<or> c \<in> set ''-_.'') v"

definition is_commit_sha :: "string \<Rightarrow> bool" where
  "is_commit_sha v \<longleftrightarrow> 40 \<le> length v \<and> length v \<le> 64 \<and> list_all is_hex_digit v"

section \<open>Operations\<close>

datatype coding_protocol_error = InvalidCodingOperation | InvalidCodingApproval | CodingExpired

datatype task_state = TQueued | TStarting | TRunning | TCancelling | TCompleted | TFailed | TTimedOut | TCancelled

datatype task_error = InvalidSummary | InvalidDeadline | InvalidTransition task_state task_state
| InvalidCheckpoint | InvalidSessionTransition

record repository_identity =
  ri_id :: string
  ri_owner :: string
  ri_name :: string

definition repository_validate :: "repository_identity \<Rightarrow> coding_protocol_error + unit" where
  "repository_validate r =
     (if \<not> is_safe_identifier (ri_id r) 96 \<or> \<not> is_safe_identifier (ri_owner r) 96 \<or> \<not> is_safe_identifier (ri_name r) 96
      then Inl InvalidCodingOperation else Inr ())"

record coding_checkpoint =
  cc_summary :: string
  cc_decisions :: "string list"
  cc_pending :: "string list"
  cc_tests :: string

definition checkpoint_validate :: "coding_checkpoint \<Rightarrow> task_error + unit" where
  "checkpoint_validate c =
     (if trim_is_empty (cc_summary c) \<or> chars_count (cc_summary c) > MAX_CHECKPOINT_CHARS
         \<or> chars_count (cc_tests c) > 4000 \<or> length (cc_decisions c) > 32 \<or> length (cc_pending c) > 32
         \<or> list_ex (\<lambda>v. trim_is_empty v \<or> chars_count v > 1000) (cc_decisions c @ cc_pending c)
      then Inl InvalidCheckpoint else Inr ())"

record coding_run =
  cr_session_id :: string
  cr_repository :: repository_identity
  cr_base_commit_sha :: string
  cr_timeout_secs :: nat
  cr_budget_reservation_id :: string
  cr_max_artifacts :: nat
  cr_max_output_bytes :: nat

text \<open>Both variants carry the fields of \<open>coding_run\<close>.\<close>

datatype coding_operation =
  StartCodingRun coding_run "string option" string "coding_checkpoint option"
| ResumeCodingRun coding_run coding_checkpoint "string option"

fun coding_run_of :: "coding_operation \<Rightarrow> coding_run" where
  "coding_run_of (StartCodingRun r _ _ _) = r"
| "coding_run_of (ResumeCodingRun r _ _) = r"

fun coding_action :: "coding_operation \<Rightarrow> string" where
  "coding_action (StartCodingRun _ _ _ _) = ACTION_CODING_START"
| "coding_action (ResumeCodingRun _ _ _) = ACTION_CODING_RESUME"

definition validate_limits :: "coding_run \<Rightarrow> string \<Rightarrow> coding_protocol_error + unit" where
  "validate_limits r objective =
     (case repository_validate (cr_repository r) of
        Inl e \<Rightarrow> Inl e
      | Inr _ \<Rightarrow>
          if \<not> is_commit_sha (cr_base_commit_sha r) \<or> trim_is_empty objective
             \<or> chars_count objective > MAX_TASK_SUMMARY_CHARS \<or> cr_timeout_secs r = 0
             \<or> cr_timeout_secs r > MAX_CODING_TIMEOUT_SECS \<or> cr_max_artifacts r \<noteq> 2
             \<or> cr_max_output_bytes r = 0 \<or> cr_max_output_bytes r > MAX_CODING_OUTPUT_BYTES
          then Inl InvalidCodingOperation else Inr ())"

fun coding_validate :: "coding_operation \<Rightarrow> coding_protocol_error + unit" where
  "coding_validate (StartCodingRun r label objective checkpoint) =
     (if (case label of None \<Rightarrow> False | Some l \<Rightarrow> \<not> is_safe_identifier l 96)
         \<or> (case checkpoint of None \<Rightarrow> False | Some c \<Rightarrow> isl (checkpoint_validate c))
      then Inl InvalidCodingOperation else validate_limits r objective)"
| "coding_validate (ResumeCodingRun r checkpoint delta) =
     (if isl (checkpoint_validate checkpoint)
         \<or> (case delta of None \<Rightarrow> False | Some d \<Rightarrow> trim_is_empty d \<or> chars_count d > 2048)
      then Inl InvalidCodingOperation else validate_limits r (cc_summary checkpoint))"

definition coding_payload :: "(coding_operation \<Rightarrow> string option) \<Rightarrow> coding_operation \<Rightarrow> coding_protocol_error + string" where
  "coding_payload to_vec op = (case coding_validate op of
     Inl e \<Rightarrow> Inl e
   | Inr _ \<Rightarrow> (case to_vec op of None \<Rightarrow> Inl InvalidCodingOperation | Some b \<Rightarrow> Inr b))"

definition target_bytes :: "coding_run \<Rightarrow> string" where
  "target_bytes r = concat (map (\<lambda>v. v @ [CHR 0x00])
     [ri_id (cr_repository r), ri_owner (cr_repository r), ri_name (cr_repository r), cr_base_commit_sha r])"

definition target_state_hash :: "crypto \<Rightarrow> coding_operation \<Rightarrow> coding_protocol_error + string" where
  "target_state_hash c op = (case coding_validate op of
     Inl e \<Rightarrow> Inl e | Inr _ \<Rightarrow> Inr (sha256 c (target_bytes (coding_run_of op))))"

text \<open>\<open>i\<close> is the fresh identifier of the task.\<close>

definition coding_sandbox_task :: "string \<Rightarrow> coding_operation \<Rightarrow> coding_protocol_error + sandbox_task" where
  "coding_sandbox_task i op = (case coding_validate op of
     Inl e \<Rightarrow> Inl e
   | Inr _ \<Rightarrow> (case sandbox_task_new i PCodex CODEX_SANDBOX_COMMAND of
       Inl _ \<Rightarrow> Inl InvalidCodingOperation | Inr t \<Rightarrow> Inr t))"

section \<open>The signed request\<close>

record signed_coding_request =
  sc_request_id :: string
  sc_nonce_hex :: string
  sc_user_id :: string
  sc_device_id :: string
  sc_issued_at :: int
  sc_expires_at :: int
  sc_operation :: coding_operation
  sc_signature_hex :: string

definition coding_message :: "crypto \<Rightarrow> (coding_operation \<Rightarrow> string option) \<Rightarrow> signed_coding_request \<Rightarrow> coding_protocol_error + string" where
  "coding_message c to_vec r =
     (case (hex_decode c (sc_nonce_hex r), hex_decode c (sc_signature_hex r)) of
        (Some nonce, Some signature) \<Rightarrow>
          if length nonce \<noteq> 32 \<or> length signature \<noteq> 64 \<or> sc_expires_at r \<le> sc_issued_at r
             \<or> sc_expires_at r - sc_issued_at r > 300 * second
          then Inl InvalidCodingApproval
          else (case coding_payload to_vec (sc_operation r) of
             Inl e \<Rightarrow> Inl e
           | Inr payload \<Rightarrow>
               (case target_state_hash c (sc_operation r) of
                  Inl e \<Rightarrow> Inl e
                | Inr state \<Rightarrow>
                    (case codex_coding_approval_message (coding_action (sc_operation r)) (sha256 c payload) (sc_request_id r)
                       nonce (sc_user_id r) (sc_device_id r) (sc_issued_at r) (sc_expires_at r) state of
                       Inl _ \<Rightarrow> Inl InvalidCodingApproval | Inr m \<Rightarrow> Inr m)))
      | _ \<Rightarrow> Inl InvalidCodingApproval)"

definition coding_reject_if_expired :: "signed_coding_request \<Rightarrow> int \<Rightarrow> coding_protocol_error + unit" where
  "coding_reject_if_expired r now =
     (if now > sc_expires_at r \<or> now < sc_issued_at r - 30 * second then Inl CodingExpired else Inr ())"

datatype coding_artifact_name = ResultJson | PatchDiff

fun artifact_file_name :: "coding_artifact_name \<Rightarrow> string" where
  "artifact_file_name ResultJson = ''result.json''"
| "artifact_file_name PatchDiff = ''patch.diff''"

datatype broker_request =
  BStart signed_coding_request
| BResume signed_coding_request
| BCancel string string
| BStatus string string
| BArtifact string string coding_artifact_name

fun signed_request_of :: "broker_request \<Rightarrow> signed_coding_request option" where
  "signed_request_of (BStart r) = Some r"
| "signed_request_of (BResume r) = Some r"
| "signed_request_of (BCancel _ _) = None"
| "signed_request_of (BStatus _ _) = None"
| "signed_request_of (BArtifact _ _ _) = None"

definition ids_present :: "string \<Rightarrow> string \<Rightarrow> coding_protocol_error + unit" where
  "ids_present run usr = (if run \<noteq> nil_uuid \<and> usr \<noteq> nil_uuid then Inr () else Inl InvalidCodingOperation)"

fun validate_shape :: "broker_request \<Rightarrow> coding_protocol_error + unit" where
  "validate_shape (BStart r) = (case sc_operation r of
     StartCodingRun _ _ _ _ \<Rightarrow> coding_validate (sc_operation r) | _ \<Rightarrow> Inl InvalidCodingOperation)"
| "validate_shape (BResume r) = (case sc_operation r of
     ResumeCodingRun _ _ _ \<Rightarrow> coding_validate (sc_operation r) | _ \<Rightarrow> Inl InvalidCodingOperation)"
| "validate_shape (BCancel run usr) = ids_present run usr"
| "validate_shape (BStatus run usr) = ids_present run usr"
| "validate_shape (BArtifact run usr _) = ids_present run usr"

definition request_policy :: "bool \<Rightarrow> policy_decision" where
  "request_policy trusted = decide \<lparr>capability = ExecuteCode, risk = Mutating, trusted_device = trusted,
     approved = False, reversible = False\<rparr>"

section \<open>Run capabilities\<close>

datatype brokered_codex_operation = RunApprovedTask

record run_capability_claims =
  ca_run_id :: string
  ca_session_id :: string
  ca_repository :: repository_identity
  ca_base_commit_sha :: string
  ca_expires_at :: int
  ca_budget_reservation_id :: string
  ca_execution_unit_limit :: nat
  ca_operation :: brokered_codex_operation

datatype capability_error = InvalidClaims | InvalidToken | CapabilityExpired | CapabilityRevoked | WrongRun
| WrongRepository | OperationDenied | CapabilityReplay | BudgetExceeded

definition claims_from_signed_request :: "string \<Rightarrow> signed_coding_request \<Rightarrow> nat \<Rightarrow> capability_error + run_capability_claims" where
  "claims_from_signed_request run r units =
     (if isl (coding_validate (sc_operation r)) \<or> units = 0 then Inl InvalidClaims
      else let op = coding_run_of (sc_operation r) in
        Inr \<lparr>ca_run_id = run, ca_session_id = cr_session_id op, ca_repository = cr_repository op,
             ca_base_commit_sha = cr_base_commit_sha op, ca_expires_at = sc_expires_at r,
             ca_budget_reservation_id = cr_budget_reservation_id op, ca_execution_unit_limit = units,
             ca_operation = RunApprovedTask\<rparr>)"

record brokered_codex_request =
  bq_request_id :: string
  bq_run_id :: string
  bq_session_id :: string
  bq_repository :: repository_identity
  bq_base_commit_sha :: string
  bq_budget_reservation_id :: string
  bq_operation :: brokered_codex_operation

datatype capability_status = CapActive | CapCompleted | CapCancelled

record stored_capability =
  st_token_hash :: string
  st_claims :: run_capability_claims
  st_status :: capability_status
  st_used_request_ids :: "string list"
  st_used_units :: nat

type_synonym authority = "(string \<times> stored_capability) list"

text \<open>\<open>token\<close> is the hexadecimal text of 32 random bytes.\<close>

definition cap_mint :: "crypto \<Rightarrow> int \<Rightarrow> string \<Rightarrow> run_capability_claims \<Rightarrow> authority \<Rightarrow> (capability_error + string) \<times> authority" where
  "cap_mint c now token claims a =
     (if isl (repository_validate (ca_repository claims)) \<or> \<not> is_commit_sha (ca_base_commit_sha claims)
         \<or> ca_expires_at claims \<le> now
      then (Inl InvalidClaims, a)
      else let h = sha256 c token in
        (Inr token, hm_insert h \<lparr>st_token_hash = h, st_claims = claims, st_status = CapActive,
           st_used_request_ids = [], st_used_units = 0\<rparr> a))"

definition cap_check :: "string \<Rightarrow> stored_capability \<Rightarrow> brokered_codex_request \<Rightarrow> nat \<Rightarrow> int \<Rightarrow> capability_error + unit" where
  "cap_check h s r units now =
     (let cl = st_claims s in
      if st_token_hash s \<noteq> h then Inl InvalidToken
      else if st_status s \<noteq> CapActive then Inl CapabilityRevoked
      else if now \<ge> ca_expires_at cl then Inl CapabilityExpired
      else if bq_run_id r \<noteq> ca_run_id cl \<or> bq_session_id r \<noteq> ca_session_id cl
        \<or> bq_budget_reservation_id r \<noteq> ca_budget_reservation_id cl then Inl WrongRun
      else if bq_repository r \<noteq> ca_repository cl \<or> bq_base_commit_sha r \<noteq> ca_base_commit_sha cl then Inl WrongRepository
      else if bq_operation r \<noteq> ca_operation cl then Inl OperationDenied
      else if bq_request_id r \<in> set (st_used_request_ids s)
        \<or> length (st_used_request_ids s) \<ge> MAX_CAPABILITY_REQUESTS then Inl CapabilityReplay
      else if units = 0 \<or> sat_add u64_max (st_used_units s) units > ca_execution_unit_limit cl then Inl BudgetExceeded
      else Inr ())"

definition authorize_raw :: "crypto \<Rightarrow> string \<Rightarrow> brokered_codex_request \<Rightarrow> nat \<Rightarrow> int \<Rightarrow> authority \<Rightarrow> (capability_error + unit) \<times> authority" where
  "authorize_raw c token r units now a =
     (if length token \<noteq> 64 \<or> \<not> list_all is_hex_digit token then (Inl InvalidToken, a)
      else let h = sha256 c token in
        case map_of a h of
          None \<Rightarrow> (Inl InvalidToken, a)
        | Some s \<Rightarrow>
            (case cap_check h s r units now of
               Inl e \<Rightarrow> (Inl e, a)
             | Inr _ \<Rightarrow> (Inr (), hm_insert h (s\<lparr>st_used_request_ids := bq_request_id r # st_used_request_ids s,
                   st_used_units := sat_add u64_max (st_used_units s) units\<rparr>) a)))"

definition cap_set_status :: "crypto \<Rightarrow> string \<Rightarrow> capability_status \<Rightarrow> authority \<Rightarrow> authority" where
  "cap_set_status c token stt a =
     (let h = sha256 c token in case map_of a h of None \<Rightarrow> a | Some s \<Rightarrow> hm_insert h (s\<lparr>st_status := stt\<rparr>) a)"

definition revoke_for_cancel :: "crypto \<Rightarrow> string \<Rightarrow> authority \<Rightarrow> authority" where
  "revoke_for_cancel c token a = cap_set_status c token CapCancelled a"

definition revoke_for_completion :: "crypto \<Rightarrow> string \<Rightarrow> authority \<Rightarrow> authority" where
  "revoke_for_completion c token a = cap_set_status c token CapCompleted a"

definition revoke_run :: "string \<Rightarrow> bool \<Rightarrow> authority \<Rightarrow> authority" where
  "revoke_run run completed a = map (\<lambda>(h, s). (h, if ca_run_id (st_claims s) = run
     then s\<lparr>st_status := (if completed then CapCompleted else CapCancelled)\<rparr> else s)) a"

section \<open>Snapshots and the input of a run\<close>

datatype coding_run_error = SandboxUnavailable | CodexAuthenticationUnavailable | RepositoryIsolationUnavailable
| SandboxFailed | RunTimedOut | CleanupRequired

record repository_snapshot =
  rs_base_commit_sha :: string
  rs_archive :: string

definition snapshot_validate_for :: "repository_snapshot \<Rightarrow> coding_operation \<Rightarrow> coding_run_error + unit" where
  "snapshot_validate_for s op =
     (if rs_base_commit_sha s \<noteq> cr_base_commit_sha (coding_run_of op) \<or> rs_archive s = []
         \<or> length (rs_archive s) > MAX_REPOSITORY_ARCHIVE_BYTES
      then Inl RepositoryIsolationUnavailable else Inr ())"

definition snapshot_sha256_hex :: "crypto \<Rightarrow> repository_snapshot \<Rightarrow> string" where
  "snapshot_sha256_hex c s = hex_encode c (sha256 c (rs_archive s))"

record sandbox_run_input =
  si_request_id :: string
  si_run_id :: string
  si_session_id :: string
  si_repository :: repository_identity
  si_base_commit_sha :: string
  si_snapshot_sha256 :: string
  si_budget_reservation_id :: string
  si_operation :: brokered_codex_operation
  si_max_output_bytes :: nat
  si_timeout_secs :: nat

definition input_from_approved :: "crypto \<Rightarrow> signed_coding_request \<Rightarrow> string \<Rightarrow> repository_snapshot \<Rightarrow> coding_protocol_error + sandbox_run_input" where
  "input_from_approved c r run s =
     (case coding_validate (sc_operation r) of
        Inl e \<Rightarrow> Inl e
      | Inr _ \<Rightarrow>
          if isl (snapshot_validate_for s (sc_operation r)) then Inl InvalidCodingOperation
          else let op = coding_run_of (sc_operation r) in
            Inr \<lparr>si_request_id = sc_request_id r, si_run_id = run, si_session_id = cr_session_id op,
              si_repository = cr_repository op, si_base_commit_sha = cr_base_commit_sha op,
              si_snapshot_sha256 = snapshot_sha256_hex c s, si_budget_reservation_id = cr_budget_reservation_id op,
              si_operation = RunApprovedTask, si_max_output_bytes = cr_max_output_bytes op,
              si_timeout_secs = cr_timeout_secs op\<rparr>)"

definition brokered_request :: "sandbox_run_input \<Rightarrow> brokered_codex_request" where
  "brokered_request i = \<lparr>bq_request_id = si_request_id i, bq_run_id = si_run_id i, bq_session_id = si_session_id i,
     bq_repository = si_repository i, bq_base_commit_sha = si_base_commit_sha i,
     bq_budget_reservation_id = si_budget_reservation_id i, bq_operation = si_operation i\<rparr>"

section \<open>The task envelope\<close>

record provenanced_fact =
  pf_fact :: string
  pf_source :: string

record task_envelope =
  te_intent :: string
  te_objective :: string
  te_owner_constraints :: "string list"
  te_recent_deltas :: "string list"
  te_selected_facts :: "provenanced_fact list"
  te_repository :: repository_identity
  te_base_commit_sha :: string
  te_session_id :: string
  te_checkpoint :: "coding_checkpoint option"
  te_timeout_secs :: nat
  te_max_output_bytes :: nat

record task_context_input =
  tx_original_objective :: "string option"
  tx_owner_constraints :: "string list"
  tx_recent_deltas :: "string list"
  tx_selected_facts :: "provenanced_fact list"

definition context_ok :: "task_context_input \<Rightarrow> bool" where
  "context_ok x \<longleftrightarrow>
     \<not> (case tx_original_objective x of None \<Rightarrow> False | Some v \<Rightarrow> trim_is_empty v \<or> chars_count v > MAX_TASK_SUMMARY_CHARS)
   \<and> length (tx_owner_constraints x) \<le> 8
   \<and> \<not> list_ex (\<lambda>v. trim_is_empty v \<or> chars_count v > 1000) (tx_owner_constraints x)
   \<and> length (tx_selected_facts x) \<le> 16
   \<and> \<not> list_ex (\<lambda>f. trim_is_empty (pf_fact f) \<or> chars_count (pf_fact f) > 1000
        \<or> \<not> is_safe_identifier (pf_source f) 128) (tx_selected_facts x)"

definition last_chars :: "nat \<Rightarrow> string \<Rightarrow> string" where
  "last_chars n s = drop (length (take_chars (chars_count s - n) s)) s"

definition last_n :: "nat \<Rightarrow> 'a list \<Rightarrow> 'a list" where
  "last_n n xs = rev (List.take n (rev xs))"

fun envelope_objective :: "coding_operation \<Rightarrow> task_context_input \<Rightarrow> (string \<times> coding_checkpoint option) option" where
  "envelope_objective (StartCodingRun _ _ objective checkpoint) x =
     (if tx_original_objective x \<noteq> None then None else Some (objective, checkpoint))"
| "envelope_objective (ResumeCodingRun _ checkpoint _) x =
     map_option (\<lambda>v. (v, Some checkpoint)) (tx_original_objective x)"

text \<open>Deltas are dropped first, then facts, until the encoding fits.\<close>

function fit_envelope :: "(task_envelope \<Rightarrow> string option) \<Rightarrow> task_envelope \<Rightarrow> coding_protocol_error + task_envelope" where
  "fit_envelope to_vec e = (case to_vec e of
     None \<Rightarrow> Inl InvalidCodingOperation
   | Some b \<Rightarrow>
       if length b \<le> MAX_TASK_ENVELOPE_BYTES then Inr e
       else case te_recent_deltas e of
         _ # ds \<Rightarrow> fit_envelope to_vec (e\<lparr>te_recent_deltas := ds\<rparr>)
       | [] \<Rightarrow> (case te_selected_facts e of
           _ # fs \<Rightarrow> fit_envelope to_vec (e\<lparr>te_selected_facts := fs\<rparr>)
         | [] \<Rightarrow> Inl InvalidCodingOperation))"
  by pat_completeness auto
termination
  by (relation "measure (\<lambda>(_, e). length (te_recent_deltas e) + length (te_selected_facts e))") auto

definition compile_task_envelope ::
  "(task_envelope \<Rightarrow> string option) \<Rightarrow> coding_operation \<Rightarrow> task_context_input \<Rightarrow> coding_protocol_error + task_envelope" where
  "compile_task_envelope to_vec op x =
     (case coding_validate op of
        Inl e \<Rightarrow> Inl e
      | Inr _ \<Rightarrow>
          if \<not> context_ok x then Inl InvalidCodingOperation
          else case envelope_objective op x of
            None \<Rightarrow> Inl InvalidCodingOperation
          | Some (objective, checkpoint) \<Rightarrow>
              let r = coding_run_of op in
              fit_envelope to_vec \<lparr>te_intent = ''coding'', te_objective = objective,
                te_owner_constraints = tx_owner_constraints x,
                te_recent_deltas = map (last_chars 2048) (last_n 8 (tx_recent_deltas x)),
                te_selected_facts = tx_selected_facts x, te_repository = cr_repository r,
                te_base_commit_sha = cr_base_commit_sha r, te_session_id = cr_session_id r, te_checkpoint = checkpoint,
                te_timeout_secs = cr_timeout_secs r, te_max_output_bytes = cr_max_output_bytes r\<rparr>)"

definition validate_with_context :: "sandbox_run_input \<Rightarrow> task_envelope \<Rightarrow> coding_protocol_error + unit" where
  "validate_with_context i e =
     (if si_run_id i = nil_uuid \<or> si_request_id i = nil_uuid \<or> si_session_id i = nil_uuid
         \<or> si_budget_reservation_id i = nil_uuid \<or> si_repository i \<noteq> te_repository e
         \<or> si_base_commit_sha i \<noteq> te_base_commit_sha e \<or> si_session_id i \<noteq> te_session_id e
         \<or> si_timeout_secs i \<noteq> te_timeout_secs e \<or> si_max_output_bytes i \<noteq> te_max_output_bytes e
         \<or> \<not> is_commit_sha (si_base_commit_sha i) \<or> length (si_snapshot_sha256 i) \<noteq> 64
         \<or> \<not> list_all is_hex_digit (si_snapshot_sha256 i) \<or> si_operation i \<noteq> RunApprovedTask
      then Inl InvalidCodingOperation else Inr ())"

section \<open>Sessions and tasks\<close>

datatype session_state = SActive | SSuspended | SCompleted | SCancelled | SArchived

record coding_session =
  cs_id :: string
  cs_repository :: string
  cs_base_revision :: string
  cs_objective :: string
  cs_state :: session_state
  cs_checkpoint :: "coding_checkpoint option"

definition session_new :: "string \<Rightarrow> string \<Rightarrow> string \<Rightarrow> string \<Rightarrow> task_error + coding_session" where
  "session_new i repository base objective =
     (if trim_is_empty repository \<or> chars_count repository > 512 \<or> length base > 128 \<or> trim_is_empty objective
         \<or> chars_count objective > MAX_TASK_SUMMARY_CHARS
      then Inl InvalidSummary
      else Inr \<lparr>cs_id = i, cs_repository = repository, cs_base_revision = base, cs_objective = objective,
             cs_state = SActive, cs_checkpoint = None\<rparr>)"

definition session_checkpoint :: "coding_checkpoint \<Rightarrow> coding_session \<Rightarrow> (task_error + unit) \<times> coding_session" where
  "session_checkpoint c s =
     (case checkpoint_validate c of
        Inl e \<Rightarrow> (Inl e, s)
      | Inr _ \<Rightarrow> if cs_state s \<noteq> SActive then (Inl InvalidSessionTransition, s)
                 else (Inr (), s\<lparr>cs_checkpoint := Some c\<rparr>))"

fun session_allowed :: "session_state \<Rightarrow> session_state \<Rightarrow> bool" where
  "session_allowed SActive to = (to \<in> {SSuspended, SCompleted, SCancelled})"
| "session_allowed SSuspended to = (to \<in> {SActive, SCancelled, SArchived})"
| "session_allowed SCompleted to = (to = SArchived)"
| "session_allowed SCancelled to = (to = SArchived)"
| "session_allowed SArchived to = False"

definition session_transition :: "session_state \<Rightarrow> coding_session \<Rightarrow> (task_error + unit) \<times> coding_session" where
  "session_transition to s =
     (if \<not> session_allowed (cs_state s) to then (Inl InvalidSessionTransition, s)
      else (Inr (), s\<lparr>cs_state := to\<rparr>))"

definition is_terminal :: "task_state \<Rightarrow> bool" where
  "is_terminal t \<longleftrightarrow> t \<in> {TCompleted, TFailed, TTimedOut, TCancelled}"

record engineering_task =
  et_id :: string
  et_summary :: string
  et_state :: task_state
  et_created_at :: int
  et_deadline :: int

definition task_new :: "string \<Rightarrow> string \<Rightarrow> int \<Rightarrow> int \<Rightarrow> task_error + engineering_task" where
  "task_new i summary created deadline =
     (if trim_is_empty summary \<or> chars_count summary > MAX_TASK_SUMMARY_CHARS then Inl InvalidSummary
      else if deadline \<le> created then Inl InvalidDeadline
      else Inr \<lparr>et_id = i, et_summary = summary, et_state = TQueued, et_created_at = created, et_deadline = deadline\<rparr>)"

definition task_allowed :: "(task_state \<times> task_state) list" where
  "task_allowed = [(TQueued, TStarting), (TQueued, TCancelled), (TStarting, TRunning), (TStarting, TFailed),
     (TStarting, TTimedOut), (TStarting, TCancelling), (TRunning, TCompleted), (TRunning, TFailed),
     (TRunning, TTimedOut), (TRunning, TCancelling), (TCancelling, TCancelled), (TCancelling, TFailed),
     (TCancelling, TTimedOut)]"

definition task_transition :: "task_state \<Rightarrow> engineering_task \<Rightarrow> (task_error + unit) \<times> engineering_task" where
  "task_transition to t =
     (if (et_state t, to) \<notin> set task_allowed then (Inl (InvalidTransition (et_state t) to), t)
      else (Inr (), t\<lparr>et_state := to\<rparr>))"

section \<open>The app server\<close>

datatype app_server_request =
  Initialize string string
| StartThread "string option"
| StartTurn string string
| InterruptTurn string string

definition rpc :: "string \<Rightarrow> nat \<Rightarrow> (string \<times> jvalue) list \<Rightarrow> jvalue" where
  "rpc m i ps = JObj [(''method'', JStr m), (''id'', JInt (int i)), (''params'', JObj ps)]"

fun json_rpc :: "nat \<Rightarrow> app_server_request \<Rightarrow> jvalue" where
  "json_rpc i (Initialize n v) = rpc ''initialize'' i [(''clientInfo'',
     JObj [(''name'', JStr n), (''title'', JStr ''Jarvis Core''), (''version'', JStr v)])]"
| "json_rpc i (StartThread m) = rpc ''thread/start'' i [(''model'', case m of None \<Rightarrow> JNull | Some x \<Rightarrow> JStr x)]"
| "json_rpc i (StartTurn t inp) = rpc ''turn/start'' i [(''threadId'', JStr t),
     (''input'', JArr [JObj [(''type'', JStr ''text''), (''text'', JStr inp)]])]"
| "json_rpc i (InterruptTurn t n) = rpc ''turn/interrupt'' i [(''threadId'', JStr t), (''turnId'', JStr n)]"

section \<open>What a capability grants\<close>

record grant =
  gr_hash :: string
  gr_request :: brokered_codex_request
  gr_units :: nat
  gr_time :: int

text \<open>
  One call on the authority; the second component logs what was granted. A token is 32 fresh random bytes, so
  its digest is not one the authority already holds.
\<close>

inductive cap_step :: "crypto \<Rightarrow> authority \<times> grant list \<Rightarrow> authority \<times> grant list \<Rightarrow> bool" for c where
  mint: "map_of a (sha256 c token) = None \<Longrightarrow> cap_step c (a, g) (snd (cap_mint c now token claims a), g)"
| grant: "authorize_raw c token r units now a = (Inr (), a') \<Longrightarrow>
    cap_step c (a, g) (a', \<lparr>gr_hash = sha256 c token, gr_request = r, gr_units = units, gr_time = now\<rparr> # g)"
| refuse: "authorize_raw c token r units now a = (Inl e, a') \<Longrightarrow> cap_step c (a, g) (a', g)"
| cancel: "cap_step c (a, g) (revoke_for_cancel c token a, g)"
| complete: "cap_step c (a, g) (revoke_for_completion c token a, g)"
| revoke: "cap_step c (a, g) (revoke_run run completed a, g)"

inductive_cases cap_stepE: "cap_step c (a, g) (a', g')"

definition grants_of :: "string \<Rightarrow> grant list \<Rightarrow> grant list" where
  "grants_of h g = filter (\<lambda>x. gr_hash x = h) g"

definition bound_to :: "run_capability_claims \<Rightarrow> grant \<Rightarrow> bool" where
  "bound_to cl x \<longleftrightarrow> gr_request x = \<lparr>bq_request_id = bq_request_id (gr_request x), bq_run_id = ca_run_id cl,
      bq_session_id = ca_session_id cl, bq_repository = ca_repository cl, bq_base_commit_sha = ca_base_commit_sha cl,
      bq_budget_reservation_id = ca_budget_reservation_id cl, bq_operation = ca_operation cl\<rparr>
    \<and> gr_time x < ca_expires_at cl \<and> 0 < gr_units x"

definition stored_ok :: "grant list \<Rightarrow> stored_capability \<Rightarrow> bool" where
  "stored_ok gs s \<longleftrightarrow> st_used_request_ids s = map (\<lambda>x. bq_request_id (gr_request x)) gs
    \<and> st_used_units s = min (sum_list (map gr_units gs)) u64_max \<and> distinct (st_used_request_ids s)
    \<and> length (st_used_request_ids s) \<le> MAX_CAPABILITY_REQUESTS
    \<and> (st_used_units s \<le> ca_execution_unit_limit (st_claims s))
    \<and> list_all (bound_to (st_claims s)) gs"

definition entry_ok :: "string \<Rightarrow> stored_capability option \<Rightarrow> grant list \<Rightarrow> bool" where
  "entry_ok h m gs = (case m of None \<Rightarrow> gs = [] | Some s \<Rightarrow> st_token_hash s = h \<and> stored_ok gs s)"

definition cap_inv :: "authority \<times> grant list \<Rightarrow> bool" where
  "cap_inv w \<longleftrightarrow> (\<forall>h. entry_ok h (map_of (fst w) h) (grants_of h (snd w)))"

lemma map_of_revoke_run: "map_of (revoke_run run b a) h = map_option (\<lambda>s. if ca_run_id (st_claims s) = run
    then s\<lparr>st_status := (if b then CapCompleted else CapCancelled)\<rparr> else s) (map_of a h)"
  by (induction a) (simp_all add: revoke_run_def split_beta)

lemma stored_ok_status [simp]: "stored_ok gs (s\<lparr>st_status := x\<rparr>) = stored_ok gs s"
  by (simp add: stored_ok_def)

lemma authorize_raw_Inr:
  assumes "authorize_raw c token r units now a = (Inr (), a')"
  shows "\<exists>s. map_of a (sha256 c token) = Some s \<and> cap_check (sha256 c token) s r units now = Inr ()
    \<and> a' = hm_insert (sha256 c token) (s\<lparr>st_used_request_ids := bq_request_id r # st_used_request_ids s,
        st_used_units := sat_add u64_max (st_used_units s) units\<rparr>) a"
  using assms by (auto simp: authorize_raw_def Let_def split: if_splits option.splits sum.splits)

lemma authorize_raw_Inl: "authorize_raw c token r units now a = (Inl e, a') \<Longrightarrow> a' = a"
  by (auto simp: authorize_raw_def Let_def split: if_splits option.splits sum.splits)

lemma cap_check_ok:
  assumes "cap_check h s r units now = Inr ()"
  shows "st_token_hash s = h \<and> st_status s = CapActive \<and> now < ca_expires_at (st_claims s)
    \<and> bound_to (st_claims s) \<lparr>gr_hash = h, gr_request = r, gr_units = units, gr_time = now\<rparr>
    \<and> bq_request_id r \<notin> set (st_used_request_ids s) \<and> length (st_used_request_ids s) < MAX_CAPABILITY_REQUESTS
    \<and> sat_add u64_max (st_used_units s) units \<le> ca_execution_unit_limit (st_claims s)"
  using assms by (auto simp: cap_check_def bound_to_def Let_def not_le not_less split: if_splits)


lemma cap_inv_at: "cap_inv (a, g) \<Longrightarrow> entry_ok h (map_of a h) (grants_of h g)"
  by (simp add: cap_inv_def)

lemma cap_inv_insert:
  assumes "cap_inv (a, g)" and "entry_ok h (Some s) (grants_of h g')" and "\<And>k. k \<noteq> h \<Longrightarrow> grants_of k g' = grants_of k g"
  shows "cap_inv (hm_insert h s a, g')"
  unfolding cap_inv_def
proof
  fix k
  show "entry_ok k (map_of (fst (hm_insert h s a, g')) k) (grants_of k (snd (hm_insert h s a, g')))"
    using assms(2) assms(3) [of k] cap_inv_at [OF assms(1), of k] by (cases "k = h") (auto simp: hm_insert_get)
qed

lemma cap_inv_map:
  assumes "cap_inv (a, g)"
    and "\<And>h. map_of a' h = map_of a h \<or> (\<exists>s x. map_of a h = Some s \<and> map_of a' h = Some (s\<lparr>st_status := x\<rparr>))"
  shows "cap_inv (a', g)"
  unfolding cap_inv_def
proof
  fix h
  show "entry_ok h (map_of (fst (a', g)) h) (grants_of h (snd (a', g)))"
    using assms(2) [of h] cap_inv_at [OF assms(1), of h] by (auto simp: entry_ok_def)
qed

lemma stored_ok_grant:
  assumes "stored_ok gs s" and "cap_check h s r units now = Inr ()"
  shows "stored_ok (\<lparr>gr_hash = h, gr_request = r, gr_units = units, gr_time = now\<rparr> # gs)
    (s\<lparr>st_used_request_ids := bq_request_id r # st_used_request_ids s, st_used_units := sat_add u64_max (st_used_units s) units\<rparr>)"
  using assms(1) cap_check_ok [OF assms(2)] by (auto simp: stored_ok_def sat_add_def)

lemma cap_set_status_map: "map_of (cap_set_status c token x a) h = map_of a h
    \<or> (\<exists>s y. map_of a h = Some s \<and> map_of (cap_set_status c token x a) h = Some (s\<lparr>st_status := y\<rparr>))"
  by (auto simp: cap_set_status_def Let_def hm_insert_get split: option.splits)

lemma revoke_run_map: "map_of (revoke_run run b a) h = map_of a h
    \<or> (\<exists>s y. map_of a h = Some s \<and> map_of (revoke_run run b a) h = Some (s\<lparr>st_status := y\<rparr>))"
  unfolding map_of_revoke_run by (cases "map_of a h") auto

lemma cap_step_inv:
  assumes "cap_step c w w'" and "cap_inv w"
  shows "cap_inv w'"
  using assms
proof cases
  case (mint a token g now claims)
  then have "grants_of (sha256 c token) g = []"
    using cap_inv_at [of a g "sha256 c token"] assms(2) by (simp add: entry_ok_def)
  then have "cap_inv (hm_insert (sha256 c token) \<lparr>st_token_hash = sha256 c token, st_claims = claims, st_status = CapActive,
      st_used_request_ids = [], st_used_units = 0\<rparr> a, g)"
    using mint assms(2) by (intro cap_inv_insert) (auto simp: stored_ok_def entry_ok_def)
  with mint assms(2) show ?thesis by (auto simp: cap_mint_def Let_def split: if_splits)
next
  case (grant token r units now a a' g)
  let ?h = "sha256 c token"
  obtain s where s: "map_of a ?h = Some s" and chk: "cap_check ?h s r units now = Inr ()"
    and a': "a' = hm_insert ?h (s\<lparr>st_used_request_ids := bq_request_id r # st_used_request_ids s,
        st_used_units := sat_add u64_max (st_used_units s) units\<rparr>) a"
    using authorize_raw_Inr [OF grant(3)] by blast
  have inv: "cap_inv (a, g)" using assms(2) grant(1) by simp
  have "cap_inv (a', \<lparr>gr_hash = ?h, gr_request = r, gr_units = units, gr_time = now\<rparr> # g)"
    unfolding a' using cap_inv_at [OF inv, of ?h] stored_ok_grant [OF _ chk]
    by (intro cap_inv_insert [OF inv]) (auto simp: grants_of_def entry_ok_def s)
  with grant show ?thesis by simp
next
  case (refuse token r units now a e a' g)
  with assms(2) show ?thesis by (auto dest: authorize_raw_Inl)
next
  case (cancel a g token)
  with assms(2) show ?thesis unfolding revoke_for_cancel_def by (simp add: cap_inv_map [OF _ cap_set_status_map])
next
  case (complete a g token)
  with assms(2) show ?thesis unfolding revoke_for_completion_def by (simp add: cap_inv_map [OF _ cap_set_status_map])
next
  case (revoke a g run completed)
  with assms(2) show ?thesis by (simp add: cap_inv_map [OF _ revoke_run_map])
qed

lemma cap_run_inv: "(cap_step c)\<^sup>*\<^sup>* w w' \<Longrightarrow> cap_inv w \<Longrightarrow> cap_inv w'"
  by (induction rule: rtranclp_induct) (auto intro: cap_step_inv)

definition demo_repository :: repository_identity where
  "demo_repository = \<lparr>ri_id = ''jarvis'', ri_owner = ''owner'', ri_name = ''core''\<rparr>"

definition demo_claims :: run_capability_claims where
  "demo_claims = \<lparr>ca_run_id = ''run'', ca_session_id = ''session'', ca_repository = demo_repository,
     ca_base_commit_sha = replicate 40 CHR ''a'', ca_expires_at = 100, ca_budget_reservation_id = ''budget'',
     ca_execution_unit_limit = 2, ca_operation = RunApprovedTask\<rparr>"

definition demo_binding :: brokered_codex_request where
  "demo_binding = \<lparr>bq_request_id = ''request'', bq_run_id = ''run'', bq_session_id = ''session'', bq_repository = demo_repository,
     bq_base_commit_sha = replicate 40 CHR ''a'', bq_budget_reservation_id = ''budget'', bq_operation = RunApprovedTask\<rparr>"

definition demo_token :: string where "demo_token = replicate 64 CHR ''a''"

definition demo_stored :: stored_capability where
  "demo_stored = \<lparr>st_token_hash = sha256 sample_crypto demo_token, st_claims = demo_claims, st_status = CapActive,
     st_used_request_ids = [], st_used_units = 0\<rparr>"

lemma demo_mint: "cap_mint sample_crypto 0 demo_token demo_claims [] = (Inr demo_token, [(sha256 sample_crypto demo_token, demo_stored)])"
  by code_simp

lemma demo_authorize:
  "authorize_raw sample_crypto demo_token demo_binding 1 50 [(sha256 sample_crypto demo_token, demo_stored)]
    = (Inr (), [(sha256 sample_crypto demo_token, demo_stored\<lparr>st_used_request_ids := [''request''], st_used_units := 1\<rparr>)])"
proof -
  have t: "length demo_token = 64" "list_all is_hex_digit demo_token" by code_simp+
  show ?thesis
    by (simp add: authorize_raw_def t cap_check_def demo_stored_def demo_claims_def demo_binding_def eval_simps
        MAX_CAPABILITY_REQUESTS_def)
qed

lemma demo_cap_run:
  "(cap_step sample_crypto)\<^sup>*\<^sup>* ([], []) ([(sha256 sample_crypto demo_token, demo_stored\<lparr>st_used_request_ids := [''request''],
      st_used_units := 1\<rparr>)], [\<lparr>gr_hash = sha256 sample_crypto demo_token, gr_request = demo_binding, gr_units = 1, gr_time = 50\<rparr>])"
proof -
  have "cap_step sample_crypto ([], []) ([(sha256 sample_crypto demo_token, demo_stored)], [])"
    using cap_step.mint [of "[]" sample_crypto demo_token "[]" 0 demo_claims] by (simp add: demo_mint)
  moreover note cap_step.grant [OF demo_authorize, of "[]"]
  ultimately show ?thesis by (meson rtranclp.rtrancl_into_rtrancl rtranclp.rtrancl_refl)
qed

text \<open>
  C28. However requests, cancellations and completions interleave, a run capability grants at most four requests, each
  request once, each equal to the claims it was minted with and before their expiry; and, for a limit below the largest
  64-bit number, never more execution units than its limit. At the largest number itself the used units saturate at the limit, so
  no sum of units is refused any more and only the number of requests is bounded.\<close>

theorem capability_grants_are_bounded:
  assumes "(cap_step c)\<^sup>*\<^sup>* ([], []) (a, g)" and "map_of a h = Some s"
  shows "distinct (map (\<lambda>x. bq_request_id (gr_request x)) (grants_of h g)) \<and> length (grants_of h g) \<le> 4
    \<and> list_all (bound_to (st_claims s)) (grants_of h g)
    \<and> (ca_execution_unit_limit (st_claims s) < u64_max \<longrightarrow>
         sum_list (map gr_units (grants_of h g)) \<le> ca_execution_unit_limit (st_claims s))"
proof -
  have "cap_inv ([], [])" by (simp add: cap_inv_def entry_ok_def grants_of_def)
  then have "cap_inv (a, g)" by (rule cap_run_inv [OF assms(1)])
  from cap_inv_at [OF this, of h] assms(2) have ok: "stored_ok (grants_of h g) s" by (simp add: entry_ok_def)
  then have "length (map (\<lambda>x. bq_request_id (gr_request x)) (grants_of h g)) \<le> 4"
    unfolding stored_ok_def MAX_CAPABILITY_REQUESTS_def by metis
  with ok show ?thesis by (auto simp: stored_ok_def min_def split: if_splits)
qed

theorem capability_grants_are_bounded_witness:
  "\<exists>a g s. (cap_step sample_crypto)\<^sup>*\<^sup>* ([], []) (a, g) \<and> map_of a (sha256 sample_crypto demo_token) = Some s
    \<and> length (grants_of (sha256 sample_crypto demo_token) g) = 1
    \<and> sum_list (map gr_units (grants_of (sha256 sample_crypto demo_token) g)) \<le> 2"
proof -
  note b = capability_grants_are_bounded [OF demo_cap_run, of "sha256 sample_crypto demo_token"]
  let ?s = "demo_stored\<lparr>st_used_request_ids := [''request''], st_used_units := 1\<rparr>"
  have l: "ca_execution_unit_limit (st_claims ?s) = 2" by code_simp
  have "sum_list (map gr_units (grants_of (sha256 sample_crypto demo_token)
      [\<lparr>gr_hash = sha256 sample_crypto demo_token, gr_request = demo_binding, gr_units = 1, gr_time = 50\<rparr>])) \<le> 2"
    using b [of ?s] unfolding l by (simp add: u64_max_def)
  moreover have "length (grants_of (sha256 sample_crypto demo_token)
      [\<lparr>gr_hash = sha256 sample_crypto demo_token, gr_request = demo_binding, gr_units = 1, gr_time = 50\<rparr>]) = 1"
    by (simp add: grants_of_def)
  moreover have "map_of [(sha256 sample_crypto demo_token, ?s)] (sha256 sample_crypto demo_token) = Some ?s" by simp
  ultimately show ?thesis using demo_cap_run by blast
qed

definition dead :: "string \<Rightarrow> authority \<Rightarrow> bool" where
  "dead h a \<longleftrightarrow> (\<exists>s. map_of a h = Some s \<and> st_status s \<noteq> CapActive)"

lemma dead_refused: "dead (sha256 c token) a \<Longrightarrow> isl (fst (authorize_raw c token r units now a))
    \<and> snd (authorize_raw c token r units now a) = a"
  by (auto simp: dead_def authorize_raw_def cap_check_def Let_def split: if_splits option.splits sum.splits)

lemma dead_step:
  assumes "cap_step c w w'" and "dead h (fst w)"
  shows "dead h (fst w') \<and> grants_of h (snd w') = grants_of h (snd w)"
  using assms
proof cases
  case (grant token r units now a a' g)
  then have "sha256 c token \<noteq> h" using dead_refused [of c token a r units now] assms(2) by auto
  moreover obtain s where "a' = hm_insert (sha256 c token) s a" using authorize_raw_Inr [OF grant(3)] by blast
  ultimately show ?thesis using grant assms(2) by (simp add: dead_def hm_insert_get grants_of_def)
next
  case (revoke a g run completed)
  then obtain s where s: "map_of a h = Some s" "st_status s \<noteq> CapActive" using assms(2) by (auto simp: dead_def)
  show ?thesis unfolding revoke dead_def fst_conv snd_conv map_of_revoke_run s(1) using s(2) by simp
qed (use assms(2) in \<open>auto simp: dead_def cap_mint_def revoke_for_cancel_def revoke_for_completion_def cap_set_status_def Let_def
      hm_insert_get dest: authorize_raw_Inl split: if_splits option.splits\<close>)

lemma dead_run: "(cap_step c)\<^sup>*\<^sup>* w w' \<Longrightarrow> dead h (fst w) \<Longrightarrow> dead h (fst w') \<and> grants_of h (snd w') = grants_of h (snd w)"
  by (induction rule: rtranclp_induct) (auto dest: dead_step)

text \<open>
  C29. Once the broker revoked a run, none of its capabilities grants anything again, whatever is minted, authorised or revoked
  afterwards: every request with such a token is refused and leaves the authority as it is.\<close>

theorem revoked_run_stays_dead:
  assumes "map_of a h = Some s" and "ca_run_id (st_claims s) = run"
    and "(cap_step c)\<^sup>*\<^sup>* (revoke_run run completed a, g) (a', g')"
  shows "grants_of h g' = grants_of h g \<and> (\<forall>token r units now. sha256 c token = h \<longrightarrow>
    isl (fst (authorize_raw c token r units now a')) \<and> snd (authorize_raw c token r units now a') = a')"
proof -
  have "dead h (revoke_run run completed a)" using assms(1,2) by (simp add: dead_def map_of_revoke_run)
  from dead_run [OF assms(3)] this have "dead h a'" "grants_of h g' = grants_of h g" by simp_all
  then show ?thesis using dead_refused by blast
qed

theorem revoked_run_stays_dead_witness:
  "isl (fst (authorize_raw sample_crypto demo_token demo_binding 1 50 (revoke_run ''run'' True [(sha256 sample_crypto demo_token, demo_stored)])))"
proof -
  have m: "map_of [(sha256 sample_crypto demo_token, demo_stored)] (sha256 sample_crypto demo_token) = Some demo_stored" by simp
  have r: "ca_run_id (st_claims demo_stored) = ''run''" by code_simp
  show ?thesis using revoked_run_stays_dead [OF m r rtranclp.rtrancl_refl] by blast
qed

section \<open>The life of a task\<close>

text \<open>The transitions a caller makes, each of which succeeds.\<close>

fun task_path :: "task_state list \<Rightarrow> engineering_task \<Rightarrow> engineering_task option" where
  "task_path [] t = Some t"
| "task_path (to # tos) t = (case task_transition to t of (Inl _, _) \<Rightarrow> None | (Inr _, t') \<Rightarrow> task_path tos t')"

fun task_rank :: "task_state \<Rightarrow> nat" where
  "task_rank TQueued = 4"
| "task_rank TStarting = 3"
| "task_rank TRunning = 2"
| "task_rank TCancelling = 1"
| "task_rank _ = 0"

lemma task_transition_ok:
  "fst (task_transition to t) = Inr () \<Longrightarrow> task_rank to < task_rank (et_state t) \<and> snd (task_transition to t) = t\<lparr>et_state := to\<rparr>"
  by (auto simp: task_transition_def task_allowed_def split: if_splits)

lemma task_path_rank: "task_path tos t = Some t' \<Longrightarrow> length tos + task_rank (et_state t') \<le> task_rank (et_state t)"
proof (induction tos arbitrary: t)
  case (Cons to tos)
  then have ok: "fst (task_transition to t) = Inr ()" and rest: "task_path tos (snd (task_transition to t)) = Some t'"
    by (auto split: prod.splits sum.splits)
  from Cons.IH [OF rest] task_transition_ok [OF ok] show ?case by simp
qed simp

lemma task_path_completed:
  "task_path tos t = Some t' \<Longrightarrow> et_state t' = TCompleted \<Longrightarrow> et_state t \<in> {TCompleted, TRunning} \<or> TRunning \<in> set tos"
proof (induction tos arbitrary: t)
  case (Cons to tos)
  then have ok: "(et_state t, to) \<in> set task_allowed" and rest: "task_path tos (t\<lparr>et_state := to\<rparr>) = Some t'"
    by (auto simp: task_transition_def split: if_splits)
  from Cons.IH [OF rest Cons.prems(2)] ok show ?case by (auto simp: task_allowed_def)
qed simp

lemma terminal_final: "is_terminal (et_state t) \<Longrightarrow> isl (fst (task_transition to t)) \<and> snd (task_transition to t) = t"
  by (auto simp: is_terminal_def task_transition_def task_allowed_def)

lemma not_terminal_moves: "\<not> is_terminal (et_state t) \<Longrightarrow> \<exists>to. is_terminal to \<and> fst (task_transition to t) = Inr ()"
proof (cases "et_state t")
  case TQueued
  then show ?thesis by (intro exI [of _ TCancelled]) (simp add: is_terminal_def task_transition_def task_allowed_def)
qed (auto simp: is_terminal_def task_transition_def task_allowed_def)

text \<open>
  An engineering task makes at most four transitions: a terminal state is never left, a task that is not terminal can
  always be ended, and it completes only after it was running.\<close>

theorem task_lifecycle_ends:
  assumes "task_new i summary created deadline = Inr t" and "task_path tos t = Some t'"
  shows "length tos \<le> 4 \<and> (et_state t' = TCompleted \<longrightarrow> TRunning \<in> set tos)
    \<and> (is_terminal (et_state t') \<longrightarrow> (\<forall>to. isl (fst (task_transition to t')) \<and> snd (task_transition to t') = t'))
    \<and> (\<not> is_terminal (et_state t') \<longrightarrow> (\<exists>to. is_terminal to \<and> fst (task_transition to t') = Inr ()))"
proof -
  have q: "et_state t = TQueued" using assms(1) by (auto simp: task_new_def split: if_splits)
  with task_path_rank [OF assms(2)] have "length tos \<le> 4" by simp
  moreover have "et_state t' = TCompleted \<longrightarrow> TRunning \<in> set tos" using task_path_completed [OF assms(2)] q by simp
  ultimately show ?thesis using terminal_final not_terminal_moves by blast
qed

theorem task_lifecycle_ends_witness:
  "\<exists>t t'. task_new ''id'' ''inspect'' 0 5 = Inr t \<and> task_path [TStarting, TRunning, TCancelling, TCancelled] t = Some t'
    \<and> (\<forall>to. snd (task_transition to t') = t')"
proof -
  let ?t = "\<lparr>et_id = ''id'', et_summary = ''inspect'', et_state = TQueued, et_created_at = 0, et_deadline = 5\<rparr>"
  have n: "task_new ''id'' ''inspect'' 0 5 = Inr ?t"
    by (simp add: task_new_def not_blank ws_prefix_def byte_def chars_count_def MAX_TASK_SUMMARY_CHARS_def)
  have p: "task_path [TStarting, TRunning, TCancelling, TCancelled] ?t = Some (?t\<lparr>et_state := TCancelled\<rparr>)" by code_simp
  have "is_terminal (et_state (?t\<lparr>et_state := TCancelled\<rparr>))" by code_simp
  with task_lifecycle_ends [OF n p] n p show ?thesis by blast
qed

section \<open>The envelope\<close>

lemma take_chars_prefix: "take_chars k s @ drop (length (take_chars k s)) s = s"
  by (induction k s rule: take_chars.induct) (auto split: nat.splits)

lemma take_chars_count: "chars_count (take_chars k s) = min k (chars_count s)"
  by (induction k s rule: take_chars.induct) (auto simp: chars_count_def split: nat.splits)

lemma last_chars_count: "chars_count (last_chars n s) \<le> n"
proof -
  let ?t = "take_chars (chars_count s - n) s"
  have "chars_count (?t @ drop (length ?t) s) = chars_count s" by (simp only: take_chars_prefix)
  then have "chars_count ?t + chars_count (last_chars n s) = chars_count s" by (simp add: chars_count_def last_chars_def)
  then show ?thesis using take_chars_count [of "chars_count s - n" s] by simp
qed

definition envelope_fits :: "(task_envelope \<Rightarrow> string option) \<Rightarrow> task_envelope \<Rightarrow> bool" where
  "envelope_fits to_vec e \<longleftrightarrow> (\<exists>b. to_vec e = Some b \<and> length b \<le> MAX_TASK_ENVELOPE_BYTES)"

lemma fit_envelope_ok:
  assumes "fit_envelope to_vec e = Inr e'"
  shows "\<exists>n m. e' = e\<lparr>te_recent_deltas := drop n (te_recent_deltas e), te_selected_facts := drop m (te_selected_facts e)\<rparr>
    \<and> envelope_fits to_vec e' \<and> (0 < m \<longrightarrow> te_recent_deltas e' = [])"
  using assms
proof (induction to_vec e rule: fit_envelope.induct)
  case (1 to_vec e)
  obtain b where b: "to_vec e = Some b" using "1.prems" by (cases "to_vec e") auto
  show ?case
  proof (cases "length b \<le> MAX_TASK_ENVELOPE_BYTES")
    case True
    with "1.prems" b have "e' = e" by simp
    with b True show ?thesis by (intro exI [of _ 0]) (simp add: envelope_fits_def)
  next
    case big: False
    show ?thesis
    proof (cases "te_recent_deltas e")
      case (Cons d ds)
      with "1.prems" b big have "fit_envelope to_vec (e\<lparr>te_recent_deltas := ds\<rparr>) = Inr e'" by simp
      from "1.IH"(2) [OF b big Cons this] obtain n m where
        "e' = (e\<lparr>te_recent_deltas := ds\<rparr>)\<lparr>te_recent_deltas := drop n (te_recent_deltas (e\<lparr>te_recent_deltas := ds\<rparr>)),
          te_selected_facts := drop m (te_selected_facts (e\<lparr>te_recent_deltas := ds\<rparr>))\<rparr>"
        "envelope_fits to_vec e'" "0 < m \<longrightarrow> te_recent_deltas e' = []" by blast
      then show ?thesis by (intro exI [of _ "Suc n"] exI [of _ m]) (simp add: Cons)
    next
      case Nil
      then obtain f fs where f: "te_selected_facts e = f # fs" using "1.prems" b big by (auto split: list.splits)
      with "1.prems" b big Nil have "fit_envelope to_vec (e\<lparr>te_selected_facts := fs\<rparr>) = Inr e'" by simp
      from "1.IH"(1) [OF b big Nil f this] obtain n m where
        "e' = e\<lparr>te_recent_deltas := [], te_selected_facts := drop m fs\<rparr>" "envelope_fits to_vec e'" by (auto simp: Nil)
      then show ?thesis by (intro exI [of _ 0] exI [of _ "Suc m"]) (simp add: Nil f)
    qed
  qed
qed

lemma fit_envelope_total: "envelope_fits to_vec (e\<lparr>te_recent_deltas := [], te_selected_facts := []\<rparr>) \<Longrightarrow>
    (\<forall>x. to_vec x \<noteq> None) \<Longrightarrow> \<exists>e'. fit_envelope to_vec e = Inr e'"
proof (induction to_vec e rule: fit_envelope.induct)
  case (1 to_vec e)
  obtain b where b: "to_vec e = Some b" using "1.prems"(2) by blast
  show ?case
  proof (cases "length b \<le> MAX_TASK_ENVELOPE_BYTES")
    case big: False
    show ?thesis
    proof (cases "te_recent_deltas e")
      case (Cons d ds)
      from "1.IH"(2) [OF b big Cons] "1.prems" show ?thesis using b big Cons by auto
    next
      case Nil
      then show ?thesis
      proof (cases "te_selected_facts e")
        case (Cons f fs)
        from "1.IH"(1) [OF b big Nil Cons] "1.prems" show ?thesis using b big Nil Cons by auto
      next
        case none: Nil
        with Nil have "e\<lparr>te_recent_deltas := [], te_selected_facts := []\<rparr> = e" by simp
        with "1.prems"(1) b big show ?thesis by (simp add: envelope_fits_def)
      qed
    qed
  qed (simp add: b)
qed

lemma compile_ok:
  assumes "compile_task_envelope to_vec op x = Inr e"
  shows "\<exists>objective checkpoint n m. envelope_objective op x = Some (objective, checkpoint)
    \<and> coding_validate op = Inr () \<and> context_ok x \<and> envelope_fits to_vec e \<and> (0 < m \<longrightarrow> te_recent_deltas e = [])
    \<and> e = \<lparr>te_intent = ''coding'', te_objective = objective, te_owner_constraints = tx_owner_constraints x,
        te_recent_deltas = drop n (map (last_chars 2048) (last_n 8 (tx_recent_deltas x))),
        te_selected_facts = drop m (tx_selected_facts x), te_repository = cr_repository (coding_run_of op),
        te_base_commit_sha = cr_base_commit_sha (coding_run_of op), te_session_id = cr_session_id (coding_run_of op),
        te_checkpoint = checkpoint, te_timeout_secs = cr_timeout_secs (coding_run_of op),
        te_max_output_bytes = cr_max_output_bytes (coding_run_of op)\<rparr>"
proof -
  obtain objective checkpoint where ob: "envelope_objective op x = Some (objective, checkpoint)"
    and ok: "coding_validate op = Inr ()" "context_ok x"
    using assms by (auto simp: compile_task_envelope_def split: sum.splits if_splits option.splits)
  let ?e = "\<lparr>te_intent = ''coding'', te_objective = objective, te_owner_constraints = tx_owner_constraints x,
        te_recent_deltas = map (last_chars 2048) (last_n 8 (tx_recent_deltas x)),
        te_selected_facts = tx_selected_facts x, te_repository = cr_repository (coding_run_of op),
        te_base_commit_sha = cr_base_commit_sha (coding_run_of op), te_session_id = cr_session_id (coding_run_of op),
        te_checkpoint = checkpoint, te_timeout_secs = cr_timeout_secs (coding_run_of op),
        te_max_output_bytes = cr_max_output_bytes (coding_run_of op)\<rparr>"
  have "fit_envelope to_vec ?e = Inr e" using assms ob ok by (simp add: compile_task_envelope_def Let_def)
  from fit_envelope_ok [OF this] obtain n m where
    "e = ?e\<lparr>te_recent_deltas := drop n (te_recent_deltas ?e), te_selected_facts := drop m (te_selected_facts ?e)\<rparr>"
    "envelope_fits to_vec e" "0 < m \<longrightarrow> te_recent_deltas e = []" by blast
  with ob ok show ?thesis by (intro exI [of _ objective] exI [of _ checkpoint] exI [of _ n] exI [of _ m]) simp
qed

text \<open>
  The context handed to the worker fits in 32 KiB and is the signed task: it keeps the objective (on a resume the
  original one, never the checkpoint's summary), every owner constraint and the checkpoint. Only the oldest deltas are
  dropped, then, once no delta is left, the first facts; a delta has at most 2048 characters and there are at most eight.\<close>

theorem envelope_keeps_the_task:
  assumes "compile_task_envelope to_vec op x = Inr e"
  shows "(\<exists>b. to_vec e = Some b \<and> length b \<le> 32 * 1024)
    \<and> te_objective e = (case op of StartCodingRun _ _ objective _ \<Rightarrow> objective | _ \<Rightarrow> the (tx_original_objective x))
    \<and> te_owner_constraints e = tx_owner_constraints x
    \<and> te_checkpoint e = (case op of StartCodingRun _ _ _ ck \<Rightarrow> ck | ResumeCodingRun _ ck _ \<Rightarrow> Some ck)
    \<and> length (te_recent_deltas e) \<le> 8 \<and> list_all (\<lambda>d. chars_count d \<le> 2048) (te_recent_deltas e)
    \<and> (\<exists>n. te_recent_deltas e = drop n (map (last_chars 2048) (last_n 8 (tx_recent_deltas x))))
    \<and> (\<exists>m. te_selected_facts e = drop m (tx_selected_facts x) \<and> (0 < m \<longrightarrow> te_recent_deltas e = []))"
proof -
  obtain objective checkpoint n m where ob: "envelope_objective op x = Some (objective, checkpoint)"
    and fits: "envelope_fits to_vec e" and fm: "0 < m \<longrightarrow> te_recent_deltas e = []"
    and e: "te_objective e = objective" "te_checkpoint e = checkpoint" "te_owner_constraints e = tx_owner_constraints x"
      "te_recent_deltas e = drop n (map (last_chars 2048) (last_n 8 (tx_recent_deltas x)))"
      "te_selected_facts e = drop m (tx_selected_facts x)"
    using compile_ok [OF assms] by (metis task_envelope.select_convs)
  have "length (te_recent_deltas e) \<le> 8" unfolding e(4) by (simp add: last_n_def)
  moreover have "list_all (\<lambda>d. chars_count d \<le> 2048) (te_recent_deltas e)"
    unfolding e(4) list_all_iff by (auto dest!: in_set_dropD simp: last_chars_count)
  moreover have "te_objective e = (case op of StartCodingRun _ _ objective _ \<Rightarrow> objective | _ \<Rightarrow> the (tx_original_objective x))"
      "te_checkpoint e = (case op of StartCodingRun _ _ _ ck \<Rightarrow> ck | ResumeCodingRun _ ck _ \<Rightarrow> Some ck)"
    using ob e(1,2) by (cases op; auto split: if_splits)+
  ultimately show ?thesis using fits fm e by (auto simp: envelope_fits_def MAX_TASK_ENVELOPE_BYTES_def)
qed

section \<open>A sample request\<close>

definition demo_coding_run :: coding_run where
  "demo_coding_run = \<lparr>cr_session_id = replicate 16 CHR ''s'', cr_repository = demo_repository, cr_base_commit_sha = replicate 40 CHR ''a'',
     cr_timeout_secs = 60, cr_budget_reservation_id = replicate 16 CHR ''b'', cr_max_artifacts = 2, cr_max_output_bytes = 4096\<rparr>"

definition demo_operation :: coding_operation where
  "demo_operation = StartCodingRun demo_coding_run None ''inspect'' None"

definition demo_signed :: signed_coding_request where
  "demo_signed = \<lparr>sc_request_id = replicate 16 CHR ''q'', sc_nonce_hex = replicate 64 CHR ''0'', sc_user_id = replicate 16 CHR ''u'',
     sc_device_id = replicate 16 CHR ''d'', sc_issued_at = 0, sc_expires_at = 100, sc_operation = demo_operation,
     sc_signature_hex = replicate 128 CHR ''0''\<rparr>"

definition demo_context :: task_context_input where
  "demo_context = \<lparr>tx_original_objective = None, tx_owner_constraints = [''no network''], tx_recent_deltas = [''a'', ''b''],
     tx_selected_facts = []\<rparr>"

definition demo_repo_snapshot :: repository_snapshot where
  "demo_repo_snapshot = \<lparr>rs_base_commit_sha = replicate 40 CHR ''a'', rs_archive = ''tar''\<rparr>"

text \<open>An encoder under which one delta is too many.\<close>

definition demo_encode :: "task_envelope \<Rightarrow> string option" where
  "demo_encode e = Some (replicate (32 * 1024 * length (te_recent_deltas e)) CHR ''x'')"

lemma demo_valid: "coding_validate demo_operation = Inr ()"
proof -
  have s: "repository_validate demo_repository = Inr ()" "is_commit_sha (cr_base_commit_sha demo_coding_run)"
      "chars_count ''inspect'' = 7" by code_simp+
  have f: "cr_repository demo_coding_run = demo_repository" "cr_timeout_secs demo_coding_run = 60" "cr_max_artifacts demo_coding_run = 2"
      "cr_max_output_bytes demo_coding_run = 4096" by (simp_all add: demo_coding_run_def)
  have "\<not> trim_is_empty ''inspect''" by (simp add: not_blank ws_prefix_def byte_def)
  then show ?thesis
    by (simp add: demo_operation_def validate_limits_def s f MAX_TASK_SUMMARY_CHARS_def MAX_CODING_TIMEOUT_SECS_def
        MAX_CODING_OUTPUT_BYTES_def)
qed

lemma demo_compile:
  "\<exists>e. compile_task_envelope demo_encode demo_operation demo_context = Inr e \<and> te_recent_deltas e = [''b'']"
proof -
  have c: "context_ok demo_context"
    by (simp add: context_ok_def demo_context_def not_blank ws_prefix_def byte_def chars_count_def)
  have "map (last_chars 2048) (last_n 8 (tx_recent_deltas demo_context)) = [''a'', ''b'']"
    by (simp add: demo_context_def last_n_def last_chars_def chars_count_def byte_def)
  moreover have "envelope_objective demo_operation demo_context = Some (''inspect'', None)"
      "tx_selected_facts demo_context = []" by code_simp+
  ultimately show ?thesis
    by (simp add: compile_task_envelope_def demo_valid c demo_encode_def MAX_TASK_ENVELOPE_BYTES_def Let_def)
qed

theorem envelope_keeps_the_task_witness:
  "\<exists>e. compile_task_envelope demo_encode demo_operation demo_context = Inr e \<and> te_recent_deltas e = [''b'']
    \<and> te_owner_constraints e = [''no network''] \<and> te_objective e = ''inspect''"
proof -
  obtain e where e: "compile_task_envelope demo_encode demo_operation demo_context = Inr e" "te_recent_deltas e = [''b'']"
    using demo_compile by blast
  from envelope_keeps_the_task [OF e(1)] e show ?thesis by (simp add: demo_operation_def demo_context_def)
qed

section \<open>From approval to grant\<close>

lemma input_from_approved_ok:
  assumes "input_from_approved c r run s = Inr i"
  shows "coding_validate (sc_operation r) = Inr () \<and> snapshot_validate_for s (sc_operation r) = Inr ()
    \<and> i = (let op = coding_run_of (sc_operation r) in
        \<lparr>si_request_id = sc_request_id r, si_run_id = run, si_session_id = cr_session_id op,
          si_repository = cr_repository op, si_base_commit_sha = cr_base_commit_sha op,
          si_snapshot_sha256 = snapshot_sha256_hex c s, si_budget_reservation_id = cr_budget_reservation_id op,
          si_operation = RunApprovedTask, si_max_output_bytes = cr_max_output_bytes op, si_timeout_secs = cr_timeout_secs op\<rparr>)"
  using assms by (cases "snapshot_validate_for s (sc_operation r)")
    (auto simp: input_from_approved_def Let_def split: sum.splits if_splits)

lemma claims_ok:
  assumes "claims_from_signed_request run r units = Inr cl"
  shows "0 < units \<and> cl = (let op = coding_run_of (sc_operation r) in
        \<lparr>ca_run_id = run, ca_session_id = cr_session_id op, ca_repository = cr_repository op,
             ca_base_commit_sha = cr_base_commit_sha op, ca_expires_at = sc_expires_at r,
             ca_budget_reservation_id = cr_budget_reservation_id op, ca_execution_unit_limit = units,
             ca_operation = RunApprovedTask\<rparr>)"
  using assms by (auto simp: claims_from_signed_request_def Let_def split: if_splits)

lemma validate_commit: "coding_validate op = Inr () \<Longrightarrow> is_commit_sha (cr_base_commit_sha (coding_run_of op))"
  by (cases op) (auto simp: validate_limits_def split: sum.splits if_splits)

text \<open>
  C30. The pieces built from one approved request agree: the input uploaded to the sandbox is accepted against the compiled
  envelope, the capability minted from the request's claims grants the request built from that input once before the
  approval expires, and refuses the same request a second time.\<close>

theorem approved_run_is_consistent:
  assumes "claims_from_signed_request run r units = Inr cl" and "units \<le> u64_max"
    and "input_from_approved c r run s = Inr i" and "compile_task_envelope to_vec (sc_operation r) x = Inr e"
    and "cap_mint c now token cl a = (Inr token, a1)" and "length token = 64" and "list_all is_hex_digit token"
    and "length (snapshot_sha256_hex c s) = 64" and "list_all is_hex_digit (snapshot_sha256_hex c s)"
    and "nil_uuid \<notin> {run, sc_request_id r, cr_session_id (coding_run_of (sc_operation r)),
           cr_budget_reservation_id (coding_run_of (sc_operation r))}"
    and "t < sc_expires_at r" and "t' < sc_expires_at r"
  shows "validate_with_context i e = Inr () \<and> (\<exists>a2. authorize_raw c token (brokered_request i) 1 t a1 = (Inr (), a2)
    \<and> authorize_raw c token (brokered_request i) n t' a2 = (Inl CapabilityReplay, a2))"
proof -
  note i = input_from_approved_ok [OF assms(3)] and cl = claims_ok [OF assms(1)]
  obtain objective checkpoint where e: "te_repository e = cr_repository (coding_run_of (sc_operation r))"
      "te_base_commit_sha e = cr_base_commit_sha (coding_run_of (sc_operation r))"
      "te_session_id e = cr_session_id (coding_run_of (sc_operation r))"
      "te_timeout_secs e = cr_timeout_secs (coding_run_of (sc_operation r))"
      "te_max_output_bytes e = cr_max_output_bytes (coding_run_of (sc_operation r))"
    using compile_ok [OF assms(4)] by (metis task_envelope.select_convs)
  have "validate_with_context i e = Inr ()"
    using assms(8-10) e i validate_commit [of "sc_operation r"] by (auto simp: validate_with_context_def Let_def)
  moreover let ?s = "\<lparr>st_token_hash = sha256 c token, st_claims = cl, st_status = CapActive,
      st_used_request_ids = [], st_used_units = 0\<rparr>"
  have a1: "map_of a1 (sha256 c token) = Some ?s"
    using assms(5) by (auto simp: cap_mint_def Let_def hm_insert_get split: if_splits)
  have "cap_check (sha256 c token) ?s (brokered_request i) 1 t = Inr ()"
    using i cl assms(2,11) by (auto simp: cap_check_def brokered_request_def Let_def sat_add_def MAX_CAPABILITY_REQUESTS_def u64_max_def)
  then have "\<exists>a2. authorize_raw c token (brokered_request i) 1 t a1 = (Inr (), a2)
      \<and> map_of a2 (sha256 c token) = Some (?s\<lparr>st_used_request_ids := [bq_request_id (brokered_request i)],
          st_used_units := sat_add u64_max 0 1\<rparr>)"
    using assms(6,7) a1 by (simp add: authorize_raw_def Let_def hm_insert_get)
  then obtain a2 where a2: "authorize_raw c token (brokered_request i) 1 t a1 = (Inr (), a2)"
      "map_of a2 (sha256 c token) = Some (?s\<lparr>st_used_request_ids := [bq_request_id (brokered_request i)],
          st_used_units := sat_add u64_max 0 1\<rparr>)" by blast
  have "authorize_raw c token (brokered_request i) n t' a2 = (Inl CapabilityReplay, a2)"
    using assms(6,7,12) a2(2) i cl by (auto simp: authorize_raw_def cap_check_def brokered_request_def Let_def)
  ultimately show ?thesis using a2(1) by blast
qed

definition demo_hash_crypto :: crypto where
  "demo_hash_crypto = sample_crypto\<lparr>sha256 := (\<lambda>s. replicate 32 CHR ''a'')\<rparr>"

theorem approved_run_is_consistent_witness:
  "\<exists>i e a1 a2. input_from_approved demo_hash_crypto demo_signed (replicate 16 CHR ''r'') demo_repo_snapshot = Inr i
    \<and> validate_with_context i e = Inr () \<and> authorize_raw demo_hash_crypto demo_token (brokered_request i) 1 50 a1 = (Inr (), a2)
    \<and> fst (authorize_raw demo_hash_crypto demo_token (brokered_request i) 1 60 a2) = Inl CapabilityReplay"
proof -
  let ?run = "replicate 16 CHR ''r''" and ?op = "coding_run_of (sc_operation demo_signed)"
  have op: "sc_operation demo_signed = demo_operation" by (simp add: demo_signed_def)
  have run: "coding_run_of demo_operation = demo_coding_run" by (simp add: demo_operation_def)
  obtain cl where cl: "claims_from_signed_request ?run demo_signed 2 = Inr cl"
    by (simp add: claims_from_signed_request_def op demo_valid Let_def)
  have cl': "cl = \<lparr>ca_run_id = ?run, ca_session_id = cr_session_id demo_coding_run, ca_repository = demo_repository,
      ca_base_commit_sha = cr_base_commit_sha demo_coding_run, ca_expires_at = 100, ca_budget_reservation_id = cr_budget_reservation_id demo_coding_run,
      ca_execution_unit_limit = 2, ca_operation = RunApprovedTask\<rparr>"
    using claims_ok [OF cl] by (simp add: op run Let_def demo_coding_run_def demo_signed_def)
  have u: "(2::nat) \<le> u64_max" by (simp add: u64_max_def)
  have sn: "snapshot_validate_for demo_repo_snapshot demo_operation = Inr ()"
    by (simp add: snapshot_validate_for_def demo_repo_snapshot_def run demo_coding_run_def MAX_REPOSITORY_ARCHIVE_BYTES_def MAX_INPUT_BYTES_def)
  obtain i where i: "input_from_approved demo_hash_crypto demo_signed ?run demo_repo_snapshot = Inr i"
    by (simp add: input_from_approved_def op demo_valid sn Let_def)
  obtain e where e: "compile_task_envelope demo_encode (sc_operation demo_signed) demo_context = Inr e"
    using demo_compile op by auto
  have "repository_validate demo_repository = Inr ()" "is_commit_sha (cr_base_commit_sha demo_coding_run)" by code_simp+
  then obtain a1 where a1: "cap_mint demo_hash_crypto 0 demo_token cl [] = (Inr demo_token, a1)"
    by (simp add: cap_mint_def cl' Let_def)
  have tok: "length demo_token = 64" "list_all is_hex_digit demo_token" by code_simp+
  have h: "length (snapshot_sha256_hex demo_hash_crypto demo_repo_snapshot) = 64"
      "list_all is_hex_digit (snapshot_sha256_hex demo_hash_crypto demo_repo_snapshot)" by code_simp+
  have n: "nil_uuid \<notin> {?run, sc_request_id demo_signed, cr_session_id ?op, cr_budget_reservation_id ?op}" by code_simp
  have t: "(50::int) < sc_expires_at demo_signed" "(60::int) < sc_expires_at demo_signed" by code_simp+
  from approved_run_is_consistent [OF cl u i e a1 tok h n t, of 1] obtain a2 where "validate_with_context i e = Inr ()"
      "authorize_raw demo_hash_crypto demo_token (brokered_request i) 1 50 a1 = (Inr (), a2)"
      "authorize_raw demo_hash_crypto demo_token (brokered_request i) 1 60 a2 = (Inl CapabilityReplay, a2)" by blast
  with i show ?thesis by force
qed

end
