(* ===== verification/Coding_Snapshot.thy ===== *)
theory Coding_Snapshot
  imports Coding
begin

text \<open>
  \<^verbatim>\<open>src/crates/codex/src/snapshot.rs\<close> and \<^verbatim>\<open>runtime.rs\<close>: the reviewed snapshot of a repository, the checks on what
  a sandbox hands back, and the comparison of the unpacked source with the archive. The file system, the \<open>git\<close>
  process, the \<open>tar\<close> reader and the JSON decoders are parameters.
\<close>

section \<open>Paths\<close>

definition SECRET_NAMES :: "string list" where
  "SECRET_NAMES = [''.git'', ''.ssh'', ''.codex'', ''.claude'', ''.env'', ''.npmrc'', ''.pypirc'', ''.netrc'', ''.aws'', ''.kube'',
     ''secrets'', ''credentials'', ''auth.json'', ''jarvis.md'', ''id_rsa'', ''id_ed25519'']"

definition SECRET_SUFFIXES :: "string list" where
  "SECRET_SUFFIXES = [''.pem'', ''.key'', ''.p12'', ''.pfx'', ''.kdbx'']"

definition safe_component :: "string \<Rightarrow> bool" where
  "safe_component x \<longleftrightarrow> x \<noteq> [] \<and> x \<noteq> ''.'' \<and> x \<noteq> ''..''
     \<and> to_ascii_lowercase x \<notin> set SECRET_NAMES \<and> \<not> starts_with (to_ascii_lowercase x) ''.env.''
     \<and> \<not> list_ex (ends_with (to_ascii_lowercase x)) SECRET_SUFFIXES
     \<and> list_all (\<lambda>b. is_ascii_graphic b \<and> b \<noteq> CHR '':'') x"

definition safe_snapshot_path :: "string \<Rightarrow> bool" where
  "safe_snapshot_path p \<longleftrightarrow> p \<noteq> [] \<and> \<not> starts_with p ''/'' \<and> CHR 0x5C \<notin> set p \<and> CHR 0x00 \<notin> set p
     \<and> list_all safe_component (split_on CHR ''/'' p)"

definition safe_ref :: "string \<Rightarrow> bool" where
  "safe_ref v = (case strip_prefix ''refs/heads/'' v of
     None \<Rightarrow> False
   | Some branch \<Rightarrow> branch \<noteq> [] \<and> length branch \<le> 128
       \<and> list_all (\<lambda>p. p \<noteq> [] \<and> list_all (\<lambda>b. is_ascii_alnum b \<or> b = CHR ''-'' \<or> b = CHR ''_'') p) (split_on CHR ''/'' branch))"

section \<open>The registry and the mirror\<close>

definition REGISTRY_PATH :: string where "REGISTRY_PATH = ''/etc/jarvis/codex-repositories.json''"
definition MIRRORS_ROOT :: string where "MIRRORS_ROOT = ''/var/lib/jarvis-codex-repositories''"
definition MAX_REGISTRY_BYTES :: nat where "MAX_REGISTRY_BYTES = 64 * 1024"
definition MAX_TREE_LIST_BYTES :: nat where "MAX_TREE_LIST_BYTES = 4 * 1024 * 1024"
definition MAX_TREE_ENTRIES :: nat where "MAX_TREE_ENTRIES = 20000"

datatype snapshot_error = UntrustedRegistry | UnknownRepository | UntrustedMirror | UnreviewedCommit | UnsafeTree
| Oversized | GitFailure

record registry_entry =
  re_identity :: repository_identity
  re_allowed_ref :: string

record repository_registry =
  rg_entries :: "registry_entry list"
  rg_mirrors_root :: path
  rg_owner_uid :: nat

record link_meta = fs_meta +
  m_is_symlink :: bool
  m_nlink :: nat

text \<open>A \<open>git\<close> process: it could not start, or it wrote bytes (\<open>None\<close>: unreadable) and ended (\<open>None\<close>: unknown) well or not.\<close>

datatype git_process = NotStarted | Ran "string option" "bool option"

record repo_os =
  ro_lstat :: "path \<Rightarrow> link_meta io"
  ro_read :: "path \<Rightarrow> string io"
  ro_git :: "path \<Rightarrow> string list \<Rightarrow> git_process"

definition group_or_other_write :: "link_meta \<Rightarrow> bool" where
  "group_or_other_write m \<longleftrightarrow> m_mode m AND 18 \<noteq> 0"

definition trusted_component :: "repo_os \<Rightarrow> nat \<Rightarrow> path \<Rightarrow> bool" where
  "trusted_component os owner p = (case ro_lstat os p of
     IoErr _ _ \<Rightarrow> False
   | IoOk m \<Rightarrow> \<not> (m_is_symlink m \<or> m_uid m \<noteq> owner \<or> group_or_other_write m))"

text \<open>Every prefix below the root, then the kind of the last component.\<close>

definition verify_trusted_path :: "repo_os \<Rightarrow> string \<Rightarrow> nat \<Rightarrow> bool \<Rightarrow> bool" where
  "verify_trusted_path os p owner directory \<longleftrightarrow> path_is_absolute p
     \<and> list_all (\<lambda>n. trusted_component os owner (take n (path_components p))) [1..<Suc (length (path_components p))]
     \<and> (case ro_lstat os (path_components p) of
          IoErr _ _ \<Rightarrow> False
        | IoOk m \<Rightarrow> m_is_dir m = directory \<and> (directory \<or> m_is_file m))"

fun registry_entries_ok :: "string list \<Rightarrow> registry_entry list \<Rightarrow> bool" where
  "registry_entries_ok ids [] = True"
| "registry_entries_ok ids (e # es) = (\<not> isl (repository_validate (re_identity e)) \<and> ri_id (re_identity e) \<notin> set ids
     \<and> safe_ref (re_allowed_ref e) \<and> registry_entries_ok (ri_id (re_identity e) # ids) es)"

definition registry_parse :: "(string \<Rightarrow> (nat \<times> registry_entry list) option) \<Rightarrow> string \<Rightarrow> path \<Rightarrow> nat
    \<Rightarrow> snapshot_error + repository_registry" where
  "registry_parse from_slice raw mirrors owner =
     (if length raw > MAX_REGISTRY_BYTES then Inl UntrustedRegistry
      else case from_slice raw of
        None \<Rightarrow> Inl UntrustedRegistry
      | Some (version, es) \<Rightarrow>
          if version \<noteq> 1 \<or> es = [] \<or> length es > 32 then Inl UntrustedRegistry
          else if \<not> registry_entries_ok [] es then Inl UntrustedRegistry
          else Inr \<lparr>rg_entries = es, rg_mirrors_root = mirrors, rg_owner_uid = owner\<rparr>)"

definition load_production :: "(string \<Rightarrow> (nat \<times> registry_entry list) option) \<Rightarrow> repo_os \<Rightarrow> snapshot_error + repository_registry" where
  "load_production from_slice os =
     (if \<not> verify_trusted_path os REGISTRY_PATH 0 False then Inl UntrustedRegistry
      else if \<not> verify_trusted_path os MIRRORS_ROOT 0 True then Inl UntrustedMirror
      else case ro_lstat os (path_components REGISTRY_PATH) of
        IoErr _ _ \<Rightarrow> Inl UntrustedRegistry
      | IoOk m \<Rightarrow>
          if m_len m > MAX_REGISTRY_BYTES \<or> m_mode m AND 7 \<noteq> 0 then Inl UntrustedRegistry
          else case ro_read os (path_components REGISTRY_PATH) of
            IoErr _ _ \<Rightarrow> Inl UntrustedRegistry
          | IoOk raw \<Rightarrow> registry_parse from_slice raw (path_components MIRRORS_ROOT) 0)"

text \<open>At most one byte beyond the bound is read.\<close>

definition git_output :: "repo_os \<Rightarrow> path \<Rightarrow> string list \<Rightarrow> nat \<Rightarrow> snapshot_error + string" where
  "git_output os mirror args bound = (case ro_git os mirror args of
     NotStarted \<Rightarrow> Inl GitFailure
   | Ran out ok \<Rightarrow> (case out of
       None \<Rightarrow> Inl Oversized
     | Some b \<Rightarrow> if length b > bound then Inl Oversized
         else if ok \<noteq> Some True then Inl GitFailure else Inr b))"

section \<open>Trees and archives\<close>

text \<open>\<open>split_ascii_whitespace\<close>: tab, line feed, form feed, carriage return and space; no empty field.\<close>

definition is_ascii_ws :: "char \<Rightarrow> bool" where
  "is_ascii_ws c \<longleftrightarrow> byte c \<in> {9, 10, 12, 13, 32}"

fun ws_fields :: "string \<Rightarrow> string \<Rightarrow> string list" where
  "ws_fields acc [] = (if acc = [] then [] else [acc])"
| "ws_fields acc (c # s) = (if is_ascii_ws c then (if acc = [] then ws_fields [] s else acc # ws_fields [] s)
     else ws_fields (acc @ [c]) s)"

definition tree_entry :: "string \<Rightarrow> snapshot_error + nat" where
  "tree_entry item =
     (if \<not> utf8_valid (map byte item) then Inl UnsafeTree
      else case split_once CHR 0x09 item of
        None \<Rightarrow> Inl UnsafeTree
      | Some (metadata, p) \<Rightarrow>
          (case ws_fields [] metadata of
             [m, kind, _, sz] \<Rightarrow>
               if m \<notin> {''100644'', ''100755''} \<or> kind \<noteq> ''blob'' then Inl UnsafeTree
               else (case parse_u64 sz of
                   None \<Rightarrow> Inl UnsafeTree
                 | Some n \<Rightarrow> if \<not> safe_snapshot_path p then Inl UnsafeTree else Inr n)
           | _ \<Rightarrow> Inl UnsafeTree))"

fun tree_loop :: "nat \<Rightarrow> nat \<Rightarrow> string list \<Rightarrow> snapshot_error + nat" where
  "tree_loop count tot [] = Inr count"
| "tree_loop count tot (item # items) =
     (if Suc count > MAX_TREE_ENTRIES then Inl Oversized
      else case tree_entry item of
        Inl e \<Rightarrow> Inl e
      | Inr n \<Rightarrow> (let tot' = sat_add u64_max (sat_add u64_max tot n) 1024 in
          if tot' > MAX_REPOSITORY_ARCHIVE_BYTES - 10 * 1024 then Inl Oversized else tree_loop (Suc count) tot' items))"

definition validate_tree :: "string \<Rightarrow> snapshot_error + unit" where
  "validate_tree tree = (case tree_loop 0 0 (filter (\<lambda>x. x \<noteq> []) (split_on CHR 0x00 tree)) of
     Inl e \<Rightarrow> Inl e | Inr count \<Rightarrow> if count = 0 then Inl UnsafeTree else Inr ())"

datatype tar_entry_kind = PaxGlobal | TarFile | TarDir | TarOther

text \<open>An entry of the archive; \<open>tar_data\<close> is what reading it to its end gives.\<close>

record tar_entry =
  tar_kind :: tar_entry_kind
  tar_path :: string
  tar_size :: nat
  tar_data :: "string option"

text \<open>The reader: \<open>None\<close> when it cannot start, an entry \<open>None\<close> when it cannot go on.\<close>

type_synonym tar_reader = "string \<Rightarrow> tar_entry option list option"

definition strip_slash :: "string \<Rightarrow> string" where
  "strip_slash p = (if ends_with p ''/'' then butlast p else p)"

definition commit_header_ok :: "string \<Rightarrow> string \<Rightarrow> bool" where
  "commit_header_ok sha data = (utf8_valid (map byte data) \<and> (case split_once CHR '' '' data of
     None \<Rightarrow> False
   | Some (len, v) \<Rightarrow> parse_u64 len = Some (length data) \<and> v = ''comment='' @ sha @ newline))"

fun archive_loop :: "string \<Rightarrow> nat \<Rightarrow> nat \<Rightarrow> bool \<Rightarrow> tar_entry option list \<Rightarrow> snapshot_error + nat \<times> bool" where
  "archive_loop sha count tot saw [] = Inr (count, saw)"
| "archive_loop sha count tot saw (None # es) = Inl UnsafeTree"
| "archive_loop sha count tot saw (Some e # es) =
     (if tar_kind e = PaxGlobal then
        (if saw \<or> count \<noteq> 0 \<or> tar_path e \<noteq> ''pax_global_header'' then Inl UnsafeTree
         else if tar_size e > 128 then Inl UnsafeTree
         else case tar_data e of
           None \<Rightarrow> Inl UnsafeTree
         | Some d \<Rightarrow> if commit_header_ok sha d then archive_loop sha count tot True es else Inl UnsafeTree)
      else if tar_kind e \<noteq> TarFile \<and> tar_kind e \<noteq> TarDir then Inl UnsafeTree
      else if \<not> utf8_valid (map byte (tar_path e)) then Inl UnsafeTree
      else let p = (if tar_kind e = TarDir then strip_slash (tar_path e) else tar_path e) in
        if \<not> safe_snapshot_path p then Inl UnsafeTree
        else if Suc count > MAX_TREE_ENTRIES then Inl Oversized
        else let tot' = sat_add u64_max (sat_add u64_max tot (tar_size e)) 1024 in
          if tot' > MAX_REPOSITORY_ARCHIVE_BYTES then Inl Oversized else archive_loop sha (Suc count) tot' saw es)"

definition validate_archive :: "tar_reader \<Rightarrow> string \<Rightarrow> string \<Rightarrow> snapshot_error + unit" where
  "validate_archive tar archive sha =
     (if archive = [] \<or> length archive > MAX_REPOSITORY_ARCHIVE_BYTES then Inl Oversized
      else if \<not> is_commit_sha sha then Inl UnreviewedCommit
      else case tar archive of
        None \<Rightarrow> Inl UnsafeTree
      | Some es \<Rightarrow> (case archive_loop sha 0 0 False es of
          Inl e \<Rightarrow> Inl e
        | Inr (count, saw) \<Rightarrow> if count = 0 \<or> \<not> saw then Inl UnsafeTree else Inr ()))"

definition reg_snapshot :: "tar_reader \<Rightarrow> repo_os \<Rightarrow> repository_registry \<Rightarrow> repository_identity \<Rightarrow> string
    \<Rightarrow> snapshot_error + repository_snapshot" where
  "reg_snapshot tar os g ident sha =
     (if isl (repository_validate ident) then Inl UnknownRepository
      else if \<not> is_commit_sha sha then Inl UnreviewedCommit
      else case find (\<lambda>e. re_identity e = ident) (rg_entries g) of
        None \<Rightarrow> Inl UnknownRepository
      | Some e \<Rightarrow> (let mirror = path_join (rg_mirrors_root g) (ri_id ident @ ''.git'') in
          case ro_lstat os mirror of
            IoErr _ _ \<Rightarrow> Inl UntrustedMirror
          | IoOk m \<Rightarrow>
              if \<not> m_is_dir m \<or> m_uid m \<noteq> rg_owner_uid g \<or> group_or_other_write m then Inl UntrustedMirror
              else case git_output os mirror [''rev-parse'', ''--is-bare-repository''] 32 of
                Inl x \<Rightarrow> Inl x
              | Inr bare \<Rightarrow>
                  if bare \<noteq> ''true'' @ newline then Inl UntrustedMirror
                  else case git_output os mirror [''rev-parse'', ''--verify'', sha @ ''^{commit}''] 96 of
                    Inl _ \<Rightarrow> Inl UnreviewedCommit
                  | Inr resolved \<Rightarrow>
                      if resolved \<noteq> sha @ newline then Inl UnreviewedCommit
                      else case git_output os mirror [''merge-base'', ''--is-ancestor'', sha, re_allowed_ref e] 1 of
                        Inl _ \<Rightarrow> Inl UnreviewedCommit
                      | Inr _ \<Rightarrow> (case git_output os mirror [''ls-tree'', ''-rzl'', ''--full-tree'', sha] MAX_TREE_LIST_BYTES of
                          Inl x \<Rightarrow> Inl x
                        | Inr tree \<Rightarrow> (case validate_tree tree of
                            Inl x \<Rightarrow> Inl x
                          | Inr _ \<Rightarrow> (case git_output os mirror [''archive'', ''--format=tar'', sha] MAX_REPOSITORY_ARCHIVE_BYTES of
                              Inl x \<Rightarrow> Inl x
                            | Inr archive \<Rightarrow> (case validate_archive tar archive sha of
                                Inl x \<Rightarrow> Inl x
                              | Inr _ \<Rightarrow> Inr \<lparr>rs_base_commit_sha = sha, rs_archive = archive\<rparr>))))))"

section \<open>What a run hands back\<close>

definition MAX_REQUEST_BYTES :: nat where "MAX_REQUEST_BYTES = 16 * 1024"
definition MAX_CAPABILITY_BYTES :: nat where "MAX_CAPABILITY_BYTES = 256"
definition MAX_RESPONSE_BYTES :: nat where "MAX_RESPONSE_BYTES = 640 * 1024"
definition MAX_SUMMARY_BYTES :: nat where "MAX_SUMMARY_BYTES = 8 * 1024"
definition MAX_PATCH_BYTES :: nat where "MAX_PATCH_BYTES = 512 * 1024"
definition MAX_SOURCE_ENTRIES :: nat where "MAX_SOURCE_ENTRIES = 40000"

datatype runtime_error = RtInvalidInput | RtInvalidArchive | RtChannelUnavailable | RtInvalidResponse | RtOutputFailure

datatype task_outcome = OutCompleted | OutSubscriptionUnavailable | OutPlanLimit | OutRuntimeFailure

record task_channel_request =
  cq_binding :: brokered_codex_request
  cq_capability_token :: string
  cq_task :: task_envelope

record task_channel_response =
  cp_binding :: brokered_codex_request
  cp_outcome :: task_outcome
  cp_summary :: string
  cp_patch_diff :: string

record sandbox_result_document =
  rd_request_id :: string
  rd_run_id :: string
  rd_session_id :: string
  rd_repository :: repository_identity
  rd_base_commit_sha :: string
  rd_outcome :: task_outcome
  rd_summary :: string
  rd_patch_present :: bool

definition parse_hunk_count :: "string \<Rightarrow> runtime_error + nat" where
  "parse_hunk_count rng =
     (let (start, count) = (case split_once CHR '','' rng of Some q \<Rightarrow> q | None \<Rightarrow> (rng, ''1'')) in
      if start = [] \<or> count = [] \<or> \<not> list_all is_ascii_digit start \<or> \<not> list_all is_ascii_digit count
      then Inl RtInvalidResponse
      else case parse_u64 count of
        None \<Rightarrow> Inl RtInvalidResponse
      | Some n \<Rightarrow> if n > MAX_PATCH_BYTES then Inl RtInvalidResponse else Inr n)"

record patch_state =
  pt_files :: nat
  pt_path :: "string option"
  pt_saw_old :: bool
  pt_saw_new :: bool
  pt_in_hunk :: bool
  pt_old_remaining :: nat
  pt_new_remaining :: nat
  pt_old_is_null :: bool

definition patch_start :: patch_state where
  "patch_start = \<lparr>pt_files = 0, pt_path = None, pt_saw_old = False, pt_saw_new = False, pt_in_hunk = False,
     pt_old_remaining = 0, pt_new_remaining = 0, pt_old_is_null = False\<rparr>"

definition patch_complete :: "patch_state \<Rightarrow> bool" where
  "patch_complete s \<longleftrightarrow> pt_saw_old s \<and> pt_saw_new s \<and> pt_in_hunk s \<and> pt_old_remaining s = 0 \<and> pt_new_remaining s = 0"

definition patch_file :: "string \<Rightarrow> patch_state \<Rightarrow> runtime_error + patch_state" where
  "patch_file rest s =
     (if pt_path s \<noteq> None \<and> \<not> patch_complete s then Inl RtInvalidResponse
      else case split_once_str '' b/'' rest of
        None \<Rightarrow> Inl RtInvalidResponse
      | Some (l, r) \<Rightarrow>
          if l \<noteq> r \<or> \<not> safe_snapshot_path l \<or> list_ex is_ascii_ws l then Inl RtInvalidResponse
          else if Suc (pt_files s) > 32 then Inl RtInvalidResponse
          else Inr (s\<lparr>pt_path := Some l, pt_files := Suc (pt_files s), pt_saw_old := False, pt_saw_new := False,
                     pt_in_hunk := False, pt_old_is_null := False\<rparr>))"

definition patch_hunk :: "string \<Rightarrow> patch_state \<Rightarrow> runtime_error + patch_state" where
  "patch_hunk line s =
     (if \<not> pt_saw_old s \<or> \<not> pt_saw_new s \<or> pt_old_remaining s \<noteq> 0 \<or> pt_new_remaining s \<noteq> 0 then Inl RtInvalidResponse
      else case Option.bind (strip_prefix ''@@ -'' line) (\<lambda>rest. map_option fst (split_once_str '' @@'' rest)) of
        None \<Rightarrow> Inl RtInvalidResponse
      | Some header \<Rightarrow> (case split_once_str '' +'' header of
          None \<Rightarrow> Inl RtInvalidResponse
        | Some (old, new) \<Rightarrow> (case parse_hunk_count old of
            Inl e \<Rightarrow> Inl e
          | Inr a \<Rightarrow> (case parse_hunk_count new of
              Inl e \<Rightarrow> Inl e
            | Inr b \<Rightarrow> if a = 0 \<and> b = 0 then Inl RtInvalidResponse
                else Inr (s\<lparr>pt_old_remaining := a, pt_new_remaining := b, pt_in_hunk := True\<rparr>)))))"

definition META_LINES :: "string list" where
  "META_LINES = [''new file mode 100644'', ''new file mode 100755'', ''deleted file mode 100644'', ''deleted file mode 100755'']"

definition NO_NEWLINE_MARK :: string where
  "NO_NEWLINE_MARK = CHR 0x5C # '' No newline at end of file''"

definition patch_line :: "string \<Rightarrow> patch_state \<Rightarrow> runtime_error + patch_state" where
  "patch_line line s = (case strip_prefix ''diff --git a/'' line of
     Some rest \<Rightarrow> patch_file rest s
   | None \<Rightarrow> (case pt_path s of
       None \<Rightarrow> Inl RtInvalidResponse
     | Some p \<Rightarrow>
         if line = ''--- a/'' @ p \<or> line = ''--- /dev/null'' then
           (if pt_saw_old s \<or> pt_in_hunk s then Inl RtInvalidResponse
            else Inr (s\<lparr>pt_saw_old := True, pt_old_is_null := (line = ''--- /dev/null'')\<rparr>))
         else if line = ''+++ b/'' @ p \<or> line = ''+++ /dev/null'' then
           (if \<not> pt_saw_old s \<or> pt_saw_new s \<or> pt_in_hunk s \<or> (pt_old_is_null s \<and> line = ''+++ /dev/null'')
            then Inl RtInvalidResponse else Inr (s\<lparr>pt_saw_new := True\<rparr>))
         else if starts_with line ''@@ -'' \<and> contains_str line '' +'' \<and> contains_str line '' @@'' then patch_hunk line s
         else if pt_in_hunk s \<and> starts_with line '' '' then
           (if pt_old_remaining s = 0 \<or> pt_new_remaining s = 0 then Inl RtInvalidResponse
            else Inr (s\<lparr>pt_old_remaining := pt_old_remaining s - 1, pt_new_remaining := pt_new_remaining s - 1\<rparr>))
         else if pt_in_hunk s \<and> starts_with line ''+'' then
           (if pt_new_remaining s = 0 then Inl RtInvalidResponse
            else Inr (s\<lparr>pt_new_remaining := pt_new_remaining s - 1\<rparr>))
         else if pt_in_hunk s \<and> starts_with line ''-'' then
           (if pt_old_remaining s = 0 then Inl RtInvalidResponse
            else Inr (s\<lparr>pt_old_remaining := pt_old_remaining s - 1\<rparr>))
         else if pt_in_hunk s \<and> line = NO_NEWLINE_MARK then Inr s
         else if \<not> pt_saw_old s \<and> (starts_with line ''index '' \<or> line \<in> set META_LINES) then Inr s
         else Inl RtInvalidResponse))"

fun patch_lines :: "string list \<Rightarrow> patch_state \<Rightarrow> runtime_error + patch_state" where
  "patch_lines [] s = Inr s"
| "patch_lines (l # ls) s = (case patch_line l s of Inl e \<Rightarrow> Inl e | Inr s' \<Rightarrow> patch_lines ls s')"

definition validate_patch :: "string \<Rightarrow> runtime_error + unit" where
  "validate_patch patch =
     (if patch = [] then Inr ()
      else if length patch > MAX_PATCH_BYTES \<or> \<not> ends_with patch newline then Inl RtInvalidResponse
      else case patch_lines (str_lines patch) patch_start of
        Inl e \<Rightarrow> Inl e
      | Inr s \<Rightarrow> if \<not> patch_complete s then Inl RtInvalidResponse else Inr ())"

definition validate_final_artifacts :: "(string \<Rightarrow> sandbox_result_document option) \<Rightarrow> collected_artifact list
    \<Rightarrow> sandbox_run_input \<Rightarrow> runtime_error + sandbox_result_document" where
  "validate_final_artifacts from_slice arts expected =
     (if length arts \<noteq> 2 then Inl RtInvalidResponse
      else case (find (\<lambda>a. co_path a = ''result.json'') arts, find (\<lambda>a. co_path a = ''patch.diff'') arts) of
        (Some r, Some p) \<Rightarrow>
          if length (co_contents r) > MAX_RESPONSE_BYTES \<or> length (co_contents p) > MAX_PATCH_BYTES
             \<or> sat_add u64_max (length (co_contents r)) (length (co_contents p)) > si_max_output_bytes expected
             \<or> list_ex (\<lambda>a. co_path a \<notin> {''result.json'', ''patch.diff''}) arts
          then Inl RtInvalidResponse
          else (case from_slice (co_contents r) of
             None \<Rightarrow> Inl RtInvalidResponse
           | Some d \<Rightarrow>
               if rd_request_id d \<noteq> si_request_id expected \<or> rd_run_id d \<noteq> si_run_id expected
                  \<or> rd_session_id d \<noteq> si_session_id expected \<or> rd_repository d \<noteq> si_repository expected
                  \<or> rd_base_commit_sha d \<noteq> si_base_commit_sha expected \<or> length (rd_summary d) > MAX_SUMMARY_BYTES
                  \<or> rd_patch_present d \<noteq> (co_contents p \<noteq> []) \<or> rd_patch_present d
               then Inl RtInvalidResponse
               else if \<not> utf8_valid (map byte (co_contents p)) then Inl RtInvalidResponse
               else (case validate_patch (co_contents p) of Inl e \<Rightarrow> Inl e | Inr _ \<Rightarrow> Inr d))
      | _ \<Rightarrow> Inl RtInvalidResponse)"

section \<open>The unpacked source\<close>

text \<open>
  A directory as the runtime walks it: its entries, or \<open>None\<close> when it cannot be read. A regular file carries what \<open>lstat\<close> says of it and what reading it gives; anything
  that is neither a file nor a directory is \<open>OtherNode\<close>.
\<close>

datatype source_node = FileNode link_meta "string option" | DirNode "(string \<times> source_node) list option"
| OtherNode

definition trim_slashes :: "string \<Rightarrow> string" where
  "trim_slashes p = rev (dropWhile (\<lambda>c. c = CHR ''/'') (rev p))"

text \<open>Every proper prefix of a path that ends before a slash.\<close>

fun parents :: "string \<Rightarrow> string \<Rightarrow> string list" where
  "parents acc [] = []"
| "parents acc (c # s) = (if c = CHR ''/'' then acc # parents (acc @ [c]) s else parents (acc @ [c]) s)"

text \<open>The files with their digests and the directories an archive holds.\<close>

fun expected_source :: "crypto \<Rightarrow> tar_entry option list \<Rightarrow> (string \<times> string) list \<Rightarrow> string list
    \<Rightarrow> runtime_error + (string \<times> string) list \<times> string list" where
  "expected_source c [] files dirs = Inr (files, dirs)"
| "expected_source c (None # es) files dirs = Inl RtInvalidArchive"
| "expected_source c (Some e # es) files dirs =
     (if tar_kind e = PaxGlobal then expected_source c es files dirs
      else if \<not> utf8_valid (map byte (tar_path e)) then Inl RtInvalidArchive
      else let p = (if tar_kind e = TarDir then trim_slashes (tar_path e) else tar_path e);
               dirs1 = remdups (parents [] p @ dirs) in
        if \<not> safe_snapshot_path p then Inl RtInvalidArchive
        else if tar_kind e = TarDir then
          (let dirs2 = remdups (p # dirs1) in
           if length files + length dirs2 > MAX_SOURCE_ENTRIES then Inl RtInvalidArchive
           else expected_source c es files dirs2)
        else if tar_kind e = TarFile then
          (case tar_data e of
             None \<Rightarrow> Inl RtInvalidArchive
           | Some b \<Rightarrow>
               if al_has p files \<or> Suc (length files) + length dirs1 > MAX_SOURCE_ENTRIES then Inl RtInvalidArchive
               else expected_source c es ((p, sha256 c b) # files) dirs1)
        else Inl RtInvalidArchive)"

record walk_state =
  wk_files :: "string list"
  wk_dirs :: "string list"
  wk_pending :: "(string \<times> (string \<times> source_node) list option) list"

definition relative_path :: "string \<Rightarrow> string \<Rightarrow> string" where
  "relative_path dir n = (if dir = [] then n else dir @ ''/'' @ n)"

definition read_regular :: "nat \<Rightarrow> link_meta \<Rightarrow> string option \<Rightarrow> runtime_error + string" where
  "read_regular bound m content = (if \<not> m_is_file m \<or> m_len m > bound then Inl RtInvalidInput
     else case content of
       None \<Rightarrow> Inl RtInvalidInput
     | Some b \<Rightarrow> if length b > bound then Inl RtInvalidInput else Inr b)"

definition walk_file :: "crypto \<Rightarrow> nat \<Rightarrow> (string \<times> string) list \<Rightarrow> string \<Rightarrow> link_meta \<Rightarrow> string option \<Rightarrow> walk_state
    \<Rightarrow> runtime_error + walk_state" where
  "walk_file c euid files rel m content w = (case map_of files rel of
     None \<Rightarrow> Inl RtInvalidResponse
   | Some digest \<Rightarrow>
       if m_uid m \<noteq> euid \<or> m_nlink m \<noteq> 1 \<or> m_mode m AND 511 \<noteq> 384 \<or> rel \<in> set (wk_files w) then Inl RtInvalidResponse
       else case read_regular MAX_REPOSITORY_ARCHIVE_BYTES m content of
         Inl e \<Rightarrow> Inl e
       | Inr b \<Rightarrow> if sha256 c b \<noteq> digest then Inl RtInvalidResponse else Inr (w\<lparr>wk_files := rel # wk_files w\<rparr>))"

definition walk_node :: "crypto \<Rightarrow> nat \<Rightarrow> (string \<times> string) list \<Rightarrow> string list \<Rightarrow> string \<Rightarrow> source_node \<Rightarrow> walk_state
    \<Rightarrow> runtime_error + walk_state" where
  "walk_node c euid files dirs rel nd w =
     (if \<not> safe_snapshot_path rel then Inl RtInvalidResponse
      else case (case nd of
          DirNode ns \<Rightarrow> if rel \<notin> set dirs \<or> rel \<in> set (wk_dirs w) then Inl RtInvalidResponse
            else Inr (w\<lparr>wk_dirs := rel # wk_dirs w, wk_pending := (rel, ns) # wk_pending w\<rparr>)
        | FileNode m content \<Rightarrow> walk_file c euid files rel m content w
        | OtherNode \<Rightarrow> Inl RtInvalidResponse) of
        Inl e \<Rightarrow> Inl e
      | Inr w' \<Rightarrow> if length (wk_files w') + length (wk_dirs w') > MAX_SOURCE_ENTRIES then Inl RtInvalidResponse else Inr w')"

fun walk_dir :: "crypto \<Rightarrow> nat \<Rightarrow> (string \<times> string) list \<Rightarrow> string list \<Rightarrow> string \<Rightarrow> (string \<times> source_node) list \<Rightarrow> walk_state
    \<Rightarrow> runtime_error + walk_state" where
  "walk_dir c euid files dirs dir [] w = Inr w"
| "walk_dir c euid files dirs dir ((n, nd) # ns) w =
     (case walk_node c euid files dirs (relative_path dir n) nd w of
        Inl e \<Rightarrow> Inl e | Inr w' \<Rightarrow> walk_dir c euid files dirs dir ns w')"

text \<open>The directories still to read are a stack, its head the one read next. Fuel bounds the number of directories.\<close>

fun walk :: "nat \<Rightarrow> crypto \<Rightarrow> nat \<Rightarrow> (string \<times> string) list \<Rightarrow> string list \<Rightarrow> walk_state \<Rightarrow> (runtime_error + walk_state) option" where
  "walk fuel c euid files dirs w = (case wk_pending w of
     [] \<Rightarrow> Some (Inr w)
   | (dir, ns) # rest \<Rightarrow> (case fuel of
       0 \<Rightarrow> None
     | Suc k \<Rightarrow> (case ns of
         None \<Rightarrow> Some (Inl RtInvalidResponse)
       | Some nodes \<Rightarrow> (case walk_dir c euid files dirs dir nodes (w\<lparr>wk_pending := rest\<rparr>) of
           Inl e \<Rightarrow> Some (Inl e)
         | Inr w' \<Rightarrow> walk k c euid files dirs w'))))"

declare walk.simps [simp del]

definition verify_unmodified_source :: "nat \<Rightarrow> crypto \<Rightarrow> tar_reader \<Rightarrow> nat \<Rightarrow> string \<Rightarrow> (string \<times> source_node) list option
    \<Rightarrow> (runtime_error + unit) option" where
  "verify_unmodified_source fuel c tar euid archive source = (case tar archive of
     None \<Rightarrow> Some (Inl RtInvalidArchive)
   | Some es \<Rightarrow> (case expected_source c es [] [] of
       Inl e \<Rightarrow> Some (Inl e)
     | Inr (files, dirs) \<Rightarrow>
         map_option (\<lambda>r. case r of
             Inl e \<Rightarrow> Inl e
           | Inr w \<Rightarrow> if length (wk_files w) \<noteq> length files \<or> length (wk_dirs w) \<noteq> length dirs then Inl RtInvalidResponse
               else Inr ())
           (walk fuel c euid files dirs \<lparr>wk_files = [], wk_dirs = [], wk_pending = [([], source)]\<rparr>)))"

section \<open>Reviewed snapshots\<close>

lemma safe_path_components:
  assumes "safe_snapshot_path p"
  shows "path_components p = split_on CHR ''/'' p \<and> \<not> path_is_absolute p \<and> ''..'' \<notin> set (path_components p)"
proof -
  have "list_all safe_component (split_on CHR ''/'' p)" using assms by (simp add: safe_snapshot_path_def)
  then have "\<forall>x \<in> set (split_on CHR ''/'' p). x \<noteq> [] \<and> x \<noteq> ''.'' \<and> x \<noteq> ''..''"
    by (auto simp: list_all_iff safe_component_def)
  then show ?thesis using assms by (auto simp: path_components_def safe_snapshot_path_def path_is_absolute_def)
qed

lemma safe_path_stays_inside: "safe_snapshot_path p \<Longrightarrow> path_starts_with (path_join base p) base"
  using safe_path_components [of p] by (simp add: path_join_def)

definition entry_path :: "tar_entry \<Rightarrow> string" where
  "entry_path e = (if tar_kind e = TarDir then strip_slash (tar_path e) else tar_path e)"

definition entry_safe :: "string \<Rightarrow> tar_entry \<Rightarrow> bool" where
  "entry_safe sha e \<longleftrightarrow> tar_kind e = PaxGlobal \<and> (\<exists>d. tar_data e = Some d \<and> commit_header_ok sha d)
     \<or> tar_kind e \<in> {TarFile, TarDir} \<and> safe_snapshot_path (entry_path e)"

lemma archive_loop_ok:
  "archive_loop sha count tot saw es = Inr (n, saw') \<Longrightarrow>
    list_all (\<lambda>x. \<exists>e. x = Some e \<and> entry_safe sha e) es \<and> count \<le> n
    \<and> (saw' \<longrightarrow> saw \<or> list_ex (\<lambda>x. \<exists>e. x = Some e \<and> tar_kind e = PaxGlobal) es)"
proof (induction es arbitrary: count tot saw)
  case (Cons x es)
  obtain e where x: "x = Some e" using Cons.prems by (cases x) auto
  show ?case
  proof (cases "tar_kind e = PaxGlobal")
    case True
    then obtain d where d: "tar_data e = Some d" "commit_header_ok sha d" and r: "archive_loop sha count tot True es = Inr (n, saw')"
      using Cons.prems x by (auto split: if_splits option.splits)
    from Cons.IH [OF r] d True x show ?thesis by (auto simp: entry_safe_def)
  next
    case False
    then have k: "tar_kind e \<in> {TarFile, TarDir}" and p: "safe_snapshot_path (entry_path e)"
      and r: "archive_loop sha (Suc count) (sat_add u64_max (sat_add u64_max tot (tar_size e)) 1024) saw es = Inr (n, saw')"
      using Cons.prems x by (auto simp: Let_def entry_path_def split: if_splits)
    from Cons.IH [OF r] k p False x show ?thesis by (auto simp: entry_safe_def)
  qed
qed simp

lemma validate_archive_ok:
  assumes "validate_archive tar archive sha = Inr ()"
  shows "length archive \<le> 16 * 1024 * 1024 \<and> (\<exists>es. tar archive = Some es
    \<and> list_all (\<lambda>x. \<exists>e. x = Some e \<and> entry_safe sha e) es
    \<and> list_ex (\<lambda>x. \<exists>e. x = Some e \<and> tar_kind e = PaxGlobal) es)"
proof -
  from assms obtain es n where es: "tar archive = Some es" and l: "archive_loop sha 0 0 False es = Inr (n, True)"
    and b: "\<not> length archive > MAX_REPOSITORY_ARCHIVE_BYTES"
    by (auto simp: validate_archive_def split: if_splits option.splits sum.splits)
  from archive_loop_ok [OF l] es b show ?thesis by (simp add: MAX_REPOSITORY_ARCHIVE_BYTES_def MAX_INPUT_BYTES_def)
qed

lemma git_output_ok: "git_output os mirror args bound = Inr b \<Longrightarrow> ro_git os mirror args = Ran (Some b) (Some True) \<and> length b \<le> bound"
  by (auto simp: git_output_def split: git_process.splits option.splits if_splits)

text \<open>
  C31. A snapshot that leaves the registry is reviewed: its repository is listed under exactly the requested identity, git
  resolved the commit to itself and answered that it is an ancestor of the listed branch, and the archive is what git
  wrote for that commit, at most 16 MiB, with a header that names the commit and otherwise only plain files and directories
  at safe relative paths.\<close>

theorem snapshot_is_reviewed:
  assumes "reg_snapshot tar os g ident sha = Inr s"
  shows "rs_base_commit_sha s = sha \<and> length (rs_archive s) \<le> 16 * 1024 * 1024
    \<and> (\<exists>e mirror b es. e \<in> set (rg_entries g) \<and> re_identity e = ident \<and> mirror = path_join (rg_mirrors_root g) (ri_id ident @ ''.git'')
        \<and> ro_git os mirror [''rev-parse'', ''--verify'', sha @ ''^{commit}''] = Ran (Some (sha @ newline)) (Some True)
        \<and> ro_git os mirror [''merge-base'', ''--is-ancestor'', sha, re_allowed_ref e] = Ran (Some b) (Some True)
        \<and> ro_git os mirror [''archive'', ''--format=tar'', sha] = Ran (Some (rs_archive s)) (Some True)
        \<and> tar (rs_archive s) = Some es \<and> list_all (\<lambda>x. \<exists>y. x = Some y \<and> entry_safe sha y) es
        \<and> list_ex (\<lambda>x. \<exists>y. x = Some y \<and> tar_kind y = PaxGlobal) es)"
proof -
  let ?m = "path_join (rg_mirrors_root g) (ri_id ident @ ''.git'')"
  from assms obtain e where e: "find (\<lambda>e. re_identity e = ident) (rg_entries g) = Some e"
    by (auto simp: reg_snapshot_def split: if_splits option.splits)
  with assms obtain m where m: "ro_lstat os ?m = IoOk m"
    by (auto simp: reg_snapshot_def Let_def split: if_splits io.splits)
  from assms e m obtain b where
      v: "git_output os ?m [''rev-parse'', ''--verify'', sha @ ''^{commit}''] 96 = Inr (sha @ newline)"
    and anc: "git_output os ?m [''merge-base'', ''--is-ancestor'', sha, re_allowed_ref e] 1 = Inr b"
    and ar: "git_output os ?m [''archive'', ''--format=tar'', sha] MAX_REPOSITORY_ARCHIVE_BYTES = Inr (rs_archive s)"
    and s: "rs_base_commit_sha s = sha" and va: "validate_archive tar (rs_archive s) sha = Inr ()"
    by (auto simp: reg_snapshot_def Let_def split: if_splits sum.splits)
  from e have "e \<in> set (rg_entries g)" "re_identity e = ident" by (auto simp: find_Some_iff)
  with git_output_ok [OF v] git_output_ok [OF anc] git_output_ok [OF ar] validate_archive_ok [OF va] s show ?thesis by blast
qed

section \<open>Results\<close>

text \<open>
  The broker accepts a run's result only when it is exactly a result document and an empty patch within the approved
  size, and the document repeats the request, run, session, repository and commit it was started for.\<close>

theorem final_result_is_bound:
  assumes "validate_final_artifacts from_slice arts i = Inr d" and "si_max_output_bytes i < u64_max"
  shows "set (map co_path arts) = {''result.json'', ''patch.diff''} \<and> length arts = 2
    \<and> (\<forall>a \<in> set arts. co_path a = ''patch.diff'' \<longrightarrow> co_contents a = [])
    \<and> artifact_total arts \<le> si_max_output_bytes i \<and> length (rd_summary d) \<le> 8 * 1024 \<and> \<not> rd_patch_present d
    \<and> rd_request_id d = si_request_id i \<and> rd_run_id d = si_run_id i \<and> rd_session_id d = si_session_id i
    \<and> rd_repository d = si_repository i \<and> rd_base_commit_sha d = si_base_commit_sha i"
proof -
  from assms(1) obtain r p where r: "find (\<lambda>a. co_path a = ''result.json'') arts = Some r"
    and p: "find (\<lambda>a. co_path a = ''patch.diff'') arts = Some p" and two: "length arts = 2"
    by (auto simp: validate_final_artifacts_def split: if_splits option.splits)
  from assms(1) r p two have d: "length (rd_summary d) \<le> 8 * 1024" "\<not> rd_patch_present d"
      "rd_request_id d = si_request_id i" "rd_run_id d = si_run_id i" "rd_session_id d = si_session_id i"
      "rd_repository d = si_repository i" "rd_base_commit_sha d = si_base_commit_sha i"
    and e: "co_contents p = []"
    and sz: "sat_add u64_max (length (co_contents r)) (length (co_contents p)) \<le> si_max_output_bytes i"
    by (auto simp: validate_final_artifacts_def MAX_SUMMARY_BYTES_def split: if_splits option.splits sum.splits)
  from r p have in2: "r \<in> set arts" "p \<in> set arts" "co_path r = ''result.json''" "co_path p = ''patch.diff''"
    by (auto simp: find_Some_iff)
  then have "r \<noteq> p" by auto
  with two in2 have "arts = [r, p] \<or> arts = [p, r]"
    by (auto simp: length_Suc_conv numeral_2_eq_2)
  with in2 e sat_le [OF sz assms(2)] d two show ?thesis by (auto simp: artifact_total_def)
qed

section \<open>The walk over the source\<close>

text \<open>A node reached from the entries of a directory, with its path.\<close>

inductive below :: "string \<Rightarrow> (string \<times> source_node) list \<Rightarrow> string \<Rightarrow> source_node \<Rightarrow> bool" where
  child: "(n, nd) \<in> set ns \<Longrightarrow> below d ns (relative_path d n) nd"
| deep: "(n, DirNode (Some ns')) \<in> set ns \<Longrightarrow> below (relative_path d n) ns' rel nd \<Longrightarrow> below d ns rel nd"

definition file_matches :: "crypto \<Rightarrow> nat \<Rightarrow> (string \<times> string) list \<Rightarrow> string \<Rightarrow> source_node \<Rightarrow> bool" where
  "file_matches c euid files rel nd \<longleftrightarrow> (\<exists>m b. nd = FileNode m (Some b) \<and> map_of files rel = Some (sha256 c b)
     \<and> m_uid m = euid \<and> m_nlink m = 1 \<and> m_mode m AND 511 = 384)"

definition node_ok :: "crypto \<Rightarrow> nat \<Rightarrow> (string \<times> string) list \<Rightarrow> walk_state \<Rightarrow> string \<Rightarrow> source_node \<Rightarrow> bool" where
  "node_ok c euid files w rel nd \<longleftrightarrow> safe_snapshot_path rel
     \<and> (file_matches c euid files rel nd \<and> rel \<in> set (wk_files w) \<or> (\<exists>ns. nd = DirNode ns \<and> rel \<in> set (wk_dirs w)))"

definition walk_inv :: "(string \<times> string) list \<Rightarrow> string list \<Rightarrow> walk_state \<Rightarrow> bool" where
  "walk_inv files dirs w \<longleftrightarrow> distinct (wk_files w) \<and> set (wk_files w) \<subseteq> fst ` set files
     \<and> distinct (wk_dirs w) \<and> set (wk_dirs w) \<subseteq> set dirs"

definition grows :: "walk_state \<Rightarrow> walk_state \<Rightarrow> bool" where
  "grows w w' \<longleftrightarrow> set (wk_files w) \<subseteq> set (wk_files w') \<and> set (wk_dirs w) \<subseteq> set (wk_dirs w')"

lemma grows_refl: "grows w w" and grows_trans: "grows w w' \<Longrightarrow> grows w' w'' \<Longrightarrow> grows w w''"
  by (auto simp: grows_def)

lemma node_ok_mono: "node_ok c euid files w rel nd \<Longrightarrow> grows w w' \<Longrightarrow> node_ok c euid files w' rel nd"
  by (auto simp: node_ok_def grows_def)

text \<open>
  What processing the nodes \<open>S\<close> adds: each is recorded, each directory among them is on the stack, and nothing else is new.
  The number of directories and the height of the stack grow together.
\<close>

definition adds :: "crypto \<Rightarrow> nat \<Rightarrow> (string \<times> string) list \<Rightarrow> (string \<times> source_node) set \<Rightarrow> walk_state \<Rightarrow> walk_state \<Rightarrow> bool" where
  "adds c euid files S w w' \<longleftrightarrow> grows w w' \<and> (\<forall>(rel, nd) \<in> S. node_ok c euid files w' rel nd)
    \<and> length (wk_pending w') + length (wk_dirs w) = length (wk_pending w) + length (wk_dirs w')
    \<and> set (wk_pending w') = set (wk_pending w) \<union> {(rel, ns). (rel, DirNode ns) \<in> S}
    \<and> set (wk_files w') \<subseteq> set (wk_files w) \<union> {rel. \<exists>nd. (rel, nd) \<in> S \<and> file_matches c euid files rel nd}
    \<and> set (wk_dirs w') \<subseteq> set (wk_dirs w) \<union> {rel. \<exists>ns. (rel, DirNode ns) \<in> S}"

lemma adds_refl: "adds c euid files {} w w"
  by (simp add: adds_def grows_refl)

lemma adds_trans:
  assumes 1: "adds c euid files S w w1" and 2: "adds c euid files T w1 w2"
  shows "adds c euid files (S \<union> T) w w2"
proof -
  have g: "grows w w1" "grows w1 w2" using 1 2 by (simp_all add: adds_def)
  have "\<forall>(rel, nd) \<in> S \<union> T. node_ok c euid files w2 rel nd"
    using 1 2 node_ok_mono [OF _ g(2)] unfolding adds_def by blast
  moreover have "length (wk_pending w2) + length (wk_dirs w) = length (wk_pending w) + length (wk_dirs w2)"
    using 1 2 unfolding adds_def by linarith
  moreover have "set (wk_pending w2) = set (wk_pending w) \<union> {(rel, ns). (rel, DirNode ns) \<in> S \<union> T}"
    using 1 2 unfolding adds_def by auto
  moreover have "set (wk_files w2) \<subseteq> set (wk_files w) \<union> {rel. \<exists>nd. (rel, nd) \<in> S \<union> T \<and> file_matches c euid files rel nd}"
      "set (wk_dirs w2) \<subseteq> set (wk_dirs w) \<union> {rel. \<exists>ns. (rel, DirNode ns) \<in> S \<union> T}"
    using 1 2 unfolding adds_def by blast+
  ultimately show ?thesis using grows_trans [OF g] unfolding adds_def by blast
qed

lemma walk_node_ok:
  assumes "walk_node c euid files dirs rel nd w = Inr w'" and "walk_inv files dirs w"
  shows "walk_inv files dirs w' \<and> adds c euid files {(rel, nd)} w w'"
proof (cases nd)
  case (FileNode m content)
  from assms(1) FileNode obtain b where b: "map_of files rel = Some (sha256 c b)" "content = Some b" "m_uid m = euid" "m_nlink m = 1"
      "m_mode m AND 511 = 384" "rel \<notin> set (wk_files w)" "w' = w\<lparr>wk_files := rel # wk_files w\<rparr>" "safe_snapshot_path rel"
    by (auto simp: walk_node_def walk_file_def read_regular_def split: if_splits option.splits sum.splits)
  then have "file_matches c euid files rel nd" using FileNode by (auto simp: file_matches_def)
  moreover have "rel \<in> fst ` set files" using b(1) by (force dest: map_of_SomeD)
  ultimately show ?thesis using b assms(2) FileNode by (auto simp: walk_inv_def adds_def grows_def node_ok_def)
next
  case (DirNode ns)
  then have "w' = w\<lparr>wk_dirs := rel # wk_dirs w, wk_pending := (rel, ns) # wk_pending w\<rparr>" "rel \<in> set dirs" "rel \<notin> set (wk_dirs w)"
      "safe_snapshot_path rel"
    using assms(1) by (auto simp: walk_node_def split: if_splits)
  then show ?thesis using assms(2) DirNode by (auto simp: walk_inv_def adds_def grows_def node_ok_def)
next
  case OtherNode
  with assms(1) show ?thesis by (auto simp: walk_node_def split: if_splits)
qed

definition children :: "string \<Rightarrow> (string \<times> source_node) list \<Rightarrow> (string \<times> source_node) set" where
  "children d ns = (\<lambda>(n, nd). (relative_path d n, nd)) ` set ns"

lemma walk_dir_ok:
  assumes "walk_dir c euid files dirs d ns w = Inr w'" and "walk_inv files dirs w"
  shows "walk_inv files dirs w' \<and> adds c euid files (children d ns) w w'"
  using assms
proof (induction ns arbitrary: w)
  case Nil
  then show ?case by (simp add: adds_refl children_def)
next
  case (Cons x ns)
  obtain n nd where x: "x = (n, nd)" by (cases x)
  obtain w1 where one: "walk_node c euid files dirs (relative_path d n) nd w = Inr w1"
    and rest: "walk_dir c euid files dirs d ns w1 = Inr w'" using Cons.prems(1) x by (auto split: sum.splits)
  have o1: "walk_inv files dirs w1 \<and> adds c euid files {(relative_path d n, nd)} w w1" by (rule walk_node_ok [OF one Cons.prems(2)])
  have "walk_inv files dirs w' \<and> adds c euid files (children d ns) w1 w'" by (rule Cons.IH [OF rest conjunct1 [OF o1]])
  moreover have "children d (x # ns) = {(relative_path d n, nd)} \<union> children d ns" by (simp add: children_def x)
  ultimately show ?case using o1 adds_trans by metis
qed

lemma grows_pop: "grows (w\<lparr>wk_pending := r\<rparr>) w' = grows w w'" "walk_inv files dirs (w\<lparr>wk_pending := r\<rparr>) = walk_inv files dirs w"
  by (simp_all add: grows_def walk_inv_def)

lemma wk_dirs_le: "walk_inv files dirs w \<Longrightarrow> length (wk_dirs w) \<le> length dirs"
proof -
  assume "walk_inv files dirs w"
  then have "length (wk_dirs w) = card (set (wk_dirs w))" "set (wk_dirs w) \<subseteq> set dirs"
    by (simp_all add: walk_inv_def distinct_card)
  then have "length (wk_dirs w) \<le> card (set dirs)" by (simp add: card_mono)
  also have "\<dots> \<le> length dirs" by (rule card_length)
  finally show ?thesis .
qed

lemma walk_total:
  "walk_inv files dirs w \<Longrightarrow> length (wk_pending w) + length dirs \<le> fuel + length (wk_dirs w) \<Longrightarrow> walk fuel c euid files dirs w \<noteq> None"
proof (induction fuel arbitrary: w)
  case 0
  from 0 wk_dirs_le [of files dirs w] have "length (wk_pending w) = 0" by linarith
  then show ?case by (simp add: walk.simps)
next
  case (Suc k)
  show ?case
  proof (cases "wk_pending w")
    case Nil
    then show ?thesis by (simp add: walk.simps)
  next
    case (Cons q rest)
    obtain d xs where q: "q = (d, xs)" by (cases q)
    have "walk k c euid files dirs w' \<noteq> None"
      if "xs = Some ns" and s: "walk_dir c euid files dirs d ns (w\<lparr>wk_pending := rest\<rparr>) = Inr w'" for ns w'
    proof -
      have o: "walk_inv files dirs w' \<and> adds c euid files (children d ns) (w\<lparr>wk_pending := rest\<rparr>) w'"
        using walk_dir_ok [OF s] Suc.prems(1) by (simp add: grows_pop)
      then have "length (wk_pending w') + length (wk_dirs w) = length rest + length (wk_dirs w')" by (simp add: adds_def)
      with Suc.prems(2) Cons show ?thesis by (intro Suc.IH) (use o in auto)
    qed
    then show ?thesis using Cons q by (auto simp: walk.simps [of "Suc k"] split: option.splits sum.splits)
  qed
qed

text \<open>What a walk that ends well has seen: everything below the stack it started with, and nothing else.\<close>

definition seen_all :: "crypto \<Rightarrow> nat \<Rightarrow> (string \<times> string) list \<Rightarrow> walk_state \<Rightarrow> walk_state \<Rightarrow> bool" where
  "seen_all c euid files w w' \<longleftrightarrow> (\<forall>(d, xs) \<in> set (wk_pending w). \<exists>ns. xs = Some ns \<and>
     (\<forall>rel nd. below d ns rel nd \<longrightarrow> node_ok c euid files w' rel nd))"

definition seen_only :: "crypto \<Rightarrow> nat \<Rightarrow> (string \<times> string) list \<Rightarrow> walk_state \<Rightarrow> walk_state \<Rightarrow> bool" where
  "seen_only c euid files w w' \<longleftrightarrow>
     (\<forall>f \<in> set (wk_files w'). f \<in> set (wk_files w) \<or> (\<exists>d ns nd. (d, Some ns) \<in> set (wk_pending w) \<and> below d ns f nd
        \<and> file_matches c euid files f nd))
   \<and> (\<forall>f \<in> set (wk_dirs w'). f \<in> set (wk_dirs w) \<or> (\<exists>d ns xs. (d, Some ns) \<in> set (wk_pending w) \<and> below d ns f (DirNode xs)))"

lemma below_children: "(rel, nd) \<in> children d ns \<Longrightarrow> below d ns rel nd"
  by (auto simp: children_def intro: below.child)

lemma childrenI: "(n, nd) \<in> set ns \<Longrightarrow> (relative_path d n, nd) \<in> children d ns"
  by (force simp: children_def)

lemma below_cases: "below d ns rel nd \<Longrightarrow> (rel, nd) \<in> children d ns \<or> (\<exists>r xs. (r, DirNode (Some xs)) \<in> children d ns \<and> below r xs rel nd)"
  by (cases rule: below.cases) (auto dest: childrenI)

lemma below_deep: "(r, DirNode (Some xs)) \<in> children d ns \<Longrightarrow> below r xs rel nd \<Longrightarrow> below d ns rel nd"
  by (auto simp: children_def intro: below.deep)

lemma seen_step:
  assumes a: "adds c euid files (children d ns) (w\<lparr>wk_pending := rest\<rparr>) w1" and p: "wk_pending w = (d, Some ns) # rest"
    and g: "grows w1 w'"
  shows "seen_all c euid files w1 w' \<Longrightarrow> seen_all c euid files w w'"
    and "seen_only c euid files w1 w' \<Longrightarrow> seen_only c euid files w w'"
proof -
  have pend: "set (wk_pending w1) = set rest \<union> {(rel, xs). (rel, DirNode xs) \<in> children d ns}"
    and ok: "\<forall>(rel, nd) \<in> children d ns. node_ok c euid files w1 rel nd"
    and fs: "set (wk_files w1) \<subseteq> set (wk_files w) \<union> {rel. \<exists>nd. (rel, nd) \<in> children d ns \<and> file_matches c euid files rel nd}"
    and ds: "set (wk_dirs w1) \<subseteq> set (wk_dirs w) \<union> {rel. \<exists>xs. (rel, DirNode xs) \<in> children d ns}"
    using a by (simp_all add: adds_def)
  show "seen_all c euid files w w'" if s: "seen_all c euid files w1 w'"
  proof -
    have "node_ok c euid files w' rel nd" if b: "below d ns rel nd" for rel nd
      using below_cases [OF b]
    proof
      assume "(rel, nd) \<in> children d ns"
      with ok node_ok_mono [OF _ g] show ?thesis by blast
    next
      assume "\<exists>r xs. (r, DirNode (Some xs)) \<in> children d ns \<and> below r xs rel nd"
      then obtain r xs where r: "(r, Some xs) \<in> set (wk_pending w1)" "below r xs rel nd" using pend by blast
      with s show ?thesis unfolding seen_all_def by fastforce
    qed
    moreover have "\<exists>ys. xs = Some ys \<and> (\<forall>rel nd. below r ys rel nd \<longrightarrow> node_ok c euid files w' rel nd)" if "(r, xs) \<in> set rest" for r xs
      using s that pend unfolding seen_all_def by blast
    ultimately show ?thesis unfolding seen_all_def p by auto
  qed
  show "seen_only c euid files w w'" if s: "seen_only c euid files w1 w'"
  proof -
    have lift: "\<exists>d' ys. (d', Some ys) \<in> set (wk_pending w) \<and> below d' ys rel nd"
      if "(r, Some xs) \<in> set (wk_pending w1)" "below r xs rel nd" for r xs rel nd
      using that pend below_deep [of r xs d ns rel nd] unfolding p by auto
    have child: "\<exists>d' ys. (d', Some ys) \<in> set (wk_pending w) \<and> below d' ys rel nd" if "(rel, nd) \<in> children d ns" for rel nd
      using below_children [OF that] unfolding p by auto
    have "f \<in> set (wk_files w) \<or> (\<exists>d' ys nd. (d', Some ys) \<in> set (wk_pending w) \<and> below d' ys f nd \<and> file_matches c euid files f nd)"
      if "f \<in> set (wk_files w')" for f
      using s that fs lift child unfolding seen_only_def by blast
    moreover have "f \<in> set (wk_dirs w) \<or> (\<exists>d' ys xs. (d', Some ys) \<in> set (wk_pending w) \<and> below d' ys f (DirNode xs))"
      if "f \<in> set (wk_dirs w')" for f
      using s that ds lift child unfolding seen_only_def by blast
    ultimately show ?thesis unfolding seen_only_def by blast
  qed
qed

lemma walk_ok:
  "walk fuel c euid files dirs w = Some (Inr w') \<Longrightarrow> walk_inv files dirs w \<Longrightarrow>
    walk_inv files dirs w' \<and> grows w w' \<and> seen_all c euid files w w' \<and> seen_only c euid files w w'"
proof (induction fuel arbitrary: w)
  case 0
  then have "wk_pending w = []" "w' = w" by (auto simp: walk.simps split: list.splits)
  with 0 show ?case by (simp add: grows_refl seen_all_def seen_only_def)
next
  case (Suc k)
  show ?case
  proof (cases "wk_pending w")
    case Nil
    with Suc.prems have "w' = w" by (simp add: walk.simps)
    with Nil Suc.prems show ?thesis by (simp add: grows_refl seen_all_def seen_only_def)
  next
    case (Cons q rest)
    obtain d xs where q: "q = (d, xs)" by (cases q)
    with Suc.prems Cons obtain ns w1 where xs: "xs = Some ns"
      and s: "walk_dir c euid files dirs d ns (w\<lparr>wk_pending := rest\<rparr>) = Inr w1" and r: "walk k c euid files dirs w1 = Some (Inr w')"
      by (auto simp: walk.simps [of "Suc k"] split: option.splits sum.splits)
    have o: "walk_inv files dirs w1 \<and> adds c euid files (children d ns) (w\<lparr>wk_pending := rest\<rparr>) w1"
      using walk_dir_ok [OF s] Suc.prems(2) by (simp add: grows_pop)
    note ih = Suc.IH [OF r conjunct1 [OF o]]
    have "grows w w1" using o by (auto simp: adds_def grows_pop)
    with ih seen_step [OF conjunct2 [OF o] Cons [unfolded q xs]] show ?thesis using grows_trans by blast
  qed
qed

definition archive_file :: "tar_entry option list \<Rightarrow> string \<Rightarrow> string \<Rightarrow> bool" where
  "archive_file es p d \<longleftrightarrow> (\<exists>e. Some e \<in> set es \<and> tar_kind e = TarFile \<and> tar_path e = p \<and> tar_data e = Some d)"

lemma archive_file_Cons: "archive_file (x # es) p d \<longleftrightarrow>
    (\<exists>e. x = Some e \<and> tar_kind e = TarFile \<and> tar_path e = p \<and> tar_data e = Some d) \<or> archive_file es p d"
  by (auto simp: archive_file_def)

lemma expected_source_ok:
  "expected_source c es files dirs = Inr (F, D) \<Longrightarrow> distinct (map fst files) \<Longrightarrow> distinct dirs \<Longrightarrow>
    length files + length dirs \<le> MAX_SOURCE_ENTRIES \<Longrightarrow>
    distinct (map fst F) \<and> distinct D \<and> length F + length D \<le> MAX_SOURCE_ENTRIES
    \<and> (\<forall>p h. (p, h) \<in> set F \<longleftrightarrow> (p, h) \<in> set files \<or> (\<exists>d. archive_file es p d \<and> h = sha256 c d))"
proof (induction es arbitrary: files dirs)
  case Nil
  then show ?case by (simp add: archive_file_def)
next
  case (Cons x es)
  obtain e where x: "x = Some e" using Cons.prems(1) by (cases x) auto
  consider (is_pax) "tar_kind e = PaxGlobal" | (is_dir) "tar_kind e = TarDir" | (is_file) "tar_kind e = TarFile" | (is_other) "tar_kind e = TarOther"
    by (cases "tar_kind e")
  then show ?case
  proof cases
    case is_pax
    then have "expected_source c es files dirs = Inr (F, D)" using Cons.prems(1) x by simp
    from Cons.IH [OF this Cons.prems(2-4)] is_pax x show ?thesis by (simp add: archive_file_Cons)
  next
    case is_dir
    let ?d = "remdups (trim_slashes (tar_path e) # remdups (parents [] (trim_slashes (tar_path e)) @ dirs))"
    have "expected_source c es files ?d = Inr (F, D)" "length files + length ?d \<le> MAX_SOURCE_ENTRIES"
      using Cons.prems(1) x is_dir by (auto simp: Let_def simp del: remdups.simps split: if_splits)
    from Cons.IH [OF this(1) Cons.prems(2) distinct_remdups this(2)] is_dir x show ?thesis by (simp add: archive_file_Cons)
  next
    case is_file
    let ?d = "remdups (parents [] (tar_path e) @ dirs)"
    obtain b where b: "tar_data e = Some b" and new: "\<not> al_has (tar_path e) files"
      and r: "expected_source c es ((tar_path e, sha256 c b) # files) ?d = Inr (F, D)"
      and n: "Suc (length files) + length ?d \<le> MAX_SOURCE_ENTRIES"
      using Cons.prems(1) x is_file by (auto simp: Let_def split: if_splits option.splits)
    have k: "distinct (map fst ((tar_path e, sha256 c b) # files))" "length ((tar_path e, sha256 c b) # files) + length ?d \<le> MAX_SOURCE_ENTRIES"
      using Cons.prems(2) new n by (simp_all add: al_has_def)
    from Cons.IH [OF r k(1) distinct_remdups k(2)] is_file x b show ?thesis by (auto simp: archive_file_Cons)
  next
    case is_other
    with Cons.prems(1) x show ?thesis by (auto simp: Let_def split: if_splits)
  qed
qed

definition plain_node :: "nat \<Rightarrow> source_node \<Rightarrow> bool" where
  "plain_node euid nd = (case nd of FileNode m b \<Rightarrow> b \<noteq> None \<and> m_uid m = euid \<and> m_nlink m = 1 \<and> m_mode m AND 511 = 384
     | DirNode _ \<Rightarrow> True | OtherNode \<Rightarrow> False)"

lemma full_subset: "distinct xs \<Longrightarrow> set xs \<subseteq> fst ` set F \<Longrightarrow> distinct (map fst F) \<Longrightarrow> length xs = length F \<Longrightarrow> set xs = fst ` set F"
  by (metis card_subset_eq distinct_card finite_imageI finite_set length_map list.set_map)

text \<open>
  C32. When the runtime finds the source unmodified, it is the reviewed archive: every entry below the source directory is a
  directory or a private, singly linked file, and the files, with their contents up to the digest, are exactly the files
  of the archive.\<close>

theorem unmodified_source_is_the_archive:
  assumes "verify_unmodified_source fuel c tar euid archive source = Some (Inr ())" and "tar archive = Some es"
  shows "\<exists>ns. source = Some ns \<and> (\<forall>rel nd. below [] ns rel nd \<longrightarrow> safe_snapshot_path rel \<and> plain_node euid nd)
    \<and> (\<forall>rel m b. below [] ns rel (FileNode m (Some b)) \<longrightarrow> (\<exists>d. archive_file es rel d \<and> sha256 c b = sha256 c d))
    \<and> (\<forall>rel d. archive_file es rel d \<longrightarrow> (\<exists>m b. below [] ns rel (FileNode m (Some b)) \<and> sha256 c b = sha256 c d))"
proof -
  let ?w = "\<lparr>wk_files = [], wk_dirs = [], wk_pending = [([], source)]\<rparr>"
  obtain F D w' where ex: "expected_source c es [] [] = Inr (F, D)" and wk: "walk fuel c euid F D ?w = Some (Inr w')"
    and len: "length (wk_files w') = length F"
    using assms by (auto simp: verify_unmodified_source_def split: sum.splits if_splits)
  have exp: "distinct (map fst F)" "\<And>p h. (p, h) \<in> set F \<longleftrightarrow> (\<exists>d. archive_file es p d \<and> h = sha256 c d)"
    using expected_source_ok [OF ex] by simp_all
  have all: "walk_inv F D w'" "seen_all c euid F ?w w'" "seen_only c euid F ?w w'"
    using walk_ok [OF wk] by (simp_all add: walk_inv_def)
  from all(2) obtain ns where ns: "source = Some ns" and ok: "\<And>rel nd. below [] ns rel nd \<Longrightarrow> node_ok c euid F w' rel nd"
    by (auto simp: seen_all_def)
  have 1: "safe_snapshot_path rel \<and> plain_node euid nd" if "below [] ns rel nd" for rel nd
    using ok [OF that] by (auto simp: node_ok_def file_matches_def plain_node_def)
  have 2: "\<exists>d. archive_file es rel d \<and> sha256 c b = sha256 c d" if "below [] ns rel (FileNode m (Some b))" for rel m b
  proof -
    from ok [OF that] have "map_of F rel = Some (sha256 c b)" by (auto simp: node_ok_def file_matches_def)
    then show ?thesis using exp(2) map_of_SomeD by metis
  qed
  have keys: "set (wk_files w') = fst ` set F" using all(1) len exp(1) by (intro full_subset) (auto simp: walk_inv_def)
  have 3: "\<exists>m b. below [] ns rel (FileNode m (Some b)) \<and> sha256 c b = sha256 c d" if "archive_file es rel d" for rel d
  proof -
    from that exp have f: "map_of F rel = Some (sha256 c d)" by (metis map_of_eq_Some_iff)
    then have "rel \<in> set (wk_files w')" unfolding keys by (force dest: map_of_SomeD)
    with all(3) ns obtain nd where nd: "below [] ns rel nd" "file_matches c euid F rel nd" by (auto simp: seen_only_def)
    then obtain m b where "nd = FileNode m (Some b)" "map_of F rel = Some (sha256 c b)" by (auto simp: file_matches_def)
    with f nd(1) show ?thesis by auto
  qed
  show ?thesis using ns 1 2 3 by blast
qed

lemma verify_terminates: "MAX_SOURCE_ENTRIES < fuel \<Longrightarrow> verify_unmodified_source fuel c tar euid archive source \<noteq> None"
proof -
  assume f: "MAX_SOURCE_ENTRIES < fuel"
  have "walk fuel c euid F D \<lparr>wk_files = [], wk_dirs = [], wk_pending = [([], source)]\<rparr> \<noteq> None"
    if ex: "expected_source c es [] [] = Inr (F, D)" for es F D
    using expected_source_ok [OF ex] f by (intro walk_total) (auto simp: walk_inv_def)
  then show ?thesis by (auto simp: verify_unmodified_source_def split: option.splits sum.splits)
qed

section \<open>A sample repository\<close>

definition demo_sha :: string where "demo_sha = replicate 40 CHR ''a''"

definition demo_header :: tar_entry where
  "demo_header = \<lparr>tar_kind = PaxGlobal, tar_path = ''pax_global_header'', tar_size = 52,
     tar_data = Some (''52 comment='' @ demo_sha @ newline)\<rparr>"

definition demo_file :: tar_entry where
  "demo_file = \<lparr>tar_kind = TarFile, tar_path = ''README.md'', tar_size = 2, tar_data = Some ''hi''\<rparr>"

definition demo_tar :: tar_reader where
  "demo_tar b = (if b = ''tar'' then Some [Some demo_header, Some demo_file] else None)"

definition demo_meta :: "bool \<Rightarrow> nat \<Rightarrow> link_meta" where
  "demo_meta dir mode = \<lparr>m_is_file = \<not> dir, m_is_dir = dir, m_is_socket = False, m_dev = 0, m_ino = 0, m_uid = 0, m_gid = 0,
     m_mode = mode, m_len = 2, m_is_symlink = False, m_nlink = 1\<rparr>"

definition demo_ls :: string where
  "demo_ls = ''100644 blob 0 2'' @ [CHR 0x09] @ ''README.md'' @ [CHR 0x00]"

definition demo_git :: "string list \<Rightarrow> string" where
  "demo_git args = (if args = [''rev-parse'', ''--is-bare-repository''] then ''true'' @ newline
     else if hd args = ''rev-parse'' then demo_sha @ newline
     else if hd args = ''ls-tree'' then demo_ls
     else if hd args = ''archive'' then ''tar'' else [])"

definition demo_repo_os :: repo_os where
  "demo_repo_os = \<lparr>ro_lstat = (\<lambda>p. IoOk (demo_meta True 493)), ro_read = (\<lambda>p. IoOk []),
     ro_git = (\<lambda>p args. Ran (Some (demo_git args)) (Some True))\<rparr>"

definition demo_repo_registry :: repository_registry where
  "demo_repo_registry = \<lparr>rg_entries = [\<lparr>re_identity = demo_repository, re_allowed_ref = ''refs/heads/main''\<rparr>],
     rg_mirrors_root = [''mirrors''], rg_owner_uid = 0\<rparr>"

lemma demo_git_parse: "parse_u64 ''52'' = Some 52" "parse_u64 ''2'' = Some 2"
  by (simp_all add: parse_u64_def digits_value_def byte_def is_ascii_digit_def u64_max_def)

lemma demo_readme: "safe_snapshot_path ''README.md''" "utf8_valid (map byte ''README.md'')" "parents [] ''README.md'' = []"
  by code_simp+

lemma demo_file_facts: "tar_kind demo_file = TarFile" "tar_path demo_file = ''README.md''" "tar_data demo_file = Some ''hi''"
  by (simp_all add: demo_file_def)

lemma demo_archive_ok: "validate_archive demo_tar ''tar'' demo_sha = Inr ()"
proof -
  have s: "is_commit_sha demo_sha" "split_once CHR '' '' (''52 comment='' @ demo_sha @ newline) = Some (''52'', ''comment='' @ demo_sha @ newline)"
    "utf8_valid (map byte (''52 comment='' @ demo_sha @ newline))" "length (''52 comment='' @ demo_sha @ newline) = 52"
    by code_simp+
  note f = demo_readme(1,2)
  have h: "commit_header_ok demo_sha (''52 comment='' @ demo_sha @ newline)"
    unfolding commit_header_ok_def using s by (simp add: demo_git_parse)
  have "archive_loop demo_sha 0 0 False [Some demo_header, Some demo_file] = Inr (1, True)"
    using h f by (simp add: demo_header_def demo_file_def Let_def sat_add_def u64_max_def MAX_TREE_ENTRIES_def
        MAX_REPOSITORY_ARCHIVE_BYTES_def MAX_INPUT_BYTES_def)
  then show ?thesis using s(1)
    by (simp add: validate_archive_def demo_tar_def MAX_REPOSITORY_ARCHIVE_BYTES_def MAX_INPUT_BYTES_def)
qed

lemma demo_tree_ok: "validate_tree demo_ls = Inr ()"
proof -
  let ?l = "''100644 blob 0 2'' @ [CHR 0x09] @ ''README.md''"
  have l: "filter (\<lambda>x. x \<noteq> []) (split_on CHR 0x00 demo_ls) = [?l]" "utf8_valid (map byte ?l)"
      "split_once CHR 0x09 ?l = Some (''100644 blob 0 2'', ''README.md'')"
      "ws_fields [] ''100644 blob 0 2'' = [''100644'', ''blob'', ''0'', ''2'']" by code_simp+
  have "tree_entry ?l = Inr 2" unfolding tree_entry_def using l(2-4) demo_readme(1) by (simp add: demo_git_parse)
  with l(1) show ?thesis
    by (simp add: validate_tree_def Let_def sat_add_def u64_max_def MAX_TREE_ENTRIES_def
        MAX_REPOSITORY_ARCHIVE_BYTES_def MAX_INPUT_BYTES_def)
qed

lemma demo_snapshot_ok:
  "reg_snapshot demo_tar demo_repo_os demo_repo_registry demo_repository demo_sha = Inr \<lparr>rs_base_commit_sha = demo_sha, rs_archive = ''tar''\<rparr>"
proof -
  have v: "repository_validate demo_repository = Inr ()" "is_commit_sha demo_sha" "length demo_sha = 40" "length newline = 1"
      "length demo_ls = 26" by code_simp+
  have m: "ro_lstat demo_repo_os p = IoOk (demo_meta True 493)" "\<not> group_or_other_write (demo_meta True 493)"
      "m_is_dir (demo_meta True 493)" "m_uid (demo_meta True 493) = rg_owner_uid demo_repo_registry" for p
    by (simp_all add: demo_repo_os_def demo_meta_def group_or_other_write_def demo_repo_registry_def)
  have e: "find (\<lambda>e. re_identity e = demo_repository) (rg_entries demo_repo_registry)
      = Some \<lparr>re_identity = demo_repository, re_allowed_ref = ''refs/heads/main''\<rparr>" by (simp add: demo_repo_registry_def)
  show ?thesis
    by (simp add: reg_snapshot_def v m e git_output_def demo_repo_os_def [THEN arg_cong, of ro_git] demo_git_def demo_tree_ok
        demo_archive_ok Let_def MAX_TREE_LIST_BYTES_def MAX_REPOSITORY_ARCHIVE_BYTES_def MAX_INPUT_BYTES_def)
qed

theorem snapshot_is_reviewed_witness:
  "\<exists>s. reg_snapshot demo_tar demo_repo_os demo_repo_registry demo_repository demo_sha = Inr s \<and> rs_base_commit_sha s = demo_sha
    \<and> length (rs_archive s) \<le> 16 * 1024 * 1024"
  using snapshot_is_reviewed [OF demo_snapshot_ok] demo_snapshot_ok by blast

definition demo_input :: sandbox_run_input where
  "demo_input = \<lparr>si_request_id = ''q'', si_run_id = ''r'', si_session_id = ''s'', si_repository = demo_repository,
     si_base_commit_sha = demo_sha, si_snapshot_sha256 = [], si_budget_reservation_id = ''b'', si_operation = RunApprovedTask,
     si_max_output_bytes = 4096, si_timeout_secs = 60\<rparr>"

definition demo_result :: sandbox_result_document where
  "demo_result = \<lparr>rd_request_id = ''q'', rd_run_id = ''r'', rd_session_id = ''s'', rd_repository = demo_repository,
     rd_base_commit_sha = demo_sha, rd_outcome = OutCompleted, rd_summary = ''ok'', rd_patch_present = False\<rparr>"

definition demo_artifacts :: "collected_artifact list" where
  "demo_artifacts = [\<lparr>co_path = ''result.json'', co_contents = ''{}''\<rparr>, \<lparr>co_path = ''patch.diff'', co_contents = []\<rparr>]"

lemma demo_final: "validate_final_artifacts (\<lambda>b. Some demo_result) demo_artifacts demo_input = Inr demo_result"
  by (simp add: validate_final_artifacts_def demo_artifacts_def demo_input_def demo_result_def MAX_RESPONSE_BYTES_def MAX_PATCH_BYTES_def
      MAX_SUMMARY_BYTES_def sat_add_def u64_max_def validate_patch_def)

theorem final_result_is_bound_witness:
  "validate_final_artifacts (\<lambda>b. Some demo_result) demo_artifacts demo_input = Inr demo_result
    \<and> artifact_total demo_artifacts \<le> 4096 \<and> rd_run_id demo_result = si_run_id demo_input"
proof -
  have "si_max_output_bytes demo_input < u64_max" "si_max_output_bytes demo_input = 4096" by (simp_all add: demo_input_def u64_max_def)
  with final_result_is_bound [OF demo_final] demo_final show ?thesis by metis
qed

definition demo_source :: "(string \<times> source_node) list" where
  "demo_source = [(''README.md'', FileNode (demo_meta False 384) (Some ''hi''))]"

lemma demo_verify: "verify_unmodified_source 2 sample_crypto demo_tar 0 ''tar'' (Some demo_source) = Some (Inr ())"
proof -
  note f = demo_readme
  have d: "demo_tar ''tar'' = Some [Some demo_header, Some demo_file]" by (simp add: demo_tar_def)
  have e: "expected_source sample_crypto [Some demo_header, Some demo_file] [] [] = Inr ([(''README.md'', sha256 sample_crypto ''hi'')], [])"
    using f by (simp add: demo_header_def demo_file_def Let_def al_has_def MAX_SOURCE_ENTRIES_def)
  have w: "walk 2 sample_crypto 0 [(''README.md'', sha256 sample_crypto ''hi'')] []
      \<lparr>wk_files = [], wk_dirs = [], wk_pending = [([], Some demo_source)]\<rparr>
      = Some (Inr \<lparr>wk_files = [''README.md''], wk_dirs = [], wk_pending = []\<rparr>)"
    using f(1) by (simp add: walk.simps numeral_2_eq_2 demo_source_def relative_path_def walk_node_def walk_file_def read_regular_def
        demo_meta_def MAX_SOURCE_ENTRIES_def MAX_REPOSITORY_ARCHIVE_BYTES_def MAX_INPUT_BYTES_def)
  show ?thesis by (simp add: verify_unmodified_source_def d e w del: expected_source.simps)
qed

theorem unmodified_source_is_the_archive_witness:
  "\<exists>ns. verify_unmodified_source 2 sample_crypto demo_tar 0 ''tar'' (Some ns) = Some (Inr ())
    \<and> (\<exists>m b. below [] ns ''README.md'' (FileNode m (Some b)))"
proof -
  have d: "demo_tar ''tar'' = Some [Some demo_header, Some demo_file]" by (simp add: demo_tar_def)
  have a: "archive_file [Some demo_header, Some demo_file] ''README.md'' ''hi''" 
    unfolding archive_file_def by (rule exI [of _ demo_file]) (simp add: demo_file_facts)
  from unmodified_source_is_the_archive [OF demo_verify d] obtain ns where n: "Some demo_source = Some ns"
      "\<forall>rel d. archive_file [Some demo_header, Some demo_file] rel d
        \<longrightarrow> (\<exists>m b. below [] ns rel (FileNode m (Some b)) \<and> sha256 sample_crypto b = sha256 sample_crypto d)"
    by (elim exE conjE)
  from n(2) [rule_format, OF a] obtain m b where "below [] ns ''README.md'' (FileNode m (Some b))" by (elim exE conjE)
  with demo_verify [unfolded n(1)] show ?thesis by (intro exI conjI)
qed

end
