(* ===== verification/Coding_Run.thy ===== *)
theory Coding_Run
  imports Coding_Snapshot
begin

text \<open>
  \<^verbatim>\<open>execute_in_sandbox_tracked\<close> of \<^verbatim>\<open>src/crates/codex/src/lib.rs\<close> and \<^verbatim>\<open>src/crates/codex/src/relay.rs\<close>: one approved run in a
  disposable sandbox. The run is a state machine. Each answer of the sandbox provider, the subscription adapter and the
  ownership recorder is an event, as are the owner's cancellation and the passing of a deadline; they come in any order, and
  an event the run does not wait for changes nothing. \<open>EvPoll late\<close> is the relay's look at its own thirty-second deadline
  before each read. The state keeps the calls the run made, the newest first.
\<close>

section \<open>Before the sandbox\<close>

record run_env =
  ev_crypto :: crypto
  ev_tar :: tar_reader
  ev_envelope_json :: "task_envelope \<Rightarrow> string option"
  ev_input_json :: "sandbox_run_input \<Rightarrow> string option"
  ev_capability_json :: "string \<Rightarrow> string"
  ev_channel_json :: "string \<Rightarrow> task_channel_request option"
  ev_response_json :: "task_channel_response \<Rightarrow> string option"
  ev_result_json :: "string \<Rightarrow> sandbox_result_document option"

record run_order =
  ro_request :: signed_coding_request
  ro_snapshot :: repository_snapshot
  ro_context :: task_context_input
  ro_run_id :: string
  ro_capability :: "string option"

record prepared_run =
  pr_task :: sandbox_task
  pr_input :: sandbox_run_input
  pr_context :: task_envelope
  pr_run_id :: string
  pr_archive :: string
  pr_token :: string

text \<open>
  The checks before a sandbox is asked for. \<open>fresh\<close> is the identifier made for the task, replaced by the run's;
  \<open>available\<close> and \<open>provider\<close> are what the adapter and the provider answer, \<open>cancelled\<close> the cancellation flag.
\<close>

definition prepare_run :: "run_env \<Rightarrow> run_order \<Rightarrow> string \<Rightarrow> bool \<Rightarrow> bool \<Rightarrow> bool \<Rightarrow> coding_run_error + prepared_run" where
  "prepare_run v ord fresh available provider cancelled =
     (let op = sc_operation (ro_request ord) in
      if isl (coding_validate op) then Inl SandboxFailed
      else case compile_task_envelope (ev_envelope_json v) op (ro_context ord) of
        Inl _ \<Rightarrow> Inl SandboxFailed
      | Inr ctx \<Rightarrow>
          if isl (snapshot_validate_for (ro_snapshot ord) op)
             \<or> isl (validate_archive (ev_tar v) (rs_archive (ro_snapshot ord)) (rs_base_commit_sha (ro_snapshot ord)))
          then Inl RepositoryIsolationUnavailable
          else case ro_capability ord of
            None \<Rightarrow> Inl CodexAuthenticationUnavailable
          | Some token \<Rightarrow>
              if \<not> available then Inl CodexAuthenticationUnavailable
              else if \<not> provider then Inl SandboxUnavailable
              else (case coding_sandbox_task fresh op of
                  Inl _ \<Rightarrow> Inl SandboxFailed
                | Inr t \<Rightarrow>
                    (case input_from_approved (ev_crypto v) (ro_request ord) (ro_run_id ord) (ro_snapshot ord) of
                       Inl _ \<Rightarrow> Inl SandboxFailed
                     | Inr i \<Rightarrow>
                         if cancelled then Inl SandboxFailed
                         else Inr \<lparr>pr_task = t\<lparr>sk_task_id := ro_run_id ord,
                                    sk_codex_session_id := Some (cr_session_id (coding_run_of op))\<rparr>,
                                  pr_input = i, pr_context = ctx, pr_run_id = ro_run_id ord,
                                  pr_archive = rs_archive (ro_snapshot ord), pr_token = token\<rparr>)))"

section \<open>The run\<close>

record coding_run_result =
  rr_run_id :: string
  rr_session_id :: string
  rr_status :: string
  rr_base_commit_sha :: string
  rr_exit_code :: "int option"
  rr_timed_out :: bool
  rr_elapsed_ms :: nat
  rr_stdout_summary :: string
  rr_stderr_summary :: string
  rr_artifacts :: "string list"
  rr_termination_reason :: string
  rr_artifact_contents :: "collected_artifact list"

datatype run_call = CallCreate | CallRecord | CallPolicy network_policy | CallUpload string string | CallExec "string list" | CallReadRequest
| CallAdapter brokered_codex_request | CallWriteResponse string | CallCollect | CallTerminate | CallRevoke bool | CallCleanup bool

datatype relay_state = RelayStart | RelayPolling | RelayReading | RelayAsking brokered_codex_request | RelayWriting | RelayDone

datatype run_phase =
  Creating
| Recording
| Abandoning coding_run_error
| AbandonCleanup coding_run_error bool
| SettingPolicy
| Uploading nat
| Running "execution_result option" relay_state
| Collecting execution_result
| Terminating "coding_run_error + coding_run_result"
| Cleaning "coding_run_error + coding_run_result" bool
| Returned "coding_run_error + coding_run_result"

datatype run_event =
  EvCancel
| EvDeadline
| EvCreate "sandbox_error + sandbox_handle"
| EvRecord "coding_run_error + unit"
| EvPolicy "sandbox_error + unit"
| EvUpload "sandbox_error + unit"
| EvExec "sandbox_error + execution_result"
| EvAvailable bool
| EvRequest int "sandbox_error + string option"
| EvPoll bool
| EvAdapter "coding_run_error + task_channel_response"
| EvAdapterTimeout
| EvWrite "sandbox_error + unit"
| EvCollect "sandbox_error + collected_artifact list"
| EvTerminate bool
| EvCleanup bool

record run_state =
  ru_phase :: run_phase
  ru_calls :: "run_call list"
  ru_authority :: authority

definition enter :: "run_phase \<Rightarrow> run_call list \<Rightarrow> run_state \<Rightarrow> run_state" where
  "enter ph cs s = s\<lparr>ru_phase := ph, ru_calls := cs @ ru_calls s\<rparr>"

definition run_start :: "authority \<Rightarrow> run_state" where
  "run_start a = \<lparr>ru_phase = Creating, ru_calls = [CallCreate], ru_authority = a\<rparr>"

text \<open>Every end of the body leads to the destruction of the sandbox.\<close>

definition finish :: "coding_run_error + coding_run_result \<Rightarrow> run_state \<Rightarrow> run_state" where
  "finish r = enter (Terminating r) [CallTerminate]"

text \<open>The files copied in, in order; a document that cannot be encoded is \<open>None\<close>.\<close>

definition upload_files :: "run_env \<Rightarrow> prepared_run \<Rightarrow> (string \<times> string option) list" where
  "upload_files v p = [(''request.json'', ev_input_json v (pr_input p)), (''task-context.json'', ev_envelope_json v (pr_context p)),
     (''repository.tar'', Some (pr_archive p)), (''codex-capability.json'', Some (ev_capability_json v (pr_token p)))]"

definition next_upload :: "run_env \<Rightarrow> prepared_run \<Rightarrow> nat \<Rightarrow> run_state \<Rightarrow> run_state" where
  "next_upload v p n s = (case drop n (upload_files v p) of
     [] \<Rightarrow> enter (Running None RelayStart) [CallExec (sk_command (pr_task p))] s
   | (name, content) # _ \<Rightarrow> (case content of
       None \<Rightarrow> finish (Inl SandboxFailed) s
     | Some b \<Rightarrow> enter (Uploading n) [CallUpload name b] s))"

text \<open>The command has ended and the relay is in state \<open>r\<close>, or the other way round.\<close>

definition joined :: "execution_result option \<Rightarrow> relay_state \<Rightarrow> run_state \<Rightarrow> run_state" where
  "joined x r s = (case x of
     Some ex \<Rightarrow> if r = RelayDone then enter (Collecting ex) [CallCollect] s else enter (Running x r) [] s
   | None \<Rightarrow> enter (Running x r) [] s)"

definition exec_step :: "relay_state \<Rightarrow> sandbox_error + execution_result \<Rightarrow> run_state \<Rightarrow> run_state" where
  "exec_step r res s = (case res of
     Inl _ \<Rightarrow> finish (Inl SandboxFailed) s
   | Inr ex \<Rightarrow>
       if ex_timed_out ex then finish (Inl RunTimedOut) s
       else if ex_exit_code ex \<noteq> Some 0 then finish (Inl SandboxFailed) s
       else joined (Some ex) r s)"

definition relay_request :: "run_env \<Rightarrow> prepared_run \<Rightarrow> execution_result option \<Rightarrow> int \<Rightarrow> string \<Rightarrow> run_state \<Rightarrow> run_state" where
  "relay_request v p x now raw s =
     (if length raw > 48 * 1024 then finish (Inl SandboxFailed) s
      else case ev_channel_json v raw of
        None \<Rightarrow> finish (Inl SandboxFailed) s
      | Some q \<Rightarrow>
          if cq_binding q \<noteq> brokered_request (pr_input p) \<or> cq_task q \<noteq> pr_context p then finish (Inl SandboxFailed) s
          else case authorize_raw (ev_crypto v) (cq_capability_token q) (cq_binding q) 1 now (ru_authority s) of
            (Inl _, a) \<Rightarrow> finish (Inl SandboxFailed) (s\<lparr>ru_authority := a\<rparr>)
          | (Inr _, a) \<Rightarrow> enter (Running x (RelayAsking (cq_binding q))) [CallAdapter (cq_binding q)] (s\<lparr>ru_authority := a\<rparr>))"

definition relay_response :: "run_env \<Rightarrow> execution_result option \<Rightarrow> brokered_codex_request \<Rightarrow> coding_run_error + task_channel_response
    \<Rightarrow> run_state \<Rightarrow> run_state" where
  "relay_response v x b res s = (case res of
     Inl e \<Rightarrow> finish (Inl e) s
   | Inr r \<Rightarrow>
       if cp_binding r \<noteq> b \<or> length (cp_summary r) > 8 * 1024 \<or> length (cp_patch_diff r) > 512 * 1024
       then finish (Inl SandboxFailed) s
       else (case ev_response_json v r of
          None \<Rightarrow> finish (Inl SandboxFailed) s
        | Some out \<Rightarrow> enter (Running x RelayWriting) [CallWriteResponse out] s))"

fun outcome_status :: "task_outcome \<Rightarrow> string" where
  "outcome_status OutCompleted = ''completed''"
| "outcome_status OutPlanLimit = ''plan_limit''"
| "outcome_status OutSubscriptionUnavailable = ''subscription_unavailable''"
| "outcome_status OutRuntimeFailure = ''failed''"

definition run_result :: "prepared_run \<Rightarrow> execution_result \<Rightarrow> collected_artifact list \<Rightarrow> sandbox_result_document \<Rightarrow> coding_run_result" where
  "run_result p ex arts d = \<lparr>rr_run_id = pr_run_id p, rr_session_id = si_session_id (pr_input p), rr_status = outcome_status (rd_outcome d),
     rr_base_commit_sha = si_base_commit_sha (pr_input p), rr_exit_code = ex_exit_code ex, rr_timed_out = False, rr_elapsed_ms = ex_duration_ms ex,
     rr_stdout_summary = rd_summary d, rr_stderr_summary = [], rr_artifacts = map co_path arts,
     rr_termination_reason = ''completed'', rr_artifact_contents = arts\<rparr>"

definition collect_step :: "run_env \<Rightarrow> prepared_run \<Rightarrow> execution_result \<Rightarrow> sandbox_error + collected_artifact list \<Rightarrow> run_state \<Rightarrow> run_state" where
  "collect_step v p ex res s = (case res of
     Inl _ \<Rightarrow> finish (Inl SandboxFailed) s
   | Inr arts \<Rightarrow> (case validate_final_artifacts (ev_result_json v) arts (pr_input p) of
       Inl _ \<Rightarrow> finish (Inl SandboxFailed) s
     | Inr d \<Rightarrow> finish (Inr (run_result p ex arts d)) s))"

definition relay_poll :: "run_env \<Rightarrow> prepared_run \<Rightarrow> execution_result option \<Rightarrow> int \<Rightarrow> sandbox_error + string option \<Rightarrow> run_state \<Rightarrow> run_state" where
  "relay_poll v p x now res s = (case res of
     Inl _ \<Rightarrow> finish (Inl SandboxFailed) s
   | Inr None \<Rightarrow> enter (Running x RelayPolling) [] s
   | Inr (Some raw) \<Rightarrow> relay_request v p x now raw s)"

definition relay_step :: "run_env \<Rightarrow> prepared_run \<Rightarrow> execution_result option \<Rightarrow> relay_state \<Rightarrow> run_event \<Rightarrow> run_state \<Rightarrow> run_state" where
  "relay_step v p x r e s = (case r of
     RelayStart \<Rightarrow> (case e of EvAvailable ok \<Rightarrow>
         if ok then enter (Running x RelayPolling) [] s else finish (Inl CodexAuthenticationUnavailable) s
       | _ \<Rightarrow> s)
   | RelayPolling \<Rightarrow> (case e of EvPoll late \<Rightarrow>
         if late then finish (Inl RunTimedOut) s else enter (Running x RelayReading) [CallReadRequest] s
       | _ \<Rightarrow> s)
   | RelayReading \<Rightarrow> (case e of EvRequest now res \<Rightarrow> relay_poll v p x now res s | _ \<Rightarrow> s)
   | RelayAsking b \<Rightarrow> (case e of EvAdapterTimeout \<Rightarrow> finish (Inl RunTimedOut) s
       | EvAdapter res \<Rightarrow> relay_response v x b res s | _ \<Rightarrow> s)
   | RelayWriting \<Rightarrow> (case e of EvWrite res \<Rightarrow> if isl res then finish (Inl SandboxFailed) s else joined x RelayDone s | _ \<Rightarrow> s)
   | RelayDone \<Rightarrow> s)"

definition running_step :: "run_env \<Rightarrow> prepared_run \<Rightarrow> execution_result option \<Rightarrow> relay_state \<Rightarrow> run_event \<Rightarrow> run_state \<Rightarrow> run_state" where
  "running_step v p x r e s = (case e of
     EvExec res \<Rightarrow> if x = None then exec_step r res s else s
   | _ \<Rightarrow> relay_step v p x r e s)"

text \<open>The calls inside the cancellable, timed part of the run.\<close>

definition body_step :: "run_env \<Rightarrow> prepared_run \<Rightarrow> run_event \<Rightarrow> run_state \<Rightarrow> run_state" where
  "body_step v p e s =
     (if e = EvCancel then finish (Inl SandboxFailed) s
      else if e = EvDeadline then finish (Inl RunTimedOut) s
      else case ru_phase s of
        SettingPolicy \<Rightarrow> (case e of EvPolicy res \<Rightarrow> if isl res then finish (Inl SandboxFailed) s else next_upload v p 0 s | _ \<Rightarrow> s)
      | Uploading n \<Rightarrow> (case e of EvUpload res \<Rightarrow> if isl res then finish (Inl SandboxFailed) s else next_upload v p (Suc n) s | _ \<Rightarrow> s)
      | Running x r \<Rightarrow> running_step v p x r e s
      | Collecting ex \<Rightarrow> (case e of EvCollect res \<Rightarrow> collect_step v p ex res s | _ \<Rightarrow> s)
      | _ \<Rightarrow> s)"

fun in_body :: "run_phase \<Rightarrow> bool" where
  "in_body SettingPolicy = True"
| "in_body (Uploading _) = True"
| "in_body (Running _ _) = True"
| "in_body (Collecting _) = True"
| "in_body _ = False"

definition outer_step :: "prepared_run \<Rightarrow> run_event \<Rightarrow> run_state \<Rightarrow> run_state" where
  "outer_step p e s = (case ru_phase s of
     Creating \<Rightarrow> (case e of
         EvCreate res \<Rightarrow> if isl res then enter (Returned (Inl CleanupRequired)) [] s else enter Recording [CallRecord] s
       | EvCancel \<Rightarrow> enter (Returned (Inl CleanupRequired)) [] s
       | EvDeadline \<Rightarrow> enter (Returned (Inl CleanupRequired)) [] s
       | _ \<Rightarrow> s)
   | Recording \<Rightarrow> (case e of
         EvRecord res \<Rightarrow> (case res of Inl err \<Rightarrow> enter (Abandoning err) [CallTerminate] s | Inr _ \<Rightarrow> enter SettingPolicy [CallPolicy (sk_network_policy (pr_task p))] s)
       | _ \<Rightarrow> s)
   | Abandoning err \<Rightarrow> (case e of EvTerminate ok \<Rightarrow> enter (AbandonCleanup err ok) [CallCleanup ok] s | _ \<Rightarrow> s)
   | AbandonCleanup err ok \<Rightarrow> (case e of
         EvCleanup _ \<Rightarrow> enter (Returned (Inl (if ok then err else CleanupRequired))) [CallRevoke False]
           (s\<lparr>ru_authority := revoke_run (pr_run_id p) False (ru_authority s)\<rparr>)
       | _ \<Rightarrow> s)
   | Terminating r \<Rightarrow> (case e of
         EvTerminate ok \<Rightarrow> enter (Cleaning r ok) [CallCleanup ok, CallRevoke (\<not> isl r)]
           (s\<lparr>ru_authority := revoke_run (pr_run_id p) (\<not> isl r) (ru_authority s)\<rparr>)
       | _ \<Rightarrow> s)
   | Cleaning r ok \<Rightarrow> (case e of EvCleanup good \<Rightarrow> enter (Returned (if \<not> good \<or> \<not> ok then Inl CleanupRequired else r)) [] s | _ \<Rightarrow> s)
   | _ \<Rightarrow> s)"

definition run_step :: "run_env \<Rightarrow> prepared_run \<Rightarrow> run_state \<Rightarrow> run_event \<Rightarrow> run_state" where
  "run_step v p s e = (if in_body (ru_phase s) then body_step v p e s else outer_step p e s)"

section \<open>The invariant of a run\<close>

fun body_call :: "run_call \<Rightarrow> bool" where
  "body_call CallCreate = False"
| "body_call CallRecord = False"
| "body_call CallTerminate = False"
| "body_call (CallRevoke _) = False"
| "body_call (CallCleanup _) = False"
| "body_call _ = True"

fun adapter_call :: "run_call \<Rightarrow> bool" where
  "adapter_call (CallAdapter _) = True"
| "adapter_call _ = False"

fun response_call :: "run_call \<Rightarrow> bool" where
  "response_call (CallWriteResponse _) = True"
| "response_call _ = False"

definition asked :: "run_call list \<Rightarrow> nat" where
  "asked cs = length (filter adapter_call cs)"

text \<open>The calls of a run whose sandbox exists and whose ownership is recorded.\<close>

definition opened :: "run_call list \<Rightarrow> bool" where
  "opened cs \<longleftrightarrow> (\<exists>bs. cs = bs @ [CallRecord, CallCreate] \<and> list_all body_call bs) \<and> asked cs \<le> 1"

definition exec_good :: "execution_result option \<Rightarrow> bool" where
  "exec_good x \<longleftrightarrow> (\<forall>ex. x = Some ex \<longrightarrow> ex_exit_code ex = Some 0 \<and> \<not> ex_timed_out ex)"

definition relay_good :: "relay_state \<Rightarrow> run_call list \<Rightarrow> bool" where
  "relay_good r cs \<longleftrightarrow> (r \<in> {RelayStart, RelayPolling, RelayReading} \<longrightarrow> asked cs = 0) \<and> (r \<in> {RelayWriting, RelayDone} \<longrightarrow> list_ex response_call cs)"

definition result_good :: "run_env \<Rightarrow> prepared_run \<Rightarrow> run_call list \<Rightarrow> coding_run_error + coding_run_result \<Rightarrow> bool" where
  "result_good v p cs r \<longleftrightarrow> (\<forall>x. r = Inr x \<longrightarrow> list_ex response_call cs \<and> (\<exists>ex arts d. x = run_result p ex arts d
     \<and> validate_final_artifacts (ev_result_json v) arts (pr_input p) = Inr d \<and> ex_exit_code ex = Some 0 \<and> \<not> ex_timed_out ex))"

definition run_dead :: "string \<Rightarrow> authority \<Rightarrow> bool" where
  "run_dead run a \<longleftrightarrow> (\<forall>h s. map_of a h = Some s \<longrightarrow> ca_run_id (st_claims s) = run \<longrightarrow> st_status s \<noteq> CapActive)"

definition torn_down :: "run_env \<Rightarrow> prepared_run \<Rightarrow> coding_run_error + coding_run_result \<Rightarrow> bool \<Rightarrow> run_call list \<Rightarrow> authority \<Rightarrow> bool" where
  "torn_down v p r ok cs a \<longleftrightarrow> (\<exists>bs. cs = [CallCleanup ok, CallRevoke (\<not> isl r), CallTerminate] @ bs \<and> opened bs \<and> result_good v p bs r)
     \<and> run_dead (pr_run_id p) a"

fun phase_inv :: "run_env \<Rightarrow> prepared_run \<Rightarrow> run_phase \<Rightarrow> run_call list \<Rightarrow> authority \<Rightarrow> bool" where
  "phase_inv v p Creating cs a = (cs = [CallCreate])"
| "phase_inv v p Recording cs a = (cs = [CallRecord, CallCreate])"
| "phase_inv v p (Abandoning e) cs a = (cs = [CallTerminate, CallRecord, CallCreate])"
| "phase_inv v p (AbandonCleanup e ok) cs a = (cs = [CallCleanup ok, CallTerminate, CallRecord, CallCreate])"
| "phase_inv v p SettingPolicy cs a = (opened cs \<and> asked cs = 0)"
| "phase_inv v p (Uploading n) cs a = (opened cs \<and> asked cs = 0)"
| "phase_inv v p (Running x r) cs a = (opened cs \<and> relay_good r cs \<and> exec_good x)"
| "phase_inv v p (Collecting ex) cs a = (opened cs \<and> list_ex response_call cs \<and> exec_good (Some ex))"
| "phase_inv v p (Terminating r) cs a = (\<exists>bs. cs = CallTerminate # bs \<and> opened bs \<and> result_good v p bs r)"
| "phase_inv v p (Cleaning r ok) cs a = torn_down v p r ok cs a"
| "phase_inv v p (Returned r) cs a = (cs = [CallCreate] \<and> r = Inl CleanupRequired
     \<or> (\<exists>e ok. cs = [CallRevoke False, CallCleanup ok, CallTerminate, CallRecord, CallCreate]
          \<and> r = Inl (if ok then e else CleanupRequired) \<and> run_dead (pr_run_id p) a)
     \<or> (\<exists>r0 ok. torn_down v p r0 ok cs a \<and> (r = r0 \<and> ok \<or> r = Inl CleanupRequired)))"

definition coding_run_inv :: "run_env \<Rightarrow> prepared_run \<Rightarrow> run_state \<Rightarrow> bool" where
  "coding_run_inv v p s \<longleftrightarrow> phase_inv v p (ru_phase s) (ru_calls s) (ru_authority s)"

lemma run_dead_revoke: "run_dead run (revoke_run run b a)"
  unfolding run_dead_def map_of_revoke_run
proof (intro allI impI)
  fix h s
  assume m: "map_option (\<lambda>s. if ca_run_id (st_claims s) = run then s\<lparr>st_status := (if b then CapCompleted else CapCancelled)\<rparr> else s)
      (map_of a h) = Some s" and r: "ca_run_id (st_claims s) = run"
  then obtain s0 where "map_of a h = Some s0" by (cases "map_of a h") auto
  with m r show "st_status s \<noteq> CapActive" by (cases "ca_run_id (st_claims s0) = run") (auto split: if_splits)
qed

lemma asked_Cons [simp]: "asked (c # cs) = (if adapter_call c then Suc (asked cs) else asked cs)" "asked [] = 0"
  by (simp_all add: asked_def)

lemma opened_Cons: "opened cs \<Longrightarrow> body_call c \<Longrightarrow> adapter_call c \<longrightarrow> asked cs = 0 \<Longrightarrow> opened (c # cs)"
  unfolding opened_def by (auto intro: exI [of _ "c # _"])

lemma enter_simps [simp]: "ru_phase (enter ph cs s) = ph" "ru_calls (enter ph cs s) = cs @ ru_calls s"
    "ru_authority (enter ph cs s) = ru_authority s"
  by (simp_all add: enter_def)

lemma finish_inv: "opened (ru_calls s) \<Longrightarrow> result_good v p (ru_calls s) r \<Longrightarrow> coding_run_inv v p (finish r s)"
  by (simp add: coding_run_inv_def finish_def)

lemma result_good_Inl [simp]: "result_good v p cs (Inl e)"
  by (simp add: result_good_def)

lemma next_upload_inv: "opened (ru_calls s) \<Longrightarrow> asked (ru_calls s) = 0 \<Longrightarrow> coding_run_inv v p (next_upload v p n s)"
  by (auto simp: next_upload_def coding_run_inv_def finish_def relay_good_def exec_good_def intro: opened_Cons split: list.splits option.splits)

lemma joined_inv: "opened (ru_calls s) \<Longrightarrow> relay_good r (ru_calls s) \<Longrightarrow> exec_good x \<Longrightarrow> coding_run_inv v p (joined x r s)"
  by (auto simp: joined_def coding_run_inv_def relay_good_def exec_good_def intro: opened_Cons split: option.splits)

lemma exec_step_inv: "opened (ru_calls s) \<Longrightarrow> relay_good r (ru_calls s) \<Longrightarrow> coding_run_inv v p (exec_step r res s)"
  by (auto simp: exec_step_def exec_good_def intro!: finish_inv joined_inv split: sum.splits)

lemma relay_request_inv:
  "opened (ru_calls s) \<Longrightarrow> asked (ru_calls s) = 0 \<Longrightarrow> exec_good x \<Longrightarrow> coding_run_inv v p (relay_request v p x now raw s)"
  by (auto simp: relay_request_def coding_run_inv_def finish_def relay_good_def intro: opened_Cons split: option.splits prod.splits sum.splits)

lemma relay_response_inv: "opened (ru_calls s) \<Longrightarrow> exec_good x \<Longrightarrow> coding_run_inv v p (relay_response v x b res s)"
  by (auto simp: relay_response_def coding_run_inv_def finish_def relay_good_def intro: opened_Cons split: option.splits sum.splits)

lemma relay_poll_inv:
  "opened (ru_calls s) \<Longrightarrow> asked (ru_calls s) = 0 \<Longrightarrow> exec_good x \<Longrightarrow> coding_run_inv v p (relay_poll v p x now res s)"
  by (auto simp: relay_poll_def intro: finish_inv relay_request_inv split: sum.splits option.splits)
    (auto simp: coding_run_inv_def relay_good_def intro: opened_Cons)

lemma relay_step_inv:
  assumes "coding_run_inv v p s" and "ru_phase s = Running x r"
  shows "coding_run_inv v p (relay_step v p x r e s)"
proof -
  have o: "opened (ru_calls s)" "relay_good r (ru_calls s)" "exec_good x" using assms by (simp_all add: coding_run_inv_def)
  show ?thesis
  proof (cases r)
    case RelayStart
    with o assms(1) show ?thesis
      by (auto simp: relay_step_def intro: finish_inv split: run_event.splits)
        (auto simp: coding_run_inv_def relay_good_def intro: opened_Cons)
  next
    case RelayPolling
    with o assms(1) show ?thesis
      by (auto simp: relay_step_def intro: finish_inv split: run_event.splits)
        (auto simp: coding_run_inv_def relay_good_def intro: opened_Cons)
  next
    case RelayReading
    with o assms(1) show ?thesis
      by (auto simp: relay_step_def relay_good_def intro: finish_inv relay_poll_inv split: run_event.splits)
  next
    case (RelayAsking b)
    with o assms(1) show ?thesis
      by (auto simp: relay_step_def intro: finish_inv relay_response_inv split: run_event.splits)
  next
    case RelayWriting
    with o have "relay_good RelayDone (ru_calls s)" by (simp add: relay_good_def)
    with RelayWriting o assms(1) show ?thesis
      by (auto simp: relay_step_def intro: finish_inv joined_inv split: run_event.splits)
  qed (use assms(1) in \<open>simp add: relay_step_def\<close>)
qed

lemma collect_step_inv:
  "opened (ru_calls s) \<Longrightarrow> list_ex response_call (ru_calls s) \<Longrightarrow> exec_good (Some ex) \<Longrightarrow> coding_run_inv v p (collect_step v p ex res s)"
proof -
  assume a: "opened (ru_calls s)" "list_ex response_call (ru_calls s)" "exec_good (Some ex)"
  then have "result_good v p (ru_calls s) (Inr (run_result p ex arts d))"
    if "validate_final_artifacts (ev_result_json v) arts (pr_input p) = Inr d" for arts d
    using that unfolding result_good_def exec_good_def by blast
  with a(1) show ?thesis by (auto simp: collect_step_def intro: finish_inv split: sum.splits)
qed

lemma body_step_inv:
  assumes "coding_run_inv v p s" and "in_body (ru_phase s)"
  shows "coding_run_inv v p (body_step v p e s)"
proof -
  have o: "opened (ru_calls s)" using assms by (cases "ru_phase s") (auto simp: coding_run_inv_def)
  consider (ended) "e \<in> {EvCancel, EvDeadline}" | (policy) "ru_phase s = SettingPolicy" | (upload) n where "ru_phase s = Uploading n"
    | (work) x r where "ru_phase s = Running x r" "e \<notin> {EvCancel, EvDeadline}"
    | (collect) ex where "ru_phase s = Collecting ex"
    using assms(2) by (cases "ru_phase s") auto
  then show ?thesis
  proof cases
    case ended
    with o show ?thesis by (auto simp: body_step_def intro: finish_inv)
  next
    case policy
    then have "asked (ru_calls s) = 0" using assms(1) by (simp add: coding_run_inv_def)
    with policy assms(1) o show ?thesis by (cases e) (auto simp: body_step_def intro: finish_inv next_upload_inv)
  next
    case upload
    then have "asked (ru_calls s) = 0" using assms(1) by (simp add: coding_run_inv_def)
    with upload assms(1) o show ?thesis by (cases e) (auto simp: body_step_def intro: finish_inv next_upload_inv)
  next
    case work
    have "relay_good r (ru_calls s)" using work assms(1) by (simp add: coding_run_inv_def)
    with work o assms(1) relay_step_inv [OF assms(1) work(1), of e] show ?thesis
      by (auto simp: body_step_def running_step_def intro: exec_step_inv split: run_event.splits)
  next
    case collect
    then have "list_ex response_call (ru_calls s)" "exec_good (Some ex)" using assms(1) by (simp_all add: coding_run_inv_def)
    with collect o assms(1) show ?thesis
      by (cases e) (auto simp: body_step_def intro: finish_inv collect_step_inv)
  qed
qed

lemma torn_down_enter: "phase_inv v p (Terminating r) cs a \<Longrightarrow> torn_down v p r ok ([CallCleanup ok, CallRevoke (\<not> isl r)] @ cs) (revoke_run (pr_run_id p) b a)"
  by (auto simp: torn_down_def run_dead_revoke)

lemma outer_step_inv:
  assumes "coding_run_inv v p s" and "\<not> in_body (ru_phase s)"
  shows "coding_run_inv v p (outer_step p e s)"
proof (cases "ru_phase s")
  case Creating
  with assms(1) show ?thesis by (cases e) (auto simp: outer_step_def coding_run_inv_def)
next
  case Recording
  with assms(1) show ?thesis by (cases e) (auto simp: outer_step_def coding_run_inv_def opened_def split: sum.splits)
next
  case (Abandoning err)
  with assms(1) show ?thesis by (cases e) (auto simp: outer_step_def coding_run_inv_def)
next
  case (AbandonCleanup err ok)
  with assms(1) show ?thesis by (cases e) (auto simp: outer_step_def coding_run_inv_def run_dead_revoke)
next
  case (Terminating r)
  show ?thesis
  proof (cases "\<exists>ok. e = EvTerminate ok")
    case True
    then obtain ok where e: "e = EvTerminate ok" by blast
    have "phase_inv v p (Terminating r) (ru_calls s) (ru_authority s)" using assms(1) Terminating by (simp add: coding_run_inv_def)
    from torn_down_enter [OF this] show ?thesis unfolding e by (simp add: outer_step_def Terminating coding_run_inv_def)
  next
    case False
    with assms(1) Terminating show ?thesis by (cases e) (auto simp: outer_step_def)
  qed
next
  case (Cleaning r ok)
  then have t: "torn_down v p r ok (ru_calls s) (ru_authority s)" using assms(1) by (simp add: coding_run_inv_def)
  show ?thesis
  proof (cases "\<exists>good. e = EvCleanup good")
    case True
    then obtain good where e: "e = EvCleanup good" by blast
    from t show ?thesis unfolding e by (auto simp: outer_step_def Cleaning coding_run_inv_def)
  next
    case False
    with assms(1) Cleaning show ?thesis by (cases e) (auto simp: outer_step_def)
  qed
qed (use assms in \<open>auto simp: outer_step_def\<close>)

interpretation run: transition_system "run_step v p" "coding_run_inv v p" for v p
  by unfold_locales (simp add: run_step_def body_step_inv outer_step_inv)

lemma run_start_inv: "coding_run_inv v p (run_start a)"
  by (simp add: run_start_def coding_run_inv_def)

section \<open>What a run heard\<close>

text \<open>\<open>heard v p a es\<close>: the events of \<open>es\<close> that the run did not ignore, the newest first.\<close>

definition heard_step :: "run_env \<Rightarrow> prepared_run \<Rightarrow> run_state \<times> run_event list \<Rightarrow> run_event \<Rightarrow> run_state \<times> run_event list" where
  "heard_step v p w e = (case w of (s, hs) \<Rightarrow> (run_step v p s e, if run_step v p s e = s then hs else e # hs))"

definition heard :: "run_env \<Rightarrow> prepared_run \<Rightarrow> authority \<Rightarrow> run_event list \<Rightarrow> run_event list" where
  "heard v p a es = snd (foldl (heard_step v p) (run_start a, []) es)"

lemma heard_run: "foldl (heard_step v p) (run_start a, []) es = (foldl (run_step v p) (run_start a) es, heard v p a es)"
proof -
  have "fst (foldl (heard_step v p) (s, hs) es) = foldl (run_step v p) s es" for s hs
    by (induction es arbitrary: s hs) (simp_all add: heard_step_def)
  then show ?thesis by (simp add: heard_def prod_eq_iff)
qed

fun exec_event :: "run_event \<Rightarrow> bool" where
  "exec_event (EvExec _) = True"
| "exec_event _ = False"

text \<open>The sandbox was created and its ownership recorded, before anything else.\<close>

definition opened_heard :: "run_event list \<Rightarrow> bool" where
  "opened_heard hs \<longleftrightarrow> (\<exists>bs h. hs = bs @ [EvRecord (Inr ()), EvCreate (Inr h)])"

definition answered :: "run_env \<Rightarrow> prepared_run \<Rightarrow> run_call list \<Rightarrow> run_event list \<Rightarrow> bool" where
  "answered v p cs hs \<longleftrightarrow> (\<exists>q out. EvAdapter (Inr q) \<in> set hs \<and> cp_binding q = brokered_request (pr_input p)
     \<and> ev_response_json v q = Some out \<and> CallWriteResponse out \<in> set cs)"

definition exec_heard :: "execution_result option \<Rightarrow> run_event list \<Rightarrow> bool" where
  "exec_heard x hs \<longleftrightarrow> (case x of None \<Rightarrow> filter exec_event hs = []
     | Some ex \<Rightarrow> filter exec_event hs = [EvExec (Inr ex)] \<and> ex_exit_code ex = Some 0 \<and> \<not> ex_timed_out ex)"

definition work_heard :: "run_env \<Rightarrow> prepared_run \<Rightarrow> execution_result option \<Rightarrow> relay_state \<Rightarrow> run_call list \<Rightarrow> run_event list \<Rightarrow> bool" where
  "work_heard v p x r cs hs \<longleftrightarrow> opened_heard hs \<and> exec_heard x hs \<and> (\<forall>b. r = RelayAsking b \<longrightarrow> b = brokered_request (pr_input p))
     \<and> (r \<in> {RelayWriting, RelayDone} \<longrightarrow> answered v p cs hs) \<and> (r = RelayDone \<longrightarrow> EvWrite (Inr ()) \<in> set hs)"

definition result_heard :: "run_env \<Rightarrow> prepared_run \<Rightarrow> run_call list \<Rightarrow> run_event list \<Rightarrow> coding_run_error + coding_run_result \<Rightarrow> bool" where
  "result_heard v p cs hs r \<longleftrightarrow> opened_heard hs \<and> (\<forall>x. r = Inr x \<longrightarrow> (\<exists>ex arts d hs0. hs = EvCollect (Inr arts) # hs0
     \<and> work_heard v p (Some ex) RelayDone cs hs0 \<and> validate_final_artifacts (ev_result_json v) arts (pr_input p) = Inr d
     \<and> x = run_result p ex arts d))"

fun phase_heard :: "run_env \<Rightarrow> prepared_run \<Rightarrow> run_phase \<Rightarrow> run_call list \<Rightarrow> authority \<Rightarrow> run_event list \<Rightarrow> bool" where
  "phase_heard v p Creating cs a hs = (hs = [])"
| "phase_heard v p Recording cs a hs = (\<exists>h. hs = [EvCreate (Inr h)])"
| "phase_heard v p (Abandoning e) cs a hs = (\<exists>h. hs = [EvRecord (Inl e), EvCreate (Inr h)])"
| "phase_heard v p (AbandonCleanup e ok) cs a hs = (\<exists>h. hs = [EvTerminate ok, EvRecord (Inl e), EvCreate (Inr h)])"
| "phase_heard v p SettingPolicy cs a hs = work_heard v p None RelayStart cs hs"
| "phase_heard v p (Uploading n) cs a hs = work_heard v p None RelayStart cs hs"
| "phase_heard v p (Running x r) cs a hs = work_heard v p x r cs hs"
| "phase_heard v p (Collecting ex) cs a hs = work_heard v p (Some ex) RelayDone cs hs"
| "phase_heard v p (Terminating r) cs a hs = result_heard v p cs hs r"
| "phase_heard v p (Cleaning r ok) cs a hs = (\<exists>hs0. hs = EvTerminate ok # hs0 \<and> result_heard v p cs hs0 r)"
| "phase_heard v p (Returned r) cs a hs = (cs = [CallCreate] \<and> r = Inl CleanupRequired \<and> (\<forall>h. EvCreate (Inr h) \<notin> set hs)
     \<or> (\<exists>e ok good h. cs = [CallRevoke False, CallCleanup ok, CallTerminate, CallRecord, CallCreate] \<and> run_dead (pr_run_id p) a
          \<and> hs = [EvCleanup good, EvTerminate ok, EvRecord (Inl e), EvCreate (Inr h)] \<and> r = Inl (if ok then e else CleanupRequired))
     \<or> (\<exists>r0 ok good hs0. torn_down v p r0 ok cs a \<and> hs = EvCleanup good # EvTerminate ok # hs0 \<and> result_heard v p cs hs0 r0
          \<and> r = (if good \<and> ok then r0 else Inl CleanupRequired)))"

definition heard_inv :: "run_env \<Rightarrow> prepared_run \<Rightarrow> run_state \<times> run_event list \<Rightarrow> bool" where
  "heard_inv v p w \<longleftrightarrow> (case w of (s, hs) \<Rightarrow> coding_run_inv v p s \<and> phase_heard v p (ru_phase s) (ru_calls s) (ru_authority s) hs)"

text \<open>\<open>told v p s' s hs e\<close>: the event was ignored, or the next state accounts for it.\<close>

definition told :: "run_env \<Rightarrow> prepared_run \<Rightarrow> run_state \<Rightarrow> run_state \<Rightarrow> run_event list \<Rightarrow> run_event \<Rightarrow> bool" where
  "told v p s' s hs e \<longleftrightarrow> s' = s \<or> phase_heard v p (ru_phase s') (ru_calls s') (ru_authority s') (e # hs)"

lemma told_same [simp]: "told v p s s hs e"
  by (simp add: told_def)

lemma opened_heard_Cons: "opened_heard hs \<Longrightarrow> opened_heard (e # hs)"
  by (auto simp: opened_heard_def intro: exI [of _ "e # _"])

lemma answered_mono: "answered v p cs hs \<Longrightarrow> answered v p (cs' @ cs) (e # hs)"
  unfolding answered_def by auto

lemma work_heard_Cons:
  "work_heard v p x r cs hs \<Longrightarrow> \<not> exec_event e \<Longrightarrow> r = r' \<or> r' \<in> {RelayStart, RelayPolling, RelayReading} \<Longrightarrow> work_heard v p x r' (cs' @ cs) (e # hs)"
  unfolding work_heard_def exec_heard_def by (auto simp: opened_heard_Cons answered_mono split: option.splits)

lemma told_finish: "work_heard v p x r cs hs \<Longrightarrow> told v p (finish (Inl err) s) s' hs e"
  by (simp add: told_def finish_def result_heard_def work_heard_def opened_heard_Cons)

lemma told_next_upload:
  assumes "work_heard v p None RelayStart (ru_calls s) hs" and "\<not> exec_event e"
  shows "told v p (next_upload v p n s) s' hs e"
proof -
  have "work_heard v p None RelayStart (cs @ ru_calls s) (e # hs)" for cs by (rule work_heard_Cons [OF assms]) simp
  from this [of "[_]"] show ?thesis
    using told_finish [OF assms(1)] by (auto simp: next_upload_def told_def split: list.splits option.splits)
qed

lemma told_joined:
  assumes "\<And>cs. work_heard v p x r (cs @ ru_calls s) (e # hs)"
  shows "told v p (joined x r s) s' hs e"
  using assms [of "[CallCollect]"] assms [of "[]"] by (auto simp: joined_def told_def split: option.splits)

lemma told_exec:
  assumes "work_heard v p None r (ru_calls s) hs"
  shows "told v p (exec_step r res s) s' hs (EvExec res)"
proof (cases res)
  case (Inr ex)
  have "work_heard v p (Some ex) r (cs @ ru_calls s) (EvExec (Inr ex) # hs)" if "\<not> ex_timed_out ex" "ex_exit_code ex = Some 0" for cs
    using assms that by (auto simp: work_heard_def exec_heard_def opened_heard_Cons answered_mono)
  with Inr told_finish [OF assms] told_joined show ?thesis by (simp add: exec_step_def)
qed (simp add: exec_step_def told_finish [OF assms])

lemma told_request:
  assumes w: "work_heard v p x RelayReading (ru_calls s) hs"
  shows "told v p (relay_request v p x now raw s) s' hs (EvRequest t res)"
proof (cases "ev_channel_json v raw")
  case (Some q)
  obtain g a where auth: "authorize_raw (ev_crypto v) (cq_capability_token q) (cq_binding q) 1 now (ru_authority s) = (g, a)" by fastforce
  have "work_heard v p x (RelayAsking b) (CallAdapter b # ru_calls s) (EvRequest t res # hs)" if "b = brokered_request (pr_input p)" for b
    using w that by (auto simp: work_heard_def exec_heard_def opened_heard_Cons split: option.splits)
  then have "told v p (enter (Running x (RelayAsking b)) [CallAdapter b] (s\<lparr>ru_authority := a\<rparr>)) s' hs (EvRequest t res)"
    if "b = brokered_request (pr_input p)" for b using that by (simp add: told_def)
  with Some auth told_finish [OF w] show ?thesis by (cases g) (auto simp: relay_request_def)
qed (simp add: relay_request_def told_finish [OF w])

lemma told_response:
  assumes w: "work_heard v p x (RelayAsking b) (ru_calls s) hs"
  shows "told v p (relay_response v x b res s) s' hs (EvAdapter res)"
proof (cases res)
  case (Inr q)
  have b: "b = brokered_request (pr_input p)" using w by (simp add: work_heard_def)
  have "work_heard v p x RelayWriting (CallWriteResponse out # ru_calls s) (EvAdapter (Inr q) # hs)"
    if "cp_binding q = b" "ev_response_json v q = Some out" for out
    using w that b by (auto simp: work_heard_def exec_heard_def opened_heard_Cons answered_def split: option.splits)
  with Inr told_finish [OF w] show ?thesis
    by (auto simp: relay_response_def told_def split: option.splits if_splits)
qed (simp add: relay_response_def told_finish [OF w])

lemma told_relay:
  assumes w: "work_heard v p x r (ru_calls s) hs" and "\<not> exec_event e"
  shows "told v p (relay_step v p x r e s) s hs e"
proof -
  have same: "told v p (enter (Running x r') cs s) s hs e" if "r' \<in> {RelayStart, RelayPolling, RelayReading}" for r' cs
    using work_heard_Cons [OF w assms(2), of r' cs] that by (simp add: told_def)
  show ?thesis
  proof (cases r)
    case RelayReading
    with w same told_finish [OF w] show ?thesis
      by (auto simp: relay_step_def relay_poll_def told_request split: run_event.split sum.split option.split)
  next
    case (RelayAsking b)
    with w told_finish [OF w] show ?thesis by (auto simp: relay_step_def told_response split: run_event.split)
  next
    case RelayWriting
    have "work_heard v p x RelayDone (cs @ ru_calls s) (EvWrite (Inr ()) # hs)" for cs
      using w RelayWriting by (auto simp: work_heard_def exec_heard_def opened_heard_Cons answered_mono split: option.splits)
    then have "told v p (joined x RelayDone s) s hs (EvWrite (Inr ()))" by (rule told_joined)
    then have "told v p (joined x RelayDone s) s hs (EvWrite res)" if "\<not> isl res" for res using that by (cases res) simp_all
    with RelayWriting told_finish [OF w] show ?thesis by (auto simp: relay_step_def split: run_event.split)
  qed (use same told_finish [OF w] in \<open>auto simp: relay_step_def split: run_event.split\<close>)
qed

lemma told_collect:
  assumes w: "work_heard v p (Some ex) RelayDone (ru_calls s) hs"
  shows "told v p (collect_step v p ex res s) s' hs (EvCollect res)"
proof (cases res)
  case (Inr arts)
  have kept: "work_heard v p (Some ex) RelayDone (CallTerminate # ru_calls s) hs"
    using w by (auto simp: work_heard_def answered_def)
  have "told v p (finish (Inr (run_result p ex arts d)) s) s' hs (EvCollect (Inr arts))"
    if "validate_final_artifacts (ev_result_json v) arts (pr_input p) = Inr d" for d
  proof -
    have "opened_heard (EvCollect (Inr arts) # hs)" using w by (simp add: work_heard_def opened_heard_Cons)
    with that kept have "result_heard v p (CallTerminate # ru_calls s) (EvCollect (Inr arts) # hs) (Inr (run_result p ex arts d))"
      unfolding result_heard_def by blast
    then show ?thesis by (simp add: told_def finish_def)
  qed
  with Inr told_finish [OF w] show ?thesis by (auto simp: collect_step_def split: sum.split)
qed (simp add: collect_step_def told_finish [OF w])

lemma told_body:
  assumes "phase_heard v p (ru_phase s) (ru_calls s) (ru_authority s) hs" and "in_body (ru_phase s)"
  shows "told v p (body_step v p e s) s hs e"
proof -
  obtain x r where w: "work_heard v p x r (ru_calls s) hs" using assms by (cases "ru_phase s") auto
  consider (ended) "e \<in> {EvCancel, EvDeadline}" | (upload) "ru_phase s = SettingPolicy \<or> (\<exists>n. ru_phase s = Uploading n)"
    | (work) x r where "ru_phase s = Running x r" "e \<notin> {EvCancel, EvDeadline}"
    | (collect) ex where "ru_phase s = Collecting ex"
    using assms(2) by (cases "ru_phase s") auto
  then show ?thesis
  proof cases
    case ended
    with told_finish [OF w] show ?thesis by (auto simp: body_step_def)
  next
    case upload
    then have "work_heard v p None RelayStart (ru_calls s) hs" using assms(1) by auto
    with upload told_finish [OF w] show ?thesis by (cases e) (auto simp: body_step_def told_next_upload)
  next
    case work
    then have "work_heard v p x r (ru_calls s) hs" using assms(1) by simp
    with work show ?thesis
      by (cases e) (auto simp: body_step_def running_step_def told_exec told_relay)
  next
    case collect
    then have "work_heard v p (Some ex) RelayDone (ru_calls s) hs" using assms(1) by simp
    with collect told_finish [OF w] show ?thesis by (cases e) (auto simp: body_step_def told_collect)
  qed
qed

lemma work_heard_calls: "work_heard v p x r cs hs \<Longrightarrow> work_heard v p x r (cs' @ cs) hs"
  unfolding work_heard_def answered_def by auto

lemma result_heard_calls: "result_heard v p cs hs r \<Longrightarrow> result_heard v p (cs' @ cs) hs r"
  unfolding result_heard_def by (elim conjE, intro conjI allI impI, assumption) (metis work_heard_calls)

lemma told_outer:
  assumes i: "coding_run_inv v p s" and h: "phase_heard v p (ru_phase s) (ru_calls s) (ru_authority s) hs" and "\<not> in_body (ru_phase s)"
  shows "told v p (outer_step p e s) s hs e"
proof (cases "ru_phase s")
  case Creating
  show ?thesis
  proof (cases e)
    case (EvCreate res)
    with Creating i h show ?thesis by (cases res) (simp_all add: outer_step_def told_def coding_run_inv_def)
  qed (use Creating i h in \<open>simp_all add: outer_step_def told_def coding_run_inv_def\<close>)
next
  case Recording
  then obtain hd where hd: "hs = [EvCreate (Inr hd)]" using h by auto
  then have "work_heard v p None RelayStart cs (EvRecord (Inr ()) # hs)" for cs
    by (auto simp: work_heard_def exec_heard_def opened_heard_def)
  with Recording hd show ?thesis by (cases e) (auto simp: outer_step_def told_def split: sum.splits)
next
  case (Abandoning err)
  with h show ?thesis by (cases e) (auto simp: outer_step_def told_def)
next
  case (AbandonCleanup err ok)
  with i h show ?thesis by (cases e) (auto simp: outer_step_def told_def coding_run_inv_def run_dead_revoke)
next
  case (Terminating r)
  with h have "result_heard v p ([CallCleanup ok, CallRevoke b] @ ru_calls s) hs r" for ok b by (simp add: result_heard_calls del: append.simps)
  with Terminating show ?thesis by (cases e) (simp_all add: outer_step_def told_def)
next
  case (Cleaning r ok)
  then have t: "torn_down v p r ok (ru_calls s) (ru_authority s)" using i by (simp add: coding_run_inv_def)
  obtain hs0 where hs: "hs = EvTerminate ok # hs0" "result_heard v p (ru_calls s) hs0 r" using h Cleaning by auto
  have "phase_heard v p (Returned (if \<not> good \<or> \<not> ok then Inl CleanupRequired else r)) (ru_calls s) (ru_authority s) (EvCleanup good # hs)" for good
    using t hs by auto
  with Cleaning show ?thesis by (cases e) (simp_all add: outer_step_def told_def)
qed (use assms in \<open>simp_all add: outer_step_def\<close>)

interpretation heard: transition_system "heard_step v p" "heard_inv v p" for v p
proof unfold_locales
  fix w e assume inv: "heard_inv v p w"
  obtain s hs where w: "w = (s, hs)" by (cases w)
  have i: "coding_run_inv v p s" and h: "phase_heard v p (ru_phase s) (ru_calls s) (ru_authority s) hs"
    using inv w by (simp_all add: heard_inv_def)
  have "told v p (run_step v p s e) s hs e" using told_body [OF h] told_outer [OF i h] by (simp add: run_step_def)
  then show "heard_inv v p (heard_step v p w e)"
    using run.step_inv [OF i, of e] h by (auto simp: w heard_step_def heard_inv_def told_def)
qed

lemma run_heard:
  assumes "s = foldl (run_step v p) (run_start a) es" and "ru_phase s = Returned r"
  shows "phase_heard v p (Returned r) (ru_calls s) (ru_authority s) (heard v p a es)"
proof -
  have "heard_inv v p (run_start a, [])" using run_start_inv by (simp add: heard_inv_def run_start_def)
  from heard.run_inv [OF this, of es] show ?thesis using assms by (simp add: heard_run heard_inv_def)
qed

text \<open>
  C33. However answers, cancellation and deadlines interleave, a run that returns ended in one of three ways. It never learned
  of a sandbox and reports that cleanup is required. The recorder refused the ownership: the sandbox was terminated
  at once, nothing else was sent to it, and the refusal is the outcome if the termination succeeded (the answer to the
  recording of that outcome is not looked at). Or the calls came in this order: create, record, the calls of the body,
  terminate once, revoke the run's capabilities, record the outcome of the termination; then the outcome is that of the
  body when the last two events heard say that both the termination and that recording succeeded, and cleanup required when either
  failed. Nothing is sent to a sandbox that is not recorded or that was terminated, and no capability of the run is left active.\<close>

theorem sandbox_is_torn_down:
  assumes "ru_phase s = Returned r" and "s = foldl (run_step v p) (run_start a) es"
  shows "ru_calls s = [CallCreate] \<and> r = Inl CleanupRequired \<and> (\<forall>h. EvCreate (Inr h) \<notin> set (heard v p a es))
    \<or> run_dead (pr_run_id p) (ru_authority s)
      \<and> ((\<exists>e ok good h. ru_calls s = [CallRevoke False, CallCleanup ok, CallTerminate, CallRecord, CallCreate]
            \<and> heard v p a es = [EvCleanup good, EvTerminate ok, EvRecord (Inl e), EvCreate (Inr h)]
            \<and> r = Inl (if ok then e else CleanupRequired))
       \<or> (\<exists>bs ok good b r0 hs h. ru_calls s = [CallCleanup ok, CallRevoke b, CallTerminate] @ bs @ [CallRecord, CallCreate]
            \<and> list_all body_call bs \<and> heard v p a es = [EvCleanup good, EvTerminate ok] @ hs @ [EvRecord (Inr ()), EvCreate (Inr h)]
            \<and> b = (\<not> isl r0) \<and> r = (if good \<and> ok then r0 else Inl CleanupRequired)))"
proof -
  from run_heard [OF assms(2,1)] consider
      (never) "ru_calls s = [CallCreate]" "r = Inl CleanupRequired" "\<forall>h. EvCreate (Inr h) \<notin> set (heard v p a es)"
    | (abandoned) e ok good h where "ru_calls s = [CallRevoke False, CallCleanup ok, CallTerminate, CallRecord, CallCreate]"
        "run_dead (pr_run_id p) (ru_authority s)" "heard v p a es = [EvCleanup good, EvTerminate ok, EvRecord (Inl e), EvCreate (Inr h)]"
        "r = Inl (if ok then e else CleanupRequired)"
    | (usual) r0 ok good hs0 where "torn_down v p r0 ok (ru_calls s) (ru_authority s)" "heard v p a es = EvCleanup good # EvTerminate ok # hs0"
        "result_heard v p (ru_calls s) hs0 r0" "r = (if good \<and> ok then r0 else Inl CleanupRequired)"
    unfolding phase_heard.simps by blast
  then show ?thesis
  proof cases
    case abandoned
    then show ?thesis by blast
  next
    case usual
    then obtain bs where bs: "ru_calls s = [CallCleanup ok, CallRevoke (\<not> isl r0), CallTerminate] @ bs @ [CallRecord, CallCreate]"
        "list_all body_call bs" and dead: "run_dead (pr_run_id p) (ru_authority s)"
      by (auto simp: torn_down_def opened_def)
    obtain hs h where "hs0 = hs @ [EvRecord (Inr ()), EvCreate (Inr h)]" using usual(3) by (auto simp: result_heard_def opened_heard_def)
    then have "heard v p a es = [EvCleanup good, EvTerminate ok] @ hs @ [EvRecord (Inr ()), EvCreate (Inr h)]" using usual(2) by simp
    with bs dead usual(4) show ?thesis by blast
  qed blast
qed

section \<open>The subscription is asked once\<close>

definition used_by :: "authority \<Rightarrow> brokered_codex_request \<Rightarrow> bool" where
  "used_by a b \<longleftrightarrow> (\<exists>h st. map_of a h = Some st \<and> bq_request_id b \<in> set (st_used_request_ids st) \<and> ca_run_id (st_claims st) = bq_run_id b)"

definition asks_granted :: "prepared_run \<Rightarrow> run_state \<Rightarrow> bool" where
  "asks_granted p s \<longleftrightarrow> (\<forall>b. CallAdapter b \<in> set (ru_calls s) \<longrightarrow> b = brokered_request (pr_input p) \<and> used_by (ru_authority s) b)"

lemma used_revoke:
  assumes "used_by a b"
  shows "used_by (revoke_run run x a) b"
proof -
  from assms obtain h st where m: "map_of a h = Some st" "bq_request_id b \<in> set (st_used_request_ids st)"
      "ca_run_id (st_claims st) = bq_run_id b" by (auto simp: used_by_def)
  show ?thesis unfolding used_by_def map_of_revoke_run m(1)
    by (rule exI [of _ h]) (simp add: m)
qed

lemma used_authorize:
  assumes "authorize_raw c token r units now a = (res, a')" and "used_by a b"
  shows "used_by a' b"
proof (cases res)
  case (Inl e)
  with assms show ?thesis by (auto dest: authorize_raw_Inl)
next
  case (Inr u)
  from assms(2) obtain h st where m: "map_of a h = Some st" "bq_request_id b \<in> set (st_used_request_ids st)"
      "ca_run_id (st_claims st) = bq_run_id b" by (auto simp: used_by_def)
  obtain s where s: "map_of a (sha256 c token) = Some s" "a' = hm_insert (sha256 c token) (s\<lparr>st_used_request_ids := bq_request_id r # st_used_request_ids s,
        st_used_units := sat_add u64_max (st_used_units s) units\<rparr>) a"
    using authorize_raw_Inr assms(1) Inr by (metis old.unit.exhaust)
  show ?thesis unfolding used_by_def s(2)
    by (rule exI [of _ h]) (use m s(1) in \<open>auto simp: hm_insert_get\<close>)
qed

lemma authorize_uses:
  assumes "authorize_raw c token r units now a = (Inr u, a')"
  shows "used_by a' r"
proof -
  obtain s where s: "cap_check (sha256 c token) s r units now = Inr ()"
      "a' = hm_insert (sha256 c token) (s\<lparr>st_used_request_ids := bq_request_id r # st_used_request_ids s,
        st_used_units := sat_add u64_max (st_used_units s) units\<rparr>) a"
    using authorize_raw_Inr assms by (metis old.unit.exhaust)
  have "ca_run_id (st_claims s) = bq_run_id r" using s(1) by (auto simp: cap_check_def Let_def split: if_splits)
  then show ?thesis unfolding used_by_def s(2) by (intro exI [of _ "sha256 c token"]) (simp add: hm_insert_get)
qed

lemma asks_enter: "asks_granted p s \<Longrightarrow> \<not> list_ex adapter_call cs \<Longrightarrow> asks_granted p (enter ph cs s)"
  by (auto simp: asks_granted_def list_ex_iff)

lemma asks_finish: "asks_granted p s \<Longrightarrow> asks_granted p (finish r s)"
  by (simp add: finish_def asks_enter)

lemma asks_authority: "asks_granted p s \<Longrightarrow> (\<And>b. used_by (ru_authority s) b \<Longrightarrow> used_by a b) \<Longrightarrow> asks_granted p (s\<lparr>ru_authority := a\<rparr>)"
  by (simp add: asks_granted_def)

lemma asks_relay_request:
  assumes "asks_granted p s"
  shows "asks_granted p (relay_request v p x now raw s)"
proof (cases "ev_channel_json v raw")
  case None
  with assms show ?thesis by (simp add: relay_request_def asks_finish)
next
  case (Some q)
  obtain res a where auth: "authorize_raw (ev_crypto v) (cq_capability_token q) (cq_binding q) 1 now (ru_authority s) = (res, a)" by fastforce
  have keep: "asks_granted p (s\<lparr>ru_authority := a\<rparr>)" by (rule asks_authority [OF assms used_authorize [OF auth]])
  have "asks_granted p (enter (Running x (RelayAsking (cq_binding q))) [CallAdapter (cq_binding q)] (s\<lparr>ru_authority := a\<rparr>))"
    if "res = Inr u" "cq_binding q = brokered_request (pr_input p)" for u
    using keep authorize_uses [OF auth [unfolded that(1)]] that(2) by (auto simp: asks_granted_def)
  with Some auth assms keep show ?thesis
    by (auto simp: relay_request_def asks_finish split: sum.splits)
qed

lemma asks_next_upload: "asks_granted p s \<Longrightarrow> asks_granted p (next_upload v p n s)"
  by (auto simp: next_upload_def asks_finish intro!: asks_enter split: list.split option.split)

lemma asks_joined: "asks_granted p s \<Longrightarrow> asks_granted p (joined x r s)"
  by (auto simp: joined_def intro!: asks_enter split: option.split)

lemma asks_exec: "asks_granted p s \<Longrightarrow> asks_granted p (exec_step r res s)"
  by (auto simp: exec_step_def asks_finish asks_joined split: sum.split)

lemma asks_response: "asks_granted p s \<Longrightarrow> asks_granted p (relay_response v x b res s)"
  by (auto simp: relay_response_def asks_finish intro!: asks_enter split: sum.split option.split)

lemma asks_poll: "asks_granted p s \<Longrightarrow> asks_granted p (relay_poll v p x now res s)"
  by (auto simp: relay_poll_def asks_finish asks_relay_request intro!: asks_enter split: sum.split option.split)

lemma asks_collect: "asks_granted p s \<Longrightarrow> asks_granted p (collect_step v p ex res s)"
  by (auto simp: collect_step_def asks_finish split: sum.split)

lemma asks_relay: "asks_granted p s \<Longrightarrow> asks_granted p (relay_step v p x r e s)"
  by (cases r; cases e) (simp_all add: relay_step_def asks_finish asks_joined asks_response asks_poll asks_enter)

lemma asks_running: "asks_granted p s \<Longrightarrow> asks_granted p (running_step v p x r e s)"
  by (cases e) (simp_all add: running_step_def asks_exec asks_relay)

lemma asks_body: "asks_granted p s \<Longrightarrow> asks_granted p (body_step v p e s)"
  by (cases "ru_phase s"; cases e)
    (simp_all add: body_step_def asks_finish asks_next_upload asks_running asks_collect)

lemma asks_outer: "asks_granted p s \<Longrightarrow> asks_granted p (outer_step p e s)"
  by (auto simp: outer_step_def used_revoke intro!: asks_enter asks_authority split: run_phase.splits run_event.splits sum.splits)

interpretation asks: transition_system "run_step v p" "asks_granted p" for v p
  by unfold_locales (simp add: run_step_def asks_body asks_outer)

lemma run_inv_asked: "coding_run_inv v p s \<Longrightarrow> asked (ru_calls s) \<le> 1"
  by (cases "ru_phase s") (auto simp: coding_run_inv_def torn_down_def opened_def)

text \<open>
  C34. In every interleaving the owner's subscription is asked at most once per run, with exactly the request built from the
  approved input, and only after a capability of that run granted it: its identifier is spent from then on.\<close>

theorem subscription_asked_once:
  "asked (ru_calls (foldl (run_step v p) (run_start a) es)) \<le> 1
    \<and> asks_granted p (foldl (run_step v p) (run_start a) es)"
proof
  show "asked (ru_calls (foldl (run_step v p) (run_start a) es)) \<le> 1"
    by (rule run_inv_asked [OF run.run_inv [OF run_start_inv]])
  have "asks_granted p (run_start a)" by (simp add: asks_granted_def run_start_def)
  then show "asks_granted p (foldl (run_step v p) (run_start a) es)" by (rule asks.run_inv)
qed

section \<open>Ends of a run\<close>

text \<open>
  No state of a run waits for ever: with the passing of the deadline, a failure of the recorder, and an answer of the
  manager and of the recorder, whatever it is, at most three events lead every state to a return.\<close>

theorem run_can_always_end:
  "\<exists>es r. length es \<le> 3 \<and> set es \<subseteq> {EvDeadline, EvRecord (Inl err), EvTerminate b, EvCleanup g}
    \<and> ru_phase (foldl (run_step v p) s es) = Returned r"
proof -
  have body: ?thesis if "in_body (ru_phase s)"
    using that by (intro exI [of _ "[EvDeadline, EvTerminate b, EvCleanup g]"])
      (simp add: run_step_def body_step_def outer_step_def finish_def)
  show ?thesis
  proof (cases "ru_phase s")
    case Creating
    then show ?thesis by (intro exI [of _ "[EvDeadline]"]) (simp add: run_step_def outer_step_def)
  next
    case Recording
    then show ?thesis by (intro exI [of _ "[EvRecord (Inl err), EvTerminate b, EvCleanup g]"]) (simp add: run_step_def outer_step_def)
  next
    case (Abandoning e)
    then show ?thesis by (intro exI [of _ "[EvTerminate b, EvCleanup g]"]) (simp add: run_step_def outer_step_def)
  next
    case (AbandonCleanup e ok)
    then show ?thesis by (intro exI [of _ "[EvCleanup g]"]) (simp add: run_step_def outer_step_def)
  next
    case (Terminating r)
    then show ?thesis by (intro exI [of _ "[EvTerminate b, EvCleanup g]"]) (simp add: run_step_def outer_step_def)
  next
    case (Cleaning r ok)
    then show ?thesis by (intro exI [of _ "[EvCleanup g]"]) (simp add: run_step_def outer_step_def)
  next
    case (Returned r)
    then show ?thesis by (intro exI [of _ "[]"]) simp
  qed (rule body, simp)+
qed

section \<open>A run that succeeds\<close>

text \<open>
  C35. A run that returns a result was bound end to end. The last events it heard are the accepted collection of the files, the
  successful termination and the successful recording of the outcome; before them it heard the subscription's answer to the
  request built from its input, the write of exactly that answer acknowledged without error, and one single result of the
  command, which exited with zero and did not time out. The result is made of that command's result and of the collected files, accepted for this very input.\<close>

theorem successful_run_is_complete:
  assumes "ru_phase s = Returned (Inr x)" and "s = foldl (run_step v p) (run_start a) es"
  shows "\<exists>arts ex d q out hs. heard v p a es = [EvCleanup True, EvTerminate True, EvCollect (Inr arts)] @ hs
    \<and> EvAdapter (Inr q) \<in> set hs \<and> cp_binding q = brokered_request (pr_input p)
    \<and> ev_response_json v q = Some out \<and> CallWriteResponse out \<in> set (ru_calls s) \<and> EvWrite (Inr ()) \<in> set hs
    \<and> filter exec_event hs = [EvExec (Inr ex)] \<and> ex_exit_code ex = Some 0 \<and> \<not> ex_timed_out ex
    \<and> validate_final_artifacts (ev_result_json v) arts (pr_input p) = Inr d \<and> x = run_result p ex arts d
    \<and> asked (ru_calls s) \<le> 1 \<and> CallCleanup True \<in> set (ru_calls s)"
proof -
  have "coding_run_inv v p s" unfolding assms(2) by (rule run.run_inv [OF run_start_inv])
  then have once: "asked (ru_calls s) \<le> 1" by (rule run_inv_asked)
  from run_heard [OF assms(2,1)] obtain hs0 where h: "heard v p a es = EvCleanup True # EvTerminate True # hs0"
      and r: "result_heard v p (ru_calls s) hs0 (Inr x)" and t: "torn_down v p (Inr x) True (ru_calls s) (ru_authority s)"
    unfolding phase_heard.simps by (auto split: if_splits)
  from r obtain ex arts d hs where c: "hs0 = EvCollect (Inr arts) # hs" "x = run_result p ex arts d"
      "validate_final_artifacts (ev_result_json v) arts (pr_input p) = Inr d" and w: "work_heard v p (Some ex) RelayDone (ru_calls s) hs"
    unfolding result_heard_def by blast
  from w obtain q out where q: "EvAdapter (Inr q) \<in> set hs" "cp_binding q = brokered_request (pr_input p)"
      "ev_response_json v q = Some out" "CallWriteResponse out \<in> set (ru_calls s)"
    by (auto simp: work_heard_def answered_def)
  have x: "filter exec_event hs = [EvExec (Inr ex)]" "ex_exit_code ex = Some 0" "\<not> ex_timed_out ex" "EvWrite (Inr ()) \<in> set hs"
    using w by (simp_all add: work_heard_def exec_heard_def)
  have "CallCleanup True \<in> set (ru_calls s)" using t by (auto simp: torn_down_def)
  moreover have "heard v p a es = [EvCleanup True, EvTerminate True, EvCollect (Inr arts)] @ hs" using h c(1) by simp
  ultimately show ?thesis using q x c(2,3) once by blast
qed

definition demo_envelope :: task_envelope where
  "demo_envelope = \<lparr>te_intent = ''inspect'', te_objective = ''inspect'', te_owner_constraints = [], te_recent_deltas = [],
     te_selected_facts = [], te_repository = demo_repository, te_base_commit_sha = demo_sha, te_session_id = ''session'',
     te_checkpoint = None, te_timeout_secs = 60, te_max_output_bytes = 4096\<rparr>"

definition demo_run_input :: sandbox_run_input where
  "demo_run_input = demo_input\<lparr>si_request_id := ''request'', si_run_id := ''run'', si_session_id := ''session'',
     si_budget_reservation_id := ''budget''\<rparr>"

definition demo_run_result :: sandbox_result_document where
  "demo_run_result = demo_result\<lparr>rd_request_id := ''request'', rd_run_id := ''run'', rd_session_id := ''session''\<rparr>"

definition demo_run_env :: run_env where
  "demo_run_env = \<lparr>ev_crypto = sample_crypto, ev_tar = demo_tar, ev_envelope_json = (\<lambda>e. Some ''{}''), ev_input_json = (\<lambda>i. Some ''{}''),
     ev_capability_json = (\<lambda>t. t),
     ev_channel_json = (\<lambda>b. Some \<lparr>cq_binding = demo_binding, cq_capability_token = demo_token, cq_task = demo_envelope\<rparr>),
     ev_response_json = (\<lambda>r. Some ''{}''), ev_result_json = (\<lambda>b. Some demo_run_result)\<rparr>"

definition demo_prepared :: prepared_run where
  "demo_prepared = \<lparr>pr_task = \<lparr>sk_task_id = ''run'', sk_codex_session_id = Some ''session'', sk_profile = PCodex,
       sk_command = CODEX_SANDBOX_COMMAND, sk_network_policy = profile_network_policy PCodex\<rparr>,
     pr_input = demo_run_input, pr_context = demo_envelope, pr_run_id = ''run'', pr_archive = ''tar'', pr_token = demo_token\<rparr>"

definition demo_executed :: execution_result where
  "demo_executed = \<lparr>ex_exit_code = Some 0, ex_timed_out = False, ex_stdout = [], ex_stderr = [], ex_duration_ms = 5\<rparr>"

definition demo_response :: task_channel_response where
  "demo_response = \<lparr>cp_binding = demo_binding, cp_outcome = OutCompleted, cp_summary = ''ok'', cp_patch_diff = []\<rparr>"

text \<open>The subscription answers before the command ends; a late cancellation has no effect.\<close>

definition demo_events :: "run_event list" where
  "demo_events = [EvCreate (Inr demo_sandbox_handle), EvRecord (Inr ()), EvPolicy (Inr ()), EvUpload (Inr ()), EvUpload (Inr ()),
     EvUpload (Inr ()), EvUpload (Inr ()), EvAvailable True, EvPoll False, EvRequest 40 (Inr None), EvPoll False, EvRequest 50 (Inr (Some ''{}'')),
     EvAdapter (Inr demo_response), EvWrite (Inr ()), EvExec (Inr demo_executed), EvCollect (Inr demo_artifacts), EvCancel,
     EvTerminate True, EvCleanup True]"

lemma demo_run_binding: "brokered_request (pr_input demo_prepared) = demo_binding"
  by (simp add: brokered_request_def demo_prepared_def demo_run_input_def demo_input_def demo_binding_def demo_sha_def)

lemma demo_run_final: "validate_final_artifacts (ev_result_json demo_run_env) demo_artifacts (pr_input demo_prepared) = Inr demo_run_result"
  by (simp add: validate_final_artifacts_def demo_run_env_def demo_prepared_def demo_run_input_def demo_run_result_def demo_artifacts_def
      demo_input_def demo_result_def MAX_RESPONSE_BYTES_def MAX_PATCH_BYTES_def MAX_SUMMARY_BYTES_def sat_add_def u64_max_def validate_patch_def)

definition demo_authority :: authority where
  "demo_authority = [(sha256 sample_crypto demo_token, demo_stored)]"

lemmas demo_steps = run_step_def outer_step_def body_step_def enter_def finish_def

lemma demo_run_opens:
  "\<exists>cs. foldl (run_step demo_run_env demo_prepared) (run_start demo_authority)
      [EvCreate (Inr demo_sandbox_handle), EvRecord (Inr ()), EvPolicy (Inr ()), EvUpload (Inr ()), EvUpload (Inr ()), EvUpload (Inr ()), EvUpload (Inr ())]
    = \<lparr>ru_phase = Running None RelayStart, ru_calls = cs, ru_authority = demo_authority\<rparr>"
  by (simp add: demo_steps run_start_def next_upload_def upload_files_def demo_run_env_def)

lemma demo_run_asks:
  "\<exists>cs' a. foldl (run_step demo_run_env demo_prepared) \<lparr>ru_phase = Running None RelayStart, ru_calls = cs, ru_authority = demo_authority\<rparr>
      [EvAvailable True, EvPoll False, EvRequest 40 (Inr None), EvPoll False, EvRequest 50 (Inr (Some ''{}''))]
    = \<lparr>ru_phase = Running None (RelayAsking demo_binding), ru_calls = cs', ru_authority = a\<rparr>"
proof -
  let ?q = "\<lparr>cq_binding = demo_binding, cq_capability_token = demo_token, cq_task = demo_envelope\<rparr>"
  obtain a where a: "authorize_raw sample_crypto demo_token demo_binding 1 50 demo_authority = (Inr (), a)"
    using demo_authorize by (auto simp: demo_authority_def)
  have env: "ev_crypto demo_run_env = sample_crypto" "ev_channel_json demo_run_env b = Some ?q" "pr_context demo_prepared = demo_envelope" for b
    by (simp_all add: demo_run_env_def demo_prepared_def)
  have "relay_request demo_run_env demo_prepared None 50 ''{}'' s
      = enter (Running None (RelayAsking demo_binding)) [CallAdapter demo_binding] (s\<lparr>ru_authority := a\<rparr>)"
    if "ru_authority s = demo_authority" for s
    by (simp add: relay_request_def env demo_run_binding that a [unfolded One_nat_def])
  then show ?thesis
    by (simp add: demo_steps running_step_def relay_step_def relay_poll_def)
qed

lemma demo_run_ends:
  "ru_phase (foldl (run_step demo_run_env demo_prepared) \<lparr>ru_phase = Running None (RelayAsking demo_binding), ru_calls = cs, ru_authority = a\<rparr>
      [EvAdapter (Inr demo_response), EvWrite (Inr ()), EvExec (Inr demo_executed), EvCollect (Inr demo_artifacts), EvCancel,
       EvTerminate True, EvCleanup True])
    = Returned (Inr (run_result demo_prepared demo_executed demo_artifacts demo_run_result))"
proof -
  have "relay_response demo_run_env None demo_binding (Inr demo_response) s = enter (Running None RelayWriting) [CallWriteResponse ''{}''] s"
    "exec_step RelayDone (Inr demo_executed) s = enter (Collecting demo_executed) [CallCollect] s"
    "collect_step demo_run_env demo_prepared demo_executed (Inr demo_artifacts) s
      = finish (Inr (run_result demo_prepared demo_executed demo_artifacts demo_run_result)) s" for s
    by (simp_all add: relay_response_def demo_response_def demo_run_env_def exec_step_def demo_executed_def joined_def collect_step_def
        demo_run_final [unfolded demo_run_env_def, simplified])
  then show ?thesis
    by (simp add: demo_steps running_step_def relay_step_def joined_def)
qed

lemma demo_run_returns:
  "ru_phase (foldl (run_step demo_run_env demo_prepared) (run_start demo_authority) demo_events)
    = Returned (Inr (run_result demo_prepared demo_executed demo_artifacts demo_run_result))"
proof -
  let ?f = "foldl (run_step demo_run_env demo_prepared)"
  let ?o = "[EvCreate (Inr demo_sandbox_handle), EvRecord (Inr ()), EvPolicy (Inr ()), EvUpload (Inr ()), EvUpload (Inr ()), EvUpload (Inr ()), EvUpload (Inr ())]"
  let ?q = "[EvAvailable True, EvPoll False, EvRequest 40 (Inr None), EvPoll False, EvRequest 50 (Inr (Some ''{}''))]"
  let ?e = "[EvAdapter (Inr demo_response), EvWrite (Inr ()), EvExec (Inr demo_executed), EvCollect (Inr demo_artifacts), EvCancel,
       EvTerminate True, EvCleanup True]"
  have "demo_events = ?o @ ?q @ ?e" by (simp only: demo_events_def append.simps)
  then have f: "?f s demo_events = ?f (?f (?f s ?o) ?q) ?e" for s by (metis foldl_append)
  obtain cs where cs: "?f (run_start demo_authority) ?o = \<lparr>ru_phase = Running None RelayStart, ru_calls = cs, ru_authority = demo_authority\<rparr>"
    using demo_run_opens by blast
  obtain cs' a where "?f \<lparr>ru_phase = Running None RelayStart, ru_calls = cs, ru_authority = demo_authority\<rparr> ?q
      = \<lparr>ru_phase = Running None (RelayAsking demo_binding), ru_calls = cs', ru_authority = a\<rparr>"
    using demo_run_asks by blast
  with cs show ?thesis unfolding f by (simp only: demo_run_ends)
qed

theorem successful_run_is_complete_witness:
  "\<exists>s x q arts hs. s = foldl (run_step demo_run_env demo_prepared) (run_start demo_authority) demo_events
    \<and> ru_phase s = Returned (Inr x)
    \<and> heard demo_run_env demo_prepared demo_authority demo_events = [EvCleanup True, EvTerminate True, EvCollect (Inr arts)] @ hs \<and> EvWrite (Inr ()) \<in> set hs \<and> EvAdapter (Inr q) \<in> set hs \<and> CallCleanup True \<in> set (ru_calls s)"
  using successful_run_is_complete [OF demo_run_returns refl] demo_run_returns by blast

theorem sandbox_is_torn_down_witness:
  "\<exists>s. s = foldl (run_step demo_run_env demo_prepared) (run_start [])
      [EvCreate (Inr demo_sandbox_handle), EvRecord (Inr ()), EvCancel, EvTerminate True, EvCleanup False]
    \<and> ru_phase s = Returned (Inl CleanupRequired) \<and> CallTerminate \<in> set (ru_calls s) \<and> run_dead ''run'' (ru_authority s)"
proof -
  let ?s = "foldl (run_step demo_run_env demo_prepared) (run_start [])
      [EvCreate (Inr demo_sandbox_handle), EvRecord (Inr ()), EvCancel, EvTerminate True, EvCleanup False]"
  have r: "ru_phase ?s = Returned (Inl CleanupRequired)" and c: "ru_calls ?s \<noteq> [CallCreate]"
    by (simp_all add: run_start_def run_step_def outer_step_def body_step_def finish_def enter_def)
  have "pr_run_id demo_prepared = ''run''" by (simp add: demo_prepared_def)
  with sandbox_is_torn_down [OF r refl] r c show ?thesis by auto
qed

end
