(* ===== verification/Spec2Isabelle.thy ===== *)
theory Spec2Isabelle
  imports Agent Strategy Gate Budget Pricing Rate_Limit Hub Router Config_Apply Peer Market_Data Paper_Service Identity_Run Coding_Run
begin

text \<open>
  A verification of the core of Personal Jarvis, a self-hosted assistant written in Rust. Clients talk
  to a home node (\<^verbatim>\<open>src/jarvis-api\<close>); the node answers with language models, may act on files, watches its
  spending, simulates on-chain trading, and lets the owner change protected settings by signed approval.
  The development models the parts that decide: what may be done, by whom, at what cost, in which order.

  \<^bold>\<open>Parts, sources and theories\<close>

  \<^item> \<open>Prelude\<close>, \<open>Strings\<close>: outcomes, maps, the interfaces below, and the parts of Rust's \<open>str\<close> and
    \<open>Path\<close> the code uses. A string is its UTF-8 bytes.
  \<^item> \<open>Policy\<close> (\<^verbatim>\<open>src/crates/policy\<close>): the capability policy.
  \<^item> \<open>Agent\<close> (\<^verbatim>\<open>src/crates/agent\<close>): the tool actions, their classification, the path sandbox and the executor.
  \<^item> \<open>Decimal\<close>, \<open>Token_Filter\<close>, \<open>Paper\<close>, \<open>Strategy\<close>, \<open>Gate\<close> (\<^verbatim>\<open>src/crates/onchain\<close>): the safety filter, simulated
    fills and the lot ledger, entry and exit decisions, and the gate to live trading.
  \<^item> \<open>Mint\<close>, \<open>Market_Http\<close>, \<open>Market_Data\<close> (\<^verbatim>\<open>src/crates/market-data\<close>): the mint account parser on 8-bit words, the
    pacing and capping of requests, the clients with the two-provider cross-check, and the token snapshot.
  \<^item> \<open>Paper_Profile\<close>, \<open>Paper_Store\<close>, \<open>Paper_Trader\<close>, \<open>Paper_Service\<close> (\<^verbatim>\<open>src/jarvis-api/src/memecoin.rs\<close>, \<^verbatim>\<open>memecoin/profile.rs\<close>,
    \<^verbatim>\<open>memecoin/store.rs\<close>, \<^verbatim>\<open>routes/meme.rs\<close>): the paper trader, its profile, its tables with their schema, the tick,
    and the service around it. \<open>Paper_Replay\<close> and \<open>Paper_Run\<close> hold the proofs on the stored history and the invariant of a tick.
  \<^item> \<open>Budget\<close>, \<open>Pricing\<close> (\<^verbatim>\<open>src/crates/usage\<close>, \<^verbatim>\<open>src/jarvis-api/src/budget_gate.rs\<close>): the monthly budget with its
    reservations, and the price registry.
  \<^item> \<open>Rate_Limit\<close>, \<open>Peer\<close> (\<^verbatim>\<open>src/jarvis-api/src/rate_limit.rs\<close>, \<^verbatim>\<open>peer.rs\<close>): who a request came from and how often
    it may ask.
  \<^item> \<open>Hub\<close> (\<^verbatim>\<open>src/jarvis-api/src/realtime/hub.rs\<close>, \<^verbatim>\<open>src/crates/client-core/src/realtime.rs\<close>): the event hub, the voice
    lease and the client's cursor.
  \<^item> \<open>Model_Access\<close>, \<open>Router\<close> (\<^verbatim>\<open>src/crates/llm\<close>): the owner's allowlist and routing as live cells, and the router that
    plans, tries and cools down backends.
  \<^item> \<open>Approval\<close>, \<open>Trusted_Keys\<close>, \<open>Broker\<close>, \<open>Config_Apply\<close> (\<^verbatim>\<open>src/crates/privileged\<close>, \<^verbatim>\<open>src/jarvis-api/src/broker_replay.rs\<close>,
    \<^verbatim>\<open>src/jarvis-api/src/bin/jarvis-config-broker.rs\<close>): the signed request, the pinned device keys, the single-use
    markers, and the change the root broker makes.
  \<^item> \<open>Identity_Tables\<close>, \<open>Identity\<close>, \<open>Account\<close> (\<^verbatim>\<open>src/crates/identity\<close>, \<^verbatim>\<open>src/crates/client-core/src/account.rs\<close>): the tables of
    users, devices, keys, challenges, sessions and account requests with every statement on them, the operations that
    run them, account actions, password recovery and the operations of local root. \<open>Identity_Inv\<close> and \<open>Identity_Run\<close>
    hold the proofs on runs of statements and on operations that other requests interrupt.
  \<^item> \<open>Sandbox\<close> (\<^verbatim>\<open>src/crates/sandbox\<close>): the client of the sandbox manager, its profiles, network policies and limits.
  \<^item> \<open>Coding\<close>, \<open>Coding_Snapshot\<close>, \<open>Coding_Run\<close> (\<^verbatim>\<open>src/crates/codex\<close>): approved coding work with its signed request, run
    capabilities, envelope, sessions and tasks; repository snapshots and the check of what a run hands back; the run
    itself, \<^verbatim>\<open>execute_in_sandbox_tracked\<close> with \<^verbatim>\<open>relay_once\<close>, as a state machine over events.

  How they interact: a device logs in and is then known by its session (\<open>Identity\<close>); the API derives the client address (\<open>Peer\<close>) and limits it (\<open>Rate_Limit\<close>); a chat request
  reserves budget (\<open>Budget\<close>, with estimates of \<open>Pricing\<close>) and goes to the router, which consults the live
  allowlist and routing (\<open>Model_Access\<close>); results are published on the hub. A change of allowlist or routing is
  signed on a device (\<open>Approval\<close>), admitted by the broker against pinned keys and markers (\<open>Trusted_Keys\<close>,
  \<open>Broker\<close>), written (\<open>Config_Apply\<close>), and then activated in the live cells by compare-and-swap. A token snapshot
  is built from cross-checked reads (\<open>Market_Data\<close>, \<open>Mint\<close>) and passes the filter, the strategy
  proposes a trade, the paper trader simulates and stores it, the ledger is rebuilt from the rows, and the gate
  judges the record. Coding work approved on a device is snapshotted from a reviewed mirror (\<open>Coding_Snapshot\<close>), runs in
  a disposable sandbox (\<open>Coding_Run\<close> over the calls of \<open>Sandbox\<close>) and reaches the owner's subscription only with a
  run capability (\<open>Coding\<close>).

  \<^bold>\<open>State and effects\<close>

  The state of a component is a record with the source's fields; each method is one function, which returns
  the new state where the source mutates it. A lock makes each method atomic, so a run is a list of steps in
  the order they take the lock. \<open>Result\<close> is a sum or the type \<open>res\<close>, in which a panic is an outcome of its own.
  A \<open>BTreeMap\<close> is a sorted, a \<open>HashMap\<close> a duplicate-free association list. Times are integers in nanoseconds.
  Unsigned integers are natural numbers with saturation and wrap-around written out where the code can reach
  them (\<open>sat_add\<close>, \<open>wrap64\<close>). An operation on the identity tables is a sequence of queries, each preceded by the
  statements of other requests; a query may fail with or without its effect. Live cells that the owner may change during a request are one observation per attempt. A request that the rate limiter
  watches is three steps, its arrival, the lockout and the answer of its handler, which interleave with those of other requests. What a tool of the agent does
  to the system is the list of files it wrote and programs it started. In a coding run
  each answer, cancellation and deadline is an event; the events come in any order.

  \<^bold>\<open>Interfaces\<close>

  \<open>finite_map\<close> is the contract of a Rust map, interpreted for both association lists. \<open>transition_system\<close> and its
  extension \<open>monotone_system\<close> are the contract of a component with an invariant (and a quantity that never goes
  back); they are interpreted for the ledger, the budget and its recorded spend, the hub, the live routing, the replay markers, the
  request pacer, the paper trader, the identity tables, the coding run and what it heard, and give the run lemmas. \<open>relied\<close> is the contract of a fact that
  other requests cannot undo, interpreted for each such fact of the identity store, and \<open>batched\<close> that of a loop
  of bounded deletions, interpreted for its three tables. \<open>cas_cell\<close> is the contract of a compare-and-swap cell, interpreted for the allowlist toggle
  and the routing.

  \<^bold>\<open>Parameters\<close>

  Code outside the repository is an argument: the decimal arithmetic of \<open>rust_decimal\<close> (laws \<open>decimal_laws\<close>, kept by a
  model with 96-bit mantissas), the rounding of binary floating point (\<open>ieee\<close>), the answers of the operating
  system and of the database to each call, the availability reported by the registry and the answers of model
  providers, hashing, signatures, hexadecimal and UUID codecs (\<open>crypto_laws\<close>, \<open>codec_laws\<close>, the latter kept by an
  explicit codec), JSON decoders, \<open>git\<close>, the \<open>tar\<close> reader and the sandbox manager. Each law is documented behaviour and has an instance.

  \<^bold>\<open>What the lemmas show\<close>

  \<^item> Authority: the policy and action classification in full; writes and reads stay in the sandbox and away
    from secrets, and any other action starts only its own git or search command there; a privileged change lands once, only for a fresh, signed, pinned approval, atomically and exactly
    as approved; signed bytes identify the request; discovery never grants; failing closed sticks.
  \<^item> Identity: a revoked device is out for good, every grant is signed by an active approver over the request read before, a
    challenge opens one session however its logins interleave, sessions live within their bounds and follow the password, the last approver
    stays, recoveries keep their distance, and retention removes exactly what expired.
  \<^item> Coding work: a capability grants at most four bound requests and none after its revocation; what an approval
    produces agrees with itself; only reviewed commits leave the registry; a run that returns has destroyed its sandbox, recorded
    that or asks for cleanup, and asked the subscription at most once; a success is bound to its input; commands survive quoting, and a
    termination is believed only from a complete listing.
  \<^item> Cost: no settlement or reservation passes the cap in any run, though a report of the usage table may show a spend above it; a restart re-adopts every hold, costs
    are never negative or silently free, no chain falls from a subscription to a metered model unless allowed, and
    every model call is authorised at the moment it is made.
  \<^item> Trading: the filter accepts exactly what the rules allow and learned rules only tighten; the ledger
    invariant, exact accounting and absence of panics; entries within limits, exits never blocked, floors of the gate;
    a loaded profile is well formed, the stored history recomputes after every run of the service, a pause holds, and a
    tick opens only what the filter accepted; the mint parser is exact and never panics, a mint is believed only from two agreeing hosts, and unknown market
    data is never accepted.
  \<^item> Availability: bounded queues and tables, login guesses bounded by the lockout and by how many an address has under way at once, bounded delays, a client that accepts every event,
    requests that end after the plan, backends that come back after a bounded cooldown, paced market-data requests.

  \<^bold>\<open>Termination and bounds\<close>

  Every loop of the source is structural recursion or has a measure: attempts recurse on the plan, trimming on the
  length, parsers on the input. The exception is the walk over an unpacked source tree, whose fuel counts the directories
  read; \<open>verify_terminates\<close> shows that more than 40000, the bound of the source on entries, is always enough.
  Bounds are the constants of the source.

  \<^bold>\<open>Not modelled\<close>

  The transport of remote services (model providers, brokers, push, the sandbox manager), the runtime inside the sandbox, queries of the database
  other than those of the paper trader, the budget and the identity store, process and socket handling, the command line, terminal and desktop front ends, audio, and HTTP handlers that
  only join the parts above. Poisoned locks are left out; the code reads them as deny.
\<close>

end
